(* ===== verification/Prelude.thy ===== *)
theory Prelude
  imports Complex_Main "HOL-Library.AList" "HOL-Library.Sublist"
    "HOL-Library.List_Lexorder" "HOL-Library.Char_ord"
begin

text \<open>
  Shared vocabulary of the development.

  Values of the Python program: a \<open>str\<close> is a \<^typ>\<open>string\<close> (one \<^typ>\<open>char\<close> per code point
  below 256), an \<open>int\<close> is an \<^typ>\<open>int\<close>, a \<open>float\<close> is a \<^typ>\<open>real\<close> (exact arithmetic; rounding,
  infinities and NaN are outside the model unless a component says otherwise), a \<open>datetime\<close> is
  \<open>datetime\<close> below, a \<open>dict\<close> is an association list in insertion order whose writes are
  \<open>AList.update\<close> (an existing key keeps its position, a new key goes last) and whose
  deletions are \<open>AList.delete\<close>. An exception is a value of \<open>exn\<close>; code that may raise
  returns \<open>exn + 'a\<close>.
\<close>

section \<open>Exceptions and results\<close>

text \<open>One constructor per exception class the modelled code raises, with its message.\<close>

datatype exn =
    ValueError string
  | TypeError string
  | KeyError string
  | FileNotFoundError string
  | InvalidTransitionError string
  | CorruptEventLogError string
  | EventConflictError string
  | AccessDeniedError string
  | SwarmContractError string
  | BudgetExceededError string
  | SwarmStateError string
  | CollaborationError string
  | EvaluationError string
  | BucketError string
  | RoutingScopeViolation string
  | AttributeError string
  | RuntimeError string
  | PermissionError string
  | ClaimRaced string

type_synonym 'a result = "exn + 'a"

text \<open>\<open>BudgetExceededError\<close> is a subclass of \<open>SwarmContractError\<close>, so an \<open>except
  SwarmContractError\<close> clause catches both.\<close>

fun is_contract_error :: "exn \<Rightarrow> bool" where
  "is_contract_error (SwarmContractError _) = True"
| "is_contract_error (BudgetExceededError _) = True"
| "is_contract_error _ = False"

fun is_budget_error :: "exn \<Rightarrow> bool" where
  "is_budget_error (BudgetExceededError _) = True"
| "is_budget_error _ = False"

fun is_state_error :: "exn \<Rightarrow> bool" where
  "is_state_error (SwarmStateError _) = True"
| "is_state_error _ = False"

text \<open>\<open>check\<close> is a sequence of \<open>if cond: raise exc\<close> statements before the rest of a body.\<close>

fun check :: "(bool \<times> exn) list \<Rightarrow> 'a result \<Rightarrow> 'a result" where
  "check [] r = r"
| "check ((c, e) # cs) r = (if c then Inl e else check cs r)"

text \<open>\<open>rbind\<close> runs a call that may raise and passes its value on.\<close>

fun rbind :: "'a result \<Rightarrow> ('a \<Rightarrow> 'b result) \<Rightarrow> 'b result" where
  "rbind (Inl e) f = Inl e"
| "rbind (Inr x) f = f x"

text \<open>A \<open>for\<close> loop whose body may raise: it stops at the first exception.\<close>

fun rfold :: "('x \<Rightarrow> 's \<Rightarrow> 's result) \<Rightarrow> 'x list \<Rightarrow> 's \<Rightarrow> 's result" where
  "rfold f [] s = Inr s"
| "rfold f (x # xs) s = rbind (f x s) (rfold f xs)"

fun rmap :: "('a \<Rightarrow> 'b result) \<Rightarrow> 'a list \<Rightarrow> 'b list result" where
  "rmap f [] = Inr []"
| "rmap f (x # xs) = rbind (f x) (\<lambda>y. rbind (rmap f xs) (\<lambda>ys. Inr (y # ys)))"

text \<open>\<open>sbind\<close> sequences calls on a state that keeps its writes when one of them raises.\<close>

fun sbind :: "'a result \<times> 's \<Rightarrow> ('a \<Rightarrow> 's \<Rightarrow> 'b result \<times> 's) \<Rightarrow> 'b result \<times> 's" where
  "sbind (Inl e, s) f = (Inl e, s)"
| "sbind (Inr x, s) f = f x s"

text \<open>A call that reads the state, may raise, and changes nothing.\<close>

definition pure_call :: "'a result \<Rightarrow> 's \<Rightarrow> 'a result \<times> 's" where
  "pure_call r s = (r, s)"

lemma check_Inr_iff [simp]:
  "check cs r = Inr v \<longleftrightarrow> list_all (\<lambda>(c, e). \<not> c) cs \<and> r = Inr v"
  by (induction cs r rule: check.induct) auto

lemma rbind_Inr_iff [simp]: "rbind r f = Inr v \<longleftrightarrow> (\<exists>x. r = Inr x \<and> f x = Inr v)"
  by (cases r) auto

lemma rbind_Inl_iff: "rbind r f = Inl e \<longleftrightarrow> r = Inl e \<or> (\<exists>x. r = Inr x \<and> f x = Inl e)"
  by (cases r) auto

lemma if_Inl_Inr_iff [simp]: "(if c then Inl e else r) = Inr v \<longleftrightarrow> \<not> c \<and> r = Inr v"
  by simp

lemma sbind_Inr_iff [simp]:
  "sbind r f = (Inr v, s') \<longleftrightarrow> (\<exists>x s. r = (Inr x, s) \<and> f x s = (Inr v, s'))"
  by (cases r; cases "fst r") auto

lemma pure_call_iff [simp]: "pure_call r s = (r', s') \<longleftrightarrow> r' = r \<and> s' = s"
  by (auto simp: pure_call_def)

text \<open>A property of the state that every call keeps, raising or not, is kept by the sequence.\<close>

lemma sbind_keeps:
  assumes "P (snd r)" and "\<And>x s. r = (Inr x, s) \<Longrightarrow> P s \<Longrightarrow> P (snd (f x s))"
  shows "P (snd (sbind r f))"
  using assms by (cases r; cases "fst r") auto

lemma rfold_append: "rfold f (xs @ ys) s = rbind (rfold f xs s) (rfold f ys)"
proof (induction xs arbitrary: s)
  case (Cons x xs)
  then show ?case by (cases "f x s") auto
qed simp

lemma rmap_in: "rmap g xs = Inr ys \<Longrightarrow> x \<in> set xs \<Longrightarrow> \<exists>y \<in> set ys. g x = Inr y"
  by (induction xs arbitrary: ys) auto

lemma rmap_set: "rmap g xs = Inr ys \<Longrightarrow> y \<in> set ys \<longleftrightarrow> (\<exists>x \<in> set xs. g x = Inr y)"
  by (induction xs arbitrary: ys) auto

lemma rmap_total: "\<forall>x \<in> set xs. \<exists>y. g x = Inr y \<Longrightarrow> \<exists>ys. rmap g xs = Inr ys"
  by (induction xs) auto

text \<open>An invariant kept by every iteration that does not raise holds at the end of the loop.\<close>

lemma rfold_invariant:
  assumes "rfold f xs s = Inr s'" and "P s"
    and "\<And>x s s'. x \<in> set xs \<Longrightarrow> P s \<Longrightarrow> f x s = Inr s' \<Longrightarrow> P s'"
  shows "P s'"
  using assms
proof (induction xs arbitrary: s)
  case (Cons x xs)
  then obtain t where "f x s = Inr t" "rfold f xs t = Inr s'" by auto
  with Cons show ?case by (metis list.set_intros)
qed simp

text \<open>A loop whose body never raises under an invariant does not raise.\<close>

lemma rfold_total:
  assumes "P s" and "\<And>x s. x \<in> set xs \<Longrightarrow> P s \<Longrightarrow> \<exists>s'. f x s = Inr s' \<and> P s'"
  shows "\<exists>s'. rfold f xs s = Inr s' \<and> P s'"
  using assms
proof (induction xs arbitrary: s)
  case (Cons x xs)
  from Cons.prems obtain t where "f x s = Inr t" "P t" by (metis list.set_intros(1))
  with Cons show ?case by (auto intro: Cons.IH)
qed simp

section \<open>Lists\<close>

lemma distinct_concat_nth:
  "distinct (concat xss) \<Longrightarrow> i < length xss \<Longrightarrow> j < length xss \<Longrightarrow> i \<noteq> j \<Longrightarrow> set (xss ! i) \<inter> set (xss ! j) = {}"
proof (induction xss arbitrary: i j)
  case (Cons xs xss)
  have "set xs \<inter> set (xss ! k) = {}" if "k < length xss" for k
    using Cons.prems(1) nth_mem [OF that] by auto
  with Cons show ?case by (cases i; cases j) (auto simp: Int_commute)
qed simp

section \<open>Strings\<close>

text \<open>\<open>str.isspace\<close> on one code point below 256.\<close>

definition py_isspace :: "char \<Rightarrow> bool" where
  "py_isspace c = (let n = (of_char c :: nat)
     in (9 \<le> n \<and> n \<le> 13) \<or> (28 \<le> n \<and> n \<le> 32) \<or> n = 133 \<or> n = 160)"

definition py_strip :: "string \<Rightarrow> string" where
  "py_strip s = rev (dropWhile py_isspace (rev (dropWhile py_isspace s)))"

text \<open>\<open>not s.strip()\<close>.\<close>

definition blank :: "string \<Rightarrow> bool" where
  "blank s = (py_strip s = [])"

text \<open>\<open>str.lower\<close> on code points below 256.\<close>

definition py_lower_char :: "char \<Rightarrow> char" where
  "py_lower_char c = (let n = (of_char c :: nat)
     in if (65 \<le> n \<and> n \<le> 90) \<or> (192 \<le> n \<and> n \<le> 222 \<and> n \<noteq> 215)
        then char_of (n + 32) else c)"

definition py_lower :: "string \<Rightarrow> string" where
  "py_lower s = map py_lower_char s"

fun py_join :: "string \<Rightarrow> string list \<Rightarrow> string" where
  "py_join sep [] = ''''"
| "py_join sep [s] = s"
| "py_join sep (s # t # ss) = s @ sep @ py_join sep (t # ss)"

text \<open>\<open>str.splitlines\<close>: a carriage return with a line feed after it is one break.\<close>

definition line_break :: "char \<Rightarrow> bool" where
  "line_break c = (let n = (of_char c :: nat) in (10 \<le> n \<and> n \<le> 13) \<or> (28 \<le> n \<and> n \<le> 30) \<or> n = 133)"

fun splitlines :: "string \<Rightarrow> string list" where
  "splitlines [] = []"
| "splitlines [c] = (if line_break c then [[]] else [[c]])"
| "splitlines (c # d # cs) =
     (if line_break c then [] # (if c = CHR 0x0D \<and> d = CHR 0x0A then splitlines cs else splitlines (d # cs))
      else case splitlines (d # cs) of [] \<Rightarrow> [[c]] | l # ls \<Rightarrow> (c # l) # ls)"

text \<open>\<open>needle in s\<close> for strings.\<close>

definition py_in :: "string \<Rightarrow> string \<Rightarrow> bool" where
  "py_in needle s = list_ex (prefix needle) (suffixes s)"

lemma blank_iff: "blank s \<longleftrightarrow> (\<forall>c \<in> set s. py_isspace c)"
proof
  assume "blank s"
  then have "\<forall>c \<in> set (rev (dropWhile py_isspace s)). py_isspace c"
    by (simp add: blank_def py_strip_def)
  then have "dropWhile py_isspace s = []"
    by (metis hd_dropWhile hd_in_set set_rev)
  then show "\<forall>c \<in> set s. py_isspace c" by (simp add: dropWhile_eq_Nil_conv)
next
  assume "\<forall>c \<in> set s. py_isspace c"
  then have "dropWhile py_isspace s = []" by (simp add: dropWhile_eq_Nil_conv)
  then show "blank s" unfolding blank_def py_strip_def by (simp only: rev.simps dropWhile.simps)
qed

lemma blank_Nil [simp]: "blank []"
  by (simp add: blank_iff)

lemma not_blank_nonempty: "\<not> blank s \<Longrightarrow> s \<noteq> []"
  by auto

text \<open>The class \<open>[0-9a-f]\<close>.\<close>

definition hex_char :: "char \<Rightarrow> bool" where
  "hex_char c = (let n = (of_char c :: nat) in (48 \<le> n \<and> n \<le> 57) \<or> (97 \<le> n \<and> n \<le> 102))"

section \<open>Integers as text\<close>

text \<open>\<open>str(n)\<close> of an \<open>int\<close>.\<close>

fun nat_digits :: "nat \<Rightarrow> string" where
  "nat_digits n = (if n < 10 then [char_of (48 + n)]
     else nat_digits (n div 10) @ [char_of (48 + n mod 10)])"

declare nat_digits.simps [simp del]

definition py_str :: "int \<Rightarrow> string" where
  "py_str i = (if i < 0 then CHR ''-'' # nat_digits (nat (- i)) else nat_digits (nat i))"

text \<open>\<open>int(s)\<close>: surrounding white space, an optional sign, digits with single underscores between.\<close>

definition is_digit :: "char \<Rightarrow> bool" where
  "is_digit c = (48 \<le> (of_char c :: nat) \<and> (of_char c :: nat) \<le> 57)"

fun parse_digits :: "nat \<Rightarrow> string \<Rightarrow> nat option" where
  "parse_digits acc [] = Some acc"
| "parse_digits acc (c # cs) =
     (if is_digit c then parse_digits (10 * acc + (of_char c - 48)) cs
      else if c = CHR ''_'' then
        (case cs of [] \<Rightarrow> None | d # _ \<Rightarrow> if is_digit d then parse_digits acc cs else None)
      else None)"

definition parse_nat :: "string \<Rightarrow> nat option" where
  "parse_nat s = (case s of [] \<Rightarrow> None | c # _ \<Rightarrow> if is_digit c then parse_digits 0 s else None)"

definition py_int :: "string \<Rightarrow> int option" where
  "py_int s = (case py_strip s of
       [] \<Rightarrow> None
     | c # cs \<Rightarrow> if c = CHR ''-'' then map_option (\<lambda>n. - int n) (parse_nat cs)
         else if c = CHR ''+'' then map_option int (parse_nat cs)
         else map_option int (parse_nat (c # cs)))"

lemma of_char_digit: "n < (10 :: nat) \<Longrightarrow> of_char (char_of (48 + n) :: char) = 48 + n"
  by simp

lemma nat_digits_digit: "c \<in> set (nat_digits n) \<Longrightarrow> is_digit c"
proof (induction n rule: nat_digits.induct)
  case (1 n)
  then show ?case
    by (auto simp: nat_digits.simps [of n] is_digit_def of_char_digit split: if_splits)
qed

lemma nat_digits_nonempty [simp]: "nat_digits n \<noteq> []"
  by (simp add: nat_digits.simps [of n])

lemma parse_digits_append_digits:
  "(\<And>c. c \<in> set ds \<Longrightarrow> is_digit c) \<Longrightarrow>
    parse_digits acc (ds @ cs) = parse_digits (foldl (\<lambda>a c. 10 * a + (of_char c - 48)) acc ds) cs"
  by (induction ds arbitrary: acc) auto

lemma foldl_nat_digits: "foldl (\<lambda>a c. 10 * a + ((of_char c :: nat) - 48)) 0 (nat_digits n) = n"
proof (induction n rule: nat_digits.induct)
  case (1 n)
  show ?case
  proof (cases "n < 10")
    case True
    then show ?thesis by (simp add: nat_digits.simps [of n] of_char_digit)
  next
    case False
    with 1 show ?thesis by (simp add: nat_digits.simps [of n] of_char_digit)
  qed
qed

lemma parse_nat_digits: "parse_nat (nat_digits n) = Some n"
proof -
  have "parse_digits 0 (nat_digits n @ []) = Some n"
    by (subst parse_digits_append_digits) (auto simp: foldl_nat_digits dest: nat_digits_digit)
  moreover obtain c cs where "nat_digits n = c # cs" by (meson nat_digits_nonempty neq_Nil_conv)
  moreover from this have "is_digit c" using nat_digits_digit [of c n] by simp
  ultimately show ?thesis by (simp add: parse_nat_def)
qed

lemma py_strip_nonspace: "(\<And>c. c \<in> set s \<Longrightarrow> \<not> py_isspace c) \<Longrightarrow> py_strip s = s"
proof -
  assume h: "\<And>c. c \<in> set s \<Longrightarrow> \<not> py_isspace c"
  have d: "dropWhile py_isspace t = t" if "set t \<subseteq> set s" for t
    using that h by (cases t) auto
  show ?thesis by (simp add: py_strip_def d)
qed

lemma digit_not_space: "is_digit c \<Longrightarrow> \<not> py_isspace c"
  by (auto simp: is_digit_def py_isspace_def Let_def)

lemma py_int_str: "py_int (py_str i) = Some i"
proof (cases "i < 0")
  case True
  have "py_strip (CHR ''-'' # nat_digits (nat (- i))) = CHR ''-'' # nat_digits (nat (- i))"
  proof (rule py_strip_nonspace)
    show "\<not> py_isspace c" if "c \<in> set (CHR ''-'' # nat_digits (nat (- i)))" for c
      using that nat_digits_digit digit_not_space by (auto simp: py_isspace_def [of "CHR ''-''"])
  qed
  with True show ?thesis by (simp add: py_int_def py_str_def parse_nat_digits)
next
  case False
  obtain c cs where c: "nat_digits (nat i) = c # cs" by (meson nat_digits_nonempty neq_Nil_conv)
  then have dig: "is_digit c" using nat_digits_digit [of c "nat i"] by simp
  then have sgn: "c \<noteq> CHR ''-''" "c \<noteq> CHR ''+''" by (auto simp: is_digit_def)
  have "py_strip (nat_digits (nat i)) = nat_digits (nat i)"
    by (rule py_strip_nonspace) (auto dest: nat_digits_digit digit_not_space)
  with False sgn c show ?thesis
    using parse_nat_digits [of "nat i"] by (simp add: py_int_def py_str_def)
qed

section \<open>Dates and JSON values\<close>

text \<open>A \<open>datetime\<close>: whether it carries a time zone, and its instant in microseconds. Ordering a
  naive and an aware value raises \<open>TypeError\<close>.\<close>

record datetime =
  dt_aware :: bool
  dt_instant :: int

definition dt_less :: "datetime \<Rightarrow> datetime \<Rightarrow> bool result" where
  "dt_less a b =
     (if dt_aware a \<noteq> dt_aware b then Inl (TypeError ''can't compare offset-naive and offset-aware datetimes'')
      else Inr (dt_instant a < dt_instant b))"

datatype json =
    JNull
  | JBool bool
  | JNum real
  | JStr string
  | JArr "json list"
  | JObj "(string \<times> json) list"

type_synonym payload = "(string \<times> json) list"

text \<open>\<open>bool(v)\<close> of a decoded JSON value.\<close>

fun truthy :: "json \<Rightarrow> bool" where
  "truthy JNull = False"
| "truthy (JBool b) = b"
| "truthy (JNum x) = (x \<noteq> 0)"
| "truthy (JStr s) = (s \<noteq> [])"
| "truthy (JArr xs) = (xs \<noteq> [])"
| "truthy (JObj d) = (d \<noteq> [])"

section \<open>Dictionaries\<close>

named_theorems dict_simps

abbreviation keys :: "('k \<times> 'v) list \<Rightarrow> 'k list" where
  "keys d \<equiv> map fst d"

abbreviation vals :: "('k \<times> 'v) list \<Rightarrow> 'v list" where
  "vals d \<equiv> map snd d"

abbreviation dput :: "'k \<Rightarrow> 'v \<Rightarrow> ('k \<times> 'v) list \<Rightarrow> ('k \<times> 'v) list" where
  "dput \<equiv> AList.update"

abbreviation ddel :: "'k \<Rightarrow> ('k \<times> 'v) list \<Rightarrow> ('k \<times> 'v) list" where
  "ddel \<equiv> AList.delete"

definition wf_dict :: "('k \<times> 'v) list \<Rightarrow> bool" where
  "wf_dict d = distinct (keys d)"

lemma wf_dict_Nil [simp]: "wf_dict []"
  by (simp add: wf_dict_def)

lemma wf_dict_dput [simp]: "wf_dict d \<Longrightarrow> wf_dict (dput k v d)"
  by (simp add: wf_dict_def AList.distinct_update)

lemma wf_dict_ddel [simp]: "wf_dict d \<Longrightarrow> wf_dict (ddel k d)"
  by (simp add: wf_dict_def AList.distinct_delete)

lemma map_of_dput [simp, dict_simps]: "map_of (dput k v d) = (map_of d)(k \<mapsto> v)"
  by (rule AList.update_conv')

lemma map_of_ddel [simp, dict_simps]: "map_of (ddel k d) = (map_of d)(k := None)"
  by (rule AList.delete_conv')

lemma in_vals_iff: "wf_dict d \<Longrightarrow> v \<in> set (vals d) \<longleftrightarrow> (\<exists>k. map_of d k = Some v)"
  unfolding wf_dict_def by force

lemma map_of_in_vals: "map_of d k = Some v \<Longrightarrow> v \<in> set (vals d)"
  by (force dest: map_of_SomeD)

lemma dput_fresh [dict_simps]: "map_of d k = None \<Longrightarrow> dput k v d = d @ [(k, v)]"
  by (induction d) (auto split: if_splits)

text \<open>A sum over the values of a dictionary, split at one key.\<close>

lemma sum_vals_ddel:
  fixes f :: "'v \<Rightarrow> 'n::comm_monoid_add"
  assumes "wf_dict d" and "map_of d k = Some v"
  shows "sum_list (map f (vals d)) = f v + sum_list (map f (vals (ddel k d)))"
  using assms
proof (induction d)
  case (Cons p d)
  show ?case
  proof (cases "fst p = k")
    case True
    with Cons.prems have "snd p = v" "k \<notin> set (keys d)"
      by (auto simp: wf_dict_def)
    then have "ddel k d = d" by (simp add: AList.delete_idem)
    with True \<open>snd p = v\<close> show ?thesis by (cases p) simp
  next
    case False
    with Cons show ?thesis
      by (simp add: wf_dict_def AList.delete_eq case_prod_beta ac_simps)
  qed
qed simp

lemma sum_vals_dput:
  fixes f :: "'v \<Rightarrow> 'n::comm_monoid_add"
  assumes "wf_dict d" and "map_of d k = Some v"
  shows "f v + sum_list (map f (vals (dput k w d))) = f w + sum_list (map f (vals d))"
  using assms
proof (induction d)
  case (Cons p d)
  show ?case
  proof (cases "fst p = k")
    case True
    with Cons.prems show ?thesis by (auto simp: wf_dict_def ac_simps)
  next
    case False
    with Cons have "f v + sum_list (map f (vals (dput k w d))) = f w + sum_list (map f (vals d))"
      by (auto simp: wf_dict_def)
    then have "f (snd p) + (f v + sum_list (map f (vals (dput k w d))))
        = f (snd p) + (f w + sum_list (map f (vals d)))" by simp
    with False show ?thesis by (cases p) (simp add: ac_simps)
  qed
qed simp

end
