(* ===== verification/Scheduler.thy ===== *)
theory Scheduler
  imports Prelude
begin

text \<open>
  The lease scheduler of the Evolution Arena (\<open>src/skharness/arena/scheduler.py\<close>): resource
  vectors, idempotent attempt requests, leases that expire on a monotonic clock, and the
  admission, heartbeat, cancellation, release and reclaim operations of \<open>LeaseScheduler\<close>.

  A method that reads the clock takes each reading as an argument, in the order the code takes
  them. \<open>uuid.uuid4().hex\<close> is an argument too. Every method runs under the scheduler's lock, so
  one call is one step.
\<close>

section \<open>Data\<close>

datatype AdmissionReason = CAPACITY | DUPLICATE | INVALID

record ResourceVector =
  cpu :: real
  ram_gb :: real
  gpu :: int
  vram_gb :: real
  gateway_slots :: int
  budget_units :: real
  verifier_slots :: int

text \<open>The dimensions of \<open>vars(resource_request)\<close>, in field order.\<close>

datatype dimension = Cpu | RamGb | Gpu | VramGb | GatewaySlots | BudgetUnits | VerifierSlots

definition dimensions :: "dimension list" where
  "dimensions = [Cpu, RamGb, Gpu, VramGb, GatewaySlots, BudgetUnits, VerifierSlots]"

fun dim_name :: "dimension \<Rightarrow> string" where
  "dim_name Cpu = ''cpu''"
| "dim_name RamGb = ''ram_gb''"
| "dim_name Gpu = ''gpu''"
| "dim_name VramGb = ''vram_gb''"
| "dim_name GatewaySlots = ''gateway_slots''"
| "dim_name BudgetUnits = ''budget_units''"
| "dim_name VerifierSlots = ''verifier_slots''"

text \<open>\<open>getattr(request, name)\<close>.\<close>

fun amount :: "dimension \<Rightarrow> ResourceVector \<Rightarrow> real" where
  "amount Cpu r = cpu r"
| "amount RamGb r = ram_gb r"
| "amount Gpu r = real_of_int (gpu r)"
| "amount VramGb r = vram_gb r"
| "amount GatewaySlots r = real_of_int (gateway_slots r)"
| "amount BudgetUnits r = budget_units r"
| "amount VerifierSlots r = real_of_int (verifier_slots r)"

text \<open>Construction runs \<open>__post_init__\<close>: the first negative field raises.\<close>

definition ResourceRequest :: "ResourceVector \<Rightarrow> ResourceVector result" where
  "ResourceRequest r =
     check (map (\<lambda>d. (amount d r < 0, ValueError (dim_name d @ '' must be non-negative''))) dimensions)
       (Inr r)"

definition fits :: "ResourceVector \<Rightarrow> ResourceVector \<Rightarrow> bool" where
  "fits self available = list_all (\<lambda>d. amount d self \<le> amount d available) dimensions"

definition plus_resources :: "ResourceVector \<Rightarrow> ResourceVector \<Rightarrow> ResourceVector result" where
  "plus_resources self other = ResourceRequest
     \<lparr>cpu = cpu self + cpu other, ram_gb = ram_gb self + ram_gb other, gpu = gpu self + gpu other,
      vram_gb = vram_gb self + vram_gb other, gateway_slots = gateway_slots self + gateway_slots other,
      budget_units = budget_units self + budget_units other,
      verifier_slots = verifier_slots self + verifier_slots other\<rparr>"

definition minus_resources :: "ResourceVector \<Rightarrow> ResourceVector \<Rightarrow> ResourceVector result" where
  "minus_resources self other = ResourceRequest
     \<lparr>cpu = cpu self - cpu other, ram_gb = ram_gb self - ram_gb other, gpu = gpu self - gpu other,
      vram_gb = vram_gb self - vram_gb other, gateway_slots = gateway_slots self - gateway_slots other,
      budget_units = budget_units self - budget_units other,
      verifier_slots = verifier_slots self - verifier_slots other\<rparr>"

record AttemptRequest =
  challenge_id :: string
  experiment_id :: string
  attempt_id :: string
  idempotency_key :: string
  resources :: ResourceVector

definition mk_AttemptRequest :: "AttemptRequest \<Rightarrow> AttemptRequest result" where
  "mk_AttemptRequest r = check
     [(blank (challenge_id r), ValueError ''challenge_id must not be empty''),
      (blank (experiment_id r), ValueError ''experiment_id must not be empty''),
      (blank (attempt_id r), ValueError ''attempt_id must not be empty''),
      (blank (idempotency_key r), ValueError ''idempotency_key must not be empty'')] (Inr r)"

text \<open>A \<open>Lease\<close> is a mutable object: \<open>lease_oid\<close> is its identity, what Python's \<open>is\<close> compares.\<close>

record Lease =
  lease_id :: string
  request :: AttemptRequest
  acquired_at :: real
  expires_at :: real
  cancelled :: bool
  lease_oid :: nat

definition lease_active :: "Lease \<Rightarrow> real \<Rightarrow> bool" where
  "lease_active l now = (\<not> cancelled l \<and> now < expires_at l)"

record Admission =
  admitted :: bool
  adm_lease :: "Lease option"
  reason :: "AdmissionReason option"
  duplicate :: bool
  blocked_resources :: "string list"

record LeaseScheduler =
  capacity :: ResourceVector
  lease_ttl_s :: real
  leases :: "(string \<times> Lease) list"
  by_key :: "(string \<times> string) list"
  next_oid :: nat

section \<open>Operations\<close>

definition new_scheduler :: "ResourceVector \<Rightarrow> real \<Rightarrow> LeaseScheduler result" where
  "new_scheduler cap ttl = check [(ttl \<le> 0, ValueError ''lease_ttl_s must be positive'')]
     (Inr \<lparr>capacity = cap, lease_ttl_s = ttl, leases = [], by_key = [], next_oid = 0\<rparr>)"

definition active_leases :: "LeaseScheduler \<Rightarrow> real \<Rightarrow> Lease list" where
  "active_leases s now = filter (\<lambda>l. lease_active l now) (vals (leases s))"

definition no_resources :: ResourceVector where
  "no_resources = \<lparr>cpu = 0, ram_gb = 0, gpu = 0, vram_gb = 0, gateway_slots = 0,
     budget_units = 0, verifier_slots = 0\<rparr>"

definition used :: "LeaseScheduler \<Rightarrow> real \<Rightarrow> ResourceVector result" where
  "used s now = rbind (ResourceRequest no_resources)
     (rfold (\<lambda>l total. plus_resources total (resources (request l))) (active_leases s now))"

definition available :: "LeaseScheduler \<Rightarrow> real \<Rightarrow> ResourceVector result" where
  "available s now = rbind (used s now) (\<lambda>u. minus_resources (capacity s) u)"

definition refused :: "AdmissionReason \<Rightarrow> string list \<Rightarrow> Admission" where
  "refused r blocked = \<lparr>admitted = False, adm_lease = None, reason = Some r,
     duplicate = False, blocked_resources = blocked\<rparr>"

definition granted :: "Lease \<Rightarrow> bool \<Rightarrow> Admission" where
  "granted l dup = \<lparr>admitted = True, adm_lease = Some l, reason = None,
     duplicate = dup, blocked_resources = []\<rparr>"

text \<open>The part of \<open>admit\<close> after the duplicate check: capacity, then a new lease. \<open>t1\<close> is the
  clock read by the \<open>available()\<close> of the capacity test, \<open>t2\<close> that of the second
  \<open>available()\<close>, which lists the blocked dimensions.\<close>

definition admit_new ::
    "AttemptRequest \<Rightarrow> string \<Rightarrow> real \<Rightarrow> real \<Rightarrow> real \<Rightarrow> LeaseScheduler
      \<Rightarrow> (Admission \<times> LeaseScheduler) result" where
  "admit_new req uuid now t1 t2 s =
     rbind (available s t1) (\<lambda>avail.
       if \<not> fits (resources req) avail then
         rbind (available s t2) (\<lambda>avail2.
           Inr (refused CAPACITY
             (map dim_name (filter (\<lambda>d. amount d (resources req) > amount d avail2) dimensions)), s))
       else
         (let lease = \<lparr>lease_id = uuid, request = req, acquired_at = now,
                       expires_at = now + lease_ttl_s s, cancelled = False, lease_oid = next_oid s\<rparr>
          in Inr (granted lease False,
                  s\<lparr>leases := dput uuid lease (leases s),
                    by_key := dput (idempotency_key req) uuid (by_key s),
                    next_oid := next_oid s + 1\<rparr>)))"

definition admit ::
    "AttemptRequest \<Rightarrow> string \<Rightarrow> real \<Rightarrow> real \<Rightarrow> real \<Rightarrow> LeaseScheduler
      \<Rightarrow> (Admission \<times> LeaseScheduler) result" where
  "admit req uuid now t1 t2 s =
     (case map_of (by_key s) (idempotency_key req) of
        None \<Rightarrow> admit_new req uuid now t1 t2 s
      | Some existing_id \<Rightarrow>
          if existing_id = [] then admit_new req uuid now t1 t2 s
          else (case map_of (leases s) existing_id of
              None \<Rightarrow> Inl (KeyError existing_id)
            | Some existing \<Rightarrow>
                if request existing \<noteq> req then Inr (refused DUPLICATE [], s)
                else if lease_active existing now then Inr (granted existing True, s)
                else admit_new req uuid now t1 t2 s))"

definition heartbeat :: "string \<Rightarrow> real \<Rightarrow> LeaseScheduler \<Rightarrow> Lease option \<times> LeaseScheduler" where
  "heartbeat lid now s =
     (case map_of (leases s) lid of
        None \<Rightarrow> (None, s)
      | Some lease \<Rightarrow>
          if \<not> lease_active lease now then (None, s)
          else (let lease' = lease\<lparr>expires_at := now + lease_ttl_s s\<rparr>
                in (Some lease', s\<lparr>leases := dput lid lease' (leases s)\<rparr>)))"

definition active_lease :: "string \<Rightarrow> real \<Rightarrow> LeaseScheduler \<Rightarrow> Lease option" where
  "active_lease lid now s =
     (case map_of (leases s) lid of
        None \<Rightarrow> None
      | Some lease \<Rightarrow> if lease_active lease now then Some lease else None)"

definition cancel_lease :: "string \<Rightarrow> LeaseScheduler \<Rightarrow> bool \<times> LeaseScheduler" where
  "cancel_lease lid s =
     (case map_of (leases s) lid of
        None \<Rightarrow> (False, s)
      | Some lease \<Rightarrow> (True, s\<lparr>leases := dput lid (lease\<lparr>cancelled := True\<rparr>) (leases s)\<rparr>))"

definition release :: "string \<Rightarrow> LeaseScheduler \<Rightarrow> bool \<times> LeaseScheduler" where
  "release lid s =
     (case map_of (leases s) lid of
        None \<Rightarrow> (False, s)
      | Some lease \<Rightarrow>
          (let key = idempotency_key (request lease);
               s' = s\<lparr>leases := ddel lid (leases s)\<rparr>
           in if map_of (by_key s') key = Some lid
              then (True, s'\<lparr>by_key := ddel key (by_key s')\<rparr>)
              else (True, s')))"

definition expired_leases :: "real \<Rightarrow> LeaseScheduler \<Rightarrow> Lease list" where
  "expired_leases now s = filter (\<lambda>l. \<not> cancelled l \<and> expires_at l \<le> now) (vals (leases s))"

definition reclaim_expired :: "real \<Rightarrow> LeaseScheduler \<Rightarrow> Lease list \<times> LeaseScheduler" where
  "reclaim_expired now s =
     (let expired = expired_leases now s
      in (expired, fold (\<lambda>l s. snd (release (lease_id l) s)) expired s))"

record scheduler_snapshot =
  snap_active_leases :: nat
  snap_capacity :: ResourceVector
  snap_used :: ResourceVector
  snap_available :: ResourceVector
  snap_next_expiry_s :: "real option"

definition snapshot :: "real \<Rightarrow> real \<Rightarrow> real \<Rightarrow> LeaseScheduler \<Rightarrow> scheduler_snapshot result" where
  "snapshot now t1 t2 s =
     (let active = active_leases s now; left = map (\<lambda>l. max 0 (expires_at l - now)) active
      in rbind (used s t1) (\<lambda>u. rbind (available s t2) (\<lambda>a.
           Inr \<lparr>snap_active_leases = length active, snap_capacity = capacity s,
                snap_used = u, snap_available = a,
                snap_next_expiry_s = (if left = [] then None else Some (Min (set left)))\<rparr>)))"

record lease_record =
  rec_lease_id :: string
  rec_challenge_id :: string
  rec_experiment_id :: string
  rec_attempt_id :: string
  rec_acquired_at :: real
  rec_expires_in_s :: real
  rec_resources :: ResourceVector

definition lease_records :: "real \<Rightarrow> LeaseScheduler \<Rightarrow> lease_record list" where
  "lease_records now s =
     map (\<lambda>l. \<lparr>rec_lease_id = lease_id l, rec_challenge_id = challenge_id (request l),
                rec_experiment_id = experiment_id (request l),
                rec_attempt_id = attempt_id (request l), rec_acquired_at = acquired_at l,
                rec_expires_in_s = max 0 (expires_at l - now),
                rec_resources = resources (request l)\<rparr>)
       (sort_key lease_id (active_leases s now))"

section \<open>Resource vectors\<close>

definition nonneg :: "ResourceVector \<Rightarrow> bool" where
  "nonneg r = (\<forall>d. 0 \<le> amount d r)"

lemma set_dimensions [simp]: "set dimensions = UNIV"
proof -
  have "d \<in> set dimensions" for d by (cases d) (simp_all add: dimensions_def)
  then show ?thesis by blast
qed

lemma all_dimensions: "list_all P dimensions \<longleftrightarrow> (\<forall>d. P d)"
  by (simp add: list_all_iff)

lemma ResourceRequest_Inr_iff [simp]: "ResourceRequest r = Inr r' \<longleftrightarrow> r' = r \<and> nonneg r"
  by (auto simp: ResourceRequest_def nonneg_def list.pred_map comp_def all_dimensions not_less)

lemma fits_iff: "fits a b \<longleftrightarrow> (\<forall>d. amount d a \<le> amount d b)"
  by (simp add: fits_def all_dimensions)

lemma plus_resources_amount:
  "plus_resources a b = Inr c \<Longrightarrow> amount d c = amount d a + amount d b"
  by (cases d) (auto simp: plus_resources_def)

lemma minus_resources_amount:
  "minus_resources a b = Inr c \<Longrightarrow> amount d c = amount d a - amount d b"
  by (cases d) (auto simp: minus_resources_def)

lemma plus_resources_total:
  assumes "nonneg a" and "nonneg b"
  shows "\<exists>c. plus_resources a b = Inr c \<and> nonneg c"
proof -
  let ?c = "\<lparr>cpu = cpu a + cpu b, ram_gb = ram_gb a + ram_gb b, gpu = gpu a + gpu b,
      vram_gb = vram_gb a + vram_gb b, gateway_slots = gateway_slots a + gateway_slots b,
      budget_units = budget_units a + budget_units b, verifier_slots = verifier_slots a + verifier_slots b\<rparr>"
  have "amount d ?c = amount d a + amount d b" for d by (cases d) auto
  with assms have "nonneg ?c" by (simp add: nonneg_def)
  then show ?thesis by (simp add: plus_resources_def)
qed

lemma minus_resources_total:
  assumes "fits b a"
  shows "\<exists>c. minus_resources a b = Inr c \<and> nonneg c"
proof -
  let ?c = "\<lparr>cpu = cpu a - cpu b, ram_gb = ram_gb a - ram_gb b, gpu = gpu a - gpu b,
      vram_gb = vram_gb a - vram_gb b, gateway_slots = gateway_slots a - gateway_slots b,
      budget_units = budget_units a - budget_units b, verifier_slots = verifier_slots a - verifier_slots b\<rparr>"
  have "amount d ?c = amount d a - amount d b" for d by (cases d) auto
  with assms have "nonneg ?c" by (simp add: nonneg_def fits_iff)
  then show ?thesis by (simp add: minus_resources_def)
qed

lemma minus_resources_Inr: "minus_resources a b = Inr c \<Longrightarrow> fits b a"
proof -
  assume h: "minus_resources a b = Inr c"
  then have "nonneg c" by (auto simp: minus_resources_def)
  with minus_resources_amount [OF h] show ?thesis by (simp add: nonneg_def fits_iff)
qed

section \<open>The load of the active leases\<close>

definition weight :: "dimension \<Rightarrow> real \<Rightarrow> Lease \<Rightarrow> real" where
  "weight d now l = (if lease_active l now then amount d (resources (request l)) else 0)"

definition load :: "dimension \<Rightarrow> LeaseScheduler \<Rightarrow> real \<Rightarrow> real" where
  "load d s now = sum_list (map (weight d now) (vals (leases s)))"

definition valid_leases :: "LeaseScheduler \<Rightarrow> bool" where
  "valid_leases s = (\<forall>l \<in> set (vals (leases s)). nonneg (resources (request l)))"

lemma valid_leasesD:
  "valid_leases s \<Longrightarrow> map_of (leases s) i = Some l \<Longrightarrow> nonneg (resources (request l))"
  unfolding valid_leases_def by (blast dest: map_of_in_vals)

lemma valid_leasesI:
  "wf_dict (leases s) \<Longrightarrow> (\<And>i l. map_of (leases s) i = Some l \<Longrightarrow> nonneg (resources (request l)))
    \<Longrightarrow> valid_leases s"
  unfolding valid_leases_def by (metis in_vals_iff)

lemma rfold_plus_total:
  assumes "nonneg r" and "\<forall>l \<in> set ls. nonneg (resources (request l))"
  shows "\<exists>u. rfold (\<lambda>l total. plus_resources total (resources (request l))) ls r = Inr u \<and> nonneg u
    \<and> (\<forall>d. amount d u = amount d r + sum_list (map (\<lambda>l. amount d (resources (request l))) ls))"
  using assms
proof (induction ls arbitrary: r)
  case (Cons l ls)
  then obtain c where c: "plus_resources r (resources (request l)) = Inr c" "nonneg c"
    using plus_resources_total [of r "resources (request l)"] by auto
  with Cons.IH [of c] Cons.prems show ?case
    by (auto simp: plus_resources_amount [OF c(1)] algebra_simps)
qed simp

lemma load_eq:
  "load d s now = sum_list (map (\<lambda>l. amount d (resources (request l))) (active_leases s now))"
  unfolding load_def active_leases_def sum_list_map_filter' weight_def ..

lemma used_total:
  assumes "valid_leases s"
  shows "\<exists>u. used s now = Inr u \<and> nonneg u \<and> (\<forall>d. amount d u = load d s now)"
proof -
  have z0: "amount d no_resources = 0" for d
    by (cases d) (simp_all add: no_resources_def)
  then have z: "nonneg no_resources" by (simp add: nonneg_def)
  have "\<forall>l \<in> set (active_leases s now). nonneg (resources (request l))"
    using assms by (auto simp: active_leases_def valid_leases_def)
  from rfold_plus_total [OF z this] z z0 show ?thesis
    by (auto simp: used_def load_eq)
qed

lemma used_Inr_amount: "valid_leases s \<Longrightarrow> used s now = Inr u \<Longrightarrow> amount d u = load d s now"
  by (drule used_total [where now = now]) auto

text \<open>\<open>available\<close> raises exactly when the active leases overrun the capacity.\<close>

definition within_capacity :: "LeaseScheduler \<Rightarrow> real \<Rightarrow> bool" where
  "within_capacity s now = (\<forall>d. load d s now \<le> amount d (capacity s))"

lemma available_total:
  assumes "valid_leases s" and "within_capacity s now"
  shows "\<exists>a. available s now = Inr a \<and> (\<forall>d. amount d a = amount d (capacity s) - load d s now)"
proof -
  from used_total [OF assms(1)] obtain u
    where u: "used s now = Inr u" "\<And>d. amount d u = load d s now" by blast
  with assms(2) have "fits u (capacity s)" by (simp add: fits_iff within_capacity_def)
  from minus_resources_total [OF this] obtain a where a: "minus_resources (capacity s) u = Inr a"
    by blast
  with u show ?thesis
    by (auto simp: available_def minus_resources_amount [OF a])
qed

lemma available_Inr_amount:
  assumes "valid_leases s" and "available s now = Inr a"
  shows "amount d a = amount d (capacity s) - load d s now"
proof -
  from assms obtain u where u: "used s now = Inr u" "minus_resources (capacity s) u = Inr a"
    by (auto simp: available_def)
  then show ?thesis
    using minus_resources_amount [OF u(2)] used_Inr_amount [OF assms(1) u(1)] by simp
qed

lemma weight_antimono:
  "nonneg (resources (request l)) \<Longrightarrow> now \<le> now' \<Longrightarrow> weight d now' l \<le> weight d now l"
  by (auto simp: weight_def lease_active_def nonneg_def)

lemma load_antimono:
  assumes "valid_leases s" and "now \<le> now'"
  shows "load d s now' \<le> load d s now"
  unfolding load_def
  by (rule sum_list_mono) (use assms in \<open>auto simp: valid_leases_def intro: weight_antimono\<close>)

lemma within_capacity_later:
  "valid_leases s \<Longrightarrow> within_capacity s now \<Longrightarrow> now \<le> now' \<Longrightarrow> within_capacity s now'"
  unfolding within_capacity_def using load_antimono by (meson order_trans)

section \<open>The scheduler invariant\<close>

text \<open>
  \<open>index_ok\<close>: every index entry names a lease of that key, and the leases are stored under their
  own ids. \<open>sched_inv now\<close> adds what holds from time \<open>now\<close> on: the active leases fit the
  capacity, and an active lease is the one its idempotency key names.
\<close>

definition index_ok :: "LeaseScheduler \<Rightarrow> bool" where
  "index_ok s \<longleftrightarrow> wf_dict (leases s) \<and> wf_dict (by_key s)
     \<and> (\<forall>i l. map_of (leases s) i = Some l \<longrightarrow> lease_id l = i \<and> i \<noteq> [])
     \<and> (\<forall>k i. map_of (by_key s) k = Some i \<longrightarrow>
           (\<exists>l. map_of (leases s) i = Some l \<and> idempotency_key (request l) = k))"

definition keyed :: "LeaseScheduler \<Rightarrow> real \<Rightarrow> bool" where
  "keyed s now \<longleftrightarrow> (\<forall>i l. map_of (leases s) i = Some l \<longrightarrow> lease_active l now \<longrightarrow>
     map_of (by_key s) (idempotency_key (request l)) = Some i)"

definition sched_inv :: "real \<Rightarrow> LeaseScheduler \<Rightarrow> bool" where
  "sched_inv now s \<longleftrightarrow> index_ok s \<and> valid_leases s \<and> nonneg (capacity s) \<and> 0 < lease_ttl_s s
     \<and> within_capacity s now \<and> keyed s now"

lemmas sched_inv_defs = sched_inv_def index_ok_def keyed_def

lemma sched_inv_index: "sched_inv now s \<Longrightarrow> index_ok s"
  by (simp add: sched_inv_def)

lemma index_okI:
  assumes "wf_dict (leases s)" and "wf_dict (by_key s)"
    and "\<And>i l. map_of (leases s) i = Some l \<Longrightarrow> lease_id l = i \<and> i \<noteq> []"
    and "\<And>k i. map_of (by_key s) k = Some i \<Longrightarrow>
      \<exists>l. map_of (leases s) i = Some l \<and> idempotency_key (request l) = k"
  shows "index_ok s"
  using assms unfolding index_ok_def by blast

lemma index_okD:
  "index_ok s \<Longrightarrow> map_of (leases s) i = Some l \<Longrightarrow> lease_id l = i"
  "index_ok s \<Longrightarrow> map_of (leases s) i = Some l \<Longrightarrow> i \<noteq> []"
  "index_ok s \<Longrightarrow> map_of (by_key s) k = Some i \<Longrightarrow>
     \<exists>l. map_of (leases s) i = Some l \<and> idempotency_key (request l) = k"
  unfolding index_ok_def by blast+

lemma index_ok_wf [simp]: "index_ok s \<Longrightarrow> wf_dict (leases s)" "index_ok s \<Longrightarrow> wf_dict (by_key s)"
  by (simp_all add: index_ok_def)

lemma lease_active_earlier: "lease_active l now' \<Longrightarrow> now \<le> now' \<Longrightarrow> lease_active l now"
  by (simp add: lease_active_def)

lemma sched_inv_later: "sched_inv now s \<Longrightarrow> now \<le> now' \<Longrightarrow> sched_inv now' s"
  by (auto simp: sched_inv_def keyed_def within_capacity_later dest: lease_active_earlier)

lemma sched_inv_new:
  assumes "new_scheduler cap ttl = Inr s" and "nonneg cap"
  shows "sched_inv now s"
proof -
  from assms(1) have s: "capacity s = cap" "0 < lease_ttl_s s" "leases s = []" "by_key s = []"
    unfolding new_scheduler_def by auto
  with assms(2) show ?thesis
    by (simp add: sched_inv_defs valid_leases_def within_capacity_def load_def nonneg_def)
qed

text \<open>Replacing a lease by one that is active only when the old one was, with the same request,
  keeps the invariant; heartbeat and cancellation are two instances.\<close>

lemma sched_inv_replace:
  assumes inv: "sched_inv now s" and old: "map_of (leases s) i = Some l"
    and id: "lease_id l' = lease_id l" and req: "request l' = request l"
    and act: "lease_active l' now \<Longrightarrow> lease_active l now"
  shows "sched_inv now (s\<lparr>leases := dput i l' (leases s)\<rparr>)"
proof -
  let ?s = "s\<lparr>leases := dput i l' (leases s)\<rparr>"
  have wf: "wf_dict (leases s)" using inv by (simp add: sched_inv_index)
  have nn: "nonneg (resources (request l))"
    using inv old by (auto simp: sched_inv_def intro: valid_leasesD)
  have "load d ?s now \<le> load d s now" for d
  proof -
    have "weight d now l + load d ?s now = weight d now l' + load d s now"
      unfolding load_def using sum_vals_dput [OF wf old] by simp
    moreover have "weight d now l' \<le> weight d now l"
      using nn act by (auto simp: weight_def req nonneg_def)
    ultimately show ?thesis by simp
  qed
  then have "within_capacity ?s now"
    using inv unfolding sched_inv_def within_capacity_def by (auto intro: order_trans)
  moreover have "valid_leases ?s"
    by (rule valid_leasesI) (use inv nn wf in \<open>auto simp: sched_inv_def req intro: valid_leasesD
        split: if_splits\<close>)
  moreover have "index_ok ?s"
    using inv old wf unfolding sched_inv_def index_ok_def by (auto simp: id req) (metis option.inject)
  moreover have "keyed ?s now"
    using inv old act unfolding sched_inv_def keyed_def by (auto simp: req)
  ultimately show ?thesis using inv by (simp add: sched_inv_def)
qed

lemma sched_inv_heartbeat:
  assumes "sched_inv now s"
  shows "sched_inv now (snd (heartbeat i now s))"
proof (cases "map_of (leases s) i")
  case (Some l)
  show ?thesis
  proof (cases "lease_active l now")
    case True
    with assms Some show ?thesis
      using sched_inv_replace [OF assms Some, of "l\<lparr>expires_at := now + lease_ttl_s s\<rparr>"]
      by (simp add: heartbeat_def Let_def)
  qed (use assms Some in \<open>simp add: heartbeat_def\<close>)
qed (use assms in \<open>simp add: heartbeat_def\<close>)

lemma sched_inv_cancel:
  assumes "sched_inv now s"
  shows "sched_inv now (snd (cancel_lease i s))"
proof (cases "map_of (leases s) i")
  case (Some l)
  have "sched_inv now (s\<lparr>leases := dput i (l\<lparr>cancelled := True\<rparr>) (leases s)\<rparr>)"
    by (rule sched_inv_replace [OF assms Some]) (simp_all add: lease_active_def)
  with Some show ?thesis by (simp add: cancel_lease_def)
qed (use assms in \<open>simp add: cancel_lease_def\<close>)

lemma leases_release [simp]: "leases (snd (release i s)) = ddel i (leases s)"
proof (cases "map_of (leases s) i")
  case None
  then have "i \<notin> set (keys (leases s))" by (simp add: map_of_eq_None_iff)
  with None show ?thesis by (simp add: release_def AList.delete_idem)
qed (simp add: release_def Let_def)

lemma capacity_release [simp]:
  "capacity (snd (release i s)) = capacity s" "lease_ttl_s (snd (release i s)) = lease_ttl_s s"
  by (simp_all add: release_def Let_def split: option.split)

lemma by_key_release:
  "map_of (leases s) i = Some l \<Longrightarrow> map_of (by_key (snd (release i s))) =
     (if map_of (by_key s) (idempotency_key (request l)) = Some i
      then (map_of (by_key s))(idempotency_key (request l) := None) else map_of (by_key s))"
  by (simp add: release_def Let_def)

lemma load_release:
  "wf_dict (leases s) \<Longrightarrow> map_of (leases s) i = Some l
    \<Longrightarrow> load d s now = weight d now l + load d (snd (release i s)) now"
  unfolding load_def leases_release by (rule sum_vals_ddel)

lemma sched_inv_release:
  assumes inv: "sched_inv now s"
  shows "sched_inv now (snd (release i s))"
proof (cases "map_of (leases s) i")
  case None
  with inv show ?thesis by (simp add: release_def)
next
  case (Some l)
  let ?s = "snd (release i s)"
  have wf: "wf_dict (leases s)" "wf_dict (by_key s)" and ok: "index_ok s" and v: "valid_leases s"
    using inv by (simp_all add: sched_inv_index sched_inv_def)
  have nn: "nonneg (resources (request l))" using v Some by (rule valid_leasesD)
  have "within_capacity ?s now"
    unfolding within_capacity_def
  proof
    fix d
    have "0 \<le> weight d now l" using nn by (simp add: weight_def nonneg_def)
    moreover have "load d s now \<le> amount d (capacity s)"
      using inv by (simp add: sched_inv_def within_capacity_def)
    ultimately show "load d ?s now \<le> amount d (capacity ?s)"
      using load_release [OF wf(1) Some, of d now] by simp
  qed
  moreover have "valid_leases ?s"
    by (rule valid_leasesI) (use wf v in \<open>auto intro: valid_leasesD split: if_splits\<close>)
  moreover have "index_ok ?s"
  proof (rule index_okI)
    show "wf_dict (leases ?s)" "wf_dict (by_key ?s)"
      using wf by (simp_all add: release_def Let_def split: option.split)
    show "lease_id l' = j \<and> j \<noteq> []" if "map_of (leases ?s) j = Some l'" for j l'
      using that index_okD(1,2) [OF ok] by (auto split: if_splits)
    show "\<exists>l'. map_of (leases ?s) j = Some l' \<and> idempotency_key (request l') = k"
      if "map_of (by_key ?s) k = Some j" for k j
    proof -
      from that have k: "map_of (by_key s) k = Some j"
        "k \<noteq> idempotency_key (request l) \<or> map_of (by_key s) k \<noteq> Some i"
        by (auto simp: by_key_release [OF Some] split: if_splits)
      from index_okD(3) [OF ok k(1)] obtain l'
        where l': "map_of (leases s) j = Some l'" "idempotency_key (request l') = k" by blast
      with Some k have "j \<noteq> i" by auto
      with l' show ?thesis by simp
    qed
  qed
  moreover have "keyed ?s now"
    using inv by (auto simp: sched_inv_def keyed_def by_key_release [OF Some]) (metis option.inject)
  ultimately show ?thesis using inv by (simp add: sched_inv_def)
qed

lemma map_of_leases_releases:
  "map_of (leases (fold (\<lambda>l s. snd (release (lease_id l) s)) ls s)) i
     = (if i \<in> lease_id ` set ls then None else map_of (leases s) i)"
  by (induction ls arbitrary: s) auto

lemma sched_inv_releases:
  "sched_inv now s \<Longrightarrow> sched_inv now (fold (\<lambda>l s. snd (release (lease_id l) s)) ls s)"
  by (induction ls arbitrary: s) (auto simp: sched_inv_release)

lemma sched_inv_reclaim: "sched_inv now s \<Longrightarrow> sched_inv now (snd (reclaim_expired now' s))"
  by (simp add: reclaim_expired_def Let_def sched_inv_releases)

section \<open>Admission\<close>

lemma load_new_lease:
  assumes "map_of (leases s) i = None"
  shows "load d (s\<lparr>leases := dput i l (leases s), by_key := b, next_oid := n\<rparr>) now
    = load d s now + weight d now l"
  using assms by (simp add: load_def dput_fresh)

text \<open>No lease is active for the key of a request that reaches \<open>admit_new\<close>.\<close>

definition key_free :: "AttemptRequest \<Rightarrow> real \<Rightarrow> LeaseScheduler \<Rightarrow> bool" where
  "key_free req now s = (\<forall>i l. map_of (leases s) i = Some l \<longrightarrow> lease_active l now \<longrightarrow>
     idempotency_key (request l) \<noteq> idempotency_key req)"

lemma sched_inv_grant:
  assumes inv: "sched_inv now s" and free: "key_free req now s" and t: "now \<le> t1"
    and fresh: "map_of (leases s) uuid = None" "uuid \<noteq> []" and nn: "nonneg (resources req)"
    and fit: "\<forall>d. amount d (resources req) \<le> amount d (capacity s) - load d s t1"
    and lease: "lease_id l = uuid" "request l = req"
  shows "sched_inv t1 (s\<lparr>leases := dput uuid l (leases s),
    by_key := dput (idempotency_key req) uuid (by_key s), next_oid := n\<rparr>)" (is "sched_inv t1 ?s")
proof -
  have inv1: "sched_inv t1 s" using inv t by (rule sched_inv_later)
  have wf: "wf_dict (leases s)" "wf_dict (by_key s)" and v: "valid_leases s"
    using inv by (simp_all add: sched_inv_index sched_inv_def)
  have "load d ?s t1 \<le> amount d (capacity s)" for d
  proof -
    have "weight d t1 l \<le> amount d (resources req)"
      using nn by (simp add: weight_def lease nonneg_def)
    moreover have "amount d (resources req) \<le> amount d (capacity s) - load d s t1"
      using fit by blast
    ultimately have "load d s t1 + weight d t1 l \<le> amount d (capacity s)" by linarith
    then show ?thesis by (simp add: load_new_lease [OF fresh(1)])
  qed
  then have "within_capacity ?s t1" by (simp add: within_capacity_def)
  moreover have "valid_leases ?s"
    by (rule valid_leasesI) (use wf v nn in \<open>auto simp: lease intro: valid_leasesD split: if_splits\<close>)
  moreover have "index_ok ?s"
    using inv fresh unfolding sched_inv_def index_ok_def by (auto simp: lease) (metis option.distinct(1))
  moreover have "keyed ?s t1"
    using inv1 free fresh t
    by (auto simp: sched_inv_def keyed_def key_free_def lease dest: lease_active_earlier)
  ultimately show ?thesis using inv by (simp add: sched_inv_def)
qed

lemma admit_new_total:
  assumes "sched_inv now s" and "now \<le> t1" and "t1 \<le> t2"
  shows "admit_new req uuid now t1 t2 s =
    (if \<forall>d. load d s t1 + amount d (resources req) \<le> amount d (capacity s)
     then let lease = \<lparr>lease_id = uuid, request = req, acquired_at = now,
            expires_at = now + lease_ttl_s s, cancelled = False, lease_oid = next_oid s\<rparr>
          in Inr (granted lease False, s\<lparr>leases := dput uuid lease (leases s),
               by_key := dput (idempotency_key req) uuid (by_key s), next_oid := next_oid s + 1\<rparr>)
     else Inr (refused CAPACITY (map dim_name (filter (\<lambda>d. amount d (capacity s)
            < load d s t2 + amount d (resources req)) dimensions)), s))"
proof -
  have v: "valid_leases s" and c: "within_capacity s t1" "within_capacity s t2"
    using assms by (auto simp: sched_inv_def intro: within_capacity_later)
  from available_total [OF v c(1)] obtain a where
    a: "available s t1 = Inr a" "\<And>d. amount d a = amount d (capacity s) - load d s t1" by blast
  from available_total [OF v c(2)] obtain a2 where
    a2: "available s t2 = Inr a2" "\<And>d. amount d a2 = amount d (capacity s) - load d s t2" by blast
  have "fits (resources req) a \<longleftrightarrow> (\<forall>d. load d s t1 + amount d (resources req) \<le> amount d (capacity s))"
    by (simp add: fits_iff a algebra_simps)
  moreover have "(amount d (resources req) > amount d a2) =
      (amount d (capacity s) < load d s t2 + amount d (resources req))" for d
    by (auto simp: a2)
  ultimately show ?thesis
    by (simp add: admit_new_def a(1) a2(1) Let_def)
qed

text \<open>Where \<open>admit\<close> goes on to \<open>admit_new\<close>, no active lease holds the key.\<close>

lemma admit_cases:
  assumes inv: "sched_inv now s"
  obtains (conflict) l i where "map_of (by_key s) (idempotency_key req) = Some i"
      "map_of (leases s) i = Some l" "request l \<noteq> req"
      "admit req uuid now t1 t2 s = Inr (refused DUPLICATE [], s)"
    | (dup) l i where "map_of (by_key s) (idempotency_key req) = Some i"
      "map_of (leases s) i = Some l" "request l = req" "lease_active l now"
      "admit req uuid now t1 t2 s = Inr (granted l True, s)"
    | (new) "key_free req now s"
      "admit req uuid now t1 t2 s = admit_new req uuid now t1 t2 s"
proof -
  have ok: "index_ok s" and key: "keyed s now" using inv by (simp_all add: sched_inv_def)
  show thesis
  proof (cases "map_of (by_key s) (idempotency_key req)")
    case None
    then have "key_free req now s" using key unfolding key_free_def keyed_def by (metis option.distinct(1))
    with None show thesis by (intro new) (simp_all add: admit_def)
  next
    case (Some i)
    with index_okD(3) [OF ok] obtain l where l: "map_of (leases s) i = Some l" by blast
    have i: "i \<noteq> []" using index_okD(2) [OF ok l] .
    consider "request l \<noteq> req" | "request l = req" "lease_active l now"
      | "request l = req" "\<not> lease_active l now" by blast
    then show thesis
    proof cases
      case 1
      with Some l i show thesis by (intro conflict) (simp_all add: admit_def)
    next
      case 2
      with Some l i show thesis by (intro dup) (simp_all add: admit_def)
    next
      case 3
      have "key_free req now s"
        using key Some l 3 by (auto simp: key_free_def keyed_def) (metis option.inject)
      with Some l i 3 show thesis by (intro new) (simp_all add: admit_def)
    qed
  qed
qed

lemma admit_total_inv:
  assumes inv: "sched_inv now s" and t: "now \<le> t1" "t1 \<le> t2"
    and fresh: "map_of (leases s) uuid = None" "uuid \<noteq> []" and nn: "nonneg (resources req)"
  shows "\<exists>a s'. admit req uuid now t1 t2 s = Inr (a, s') \<and> sched_inv t2 s'"
  using inv
proof (cases rule: admit_cases [of now s req uuid t1 t2])
  case new
  let ?l = "\<lparr>lease_id = uuid, request = req, acquired_at = now,
            expires_at = now + lease_ttl_s s, cancelled = False, lease_oid = next_oid s\<rparr>"
  show ?thesis
  proof (cases "\<forall>d. load d s t1 + amount d (resources req) \<le> amount d (capacity s)")
    case True
    then have "\<forall>d. amount d (resources req) \<le> amount d (capacity s) - load d s t1"
      by (simp add: algebra_simps)
    from sched_inv_grant [OF inv new(1) t(1) fresh nn this, of ?l "next_oid s + 1"] t(2)
    show ?thesis using True
      by (auto simp: new(2) admit_new_total [OF inv t] Let_def intro: sched_inv_later)
  next
    case False
    have "sched_inv t2 s" by (rule sched_inv_later [OF inv]) (use t in simp)
    with False show ?thesis by (auto simp: new(2) admit_new_total [OF inv t])
  qed
qed (use inv t in \<open>auto intro: sched_inv_later\<close>)

section \<open>Runs of the scheduler\<close>

text \<open>A configuration is the clock and the scheduler. Time only advances (the clock is
  \<open>time.monotonic\<close>), a new lease id is not in use (\<open>uuid4\<close>), and a request was built by its
  constructors.\<close>

inductive sched_step :: "real \<times> LeaseScheduler \<Rightarrow> real \<times> LeaseScheduler \<Rightarrow> bool" where
  tick: "t \<le> t' \<Longrightarrow> sched_step (t, s) (t', s)"
| admit: "t \<le> now \<Longrightarrow> now \<le> t1 \<Longrightarrow> t1 \<le> t2 \<Longrightarrow> ResourceRequest (resources req) = Inr (resources req)
    \<Longrightarrow> mk_AttemptRequest req = Inr req \<Longrightarrow> uuid \<noteq> [] \<Longrightarrow> map_of (leases s) uuid = None
    \<Longrightarrow> admit req uuid now t1 t2 s = Inr (a, s') \<Longrightarrow> sched_step (t, s) (t2, s')"
| heartbeat: "t \<le> now \<Longrightarrow> sched_step (t, s) (now, snd (heartbeat i now s))"
| cancel: "sched_step (t, s) (t, snd (cancel_lease i s))"
| release: "sched_step (t, s) (t, snd (release i s))"
| reclaim: "t \<le> now \<Longrightarrow> sched_step (t, s) (now, snd (reclaim_expired now s))"

inductive sched_reachable :: "ResourceVector \<Rightarrow> real \<Rightarrow> real \<times> LeaseScheduler \<Rightarrow> bool"
  for cap ttl where
  start: "ResourceRequest cap = Inr cap \<Longrightarrow> new_scheduler cap ttl = Inr s
    \<Longrightarrow> sched_reachable cap ttl (t, s)"
| step: "sched_reachable cap ttl c \<Longrightarrow> sched_step c c' \<Longrightarrow> sched_reachable cap ttl c'"

lemma sched_step_inv:
  assumes "sched_step c c'" and "sched_inv (fst c) (snd c)"
  shows "sched_inv (fst c') (snd c')"
  using assms
proof (induction rule: sched_step.induct)
  case (admit t now t1 t2 req uuid s a s')
  then have "sched_inv now s" by (auto intro: sched_inv_later)
  from admit_total_inv [OF this admit.hyps(2,3,7,6), of req] admit.hyps(4,8) show ?case by auto
qed (auto intro: sched_inv_later sched_inv_heartbeat sched_inv_cancel sched_inv_release sched_inv_reclaim)

lemma sched_reachable_inv: "sched_reachable cap ttl c \<Longrightarrow> sched_inv (fst c) (snd c)"
proof (induction rule: sched_reachable.induct)
  case (start s t)
  then show ?case using sched_inv_new by auto
next
  case (step c c')
  then show ?case by (blast intro: sched_step_inv)
qed

lemma capacity_step: "sched_step c c' \<Longrightarrow> capacity (snd c') = capacity (snd c)"
proof (induction rule: sched_step.induct)
  case (admit t now t1 t2 req uuid s a s')
  then show ?case
    by (auto simp: admit_def admit_new_def Let_def split: option.splits if_splits)
next
  case (reclaim t now s)
  have "capacity (fold (\<lambda>l s. snd (release (lease_id l) s)) ls s) = capacity s" for ls
    by (induction ls arbitrary: s) auto
  then show ?case by (simp add: reclaim_expired_def Let_def)
qed (auto simp: heartbeat_def cancel_lease_def Let_def split: option.splits)

lemma sched_reachable_capacity: "sched_reachable cap ttl c \<Longrightarrow> capacity (snd c) = cap"
  by (induction rule: sched_reachable.induct)
     (auto simp: new_scheduler_def capacity_step)

section \<open>Properties\<close>

text \<open>C1. In every run of the scheduler, at every time, the resources of the active leases fit
  the configured capacity in every dimension; so \<open>used()\<close> and \<open>available()\<close> never raise.\<close>

theorem scheduler_never_overcommits:
  assumes "sched_reachable cap ttl (t, s)"
  shows "\<exists>u a. used s t = Inr u \<and> fits u cap \<and> available s t = Inr a
    \<and> (\<forall>d. amount d a = amount d cap - amount d u)"
proof -
  have inv: "sched_inv t s" using sched_reachable_inv [OF assms] by simp
  have cap: "capacity s = cap" using sched_reachable_capacity [OF assms] by simp
  have v: "valid_leases s" "within_capacity s t" using inv by (simp_all add: sched_inv_def)
  from used_total [OF v(1)] obtain u where u: "used s t = Inr u" "\<And>d. amount d u = load d s t"
    by blast
  from available_total [OF v] obtain a where
    "available s t = Inr a" "\<And>d. amount d a = amount d cap - load d s t"
    by (auto simp: cap)
  with u v(2) show ?thesis by (auto simp: fits_iff within_capacity_def cap)
qed

definition demo_cap :: ResourceVector where
  "demo_cap = \<lparr>cpu = 4, ram_gb = 8, gpu = 1, vram_gb = 0, gateway_slots = 2, budget_units = 10, verifier_slots = 1\<rparr>"

definition demo_req :: "string \<Rightarrow> AttemptRequest" where
  "demo_req k = \<lparr>challenge_id = ''c'', experiment_id = ''e'', attempt_id = ''1'', idempotency_key = k,
     resources = \<lparr>cpu = 3, ram_gb = 1, gpu = 0, vram_gb = 0, gateway_slots = 1, budget_units = 0, verifier_slots = 0\<rparr>\<rparr>"

definition demo_sched :: LeaseScheduler where
  "demo_sched = \<lparr>capacity = demo_cap, lease_ttl_s = 60,
     leases = [(''a'', \<lparr>lease_id = ''a'', request = demo_req ''k'', acquired_at = 0, expires_at = 60,
                 cancelled = False, lease_oid = 0\<rparr>)],
     by_key = [(''k'', ''a'')], next_oid = 1\<rparr>"

lemma demo_new: "new_scheduler demo_cap 60
    = Inr \<lparr>capacity = demo_cap, lease_ttl_s = 60, leases = [], by_key = [], next_oid = 0\<rparr>"
  by (simp add: new_scheduler_def)

lemma nonneg_demo: "nonneg demo_cap" "nonneg (resources (demo_req k))"
proof -
  have "0 \<le> amount d demo_cap \<and> 0 \<le> amount d (resources (demo_req k))" for d
    by (cases d) (simp_all add: demo_cap_def demo_req_def)
  then show "nonneg demo_cap" "nonneg (resources (demo_req k))" by (simp_all add: nonneg_def)
qed

lemma demo_admit: "admit (demo_req ''k'') ''a'' 0 0 0
    \<lparr>capacity = demo_cap, lease_ttl_s = 60, leases = [], by_key = [], next_oid = 0\<rparr>
    = Inr (granted (snd (hd (leases demo_sched))) False, demo_sched)"
  by (simp add: admit_def admit_new_def available_def used_def active_leases_def no_resources_def
      minus_resources_def ResourceRequest_def dimensions_def demo_cap_def demo_req_def fits_def
      demo_sched_def Let_def)

lemma demo_req_valid: "mk_AttemptRequest (demo_req ''k'') = Inr (demo_req ''k'')"
  by (simp add: mk_AttemptRequest_def demo_req_def blank_def py_strip_def py_isspace_def)

lemma demo_reachable: "sched_reachable demo_cap 60 (0, demo_sched)"
  by (rule sched_reachable.step [OF sched_reachable.start [OF _ demo_new, of 0]])
     (simp, rule nonneg_demo, rule sched_step.admit [OF _ _ _ _ _ _ _ demo_admit],
      simp_all add: nonneg_demo demo_req_valid)

theorem scheduler_never_overcommits_witness:
  "sched_reachable demo_cap 60 (0, demo_sched) \<and>
   (\<exists>u a. used demo_sched 0 = Inr u \<and> fits u demo_cap \<and> available demo_sched 0 = Inr a
      \<and> (\<forall>d. amount d a = amount d demo_cap - amount d u))"
  using demo_reachable scheduler_never_overcommits [OF demo_reachable] by blast

text \<open>At any time of any run at most one lease is active for an idempotency key, and it is
  the lease the key index names.\<close>

theorem one_active_lease_per_key:
  assumes "sched_reachable cap ttl (t, s)"
    and "active_lease i t s = Some l" and "active_lease j t s = Some m"
    and "idempotency_key (request l) = idempotency_key (request m)"
  shows "i = j \<and> l = m \<and> map_of (by_key s) (idempotency_key (request l)) = Some i"
proof -
  have "keyed s t" using sched_reachable_inv [OF assms(1)] by (simp add: sched_inv_def)
  then have "map_of (by_key s) (idempotency_key (request l)) = Some i"
    "map_of (by_key s) (idempotency_key (request m)) = Some j"
    using assms(2,3) by (auto simp: keyed_def active_lease_def split: option.splits if_splits)
  with assms(2-4) show ?thesis by simp
qed

theorem one_active_lease_per_key_witness:
  "sched_reachable demo_cap 60 (0, demo_sched) \<and> map_of (by_key demo_sched) ''k'' = Some ''a''"
proof -
  let ?l = "snd (hd (leases demo_sched))"
  have "active_lease ''a'' 0 demo_sched = Some ?l"
    by (simp add: active_lease_def demo_sched_def lease_active_def)
  moreover have "idempotency_key (request ?l) = ''k''" by (simp add: demo_sched_def demo_req_def)
  ultimately show ?thesis
    using demo_reachable one_active_lease_per_key [OF demo_reachable, of "''a''" ?l "''a''" ?l] by simp
qed

text \<open>The outcome of an admission as a specification over the load of the active leases.\<close>

definition admit_spec ::
    "ResourceVector \<Rightarrow> AttemptRequest \<Rightarrow> string \<Rightarrow> real \<Rightarrow> real \<Rightarrow> real \<Rightarrow> LeaseScheduler
      \<Rightarrow> Admission \<times> LeaseScheduler" where
  "admit_spec cap req uuid now t1 t2 s =
     (let holder = Option.bind (map_of (by_key s) (idempotency_key req)) (map_of (leases s));
          lease = \<lparr>lease_id = uuid, request = req, acquired_at = now,
            expires_at = now + lease_ttl_s s, cancelled = False, lease_oid = next_oid s\<rparr>
      in if \<exists>l. holder = Some l \<and> request l \<noteq> req then (refused DUPLICATE [], s)
         else if \<exists>l. holder = Some l \<and> lease_active l now then (granted (the holder) True, s)
         else if \<forall>d. load d s t1 + amount d (resources req) \<le> amount d cap
         then (granted lease False, s\<lparr>leases := dput uuid lease (leases s),
               by_key := dput (idempotency_key req) uuid (by_key s), next_oid := next_oid s + 1\<rparr>)
         else (refused CAPACITY (map dim_name (filter (\<lambda>d. amount d cap
            < load d s t2 + amount d (resources req)) dimensions)), s))"

text \<open>What \<open>admit\<close> returns in a reachable state, on every branch: it never raises; a key bound
  to a different request is refused as a duplicate; an active lease of the same request is
  returned unchanged; otherwise the request is granted a fresh lease of one time-to-live exactly
  when it fits beside the active leases, and else it is refused naming the blocked dimensions.\<close>

theorem admit_outcome:
  assumes "sched_reachable cap ttl (t, s)" and "t \<le> now" and "now \<le> t1" and "t1 \<le> t2"
  shows "admit req uuid now t1 t2 s = Inr (admit_spec cap req uuid now t1 t2 s)"
proof -
  have inv: "sched_inv now s"
    using sched_reachable_inv [OF assms(1)] assms(2) by (auto intro: sched_inv_later)
  have cap: "capacity s = cap" using sched_reachable_capacity [OF assms(1)] by simp
  from inv show ?thesis
  proof (cases rule: admit_cases [of now s req uuid t1 t2])
    case (conflict l i)
    then show ?thesis by (simp add: admit_spec_def)
  next
    case (dup l i)
    then show ?thesis by (simp add: admit_spec_def)
  next
    case new
    have ok: "index_ok s" using inv by (rule sched_inv_index)
    show ?thesis
    proof (cases "\<exists>l. Option.bind (map_of (by_key s) (idempotency_key req)) (map_of (leases s)) = Some l
        \<and> (request l \<noteq> req \<or> lease_active l now)")
      case True
      then obtain i l where l: "map_of (by_key s) (idempotency_key req) = Some i"
        "map_of (leases s) i = Some l" "request l \<noteq> req \<or> lease_active l now"
        by (auto simp: bind_eq_Some_conv)
      then show ?thesis using index_okD(2) [OF ok l(2)]
        by (auto simp: admit_spec_def admit_def)
    next
      case False
      then show ?thesis
        unfolding new(2) admit_new_total [OF inv assms(3,4)] cap admit_spec_def
        by (auto simp: Let_def)
    qed
  qed
qed

theorem admit_outcome_witness:
  "sched_reachable demo_cap 60 (0, demo_sched) \<and>
   admit (demo_req ''k2'') ''b'' 1 1 1 demo_sched
     = Inr (admit_spec demo_cap (demo_req ''k2'') ''b'' 1 1 1 demo_sched)"
  using demo_reachable admit_outcome [OF demo_reachable, of 1 1 1] by simp

text \<open>Admission is idempotent: while the lease of an admitted request has not run out, delivering
  the same request again, with any other fresh id, returns that lease and changes nothing.\<close>

theorem admit_idempotent:
  assumes "sched_reachable cap ttl (t, s)" and "t \<le> now" and "now \<le> t1" and "t1 \<le> t2"
    and "uuid \<noteq> []" and "map_of (leases s) uuid = None"
    and "admit req uuid now t1 t2 s = Inr (a, s')" and "adm_lease a = Some l"
    and "now' < expires_at l"
  shows "\<not> cancelled l \<and> admit req uuid' now' t1' t2' s' = Inr (granted l True, s')"
proof -
  have inv: "sched_inv now s"
    using sched_reachable_inv [OF assms(1)] assms(2) by (auto intro: sched_inv_later)
  from inv show ?thesis
  proof (cases rule: admit_cases [of now s req uuid t1 t2])
    case (conflict l i)
    with assms(7,8) show ?thesis by (auto simp: refused_def)
  next
    case (dup m i)
    with assms(7-9) index_okD(2) [OF sched_inv_index [OF inv] dup(2)] show ?thesis
      by (auto simp: granted_def admit_def lease_active_def)
  next
    case new
    with assms(5-9) show ?thesis
      by (auto simp: admit_new_total [OF inv assms(3,4)] Let_def granted_def refused_def admit_def
          lease_active_def split: if_splits)
  qed
qed

theorem admit_idempotent_witness:
  "admit (demo_req ''k'') ''b'' 30 30 30 demo_sched
     = Inr (granted (snd (hd (leases demo_sched))) True, demo_sched)"
proof -
  have r: "sched_reachable demo_cap 60
    (0, \<lparr>capacity = demo_cap, lease_ttl_s = 60, leases = [], by_key = [], next_oid = 0\<rparr>)"
    by (rule sched_reachable.start [OF _ demo_new]) (simp add: nonneg_demo)
  show ?thesis
    using admit_idempotent [OF r _ _ _ _ _ demo_admit, of "snd (hd (leases demo_sched))" 30 "''b''" 30 30]
    by (simp add: granted_def demo_sched_def)
qed

text \<open>Reclaiming returns exactly the leases that ran out without being cancelled, removes those
  and no others, and leaves the load of the active leases as it was.\<close>

theorem reclaim_expired_exact:
  assumes "sched_reachable cap ttl (t, s)" and "t \<le> now" and "reclaim_expired now s = (ls, s')"
  shows "set ls = {l. \<exists>i. map_of (leases s) i = Some l \<and> \<not> cancelled l \<and> expires_at l \<le> now}
    \<and> (\<forall>i. map_of (leases s') i = (case map_of (leases s) i of None \<Rightarrow> None
         | Some l \<Rightarrow> if \<not> cancelled l \<and> expires_at l \<le> now then None else Some l))
    \<and> (\<forall>i. active_lease i now s' = active_lease i now s) \<and> sched_inv now s'"
proof -
  have inv: "sched_inv now s"
    using sched_reachable_inv [OF assms(1)] assms(2) by (auto intro: sched_inv_later)
  have ok: "index_ok s" using inv by (rule sched_inv_index)
  have ls: "ls = expired_leases now s"
    and s': "s' = fold (\<lambda>l s. snd (release (lease_id l) s)) ls s"
    using assms(3) by (auto simp: reclaim_expired_def Let_def)
  have wf: "wf_dict (leases s)" using ok by simp
  have mem: "l \<in> set ls \<longleftrightarrow> (\<exists>i. map_of (leases s) i = Some l) \<and> \<not> cancelled l \<and> expires_at l \<le> now" for l
    unfolding ls expired_leases_def by (simp only: set_filter mem_Collect_eq in_vals_iff [OF wf])
  have "i \<in> lease_id ` set ls \<longleftrightarrow> (\<exists>l. map_of (leases s) i = Some l \<and> \<not> cancelled l \<and> expires_at l \<le> now)" for i
    using index_okD(1) [OF ok] unfolding image_iff Bex_def mem by blast
  then have m: "map_of (leases s') i = (case map_of (leases s) i of None \<Rightarrow> None
         | Some l \<Rightarrow> if \<not> cancelled l \<and> expires_at l \<le> now then None else Some l)" for i
    by (auto simp: s' map_of_leases_releases split: option.splits)
  then have "active_lease i now s' = active_lease i now s" for i
    by (auto simp: active_lease_def lease_active_def split: option.splits)
  with m mem show ?thesis
    using sched_inv_releases [OF inv] s' by auto
qed

theorem reclaim_expired_exact_witness:
  "map_of (leases demo_sched) ''a'' \<noteq> None
   \<and> map_of (leases (snd (reclaim_expired 60 demo_sched))) ''a'' = None
   \<and> map_of (leases (snd (reclaim_expired 59 demo_sched))) ''a'' \<noteq> None"
proof -
  obtain l where l: "map_of (leases demo_sched) ''a'' = Some l" "\<not> cancelled l" "expires_at l = 60"
    by (simp add: demo_sched_def)
  have "map_of (leases (snd (reclaim_expired 60 demo_sched))) ''a'' = None"
    using reclaim_expired_exact [OF demo_reachable, of 60, OF _ prod.collapse [symmetric]] l
    by (simp del: split_paired_All)
  moreover have "map_of (leases (snd (reclaim_expired 59 demo_sched))) ''a'' \<noteq> None"
    using reclaim_expired_exact [OF demo_reachable, of 59, OF _ prod.collapse [symmetric]] l
    by (simp del: split_paired_All)
  ultimately show ?thesis using l by simp
qed

end
