(* ===== verification/Lifecycle.thy ===== *)
theory Lifecycle
  imports Prelude
begin

text \<open>
  Two generic contracts of the arena's append-only logs: a lifecycle (a table of allowed
  transitions whose states only ever move forward) and a hash chain (records numbered from one,
  each carrying the digest of the record before it and a seal over its own content).
\<close>

section \<open>Lifecycles\<close>

text \<open>\<open>walk allowed s xs\<close>: the states \<open>xs\<close>, entered one after the other from \<open>s\<close>, each by a
  transition of the table.\<close>

fun walk :: "('s option \<Rightarrow> 's list) \<Rightarrow> 's option \<Rightarrow> 's list \<Rightarrow> bool" where
  "walk allowed s [] = True"
| "walk allowed s (x # xs) = (x \<in> set (allowed s) \<and> walk allowed (Some x) xs)"

fun final_state :: "'s option \<Rightarrow> 's list \<Rightarrow> 's option" where
  "final_state s [] = s"
| "final_state s (x # xs) = final_state (Some x) xs"

lemma final_state_append [simp]: "final_state s (xs @ ys) = final_state (final_state s xs) ys"
  by (induction xs arbitrary: s) auto

lemma final_state_last: "xs \<noteq> [] \<Longrightarrow> final_state s xs = Some (last xs)"
  by (induction xs arbitrary: s) auto

lemma final_state_conv: "final_state None xs = (if xs = [] then None else Some (last xs))"
  by (simp add: final_state_last)

lemma walk_append [simp]:
  "walk allowed s (xs @ ys) \<longleftrightarrow> walk allowed s xs \<and> walk allowed (final_state s xs) ys"
  by (induction xs arbitrary: s) auto

locale lifecycle =
  fixes allowed :: "'s option \<Rightarrow> 's list" and initial :: 's and rank :: "'s \<Rightarrow> nat"
  assumes start: "x \<in> set (allowed None) \<Longrightarrow> x = initial"
    and forward: "y \<in> set (allowed (Some x)) \<Longrightarrow> rank y < rank x"
begin

lemma walk_rank: "walk allowed (Some s) xs \<Longrightarrow> x \<in> set xs \<Longrightarrow> rank x < rank s"
proof (induction xs arbitrary: s)
  case (Cons y ys)
  then show ?case using forward by (fastforce dest: order.strict_trans)
qed simp

lemma walk_distinct: "walk allowed s xs \<Longrightarrow> distinct xs"
proof (induction xs arbitrary: s)
  case (Cons x xs)
  then have "x \<notin> set xs" using walk_rank by fastforce
  with Cons show ?case by auto
qed simp

lemma walk_length: "walk allowed (Some s) xs \<Longrightarrow> length xs \<le> rank s"
proof (induction xs arbitrary: s)
  case (Cons x xs)
  then have "length xs \<le> rank x" "rank x < rank s" using forward by auto
  then show ?case by simp
qed simp

text \<open>A history starts at the initial state, never repeats a state, and is bounded.\<close>

lemma history_start: "walk allowed None (x # xs) \<Longrightarrow> x = initial"
  using start by simp

lemma history_length: "walk allowed None xs \<Longrightarrow> length xs \<le> Suc (rank initial)"
  by (cases xs) (auto dest: start walk_length)

text \<open>A terminal state ends every history it occurs in.\<close>

lemma terminal_last:
  assumes "walk allowed s xs" and "allowed (Some x) = []" and "x \<in> set xs"
  shows "last xs = x"
proof -
  from assms(3) obtain ys zs where xs: "xs = ys @ x # zs" by (meson split_list)
  with assms(1,2) have "zs = []" by (cases zs) auto
  with xs show ?thesis by simp
qed

text \<open>A state of the history that is not initial was entered from a state before it.\<close>

lemma entered_from:
  assumes "walk allowed None xs" and "x \<in> set xs" and "x \<noteq> initial"
  shows "\<exists>y \<in> set xs. x \<in> set (allowed (Some y))"
proof -
  from assms(2) obtain ys zs where xs: "xs = ys @ x # zs" by (meson split_list)
  with assms(1) have step: "x \<in> set (allowed (final_state None ys))" by simp
  with assms(3) start have "ys \<noteq> []" by fastforce
  with step xs show ?thesis by (auto simp: final_state_last intro!: bexI [of _ "last ys"])
qed

end

section \<open>Hash chains\<close>

text \<open>\<open>chained seqno prior hash calc n p es\<close>: the records \<open>es\<close> are numbered from \<open>n\<close>, the first
  links to \<open>p\<close>, each other one to the seal of its predecessor, and every seal is the digest of
  its record.\<close>

fun chained :: "('e \<Rightarrow> int) \<Rightarrow> ('e \<Rightarrow> string option) \<Rightarrow> ('e \<Rightarrow> string option) \<Rightarrow> ('e \<Rightarrow> string)
    \<Rightarrow> int \<Rightarrow> string option \<Rightarrow> 'e list \<Rightarrow> bool" where
  "chained seqno prior hash calc n p [] = True"
| "chained seqno prior hash calc n p (e # es) =
     (seqno e = n \<and> prior e = p \<and> hash e = Some (calc e)
      \<and> chained seqno prior hash calc (n + 1) (hash e) es)"

definition chain_head :: "('e \<Rightarrow> string option) \<Rightarrow> string option \<Rightarrow> 'e list \<Rightarrow> string option" where
  "chain_head hash p es = (if es = [] then p else hash (last es))"

lemma chain_head_Nil [simp]: "chain_head hash p [] = p"
  by (simp add: chain_head_def)

lemma chain_head_Cons [simp]: "chain_head hash p (e # es) = chain_head hash (hash e) es"
  by (simp add: chain_head_def)

lemma chained_append [simp]:
  "chained seqno prior hash calc n p (xs @ ys) \<longleftrightarrow> chained seqno prior hash calc n p xs
     \<and> chained seqno prior hash calc (n + int (length xs)) (chain_head hash p xs) ys"
  by (induction xs arbitrary: n p) (auto simp: algebra_simps)

text \<open>Two chains of the same length with the same head are equal, when equal seals mean equal
  records among those compared: the head commits to the whole history.\<close>

lemma chained_head_inj:
  assumes "chained seqno prior hash calc n p xs" and "chained seqno prior hash calc n p ys"
    and "length xs = length ys" and "chain_head hash p xs = chain_head hash p ys"
    and inj: "\<And>x y. x \<in> set xs \<Longrightarrow> y \<in> set ys \<Longrightarrow> hash x = hash y \<Longrightarrow> x = y"
  shows "xs = ys"
  using assms
proof (induction xs arbitrary: ys rule: rev_induct)
  case (snoc x xs)
  then obtain y zs where ys: "ys = zs @ [y]" by (metis length_0_conv rev_exhaust snoc_eq_iff_butlast)
  have xy: "x = y"
    by (rule snoc.prems(5)) (use snoc.prems(4) in \<open>simp_all add: ys chain_head_def\<close>)
  have "prior x = chain_head hash p xs" "prior y = chain_head hash p zs"
    using snoc.prems(1,2) by (simp_all add: ys)
  with xy have "chain_head hash p xs = chain_head hash p zs" by simp
  with snoc.IH [of zs] snoc.prems have "xs = zs" by (simp add: ys)
  with xy ys show ?case by simp
qed simp

end
