(* ===== verification/Models.thy ===== *)
theory Models
  imports Lifecycle
begin

text \<open>
  The immutable contracts of the Evolution Arena (\<open>src/skharness/arena/models.py\<close>). A pydantic
  model is a record; constructing one runs its field constraints and its validators, a function
  \<open>mk_\<dots>\<close> that returns the record or the first error. \<open>canonical_digest\<close> (SHA-256 over pydantic's
  canonical JSON) is the parameter \<open>digest\<close> of the definitions that use it.
\<close>

section \<open>Challenges\<close>

record DatasetRef =
  ds_uri :: string
  ds_digest :: string

record ModelRef =
  model_id :: string
  model_digest :: string
  tokenizer_id :: "string option"
  tokenizer_digest :: "string option"
  allowed_variants :: "string list"
  required_modalities :: "string list"

record HardwareSpec =
  hardware_class :: string
  gpu_count :: int
  vram_bytes :: "int option"
  image_digest :: string
  driver_constraints :: "string list"
  runtime_constraints :: "string list"

datatype metric_objective = Minimize | Maximize | Constraint

record MetricSpec =
  metric_name :: string
  metric_unit :: string
  objective :: metric_objective
  aggregation :: string
  threshold :: "real option"

record BudgetSpec =
  wall_seconds :: "real option"
  token_limit :: "int option"
  cost_limit :: "real option"
  energy_joules :: "real option"
  concurrency :: int

text \<open>An optional field with a bound, as pydantic's \<open>Field(default=None, gt=0)\<close>.\<close>

definition opt_violates :: "('n \<Rightarrow> bool) \<Rightarrow> 'n option \<Rightarrow> bool" where
  "opt_violates bad v = (case v of None \<Rightarrow> False | Some x \<Rightarrow> bad x)"

definition mk_HardwareSpec :: "HardwareSpec \<Rightarrow> HardwareSpec result" where
  "mk_HardwareSpec h = check
     [(gpu_count h < 0, ValueError ''gpu_count must be greater than or equal to 0''),
      (opt_violates (\<lambda>v. v < 0) (vram_bytes h), ValueError ''vram_bytes must be greater than or equal to 0'')]
     (Inr h)"

definition mk_BudgetSpec :: "BudgetSpec \<Rightarrow> BudgetSpec result" where
  "mk_BudgetSpec b = check
     [(opt_violates (\<lambda>v. v \<le> 0) (wall_seconds b), ValueError ''wall_seconds must be greater than 0''),
      (opt_violates (\<lambda>v. v \<le> 0) (token_limit b), ValueError ''token_limit must be greater than 0''),
      (opt_violates (\<lambda>v. v < 0) (cost_limit b), ValueError ''cost_limit must be greater than or equal to 0''),
      (opt_violates (\<lambda>v. v < 0) (energy_joules b), ValueError ''energy_joules must be greater than or equal to 0''),
      (concurrency b \<le> 0, ValueError ''concurrency must be greater than 0'')] (Inr b)"

record ChallengeSpec =
  ch_id :: string
  ch_version :: string
  ch_title :: string
  ch_owner :: string
  ch_created_at :: datetime
  ch_repository_url :: string
  ch_base_commit :: string
  ch_writable_paths :: "string list"
  ch_protected_paths :: "string list"
  ch_task_template :: string
  ch_model :: ModelRef
  ch_hardware :: HardwareSpec
  ch_public_dataset :: DatasetRef
  ch_withheld_dataset_ref :: DatasetRef
  ch_metrics :: "MetricSpec list"
  ch_warmup_runs :: int
  ch_repetitions :: int
  ch_seeds :: "int list"
  ch_confidence_rule :: string
  ch_budgets :: BudgetSpec
  ch_allowed_optimizations :: "string list"
  ch_prohibited_optimizations :: "string list"
  ch_network_capabilities :: "string list"
  ch_tool_capabilities :: "string list"
  ch_verifier_version :: string
  ch_rubric_version :: string
  ch_policy_version :: string
  ch_promotion_requirements :: "string list"
  ch_rollback_requirements :: "string list"

definition validate_paths_and_metrics :: "ChallengeSpec \<Rightarrow> ChallengeSpec result" where
  "validate_paths_and_metrics c =
     (let names = map metric_name (ch_metrics c)
      in check
       [(set (ch_writable_paths c) \<inter> set (ch_protected_paths c) \<noteq> {},
           ValueError ''writable_paths and protected_paths must not overlap''),
        (names = [] \<or> length names \<noteq> card (set names),
           ValueError ''metrics must be non-empty and uniquely named''),
        (set (ch_allowed_optimizations c) \<inter> set (ch_prohibited_optimizations c) \<noteq> {},
           ValueError ''optimization classes cannot be both allowed and prohibited'')] (Inr c))"

definition mk_ChallengeSpec :: "ChallengeSpec \<Rightarrow> ChallengeSpec result" where
  "mk_ChallengeSpec c =
     rbind (mk_HardwareSpec (ch_hardware c)) (\<lambda>_. rbind (mk_BudgetSpec (ch_budgets c)) (\<lambda>_.
       check [(ch_warmup_runs c < 0, ValueError ''warmup_runs must be greater than or equal to 0''),
              (ch_repetitions c \<le> 0, ValueError ''repetitions must be greater than 0'')]
         (validate_paths_and_metrics c)))"

section \<open>Experiments and results\<close>

datatype ExperimentState = EProposed | EAdmitted | ERunning | EProvisional | EVerifying
  | EValid | EInvalid | EInconclusive | EFailed | ECancelled

datatype VerificationState = VUnverified | VVerifying | VValid | VInvalid | VInconclusive

fun experiment_state_value :: "ExperimentState \<Rightarrow> string" where
  "experiment_state_value EProposed = ''proposed''"
| "experiment_state_value EAdmitted = ''admitted''"
| "experiment_state_value ERunning = ''running''"
| "experiment_state_value EProvisional = ''provisional''"
| "experiment_state_value EVerifying = ''verifying''"
| "experiment_state_value EValid = ''valid''"
| "experiment_state_value EInvalid = ''invalid''"
| "experiment_state_value EInconclusive = ''inconclusive''"
| "experiment_state_value EFailed = ''failed''"
| "experiment_state_value ECancelled = ''cancelled''"

record ArtifactRef =
  art_digest :: string
  art_media_type :: string
  art_size :: int
  art_role :: string

record Provenance =
  prov_actor :: string
  prov_node :: string
  prov_session_id :: string
  prov_action :: string
  prov_target :: string
  prov_observed_prior_state :: "string option"
  prov_signature :: "string option"

record Experiment =
  exp_id :: string
  exp_attempt :: int
  exp_parent_id :: "string option"
  exp_reproduces_id :: "string option"
  exp_changed_dimensions :: "string list"
  exp_challenge_hash :: string
  exp_actor :: string
  exp_harness :: string
  exp_card_id :: string
  exp_run_id :: string
  exp_repository_url :: string
  exp_repository_base_sha :: string
  exp_repository_result_sha :: "string option"
  exp_image_digest :: string
  exp_sbom_digest :: string
  exp_requested_route :: string
  exp_requested_model :: string
  exp_served_model :: "string option"
  exp_gateway_request_id :: "string option"
  exp_gateway_backend_id :: "string option"
  exp_configuration :: payload
  exp_seeds :: "int list"
  exp_hardware_telemetry :: payload
  exp_budgets :: BudgetSpec
  exp_created_at :: datetime
  exp_artifacts :: "ArtifactRef list"

definition validate_lineage :: "Experiment \<Rightarrow> Experiment result" where
  "validate_lineage e = check
     [(Some (exp_id e) \<in> {exp_parent_id e, exp_reproduces_id e},
         ValueError ''an experiment cannot be its own parent or reproduction target''),
      (exp_parent_id e \<noteq> None \<and> exp_changed_dimensions e = [],
         ValueError ''a mutation with parent_id must identify changed_dimensions'')] (Inr e)"

definition mk_ArtifactRef :: "ArtifactRef \<Rightarrow> ArtifactRef result" where
  "mk_ArtifactRef a =
     check [(art_size a < 0, ValueError ''size must be greater than or equal to 0'')] (Inr a)"

definition mk_Experiment :: "Experiment \<Rightarrow> Experiment result" where
  "mk_Experiment e =
     check [(exp_attempt e \<le> 0, ValueError ''attempt must be greater than 0'')]
       (rbind (mk_BudgetSpec (exp_budgets e)) (\<lambda>_.
          rbind (rmap mk_ArtifactRef (exp_artifacts e)) (\<lambda>_. validate_lineage e)))"

record Observation =
  obs_value :: real
  obs_seed :: "int option"
  obs_warm :: bool
  obs_recorded_at :: datetime

record Measurement =
  me_metric :: string
  me_unit :: string
  me_observations :: "Observation list"
  me_mean :: real
  me_standard_deviation :: real
  me_confidence_low :: "real option"
  me_confidence_high :: "real option"
  me_best_of_n :: "real option"

definition validate_sample_count :: "Measurement \<Rightarrow> Measurement result" where
  "validate_sample_count m = check
     [(me_observations m = [], ValueError ''measurements require raw observations''),
      (me_standard_deviation m < 0, ValueError ''standard_deviation cannot be negative'')] (Inr m)"

record Result =
  res_experiment_id :: string
  res_experiment_hash :: string
  res_challenge_hash :: string
  res_verification :: VerificationState
  res_verification_reason :: "string option"
  res_measurements :: "Measurement list"
  res_artifacts :: "ArtifactRef list"
  res_created_at :: datetime

definition mk_Result :: "Result \<Rightarrow> Result result" where
  "mk_Result r =
     rbind (rmap validate_sample_count (res_measurements r)) (\<lambda>_.
       rbind (rmap mk_ArtifactRef (res_artifacts r)) (\<lambda>_. Inr r))"

section \<open>Events\<close>

record ExperimentEvent =
  ev_event_id :: string
  ev_writer_id :: string
  ev_sequence :: int
  ev_experiment_id :: string
  ev_attempt :: int
  ev_from_state :: "ExperimentState option"
  ev_to_state :: ExperimentState
  ev_timestamp :: datetime
  ev_provenance :: Provenance
  ev_payload :: payload
  ev_prior_event_hash :: "string option"
  ev_event_hash :: "string option"

fun allowed_transitions :: "ExperimentState option \<Rightarrow> ExperimentState list" where
  "allowed_transitions None = [EProposed]"
| "allowed_transitions (Some EProposed) = [EAdmitted, ECancelled]"
| "allowed_transitions (Some EAdmitted) = [ERunning, ECancelled, EFailed]"
| "allowed_transitions (Some ERunning) = [EProvisional, ECancelled, EFailed]"
| "allowed_transitions (Some EProvisional) = [EVerifying]"
| "allowed_transitions (Some EVerifying) = [EValid, EInvalid, EInconclusive]"
| "allowed_transitions (Some _) = []"

definition validate_transition :: "ExperimentEvent \<Rightarrow> ExperimentEvent result" where
  "validate_transition e = check
     [(ev_to_state e \<notin> set (allowed_transitions (ev_from_state e)),
         ValueError ''illegal experiment transition'')] (Inr e)"

definition mk_ExperimentEvent :: "ExperimentEvent \<Rightarrow> ExperimentEvent result" where
  "mk_ExperimentEvent e = check
     [(ev_sequence e < 1, ValueError ''sequence must be greater than or equal to 1''),
      (ev_attempt e \<le> 0, ValueError ''attempt must be greater than 0'')] (validate_transition e)"

definition calculated_hash :: "(ExperimentEvent \<Rightarrow> string) \<Rightarrow> ExperimentEvent \<Rightarrow> string" where
  "calculated_hash digest e = digest (e\<lparr>ev_event_hash := None\<rparr>)"

definition sealed :: "(ExperimentEvent \<Rightarrow> string) \<Rightarrow> ExperimentEvent \<Rightarrow> ExperimentEvent result" where
  "sealed digest e =
     (let calculated = calculated_hash digest e
      in check [(ev_event_hash e \<noteq> None \<and> ev_event_hash e \<noteq> Some calculated,
                   ValueError ''event_hash does not match canonical event content'')]
           (Inr (e\<lparr>ev_event_hash := Some calculated\<rparr>)))"

section \<open>The experiment lifecycle\<close>

text \<open>Steps still ahead of a state, at most.\<close>

fun experiment_rank :: "ExperimentState \<Rightarrow> nat" where
  "experiment_rank EProposed = 5"
| "experiment_rank EAdmitted = 4"
| "experiment_rank ERunning = 3"
| "experiment_rank EProvisional = 2"
| "experiment_rank EVerifying = 1"
| "experiment_rank _ = 0"

interpretation experiment_life: lifecycle allowed_transitions EProposed experiment_rank
proof unfold_locales
  show "x = EProposed" if "x \<in> set (allowed_transitions None)" for x
    using that by simp
  show "experiment_rank y < experiment_rank x" if "y \<in> set (allowed_transitions (Some x))" for x y
    using that by (cases x) auto
qed

lemma calculated_hash_unsealed [simp]:
  "calculated_hash digest (e\<lparr>ev_event_hash := h\<rparr>) = calculated_hash digest e"
  by (simp add: calculated_hash_def)

lemma sealed_Inr_iff:
  "sealed digest e = Inr e' \<longleftrightarrow> (ev_event_hash e = None \<or> ev_event_hash e = Some (calculated_hash digest e))
     \<and> e' = e\<lparr>ev_event_hash := Some (calculated_hash digest e)\<rparr>"
  by (auto simp: sealed_def Let_def)

lemma mk_ExperimentEvent_Inr_iff:
  "mk_ExperimentEvent e = Inr e' \<longleftrightarrow> e' = e \<and> 1 \<le> ev_sequence e \<and> 0 < ev_attempt e
     \<and> ev_to_state e \<in> set (allowed_transitions (ev_from_state e))"
  by (auto simp: mk_ExperimentEvent_def validate_transition_def not_less)

text \<open>A small experiment record, for concrete runs.\<close>

definition demo_experiment :: Experiment where
  "demo_experiment = \<lparr>exp_id = ''e'', exp_attempt = 1, exp_parent_id = None, exp_reproduces_id = None,
     exp_changed_dimensions = [], exp_challenge_hash = ''h'', exp_actor = ''a'', exp_harness = ''pi'',
     exp_card_id = ''c'', exp_run_id = ''r'', exp_repository_url = ''u'', exp_repository_base_sha = ''b'',
     exp_repository_result_sha = None, exp_image_digest = ''i'', exp_sbom_digest = ''s'',
     exp_requested_route = ''q'', exp_requested_model = ''m'', exp_served_model = None,
     exp_gateway_request_id = None, exp_gateway_backend_id = None, exp_configuration = [], exp_seeds = [],
     exp_hardware_telemetry = [],
     exp_budgets = \<lparr>wall_seconds = None, token_limit = None, cost_limit = None, energy_joules = None, concurrency = 1\<rparr>,
     exp_created_at = \<lparr>dt_aware = True, dt_instant = 0\<rparr>, exp_artifacts = []\<rparr>"

end
