(* ===== verification/Store.thy ===== *)
theory Store
  imports Models "HOL-Library.Product_Lexorder"
begin

text \<open>
  The arena's filesystem store (\<open>src/skharness/arena/store.py\<close>): one append-only segment of event
  lines per writer, a content-addressed artifact store and directories of immutable records.

  A segment file is its newline-terminated lines and, after a killed writer, an unterminated last
  line. The JSON codec is pydantic's: \<open>parse\<close> (\<open>model_validate_json\<close>, with \<open>None\<close> for a validation
  error) and \<open>dump\<close> (\<open>model_dump_json\<close>) are parameters; where a theorem needs it, a hypothesis says
  that a dumped record parses back to itself. \<open>digest\<close> is \<open>canonical_digest\<close>, \<open>sha\<close> is
  \<open>hashlib.sha256(...).hexdigest()\<close>. An operation holds the file lock, so it is one step; it
  returns its result beside the store, since some failures come after a write.
\<close>

section \<open>Segments\<close>

record 'l segment =
  seg_lines :: "'l list"
  seg_tail :: "'l option"

record ('l, 'b) ArenaStore =
  st_events :: "(string \<times> 'l segment) list"
  st_artifacts :: "(string \<times> string) list"
  st_specs :: "(string \<times> 'b) list"
  st_experiments :: "(string \<times> 'b) list"
  st_results :: "(string \<times> 'b) list"

definition new_store :: "('l, 'b) ArenaStore" where
  "new_store = \<lparr>st_events = [], st_artifacts = [], st_specs = [], st_experiments = [], st_results = []\<rparr>"

text \<open>\<open>_SAFE_WRITER.fullmatch\<close>: one or more of \<open>A-Z a-z 0-9 _ . -\<close>.\<close>

definition safe_char :: "char \<Rightarrow> bool" where
  "safe_char c = (let n = (of_char c :: nat)
     in (65 \<le> n \<and> n \<le> 90) \<or> (97 \<le> n \<and> n \<le> 122) \<or> (48 \<le> n \<and> n \<le> 57) \<or> n = 95 \<or> n = 46 \<or> n = 45)"

definition safe_writer :: "string \<Rightarrow> bool" where
  "safe_writer w = (w \<noteq> [] \<and> list_all safe_char w)"

text \<open>The checks of one parsed record against the events read so far.\<close>

definition read_record :: "(ExperimentEvent \<Rightarrow> string) \<Rightarrow> ExperimentEvent \<Rightarrow> ExperimentEvent list
    \<Rightarrow> ExperimentEvent list result" where
  "read_record digest e evs = check
     [(ev_sequence e \<noteq> int (length evs) + 1, CorruptEventLogError ''non-contiguous sequence''),
      (ev_prior_event_hash e \<noteq> chain_head ev_event_hash None evs, CorruptEventLogError ''broken hash link''),
      (ev_event_hash e \<noteq> Some (calculated_hash digest e), CorruptEventLogError ''invalid event hash'')]
     (Inr (evs @ [e]))"

definition read_complete :: "('l \<Rightarrow> ExperimentEvent option) \<Rightarrow> (ExperimentEvent \<Rightarrow> string) \<Rightarrow> 'l
    \<Rightarrow> ExperimentEvent list \<Rightarrow> ExperimentEvent list result" where
  "read_complete parse digest raw evs =
     (case parse raw of None \<Rightarrow> Inl (CorruptEventLogError ''invalid event'')
      | Some e \<Rightarrow> read_record digest e evs)"

definition read_path :: "('l \<Rightarrow> ExperimentEvent option) \<Rightarrow> (ExperimentEvent \<Rightarrow> string)
    \<Rightarrow> 'l segment option \<Rightarrow> ExperimentEvent list result" where
  "read_path parse digest f =
     (case f of None \<Rightarrow> Inr []
      | Some seg \<Rightarrow> rbind (rfold (read_complete parse digest) (seg_lines seg) []) (\<lambda>evs.
          case seg_tail seg of None \<Rightarrow> Inr evs
          | Some raw \<Rightarrow> (case parse raw of None \<Rightarrow> Inr evs | Some e \<Rightarrow> read_record digest e evs)))"

definition read_segment :: "('l \<Rightarrow> ExperimentEvent option) \<Rightarrow> (ExperimentEvent \<Rightarrow> string) \<Rightarrow> string
    \<Rightarrow> ('l, 'b) ArenaStore \<Rightarrow> ExperimentEvent list result" where
  "read_segment parse digest w st =
     check [(\<not> safe_writer w, ValueError ''writer_id contains unsafe path characters'')]
       (read_path parse digest (map_of (st_events st) w))"

definition event_key :: "ExperimentEvent \<Rightarrow> int \<times> string \<times> int" where
  "event_key e = (dt_instant (ev_timestamp e), ev_writer_id e, ev_sequence e)"

definition read_all_events :: "('l \<Rightarrow> ExperimentEvent option) \<Rightarrow> (ExperimentEvent \<Rightarrow> string)
    \<Rightarrow> ('l, 'b) ArenaStore \<Rightarrow> ExperimentEvent list result" where
  "read_all_events parse digest st =
     rbind (rfold (\<lambda>w acc. rbind (read_path parse digest (map_of (st_events st) w)) (\<lambda>evs. Inr (acc @ evs)))
              (sort_key (\<lambda>w. w @ ''.jsonl'') (keys (st_events st))) [])
       (\<lambda>events. check
          [((\<exists>e \<in> set events. dt_aware (ev_timestamp e)) \<and> (\<exists>e \<in> set events. \<not> dt_aware (ev_timestamp e)),
             TypeError ''can't compare offset-naive and offset-aware datetimes'')]
          (Inr (sort_key event_key events)))"

definition open_segment :: "string \<Rightarrow> ('l, 'b) ArenaStore \<Rightarrow> 'l segment" where
  "open_segment w st = (case map_of (st_events st) w of
     None \<Rightarrow> \<lparr>seg_lines = [], seg_tail = None\<rparr> | Some seg \<Rightarrow> seg)"

definition put_segment :: "string \<Rightarrow> 'l segment \<Rightarrow> ('l, 'b) ArenaStore \<Rightarrow> ('l, 'b) ArenaStore" where
  "put_segment w seg st = st\<lparr>st_events := dput w seg (st_events st)\<rparr>"

definition append_event :: "('l \<Rightarrow> ExperimentEvent option) \<Rightarrow> (ExperimentEvent \<Rightarrow> 'l)
    \<Rightarrow> (ExperimentEvent \<Rightarrow> string) \<Rightarrow> ExperimentEvent \<Rightarrow> ('l, 'b) ArenaStore
    \<Rightarrow> ExperimentEvent result \<times> ('l, 'b) ArenaStore" where
  "append_event parse dump digest e st =
     (let w = ev_writer_id e; seg = open_segment w st
      in if \<not> safe_writer w then (Inl (ValueError ''writer_id contains unsafe path characters''), st)
         else case read_path parse digest (Some seg) of
             Inl x \<Rightarrow> (Inl x, put_segment w seg st)
           | Inr existing \<Rightarrow>
               (let seg' = seg\<lparr>seg_tail := None\<rparr>
                in if ev_sequence e \<noteq> int (length existing) + 1
                       \<or> ev_prior_event_hash e \<noteq> chain_head ev_event_hash None existing
                   then (Inl (EventConflictError ''append does not extend the writer head''), put_segment w seg' st)
                   else case sealed digest e of
                       Inl x \<Rightarrow> (Inl x, put_segment w seg' st)
                     | Inr s \<Rightarrow> (Inr s, put_segment w \<lparr>seg_lines = seg_lines seg @ [dump s], seg_tail = None\<rparr> st)))"

section \<open>Content-addressed files\<close>

text \<open>\<open>re.fullmatch(r"sha256:[0-9a-f]{64}", digest)\<close>.\<close>

definition is_digest :: "string \<Rightarrow> bool" where
  "is_digest d = (prefix ''sha256:'' d \<and> length d = 71 \<and> list_all hex_char (drop 7 d))"

definition removeprefix :: "string \<Rightarrow> string" where
  "removeprefix d = (if prefix ''sha256:'' d then drop 7 d else d)"

text \<open>Writing a file that must not exist yet: \<open>raced\<close> is what another process may have linked at
  the path between the existence test and the link.\<close>

definition link_file :: "exn \<Rightarrow> string \<Rightarrow> 'b \<Rightarrow> 'b option \<Rightarrow> (string \<times> 'b) list
    \<Rightarrow> unit result \<times> (string \<times> 'b) list" where
  "link_file err path content raced files =
     (case map_of files path of
        Some old \<Rightarrow> (if old \<noteq> content then Inl err else Inr (), files)
      | None \<Rightarrow> (case raced of
            None \<Rightarrow> (Inr (), dput path content files)
          | Some other \<Rightarrow> (if other \<noteq> content then Inl err else Inr (), dput path other files)))"

definition put_artifact :: "(string \<Rightarrow> string) \<Rightarrow> string \<Rightarrow> string option \<Rightarrow> ('l, 'b) ArenaStore
    \<Rightarrow> string result \<times> ('l, 'b) ArenaStore" where
  "put_artifact sha content raced st =
     (let digest = ''sha256:'' @ sha content;
          (r, files) = link_file (CorruptEventLogError ''artifact digest collision'')
             (removeprefix digest) content raced (st_artifacts st)
      in (rbind r (\<lambda>_. Inr digest), st\<lparr>st_artifacts := files\<rparr>))"

definition get_artifact :: "(string \<Rightarrow> string) \<Rightarrow> string \<Rightarrow> ('l, 'b) ArenaStore \<Rightarrow> string result" where
  "get_artifact sha digest st =
     check [(\<not> is_digest digest, ValueError ''artifact digest must be sha256:<64 lowercase hex characters>'')]
       (case map_of (st_artifacts st) (removeprefix digest) of
          None \<Rightarrow> Inl (FileNotFoundError ''no such artifact file'')
        | Some content \<Rightarrow> check [(sha content \<noteq> removeprefix digest,
              CorruptEventLogError ''artifact content does not match digest'')] (Inr content))"

text \<open>\<open>put_spec\<close> and \<open>_put_record\<close> differ in how they write, not in what they store: a record goes to
  the file named by its content hash, and a file already there must hold the same bytes.\<close>

definition put_record :: "('r \<Rightarrow> string) \<Rightarrow> ('r \<Rightarrow> 'b) \<Rightarrow> 'r \<Rightarrow> 'b option \<Rightarrow> (string \<times> 'b) list
    \<Rightarrow> string result \<times> (string \<times> 'b) list" where
  "put_record digest dump record raced files =
     (let d = digest record;
          (r, files') = link_file (CorruptEventLogError ''record content does not match existing hash'')
             (removeprefix d) (dump record) raced files
      in (rbind r (\<lambda>_. Inr d), files'))"

definition put_spec :: "(ChallengeSpec \<Rightarrow> string) \<Rightarrow> (ChallengeSpec \<Rightarrow> 'b) \<Rightarrow> ChallengeSpec
    \<Rightarrow> ('l, 'b) ArenaStore \<Rightarrow> string result \<times> ('l, 'b) ArenaStore" where
  "put_spec digest dump spec st =
     (let path = removeprefix (digest spec)
      in case map_of (st_specs st) path of
           Some old \<Rightarrow> (if old \<noteq> dump spec
              then Inl (CorruptEventLogError ''spec content does not match existing hash'')
              else Inr (digest spec), st)
         | None \<Rightarrow> (Inr (digest spec), st\<lparr>st_specs := dput path (dump spec) (st_specs st)\<rparr>))"

definition put_experiment :: "(Experiment \<Rightarrow> string) \<Rightarrow> (Experiment \<Rightarrow> 'b) \<Rightarrow> Experiment \<Rightarrow> 'b option
    \<Rightarrow> ('l, 'b) ArenaStore \<Rightarrow> string result \<times> ('l, 'b) ArenaStore" where
  "put_experiment digest dump e raced st =
     (let (r, files) = put_record digest dump e raced (st_experiments st)
      in (r, st\<lparr>st_experiments := files\<rparr>))"

definition put_result :: "(Result \<Rightarrow> string) \<Rightarrow> (Result \<Rightarrow> 'b) \<Rightarrow> Result \<Rightarrow> 'b option
    \<Rightarrow> ('l, 'b) ArenaStore \<Rightarrow> string result \<times> ('l, 'b) ArenaStore" where
  "put_result digest dump r raced st =
     (let (res, files) = put_record digest dump r raced (st_results st)
      in (res, st\<lparr>st_results := files\<rparr>))"

definition read_records :: "('b \<Rightarrow> 'r option) \<Rightarrow> ('r \<Rightarrow> string) \<Rightarrow> (string \<times> 'b) list \<Rightarrow> 'r list result" where
  "read_records parse digest files =
     rmap (\<lambda>(stem, bytes).
        case parse bytes of
          None \<Rightarrow> Inl (CorruptEventLogError ''invalid immutable record'')
        | Some r \<Rightarrow> check [(stem \<noteq> removeprefix (digest r),
              CorruptEventLogError ''immutable record hash mismatch'')] (Inr r))
       (sort_key (\<lambda>p. fst p @ ''.json'') files)"

definition read_experiments :: "('b \<Rightarrow> Experiment option) \<Rightarrow> (Experiment \<Rightarrow> string)
    \<Rightarrow> ('l, 'b) ArenaStore \<Rightarrow> Experiment list result" where
  "read_experiments parse digest st = read_records parse digest (st_experiments st)"

definition read_results :: "('b \<Rightarrow> Result option) \<Rightarrow> (Result \<Rightarrow> string)
    \<Rightarrow> ('l, 'b) ArenaStore \<Rightarrow> Result list result" where
  "read_results parse digest st = read_records parse digest (st_results st)"

section \<open>Reading a segment\<close>

abbreviation event_chain :: "(ExperimentEvent \<Rightarrow> string) \<Rightarrow> int \<Rightarrow> string option \<Rightarrow> ExperimentEvent list \<Rightarrow> bool" where
  "event_chain digest \<equiv> chained ev_sequence ev_prior_event_hash ev_event_hash (calculated_hash digest)"

abbreviation head_hash :: "ExperimentEvent list \<Rightarrow> string option" where
  "head_hash \<equiv> chain_head ev_event_hash None"

lemma read_record_Inr_iff:
  "read_record digest e evs = Inr evs' \<longleftrightarrow> evs' = evs @ [e]
     \<and> event_chain digest (int (length evs) + 1) (head_hash evs) [e]"
  by (auto simp: read_record_def)

lemma read_complete_Inr_iff:
  "read_complete parse digest raw evs = Inr evs' \<longleftrightarrow>
     (\<exists>e. parse raw = Some e \<and> read_record digest e evs = Inr evs')"
  by (auto simp: read_complete_def split: option.splits)

lemma read_lines_Inr_iff:
  "rfold (read_complete parse digest) ls evs = Inr evs' \<longleftrightarrow>
     (\<exists>es. map parse ls = map Some es \<and> evs' = evs @ es
        \<and> event_chain digest (int (length evs) + 1) (head_hash evs) es)"
proof (induction ls arbitrary: evs)
  case (Cons l ls)
  have step: "rfold (read_complete parse digest) (l # ls) evs = Inr evs' \<longleftrightarrow>
      (\<exists>e. parse l = Some e \<and> event_chain digest (int (length evs) + 1) (head_hash evs) [e]
         \<and> rfold (read_complete parse digest) ls (evs @ [e]) = Inr evs')"
    by (auto simp: read_complete_Inr_iff read_record_Inr_iff)
  have head: "head_hash (evs @ [e]) = ev_event_hash e" for e by (simp add: chain_head_def)
  show ?case
  proof
    assume "rfold (read_complete parse digest) (l # ls) evs = Inr evs'"
    then obtain e es where "parse l = Some e" "map parse ls = map Some es" "evs' = evs @ e # es"
      "event_chain digest (int (length evs) + 1) (head_hash evs) (e # es)"
      by (auto simp: step Cons.IH head algebra_simps simp del: rfold.simps)
    then show "\<exists>es. map parse (l # ls) = map Some es \<and> evs' = evs @ es
        \<and> event_chain digest (int (length evs) + 1) (head_hash evs) es"
      by (intro exI [of _ "e # es"]) auto
  next
    assume "\<exists>es. map parse (l # ls) = map Some es \<and> evs' = evs @ es
        \<and> event_chain digest (int (length evs) + 1) (head_hash evs) es"
    then obtain e es where "parse l = Some e" "map parse ls = map Some es" "evs' = evs @ e # es"
      "event_chain digest (int (length evs) + 1) (head_hash evs) (e # es)"
      by (auto simp: map_eq_Cons_conv Cons_eq_map_conv)
    then show "rfold (read_complete parse digest) (l # ls) evs = Inr evs'"
      unfolding step Cons.IH head by (auto simp: algebra_simps)
  qed
qed auto

text \<open>The records of a segment: those of its terminated lines, then that of a parseable tail.\<close>

definition tail_events :: "('l \<Rightarrow> ExperimentEvent option) \<Rightarrow> 'l segment \<Rightarrow> ExperimentEvent list" where
  "tail_events parse seg =
     (case seg_tail seg of None \<Rightarrow> [] | Some raw \<Rightarrow> (case parse raw of None \<Rightarrow> [] | Some e \<Rightarrow> [e]))"

lemma read_path_Inr_iff:
  "read_path parse digest (Some seg) = Inr evs \<longleftrightarrow>
     (\<exists>es. map parse (seg_lines seg) = map Some es \<and> evs = es @ tail_events parse seg
        \<and> event_chain digest 1 None evs)"
  by (auto simp: read_path_def read_lines_Inr_iff read_record_Inr_iff tail_events_def
      algebra_simps split: option.splits)

lemma read_path_chain: "read_path parse digest f = Inr evs \<Longrightarrow> event_chain digest 1 None evs"
  by (cases f) (auto simp: read_path_Inr_iff, simp add: read_path_def)

lemma map_Some_inj: "map Some xs = map Some ys \<Longrightarrow> xs = ys"
  by (simp add: inj_map_eq_map)

lemma open_segment_read:
  "read_path parse digest (Some (open_segment w st)) = read_path parse digest (map_of (st_events st) w)"
  by (auto simp: open_segment_def read_path_def split: option.split)

lemma map_of_put_segment [simp]:
  "map_of (st_events (put_segment w seg st)) = (map_of (st_events st))(w \<mapsto> seg)"
  by (simp add: put_segment_def)

text \<open>A segment is clean when it has no unterminated line that parses.\<close>

definition clean_segment :: "('l \<Rightarrow> ExperimentEvent option) \<Rightarrow> 'l segment \<Rightarrow> bool" where
  "clean_segment parse seg = (tail_events parse seg = [])"

lemma append_event_Inr:
  assumes "append_event parse dump digest e st = (Inr s, st')"
  shows "safe_writer (ev_writer_id e)"
    and "\<exists>evs. read_path parse digest (Some (open_segment (ev_writer_id e) st)) = Inr evs
      \<and> ev_sequence e = int (length evs) + 1 \<and> ev_prior_event_hash e = head_hash evs"
    and "sealed digest e = Inr s"
    and "st' = put_segment (ev_writer_id e) \<lparr>seg_lines = seg_lines (open_segment (ev_writer_id e) st) @ [dump s],
           seg_tail = None\<rparr> st"
  using assms
  by (auto simp: append_event_def Let_def split: if_splits sum.splits)

lemma sealed_fields:
  assumes "sealed digest e = Inr s"
  shows "ev_sequence s = ev_sequence e" "ev_prior_event_hash s = ev_prior_event_hash e"
    "ev_event_hash s = Some (calculated_hash digest s)" "ev_writer_id s = ev_writer_id e"
    "ev_timestamp s = ev_timestamp e" "ev_experiment_id s = ev_experiment_id e"
    "ev_attempt s = ev_attempt e" "ev_from_state s = ev_from_state e" "ev_to_state s = ev_to_state e"
    "ev_payload s = ev_payload e"
  using assms by (auto simp: sealed_Inr_iff)

section \<open>Properties\<close>

text \<open>C30. Append and read back: when a writer's segment reads as \<open>evs\<close> and has no parseable
  unterminated line, a successful append makes it read as \<open>evs\<close> followed by the sealed event, and
  changes no other writer's segment.\<close>

theorem append_then_read:
  assumes codec: "\<And>x. parse (dump x) = Some x"
    and clean: "clean_segment parse (open_segment (ev_writer_id e) st)"
    and old: "read_segment parse digest (ev_writer_id e) st = Inr evs"
    and app: "append_event parse dump digest e st = (Inr s, st')"
  shows "read_segment parse digest (ev_writer_id e) st' = Inr (evs @ [s])
    \<and> sealed digest e = Inr s
    \<and> (\<forall>w. w \<noteq> ev_writer_id e \<longrightarrow> read_segment parse digest w st' = read_segment parse digest w st)"
proof -
  let ?w = "ev_writer_id e"
  note ap = append_event_Inr [OF app]
  have r: "read_path parse digest (Some (open_segment ?w st)) = Inr evs"
    using old by (simp add: read_segment_def open_segment_read)
  with ap(2) have seq: "ev_sequence s = int (length evs) + 1" "ev_prior_event_hash s = head_hash evs"
    by (auto simp: sealed_fields [OF ap(3)])
  from r clean have es: "map parse (seg_lines (open_segment ?w st)) = map Some evs"
    and ch: "event_chain digest 1 None evs"
    by (auto simp: read_path_Inr_iff clean_segment_def)
  have "read_path parse digest (Some \<lparr>seg_lines = seg_lines (open_segment ?w st) @ [dump s], seg_tail = None\<rparr>)
      = Inr (evs @ [s])"
    using es ch seq sealed_fields(3) [OF ap(3)]
    by (auto simp: read_path_Inr_iff tail_events_def codec algebra_simps intro!: exI [of _ "evs @ [s]"])
  then show ?thesis using ap by (simp add: read_segment_def)
qed

definition demo_event :: ExperimentEvent where
  "demo_event = \<lparr>ev_event_id = ''i'', ev_writer_id = ''w'', ev_sequence = 1, ev_experiment_id = ''x'',
     ev_attempt = 1, ev_from_state = None, ev_to_state = EProposed,
     ev_timestamp = \<lparr>dt_aware = True, dt_instant = 5\<rparr>,
     ev_provenance = \<lparr>prov_actor = ''a'', prov_node = ''n'', prov_session_id = ''s'', prov_action = ''p'',
        prov_target = ''t'', prov_observed_prior_state = None, prov_signature = None\<rparr>,
     ev_payload = [], ev_prior_event_hash = None, ev_event_hash = None\<rparr>"

definition demo_digest :: "ExperimentEvent \<Rightarrow> string" where
  "demo_digest e = ev_event_id e"

definition demo_sealed :: ExperimentEvent where
  "demo_sealed = demo_event\<lparr>ev_event_hash := Some ''i''\<rparr>"

definition demo_store :: "(ExperimentEvent, string) ArenaStore" where
  "demo_store = new_store"

lemma demo_safe: "safe_writer ''w''"
  by (simp add: safe_writer_def safe_char_def)

lemma demo_append:
  "append_event Some id demo_digest demo_event demo_store
     = (Inr demo_sealed, put_segment ''w'' \<lparr>seg_lines = [demo_sealed], seg_tail = None\<rparr> demo_store)"
  by (simp add: append_event_def demo_event_def demo_sealed_def demo_digest_def demo_store_def new_store_def
      open_segment_def read_path_def sealed_def calculated_hash_def Let_def demo_safe)

theorem append_then_read_witness:
  "read_segment Some demo_digest ''w'' (snd (append_event Some id demo_digest demo_event demo_store))
     = Inr [demo_sealed]"
proof -
  have w: "ev_writer_id demo_event = ''w''" by (simp add: demo_event_def)
  have c: "clean_segment Some (open_segment ''w'' demo_store)"
    by (simp add: clean_segment_def tail_events_def open_segment_def demo_store_def new_store_def)
  have r: "read_segment Some demo_digest ''w'' demo_store = Inr []"
    by (simp add: read_segment_def read_path_def demo_store_def new_store_def demo_safe)
  show ?thesis
    using append_then_read [where parse = Some and dump = id and e = demo_event and st = demo_store
        and digest = demo_digest and evs = "[]", unfolded w, OF _ c r demo_append]
    by (simp add: demo_append)
qed

text \<open>A concurrent writer loses: an event that does not extend the writer's head, by number or by
  link, is refused with \<open>EventConflictError\<close>, and every segment reads as before.\<close>

theorem append_conflict_refused:
  assumes clean: "clean_segment parse (open_segment (ev_writer_id e) st)"
    and old: "read_segment parse digest (ev_writer_id e) st = Inr evs"
    and stale: "ev_sequence e \<noteq> int (length evs) + 1 \<or> ev_prior_event_hash e \<noteq> head_hash evs"
  shows "fst (append_event parse dump digest e st)
      = Inl (EventConflictError ''append does not extend the writer head'')
    \<and> (\<forall>w. read_segment parse digest w (snd (append_event parse dump digest e st))
         = read_segment parse digest w st)"
proof -
  let ?w = "ev_writer_id e"
  have r: "read_path parse digest (Some (open_segment ?w st)) = Inr evs" and sw: "safe_writer ?w"
    using old by (simp_all add: read_segment_def open_segment_read)
  have ap: "append_event parse dump digest e st
      = (Inl (EventConflictError ''append does not extend the writer head''),
         put_segment ?w ((open_segment ?w st)\<lparr>seg_tail := None\<rparr>) st)"
    using r sw stale by (simp add: append_event_def Let_def)
  have "read_path parse digest (Some ((open_segment ?w st)\<lparr>seg_tail := None\<rparr>)) = Inr evs"
    using r clean by (auto simp: read_path_Inr_iff clean_segment_def tail_events_def)
  then show ?thesis using old by (simp add: ap read_segment_def)
qed

theorem append_conflict_refused_witness:
  "fst (append_event Some id demo_digest (demo_event\<lparr>ev_sequence := 2\<rparr>) demo_store)
     = Inl (EventConflictError ''append does not extend the writer head'')"
proof -
  let ?e = "demo_event\<lparr>ev_sequence := 2\<rparr>"
  have w: "ev_writer_id ?e = ''w''" by (simp add: demo_event_def)
  have c: "clean_segment Some (open_segment ''w'' demo_store)"
    by (simp add: clean_segment_def tail_events_def open_segment_def demo_store_def new_store_def)
  have r: "read_segment Some demo_digest ''w'' demo_store = Inr []"
    by (simp add: read_segment_def read_path_def demo_store_def new_store_def demo_safe)
  show ?thesis
    using append_conflict_refused [where parse = Some and dump = id and e = ?e and st = demo_store
        and digest = demo_digest and evs = "[]", unfolded w, OF c r] by simp
qed

text \<open>The log is tamper evident: two segments that both read without error, have the same number of
  events and carry the same last hash hold the same events, as long as equal hashes mean equal
  events.\<close>

theorem log_head_commits_history:
  assumes "read_segment parse digest w st = Inr xs" and "read_segment parse digest w' st' = Inr ys"
    and "length xs = length ys" and "head_hash xs = head_hash ys"
    and collision_free: "\<And>x y. x \<in> set xs \<Longrightarrow> y \<in> set ys
      \<Longrightarrow> calculated_hash digest x = calculated_hash digest y \<Longrightarrow> x\<lparr>ev_event_hash := None\<rparr> = y\<lparr>ev_event_hash := None\<rparr>"
  shows "xs = ys"
proof -
  have ch: "event_chain digest 1 None xs" "event_chain digest 1 None ys"
    using assms(1,2) by (auto simp: read_segment_def dest: read_path_chain)
  have sealed_all: "ev_event_hash x = Some (calculated_hash digest x)"
    if "event_chain digest n p zs" "x \<in> set zs" for n p zs x
    using that by (induction zs arbitrary: n p) auto
  show ?thesis
  proof (rule chained_head_inj [OF ch assms(3) assms(4)])
    fix x y assume xy: "x \<in> set xs" "y \<in> set ys" "ev_event_hash x = ev_event_hash y"
    then have "x\<lparr>ev_event_hash := None\<rparr> = y\<lparr>ev_event_hash := None\<rparr>"
      using collision_free sealed_all [OF ch(1)] sealed_all [OF ch(2)] by simp
    with xy(3) show "x = y" by (cases x; cases y) simp
  qed
qed

theorem log_head_commits_history_witness:
  "read_segment Some demo_digest ''w'' (put_segment ''w'' \<lparr>seg_lines = [demo_sealed], seg_tail = None\<rparr> demo_store)
     = Inr [demo_sealed] \<and> [demo_sealed] = [demo_sealed]"
proof -
  have r: "read_segment Some demo_digest ''w''
      (put_segment ''w'' \<lparr>seg_lines = [demo_sealed], seg_tail = None\<rparr> demo_store) = Inr [demo_sealed]"
    by (simp add: read_segment_def demo_safe read_path_Inr_iff tail_events_def demo_sealed_def
        demo_event_def calculated_hash_def demo_digest_def exI [of _ "[demo_sealed]"])
  from log_head_commits_history [OF r r] r show ?thesis by simp
qed

text \<open>C40. The store breaks its own log after a writer is killed between the last byte of a record and its
  newline: the unterminated record still reads as committed, the next append numbers its event
  after it and then truncates it away, and from then on the segment does not read: every later
  read and append of that writer raises \<open>CorruptEventLogError\<close>.\<close>

theorem unterminated_record_corrupts_log:
  assumes codec: "\<And>x. parse (dump x) = Some x"
    and seg: "map_of (st_events st) (ev_writer_id e) = Some \<lparr>seg_lines = ls, seg_tail = Some raw\<rparr>"
    and complete: "parse raw = Some last_event"
    and old: "read_segment parse digest (ev_writer_id e) st = Inr evs"
    and ext: "ev_sequence e = int (length evs) + 1" "ev_prior_event_hash e = head_hash evs"
      "ev_event_hash e = None"
  shows "\<exists>s st'. append_event parse dump digest e st = (Inr s, st')
    \<and> read_segment parse digest (ev_writer_id e) st' = Inl (CorruptEventLogError ''non-contiguous sequence'')"
proof -
  let ?w = "ev_writer_id e"
  have r: "read_path parse digest (Some \<lparr>seg_lines = ls, seg_tail = Some raw\<rparr>) = Inr evs"
    and sw: "safe_writer ?w"
    using old seg by (simp_all add: read_segment_def)
  then obtain es where es: "rfold (read_complete parse digest) ls [] = Inr es" "evs = es @ [last_event]"
    using complete by (auto simp: read_path_def read_record_def)
  obtain s where s: "sealed digest e = Inr s" using ext(3) by (simp add: sealed_def Let_def)
  let ?st = "put_segment ?w \<lparr>seg_lines = ls @ [dump s], seg_tail = None\<rparr> st"
  have "append_event parse dump digest e st = (Inr s, ?st)"
    using r sw ext s seg by (simp add: append_event_def open_segment_def Let_def)
  moreover have "read_segment parse digest ?w ?st = Inl (CorruptEventLogError ''non-contiguous sequence'')"
    using es sw ext(1) sealed_fields(1) [OF s]
    by (simp add: read_segment_def read_path_def rfold_append read_complete_def codec read_record_def)
  ultimately show ?thesis by blast
qed

theorem unterminated_record_corrupts_log_witness:
  "\<exists>s st'. append_event Some id demo_digest
       (demo_event\<lparr>ev_sequence := 2, ev_prior_event_hash := Some ''i''\<rparr>)
       (put_segment ''w'' \<lparr>seg_lines = [], seg_tail = Some demo_sealed\<rparr> demo_store) = (Inr s, st')
     \<and> read_segment Some demo_digest ''w'' st' = Inl (CorruptEventLogError ''non-contiguous sequence'')"
proof -
  let ?e = "demo_event\<lparr>ev_sequence := 2, ev_prior_event_hash := Some ''i''\<rparr>"
  let ?st = "put_segment ''w'' \<lparr>seg_lines = [], seg_tail = Some demo_sealed\<rparr> demo_store"
  have w: "ev_writer_id ?e = ''w''" by (simp add: demo_event_def)
  have r: "read_segment Some demo_digest ''w'' ?st = Inr [demo_sealed]"
    by (simp add: read_segment_def demo_safe read_path_Inr_iff tail_events_def demo_sealed_def
        demo_event_def calculated_hash_def demo_digest_def)
  show ?thesis
    using unterminated_record_corrupts_log [where parse = Some and dump = id and e = ?e and st = ?st
        and digest = demo_digest and evs = "[demo_sealed]" and raw = demo_sealed
        and last_event = demo_sealed and ls = "[]", unfolded w, OF _ _ _ r]
    by (simp add: chain_head_def) (simp add: demo_sealed_def demo_event_def)
qed

section \<open>Content-addressed files\<close>

lemma link_file_keeps:
  assumes "link_file err path content raced files = (r, files')" and "map_of files p = Some b"
  shows "map_of files' p = Some b"
  using assms by (auto simp: link_file_def split: option.splits if_splits)

lemma link_file_stores:
  "link_file err path content raced files = (Inr (), files') \<Longrightarrow> map_of files' path = Some content"
  by (auto simp: link_file_def split: option.splits if_splits)

lemma removeprefix_digest [simp]: "removeprefix (''sha256:'' @ h) = h"
  by (simp add: removeprefix_def)

text \<open>Artifacts are immutable and read back: storing bytes makes exactly those bytes the content of
  their digest, and every artifact stored before reads as before.\<close>

theorem artifact_round_trip:
  assumes hex: "\<And>c. length (sha c) = 64 \<and> list_all hex_char (sha c)"
    and put: "put_artifact sha content raced st = (Inr d, st')"
  shows "get_artifact sha d st' = Inr content
    \<and> (\<forall>d' c. get_artifact sha d' st = Inr c \<longrightarrow> get_artifact sha d' st' = Inr c)"
proof -
  obtain files where f: "link_file (CorruptEventLogError ''artifact digest collision'')
      (sha content) content raced (st_artifacts st) = (Inr (), files)"
    and st': "st' = st\<lparr>st_artifacts := files\<rparr>" and d: "d = ''sha256:'' @ sha content"
    using put by (auto simp: put_artifact_def Let_def simp flip: append_Cons split: prod.splits)
  have "is_digest d" using hex [of content] by (simp add: d is_digest_def)
  then have "get_artifact sha d st' = Inr content"
    using link_file_stores [OF f] by (simp add: get_artifact_def st' d del: append.simps)
  moreover have "get_artifact sha d' st' = Inr c" if "get_artifact sha d' st = Inr c" for d' c
    using that link_file_keeps [OF f, of "removeprefix d'"]
    by (auto simp: get_artifact_def st' split: option.splits)
  ultimately show ?thesis by blast
qed

definition demo_sha :: "string \<Rightarrow> string" where
  "demo_sha c = replicate 64 (if c = ''x'' then CHR ''a'' else CHR ''b'')"

theorem artifact_round_trip_witness:
  "get_artifact demo_sha (''sha256:'' @ demo_sha ''x'') (snd (put_artifact demo_sha ''x'' None demo_store))
     = Inr ''x''"
proof -
  have h: "length (demo_sha c) = 64 \<and> list_all hex_char (demo_sha c)" for c
    by (simp add: demo_sha_def hex_char_def list_all_iff)
  have p: "put_artifact demo_sha ''x'' None demo_store
      = (Inr (''sha256:'' @ demo_sha ''x''), demo_store\<lparr>st_artifacts := [(demo_sha ''x'', ''x'')]\<rparr>)"
    using removeprefix_digest [of "demo_sha ''x''"]
    by (simp add: put_artifact_def link_file_def demo_store_def new_store_def)
  show ?thesis using artifact_round_trip [OF h p] by (simp add: p)
qed

text \<open>Experiment records are immutable: storing one never changes a stored file, and the record is
  among those read back.\<close>

theorem experiment_record_round_trip:
  assumes codec: "parse (dump e) = Some e"
    and put: "put_experiment digest dump e raced st = (Inr d, st')"
    and read: "read_experiments parse digest st' = Inr es"
  shows "e \<in> set es \<and> d = digest e
    \<and> (\<forall>p b. map_of (st_experiments st) p = Some b \<longrightarrow> map_of (st_experiments st') p = Some b)"
proof -
  obtain files where f: "link_file (CorruptEventLogError ''record content does not match existing hash'')
      (removeprefix (digest e)) (dump e) raced (st_experiments st) = (Inr (), files)"
    and st': "st' = st\<lparr>st_experiments := files\<rparr>" and d: "d = digest e"
    using put by (auto simp: put_experiment_def put_record_def Let_def split: prod.splits)
  have "(removeprefix (digest e), dump e) \<in> set (sort_key (\<lambda>p. fst p @ ''.json'') files)"
    using link_file_stores [OF f] by (auto dest: map_of_SomeD)
  with read obtain y where "y \<in> set es" "y = e"
    unfolding read_experiments_def read_records_def st'
    by (auto dest!: rmap_in [where x = "(removeprefix (digest e), dump e)"] simp: codec)
  moreover have "map_of files p = Some b" if "map_of (st_experiments st) p = Some b" for p b
    using link_file_keeps [OF f that] .
  ultimately show ?thesis using d st' by auto
qed

definition demo_parse :: "string \<Rightarrow> Experiment option" where
  "demo_parse b = (if b = ''x'' then Some demo_experiment else None)"

theorem experiment_record_round_trip_witness:
  "map_of (st_experiments (snd (put_experiment (\<lambda>_. ''sha256:d'') (\<lambda>_. ''x'') demo_experiment None demo_store))) ''d'' = Some ''x''
   \<and> demo_experiment \<in> {demo_experiment}"
proof -
  let ?p = "put_experiment (\<lambda>_. ''sha256:d'') (\<lambda>_. ''x'') demo_experiment None demo_store"
  have put: "?p = (Inr ''sha256:d'', demo_store\<lparr>st_experiments := [(''d'', ''x'')]\<rparr>)"
    by (simp add: put_experiment_def put_record_def link_file_def removeprefix_def demo_store_def new_store_def)
  have read: "read_experiments demo_parse (\<lambda>_. ''sha256:d'') (demo_store\<lparr>st_experiments := [(''d'', ''x'')]\<rparr>)
      = Inr [demo_experiment]"
    by (simp add: read_experiments_def read_records_def demo_parse_def removeprefix_def)
  have codec: "demo_parse ((\<lambda>_. ''x'') demo_experiment) = Some demo_experiment" by (simp add: demo_parse_def)
  from experiment_record_round_trip [OF codec put read] put show ?thesis by simp
qed

end
