(* ===== verification/EventLog.thy ===== *)
theory EventLog
  imports Store "HOL-Library.Multiset"
begin

text \<open>
  The contract the experiment controller relies on: a log of experiment events that reads in
  timestamp order and grows by exactly the appended event. The locale \<open>experiment_log\<close> states it
  and proves what a client gets from it; the store of \<open>Store\<close> is shown to provide it as
  long as its segments are readable and the JSON codec round-trips.
\<close>

section \<open>Histories of attempts\<close>

definition attempt_history :: "string \<Rightarrow> int \<Rightarrow> ExperimentEvent list \<Rightarrow> ExperimentState list" where
  "attempt_history x n es =
     map ev_to_state (filter (\<lambda>e. ev_experiment_id e = x \<and> ev_attempt e = n) es)"

text \<open>In a legal log the events of every attempt walk through the lifecycle.\<close>

definition legal_log :: "ExperimentEvent list \<Rightarrow> bool" where
  "legal_log es \<longleftrightarrow> (\<forall>x n. walk allowed_transitions None (attempt_history x n es))"

lemma attempt_history_snoc:
  "attempt_history x n (es @ [e]) = attempt_history x n es
     @ (if ev_experiment_id e = x \<and> ev_attempt e = n then [ev_to_state e] else [])"
  by (simp add: attempt_history_def)

lemma legal_log_snoc:
  assumes "legal_log es"
    and "ev_to_state e \<in> set (allowed_transitions
           (final_state None (attempt_history (ev_experiment_id e) (ev_attempt e) es)))"
  shows "legal_log (es @ [e])"
  using assms by (auto simp: legal_log_def attempt_history_snoc)

section \<open>The contract\<close>

locale experiment_log =
  fixes read_log :: "'s \<Rightarrow> ExperimentEvent list result"
    and append_log :: "ExperimentEvent \<Rightarrow> 's \<Rightarrow> ExperimentEvent result \<times> 's"
    and seal :: "ExperimentEvent \<Rightarrow> ExperimentEvent"
    and ok :: "'s \<Rightarrow> bool"
  assumes read_ok: "ok s \<Longrightarrow> \<exists>es. read_log s = Inr es"
    and append_keeps_ok: "ok s \<Longrightarrow> dt_aware (ev_timestamp e) \<Longrightarrow> ok (snd (append_log e s))"
    and append_refused: "ok s \<Longrightarrow> dt_aware (ev_timestamp e) \<Longrightarrow> append_log e s = (Inl x, s') \<Longrightarrow> read_log s' = read_log s"
    and append_extends: "ok s \<Longrightarrow> read_log s = Inr es \<Longrightarrow> append_log e s = (Inr e', s')
      \<Longrightarrow> dt_aware (ev_timestamp e) \<Longrightarrow> (\<And>d. d \<in> set es \<Longrightarrow> event_key d < event_key e)
      \<Longrightarrow> read_log s' = Inr (es @ [e']) \<and> e' = seal e"
    and seal_content: "ev_to_state (seal e) = ev_to_state e \<and> ev_experiment_id (seal e) = ev_experiment_id e
      \<and> ev_attempt (seal e) = ev_attempt e \<and> ev_timestamp (seal e) = ev_timestamp e"
begin

text \<open>Time \<open>t\<close> bounds the log: it is readable, legal, and has no event after \<open>t\<close>.\<close>

definition legal_until :: "int \<Rightarrow> 's \<Rightarrow> bool" where
  "legal_until t s \<longleftrightarrow> ok s \<and> (\<exists>es. read_log s = Inr es \<and> legal_log es
     \<and> (\<forall>e \<in> set es. dt_instant (ev_timestamp e) \<le> t))"

lemma legal_until_mono: "legal_until t s \<Longrightarrow> t \<le> t' \<Longrightarrow> legal_until t' s"
  unfolding legal_until_def by (meson order_trans)

lemma append_later:
  assumes "legal_until t s" and "read_log s = Inr es" and "append_log e s = (Inr e', s')"
    and "dt_aware (ev_timestamp e)" and "t < dt_instant (ev_timestamp e)"
  shows "read_log s' = Inr (es @ [e']) \<and> e' = seal e"
proof -
  have b: "dt_instant (ev_timestamp d) \<le> t" if "d \<in> set es" for d
    using assms(1,2) that by (auto simp: legal_until_def)
  have "event_key d < event_key e" if "d \<in> set es" for d
    using b [OF that] assms(5) by (simp add: event_key_def)
  then show ?thesis using assms append_extends by (auto simp: legal_until_def)
qed

lemma append_legal_until:
  assumes "legal_until t s" and "read_log s = Inr es"
    and "dt_aware (ev_timestamp e)" and "t < dt_instant (ev_timestamp e)"
    and "ev_to_state e \<in> set (allowed_transitions
           (final_state None (attempt_history (ev_experiment_id e) (ev_attempt e) es)))"
  shows "legal_until (dt_instant (ev_timestamp e)) (snd (append_log e s))"
proof -
  obtain r s' where a: "append_log e s = (r, s')" by (cases "append_log e s")
  have ok: "ok s" and legal: "legal_log es" and b: "\<forall>d \<in> set es. dt_instant (ev_timestamp d) \<le> t"
    using assms(1,2) by (auto simp: legal_until_def)
  have ok': "ok s'" using append_keeps_ok [OF ok assms(3)] a by simp
  show ?thesis
  proof (cases r)
    case (Inl x)
    then have "read_log s' = Inr es" using append_refused [OF ok assms(3)] a assms(2) by simp
    with ok' legal b assms(4) show ?thesis by (force simp: legal_until_def a)
  next
    case (Inr e')
    with append_later [OF assms(1,2) _ assms(3,4)] a
    have "read_log s' = Inr (es @ [seal e])" by simp
    moreover have "legal_log (es @ [seal e])"
      by (rule legal_log_snoc [OF legal]) (use assms(5) in \<open>simp add: seal_content\<close>)
    ultimately show ?thesis
      using ok' b assms(4) by (force simp: legal_until_def a seal_content)
  qed
qed

lemma legal_until_history:
  "legal_until t s \<Longrightarrow> \<exists>es. read_log s = Inr es \<and> (\<forall>x n. walk allowed_transitions None (attempt_history x n es))"
  by (auto simp: legal_until_def legal_log_def)

end

section \<open>Sorting lemmas\<close>

lemma sort_key_insert_greatest:
  assumes "\<And>y. y \<in> set (as @ bs) \<Longrightarrow> f y < f x"
  shows "sort_key f (as @ x # bs) = sort_key f (as @ bs) @ [x]"
proof (rule properties_for_sort_key)
  show "mset (sort_key f (as @ bs) @ [x]) = mset (as @ x # bs)" by simp
next
  fix k assume "k \<in> set (sort_key f (as @ bs) @ [x])"
  have "filter (\<lambda>y. f k = f y) (sort_key f (as @ bs)) = filter (\<lambda>y. f k = f y) (as @ bs)"
    using sort_key_stable [of f "f k" "as @ bs"] by (simp only: eq_commute [of "f k"])
  moreover have "filter (\<lambda>y. f x = f y) as = []" "filter (\<lambda>y. f x = f y) bs = []"
    using assms by (auto simp: filter_empty_conv) (metis order.irrefl)+
  ultimately show "filter (\<lambda>y. f k = f y) (sort_key f (as @ bs) @ [x])
      = filter (\<lambda>y. f k = f y) (as @ x # bs)" by auto
next
  show "sorted (map f (sort_key f (as @ bs) @ [x]))"
    using assms by (auto simp: sorted_append dest: order.strict_implies_order)
qed

lemma insort_key_split: "\<exists>as bs. xs = as @ bs \<and> insort_key f x xs = as @ x # bs"
proof (induction xs)
  case (Cons y ys)
  then obtain as bs where "ys = as @ bs" "insort_key f x ys = as @ x # bs" by blast
  then show ?case
    by (cases "f x \<le> f y") (force intro: exI [of _ "[]"], force intro: exI [of _ "y # as"])
qed simp

lemma sort_key_snoc_split:
  assumes "inj_on f (set (x # xs))"
  shows "\<exists>as bs. sort_key f xs = as @ bs \<and> sort_key f (xs @ [x]) = as @ x # bs"
proof -
  have "sort_key f (xs @ [x]) = insort_key f x (sort_key f xs)"
    by (rule sort_key_inj_key_eq) (use assms in \<open>auto simp: sorted_insort_key insert_commute\<close>)
  then show ?thesis using insort_key_split [of "sort_key f xs" f x] by auto
qed

section \<open>The store provides the contract\<close>

definition events_of :: "('l \<Rightarrow> ExperimentEvent option) \<Rightarrow> (ExperimentEvent \<Rightarrow> string) \<Rightarrow> ('l, 'b) ArenaStore
    \<Rightarrow> string \<Rightarrow> ExperimentEvent list" where
  "events_of parse digest st w =
     (case read_path parse digest (map_of (st_events st) w) of Inl _ \<Rightarrow> [] | Inr es \<Rightarrow> es)"

definition segment_ok :: "('l \<Rightarrow> ExperimentEvent option) \<Rightarrow> (ExperimentEvent \<Rightarrow> string) \<Rightarrow> 'l segment \<Rightarrow> bool" where
  "segment_ok parse digest seg \<longleftrightarrow> clean_segment parse seg
     \<and> (\<exists>es. read_path parse digest (Some seg) = Inr es \<and> (\<forall>e \<in> set es. dt_aware (ev_timestamp e)))"

text \<open>A store that serves as a log: the codec round-trips, and every segment is clean, readable and
  stamped with aware datetimes.\<close>

definition log_ok :: "('l \<Rightarrow> ExperimentEvent option) \<Rightarrow> (ExperimentEvent \<Rightarrow> 'l) \<Rightarrow> (ExperimentEvent \<Rightarrow> string)
    \<Rightarrow> ('l, 'b) ArenaStore \<Rightarrow> bool" where
  "log_ok parse dump digest st \<longleftrightarrow> (\<forall>x. parse (dump x) = Some x) \<and> wf_dict (st_events st)
     \<and> (\<forall>w seg. map_of (st_events st) w = Some seg \<longrightarrow> segment_ok parse digest seg)"

abbreviation jsonl :: "string \<Rightarrow> string" where
  "jsonl w \<equiv> w @ ''.jsonl''"

definition all_events :: "('l \<Rightarrow> ExperimentEvent option) \<Rightarrow> (ExperimentEvent \<Rightarrow> string) \<Rightarrow> ('l, 'b) ArenaStore
    \<Rightarrow> ExperimentEvent list" where
  "all_events parse digest st = concat (map (events_of parse digest st) (sort_key jsonl (keys (st_events st))))"

lemma log_okD:
  assumes "log_ok parse dump digest st"
  shows "parse (dump x) = Some x" and "wf_dict (st_events st)"
    and "map_of (st_events st) w = Some seg \<Longrightarrow> segment_ok parse digest seg"
  using assms unfolding log_ok_def by blast+

lemma log_ok_read_path:
  assumes "log_ok parse dump digest st"
  shows "read_path parse digest (map_of (st_events st) w) = Inr (events_of parse digest st w)
    \<and> (\<forall>e \<in> set (events_of parse digest st w). dt_aware (ev_timestamp e))"
proof (cases "map_of (st_events st) w")
  case None
  then show ?thesis by (simp add: events_of_def read_path_def)
next
  case (Some seg)
  with log_okD(3) [OF assms Some] show ?thesis by (auto simp: segment_ok_def events_of_def)
qed

lemma rfold_concat:
  "(\<And>w. w \<in> set ws \<Longrightarrow> g w = Inr (h w))
    \<Longrightarrow> rfold (\<lambda>w acc. rbind (g w) (\<lambda>evs. Inr (acc @ evs))) ws acc = Inr (acc @ concat (map h ws))"
  by (induction ws arbitrary: acc) auto

lemma read_all_events_log_ok:
  assumes "log_ok parse dump digest st"
  shows "read_all_events parse digest st = Inr (sort_key event_key (all_events parse digest st))"
proof -
  note r = log_ok_read_path [OF assms]
  have "rfold (\<lambda>w acc. rbind (read_path parse digest (map_of (st_events st) w)) (\<lambda>evs. Inr (acc @ evs)))
      (sort_key jsonl (keys (st_events st))) [] = Inr (all_events parse digest st)"
    using rfold_concat [of "sort_key jsonl (keys (st_events st))"
        "\<lambda>w. read_path parse digest (map_of (st_events st) w)" "events_of parse digest st" "[]"] r
    by (simp add: all_events_def)
  moreover have "\<forall>e \<in> set (all_events parse digest st). dt_aware (ev_timestamp e)"
    using r by (auto simp: all_events_def)
  ultimately show ?thesis by (auto simp: read_all_events_def)
qed

text \<open>Replacing one segment replaces its events in place.\<close>

lemma sorted_keys_split:
  "\<exists>as bs. sort_key jsonl (keys (dput w seg d)) = as @ w # bs
     \<and> (w \<in> set (keys d) \<longrightarrow> sort_key jsonl (keys d) = as @ w # bs)
     \<and> (w \<notin> set (keys d) \<longrightarrow> sort_key jsonl (keys d) = as @ bs)"
proof (cases "w \<in> set (keys d)")
  case True
  then have "keys (dput w seg d) = keys d" by (simp add: AList.update_keys)
  moreover obtain as bs where "sort_key jsonl (keys d) = as @ w # bs"
    using True by (metis set_sort split_list)
  ultimately show ?thesis using True by auto
next
  case False
  then have "keys (dput w seg d) = keys d @ [w]" by (simp add: AList.update_keys)
  moreover have "inj_on jsonl (set (w # keys d))" by (auto intro: inj_onI)
  ultimately show ?thesis using sort_key_snoc_split [of jsonl w "keys d"] False by auto
qed

lemma all_events_put_segment:
  assumes wf: "wf_dict (st_events st)"
    and new: "events_of parse digest (put_segment w seg st) w = events_of parse digest st w @ extra"
  shows "\<exists>as bs. all_events parse digest st = as @ bs
    \<and> all_events parse digest (put_segment w seg st) = as @ extra @ bs"
proof -
  let ?ev = "events_of parse digest st" and ?ev' = "events_of parse digest (put_segment w seg st)"
  have wf': "wf_dict (dput w seg (st_events st))" using wf by simp
  obtain as bs where s: "sort_key jsonl (keys (dput w seg (st_events st))) = as @ w # bs"
    "w \<in> set (keys (st_events st)) \<Longrightarrow> sort_key jsonl (keys (st_events st)) = as @ w # bs"
    "w \<notin> set (keys (st_events st)) \<Longrightarrow> sort_key jsonl (keys (st_events st)) = as @ bs"
    using sorted_keys_split [of w seg "st_events st"] by metis
  have "distinct (as @ w # bs)" using wf' s(1) by (metis distinct_sort wf_dict_def)
  then have "concat (map ?ev' as) = concat (map ?ev as)" "concat (map ?ev' bs) = concat (map ?ev bs)"
    by (auto simp: events_of_def intro!: arg_cong [where f = concat])
  then have "all_events parse digest (put_segment w seg st)
      = concat (map ?ev as) @ ?ev w @ extra @ concat (map ?ev bs)"
    using s(1) new unfolding all_events_def by (simp add: put_segment_def)
  moreover have "all_events parse digest st = concat (map ?ev as) @ ?ev w @ concat (map ?ev bs)"
  proof (cases "w \<in> set (keys (st_events st))")
    case True
    then show ?thesis by (simp add: all_events_def s(2))
  next
    case False
    then have "?ev w = []" by (simp add: events_of_def read_path_def map_of_eq_None_iff [THEN iffD2])
    with False show ?thesis by (simp add: all_events_def s(3))
  qed
  ultimately show ?thesis
    by (intro exI [of _ "concat (map ?ev as) @ ?ev w"] exI [of _ "concat (map ?ev bs)"]) simp
qed

text \<open>What an append leaves in the writer's segment, by its outcome.\<close>

lemma append_event_segment:
  assumes ok: "log_ok parse dump digest st" and aware: "dt_aware (ev_timestamp e)"
    and app: "append_event parse dump digest e st = (r, st')"
  shows "st' = st \<and> (\<exists>x. r = Inl x) \<or> (\<exists>seg. st' = put_segment (ev_writer_id e) seg st \<and> segment_ok parse digest seg
     \<and> events_of parse digest st' (ev_writer_id e) = events_of parse digest st (ev_writer_id e)
         @ (case r of Inl _ \<Rightarrow> [] | Inr s \<Rightarrow> [s]))"
proof (cases "safe_writer (ev_writer_id e)")
  case False
  with app show ?thesis by (auto simp: append_event_def Let_def)
next
  case True
  let ?w = "ev_writer_id e" and ?evs = "events_of parse digest st (ev_writer_id e)"
  let ?seg = "open_segment ?w st" and ?done = "\<lambda>seg. \<lparr>seg_lines = seg_lines seg, seg_tail = None\<rparr>"
  have rp: "read_path parse digest (Some ?seg) = Inr ?evs"
    and aw: "\<forall>d \<in> set ?evs. dt_aware (ev_timestamp d)"
    using log_ok_read_path [OF ok, of ?w] by (simp_all add: open_segment_read)
  have clean: "tail_events parse ?seg = []"
    using log_okD(3) [OF ok, of ?w]
    by (cases "map_of (st_events st) ?w") (auto simp: open_segment_def segment_ok_def clean_segment_def tail_events_def)
  let ?cut = "?seg\<lparr>seg_tail := None\<rparr>"
  have cut: "read_path parse digest (Some ?cut) = Inr ?evs" "tail_events parse ?cut = []"
    using rp clean by (auto simp: read_path_Inr_iff tail_events_def)
  show ?thesis
  proof (cases r)
    case (Inl x)
    with app True rp have "st' = put_segment ?w ?cut st"
      by (auto simp: append_event_def Let_def split: if_splits sum.splits)
    moreover have "segment_ok parse digest ?cut"
      using cut aw by (auto simp: segment_ok_def clean_segment_def)
    ultimately show ?thesis using cut Inl by (auto simp: events_of_def)
  next
    case (Inr s)
    note app' = app [unfolded Inr]
    note ap = append_event_Inr [OF app']
    have seq: "ev_sequence s = int (length ?evs) + 1" "ev_prior_event_hash s = head_hash ?evs"
      using ap(2) rp by (auto simp: sealed_fields [OF ap(3)])
    let ?new = "\<lparr>seg_lines = seg_lines ?seg @ [dump s], seg_tail = None\<rparr>"
    have n: "read_path parse digest (Some ?new) = Inr (?evs @ [s])"
      using rp clean seq sealed_fields(3) [OF ap(3)] log_okD(1) [OF ok, of s]
      by (auto simp: read_path_Inr_iff tail_events_def algebra_simps intro!: exI [of _ "?evs @ [s]"])
    moreover have "segment_ok parse digest ?new"
      using n aw aware by (auto simp: segment_ok_def clean_segment_def tail_events_def sealed_fields [OF ap(3)])
    ultimately show ?thesis using Inr ap(4) by (auto simp: events_of_def)
  qed
qed

lemma log_ok_put_segment:
  "log_ok parse dump digest st \<Longrightarrow> segment_ok parse digest seg \<Longrightarrow> log_ok parse dump digest (put_segment w seg st)"
  by (auto simp: log_ok_def) (simp add: put_segment_def)

text \<open>How an append changes the events of the whole store.\<close>

lemma append_event_all:
  assumes ok: "log_ok parse dump digest st" and aware: "dt_aware (ev_timestamp e)"
    and app: "append_event parse dump digest e st = (r, st')"
  shows "log_ok parse dump digest st' \<and> (\<exists>as bs. all_events parse digest st = as @ bs
    \<and> all_events parse digest st' = as @ (case r of Inl _ \<Rightarrow> [] | Inr s \<Rightarrow> [s]) @ bs)"
  using append_event_segment [OF assms]
proof (elim disjE exE conjE)
  fix x assume "st' = st" "r = Inl x"
  with ok show ?thesis by (auto intro: exI [of _ "[]"])
next
  fix seg assume "st' = put_segment (ev_writer_id e) seg st" "segment_ok parse digest seg"
    "events_of parse digest st' (ev_writer_id e) = events_of parse digest st (ev_writer_id e)
         @ (case r of Inl _ \<Rightarrow> [] | Inr s \<Rightarrow> [s])"
  then show ?thesis
    using log_ok_put_segment [OF ok] all_events_put_segment [OF log_okD(2) [OF ok]] by blast
qed

definition seal_event :: "(ExperimentEvent \<Rightarrow> string) \<Rightarrow> ExperimentEvent \<Rightarrow> ExperimentEvent" where
  "seal_event digest e = e\<lparr>ev_event_hash := Some (calculated_hash digest e)\<rparr>"

lemma event_key_sealed: "sealed digest e = Inr s \<Longrightarrow> event_key s = event_key e"
  by (simp add: event_key_def sealed_fields)

interpretation store_log: experiment_log "read_all_events parse digest" "append_event parse dump digest"
    "seal_event digest" "log_ok parse dump digest" for parse dump digest
proof unfold_locales
  fix s :: "('a, 'b) ArenaStore" and e e' s' x es
  assume ok: "log_ok parse dump digest s"
  note rd = read_all_events_log_ok [OF ok]
  show "\<exists>es. read_all_events parse digest s = Inr es" using rd by blast
  show "log_ok parse dump digest (snd (append_event parse dump digest e s))"
    if "dt_aware (ev_timestamp e)"
    using append_event_all [OF ok that, of _ "snd (append_event parse dump digest e s)"]
    by (metis prod.collapse)
  {
    assume "dt_aware (ev_timestamp e)" and "append_event parse dump digest e s = (Inl x, s')"
    from append_event_all [OF ok this] rd
    show "read_all_events parse digest s' = read_all_events parse digest s"
      using read_all_events_log_ok by fastforce
  }
  {
    assume es: "read_all_events parse digest s = Inr es"
      and app: "append_event parse dump digest e s = (Inr e', s')" and aw: "dt_aware (ev_timestamp e)"
      and later: "\<And>d. d \<in> set es \<Longrightarrow> event_key d < event_key e"
    have sl: "sealed digest e = Inr e'" by (rule append_event_Inr(3) [OF app])
    obtain as bs where ab: "all_events parse digest s = as @ bs" "all_events parse digest s' = as @ e' # bs"
      and ok': "log_ok parse dump digest s'"
      using append_event_all [OF ok aw app] by auto
    have "sort_key event_key (as @ e' # bs) = sort_key event_key (as @ bs) @ [e']"
      by (rule sort_key_insert_greatest) (use later es rd ab(1) event_key_sealed [OF sl] in auto)
    then show "read_all_events parse digest s' = Inr (es @ [e']) \<and> e' = seal_event digest e"
      using read_all_events_log_ok [OF ok'] es rd ab sl by (auto simp: sealed_Inr_iff seal_event_def)
  }
next
  show "ev_to_state (seal_event digest e) = ev_to_state e \<and> ev_experiment_id (seal_event digest e) = ev_experiment_id e
      \<and> ev_attempt (seal_event digest e) = ev_attempt e \<and> ev_timestamp (seal_event digest e) = ev_timestamp e" for e
    by (simp add: seal_event_def)
qed

end
