(* ===== verification/Observability.thy ===== *)
theory Observability
  imports Models
begin

text \<open>
  The in-process metrics registry of the arena (\<open>BoundedArenaMetrics\<close> in
  \<open>src/skharness/arena/status.py\<close>): counters whose labels come from fixed vocabularies.
\<close>

record BoundedArenaMetrics =
  m_transitions :: "(string \<times> real) list"
  m_verifications :: "(string \<times> real) list"
  m_admissions :: "(string \<times> real) list"
  m_gateway_errors :: int
  m_signals :: "(string \<times> real) list"

definition STATES :: "string list" where
  "STATES = map experiment_state_value [EProposed, EAdmitted, ERunning, EProvisional, EVerifying,
     EValid, EInvalid, EInconclusive, EFailed, ECancelled]"

definition VERDICTS :: "string list" where
  "VERDICTS = [''unverified'', ''verifying'', ''valid'', ''invalid'', ''inconclusive'']"

definition OUTCOMES :: "string list" where
  "OUTCOMES = [''admitted'', ''capacity'', ''duplicate'', ''invalid'', ''expired'']"

definition SIGNALS :: "string list" where
  "SIGNALS = [''attempts'', ''lease_expiry'', ''tokens'', ''cost'', ''joules'', ''oom'', ''cancellation'',
     ''gateway_errors'', ''frontier_movement'', ''promotions'', ''rollbacks'', ''delayed_incidents'']"

definition new_metrics :: BoundedArenaMetrics where
  "new_metrics = \<lparr>m_transitions = [], m_verifications = [], m_admissions = [], m_gateway_errors = 0, m_signals = []\<rparr>"

definition bounded :: "string \<Rightarrow> string list \<Rightarrow> string \<Rightarrow> string result" where
  "bounded value allowed label =
     check [(value \<notin> set allowed, ValueError (''unsupported '' @ label @ '' label''))] (Inr value)"

text \<open>\<open>counter[key] += n\<close> on a \<open>Counter\<close>.\<close>

definition bump :: "string \<Rightarrow> real \<Rightarrow> (string \<times> real) list \<Rightarrow> (string \<times> real) list" where
  "bump k n c = dput k ((case map_of c k of None \<Rightarrow> 0 | Some v \<Rightarrow> v) + n) c"

definition m_transition :: "string \<Rightarrow> BoundedArenaMetrics \<Rightarrow> BoundedArenaMetrics result" where
  "m_transition state m = rbind (bounded state STATES ''state'')
     (\<lambda>v. Inr (m\<lparr>m_transitions := bump v 1 (m_transitions m)\<rparr>))"

definition m_verification :: "string \<Rightarrow> BoundedArenaMetrics \<Rightarrow> BoundedArenaMetrics result" where
  "m_verification verdict m = rbind (bounded verdict VERDICTS ''verdict'')
     (\<lambda>v. Inr (m\<lparr>m_verifications := bump v 1 (m_verifications m)\<rparr>))"

definition m_admission :: "string \<Rightarrow> BoundedArenaMetrics \<Rightarrow> BoundedArenaMetrics result" where
  "m_admission outcome m = rbind (bounded outcome OUTCOMES ''outcome'')
     (\<lambda>v. Inr (m\<lparr>m_admissions := bump v 1 (m_admissions m)\<rparr>))"

definition m_gateway_error :: "BoundedArenaMetrics \<Rightarrow> BoundedArenaMetrics" where
  "m_gateway_error m = m\<lparr>m_gateway_errors := m_gateway_errors m + 1\<rparr>"

definition m_add :: "string \<Rightarrow> real \<Rightarrow> BoundedArenaMetrics \<Rightarrow> BoundedArenaMetrics result" where
  "m_add signal value m =
     check [(value < 0, ValueError ''metric counter increments must be finite and non-negative'')]
       (rbind (bounded signal SIGNALS ''signal'') (\<lambda>v. Inr (m\<lparr>m_signals := bump v value (m_signals m)\<rparr>)))"

text \<open>Every label a registry ever holds is one of its vocabulary.\<close>

definition labels_bounded :: "BoundedArenaMetrics \<Rightarrow> bool" where
  "labels_bounded m \<longleftrightarrow> set (keys (m_transitions m)) \<subseteq> set STATES
     \<and> set (keys (m_verifications m)) \<subseteq> set VERDICTS
     \<and> set (keys (m_admissions m)) \<subseteq> set OUTCOMES \<and> set (keys (m_signals m)) \<subseteq> set SIGNALS"

lemma keys_bump: "set (keys (bump k n c)) = insert k (set (keys c))"
  by (auto simp: bump_def AList.dom_update simp flip: dom_map_of_conv_image_fst)

lemma bounded_Inr_iff [simp]: "bounded v allowed l = Inr w \<longleftrightarrow> w = v \<and> v \<in> set allowed"
  by (auto simp: bounded_def)

lemma labels_bounded_new: "labels_bounded new_metrics"
  by (simp add: labels_bounded_def new_metrics_def)

lemma labels_bounded_step:
  assumes "labels_bounded m"
  shows "m_transition x m = Inr m' \<Longrightarrow> labels_bounded m'"
    and "m_verification x m = Inr m' \<Longrightarrow> labels_bounded m'"
    and "m_admission x m = Inr m' \<Longrightarrow> labels_bounded m'"
    and "m_add x n m = Inr m' \<Longrightarrow> labels_bounded m'"
    and "labels_bounded (m_gateway_error m)"
  using assms
  by (auto simp: labels_bounded_def m_transition_def m_verification_def m_admission_def m_add_def
      m_gateway_error_def keys_bump simp del: set_map)

lemma m_transition_total: "\<exists>m'. m_transition (experiment_state_value s) m = Inr m'"
  by (cases s) (auto simp: m_transition_def STATES_def)

end
