(* ===== verification/Controller.thy ===== *)
theory Controller
  imports Scheduler EventLog Observability
begin

text \<open>
  The durable experiment controller (\<open>src/skharness/arena/controller.py\<close>): lifecycle transitions
  appended to the store before external side effects, over the leases of the scheduler.

  A method takes the wall-clock reading of \<open>self._now()\<close>, the fresh event id, and the readings of
  the scheduler's clock as arguments; it returns its result beside the controller, whose writes
  stay when a later call raises. The code holds the transition lock across \<open>state\<close>, \<open>_append\<close> and
  the whole of \<open>cancel\<close>; here every method is one step.
\<close>

section \<open>State\<close>

text \<open>The codec and digest the store uses.\<close>

record 'l codec =
  parse_event :: "'l \<Rightarrow> ExperimentEvent option"
  dump_event :: "ExperimentEvent \<Rightarrow> 'l"
  digest_event :: "ExperimentEvent \<Rightarrow> string"

record ('l, 'b) ArenaController =
  ctl_store :: "('l, 'b) ArenaStore"
  ctl_scheduler :: LeaseScheduler
  ctl_writer_id :: string
  ctl_actor :: string
  ctl_node :: string
  ctl_session_id :: string
  ctl_metrics :: "BoundedArenaMetrics option"
  ctl_leases :: "((string \<times> int) \<times> string) list"

text \<open>The reading of the wall clock and the fresh identifier one appended event uses.\<close>

record stamp =
  stamp_uuid :: string
  stamp_now :: datetime

fun transitions :: "ExperimentState option \<Rightarrow> ExperimentState list" where
  "transitions None = [EProposed]"
| "transitions (Some EProposed) = [EAdmitted, ECancelled]"
| "transitions (Some EAdmitted) = [ERunning, ECancelled, EFailed]"
| "transitions (Some ERunning) = [EProvisional, ECancelled, EFailed]"
| "transitions (Some EProvisional) = [EVerifying]"
| "transitions (Some EVerifying) = [EValid, EInvalid, EInconclusive]"
| "transitions (Some EValid) = []"
| "transitions (Some EInvalid) = []"
| "transitions (Some EInconclusive) = []"
| "transitions (Some EFailed) = []"
| "transitions (Some ECancelled) = []"

section \<open>Operations\<close>

definition attempt_events :: "'l codec \<Rightarrow> string \<Rightarrow> int \<Rightarrow> ('l, 'b) ArenaController
    \<Rightarrow> ExperimentEvent list result" where
  "attempt_events k x n c =
     rbind (read_all_events (parse_event k) (digest_event k) (ctl_store c))
       (\<lambda>es. Inr (filter (\<lambda>e. ev_experiment_id e = x \<and> ev_attempt e = n) es))"

definition state :: "'l codec \<Rightarrow> string \<Rightarrow> int \<Rightarrow> ('l, 'b) ArenaController \<Rightarrow> ExperimentState option result" where
  "state k x n c = rbind (attempt_events k x n c)
     (\<lambda>es. Inr (if es = [] then None else Some (ev_to_state (last es))))"

definition with_metrics :: "(BoundedArenaMetrics \<Rightarrow> BoundedArenaMetrics result)
    \<Rightarrow> ('l, 'b) ArenaController \<Rightarrow> unit result \<times> ('l, 'b) ArenaController" where
  "with_metrics f c =
     (case ctl_metrics c of None \<Rightarrow> (Inr (), c)
      | Some m \<Rightarrow> (case f m of Inl e \<Rightarrow> (Inl e, c) | Inr m' \<Rightarrow> (Inr (), c\<lparr>ctl_metrics := Some m'\<rparr>)))"

definition new_event :: "stamp \<Rightarrow> string \<Rightarrow> int \<Rightarrow> ExperimentState \<Rightarrow> payload \<Rightarrow> ExperimentState option
    \<Rightarrow> ExperimentEvent list \<Rightarrow> ('l, 'b) ArenaController \<Rightarrow> ExperimentEvent" where
  "new_event t x n to_state payload current segment c =
     \<lparr>ev_event_id = stamp_uuid t, ev_writer_id = ctl_writer_id c,
      ev_sequence = int (length segment) + 1, ev_experiment_id = x, ev_attempt = n,
      ev_from_state = current, ev_to_state = to_state, ev_timestamp = stamp_now t,
      ev_provenance = \<lparr>prov_actor = ctl_actor c, prov_node = ctl_node c, prov_session_id = ctl_session_id c,
         prov_action = ''arena.experiment.'' @ experiment_state_value to_state,
         prov_target = ''experiment:'' @ x @ '':attempt:'' @ py_str n,
         prov_observed_prior_state = map_option experiment_state_value current, prov_signature = None\<rparr>,
      ev_payload = payload, ev_prior_event_hash = chain_head ev_event_hash None segment,
      ev_event_hash = None\<rparr>"

definition append :: "'l codec \<Rightarrow> stamp \<Rightarrow> string \<Rightarrow> int \<Rightarrow> ExperimentState \<Rightarrow> payload
    \<Rightarrow> ('l, 'b) ArenaController \<Rightarrow> ExperimentEvent result \<times> ('l, 'b) ArenaController" where
  "append k t x n to_state payload c =
     sbind (pure_call (state k x n c) c) (\<lambda>current c.
       if to_state \<notin> set (transitions current)
       then (Inl (InvalidTransitionError ''cannot transition''), c)
       else sbind (pure_call (read_segment (parse_event k) (digest_event k) (ctl_writer_id c) (ctl_store c)) c) (\<lambda>segment c.
         sbind (pure_call (mk_ExperimentEvent (new_event t x n to_state payload current segment c)) c) (\<lambda>event c.
           sbind (case append_event (parse_event k) (dump_event k) (digest_event k) event (ctl_store c) of
                    (r, st) \<Rightarrow> (r, c\<lparr>ctl_store := st\<rparr>)) (\<lambda>appended c.
             sbind (with_metrics (m_transition (experiment_state_value to_state)) c) (\<lambda>_ c.
               sbind (with_metrics (m_add ''attempts'' 1) c) (\<lambda>_ c. (Inr appended, c)))))))"

definition propose :: "'l codec \<Rightarrow> stamp \<Rightarrow> string \<Rightarrow> int \<Rightarrow> payload \<Rightarrow> ('l, 'b) ArenaController
    \<Rightarrow> ExperimentEvent result \<times> ('l, 'b) ArenaController" where
  "propose k t x n payload c = append k t x n EProposed payload c"

definition release_lease :: "string \<Rightarrow> ('l, 'b) ArenaController \<Rightarrow> ('l, 'b) ArenaController" where
  "release_lease lid c = c\<lparr>ctl_scheduler := snd (release lid (ctl_scheduler c))\<rparr>"

fun admission_reason_value :: "AdmissionReason \<Rightarrow> string" where
  "admission_reason_value CAPACITY = ''capacity''"
| "admission_reason_value DUPLICATE = ''duplicate''"
| "admission_reason_value INVALID = ''invalid''"

definition admission_outcome :: "Admission \<Rightarrow> string" where
  "admission_outcome a = (if admitted a then ''admitted''
     else (case reason a of Some r \<Rightarrow> admission_reason_value r | None \<Rightarrow> ''invalid''))"

definition lease_payload :: "Lease \<Rightarrow> payload" where
  "lease_payload l = [(''lease_id'', JStr (lease_id l)), (''expires_at'', JNum (expires_at l))]"

text \<open>The end of \<open>admit\<close>: count the outcome, record a new admission in the log, track the lease.\<close>

definition record_admission :: "'l codec \<Rightarrow> stamp \<Rightarrow> AttemptRequest \<Rightarrow> int \<Rightarrow> ExperimentState option \<Rightarrow> Admission
    \<Rightarrow> ('l, 'b) ArenaController \<Rightarrow> Admission result \<times> ('l, 'b) ArenaController" where
  "record_admission k t req n current admission c =
     sbind (with_metrics (m_admission (admission_outcome admission)) c) (\<lambda>_ c.
       if admitted admission \<and> \<not> duplicate admission \<and> current = Some EProposed
       then (case adm_lease admission of
               None \<Rightarrow> (Inl (TypeError ''NoneType has no attribute lease_id''), c)
             | Some lease \<Rightarrow>
                 sbind (append k t (experiment_id req) n EAdmitted (lease_payload lease) c) (\<lambda>_ c.
                   (Inr admission, c\<lparr>ctl_leases := dput (experiment_id req, n) (lease_id lease) (ctl_leases c)\<rparr>)))
       else if admitted admission \<and> duplicate admission
       then (case adm_lease admission of
               None \<Rightarrow> (Inl (TypeError ''NoneType has no attribute lease_id''), c)
             | Some lease \<Rightarrow>
                 (Inr admission, c\<lparr>ctl_leases := dput (experiment_id req, n) (lease_id lease) (ctl_leases c)\<rparr>))
       else (Inr admission, c))"

definition admit_attempt :: "'l codec \<Rightarrow> stamp \<Rightarrow> AttemptRequest \<Rightarrow> int \<Rightarrow> string \<Rightarrow> real \<Rightarrow> real \<Rightarrow> real
    \<Rightarrow> ('l, 'b) ArenaController \<Rightarrow> Admission result \<times> ('l, 'b) ArenaController" where
  "admit_attempt k t req n uuid now t1 t2 c =
     (if attempt_id req \<noteq> py_str n
      then (Inl (ValueError ''AttemptRequest.attempt_id must equal attempt_number''), c)
      else sbind (pure_call (state k (experiment_id req) n c) c) (\<lambda>current c.
        if current \<notin> {Some EProposed, Some EAdmitted, Some ERunning}
        then (Inl (InvalidTransitionError ''attempt must be proposed before admission''), c)
        else sbind (case admit req uuid now t1 t2 (ctl_scheduler c) of
                      Inl e \<Rightarrow> (Inl e, c) | Inr (a, s) \<Rightarrow> (Inr a, c\<lparr>ctl_scheduler := s\<rparr>)) (\<lambda>admission c.
          if current \<in> {Some EAdmitted, Some ERunning} \<and> \<not> (admitted admission \<and> duplicate admission)
          then let c' = (case adm_lease admission of None \<Rightarrow> c | Some l \<Rightarrow> release_lease (lease_id l) c)
               in sbind (with_metrics (m_admission ''duplicate'') c') (\<lambda>_ c. (Inr (refused DUPLICATE []), c))
          else record_admission k t req n current admission c)))"

definition running :: "'l codec \<Rightarrow> stamp \<Rightarrow> string \<Rightarrow> int \<Rightarrow> ('l, 'b) ArenaController
    \<Rightarrow> ExperimentEvent result \<times> ('l, 'b) ArenaController" where
  "running k t x n c = append k t x n ERunning [] c"

definition release_attempt :: "string \<Rightarrow> int \<Rightarrow> ('l, 'b) ArenaController \<Rightarrow> ('l, 'b) ArenaController" where
  "release_attempt x n c =
     (let c' = c\<lparr>ctl_leases := ddel (x, n) (ctl_leases c)\<rparr>
      in case map_of (ctl_leases c) (x, n) of
           None \<Rightarrow> c' | Some lid \<Rightarrow> if lid = [] then c' else release_lease lid c')"

definition finish_run :: "'l codec \<Rightarrow> stamp \<Rightarrow> string \<Rightarrow> int \<Rightarrow> bool \<Rightarrow> payload \<Rightarrow> ('l, 'b) ArenaController
    \<Rightarrow> ExperimentEvent result \<times> ('l, 'b) ArenaController" where
  "finish_run k t x n successful payload c =
     sbind (append k t x n (if successful then EProvisional else EFailed) payload c) (\<lambda>event c.
       sbind (if \<not> successful \<and> map_of payload ''reason'' = Some (JStr ''oom'')
              then with_metrics (m_add ''oom'' 1) c else (Inr (), c)) (\<lambda>_ c.
         (Inr event, release_attempt x n c)))"

definition heartbeat_attempt :: "string \<Rightarrow> int \<Rightarrow> real \<Rightarrow> ('l, 'b) ArenaController
    \<Rightarrow> bool \<times> ('l, 'b) ArenaController" where
  "heartbeat_attempt x n now c =
     (case map_of (ctl_leases c) (x, n) of
        None \<Rightarrow> (False, c)
      | Some lid \<Rightarrow>
          if lid = [] then (False, c)
          else (let (r, s) = heartbeat lid now (ctl_scheduler c)
                in (r \<noteq> None, c\<lparr>ctl_scheduler := s\<rparr>)))"

text \<open>\<open>stop\<close> is what the supervisor's stop hook did: nothing, or the exception it raised.\<close>

definition cancel_attempt :: "'l codec \<Rightarrow> stamp \<Rightarrow> string \<Rightarrow> int \<Rightarrow> exn option \<Rightarrow> payload
    \<Rightarrow> ('l, 'b) ArenaController \<Rightarrow> ExperimentEvent result \<times> ('l, 'b) ArenaController" where
  "cancel_attempt k t x n stop payload c =
     (case stop of Some e \<Rightarrow> (Inl e, c)
      | None \<Rightarrow>
          sbind (with_metrics (m_add ''cancellation'' 1) c) (\<lambda>_ c.
            sbind (append k t x n ECancelled payload c) (\<lambda>event c.
              (Inr event, release_attempt x n c))))"

text \<open>\<open>stamps l\<close> is the clock reading and event id used if lease \<open>l\<close> is failed.\<close>

definition reclaim_one :: "'l codec \<Rightarrow> (Lease \<Rightarrow> stamp) \<Rightarrow> Lease \<Rightarrow> ('l, 'b) ArenaController
    \<Rightarrow> ExperimentEvent list result \<times> ('l, 'b) ArenaController" where
  "reclaim_one k stamps l c =
     (case py_int (attempt_id (request l)) of
        None \<Rightarrow> (Inl (ValueError ''invalid literal for int() with base 10''), c)
      | Some n \<Rightarrow>
          (let x = experiment_id (request l); c = c\<lparr>ctl_leases := ddel (x, n) (ctl_leases c)\<rparr>
           in sbind (pure_call (state k x n c) c) (\<lambda>current c.
                if current \<in> {Some EAdmitted, Some ERunning} then
                  sbind (with_metrics (m_admission ''expired'') c) (\<lambda>_ c.
                    sbind (with_metrics (m_add ''lease_expiry'' 1) c) (\<lambda>_ c.
                      sbind (append k (stamps l) x n EFailed
                               [(''reason'', JStr ''lease_expired''), (''lease_id'', JStr (lease_id l))] c)
                        (\<lambda>event c. (Inr [event], c))))
                else (Inr [], c))))"

fun reclaim_all :: "'l codec \<Rightarrow> (Lease \<Rightarrow> stamp) \<Rightarrow> Lease list \<Rightarrow> ('l, 'b) ArenaController
    \<Rightarrow> ExperimentEvent list result \<times> ('l, 'b) ArenaController" where
  "reclaim_all k stamps [] c = (Inr [], c)"
| "reclaim_all k stamps (l # ls) c =
     sbind (reclaim_one k stamps l c) (\<lambda>es c.
       sbind (reclaim_all k stamps ls c) (\<lambda>es' c. (Inr (es @ es'), c)))"

definition reclaim_orphans :: "'l codec \<Rightarrow> (Lease \<Rightarrow> stamp) \<Rightarrow> real \<Rightarrow> ('l, 'b) ArenaController
    \<Rightarrow> ExperimentEvent list result \<times> ('l, 'b) ArenaController" where
  "reclaim_orphans k stamps now c =
     (let (expired, s) = reclaim_expired now (ctl_scheduler c)
      in reclaim_all k stamps expired (c\<lparr>ctl_scheduler := s\<rparr>))"

section \<open>The lifecycle invariant\<close>

lemma transitions_eq: "transitions = allowed_transitions"
proof
  show "transitions s = allowed_transitions s" for s
    by (cases s; cases "the s") auto
qed

abbreviation ctl_read :: "'l codec \<Rightarrow> ('l, 'b) ArenaStore \<Rightarrow> ExperimentEvent list result" where
  "ctl_read k \<equiv> read_all_events (parse_event k) (digest_event k)"

definition ctl_inv :: "'l codec \<Rightarrow> int \<Rightarrow> ('l, 'b) ArenaController \<Rightarrow> bool" where
  "ctl_inv k t c = experiment_log.legal_until (ctl_read k)
     (log_ok (parse_event k) (dump_event k) (digest_event k)) t (ctl_store c)"

lemma ctl_inv_store: "ctl_store c' = ctl_store c \<Longrightarrow> ctl_inv k t c' = ctl_inv k t c"
  by (simp add: ctl_inv_def)

lemma ctl_inv_later: "ctl_inv k t c \<Longrightarrow> t \<le> t' \<Longrightarrow> ctl_inv k t' c"
  unfolding ctl_inv_def by (rule store_log.legal_until_mono)

lemma state_eq:
  "ctl_read k (ctl_store c) = Inr es \<Longrightarrow> state k x n c = Inr (final_state None (attempt_history x n es))"
  by (auto simp: state_def attempt_events_def attempt_history_def final_state_conv last_map)

lemma with_metrics_store [simp]: "ctl_store (snd (with_metrics f c)) = ctl_store c"
  by (simp add: with_metrics_def split: option.split sum.split)

lemma with_metrics_Inr_store: "with_metrics f c = (r, c') \<Longrightarrow> ctl_store c' = ctl_store c"
  using with_metrics_store [of f c] by simp

lemma release_store [simp]:
  "ctl_store (release_lease l c) = ctl_store c" "ctl_store (release_attempt x n c) = ctl_store c"
  by (auto simp: release_lease_def release_attempt_def Let_def split: option.split)

text \<open>A property of the store alone that the first call establishes is kept by a sequence whose later
  calls do not write to the store.\<close>

lemma ctl_inv_sbind:
  assumes "ctl_inv k t (snd r)" and "\<And>x c. ctl_inv k t c \<Longrightarrow> ctl_inv k t (snd (f x c))"
  shows "ctl_inv k t (snd (sbind r f))"
  by (rule sbind_keeps [where P = "ctl_inv k t"]) (use assms in auto)

lemma ctl_inv_with_metrics [simp]: "ctl_inv k t (snd (with_metrics f c)) = ctl_inv k t c"
  by (rule ctl_inv_store) simp

text \<open>The event \<open>_append\<close> builds, when it gets as far as the store.\<close>

definition append_core :: "'l codec \<Rightarrow> ExperimentEvent \<Rightarrow> ('l, 'b) ArenaController
    \<Rightarrow> ExperimentEvent result \<times> ('l, 'b) ArenaController" where
  "append_core k e c = (case append_event (parse_event k) (dump_event k) (digest_event k) e (ctl_store c) of
      (r, st) \<Rightarrow> (r, c\<lparr>ctl_store := st\<rparr>))"

lemma append_core_inv:
  assumes "ctl_inv k t c" and "ctl_read k (ctl_store c) = Inr es"
    and "dt_aware (ev_timestamp e)" and "t < dt_instant (ev_timestamp e)"
    and "ev_to_state e \<in> set (allowed_transitions
           (final_state None (attempt_history (ev_experiment_id e) (ev_attempt e) es)))"
  shows "ctl_inv k (dt_instant (ev_timestamp e)) (snd (append_core k e c))"
  using store_log.append_legal_until [OF assms(1) [unfolded ctl_inv_def] assms(2-5)]
  by (simp add: append_core_def ctl_inv_def split_beta)

lemma ctl_inv_read: "ctl_inv k t c \<Longrightarrow> \<exists>es. ctl_read k (ctl_store c) = Inr es"
  unfolding ctl_inv_def by (auto dest: store_log.legal_until_history)

lemma new_event_fields [simp]:
  "ev_to_state (new_event u x n to p cur sg c) = to" "ev_timestamp (new_event u x n to p cur sg c) = stamp_now u"
  "ev_experiment_id (new_event u x n to p cur sg c) = x" "ev_attempt (new_event u x n to p cur sg c) = n"
  by (simp_all add: new_event_def)

text \<open>\<open>_append\<close> either leaves the store alone and raises, or appends one legal event.\<close>

lemma append_store_cases:
  assumes es: "ctl_read k (ctl_store c) = Inr es"
  shows "ctl_store (snd (append k u x n to p c)) = ctl_store c \<and> (\<exists>err. fst (append k u x n to p c) = Inl err)
    \<or> to \<in> set (allowed_transitions (final_state None (attempt_history x n es)))
      \<and> (\<exists>sg. ctl_store (snd (append k u x n to p c))
          = ctl_store (snd (append_core k (new_event u x n to p (final_state None (attempt_history x n es)) sg c) c))
        \<and> (\<forall>e. fst (append k u x n to p c) = Inr e \<longrightarrow>
             fst (append_core k (new_event u x n to p (final_state None (attempt_history x n es)) sg c) c) = Inr e))"
proof (cases "to \<in> set (transitions (final_state None (attempt_history x n es)))")
  case False
  then show ?thesis by (simp add: append_def state_eq [OF es] pure_call_def)
next
  case True
  show ?thesis
  proof (cases "read_segment (parse_event k) (digest_event k) (ctl_writer_id c) (ctl_store c)")
    case (Inl err)
    with True show ?thesis by (simp add: append_def state_eq [OF es] pure_call_def)
  next
    case (Inr sg)
    let ?e = "new_event u x n to p (final_state None (attempt_history x n es)) sg c"
    show ?thesis
    proof (cases "mk_ExperimentEvent ?e")
      case (Inl err)
      with True Inr show ?thesis by (simp add: append_def state_eq [OF es] pure_call_def)
    next
      case (Inr e')
      then have "e' = ?e" by (simp add: mk_ExperimentEvent_Inr_iff)
      with True Inr \<open>read_segment _ _ _ _ = Inr sg\<close> have "append k u x n to p c =
          sbind (append_core k ?e c) (\<lambda>appended c.
             sbind (with_metrics (m_transition (experiment_state_value to)) c) (\<lambda>_ c.
               sbind (with_metrics (m_add ''attempts'' 1) c) (\<lambda>_ c. (Inr appended, c))))"
        by (simp add: append_def state_eq [OF es] pure_call_def append_core_def)
      moreover obtain r c' where core: "append_core k ?e c = (r, c')" by (cases "append_core k ?e c")
      ultimately have "ctl_store (snd (append k u x n to p c)) = ctl_store c'
          \<and> (\<forall>e. fst (append k u x n to p c) = Inr e \<longrightarrow> r = Inr e)"
        by (cases r) (auto simp: with_metrics_def split: option.splits sum.splits)
      with core True show ?thesis
        by (metis fst_conv snd_conv transitions_eq)
    qed
  qed
qed

lemma append_inv:
  assumes inv: "ctl_inv k t c" and aware: "dt_aware (stamp_now u)" and later: "t < dt_instant (stamp_now u)"
  shows "ctl_inv k (dt_instant (stamp_now u)) (snd (append k u x n to p c))"
proof -
  obtain es where es: "ctl_read k (ctl_store c) = Inr es" using ctl_inv_read [OF inv] by blast
  have inv': "ctl_inv k (dt_instant (stamp_now u)) c" using inv later by (auto intro: ctl_inv_later)
  from append_store_cases [OF es, of u x n to p] show ?thesis
  proof (elim disjE conjE exE)
    assume "ctl_store (snd (append k u x n to p c)) = ctl_store c"
    with inv' ctl_inv_store show ?thesis by blast
  next
    fix sg
    let ?e = "new_event u x n to p (final_state None (attempt_history x n es)) sg c"
    assume "to \<in> set (allowed_transitions (final_state None (attempt_history x n es)))"
      and st: "ctl_store (snd (append k u x n to p c)) = ctl_store (snd (append_core k ?e c))"
    then have "ctl_inv k (dt_instant (stamp_now u)) (snd (append_core k ?e c))"
      using append_core_inv [OF inv es, of ?e] aware later by simp
    with st ctl_inv_store show ?thesis by blast
  qed
qed

text \<open>After a successful \<open>_append\<close> the attempt is in the state the caller asked for.\<close>

lemma append_state:
  assumes inv: "ctl_inv k t c" and aware: "dt_aware (stamp_now u)" and later: "t < dt_instant (stamp_now u)"
    and app: "append k u x n to p c = (Inr e, c')"
  shows "state k x n c' = Inr (Some to)"
    and "\<exists>s. state k x n c = Inr s \<and> to \<in> set (allowed_transitions s)"
proof -
  obtain es where es: "ctl_read k (ctl_store c) = Inr es" using ctl_inv_read [OF inv] by blast
  from append_store_cases [OF es, of u x n to p] app obtain sg
    where to: "to \<in> set (allowed_transitions (final_state None (attempt_history x n es)))"
    and st: "ctl_store c' = ctl_store (snd (append_core k (new_event u x n to p (final_state None (attempt_history x n es)) sg c) c))"
    and r: "fst (append_core k (new_event u x n to p (final_state None (attempt_history x n es)) sg c) c) = Inr e"
    by auto
  let ?e = "new_event u x n to p (final_state None (attempt_history x n es)) sg c"
  have a: "append_event (parse_event k) (dump_event k) (digest_event k) ?e (ctl_store c) = (Inr e, ctl_store c')"
    using st r by (cases "append_event (parse_event k) (dump_event k) (digest_event k) ?e (ctl_store c)")
      (simp add: append_core_def)
  have "ctl_read k (ctl_store c') = Inr (es @ [e]) \<and> e = seal_event (digest_event k) ?e"
    using store_log.append_later [OF inv [unfolded ctl_inv_def] es a] aware later by simp
  then have rd: "ctl_read k (ctl_store c') = Inr (es @ [e])" and e: "e = seal_event (digest_event k) ?e" by auto
  have "attempt_history x n (es @ [e]) = attempt_history x n es @ [to]"
    by (simp add: e attempt_history_snoc store_log.seal_content)
  then show "state k x n c' = Inr (Some to)" using state_eq [OF rd] by simp
  show "\<exists>s. state k x n c = Inr s \<and> to \<in> set (allowed_transitions s)"
    using state_eq [OF es] to by auto
qed

section \<open>Every operation keeps the lifecycle\<close>

text \<open>A wall-clock reading usable after time \<open>t\<close>: aware, and later than every event of the log.\<close>

definition fresh :: "int \<Rightarrow> stamp \<Rightarrow> bool" where
  "fresh t u \<longleftrightarrow> dt_aware (stamp_now u) \<and> t < dt_instant (stamp_now u)"

abbreviation stamp_time :: "stamp \<Rightarrow> int" where
  "stamp_time u \<equiv> dt_instant (stamp_now u)"

lemma append_fresh: "ctl_inv k t c \<Longrightarrow> fresh t u \<Longrightarrow> ctl_inv k (stamp_time u) (snd (append k u x n to p c))"
  by (auto simp: fresh_def intro: append_inv)

lemma ctl_inv_fresh: "ctl_inv k t c \<Longrightarrow> fresh t u \<Longrightarrow> ctl_inv k (stamp_time u) c"
  by (auto simp: fresh_def intro: ctl_inv_later)

lemma ctl_inv_updates [simp]:
  "ctl_inv k t (c\<lparr>ctl_scheduler := s\<rparr>) = ctl_inv k t c" "ctl_inv k t (c\<lparr>ctl_leases := d\<rparr>) = ctl_inv k t c"
  "ctl_inv k t (release_lease l c) = ctl_inv k t c" "ctl_inv k t (release_attempt x n c) = ctl_inv k t c"
  unfolding ctl_inv_def by simp_all

lemma finish_run_inv:
  assumes "ctl_inv k t c" and "fresh t u"
  shows "ctl_inv k (stamp_time u) (snd (finish_run k u x n ok p c))"
  unfolding finish_run_def
  apply (rule ctl_inv_sbind, rule append_fresh [OF assms])
  apply (rule ctl_inv_sbind)
   apply (simp_all split: if_split)
  done

text \<open>A sequence whose first part runs before the event at time \<open>T\<close> is appended.\<close>

lemma ctl_seq:
  assumes "ctl_inv k t (snd r)" and "t \<le> T" and "\<And>x c. ctl_inv k t c \<Longrightarrow> ctl_inv k T (snd (f x c))"
  shows "ctl_inv k T (snd (sbind r f))"
proof (cases r)
  case (Pair q c)
  with assms ctl_inv_later show ?thesis by (cases q) auto
qed

lemma ctl_seq_pure:
  assumes "ctl_inv k t c" and "t \<le> T" and "\<And>x. ctl_inv k T (snd (f x c))"
  shows "ctl_inv k T (snd (sbind (pure_call r c) f))"
  using assms ctl_inv_later by (cases r) (auto simp: pure_call_def)

lemma ctl_inv_snd: "ctl_inv k t c \<Longrightarrow> ctl_inv k t (snd (x, c))"
  by simp

lemma cancel_attempt_inv:
  assumes "ctl_inv k t c" and "fresh t u"
  shows "ctl_inv k (stamp_time u) (snd (cancel_attempt k u x n stop p c))"
proof (cases stop)
  case None
  have le: "t \<le> stamp_time u" using assms(2) by (simp add: fresh_def)
  show ?thesis
    unfolding cancel_attempt_def None option.case
  proof (rule ctl_seq [OF _ le])
    show "ctl_inv k t (snd (with_metrics (m_add ''cancellation'' 1) c))" using assms(1) by simp
  next
    fix v c' assume "ctl_inv k t c'"
    from append_fresh [OF this assms(2)]
    show "ctl_inv k (stamp_time u) (snd (sbind (append k u x n ECancelled p c') (\<lambda>event c. (Inr event, release_attempt x n c))))"
      by (rule ctl_inv_sbind) simp
  qed
qed (use ctl_inv_fresh [OF assms] in \<open>simp add: cancel_attempt_def\<close>)

lemma heartbeat_attempt_store [simp]: "ctl_store (snd (heartbeat_attempt x n now c)) = ctl_store c"
  by (simp add: heartbeat_attempt_def split_beta split: option.split)

lemma admit_attempt_inv:
  assumes "ctl_inv k t c" and "fresh t u"
  shows "ctl_inv k (stamp_time u) (snd (admit_attempt k u req n uuid now t1 t2 c))"
proof -
  have le: "t \<le> stamp_time u" using assms(2) by (simp add: fresh_def)
  note fr = ctl_inv_fresh [OF _ assms(2)] append_fresh [OF _ assms(2)]
  show ?thesis
    unfolding admit_attempt_def record_admission_def
    apply (split if_split, intro conjI impI)
     apply (simp add: fr assms(1))
    apply (rule ctl_seq_pure [OF assms(1) le])
    apply (split if_split, intro conjI impI)
     apply (simp add: fr assms(1))
    apply (rule ctl_seq [OF _ le])
     apply (simp add: assms(1) split: sum.split prod.split)
    apply (split if_split, intro conjI impI)
     apply (simp only: Let_def, rule ctl_seq [OF _ le], simp split: option.split, simp add: fr)
    apply (rule ctl_seq [OF _ le], simp)
    apply (auto split: option.split intro!: ctl_inv_sbind simp: fr simp del: split_paired_All)
    done
qed

lemma reclaim_one_inv:
  assumes "ctl_inv k t c" and "fresh t (stamps l)"
  shows "ctl_inv k (stamp_time (stamps l)) (snd (reclaim_one k stamps l c))"
proof (cases "py_int (attempt_id (request l))")
  case None
  then show ?thesis using ctl_inv_fresh [OF assms] by (simp add: reclaim_one_def)
next
  case (Some n)
  have le: "t \<le> stamp_time (stamps l)" using assms(2) by (simp add: fresh_def)
  note fr = ctl_inv_fresh [OF _ assms(2)] append_fresh [OF _ assms(2)]
  show ?thesis
    unfolding reclaim_one_def Some option.case Let_def
    apply (rule ctl_seq_pure [OF _ le], simp add: assms(1))
    apply (split if_split, intro conjI impI)
     apply (rule ctl_seq [OF _ le], simp add: assms(1))
     apply (rule ctl_seq [OF _ le], simp)
     apply (auto intro!: ctl_inv_sbind simp: fr assms(1))
    done
qed

lemma reclaim_all_inv:
  assumes "ctl_inv k t c" and "\<forall>l \<in> set ls. dt_aware (stamp_now (stamps l))"
    and "sorted_wrt (<) (t # map (stamp_time \<circ> stamps) ls)"
  shows "ctl_inv k (last (t # map (stamp_time \<circ> stamps) ls)) (snd (reclaim_all k stamps ls c))"
  using assms
proof (induction ls arbitrary: t c)
  case (Cons l ls)
  let ?T = "stamp_time (stamps l)" and ?last = "last (t # map (stamp_time \<circ> stamps) (l # ls))"
  have "fresh t (stamps l)" using Cons.prems by (simp add: fresh_def)
  note one = reclaim_one_inv [where stamps = stamps and l = l, OF Cons.prems(1) this]
  have end_eq: "?last = last (?T # map (stamp_time \<circ> stamps) ls)" by simp
  have le: "?T \<le> ?last" using Cons.prems(3) by (cases ls rule: rev_cases) auto
  obtain r c' where r: "reclaim_one k stamps l c = (r, c')" by fastforce
  with one have c': "ctl_inv k ?T c'" by simp
  show ?case
  proof (cases r)
    case (Inl e)
    then show ?thesis using r ctl_inv_later [OF c' le] by (simp add: comp_def)
  next
    case (Inr es)
    have "ctl_inv k ?last (snd (reclaim_all k stamps ls c'))"
      unfolding end_eq by (rule Cons.IH [OF c']) (use Cons.prems in auto)
    with Inr r show ?thesis by (cases "reclaim_all k stamps ls c'"; cases "fst (reclaim_all k stamps ls c')") (auto simp: comp_def)
  qed
qed simp

section \<open>Runs of controllers over one store\<close>

text \<open>
  A state is the time of the latest reading of the wall clock and a controller. \<open>transition\<close> is
  any use of \<open>_append\<close> (\<open>propose\<close>, \<open>running\<close>, and the runner's own verification transitions); \<open>takeover\<close> is
  another controller process, with its own writer id, leases and metrics, on the same store.
\<close>

inductive ctl_step :: "'l codec \<Rightarrow> int \<times> ('l, 'b) ArenaController \<Rightarrow> int \<times> ('l, 'b) ArenaController \<Rightarrow> bool"
  for k :: "'l codec" where
  transition: "fresh t u \<Longrightarrow> ctl_step k (t, c) (stamp_time u, snd (append k u x n to p c))"
| admission: "fresh t u \<Longrightarrow> ctl_step k (t, c) (stamp_time u, snd (admit_attempt k u req n uuid now t1 t2 c))"
| finishing: "fresh t u \<Longrightarrow> ctl_step k (t, c) (stamp_time u, snd (finish_run k u x n ok p c))"
| beat: "ctl_step k (t, c) (t, snd (heartbeat_attempt x n now c))"
| cancellation: "fresh t u \<Longrightarrow> ctl_step k (t, c) (stamp_time u, snd (cancel_attempt k u x n stop p c))"
| reclaiming: "reclaim_expired now (ctl_scheduler c) = (ls, s) \<Longrightarrow> \<forall>l \<in> set ls. dt_aware (stamp_now (stamps l))
    \<Longrightarrow> sorted_wrt (<) (t # map (stamp_time \<circ> stamps) ls)
    \<Longrightarrow> ctl_step k (t, c) (last (t # map (stamp_time \<circ> stamps) ls), snd (reclaim_orphans k stamps now c))"
| takeover: "ctl_store c' = ctl_store c \<Longrightarrow> ctl_step k (t, c) (t, c')"

inductive ctl_reachable :: "'l codec \<Rightarrow> int \<times> ('l, 'b) ArenaController \<Rightarrow> bool" for k :: "'l codec" where
  start: "ctl_store c = new_store \<Longrightarrow> ctl_reachable k (t, c)"
| next_step: "ctl_reachable k p \<Longrightarrow> ctl_step k p q \<Longrightarrow> ctl_reachable k q"

lemma new_store_inv:
  assumes "\<And>x. parse_event k (dump_event k x) = Some x" and "ctl_store c = new_store"
  shows "ctl_inv k t c"
proof -
  have "log_ok (parse_event k) (dump_event k) (digest_event k) (ctl_store c)"
    using assms by (simp add: log_ok_def new_store_def)
  from this read_all_events_log_ok [OF this] show ?thesis
    using assms(2) by (simp add: ctl_inv_def store_log.legal_until_def all_events_def new_store_def
        legal_log_def attempt_history_def)
qed

lemma ctl_step_inv: "ctl_step k p q \<Longrightarrow> ctl_inv k (fst p) (snd p) \<Longrightarrow> ctl_inv k (fst q) (snd q)"
proof (induction rule: ctl_step.induct)
  case (reclaiming now c ls s stamps t)
  have "ctl_inv k t (c\<lparr>ctl_scheduler := s\<rparr>)" using reclaiming.prems by simp
  from reclaim_all_inv [OF this reclaiming.hyps(2,3)] reclaiming.hyps(1) show ?case
    by (simp add: reclaim_orphans_def Let_def)
next
  case (takeover c' c t)
  then show ?case using ctl_inv_store [of c' c] by simp
next
  case (beat t c x n now)
  then show ?case by (simp add: ctl_inv_store [OF heartbeat_attempt_store])
qed (simp_all add: append_fresh admit_attempt_inv finish_run_inv cancel_attempt_inv)

lemma ctl_reachable_inv:
  assumes "\<And>x. parse_event k (dump_event k x) = Some x" and "ctl_reachable k (t, c)"
  shows "ctl_inv k t c"
proof -
  have "ctl_inv k (fst p) (snd p)" if "ctl_reachable k p" for p :: "int \<times> ('a, 'b) ArenaController"
    using that by (induction rule: ctl_reachable.induct) (auto intro: new_store_inv [OF assms(1)] dest: ctl_step_inv)
  from this [OF assms(2)] show ?thesis by simp
qed

section \<open>Properties\<close>

text \<open>C28. The durable lifecycle: whatever sequence of controllers works on one store, with a wall clock
  that moves forward, the log reads without error and the events of every attempt form a path of
  the experiment lifecycle. It starts at \<open>proposed\<close>, repeats no state, has at most six events, ends
  at the first terminal state, and the reported state is its last one.\<close>

theorem experiment_lifecycle:
  fixes c :: "('l, 'b) ArenaController"
  assumes codec: "\<And>x. parse_event k (dump_event k x) = Some x" and run: "ctl_reachable k (t, c)"
  shows "\<exists>es. read_all_events (parse_event k) (digest_event k) (ctl_store c) = Inr es \<and>
    (\<forall>x n. walk allowed_transitions None (attempt_history x n es)
      \<and> distinct (attempt_history x n es) \<and> length (attempt_history x n es) \<le> 6
      \<and> (\<forall>s \<in> set (attempt_history x n es). allowed_transitions (Some s) = [] \<longrightarrow> last (attempt_history x n es) = s)
      \<and> state k x n c = Inr (if attempt_history x n es = [] then None else Some (last (attempt_history x n es))))"
proof -
  from ctl_reachable_inv [OF codec run] obtain es
    where es: "ctl_read k (ctl_store c) = Inr es" and w: "\<And>x n. walk allowed_transitions None (attempt_history x n es)"
    unfolding ctl_inv_def by (auto dest: store_log.legal_until_history)
  have "length (attempt_history x n es) \<le> 6" for x n
    using experiment_life.history_length [OF w] by simp
  with es w state_eq [OF es] show ?thesis
    by (auto simp: final_state_conv intro: experiment_life.walk_distinct experiment_life.terminal_last)
qed

definition demo_codec :: "ExperimentEvent codec" where
  "demo_codec = \<lparr>parse_event = Some, dump_event = id, digest_event = demo_digest\<rparr>"

definition demo_capacity :: ResourceVector where
  "demo_capacity = no_resources\<lparr>cpu := 4\<rparr>"

definition demo_controller :: "(ExperimentEvent, string) ArenaController" where
  "demo_controller = \<lparr>ctl_store = demo_store,
     ctl_scheduler = \<lparr>capacity = demo_capacity, lease_ttl_s = 60, leases = [], by_key = [], next_oid = 0\<rparr>,
     ctl_writer_id = ''w'', ctl_actor = ''a'', ctl_node = ''n'', ctl_session_id = ''s'', ctl_metrics = None, ctl_leases = []\<rparr>"

definition demo_stamp :: "string \<Rightarrow> int \<Rightarrow> stamp" where
  "demo_stamp u t = \<lparr>stamp_uuid = u, stamp_now = \<lparr>dt_aware = True, dt_instant = t\<rparr>\<rparr>"

definition demo_proposed :: "(ExperimentEvent, string) ArenaController" where
  "demo_proposed = snd (append demo_codec (demo_stamp ''i'' 5) ''x'' 1 EProposed [] demo_controller)"

lemma demo_codec_ok: "parse_event demo_codec (dump_event demo_codec x) = Some x"
  by (simp add: demo_codec_def)

lemma demo_start: "ctl_reachable demo_codec (0, demo_controller)"
  by (rule ctl_reachable.start) (simp add: demo_controller_def demo_store_def)

lemma demo_proposed_reachable: "ctl_reachable demo_codec (5, demo_proposed)"
proof -
  have "fresh 0 (demo_stamp ''i'' 5)" by (simp add: fresh_def demo_stamp_def)
  from ctl_reachable.next_step [OF demo_start ctl_step.transition [OF this, of demo_codec demo_controller "''x''" 1 EProposed "[]"]]
  show ?thesis by (simp add: demo_proposed_def demo_stamp_def)
qed

definition demo_event_of :: "string \<Rightarrow> int \<Rightarrow> ExperimentState option \<Rightarrow> ExperimentState \<Rightarrow> payload
    \<Rightarrow> ExperimentEvent list \<Rightarrow> ExperimentEvent" where
  "demo_event_of u t cur to p segment =
     seal_event demo_digest (new_event (demo_stamp u t) ''x'' 1 to p cur segment demo_controller)"

lemma demo_proposed_store:
  "ctl_store demo_proposed = put_segment ''w''
     \<lparr>seg_lines = [demo_event_of ''i'' 5 None EProposed [] []], seg_tail = None\<rparr> demo_store"
  by code_simp

theorem experiment_lifecycle_witness:
  "read_all_events Some demo_digest (ctl_store demo_proposed) = Inr [demo_event_of ''i'' 5 None EProposed [] []]
   \<and> state demo_codec ''x'' 1 demo_proposed = Inr (Some EProposed)
   \<and> (\<exists>es. read_all_events Some demo_digest (ctl_store demo_proposed) = Inr es \<and> (\<forall>x n. distinct (attempt_history x n es)))"
proof -
  have "read_all_events Some demo_digest (ctl_store demo_proposed) = Inr [demo_event_of ''i'' 5 None EProposed [] []]"
    "state demo_codec ''x'' 1 demo_proposed = Inr (Some EProposed)"
    by code_simp+
  moreover from experiment_lifecycle [OF demo_codec_ok demo_proposed_reachable]
  have "\<exists>es. read_all_events Some demo_digest (ctl_store demo_proposed) = Inr es \<and> (\<forall>x n. distinct (attempt_history x n es))"
    by (auto simp: demo_codec_def)
  ultimately show ?thesis by blast
qed

lemma record_admission_Inr:
  assumes inv: "ctl_inv k t c" and clock: "fresh t u" and adm: "admitted a"
    and cur: "cur \<noteq> Some EProposed \<longrightarrow> duplicate a"
    and call: "record_admission k u req n cur a c = (Inr b, c')"
  shows "b = a \<and> (\<not> duplicate a \<and> state k (experiment_id req) n c' = Inr (Some EAdmitted)
        \<or> duplicate a \<and> ctl_store c' = ctl_store c)
     \<and> (\<exists>l. adm_lease a = Some l \<and> map_of (ctl_leases c') (experiment_id req, n) = Some (lease_id l))"
proof -
  let ?x = "experiment_id req"
  obtain c1 where m: "with_metrics (m_admission (admission_outcome a)) c = (Inr (), c1)"
    using call by (auto simp: record_admission_def)
  have st1: "ctl_store c1 = ctl_store c" by (rule with_metrics_Inr_store [OF m])
  then have inv1: "ctl_inv k t c1" using inv ctl_inv_store by blast
  show ?thesis
  proof (cases "duplicate a")
    case True
    with call m adm st1 show ?thesis by (auto simp: record_admission_def split: option.splits)
  next
    case False
    with call m adm cur obtain l e c2 where l: "adm_lease a = Some l" "b = a"
      and ap: "append k u ?x n EAdmitted (lease_payload l) c1 = (Inr e, c2)"
      and c': "c' = c2\<lparr>ctl_leases := dput (?x, n) (lease_id l) (ctl_leases c2)\<rparr>"
      by (auto simp: record_admission_def split: option.splits)
    have "state k ?x n c2 = Inr (Some EAdmitted)"
      using append_state(1) [OF inv1 _ _ ap] clock by (simp add: fresh_def)
    then have "state k ?x n c' = Inr (Some EAdmitted)"
      by (simp add: c' state_def attempt_events_def)
    with False l c' show ?thesis by simp
  qed
qed

text \<open>C29. No second worker: an admission that is not a duplicate only ever comes from \<open>proposed\<close>, and
  leaves the attempt \<open>admitted\<close>, so with the lifecycle it happens once per attempt; every other
  admission is of the live lease already granted, and writes nothing to the log. Either way the
  controller tracks the admitted lease.\<close>

theorem admission_happens_once:
  assumes codec: "\<And>x. parse_event k (dump_event k x) = Some x" and run: "ctl_reachable k (t, c)"
    and clock: "fresh t u"
    and call: "admit_attempt k u req n uuid now t1 t2 c = (Inr a, c')" and adm: "admitted a"
  shows "(\<not> duplicate a \<and> state k (experiment_id req) n c = Inr (Some EProposed)
          \<and> state k (experiment_id req) n c' = Inr (Some EAdmitted)
        \<or> duplicate a \<and> ctl_store c' = ctl_store c)
     \<and> attempt_id req = py_str n
     \<and> (\<exists>l. adm_lease a = Some l \<and> map_of (ctl_leases c') (experiment_id req, n) = Some (lease_id l))"
proof -
  have inv: "ctl_inv k t c" by (rule ctl_reachable_inv [OF codec run])
  obtain cur where cur: "state k (experiment_id req) n c = Inr cur" "cur \<in> {Some EProposed, Some EAdmitted, Some ERunning}"
    and id: "attempt_id req = py_str n"
    using call by (auto simp: admit_attempt_def pure_call_def split: if_splits)
  from call cur id adm obtain b s where
    adm': "cur \<in> {Some EAdmitted, Some ERunning} \<longrightarrow> admitted b \<and> duplicate b"
    and rec: "record_admission k u req n cur b (c\<lparr>ctl_scheduler := s\<rparr>) = (Inr a, c')"
    by (auto simp: admit_attempt_def pure_call_def Let_def refused_def split: if_splits sum.splits prod.splits)
  have "admitted b"
    using rec adm by (auto simp: record_admission_def split: if_splits option.splits)
  moreover have "cur \<noteq> Some EProposed \<longrightarrow> duplicate b" using adm' cur(2) by blast
  moreover have "ctl_inv k t (c\<lparr>ctl_scheduler := s\<rparr>)" using inv by simp
  ultimately have "a = b \<and> (\<not> duplicate b \<and> state k (experiment_id req) n c' = Inr (Some EAdmitted)
        \<or> duplicate b \<and> ctl_store c' = ctl_store c)
     \<and> (\<exists>l. adm_lease b = Some l \<and> map_of (ctl_leases c') (experiment_id req, n) = Some (lease_id l))"
    using record_admission_Inr [OF _ clock _ _ rec] by simp
  with cur id adm' show ?thesis by auto
qed

definition demo_attempt :: AttemptRequest where
  "demo_attempt = \<lparr>challenge_id = ''c'', experiment_id = ''x'', attempt_id = ''1'', idempotency_key = ''k'',
     resources = no_resources\<lparr>cpu := 1\<rparr>\<rparr>"

definition demo_lease :: Lease where
  "demo_lease = \<lparr>lease_id = ''l'', request = demo_attempt, acquired_at = 0, expires_at = 60, cancelled = False, lease_oid = 0\<rparr>"

definition demo_admitted :: "(ExperimentEvent, string) ArenaController" where
  "demo_admitted = snd (admit_attempt demo_codec (demo_stamp ''j'' 6) demo_attempt 1 ''l'' 0 0 0 demo_proposed)"

theorem admission_happens_once_witness:
  "fst (admit_attempt demo_codec (demo_stamp ''j'' 6) demo_attempt 1 ''l'' 0 0 0 demo_proposed) = Inr (granted demo_lease False)
   \<and> state demo_codec ''x'' 1 demo_proposed = Inr (Some EProposed)
   \<and> state demo_codec ''x'' 1 demo_admitted = Inr (Some EAdmitted)"
proof -
  have clock: "fresh 5 (demo_stamp ''j'' 6)" by (simp add: fresh_def demo_stamp_def)
  have call: "admit_attempt demo_codec (demo_stamp ''j'' 6) demo_attempt 1 ''l'' 0 0 0 demo_proposed
      = (Inr (granted demo_lease False), demo_admitted)"
    unfolding demo_admitted_def by code_simp
  from admission_happens_once [OF demo_codec_ok demo_proposed_reachable clock call]
  show ?thesis using call by (simp add: granted_def demo_attempt_def)
qed

lemma with_metrics_leases: "ctl_leases (snd (with_metrics f c)) = ctl_leases c"
  by (simp add: with_metrics_def split: option.split sum.split)

lemma append_leases: "ctl_leases (snd (append k u x n to p c)) = ctl_leases c"
  unfolding append_def pure_call_def
  by (intro sbind_keeps [where P = "\<lambda>c'. ctl_leases c' = ctl_leases c"])
    (auto intro!: sbind_keeps [where P = "\<lambda>c'. ctl_leases c' = ctl_leases c"]
      simp: with_metrics_leases split_beta)

lemma release_frees: "map_of (leases (snd (release lid s))) lid = None"
  by (simp add: release_def Let_def split: option.split)

text \<open>Cancelling an attempt, once the worker is stopped, records \<open>cancelled\<close>, forgets the attempt's
  lease and frees it in the scheduler.\<close>

theorem cancel_frees_lease:
  assumes codec: "\<And>x. parse_event k (dump_event k x) = Some x" and run: "ctl_reachable k (t, c)"
    and clock: "fresh t u"
    and call: "cancel_attempt k u x n stop p c = (Inr e, c')"
  shows "stop = None \<and> state k x n c' = Inr (Some ECancelled) \<and> map_of (ctl_leases c') (x, n) = None
    \<and> (\<forall>lid now. map_of (ctl_leases c) (x, n) = Some lid \<and> lid \<noteq> [] \<longrightarrow> active_lease lid now (ctl_scheduler c') = None)"
proof -
  have inv: "ctl_inv k t c" by (rule ctl_reachable_inv [OF codec run])
  from call obtain c1 c2 where stop: "stop = None"
    and m: "with_metrics (m_add ''cancellation'' 1) c = (Inr (), c1)"
    and ap: "append k u x n ECancelled p c1 = (Inr e, c2)" and c': "c' = release_attempt x n c2"
    by (auto simp: cancel_attempt_def split: option.splits)
  have "ctl_inv k t c1" using inv with_metrics_Inr_store [OF m] ctl_inv_store by blast
  from append_state(1) [OF this _ _ ap] clock have "state k x n c2 = Inr (Some ECancelled)"
    by (simp add: fresh_def)
  then have st: "state k x n c' = Inr (Some ECancelled)"
    by (simp add: c' state_def attempt_events_def)
  have l: "ctl_leases c2 = ctl_leases c"
    using append_leases [of k u x n ECancelled p c1] ap with_metrics_leases [of _ c] m by (metis snd_conv)
  show ?thesis
    using stop st l by (auto simp: c' release_attempt_def Let_def release_lease_def active_lease_def release_frees
        split: option.splits)
qed

theorem cancel_frees_lease_witness:
  "active_lease ''l'' 1 (ctl_scheduler demo_admitted) \<noteq> None
   \<and> active_lease ''l'' 1 (ctl_scheduler (snd (cancel_attempt demo_codec (demo_stamp ''k'' 7) ''x'' 1 None [] demo_admitted))) = None"
proof -
  let ?r = "cancel_attempt demo_codec (demo_stamp ''k'' 7) ''x'' 1 None [] demo_admitted"
  have clock: "fresh 5 (demo_stamp ''j'' 6)" "fresh 6 (demo_stamp ''k'' 7)"
    by (simp_all add: fresh_def demo_stamp_def)
  have run: "ctl_reachable demo_codec (6, demo_admitted)"
    using ctl_reachable.next_step [OF demo_proposed_reachable ctl_step.admission [OF clock(1)]]
    unfolding demo_admitted_def by (simp add: demo_stamp_def)
  have lease: "map_of (ctl_leases demo_admitted) (''x'', 1) = Some ''l''"
    "active_lease ''l'' 1 (ctl_scheduler demo_admitted) \<noteq> None" by code_simp+
  have "isl (fst ?r) = False" by code_simp
  then obtain e c' where call: "?r = (Inr e, c')" by (cases ?r; cases "fst ?r") auto
  from cancel_frees_lease [OF demo_codec_ok run clock(2) call] lease call show ?thesis by simp
qed

definition demo_cancel :: "int \<Rightarrow> (ExperimentEvent, string) ArenaController
    \<Rightarrow> ExperimentEvent result \<times> (ExperimentEvent, string) ArenaController" where
  "demo_cancel t c = cancel_attempt demo_codec (demo_stamp ''j'' t) ''x'' 1 None [] c"

text \<open>The order of events is the order of their wall-clock timestamps: when the clock steps back
  between a proposal and its cancellation, the cancelled attempt reads as \<open>proposed\<close> again and a
  second terminal transition is accepted, so the log holds two cancellations of one attempt.\<close>

theorem backward_clock_reopens_attempt:
  "isl (fst (demo_cancel 4 demo_proposed)) = False
   \<and> state demo_codec ''x'' 1 (snd (demo_cancel 4 demo_proposed)) = Inr (Some EProposed)
   \<and> isl (fst (demo_cancel 6 (snd (demo_cancel 4 demo_proposed)))) = False"
  by code_simp

end
