(* ===== verification/Lineage.thy ===== *)
theory Lineage
  imports Models "HOL-Library.Multiset"
begin

text \<open>
  The lineage view over experiment records (\<open>LineageGraph\<close> in \<open>src/skharness/arena/lineage.py\<close>).
  The children of an experiment are a Python set, here a list without repetitions. The walk to the
  parents keeps the visited ids, so it ends on every input; the queue of \<open>descendants\<close> has no such
  guard, so it is a partial function whose \<open>None\<close> means that the loop does not end. \<open>digest\<close> is
  the content hash.
\<close>

record LineageGraph =
  lg_experiments :: "(string \<times> Experiment) list"
  lg_children :: "(string \<times> string list) list"

definition new_lineage :: LineageGraph where
  "new_lineage = \<lparr>lg_experiments = [], lg_children = []\<rparr>"

definition children_of :: "LineageGraph \<Rightarrow> string \<Rightarrow> string list" where
  "children_of g x = (case map_of (lg_children g) x of None \<Rightarrow> [] | Some cs \<Rightarrow> cs)"

function would_cycle :: "(string \<times> Experiment) list \<Rightarrow> string \<Rightarrow> string list \<Rightarrow> string option \<Rightarrow> bool" where
  "would_cycle exps child visited cursor =
     (case cursor of
        None \<Rightarrow> False
      | Some c \<Rightarrow>
          if c = child then True
          else if c \<in> set visited then True
          else (case map_of exps c of
              None \<Rightarrow> False
            | Some parent \<Rightarrow> would_cycle exps child (c # visited) (exp_parent_id parent)))"
  by pat_completeness auto

lemma visited_decreases:
  assumes "c \<notin> set visited" and "map_of exps c = Some e"
  shows "card (fst ` set exps - set (c # visited)) < card (fst ` set exps - set visited)"
proof (rule psubset_card_mono)
  have "c \<in> fst ` set exps" using assms(2) by (force dest: map_of_SomeD)
  with assms(1) show "fst ` set exps - set (c # visited) \<subset> fst ` set exps - set visited" by auto
qed simp

termination would_cycle
  by (relation "measure (\<lambda>(exps, child, visited, cursor). card (set (keys exps) - set visited))")
    (simp_all add: visited_decreases del: set_simps(2))

declare would_cycle.simps [simp del]

definition add :: "(Experiment \<Rightarrow> string) \<Rightarrow> Experiment \<Rightarrow> LineageGraph \<Rightarrow> LineageGraph result" where
  "add digest e g = check
     [(case map_of (lg_experiments g) (exp_id e) of None \<Rightarrow> False | Some p \<Rightarrow> digest p \<noteq> digest e,
         ValueError ''experiment id has conflicting content''),
      (exp_parent_id e = Some (exp_id e), ValueError ''self-parent lineage is forbidden''),
      (case exp_parent_id e of None \<Rightarrow> False
         | Some p \<Rightarrow> p \<noteq> [] \<and> would_cycle (lg_experiments g) (exp_id e) [] (Some p),
         ValueError ''experiment lineage would contain a cycle'')]
     (let g' = g\<lparr>lg_experiments := dput (exp_id e) e (lg_experiments g)\<rparr>
      in Inr (case exp_parent_id e of None \<Rightarrow> g'
          | Some p \<Rightarrow> if p = [] then g'
              else g'\<lparr>lg_children := dput p (List.insert (exp_id e) (children_of g p)) (lg_children g)\<rparr>))"

definition LineageGraph_of :: "(Experiment \<Rightarrow> string) \<Rightarrow> Experiment list \<Rightarrow> LineageGraph result" where
  "LineageGraph_of digest es = rfold (add digest) es new_lineage"

function ancestors_from :: "(string \<times> Experiment) list \<Rightarrow> string list \<Rightarrow> string option \<Rightarrow> Experiment list result" where
  "ancestors_from exps seen cursor =
     (case cursor of
        None \<Rightarrow> Inr []
      | Some c \<Rightarrow>
          if c \<in> set seen then Inl (ValueError ''experiment lineage contains a cycle'')
          else (case map_of exps c of
              None \<Rightarrow> Inr []
            | Some parent \<Rightarrow> rbind (ancestors_from exps (c # seen) (exp_parent_id parent)) (\<lambda>as. Inr (parent # as))))"
  by pat_completeness auto

termination ancestors_from
  by (relation "measure (\<lambda>(exps, seen, cursor). card (set (keys exps) - set seen))")
    (simp_all add: visited_decreases del: set_simps(2))

declare ancestors_from.simps [simp del]

definition ancestors :: "LineageGraph \<Rightarrow> string \<Rightarrow> Experiment list result" where
  "ancestors g x = (case map_of (lg_experiments g) x of
     None \<Rightarrow> Inl (KeyError x)
   | Some e \<Rightarrow> ancestors_from (lg_experiments g) [] (exp_parent_id e))"

partial_function (option) descendants_loop :: "LineageGraph \<Rightarrow> string list \<Rightarrow> Experiment list \<Rightarrow> Experiment list result option" where
  "descendants_loop g queue found =
     (case queue of
        [] \<Rightarrow> Some (Inr found)
      | c # rest \<Rightarrow> (case map_of (lg_experiments g) c of
            None \<Rightarrow> Some (Inl (KeyError c))
          | Some e \<Rightarrow> descendants_loop g (rest @ sort (children_of g c)) (found @ [e])))"

declare descendants_loop.simps [code]

definition descendants :: "LineageGraph \<Rightarrow> string \<Rightarrow> Experiment list result option" where
  "descendants g x = descendants_loop g (sort (children_of g x)) []"

definition roots :: "LineageGraph \<Rightarrow> Experiment list" where
  "roots g = sort_key exp_id (filter (\<lambda>e. exp_parent_id e = None) (vals (lg_experiments g)))"

section \<open>The parent relation\<close>

definition parent_edge :: "(string \<times> Experiment) list \<Rightarrow> (string \<times> string) set" where
  "parent_edge exps = {(p, c). \<exists>e. map_of exps c = Some e \<and> exp_parent_id e = Some p}"

definition lineage_inv :: "LineageGraph \<Rightarrow> bool" where
  "lineage_inv g \<longleftrightarrow> wf_dict (lg_experiments g) \<and> wf_dict (lg_children g)
     \<and> (\<forall>x e. map_of (lg_experiments g) x = Some e \<longrightarrow> exp_id e = x \<and> exp_parent_id e \<noteq> Some [])
     \<and> (\<forall>p. distinct (children_of g p) \<and> set (children_of g p) = {c. (p, c) \<in> parent_edge (lg_experiments g)})
     \<and> acyclic (parent_edge (lg_experiments g))"

lemma parent_edge_unique: "(p, c) \<in> parent_edge d \<Longrightarrow> (q, c) \<in> parent_edge d \<Longrightarrow> p = q"
  by (auto simp: parent_edge_def)

lemma finite_parent_edge: "finite (parent_edge d)"
proof (rule finite_subset)
  show "parent_edge d \<subseteq> (\<Union>(k, e) \<in> set d. {(the (exp_parent_id e), k)})"
    by (force simp: parent_edge_def dest: map_of_SomeD)
qed auto

text \<open>The walk from \<open>cursor\<close> finds \<open>child\<close> whenever it is the cursor or an ancestor of it.\<close>

lemma would_cycle_complete:
  assumes "(child, c) \<in> (parent_edge exps)\<^sup>*"
  shows "would_cycle exps child visited (Some c)"
  using assms
proof (induction arbitrary: visited rule: rtrancl_induct)
  case base
  then show ?case by (simp add: would_cycle.simps)
next
  case (step d c)
  then obtain e where "map_of exps c = Some e" "exp_parent_id e = Some d"
    by (auto simp: parent_edge_def)
  with step.IH show ?case by (simp add: would_cycle.simps [of exps child visited "Some c"])
qed

section \<open>Adding an experiment\<close>

lemma parent_edge_dput:
  "parent_edge (dput (exp_id e) e d) = {(p, c) \<in> parent_edge d. c \<noteq> exp_id e}
     \<union> (case exp_parent_id e of None \<Rightarrow> {} | Some p \<Rightarrow> {(p, exp_id e)})"
  by (auto simp: parent_edge_def split: option.splits)

lemma children_of_dput [simp]:
  "children_of (g\<lparr>lg_experiments := d, lg_children := dput p cs (lg_children g)\<rparr>) q
     = (if q = p then cs else children_of g q)"
  "children_of (g\<lparr>lg_experiments := d\<rparr>) q = children_of g q"
  by (simp_all add: children_of_def)

text \<open>Adding keeps the invariant: a stored record is only ever replaced by itself.\<close>

lemma add_keeps:
  assumes inv: "lineage_inv g" and call: "add digest e g = Inr g'"
    and named: "exp_parent_id e \<noteq> Some []"
    and same: "\<And>p. map_of (lg_experiments g) (exp_id e) = Some p \<Longrightarrow> digest p = digest e \<Longrightarrow> p = e"
  shows "lineage_inv g'" and "map_of (lg_experiments g') = (map_of (lg_experiments g))(exp_id e \<mapsto> e)"
proof -
  let ?E = "parent_edge (lg_experiments g)" and ?x = "exp_id e"
  let ?g = "g\<lparr>lg_experiments := dput ?x e (lg_experiments g)\<rparr>"
  from call have prev: "\<And>p. map_of (lg_experiments g) ?x = Some p \<Longrightarrow> p = e"
    and nocyc: "\<And>p. exp_parent_id e = Some p \<Longrightarrow> \<not> would_cycle (lg_experiments g) ?x [] (Some p)"
    and g': "g' = (case exp_parent_id e of None \<Rightarrow> ?g
       | Some p \<Rightarrow> ?g\<lparr>lg_children := dput p (List.insert ?x (children_of g p)) (lg_children g)\<rparr>)"
    using same named by (auto simp: add_def Let_def split: option.splits)
  show m: "map_of (lg_experiments g') = (map_of (lg_experiments g))(?x \<mapsto> e)"
    by (auto simp: g' split: option.splits)
  have exps: "lg_experiments g' = dput ?x e (lg_experiments g)" by (auto simp: g' split: option.splits)
  have old: "(p, ?x) \<in> ?E \<Longrightarrow> exp_parent_id e = Some p" for p
    using prev by (auto simp: parent_edge_def)
  have E': "parent_edge (lg_experiments g')
      = ?E \<union> (case exp_parent_id e of None \<Rightarrow> {} | Some p \<Rightarrow> {(p, ?x)})"
    using old by (auto simp: exps parent_edge_dput split: option.splits)
  have acyc: "acyclic (parent_edge (lg_experiments g'))"
  proof (cases "exp_parent_id e")
    case (Some p)
    then have "(?x, p) \<notin> ?E\<^sup>*" using nocyc would_cycle_complete by blast
    with inv show ?thesis by (simp add: E' Some lineage_inv_def acyclic_insert)
  qed (use inv in \<open>simp add: E' lineage_inv_def\<close>)
  have cg: "children_of g' q = (if exp_parent_id e = Some q then List.insert ?x (children_of g q) else children_of g q)" for q
    by (auto simp: g' split: option.splits)
  have "distinct (children_of g q)" "set (children_of g q) = {c. (q, c) \<in> ?E}" for q
    using inv by (auto simp: lineage_inv_def)
  then have ch: "distinct (children_of g' q) \<and> set (children_of g' q) = {c. (q, c) \<in> parent_edge (lg_experiments g')}" for q
    unfolding cg E' by (auto split: option.splits)
  have wf: "wf_dict (lg_experiments g')" "wf_dict (lg_children g')"
    using inv by (auto simp: g' lineage_inv_def split: option.splits)
  have ids: "exp_id r = x \<and> exp_parent_id r \<noteq> Some []" if "map_of (lg_experiments g') x = Some r" for x r
    using that inv named by (auto simp: m lineage_inv_def split: if_splits)
  show "lineage_inv g'" unfolding lineage_inv_def using wf ids ch acyc by blast
qed

lemma lineage_inv_new: "lineage_inv new_lineage"
  by (simp add: lineage_inv_def new_lineage_def children_of_def parent_edge_def acyclic_def)

lemma LineageGraph_of_inv:
  assumes "LineageGraph_of digest es = Inr g" and inj: "inj_on digest (set es)"
    and named: "\<forall>e \<in> set es. exp_parent_id e \<noteq> Some []"
  shows "lineage_inv g" and "map_of (lg_experiments g) x = Some e \<Longrightarrow> e \<in> set es"
proof -
  let ?P = "\<lambda>g. lineage_inv g \<and> (\<forall>x e. map_of (lg_experiments g) x = Some e \<longrightarrow> e \<in> set es)"
  have "?P g"
    using assms(1) unfolding LineageGraph_of_def
  proof (rule rfold_invariant)
    show "?P new_lineage" using lineage_inv_new by (simp add: new_lineage_def)
  next
    fix e s s' assume e: "e \<in> set es" and P: "?P s" and call: "add digest e s = Inr s'"
    have same: "p = e" if "map_of (lg_experiments s) (exp_id e) = Some p" "digest p = digest e" for p
      using that P e inj_onD [OF inj] by blast
    have "exp_parent_id e \<noteq> Some []" using e named by blast
    note keep = add_keeps [OF conjunct1 [OF P] call this same]
    have "r \<in> set es" if "map_of (lg_experiments s') x = Some r" for x r
      using that P e by (auto simp: keep(2) split: if_splits)
    with keep(1) show "?P s'" by blast
  qed
  then show "lineage_inv g" "map_of (lg_experiments g) x = Some e \<Longrightarrow> e \<in> set es" by blast+
qed

lemma add_stores: "add digest e g = Inr g' \<Longrightarrow> lg_experiments g' = dput (exp_id e) e (lg_experiments g)"
  by (auto simp: add_def Let_def split: option.splits if_splits)

lemma adds_store:
  "rfold (add digest) es g = Inr g' \<Longrightarrow> dom (map_of (lg_experiments g')) = dom (map_of (lg_experiments g)) \<union> exp_id ` set es"
proof (induction es arbitrary: g)
  case (Cons e es)
  then obtain h where h: "add digest e g = Inr h" "rfold (add digest) es h = Inr g'" by auto
  from Cons.IH [OF h(2)] show ?case by (auto simp: add_stores [OF h(1)] dom_def)
qed simp

text \<open>An id that no record names as its parent starts no cycle.\<close>

lemma would_cycle_fresh:
  assumes "acyclic (parent_edge exps)" and "\<And>x e. map_of exps x = Some e \<Longrightarrow> exp_parent_id e \<noteq> Some child"
    and "cursor \<noteq> Some child" and "\<And>c v. cursor = Some c \<Longrightarrow> v \<in> set visited \<Longrightarrow> (c, v) \<in> (parent_edge exps)\<^sup>+"
  shows "\<not> would_cycle exps child visited cursor"
  using assms
proof (induction exps child visited cursor rule: would_cycle.induct)
  case (1 exps child visited cursor)
  show ?case
  proof (cases cursor)
    case (Some c)
    have ne: "c \<noteq> child" "c \<notin> set visited" using 1(2,4,5) Some by (auto simp: acyclic_def)
    show ?thesis
    proof (cases "map_of exps c")
      case e: (Some e)
      have "(q, v) \<in> (parent_edge exps)\<^sup>+" if "exp_parent_id e = Some q" "v \<in> set (c # visited)" for q v
        using that e 1(5) [OF Some] by (auto simp: parent_edge_def intro: trancl_into_trancl2)
      then have "\<not> would_cycle exps child (c # visited) (exp_parent_id e)"
        using 1(1) [OF Some ne e] 1(2,3) e by blast
      with Some ne e show ?thesis by (simp add: would_cycle.simps [of _ _ _ "Some c"])
    qed (use Some ne in \<open>simp add: would_cycle.simps [of _ _ _ "Some c"]\<close>)
  qed (simp add: would_cycle.simps)
qed

section \<open>Walking up and down\<close>

text \<open>The stored strict ancestors of \<open>x\<close>.\<close>

definition stored_ancestors :: "LineageGraph \<Rightarrow> string \<Rightarrow> string set" where
  "stored_ancestors g x = {p. (p, x) \<in> (parent_edge (lg_experiments g))\<^sup>+ \<and> map_of (lg_experiments g) p \<noteq> None}"

lemma lineage_invD:
  assumes "lineage_inv g"
  shows "wf_dict (lg_experiments g)" "acyclic (parent_edge (lg_experiments g))"
    "map_of (lg_experiments g) x = Some e \<Longrightarrow> exp_id e = x"
    "set (children_of g p) = {c. (p, c) \<in> parent_edge (lg_experiments g)}" "distinct (children_of g p)"
  using assms by (auto simp: lineage_inv_def)

lemma parent_edge_stored: "map_of exps c = Some e \<Longrightarrow> (p, c) \<in> parent_edge exps \<longleftrightarrow> exp_parent_id e = Some p"
  by (simp add: parent_edge_def)

text \<open>The ancestors of \<open>c\<close> are its parent and the ancestors of its parent.\<close>

lemma rtrancl_parent:
  assumes "map_of exps c = Some e"
  shows "(p, c) \<in> (parent_edge exps)\<^sup>* \<longleftrightarrow> p = c \<or> (\<exists>q. exp_parent_id e = Some q \<and> (p, q) \<in> (parent_edge exps)\<^sup>*)"
  using parent_edge_stored [OF assms] by (metis rtrancl.simps)

lemma trancl_parent:
  assumes "map_of exps c = Some e"
  shows "(p, c) \<in> (parent_edge exps)\<^sup>+ \<longleftrightarrow> (\<exists>q. exp_parent_id e = Some q \<and> (p, q) \<in> (parent_edge exps)\<^sup>*)"
  using parent_edge_stored [OF assms] by (metis rtrancl_into_trancl1 tranclD2)

lemma unstored_no_ancestor: "map_of exps c = None \<Longrightarrow> (p, c) \<in> (parent_edge exps)\<^sup>* \<Longrightarrow> p = c"
  by (auto simp: parent_edge_def elim: rtranclE)

lemma ancestors_from_total:
  assumes ac: "acyclic (parent_edge exps)" and ids: "\<And>x e. map_of exps x = Some e \<Longrightarrow> exp_id e = x"
    and seen: "\<forall>s \<in> set seen. (c, s) \<in> (parent_edge exps)\<^sup>+"
  shows "\<exists>as. ancestors_from exps seen (Some c) = Inr as
     \<and> exp_id ` set as = {p. (p, c) \<in> (parent_edge exps)\<^sup>* \<and> map_of exps p \<noteq> None}"
proof -
  have wf: "wf (parent_edge exps)" using ac finite_parent_edge finite_acyclic_wf by blast
  show ?thesis using wf seen
  proof (induction c arbitrary: seen rule: wf_induct_rule)
    case (less c)
    have notin: "c \<notin> set seen" using less.prems ac by (auto simp: acyclic_def)
    show ?case
    proof (cases "map_of exps c")
      case None
      with notin show ?thesis
        by (auto simp: ancestors_from.simps [of exps seen] dest: unstored_no_ancestor)
    next
      case (Some e)
      have id: "exp_id e = c" using ids [OF Some] .
      show ?thesis
      proof (cases "exp_parent_id e")
        case None
        with Some notin id show ?thesis
          by (auto simp: ancestors_from.simps [of exps seen] ancestors_from.simps [of exps _ None] rtrancl_parent [OF Some])
      next
        case (Some q)
        then have qc: "(q, c) \<in> parent_edge exps" using \<open>map_of exps c = Some e\<close> parent_edge_stored by blast
        have "\<forall>s \<in> set (c # seen). (q, s) \<in> (parent_edge exps)\<^sup>+"
          using qc less.prems by (auto intro: trancl_into_trancl2)
        from less.IH [OF qc this] obtain as where as: "ancestors_from exps (c # seen) (Some q) = Inr as"
          "exp_id ` set as = {p. (p, q) \<in> (parent_edge exps)\<^sup>* \<and> map_of exps p \<noteq> None}" by blast
        with Some \<open>map_of exps c = Some e\<close> notin id show ?thesis
          by (auto simp: ancestors_from.simps [of exps seen "Some c"] rtrancl_parent [of exps c e])
      qed
    qed
  qed
qed

lemma ancestors_total:
  assumes inv: "lineage_inv g" and x: "map_of (lg_experiments g) x = Some e"
  shows "\<exists>as. ancestors g x = Inr as \<and> exp_id ` set as = stored_ancestors g x"
proof (cases "exp_parent_id e")
  case None
  with x show ?thesis
    by (simp add: ancestors_def ancestors_from.simps [of _ _ None] stored_ancestors_def trancl_parent [OF x])
next
  case (Some q)
  with ancestors_from_total [OF lineage_invD(2) [OF inv] lineage_invD(3) [OF inv], of "[]" q] x
  show ?thesis by (simp add: ancestors_def stored_ancestors_def trancl_parent [OF x])
qed

text \<open>The queue of \<open>descendants\<close> shrinks in the multiset order over the parent relation.\<close>

lemma descendants_loop_total:
  assumes inv: "lineage_inv g" and queue: "\<forall>c \<in> set queue. map_of (lg_experiments g) c \<noteq> None"
  shows "\<exists>ds. descendants_loop g queue found = Some (Inr (found @ ds))
     \<and> exp_id ` set ds = {y. \<exists>c \<in> set queue. (c, y) \<in> (parent_edge (lg_experiments g))\<^sup>*}"
proof -
  let ?E = "parent_edge (lg_experiments g)"
  have "wf (?E\<inverse>)"
    using lineage_invD(2) [OF inv] finite_parent_edge by (simp add: finite_acyclic_wf_converse)
  then have wf: "wf (mult (?E\<inverse>))" by (rule wf_mult)
  show ?thesis using wf queue
  proof (induction "mset queue" arbitrary: queue found rule: wf_induct_rule)
    case less
    show ?case
    proof (cases queue)
      case Nil
      then show ?thesis by (simp add: descendants_loop.simps [of g])
    next
      case (Cons c rest)
      then obtain e where e: "map_of (lg_experiments g) c = Some e" using less.prems by auto
      let ?q = "rest @ sort (children_of g c)"
      have ch: "set (children_of g c) = {d. (c, d) \<in> ?E}" by (rule lineage_invD(4) [OF inv])
      have "(mset ?q, mset queue) \<in> mult (?E\<inverse>)"
        using one_step_implies_mult [of "{#c#}" "mset (children_of g c)" "?E\<inverse>" "mset rest"] ch Cons
        by (auto simp: union_commute)
      moreover have "\<forall>d \<in> set ?q. map_of (lg_experiments g) d \<noteq> None"
        using less.prems Cons ch by (auto simp: parent_edge_def)
      ultimately obtain ds where ds: "descendants_loop g ?q (found @ [e]) = Some (Inr (found @ [e] @ ds))"
        "exp_id ` set ds = {y. \<exists>d \<in> set ?q. (d, y) \<in> ?E\<^sup>*}"
        using less.hyps [of ?q "found @ [e]"] by auto
      have "{y. \<exists>d \<in> set queue. (d, y) \<in> ?E\<^sup>*} = insert c {y. \<exists>d \<in> set ?q. (d, y) \<in> ?E\<^sup>*}"
        using ch Cons by (auto intro: converse_rtrancl_into_rtrancl elim: converse_rtranclE)
      with ds e Cons lineage_invD(3) [OF inv e] show ?thesis
        by (intro exI [of _ "e # ds"]) (simp add: descendants_loop.simps [of g "c # rest"])
    qed
  qed
qed

lemma descendants_total:
  assumes inv: "lineage_inv g"
  shows "\<exists>ds. descendants g x = Some (Inr ds)
    \<and> exp_id ` set ds = {y. (x, y) \<in> (parent_edge (lg_experiments g))\<^sup>+}"
proof -
  have ch: "set (children_of g x) = {d. (x, d) \<in> parent_edge (lg_experiments g)}" by (rule lineage_invD(4) [OF inv])
  then have "\<forall>c \<in> set (sort (children_of g x)). map_of (lg_experiments g) c \<noteq> None"
    by (auto simp: parent_edge_def)
  from descendants_loop_total [OF inv this, of "[]"] ch show ?thesis
    by (auto simp: descendants_def intro: rtrancl_into_trancl2 dest: tranclD)
qed

section \<open>Properties\<close>

text \<open>A lineage graph built from experiment records has no cycle: following parents never comes back,
  whatever the order the records are added in (a parent may be added after its child). The
  records have non-empty parent ids and collision-free content hashes.\<close>

theorem lineage_acyclic:
  assumes "LineageGraph_of digest es = Inr g" and "inj_on digest (set es)"
    and "\<forall>e \<in> set es. exp_parent_id e \<noteq> Some []"
  shows "acyclic {(p, c). \<exists>e. map_of (lg_experiments g) c = Some e \<and> exp_parent_id e = Some p}"
  using lineage_invD(2) [OF LineageGraph_of_inv(1) [OF assms]] by (simp add: parent_edge_def)

definition demo_parent :: Experiment where
  "demo_parent = demo_experiment\<lparr>exp_id := ''p''\<rparr>"

definition demo_child :: Experiment where
  "demo_child = demo_experiment\<lparr>exp_id := ''c'', exp_parent_id := Some ''p'', exp_changed_dimensions := [''lr'']\<rparr>"

definition demo_lineage :: LineageGraph where
  "demo_lineage = \<lparr>lg_experiments = [(''c'', demo_child), (''p'', demo_parent)], lg_children = [(''p'', [''c''])]\<rparr>"

text \<open>The child is added before its parent.\<close>

lemma demo_lineage_built:
  "LineageGraph_of exp_id [demo_child, demo_parent] = Inr demo_lineage"
  "inj_on exp_id (set [demo_child, demo_parent])"
  "\<forall>e \<in> set [demo_child, demo_parent]. exp_parent_id e \<noteq> Some []"
  by (code_simp, simp_all add: demo_child_def demo_parent_def demo_experiment_def)

theorem lineage_acyclic_witness:
  "acyclic {(p, c). \<exists>e. map_of (lg_experiments demo_lineage) c = Some e \<and> exp_parent_id e = Some p}"
  by (rule lineage_acyclic [OF demo_lineage_built])

text \<open>C33. Both walks end and agree: for stored experiments \<open>ancestors\<close> and \<open>descendants\<close> always return, and
  \<open>y\<close> is listed as a descendant of \<open>x\<close> exactly when \<open>x\<close> is listed as an ancestor of \<open>y\<close>.\<close>

theorem ancestors_descendants_dual:
  assumes built: "LineageGraph_of digest es = Inr g" "inj_on digest (set es)"
      "\<forall>e \<in> set es. exp_parent_id e \<noteq> Some []"
    and x: "map_of (lg_experiments g) x = Some ex" and y: "map_of (lg_experiments g) y = Some ey"
  shows "\<exists>ds as. descendants g x = Some (Inr ds) \<and> ancestors g y = Inr as
    \<and> (y \<in> exp_id ` set ds \<longleftrightarrow> x \<in> exp_id ` set as)"
proof -
  note inv = LineageGraph_of_inv(1) [OF built]
  from descendants_total [OF inv, of x] ancestors_total [OF inv y] x show ?thesis
    by (auto simp: stored_ancestors_def)
qed

theorem ancestors_descendants_dual_witness:
  "descendants demo_lineage ''p'' = Some (Inr [demo_child]) \<and> ancestors demo_lineage ''c'' = Inr [demo_parent]
   \<and> (\<exists>ds as. descendants demo_lineage ''p'' = Some (Inr ds) \<and> ancestors demo_lineage ''c'' = Inr as
       \<and> (''c'' \<in> exp_id ` set ds \<longleftrightarrow> ''p'' \<in> exp_id ` set as))"
proof (intro conjI)
  show "descendants demo_lineage ''p'' = Some (Inr [demo_child])"
    by (simp add: descendants_def children_of_def demo_lineage_def descendants_loop.simps)
  show "ancestors demo_lineage ''c'' = Inr [demo_parent]" by code_simp
  have "map_of (lg_experiments demo_lineage) ''p'' = Some demo_parent"
    "map_of (lg_experiments demo_lineage) ''c'' = Some demo_child" by (simp_all add: demo_lineage_def)
  from ancestors_descendants_dual [OF demo_lineage_built this]
  show "\<exists>ds as. descendants demo_lineage ''p'' = Some (Inr ds) \<and> ancestors demo_lineage ''c'' = Inr as
       \<and> (''c'' \<in> exp_id ` set ds \<longleftrightarrow> ''p'' \<in> exp_id ` set as)" .
qed

text \<open>An empty parent id passes for no parent when a record is added but not when parents are followed:
  two records can then form a cycle, on which \<open>ancestors\<close> raises.\<close>

lemma empty_parent_id_cycle:
  "(case LineageGraph_of exp_id [demo_child\<lparr>exp_id := [], exp_parent_id := Some ''a''\<rparr>,
      demo_child\<lparr>exp_id := ''a'', exp_parent_id := Some []\<rparr>] of Inl _ \<Rightarrow> None
      | Inr g \<Rightarrow> Some (ancestors g ''a'')) = Some (Inl (ValueError ''experiment lineage contains a cycle''))"
  by code_simp

end
