(* ===== verification/Access.thy ===== *)
theory Access
  imports Scheduler "HOL-Library.Product_Lexorder"
begin

text \<open>
  Lease-bound attempt ownership and agent-to-agent messages (\<open>CollaborationAccess\<close> in
  \<open>src/skharness/arena/access.py\<close>). The operations reach the scheduler only through
  \<open>active_lease\<close>: they take that lookup at the time of the call as the argument \<open>look\<close>. The
  identity test \<open>active_lease(id) is lease\<close> compares the object numbers of the leases. The locale
  \<open>lease_authority\<close> states what the access layer relies on, and the scheduler provides it.
\<close>

section \<open>State\<close>

record AttemptOwnership =
  own_experiment_id :: string
  own_attempt_id :: string
  own_lease_id :: string
  own_owner :: string

record AgentMessage =
  msg_id :: string
  msg_sender :: string
  msg_recipient :: string
  msg_experiment_id :: string
  msg_body :: string
  msg_created_at :: datetime

record CollaborationAccess =
  acc_ownership :: "((string \<times> string) \<times> AttemptOwnership) list"
  acc_grants :: "(string \<times> string) list"
  acc_inboxes :: "(string \<times> AgentMessage list) list"

definition new_access :: CollaborationAccess where
  "new_access = \<lparr>acc_ownership = [], acc_grants = [], acc_inboxes = []\<rparr>"

section \<open>Operations\<close>

definition bind_lease :: "(string \<Rightarrow> Lease option) \<Rightarrow> Lease \<Rightarrow> string \<Rightarrow> CollaborationAccess
    \<Rightarrow> (AttemptOwnership \<times> CollaborationAccess) result" where
  "bind_lease look lease owner acc =
     (let key = (experiment_id (request lease), attempt_id (request lease));
          ownership = \<lparr>own_experiment_id = fst key, own_attempt_id = snd key,
                       own_lease_id = lease_id lease, own_owner = owner\<rparr>
      in check
        [(blank owner \<or> map_option lease_oid (look (lease_id lease)) \<noteq> Some (lease_oid lease),
            AccessDeniedError ''ownership requires an active scheduler lease''),
         (case map_of (acc_ownership acc) key of None \<Rightarrow> False | Some prior \<Rightarrow> prior \<noteq> ownership,
            AccessDeniedError ''attempt already has a different owner'')]
        (Inr (ownership, acc\<lparr>acc_ownership := dput key ownership (acc_ownership acc)\<rparr>)))"

definition require_owner :: "(string \<Rightarrow> Lease option) \<Rightarrow> string \<Rightarrow> string \<Rightarrow> string \<Rightarrow> CollaborationAccess
    \<Rightarrow> Lease result" where
  "require_owner look x a actor acc =
     (case map_of (acc_ownership acc) (x, a) of
        None \<Rightarrow> Inl (AccessDeniedError ''actor does not own this attempt'')
      | Some ownership \<Rightarrow>
          if own_owner ownership \<noteq> actor then Inl (AccessDeniedError ''actor does not own this attempt'')
          else (case look (own_lease_id ownership) of
              None \<Rightarrow> Inl (AccessDeniedError ''attempt ownership lease is no longer active'')
            | Some lease \<Rightarrow> Inr lease))"

definition grant_peer :: "string \<Rightarrow> string \<Rightarrow> string \<Rightarrow> CollaborationAccess \<Rightarrow> CollaborationAccess result" where
  "grant_peer actor owner peer acc = check
     [(blank owner \<or> blank peer \<or> owner = peer, ValueError ''A2A grants require two distinct agent identities''),
      (actor \<noteq> owner, AccessDeniedError ''only an agent may grant access to its A2A channel'')]
     (Inr (acc\<lparr>acc_grants := List.insert (owner, peer) (acc_grants acc)\<rparr>))"

definition revoke_peer :: "string \<Rightarrow> string \<Rightarrow> CollaborationAccess \<Rightarrow> CollaborationAccess" where
  "revoke_peer owner peer acc = acc\<lparr>acc_grants := removeAll (owner, peer) (acc_grants acc)\<rparr>"

definition inbox_of :: "CollaborationAccess \<Rightarrow> string \<Rightarrow> AgentMessage list" where
  "inbox_of acc actor = (case map_of (acc_inboxes acc) actor of None \<Rightarrow> [] | Some ms \<Rightarrow> ms)"

definition send :: "(string \<Rightarrow> Lease option) \<Rightarrow> string \<Rightarrow> datetime \<Rightarrow> string \<Rightarrow> string \<Rightarrow> string \<Rightarrow> string \<Rightarrow> string
    \<Rightarrow> CollaborationAccess \<Rightarrow> (AgentMessage \<times> CollaborationAccess) result" where
  "send look uuid now sender recipient x a body acc =
     rbind (require_owner look x a sender acc) (\<lambda>_. check
       [((sender, recipient) \<notin> set (acc_grants acc), AccessDeniedError ''sender has no A2A grant for recipient''),
        (blank body, ValueError ''message body must not be empty'')]
       (let message = \<lparr>msg_id = uuid, msg_sender = sender, msg_recipient = recipient, msg_experiment_id = x,
                       msg_body = body, msg_created_at = now\<rparr>
        in Inr (message, acc\<lparr>acc_inboxes := dput recipient (inbox_of acc recipient @ [message]) (acc_inboxes acc)\<rparr>)))"

definition owned_attempts :: "(string \<Rightarrow> Lease option) \<Rightarrow> string \<Rightarrow> CollaborationAccess \<Rightarrow> AttemptOwnership list" where
  "owned_attempts look actor acc =
     sort_key (\<lambda>o'. (own_experiment_id o', own_attempt_id o'))
       (filter (\<lambda>o'. look (own_lease_id o') \<noteq> None)
         (filter (\<lambda>o'. own_owner o' = actor) (vals (acc_ownership acc))))"

text \<open>\<open>reproduce\<close> and \<open>mutate\<close> run a catalog operation only for the owner of the new attempt.\<close>

definition as_owner :: "(string \<Rightarrow> Lease option) \<Rightarrow> string \<Rightarrow> string \<Rightarrow> string \<Rightarrow> CollaborationAccess
    \<Rightarrow> 'e result \<Rightarrow> 'e result" where
  "as_owner look x a actor acc operation = rbind (require_owner look x a actor acc) (\<lambda>_. operation)"

section \<open>The contract with the lease authority\<close>

lemma require_owner_Inr_iff:
  "require_owner look x a actor acc = Inr l \<longleftrightarrow> (\<exists>o'. map_of (acc_ownership acc) (x, a) = Some o'
     \<and> own_owner o' = actor \<and> look (own_lease_id o') = Some l)"
  by (auto simp: require_owner_def split: option.splits)

lemma require_owner_denied:
  "require_owner look x a actor acc = Inl e \<Longrightarrow> \<exists>m. e = AccessDeniedError m"
  by (auto simp: require_owner_def split: option.splits if_splits)

locale lease_authority =
  fixes active :: "'s \<Rightarrow> string \<Rightarrow> Lease option" and retire :: "string \<Rightarrow> 's \<Rightarrow> 's" and ok :: "'s \<Rightarrow> bool"
  assumes active_named: "ok s \<Longrightarrow> active s i = Some l \<Longrightarrow> lease_id l = i \<and> \<not> cancelled l"
    and retired: "active (retire i s) i = None"
    and retired_other: "i \<noteq> j \<Longrightarrow> active (retire i s) j = active s j"
begin

lemma owner_has_live_lease:
  assumes "ok s" and "require_owner (active s) x a actor acc = Inr l"
  shows "\<exists>o'. map_of (acc_ownership acc) (x, a) = Some o' \<and> own_owner o' = actor
    \<and> own_lease_id o' = lease_id l \<and> \<not> cancelled l"
  using assms by (auto simp: require_owner_Inr_iff dest: active_named)

lemma retired_owner_denied:
  assumes "map_of (acc_ownership acc) (x, a) = Some o'"
  shows "\<exists>m. require_owner (active (retire (own_lease_id o') s)) x a actor acc = Inl (AccessDeniedError m)"
proof (cases "require_owner (active (retire (own_lease_id o') s)) x a actor acc")
  case (Inl e)
  then show ?thesis using require_owner_denied by blast
next
  case (Inr l)
  then show ?thesis using assms by (auto simp: require_owner_Inr_iff retired)
qed

lemma other_owners_unaffected:
  assumes "\<And>o'. map_of (acc_ownership acc) (x, a) = Some o' \<Longrightarrow> own_lease_id o' \<noteq> i"
  shows "require_owner (active (retire i s)) x a actor acc = require_owner (active s) x a actor acc"
  using assms by (auto simp: require_owner_def retired_other split: option.split)

end

text \<open>The scheduler at a clock reading is a lease authority.\<close>

definition sched_active :: "real \<times> LeaseScheduler \<Rightarrow> string \<Rightarrow> Lease option" where
  "sched_active p i = active_lease i (fst p) (snd p)"

definition sched_retire :: "string \<Rightarrow> real \<times> LeaseScheduler \<Rightarrow> real \<times> LeaseScheduler" where
  "sched_retire i p = (fst p, snd (release i (snd p)))"

lemma map_of_leases_release: "map_of (leases (snd (release i s))) = (map_of (leases s))(i := None)"
  by (auto simp: release_def Let_def fun_upd_idem split: option.split)

interpretation scheduler_authority: lease_authority sched_active sched_retire "\<lambda>p. sched_inv (fst p) (snd p)"
proof unfold_locales
  show "lease_id l = i \<and> \<not> cancelled l" if "sched_inv (fst p) (snd p)" "sched_active p i = Some l" for p i l
    using that index_okD(1) [OF sched_inv_index [OF that(1)]]
    by (auto simp: sched_active_def active_lease_def lease_active_def split: option.splits if_splits)
  show "sched_active (sched_retire i p) i = None" for i p
    by (simp add: sched_active_def sched_retire_def active_lease_def map_of_leases_release)
  show "sched_active (sched_retire i p) j = sched_active p j" if "i \<noteq> j" for i j p
    using that by (simp add: sched_active_def sched_retire_def active_lease_def map_of_leases_release)
qed

section \<open>Runs\<close>

text \<open>Between two operations the scheduler may do anything, so each step has its own lookup.\<close>

inductive access_step :: "CollaborationAccess \<Rightarrow> CollaborationAccess \<Rightarrow> bool" where
  binding: "bind_lease look lease owner acc = Inr (ow, acc') \<Longrightarrow> access_step acc acc'"
| granting: "grant_peer actor owner peer acc = Inr acc' \<Longrightarrow> access_step acc acc'"
| revoking: "access_step acc (revoke_peer owner peer acc)"
| sending: "send look uuid now sender recipient x a body acc = Inr (m, acc') \<Longrightarrow> access_step acc acc'"

inductive access_reachable :: "CollaborationAccess \<Rightarrow> bool" where
  start: "access_reachable new_access"
| next_step: "access_reachable acc \<Longrightarrow> access_step acc acc' \<Longrightarrow> access_reachable acc'"

definition message_ok :: "CollaborationAccess \<Rightarrow> string \<Rightarrow> AgentMessage \<Rightarrow> bool" where
  "message_ok acc r m \<longleftrightarrow> msg_recipient m = r \<and> msg_sender m \<noteq> r \<and> \<not> blank (msg_body m)
     \<and> (\<exists>a o'. map_of (acc_ownership acc) (msg_experiment_id m, a) = Some o' \<and> own_owner o' = msg_sender m)"

definition access_inv :: "CollaborationAccess \<Rightarrow> bool" where
  "access_inv acc \<longleftrightarrow> (\<forall>(o', p) \<in> set (acc_grants acc). o' \<noteq> p \<and> \<not> blank o')
     \<and> (\<forall>r. \<forall>m \<in> set (inbox_of acc r). message_ok acc r m)"

text \<open>Ownership is permanent.\<close>

lemma ownership_permanent:
  "access_step acc acc' \<Longrightarrow> map_of (acc_ownership acc) k = Some o' \<Longrightarrow> map_of (acc_ownership acc') k = Some o'"
  by (induction rule: access_step.induct)
    (auto simp: bind_lease_def grant_peer_def revoke_peer_def send_def Let_def)

lemma access_step_inv:
  assumes "access_step acc acc'" and "access_inv acc"
  shows "access_inv acc'"
proof -
  have mono: "message_ok acc r m \<Longrightarrow> message_ok acc' r m" for r m
    using ownership_permanent [OF assms(1)] unfolding message_ok_def by blast
  show ?thesis
    using assms(1)
  proof cases
    case (binding look lease owner ow)
    then have "acc_grants acc' = acc_grants acc" "inbox_of acc' = inbox_of acc"
      by (auto simp: bind_lease_def Let_def inbox_of_def)
    with assms(2) mono show ?thesis unfolding access_inv_def by auto
  next
    case (granting actor owner peer)
    then have "set (acc_grants acc') = insert (owner, peer) (set (acc_grants acc))" "inbox_of acc' = inbox_of acc"
      "owner \<noteq> peer" "\<not> blank owner"
      by (auto simp: grant_peer_def inbox_of_def)
    with assms(2) mono show ?thesis unfolding access_inv_def by auto
  next
    case (revoking owner peer)
    then have "set (acc_grants acc') \<subseteq> set (acc_grants acc)" "inbox_of acc' = inbox_of acc"
      by (auto simp: revoke_peer_def inbox_of_def)
    with assms(2) mono show ?thesis unfolding access_inv_def by auto
  next
    case (sending look uuid now sender recipient x a body m)
    then have g: "acc_grants acc' = acc_grants acc" and own: "acc_ownership acc' = acc_ownership acc"
      and ib: "inbox_of acc' r = (if r = recipient then inbox_of acc r @ [m] else inbox_of acc r)"
      and ok: "(sender, recipient) \<in> set (acc_grants acc)" "\<not> blank body"
      and m: "msg_sender m = sender" "msg_recipient m = recipient" "msg_experiment_id m = x" "msg_body m = body"
      and o': "\<exists>l. require_owner look x a sender acc = Inr l" for r
      by (auto simp: send_def Let_def inbox_of_def)
    have "message_ok acc' recipient m"
      using o' m ok own assms(2) by (auto simp: message_ok_def require_owner_Inr_iff access_inv_def)
    with assms(2) mono g ib show ?thesis unfolding access_inv_def by auto
  qed
qed

lemma access_reachable_inv: "access_reachable acc \<Longrightarrow> access_inv acc"
proof (induction rule: access_reachable.induct)
  case start
  then show ?case by (simp add: access_inv_def new_access_def inbox_of_def)
qed (rule access_step_inv)

section \<open>Properties\<close>

text \<open>What an inbox can hold: in every run, each message of an agent's inbox is addressed to that agent,
  comes from another agent, has a body, and its sender was bound as the owner of an attempt of the
  experiment the message is about; that binding never changes afterwards.\<close>

theorem inbox_messages_authorised:
  assumes run: "access_reachable acc" and m: "m \<in> set (inbox_of acc r)"
  shows "msg_recipient m = r \<and> msg_sender m \<noteq> r \<and> \<not> blank (msg_body m)
    \<and> (\<exists>a o'. map_of (acc_ownership acc) (msg_experiment_id m, a) = Some o' \<and> own_owner o' = msg_sender m
        \<and> (\<forall>acc'. access_step acc acc' \<longrightarrow> map_of (acc_ownership acc') (msg_experiment_id m, a) = Some o'))"
proof -
  have ok: "message_ok acc r m" using access_reachable_inv [OF run] m by (simp add: access_inv_def)
  then obtain a o' where "map_of (acc_ownership acc) (msg_experiment_id m, a) = Some o'" "own_owner o' = msg_sender m"
    by (auto simp: message_ok_def)
  with ok ownership_permanent show ?thesis unfolding message_ok_def by blast
qed

definition demo_bound :: CollaborationAccess where
  "demo_bound = new_access\<lparr>acc_ownership := [((''e'', ''1''),
     \<lparr>own_experiment_id = ''e'', own_attempt_id = ''1'', own_lease_id = ''a'', own_owner = ''one''\<rparr>)]\<rparr>"

definition demo_message :: AgentMessage where
  "demo_message = \<lparr>msg_id = ''u'', msg_sender = ''one'', msg_recipient = ''two'', msg_experiment_id = ''e'',
     msg_body = ''hi'', msg_created_at = \<lparr>dt_aware = True, dt_instant = 0\<rparr>\<rparr>"

definition demo_inbox :: CollaborationAccess where
  "demo_inbox = demo_bound\<lparr>acc_grants := [(''one'', ''two'')], acc_inboxes := [(''two'', [demo_message])]\<rparr>"

definition demo_live :: Lease where
  "demo_live = \<lparr>lease_id = ''a'', request = (demo_req ''k'')\<lparr>experiment_id := ''e'', attempt_id := ''1''\<rparr>,
     acquired_at = 0, expires_at = 60, cancelled = False, lease_oid = 0\<rparr>"

lemma demo_inbox_reachable: "access_reachable demo_inbox"
proof -
  let ?look = "\<lambda>i. if i = ''a'' then Some demo_live else None"
  have nb: "\<not> blank ''one''" "\<not> blank ''two''" "\<not> blank ''hi''"
    by (simp_all add: blank_iff py_isspace_def)
  have b: "\<exists>ow. bind_lease ?look demo_live ''one'' new_access = Inr (ow, demo_bound)"
    by (simp add: bind_lease_def demo_live_def demo_bound_def new_access_def nb Let_def)
  have g: "grant_peer ''one'' ''one'' ''two'' demo_bound = Inr (demo_bound\<lparr>acc_grants := [(''one'', ''two'')]\<rparr>)"
    by (simp add: grant_peer_def nb demo_bound_def new_access_def)
  have s: "send ?look ''u'' \<lparr>dt_aware = True, dt_instant = 0\<rparr> ''one'' ''two'' ''e'' ''1'' ''hi''
      (demo_bound\<lparr>acc_grants := [(''one'', ''two'')]\<rparr>) = Inr (demo_message, demo_inbox)"
    by (simp add: send_def Let_def require_owner_def nb demo_bound_def new_access_def inbox_of_def demo_message_def demo_inbox_def)
  from b obtain ow where "bind_lease ?look demo_live ''one'' new_access = Inr (ow, demo_bound)" by blast
  from access_reachable.intros(2) [OF access_reachable.start access_step.binding [OF this]]
  have "access_reachable demo_bound" .
  from access_reachable.intros(2) [OF access_reachable.intros(2) [OF this access_step.granting [OF g]] access_step.sending [OF s]]
  show ?thesis .
qed

theorem inbox_messages_authorised_witness:
  "inbox_of demo_inbox ''two'' = [demo_message] \<and> msg_recipient demo_message = ''two''"
proof -
  have i: "inbox_of demo_inbox ''two'' = [demo_message]" by (simp add: inbox_of_def demo_inbox_def)
  from inbox_messages_authorised [OF demo_inbox_reachable, of demo_message "''two''"] i show ?thesis by simp
qed

text \<open>A lease carries the right to act: whoever is not the bound owner, or whose lease is not live in the
  scheduler, can neither send nor run a catalog operation under the attempt; releasing the lease in
  any reachable scheduler state cuts the owner off at once, and no attempt bound to another lease
  is affected.\<close>

theorem lease_release_revokes_access:
  assumes run: "sched_reachable cap ttl (t, s)"
    and own: "map_of (acc_ownership acc) (x, a) = Some o'"
  shows "(\<forall>l. require_owner (sched_active (t, s)) x a actor acc = Inr l \<longrightarrow>
        actor = own_owner o' \<and> lease_id l = own_lease_id o' \<and> lease_active l t)
    \<and> (\<exists>m. send (sched_active (sched_retire (own_lease_id o') (t, s))) uuid now actor r x a body acc = Inl (AccessDeniedError m))
    \<and> (\<exists>m. as_owner (sched_active (sched_retire (own_lease_id o') (t, s))) x a actor acc operation = Inl (AccessDeniedError m))
    \<and> (\<forall>y b p. map_of (acc_ownership acc) (y, b) = Some p \<and> own_lease_id p \<noteq> own_lease_id o' \<longrightarrow>
        require_owner (sched_active (sched_retire (own_lease_id o') (t, s))) y b actor acc
          = require_owner (sched_active (t, s)) y b actor acc)"
proof (intro conjI allI impI)
  have inv: "sched_inv (fst (t, s)) (snd (t, s))" using sched_reachable_inv [OF run] by simp
  fix l assume r: "require_owner (sched_active (t, s)) x a actor acc = Inr l"
  from scheduler_authority.owner_has_live_lease [OF inv r] own
  show "actor = own_owner o'" "lease_id l = own_lease_id o'" by auto
  from r show "lease_active l t"
    by (auto simp: require_owner_Inr_iff sched_active_def active_lease_def split: option.splits if_splits)
next
  from scheduler_authority.retired_owner_denied [OF own, of "(t, s)" actor]
  show "\<exists>m. send (sched_active (sched_retire (own_lease_id o') (t, s))) uuid now actor r x a body acc = Inl (AccessDeniedError m)"
    "\<exists>m. as_owner (sched_active (sched_retire (own_lease_id o') (t, s))) x a actor acc operation = Inl (AccessDeniedError m)"
    by (auto simp: send_def as_owner_def)
next
  fix y b p assume "map_of (acc_ownership acc) (y, b) = Some p \<and> own_lease_id p \<noteq> own_lease_id o'"
  then show "require_owner (sched_active (sched_retire (own_lease_id o') (t, s))) y b actor acc
          = require_owner (sched_active (t, s)) y b actor acc"
    by (intro scheduler_authority.other_owners_unaffected) auto
qed

theorem lease_release_revokes_access_witness:
  "require_owner (sched_active (0, demo_sched)) ''e'' ''1'' ''one'' demo_bound = Inr (the (map_of (leases demo_sched) ''a''))
   \<and> (\<exists>m. send (sched_active (sched_retire ''a'' (0, demo_sched))) ''u'' \<lparr>dt_aware = True, dt_instant = 0\<rparr>
         ''one'' ''two'' ''e'' ''1'' ''hi'' demo_bound = Inl (AccessDeniedError m))"
proof -
  let ?o = "\<lparr>own_experiment_id = ''e'', own_attempt_id = ''1'', own_lease_id = ''a'', own_owner = ''one''\<rparr>"
  have own: "map_of (acc_ownership demo_bound) (''e'', ''1'') = Some ?o" by (simp add: demo_bound_def)
  have "require_owner (sched_active (0, demo_sched)) ''e'' ''1'' ''one'' demo_bound = Inr (the (map_of (leases demo_sched) ''a''))"
    by (simp add: require_owner_def demo_bound_def sched_active_def active_lease_def demo_sched_def lease_active_def)
  with lease_release_revokes_access [OF demo_reachable own, where actor = "''one''" and uuid = "''u''"
      and now = "\<lparr>dt_aware = True, dt_instant = 0\<rparr>" and r = "''two''" and body = "''hi''" and operation = "Inr ()"]
  show ?thesis by simp
qed

end
