(* ===== verification/Catalog.thy ===== *)
theory Catalog
  imports Access Lineage
begin

text \<open>
  The collaboration catalog (\<open>ExperimentCatalog\<close>, \<open>PositiveEvidence\<close>, \<open>NegativeKnowledge\<close> and
  \<open>NegativeKnowledgeIndex\<close> in \<open>src/skharness/arena/collaboration.py\<close>) and its owner-only entry points
  (\<open>CollaborationAccess.reproduce\<close> and \<open>mutate\<close> in \<open>src/skharness/arena/access.py\<close>). The content
  hashes of experiments, results and negative records are parameters.
\<close>

section \<open>Values\<close>

text \<open>Python's \<open>==\<close> on decoded JSON: dictionaries compare without their order, \<open>True\<close> equals \<open>1\<close>.\<close>

fun json_eq :: "json \<Rightarrow> json \<Rightarrow> bool" and arr_eq :: "json list \<Rightarrow> json list \<Rightarrow> bool"
  and obj_within :: "(string \<times> json) list \<Rightarrow> (string \<times> json) list \<Rightarrow> bool" where
  "json_eq JNull JNull = True"
| "json_eq (JBool a) (JBool b) = (a = b)"
| "json_eq (JNum x) (JNum y) = (x = y)"
| "json_eq (JBool a) (JNum y) = (of_bool a = y)"
| "json_eq (JNum x) (JBool b) = (x = of_bool b)"
| "json_eq (JStr s) (JStr t) = (s = t)"
| "json_eq (JArr xs) (JArr ys) = arr_eq xs ys"
| "json_eq (JObj d) (JObj e) = (length d = length e \<and> obj_within d e)"
| "json_eq _ _ = False"
| "arr_eq [] [] = True"
| "arr_eq (x # xs) (y # ys) = (json_eq x y \<and> arr_eq xs ys)"
| "arr_eq _ _ = False"
| "obj_within [] e = True"
| "obj_within ((k, v) # d) e = (case map_of e k of None \<Rightarrow> False | Some w \<Rightarrow> json_eq v w \<and> obj_within d e)"

record catalog_hashes =
  h_experiment :: "Experiment \<Rightarrow> string"
  h_outcome :: "Result \<Rightarrow> string"

section \<open>The catalog\<close>

record ExperimentCatalog =
  cat_experiments :: "(string \<times> Experiment) list"
  cat_results :: "(string \<times> Result) list"

definition catalog_experiment :: "catalog_hashes \<Rightarrow> Experiment \<Rightarrow> (string \<times> Experiment) list \<Rightarrow> (string \<times> Experiment) list result" where
  "catalog_experiment H e exps = check
     [(case map_of exps (exp_id e) of None \<Rightarrow> False | Some p \<Rightarrow> h_experiment H p \<noteq> h_experiment H e,
         CollaborationError ''conflicting experiment identity'')] (Inr (dput (exp_id e) e exps))"

definition catalog_result :: "catalog_hashes \<Rightarrow> (string \<times> Experiment) list \<Rightarrow> Result \<Rightarrow> (string \<times> Result) list
    \<Rightarrow> (string \<times> Result) list result" where
  "catalog_result H exps r ress = check
     [(case map_of ress (res_experiment_id r) of None \<Rightarrow> False | Some p \<Rightarrow> h_outcome H p \<noteq> h_outcome H r,
         CollaborationError ''conflicting result identity''),
      (case map_of exps (res_experiment_id r) of None \<Rightarrow> True | Some e \<Rightarrow> h_experiment H e \<noteq> res_experiment_hash r,
         CollaborationError ''result is not bound to the catalog experiment''),
      (case map_of exps (res_experiment_id r) of None \<Rightarrow> False | Some e \<Rightarrow> exp_challenge_hash e \<noteq> res_challenge_hash r,
         CollaborationError ''result challenge does not match experiment'')]
     (Inr (dput (res_experiment_id r) r ress))"

definition ExperimentCatalog_of :: "catalog_hashes \<Rightarrow> Experiment list \<Rightarrow> Result list \<Rightarrow> ExperimentCatalog result" where
  "ExperimentCatalog_of H es rs =
     rbind (rfold (catalog_experiment H) es []) (\<lambda>exps.
     rbind (rfold (catalog_result H exps) rs []) (\<lambda>ress. Inr \<lparr>cat_experiments = exps, cat_results = ress\<rparr>))"

text \<open>\<open>discover\<close> with its four optional filters.\<close>

definition wanted :: "'a option \<Rightarrow> 'a \<Rightarrow> bool" where
  "wanted f x = (case f of None \<Rightarrow> True | Some y \<Rightarrow> x = y)"

definition discover :: "string option \<Rightarrow> string option \<Rightarrow> string option \<Rightarrow> VerificationState option \<Rightarrow> ExperimentCatalog
    \<Rightarrow> (Experiment \<times> Result option) list" where
  "discover challenge actor harness verification cat =
     sort_key (\<lambda>m. exp_id (fst m))
       (filter (\<lambda>(e, r). wanted challenge (exp_challenge_hash e) \<and> wanted actor (exp_actor e) \<and> wanted harness (exp_harness e)
            \<and> (case verification of None \<Rightarrow> True
               | Some v \<Rightarrow> (case r of None \<Rightarrow> False | Some res \<Rightarrow> res_verification res = v)))
         (map (\<lambda>e. (e, map_of (cat_results cat) (exp_id e))) (vals (cat_experiments cat))))"

section \<open>Evidence\<close>

record PositiveEvidence =
  pe_evidence_id :: string
  pe_experiment_id :: string
  pe_experiment_hash :: string
  pe_result_hash :: string
  pe_challenge_hash :: string
  pe_actor :: string
  pe_parent_id :: "string option"
  pe_reproduces_id :: "string option"

definition positive_from_result :: "catalog_hashes \<Rightarrow> Experiment \<Rightarrow> Result \<Rightarrow> PositiveEvidence result" where
  "positive_from_result H e r = check
     [(res_verification r \<noteq> VValid, CollaborationError ''positive evidence requires a verified-valid result''),
      (res_experiment_id r \<noteq> exp_id e \<or> res_experiment_hash r \<noteq> h_experiment H e,
         CollaborationError ''positive result is not bound to the experiment''),
      (res_challenge_hash r \<noteq> exp_challenge_hash e, CollaborationError ''positive result challenge does not match experiment'')]
     (Inr \<lparr>pe_evidence_id = h_outcome H r, pe_experiment_id = exp_id e, pe_experiment_hash = h_experiment H e,
           pe_result_hash = h_outcome H r, pe_challenge_hash = exp_challenge_hash e, pe_actor = exp_actor e,
           pe_parent_id = exp_parent_id e, pe_reproduces_id = exp_reproduces_id e\<rparr>)"

definition positive_evidence :: "catalog_hashes \<Rightarrow> ExperimentCatalog \<Rightarrow> PositiveEvidence list result" where
  "positive_evidence H cat =
     rmap (\<lambda>(i, r). case map_of (cat_experiments cat) i of None \<Rightarrow> Inl (KeyError i) | Some e \<Rightarrow> positive_from_result H e r)
       (filter (\<lambda>(i, r). res_verification r = VValid) (sort_key fst (cat_results cat)))"

datatype NegativeKind = NegInvalid | NegInconclusive | NegFailed

record NegativeKnowledge =
  nk_evidence_id :: string
  nk_experiment_id :: string
  nk_challenge_hash :: string
  nk_kind :: NegativeKind
  nk_reason_codes :: "string list"
  nk_summary :: string
  nk_changed_dimensions :: "string list"
  nk_artifact_digests :: "string list"
  nk_created_at :: datetime

definition validate_searchable_evidence :: "NegativeKnowledge \<Rightarrow> NegativeKnowledge result" where
  "validate_searchable_evidence n = check
     [(blank (nk_evidence_id n) \<or> blank (nk_experiment_id n), ValueError ''negative evidence identity is required''),
      (nk_reason_codes n = [] \<or> list_ex blank (nk_reason_codes n), ValueError ''negative evidence requires reason codes''),
      (blank (nk_summary n), ValueError ''negative evidence requires a summary'')] (Inr n)"

fun negative_kinds :: "VerificationState \<Rightarrow> NegativeKind option" where
  "negative_kinds VInvalid = Some NegInvalid"
| "negative_kinds VInconclusive = Some NegInconclusive"
| "negative_kinds _ = None"

definition negative_from_result :: "catalog_hashes \<Rightarrow> Experiment \<Rightarrow> Result \<Rightarrow> string \<Rightarrow> datetime option \<Rightarrow> NegativeKnowledge result" where
  "negative_from_result H e r summary created_at = check
     [(res_experiment_id r \<noteq> exp_id e \<or> res_experiment_hash r \<noteq> h_experiment H e,
         CollaborationError ''negative result is not bound to the experiment''),
      (res_challenge_hash r \<noteq> exp_challenge_hash e, CollaborationError ''negative result challenge does not match experiment'')]
     (case negative_kinds (res_verification r) of
        None \<Rightarrow> Inl (CollaborationError ''only invalid or inconclusive results are negative evidence'')
      | Some kind \<Rightarrow> validate_searchable_evidence
          \<lparr>nk_evidence_id = h_outcome H r, nk_experiment_id = exp_id e, nk_challenge_hash = exp_challenge_hash e,
           nk_kind = kind,
           nk_reason_codes = [case res_verification_reason r of None \<Rightarrow> ''verifier_unspecified''
              | Some x \<Rightarrow> if x = [] then ''verifier_unspecified'' else x],
           nk_summary = summary, nk_changed_dimensions = exp_changed_dimensions e,
           nk_artifact_digests = sort (remdups (map art_digest (exp_artifacts e @ res_artifacts r))),
           nk_created_at = (case created_at of None \<Rightarrow> res_created_at r | Some t \<Rightarrow> t)\<rparr>)"

section \<open>Search\<close>

type_synonym NegativeKnowledgeIndex = "(string \<times> NegativeKnowledge) list"

definition index_record :: "(NegativeKnowledge \<Rightarrow> string) \<Rightarrow> NegativeKnowledge \<Rightarrow> NegativeKnowledgeIndex \<Rightarrow> NegativeKnowledgeIndex result" where
  "index_record digest n ix = check
     [(case map_of ix (nk_evidence_id n) of None \<Rightarrow> False | Some p \<Rightarrow> digest p \<noteq> digest n,
         CollaborationError ''conflicting evidence id'')] (Inr (dput (nk_evidence_id n) n ix))"

definition NegativeKnowledgeIndex_of :: "(NegativeKnowledge \<Rightarrow> string) \<Rightarrow> NegativeKnowledge list \<Rightarrow> NegativeKnowledgeIndex result" where
  "NegativeKnowledgeIndex_of digest ns = rfold (index_record digest) ns []"

text \<open>\<open>re.findall(r"[a-z0-9_.:-]+", s)\<close>: the longest runs of term characters.\<close>

definition term_char :: "char \<Rightarrow> bool" where
  "term_char c = (let n = (of_char c :: nat)
     in (97 \<le> n \<and> n \<le> 122) \<or> (48 \<le> n \<and> n \<le> 57) \<or> n = 95 \<or> n = 46 \<or> n = 58 \<or> n = 45)"

function search_terms :: "string \<Rightarrow> string list" where
  "search_terms s = (case dropWhile (Not \<circ> term_char) s of [] \<Rightarrow> []
     | c # cs \<Rightarrow> takeWhile term_char (c # cs) # search_terms (dropWhile term_char (c # cs)))"
  by pat_completeness auto

lemma dropWhile_run_shorter:
  assumes "dropWhile (Not \<circ> P) s = c # cs"
  shows "length (dropWhile P (c # cs)) < length s"
proof -
  have "P c" using assms by (metis comp_apply dropWhile_eq_Cons_conv)
  then have "length (dropWhile P (c # cs)) \<le> length cs" by (simp add: length_dropWhile_le)
  also have "\<dots> < length s" using length_dropWhile_le [of "Not \<circ> P" s] by (simp add: assms)
  finally show ?thesis .
qed

termination search_terms
  by (relation "measure length") (simp_all add: dropWhile_run_shorter del: dropWhile.simps)

declare search_terms.simps [simp del]

definition haystack :: "NegativeKnowledge \<Rightarrow> string" where
  "haystack n = py_lower (py_join '' '' (nk_summary n # nk_reason_codes n @ nk_changed_dimensions n))"

definition search_hit :: "string \<Rightarrow> string option \<Rightarrow> NegativeKind option \<Rightarrow> string option \<Rightarrow> NegativeKnowledge \<Rightarrow> bool" where
  "search_hit query challenge kind dimension n \<longleftrightarrow> wanted challenge (nk_challenge_hash n) \<and> wanted kind (nk_kind n)
     \<and> (case dimension of None \<Rightarrow> True | Some d \<Rightarrow> d \<in> set (nk_changed_dimensions n))
     \<and> list_all (\<lambda>t. py_in t (haystack n)) (search_terms (py_lower query))"

definition search :: "string \<Rightarrow> string option \<Rightarrow> NegativeKind option \<Rightarrow> string option \<Rightarrow> NegativeKnowledgeIndex
    \<Rightarrow> NegativeKnowledge list result" where
  "search query challenge kind dimension ix =
     (let found = filter (search_hit query challenge kind dimension) (vals ix)
      in check [((\<exists>n \<in> set found. dt_aware (nk_created_at n)) \<and> (\<exists>n \<in> set found. \<not> dt_aware (nk_created_at n)),
                   TypeError ''can't compare offset-naive and offset-aware datetimes'')]
           (Inr (sort_key (\<lambda>n. (dt_instant (nk_created_at n), nk_evidence_id n)) found)))"

definition evidence_ids :: "NegativeKnowledgeIndex \<Rightarrow> string list" where
  "evidence_ids ix = keys ix"

section \<open>Branching\<close>

definition source_of :: "ExperimentCatalog \<Rightarrow> string \<Rightarrow> string \<Rightarrow> Experiment result" where
  "source_of cat source new_id =
     check [(new_id \<in> set (keys (cat_experiments cat)), CollaborationError ''experiment id already exists'')]
       (case map_of (cat_experiments cat) source of None \<Rightarrow> Inl (CollaborationError ''unknown source experiment'')
        | Some e \<Rightarrow> Inr e)"

text \<open>The fields of a new attempt that both kinds of branch reset or replace.\<close>

definition fresh_attempt :: "string \<Rightarrow> string \<Rightarrow> string \<Rightarrow> datetime \<Rightarrow> int \<Rightarrow> Experiment \<Rightarrow> Experiment" where
  "fresh_attempt new_id actor run_id created_at attempt e =
     e\<lparr>exp_id := new_id, exp_attempt := attempt, exp_actor := actor, exp_run_id := run_id,
       exp_repository_result_sha := None, exp_served_model := None, exp_gateway_request_id := None,
       exp_gateway_backend_id := None, exp_hardware_telemetry := [], exp_created_at := created_at, exp_artifacts := []\<rparr>"

definition reproduce :: "ExperimentCatalog \<Rightarrow> string \<Rightarrow> string \<Rightarrow> string \<Rightarrow> string \<Rightarrow> datetime \<Rightarrow> int \<Rightarrow> Experiment result" where
  "reproduce cat source new_id actor run_id created_at attempt =
     rbind (source_of cat source new_id) (\<lambda>src.
       mk_Experiment ((fresh_attempt new_id actor run_id created_at attempt src)
         \<lparr>exp_parent_id := None, exp_reproduces_id := Some (exp_id src), exp_changed_dimensions := []\<rparr>))"

definition reproduce_evidence :: "catalog_hashes \<Rightarrow> ExperimentCatalog \<Rightarrow> string \<Rightarrow> string \<Rightarrow> string \<Rightarrow> string \<Rightarrow> datetime \<Rightarrow> int
    \<Rightarrow> Experiment result" where
  "reproduce_evidence H cat evidence new_id actor run_id created_at attempt =
     rbind (positive_evidence H cat) (\<lambda>records.
       case filter (\<lambda>x. pe_evidence_id x = evidence) records of
         [x] \<Rightarrow> reproduce cat (pe_experiment_id x) new_id actor run_id created_at attempt
       | _ \<Rightarrow> Inl (CollaborationError ''unknown or non-valid immutable evidence ID''))"

definition mutate :: "ExperimentCatalog \<Rightarrow> string \<Rightarrow> string \<Rightarrow> string \<Rightarrow> string \<Rightarrow> string list \<Rightarrow> payload \<Rightarrow> datetime \<Rightarrow> int
    \<Rightarrow> Experiment result" where
  "mutate cat parent new_id actor run_id changed_dimensions configuration created_at attempt =
     rbind (source_of cat parent new_id) (\<lambda>src.
       let dimensions = sort (remdups changed_dimensions)
       in check [(dimensions = [] \<or> list_ex blank dimensions, CollaborationError ''mutation requires named changed dimensions''),
                 (json_eq (JObj configuration) (JObj (exp_configuration src)),
                    CollaborationError ''mutation configuration must differ from its parent'')]
            (mk_Experiment ((fresh_attempt new_id actor run_id created_at attempt src)
               \<lparr>exp_parent_id := Some (exp_id src), exp_reproduces_id := None, exp_changed_dimensions := dimensions,
                 exp_configuration := configuration\<rparr>)))"

text \<open>The entry points of \<open>CollaborationAccess\<close>: only the owner of the new attempt may branch.\<close>

definition owned_reproduce :: "catalog_hashes \<Rightarrow> (string \<Rightarrow> Lease option) \<Rightarrow> CollaborationAccess \<Rightarrow> ExperimentCatalog \<Rightarrow> string
    \<Rightarrow> string \<Rightarrow> string \<Rightarrow> string \<Rightarrow> string \<Rightarrow> datetime \<Rightarrow> int \<Rightarrow> Experiment result" where
  "owned_reproduce H look acc cat evidence new_id attempt_ref actor run_id created_at attempt =
     as_owner look new_id attempt_ref actor acc (reproduce_evidence H cat evidence new_id actor run_id created_at attempt)"

definition owned_mutate :: "(string \<Rightarrow> Lease option) \<Rightarrow> CollaborationAccess \<Rightarrow> ExperimentCatalog \<Rightarrow> string
    \<Rightarrow> string \<Rightarrow> string \<Rightarrow> string \<Rightarrow> string \<Rightarrow> string list \<Rightarrow> payload \<Rightarrow> datetime \<Rightarrow> int \<Rightarrow> Experiment result" where
  "owned_mutate look acc cat parent new_id attempt_ref actor run_id changed_dimensions configuration created_at attempt =
     as_owner look new_id attempt_ref actor acc
       (mutate cat parent new_id actor run_id changed_dimensions configuration created_at attempt)"

section \<open>What a built catalog guarantees\<close>

text \<open>A stored record stands under its own id, was given, and is bound to its experiment.\<close>

definition catalog_ok :: "catalog_hashes \<Rightarrow> Experiment list \<Rightarrow> Result list \<Rightarrow> ExperimentCatalog \<Rightarrow> bool" where
  "catalog_ok H es rs cat \<longleftrightarrow> wf_dict (cat_experiments cat) \<and> wf_dict (cat_results cat)
     \<and> (\<forall>i e. map_of (cat_experiments cat) i = Some e \<longrightarrow> exp_id e = i \<and> e \<in> set es)
     \<and> (\<forall>e \<in> set es. exp_id e \<in> set (keys (cat_experiments cat)))
     \<and> (\<forall>i r. map_of (cat_results cat) i = Some r \<longrightarrow> res_experiment_id r = i \<and> r \<in> set rs
          \<and> (\<exists>e. map_of (cat_experiments cat) i = Some e \<and> h_experiment H e = res_experiment_hash r
                \<and> exp_challenge_hash e = res_challenge_hash r))
     \<and> (\<forall>r \<in> set rs. \<exists>q. map_of (cat_results cat) (res_experiment_id r) = Some q \<and> h_outcome H q = h_outcome H r)"

lemma catalog_okD:
  assumes "catalog_ok H es rs cat"
  shows "wf_dict (cat_experiments cat)" "wf_dict (cat_results cat)"
    "map_of (cat_experiments cat) i = Some e \<Longrightarrow> exp_id e = i \<and> e \<in> set es"
    "map_of (cat_results cat) i = Some r \<Longrightarrow> res_experiment_id r = i \<and> r \<in> set rs
          \<and> (\<exists>e. map_of (cat_experiments cat) i = Some e \<and> h_experiment H e = res_experiment_hash r
                \<and> exp_challenge_hash e = res_challenge_hash r)"
    "r \<in> set rs \<Longrightarrow> \<exists>q. map_of (cat_results cat) (res_experiment_id r) = Some q \<and> h_outcome H q = h_outcome H r"
    "e \<in> set es \<Longrightarrow> exp_id e \<in> set (keys (cat_experiments cat))"
  using assms unfolding catalog_ok_def by blast+

lemma catalog_experiment_Inr:
  "catalog_experiment H e exps = Inr exps' \<Longrightarrow> exps' = dput (exp_id e) e exps"
  by (simp add: catalog_experiment_def)

lemma catalog_result_Inr:
  assumes "catalog_result H exps r ress = Inr ress'"
  shows "ress' = dput (res_experiment_id r) r ress
    \<and> (\<forall>p. map_of ress (res_experiment_id r) = Some p \<longrightarrow> h_outcome H p = h_outcome H r)
    \<and> (\<exists>e. map_of exps (res_experiment_id r) = Some e \<and> h_experiment H e = res_experiment_hash r
          \<and> exp_challenge_hash e = res_challenge_hash r)"
  using assms by (auto simp: catalog_result_def split: option.splits)

lemma catalog_experiments_ok:
  assumes "rfold (catalog_experiment H) es exps = Inr exps'" and "wf_dict exps"
    and "\<forall>i e. map_of exps i = Some e \<longrightarrow> exp_id e = i"
  shows "wf_dict exps' \<and> set (keys exps') = set (keys exps) \<union> exp_id ` set es
     \<and> (\<forall>i e. map_of exps' i = Some e \<longrightarrow> exp_id e = i \<and> (e \<in> set es \<or> map_of exps i = Some e))"
  using assms
proof (induction es arbitrary: exps)
  case (Cons x es)
  then have "rfold (catalog_experiment H) es (dput (exp_id x) x exps) = Inr exps'"
    by (auto dest: catalog_experiment_Inr)
  note IH = Cons.IH [OF this]
  have ids: "\<forall>i e. map_of (dput (exp_id x) x exps) i = Some e \<longrightarrow> exp_id e = i" using Cons.prems(3) by simp
  have wf: "wf_dict (dput (exp_id x) x exps)" using Cons.prems(2) by simp
  have keys: "set (keys (dput (exp_id x) x exps)) = insert (exp_id x) (set (keys exps))"
    by (simp only: AList.update_keys) auto
  have "exp_id e = i \<and> (e \<in> set (x # es) \<or> map_of exps i = Some e)" if "map_of exps' i = Some e" for i e
  proof -
    from IH [OF wf ids] that have "exp_id e = i \<and> (e \<in> set es \<or> map_of (dput (exp_id x) x exps) i = Some e)" by blast
    then show ?thesis by (auto split: if_splits)
  qed
  with IH [OF wf ids] keys show ?case by auto
qed auto

text \<open>The results kept by the loop: bound, given, and for every one given one of the same content.\<close>

lemma catalog_results_ok:
  assumes "rfold (catalog_result H exps) rs ress = Inr ress'" and "wf_dict ress"
  shows "wf_dict ress'
     \<and> (\<forall>i r. map_of ress' i = Some r \<longrightarrow> map_of ress i = Some r \<or> r \<in> set rs \<and> res_experiment_id r = i
          \<and> (\<exists>e. map_of exps i = Some e \<and> h_experiment H e = res_experiment_hash r \<and> exp_challenge_hash e = res_challenge_hash r))
     \<and> (\<forall>i q. map_of ress i = Some q \<longrightarrow> (\<exists>q'. map_of ress' i = Some q' \<and> h_outcome H q' = h_outcome H q))
     \<and> (\<forall>r \<in> set rs. \<exists>q. map_of ress' (res_experiment_id r) = Some q \<and> h_outcome H q = h_outcome H r)"
  using assms
proof (induction rs arbitrary: ress)
  case (Cons x rs)
  let ?i = "res_experiment_id x"
  from Cons.prems(1) obtain e where e: "map_of exps ?i = Some e" "h_experiment H e = res_experiment_hash x"
      "exp_challenge_hash e = res_challenge_hash x"
    and same: "\<And>p. map_of ress ?i = Some p \<Longrightarrow> h_outcome H p = h_outcome H x"
    and rest: "rfold (catalog_result H exps) rs (dput ?i x ress) = Inr ress'"
    by (auto dest: catalog_result_Inr)
  have wf: "wf_dict (dput ?i x ress)" using Cons.prems(2) by simp
  note IH = Cons.IH [OF rest wf]
  have keep: "\<exists>q'. map_of ress' i = Some q' \<and> h_outcome H q' = h_outcome H q" if "map_of ress i = Some q" for i q
  proof (cases "i = ?i")
    case True
    then have "map_of (dput ?i x ress) i = Some x" by simp
    with IH same that True show ?thesis by metis
  next
    case False
    then have "map_of (dput ?i x ress) i = Some q" using that by simp
    with IH show ?thesis by blast
  qed
  have "map_of (dput ?i x ress) ?i = Some x" by simp
  then have "\<exists>q. map_of ress' ?i = Some q \<and> h_outcome H q = h_outcome H x" using IH by blast
  moreover have "map_of ress i = Some r \<or> r \<in> set (x # rs) \<and> res_experiment_id r = i
          \<and> (\<exists>e. map_of exps i = Some e \<and> h_experiment H e = res_experiment_hash r \<and> exp_challenge_hash e = res_challenge_hash r)"
    if "map_of ress' i = Some r" for i r
  proof -
    from IH that have "map_of (dput ?i x ress) i = Some r \<or> r \<in> set rs \<and> res_experiment_id r = i
          \<and> (\<exists>e. map_of exps i = Some e \<and> h_experiment H e = res_experiment_hash r \<and> exp_challenge_hash e = res_challenge_hash r)"
      by blast
    then show ?thesis using e by (auto split: if_splits)
  qed
  ultimately show ?case using IH keep by auto
qed auto

lemma ExperimentCatalog_of_ok:
  assumes "ExperimentCatalog_of H es rs = Inr cat"
  shows "catalog_ok H es rs cat"
proof -
  from assms have e: "rfold (catalog_experiment H) es [] = Inr (cat_experiments cat)"
    and r: "rfold (catalog_result H (cat_experiments cat)) rs [] = Inr (cat_results cat)"
    by (auto simp: ExperimentCatalog_of_def)
  from catalog_experiments_ok [OF e] catalog_results_ok [OF r] show ?thesis
    unfolding catalog_ok_def by simp
qed

lemma positive_from_result_Inr:
  "positive_from_result H e r = Inr x \<Longrightarrow> pe_evidence_id x = h_outcome H r \<and> pe_experiment_id x = exp_id e
     \<and> pe_experiment_hash x = h_experiment H e \<and> pe_challenge_hash x = exp_challenge_hash e \<and> pe_actor x = exp_actor e
     \<and> res_verification r = VValid"
  by (auto simp: positive_from_result_def)

text \<open>The evidence of a catalog: no call raises, one record per valid result, in the order of the ids.\<close>

lemma positive_evidence_total:
  assumes ok: "catalog_ok H es rs cat"
  obtains xs where "positive_evidence H cat = Inr xs" and "sorted (map pe_experiment_id xs)" and "distinct (map pe_experiment_id xs)"
    and "\<forall>x. x \<in> set xs \<longleftrightarrow> (\<exists>i r e. map_of (cat_results cat) i = Some r \<and> res_verification r = VValid
           \<and> map_of (cat_experiments cat) i = Some e \<and> positive_from_result H e r = Inr x)"
proof -
  note D = catalog_okD [OF ok]
  let ?f = "\<lambda>(i, r). case map_of (cat_experiments cat) i of None \<Rightarrow> Inl (KeyError i) | Some e \<Rightarrow> positive_from_result H e r"
  let ?rs = "filter (\<lambda>(i, r). res_verification r = VValid) (sort_key fst (cat_results cat))"
  have mem: "(i, r) \<in> set ?rs \<longleftrightarrow> map_of (cat_results cat) i = Some r \<and> res_verification r = VValid" for i r
    using D(2) by (auto simp: wf_dict_def)
  have one: "\<exists>e x. map_of (cat_experiments cat) i = Some e \<and> positive_from_result H e r = Inr x \<and> pe_experiment_id x = i"
    if "(i, r) \<in> set ?rs" for i r
  proof -
    from that mem D(4) obtain e where e: "map_of (cat_experiments cat) i = Some e" "h_experiment H e = res_experiment_hash r"
      "exp_challenge_hash e = res_challenge_hash r" and r: "res_experiment_id r = i" "res_verification r = VValid" by blast
    with D(3) have "exp_id e = i" by blast
    with e r show ?thesis by (auto simp: positive_from_result_def)
  qed
  have "\<exists>y. ?f p = Inr y" if "p \<in> set ?rs" for p
    using one that by (cases p) fastforce
  then have "\<forall>p \<in> set ?rs. \<exists>y. ?f p = Inr y" by blast
  from rmap_total [OF this] obtain xs where xs: "rmap ?f ?rs = Inr xs" by blast
  have ids: "map pe_experiment_id xs = map fst ps" if "rmap ?f ps = Inr xs" "set ps \<subseteq> set ?rs" for ps xs
    using that
  proof (induction ps arbitrary: xs)
    case (Cons p ps)
    obtain i r where p: "p = (i, r)" by fastforce
    with Cons.prems(2) one obtain e x where "map_of (cat_experiments cat) i = Some e" "positive_from_result H e r = Inr x"
      "pe_experiment_id x = i" by fastforce
    with Cons p show ?case by auto
  qed simp
  have idxs: "map pe_experiment_id xs = map fst ?rs" using ids [OF xs] by simp
  have "sorted (map fst ?rs)" by (intro sorted_filter sorted_sort_key)
  moreover have "distinct (map fst ?rs)"
    using D(2) unfolding wf_dict_def by (intro distinct_map_filter) (metis distinct_map distinct_sort mset_map mset_sort set_sort)
  moreover have "x \<in> set xs \<longleftrightarrow> (\<exists>i r e. map_of (cat_results cat) i = Some r \<and> res_verification r = VValid
           \<and> map_of (cat_experiments cat) i = Some e \<and> positive_from_result H e r = Inr x)" for x
  proof -
    have "x \<in> set xs \<longleftrightarrow> (\<exists>(i, r) \<in> set ?rs. ?f (i, r) = Inr x)" using rmap_set [OF xs] by fastforce
    also have "\<dots> \<longleftrightarrow> (\<exists>i r. map_of (cat_results cat) i = Some r \<and> res_verification r = VValid \<and> ?f (i, r) = Inr x)"
      using mem by blast
    finally show ?thesis by (auto split: option.splits)
  qed
  ultimately show ?thesis using that [of xs] xs idxs by (simp add: positive_evidence_def)
qed

section \<open>Properties\<close>

text \<open>Evidence is bound: when a catalog is built, \<open>positive_evidence\<close> never raises; it has exactly one record
  for every valid result given, named by the result's content hash, in the order of the experiment
  ids, and each record carries the hash, challenge and actor of an experiment that was given.\<close>

theorem evidence_is_bound:
  assumes built: "ExperimentCatalog_of H es rs = Inr cat"
  shows "\<exists>xs. positive_evidence H cat = Inr xs
    \<and> sorted (map pe_experiment_id xs) \<and> distinct (map pe_experiment_id xs)
    \<and> (\<forall>r \<in> set rs. res_verification r = VValid \<and> inj_on (h_outcome H) (set rs) \<longrightarrow>
         (\<exists>x \<in> set xs. pe_evidence_id x = h_outcome H r \<and> pe_experiment_id x = res_experiment_id r))
    \<and> (\<forall>x \<in> set xs. \<exists>e \<in> set es. \<exists>r \<in> set rs. res_verification r = VValid \<and> pe_evidence_id x = h_outcome H r
         \<and> res_experiment_id r = exp_id e \<and> pe_experiment_id x = exp_id e \<and> res_experiment_hash r = h_experiment H e
         \<and> pe_experiment_hash x = h_experiment H e \<and> pe_challenge_hash x = exp_challenge_hash e
         \<and> pe_challenge_hash x = res_challenge_hash r \<and> pe_actor x = exp_actor e)"
proof -
  have ok: "catalog_ok H es rs cat" by (rule ExperimentCatalog_of_ok [OF built])
  note D = catalog_okD [OF ok]
  obtain xs where xs: "positive_evidence H cat = Inr xs" "sorted (map pe_experiment_id xs)" "distinct (map pe_experiment_id xs)"
    and mem: "\<forall>x. x \<in> set xs \<longleftrightarrow> (\<exists>i r e. map_of (cat_results cat) i = Some r \<and> res_verification r = VValid
           \<and> map_of (cat_experiments cat) i = Some e \<and> positive_from_result H e r = Inr x)"
    by (rule positive_evidence_total [OF ok])
  have "\<exists>x \<in> set xs. pe_evidence_id x = h_outcome H r \<and> pe_experiment_id x = res_experiment_id r"
    if r: "r \<in> set rs" "res_verification r = VValid" "inj_on (h_outcome H) (set rs)" for r
  proof -
    from D(5) [OF r(1)] obtain q where q: "map_of (cat_results cat) (res_experiment_id r) = Some q" "h_outcome H q = h_outcome H r"
      by blast
    with D(4) r have "q = r" by (metis inj_onD)
    with q D(4) obtain e where e: "map_of (cat_experiments cat) (res_experiment_id r) = Some e"
      "h_experiment H e = res_experiment_hash r" "exp_challenge_hash e = res_challenge_hash r" by blast
    with D(3) have "exp_id e = res_experiment_id r" by blast
    with e r(2) obtain x where "positive_from_result H e r = Inr x" by (auto simp: positive_from_result_def)
    then have "x \<in> set xs" "pe_evidence_id x = h_outcome H r" "pe_experiment_id x = exp_id e"
      using mem q(1) e(1) r(2) \<open>q = r\<close> positive_from_result_Inr by blast+
    with \<open>exp_id e = res_experiment_id r\<close> show ?thesis by auto
  qed
  moreover have "\<exists>e \<in> set es. \<exists>r \<in> set rs. res_verification r = VValid \<and> pe_evidence_id x = h_outcome H r
         \<and> res_experiment_id r = exp_id e \<and> pe_experiment_id x = exp_id e \<and> res_experiment_hash r = h_experiment H e
         \<and> pe_experiment_hash x = h_experiment H e \<and> pe_challenge_hash x = exp_challenge_hash e
         \<and> pe_challenge_hash x = res_challenge_hash r \<and> pe_actor x = exp_actor e" if "x \<in> set xs" for x
  proof -
    from that mem obtain i r e where r: "map_of (cat_results cat) i = Some r" "map_of (cat_experiments cat) i = Some e"
      "positive_from_result H e r = Inr x" by blast
    with D(3) D(4) have "e \<in> set es" "r \<in> set rs" "exp_id e = i" "res_experiment_id r = i" "h_experiment H e = res_experiment_hash r"
      "exp_challenge_hash e = res_challenge_hash r" by fastforce+
    with positive_from_result_Inr [OF r(3)] show ?thesis by metis
  qed
  ultimately show ?thesis using xs by blast
qed

lemma source_of_Inr:
  "source_of cat source new_id = Inr e \<longleftrightarrow> new_id \<notin> set (keys (cat_experiments cat)) \<and> map_of (cat_experiments cat) source = Some e"
  by (auto simp: source_of_def split: option.splits)

lemma mk_Experiment_Inr: "mk_Experiment e = Inr e' \<Longrightarrow> e' = e"
  by (auto simp: mk_Experiment_def validate_lineage_def)

text \<open>A reproduction is authorised and traceable: what \<open>reproduce\<close> of the access layer returns was asked for
  by the owner of the new attempt, whose lease is active; the evidence id names a valid result of
  the catalog, the new experiment reproduces its experiment under a new id, keeps the challenge and
  the configuration, claims no parent, and carries over no measurement of the original run.\<close>

theorem reproduction_is_authorised:
  assumes built: "ExperimentCatalog_of H es rs = Inr cat"
    and call: "owned_reproduce H look acc cat evidence new_id att actor run_id created_at attempt = Inr e"
  shows "(\<exists>w l. map_of (acc_ownership acc) (new_id, att) = Some w \<and> own_owner w = actor \<and> look (own_lease_id w) = Some l)
    \<and> (\<exists>src \<in> set es. \<exists>r \<in> set rs. h_outcome H r = evidence \<and> res_verification r = VValid \<and> res_experiment_id r = exp_id src
        \<and> res_experiment_hash r = h_experiment H src \<and> exp_reproduces_id e = Some (exp_id src)
        \<and> exp_challenge_hash e = exp_challenge_hash src \<and> exp_configuration e = exp_configuration src)
    \<and> exp_id e = new_id \<and> (\<forall>x \<in> set es. exp_id x \<noteq> new_id) \<and> exp_actor e = actor \<and> exp_parent_id e = None
    \<and> exp_artifacts e = [] \<and> exp_hardware_telemetry e = [] \<and> exp_repository_result_sha e = None"
proof -
  have ok: "catalog_ok H es rs cat" by (rule ExperimentCatalog_of_ok [OF built])
  note D = catalog_okD [OF ok]
  obtain xs where xs: "positive_evidence H cat = Inr xs" "sorted (map pe_experiment_id xs)" "distinct (map pe_experiment_id xs)"
    and mem: "\<forall>x. x \<in> set xs \<longleftrightarrow> (\<exists>i r e. map_of (cat_results cat) i = Some r \<and> res_verification r = VValid
           \<and> map_of (cat_experiments cat) i = Some e \<and> positive_from_result H e r = Inr x)"
    by (rule positive_evidence_total [OF ok])
  from call obtain l where owner: "require_owner look new_id att actor acc = Inr l"
    and rep: "reproduce_evidence H cat evidence new_id actor run_id created_at attempt = Inr e"
    by (auto simp: owned_reproduce_def as_owner_def)
  from rep xs(1) obtain x where x: "filter (\<lambda>x. pe_evidence_id x = evidence) xs = [x]"
    and src: "reproduce cat (pe_experiment_id x) new_id actor run_id created_at attempt = Inr e"
    by (auto simp: reproduce_evidence_def split: list.splits)
  have "x \<in> set (filter (\<lambda>x. pe_evidence_id x = evidence) xs)" unfolding x by simp
  with mem obtain i r e0 where r: "map_of (cat_results cat) i = Some r" "res_verification r = VValid" "map_of (cat_experiments cat) i = Some e0"
    "positive_from_result H e0 r = Inr x" and ev: "pe_evidence_id x = evidence" by auto
  have b: "e0 \<in> set es" "r \<in> set rs" "exp_id e0 = i" "res_experiment_id r = i" "h_experiment H e0 = res_experiment_hash r"
    "exp_challenge_hash e0 = res_challenge_hash r" using D(3) [OF r(3)] D(4) [OF r(1)] r(3) by auto
  have "pe_experiment_id x = i" "h_outcome H r = evidence" using positive_from_result_Inr [OF r(4)] b ev by auto
  with src r(3) have e: "e = (fresh_attempt new_id actor run_id created_at attempt e0)
         \<lparr>exp_parent_id := None, exp_reproduces_id := Some i, exp_changed_dimensions := []\<rparr>"
    and new: "new_id \<notin> set (keys (cat_experiments cat))"
    using b(3) by (auto simp: reproduce_def source_of_Inr dest: mk_Experiment_Inr)
  have "\<forall>x \<in> set es. exp_id x \<noteq> new_id" using new D(6) by blast
  then show ?thesis using owner b r(2) \<open>h_outcome H r = evidence\<close>
    unfolding require_owner_Inr_iff by (auto simp: e fresh_attempt_def intro!: bexI [of _ e0] bexI [of _ r])
qed

text \<open>A mutation extends the lineage: when a catalog and a lineage graph are built from the same experiments and
  no record already names the new id as its parent, the experiment that \<open>mutate\<close> returns is accepted
  by the graph, the graph stays acyclic, and the ancestors of the new experiment start at its
  parent; it names its changed dimensions.\<close>

theorem mutation_extends_lineage:
  assumes built: "ExperimentCatalog_of H es rs = Inr cat" "LineageGraph_of (h_experiment H) es = Inr g"
    and inj: "inj_on (h_experiment H) (set es)" and named: "\<forall>e \<in> set es. exp_id e \<noteq> [] \<and> exp_parent_id e \<notin> {Some [], Some new_id}"
    and call: "mutate cat parent new_id actor run_id dims config created_at attempt = Inr e"
  shows "exp_changed_dimensions e \<noteq> [] \<and> (\<exists>g' as. add (h_experiment H) e g = Inr g'
    \<and> acyclic (parent_edge (lg_experiments g')) \<and> ancestors g' new_id = Inr as \<and> parent \<in> exp_id ` set as)"
proof -
  have ok: "catalog_ok H es rs cat" by (rule ExperimentCatalog_of_ok [OF built(1)])
  note D = catalog_okD [OF ok]
  from call obtain src where src: "map_of (cat_experiments cat) parent = Some src" and new: "new_id \<notin> set (keys (cat_experiments cat))"
    and e: "e = (fresh_attempt new_id actor run_id created_at attempt src)
               \<lparr>exp_parent_id := Some (exp_id src), exp_reproduces_id := None, exp_changed_dimensions := sort (remdups dims),
                 exp_configuration := config\<rparr>" and dims: "sort (remdups dims) \<noteq> []"
    by (auto simp: mutate_def Let_def source_of_Inr dest: mk_Experiment_Inr)
  have s: "exp_id src = parent" "src \<in> set es" using D(3) [OF src] by auto
  have f: "exp_id e = new_id" "exp_parent_id e = Some parent" by (simp_all add: e fresh_attempt_def s)
  have nm: "\<forall>e \<in> set es. exp_parent_id e \<noteq> Some []" using named by blast
  note G = LineageGraph_of_inv [OF built(2) inj nm]
  have ids: "dom (map_of (lg_experiments g)) = exp_id ` set es"
    using adds_store [OF built(2) [unfolded LineageGraph_of_def]] by (simp add: new_lineage_def)
  have fresh: "map_of (lg_experiments g) new_id = None" using ids new D(6) by (metis domIff imageE)
  have "\<not> would_cycle (lg_experiments g) new_id [] (Some parent)"
    using would_cycle_fresh [OF lineage_invD(2) [OF G(1)], of new_id "Some parent" "[]"] G(2) named new s D(6) by fastforce
  moreover have "parent \<noteq> new_id" using new s D(6) by force
  ultimately obtain g' where add: "add (h_experiment H) e g = Inr g'"
    using fresh f by (auto simp: add_def Let_def split: option.splits)
  have keep: "lineage_inv g'" "map_of (lg_experiments g') = (map_of (lg_experiments g))(new_id \<mapsto> e)"
    using add_keeps [OF G(1) add] f fresh named s by auto
  have e': "map_of (lg_experiments g') new_id = Some e" by (simp add: keep(2))
  have "parent \<in> dom (map_of (lg_experiments g))" using ids s by blast
  then have "parent \<in> stored_ancestors g' new_id"
    using f(2) e' by (auto simp: stored_ancestors_def keep(2) trancl_parent [OF e'])
  with ancestors_total [OF keep(1) e'] lineage_invD(2) [OF keep(1)] add dims show ?thesis by (auto simp: e)
qed

section \<open>A concrete catalog\<close>

definition demo_catalog_hashes :: catalog_hashes where
  "demo_catalog_hashes = \<lparr>h_experiment = exp_id, h_outcome = res_experiment_id\<rparr>"

definition demo_outcome :: Result where
  "demo_outcome = \<lparr>res_experiment_id = ''p'', res_experiment_hash = ''p'', res_challenge_hash = ''h'', res_verification = VValid,
     res_verification_reason = None, res_measurements = [], res_artifacts = [], res_created_at = \<lparr>dt_aware = True, dt_instant = 0\<rparr>\<rparr>"

definition demo_catalog :: ExperimentCatalog where
  "demo_catalog = \<lparr>cat_experiments = [(''c'', demo_child), (''p'', demo_parent)], cat_results = [(''p'', demo_outcome)]\<rparr>"

lemma demo_catalog_built: "ExperimentCatalog_of demo_catalog_hashes [demo_child, demo_parent] [demo_outcome] = Inr demo_catalog"
  by code_simp

theorem evidence_is_bound_witness:
  "\<exists>xs x. positive_evidence demo_catalog_hashes demo_catalog = Inr xs \<and> x \<in> set xs \<and> pe_evidence_id x = ''p''"
proof -
  have "demo_outcome \<in> set [demo_outcome]" "res_verification demo_outcome = VValid" "h_outcome demo_catalog_hashes demo_outcome = ''p''"
    "inj_on (h_outcome demo_catalog_hashes) (set [demo_outcome])"
    by (simp_all add: demo_outcome_def demo_catalog_hashes_def)
  with evidence_is_bound [OF demo_catalog_built] show ?thesis by metis
qed

theorem reproduction_is_authorised_witness:
  "\<exists>e. owned_reproduce demo_catalog_hashes (\<lambda>i. if i = ''a'' then Some demo_live else None) demo_bound demo_catalog ''p'' ''e'' ''1''
       ''one'' ''run'' \<lparr>dt_aware = True, dt_instant = 9\<rparr> 1 = Inr e \<and> exp_reproduces_id e = Some ''p''"
proof -
  let ?c = "owned_reproduce demo_catalog_hashes (\<lambda>i. if i = ''a'' then Some demo_live else None) demo_bound demo_catalog ''p'' ''e'' ''1''
       ''one'' ''run'' \<lparr>dt_aware = True, dt_instant = 9\<rparr> 1"
  have "\<not> isl ?c" by code_simp
  then obtain e where e: "?c = Inr e" by (cases ?c) auto
  from reproduction_is_authorised [OF demo_catalog_built e] have "exp_reproduces_id e = Some ''p''"
    by (auto simp: demo_outcome_def demo_catalog_hashes_def)
  with e show ?thesis by blast
qed

theorem mutation_extends_lineage_witness:
  "\<exists>e g' as. mutate demo_catalog ''c'' ''n'' ''a'' ''run'' [''lr''] [(''lr'', JNum 1)] \<lparr>dt_aware = True, dt_instant = 9\<rparr> 1 = Inr e
     \<and> add exp_id e demo_lineage = Inr g' \<and> ancestors g' ''n'' = Inr as \<and> ''c'' \<in> exp_id ` set as"
proof -
  let ?m = "mutate demo_catalog ''c'' ''n'' ''a'' ''run'' [''lr''] [(''lr'', JNum 1)] \<lparr>dt_aware = True, dt_instant = 9\<rparr> 1"
  have "\<not> isl ?m" by code_simp
  then obtain e where e: "?m = Inr e" by (cases ?m) auto
  have h: "h_experiment demo_catalog_hashes = exp_id" by (simp add: demo_catalog_hashes_def)
  have "\<forall>e \<in> set [demo_child, demo_parent]. exp_id e \<noteq> [] \<and> exp_parent_id e \<notin> {Some [], Some ''n''}"
    by (simp add: demo_child_def demo_parent_def demo_experiment_def)
  from mutation_extends_lineage [OF demo_catalog_built, unfolded h, OF demo_lineage_built(1,2) this e] e
  show ?thesis by blast
qed

end
