(* ===== verification/Refinement.thy ===== *)
theory Refinement
  imports Models
begin

text \<open>
  The refinement journal (\<open>RefinementJournal\<close> in \<open>src/skharness/arena/collaboration.py\<close>): an append-only
  authorization record for changes to memory, skills, prompts and executable extensions.

  The journal is two files of JSON lines. A line is a value of \<open>'l\<close>; pydantic's codec and
  \<open>canonical_digest\<close> are the parameters of \<open>journal_codec\<close>. The caller's callbacks
  (\<open>evidence_exists\<close>, \<open>evidence_kind\<close>) and its approvers are \<open>journal_policy\<close>; a callback answers the
  same throughout a run. A transition holds the journal lock from its first read to its append. The
  checks of \<open>_require_approver\<close> and \<open>_require_governed_promotion_evidence\<close> read before the lock is
  taken, so they are given the journal they see, which may be older than the one the transition
  extends.
\<close>

section \<open>Records\<close>

datatype RefinementScope = ScopeExperiment | ScopeProject | ScopeGlobal

datatype RefinementTargetKind = TargetMemory | TargetSkill | TargetPrompt | TargetExecutableExtension

datatype RefinementEvidenceKind = RawReward | VerifiedResult | CanaryResult | OperatorApproval | SecurityReview

datatype RefinementState = RProposed | RCanaryAuthorized | RCanaryPassed | RCanaryFailed | RApproved | RRejected
  | RPromotionAuthorized | RPromoted | RRollbackAuthorized | RRolledBack

record RefinementProposal =
  rp_id :: string
  rp_scope :: RefinementScope
  rp_target :: string
  rp_target_kind :: RefinementTargetKind
  rp_proposed_content :: string
  rp_evidence_ids :: "string list"
  rp_proposer :: string
  rp_created_at :: datetime

definition validate_proposal :: "RefinementProposal \<Rightarrow> RefinementProposal result" where
  "validate_proposal p = check
     [(blank (rp_id p) \<or> blank (rp_target p) \<or> blank (rp_proposed_content p),
         ValueError ''proposal identity, target and content are required''),
      (rp_evidence_ids p = [] \<or> list_ex blank (rp_evidence_ids p), ValueError ''refinement proposals require evidence'')]
     (Inr p)"

record RefinementEvent =
  rv_event_id :: string
  rv_sequence :: int
  rv_proposal_id :: string
  rv_proposal_hash :: string
  rv_from_state :: "RefinementState option"
  rv_to_state :: RefinementState
  rv_timestamp :: datetime
  rv_provenance :: Provenance
  rv_evidence_ids :: "string list"
  rv_receipt :: "string option"
  rv_prior_event_hash :: "string option"
  rv_event_hash :: "string option"

definition refinement_hash :: "(RefinementEvent \<Rightarrow> string) \<Rightarrow> RefinementEvent \<Rightarrow> string" where
  "refinement_hash digest e = digest (e\<lparr>rv_event_hash := None\<rparr>)"

definition refinement_sealed :: "(RefinementEvent \<Rightarrow> string) \<Rightarrow> RefinementEvent \<Rightarrow> RefinementEvent result" where
  "refinement_sealed digest e =
     (let d = refinement_hash digest e
      in check [(rv_event_hash e \<noteq> None \<and> rv_event_hash e \<noteq> Some d,
                   CollaborationError ''refinement event hash does not match content'')]
           (Inr (e\<lparr>rv_event_hash := Some d\<rparr>)))"

fun refinement_transitions :: "RefinementState option \<Rightarrow> RefinementState list" where
  "refinement_transitions None = [RProposed]"
| "refinement_transitions (Some RProposed) = [RCanaryAuthorized, RRejected]"
| "refinement_transitions (Some RCanaryAuthorized) = [RCanaryPassed, RCanaryFailed]"
| "refinement_transitions (Some RCanaryPassed) = [RApproved, RRejected]"
| "refinement_transitions (Some RApproved) = [RPromotionAuthorized]"
| "refinement_transitions (Some RPromotionAuthorized) = [RPromoted]"
| "refinement_transitions (Some RPromoted) = [RRollbackAuthorized]"
| "refinement_transitions (Some RRollbackAuthorized) = [RRolledBack]"
| "refinement_transitions (Some _) = []"

section \<open>The journal\<close>

record 'l journal_codec =
  parse_proposal :: "'l \<Rightarrow> RefinementProposal option"
  dump_proposal :: "RefinementProposal \<Rightarrow> 'l"
  digest_proposal :: "RefinementProposal \<Rightarrow> string"
  parse_refinement :: "'l \<Rightarrow> RefinementEvent option"
  dump_refinement :: "RefinementEvent \<Rightarrow> 'l"
  digest_refinement :: "RefinementEvent \<Rightarrow> string"

record journal_policy =
  jp_approvers :: "string list"
  jp_evidence_exists :: "string \<Rightarrow> bool"
  jp_evidence_kind :: "(string \<Rightarrow> RefinementEvidenceKind) option"

record 'l RefinementJournal =
  rj_proposals :: "'l list option"
  rj_events :: "'l list option"

definition new_journal :: "'l RefinementJournal" where
  "new_journal = \<lparr>rj_proposals = None, rj_events = None\<rparr>"

definition file_lines :: "'l list option \<Rightarrow> 'l list" where
  "file_lines f = (case f of None \<Rightarrow> [] | Some ls \<Rightarrow> ls)"

text \<open>\<open>_append_json\<close>: the file is created by its first record.\<close>

definition append_json :: "'l \<Rightarrow> 'l list option \<Rightarrow> 'l list option" where
  "append_json l f = Some (file_lines f @ [l])"

definition read_refinement :: "'l journal_codec \<Rightarrow> 'l \<Rightarrow> RefinementEvent list \<Rightarrow> RefinementEvent list result" where
  "read_refinement K line evs =
     (case parse_refinement K line of None \<Rightarrow> Inl (CollaborationError ''invalid refinement event'')
      | Some e \<Rightarrow> check
          [(rv_sequence e \<noteq> int (length evs) + 1 \<or> rv_prior_event_hash e \<noteq> chain_head rv_event_hash None evs,
              CollaborationError ''refinement event sequence/hash chain is corrupt''),
           (rv_event_hash e \<noteq> Some (refinement_hash (digest_refinement K) e),
              CollaborationError ''refinement event seal is invalid'')] (Inr (evs @ [e])))"

definition journal_events :: "'l journal_codec \<Rightarrow> 'l RefinementJournal \<Rightarrow> RefinementEvent list result" where
  "journal_events K s = rfold (read_refinement K) (file_lines (rj_events s)) []"

definition read_proposal :: "'l journal_codec \<Rightarrow> 'l \<Rightarrow> (string \<times> RefinementProposal) list
    \<Rightarrow> (string \<times> RefinementProposal) list result" where
  "read_proposal K line ps =
     (case parse_proposal K line of None \<Rightarrow> Inl (CollaborationError ''invalid refinement proposal'')
      | Some p \<Rightarrow> check [(rp_id p \<in> set (keys ps), CollaborationError ''duplicate refinement proposal'')]
          (Inr (dput (rp_id p) p ps)))"

text \<open>The dictionary of the proposal hashes that the events record.\<close>

definition proposed_hashes :: "RefinementEvent list \<Rightarrow> (string \<times> string) list" where
  "proposed_hashes evs = fold (\<lambda>e. dput (rv_proposal_id e) (rv_proposal_hash e))
     (filter (\<lambda>e. rv_from_state e = None \<and> rv_to_state e = RProposed) evs) []"

definition journal_proposals :: "'l journal_codec \<Rightarrow> 'l RefinementJournal \<Rightarrow> (string \<times> RefinementProposal) list result" where
  "journal_proposals K s =
     (case rj_proposals s of None \<Rightarrow> Inr []
      | Some ls \<Rightarrow> rbind (rfold (read_proposal K) ls []) (\<lambda>records.
          if rj_events s = None then Inr records
          else rbind (journal_events K s) (\<lambda>evs.
            check [(\<exists>(i, p) \<in> set records. case map_of (proposed_hashes evs) i of None \<Rightarrow> False
                      | Some expected \<Rightarrow> expected \<noteq> digest_proposal K p,
                    CollaborationError ''refinement proposal content was modified'')] (Inr records))))"

definition proposal_history :: "string \<Rightarrow> RefinementEvent list \<Rightarrow> RefinementState list" where
  "proposal_history i evs = map rv_to_state (filter (\<lambda>e. rv_proposal_id e = i) evs)"

definition refinement_state :: "'l journal_codec \<Rightarrow> string \<Rightarrow> 'l RefinementJournal \<Rightarrow> RefinementState option result" where
  "refinement_state K i s = rbind (journal_events K s) (\<lambda>evs. Inr (final_state None (proposal_history i evs)))"

section \<open>Operations\<close>

type_synonym 'l journal_call = "RefinementEvent result \<times> 'l RefinementJournal"

text \<open>The uuid and the clock reading of a new event.\<close>

type_synonym event_stamp = "string \<times> datetime"

definition external_states :: "RefinementState list" where
  "external_states = [RCanaryPassed, RCanaryFailed, RPromoted, RRolledBack]"

definition new_refinement :: "'l journal_codec \<Rightarrow> RefinementProposal \<Rightarrow> string \<Rightarrow> RefinementState option \<Rightarrow> RefinementState
    \<Rightarrow> Provenance \<Rightarrow> string list \<Rightarrow> string option \<Rightarrow> event_stamp \<Rightarrow> RefinementEvent list \<Rightarrow> RefinementEvent" where
  "new_refinement K p i current to_state prov evidence receipt stamp evs =
     \<lparr>rv_event_id = fst stamp, rv_sequence = int (length evs) + 1, rv_proposal_id = i,
      rv_proposal_hash = digest_proposal K p, rv_from_state = current, rv_to_state = to_state,
      rv_timestamp = snd stamp, rv_provenance = prov, rv_evidence_ids = evidence, rv_receipt = receipt,
      rv_prior_event_hash = chain_head rv_event_hash None evs, rv_event_hash = None\<rparr>"

definition transition :: "'l journal_codec \<Rightarrow> journal_policy \<Rightarrow> string \<Rightarrow> RefinementState \<Rightarrow> Provenance \<Rightarrow> string list
    \<Rightarrow> string option \<Rightarrow> event_stamp \<Rightarrow> 'l RefinementJournal \<Rightarrow> 'l journal_call" where
  "transition K J i to_state prov evidence_ids receipt stamp s =
     sbind (pure_call (journal_proposals K s) s) (\<lambda>ps s.
       case map_of ps i of None \<Rightarrow> (Inl (CollaborationError ''unknown proposal''), s)
       | Some p \<Rightarrow>
           (let evidence = sort (remdups evidence_ids)
            in if evidence = [] \<or> list_ex (\<lambda>x. \<not> jp_evidence_exists J x) evidence
               then (Inl (CollaborationError ''transition requires known evidence''), s)
               else if to_state \<in> set external_states \<and> receipt \<in> {None, Some []}
               then (Inl (CollaborationError ''external state transitions require a receipt''), s)
               else sbind (pure_call (journal_events K s) s) (\<lambda>evs s.
                 let current = final_state None (proposal_history i evs)
                 in if to_state \<notin> set (refinement_transitions current)
                    then (Inl (CollaborationError ''illegal refinement transition''), s)
                    else sbind (pure_call (refinement_sealed (digest_refinement K)
                             (new_refinement K p i current to_state prov evidence receipt stamp evs)) s) (\<lambda>e s.
                           (Inr e, s\<lparr>rj_events := append_json (dump_refinement K e) (rj_events s)\<rparr>)))))"

definition put_proposal :: "'l journal_codec \<Rightarrow> RefinementProposal \<Rightarrow> 'l RefinementJournal \<Rightarrow> 'l RefinementJournal" where
  "put_proposal K p s = s\<lparr>rj_proposals := append_json (dump_proposal K p) (rj_proposals s)\<rparr>"

definition propose_refinement :: "'l journal_codec \<Rightarrow> journal_policy \<Rightarrow> RefinementProposal \<Rightarrow> Provenance \<Rightarrow> event_stamp
    \<Rightarrow> 'l RefinementJournal \<Rightarrow> 'l journal_call" where
  "propose_refinement K J p prov stamp s =
     (if list_ex (\<lambda>x. \<not> jp_evidence_exists J x) (rp_evidence_ids p)
      then (Inl (CollaborationError ''proposal cites unknown evidence''), s)
      else sbind (pure_call (journal_proposals K s) s) (\<lambda>ps s.
        if rp_id p \<in> set (keys ps) then (Inl (CollaborationError ''proposal already exists''), s)
        else transition K J (rp_id p) RProposed prov (rp_evidence_ids p) None stamp (put_proposal K p s)))"

definition require_approver :: "'l journal_codec \<Rightarrow> journal_policy \<Rightarrow> string \<Rightarrow> string \<Rightarrow> 'l RefinementJournal \<Rightarrow> unit result" where
  "require_approver K J i actor seen =
     rbind (journal_proposals K seen) (\<lambda>ps.
       case map_of ps i of None \<Rightarrow> Inl (CollaborationError ''unknown proposal'')
       | Some p \<Rightarrow> check [(actor \<notin> set (jp_approvers J) \<or> actor = rp_proposer p,
             CollaborationError ''independent authorized approver required'')] (Inr ()))"

definition required_evidence :: "RefinementProposal \<Rightarrow> RefinementEvidenceKind set" where
  "required_evidence p = {VerifiedResult, CanaryResult, OperatorApproval}
     \<union> (if rp_target_kind p = TargetExecutableExtension then {SecurityReview} else {})"

definition require_governed_promotion_evidence :: "'l journal_codec \<Rightarrow> journal_policy \<Rightarrow> string \<Rightarrow> string list
    \<Rightarrow> 'l RefinementJournal \<Rightarrow> unit result" where
  "require_governed_promotion_evidence K J i evidence_ids seen =
     (case jp_evidence_kind J of None \<Rightarrow> Inl (CollaborationError ''governed evidence classifier required for promotion'')
      | Some kind \<Rightarrow> rbind (journal_proposals K seen) (\<lambda>ps.
          case map_of ps i of None \<Rightarrow> Inl (KeyError i)
          | Some p \<Rightarrow> check [(required_evidence p - set (map kind evidence_ids) \<noteq> {},
                CollaborationError ''promotion lacks governed evidence'')] (Inr ())))"

definition as_approver :: "'l journal_codec \<Rightarrow> journal_policy \<Rightarrow> RefinementState \<Rightarrow> string \<Rightarrow> Provenance \<Rightarrow> string list
    \<Rightarrow> event_stamp \<Rightarrow> 'l RefinementJournal \<Rightarrow> 'l RefinementJournal \<Rightarrow> 'l journal_call" where
  "as_approver K J to_state i prov evidence_ids stamp seen s =
     sbind (pure_call (require_approver K J i (prov_actor prov) seen) s) (\<lambda>_.
       transition K J i to_state prov evidence_ids None stamp)"

definition authorize_canary where "authorize_canary K J = as_approver K J RCanaryAuthorized"

definition approve_refinement where "approve_refinement K J = as_approver K J RApproved"

definition reject_refinement where "reject_refinement K J = as_approver K J RRejected"

definition authorize_rollback where "authorize_rollback K J = as_approver K J RRollbackAuthorized"

definition authorize_promotion :: "'l journal_codec \<Rightarrow> journal_policy \<Rightarrow> string \<Rightarrow> Provenance \<Rightarrow> string list
    \<Rightarrow> event_stamp \<Rightarrow> 'l RefinementJournal \<Rightarrow> 'l RefinementJournal \<Rightarrow> 'l RefinementJournal \<Rightarrow> 'l journal_call" where
  "authorize_promotion K J i prov evidence_ids stamp seen seen' s =
     sbind (pure_call (require_approver K J i (prov_actor prov) seen) s) (\<lambda>_ s.
       sbind (pure_call (require_governed_promotion_evidence K J i evidence_ids seen') s) (\<lambda>_.
         transition K J i RPromotionAuthorized prov evidence_ids None stamp))"

definition record_canary :: "'l journal_codec \<Rightarrow> journal_policy \<Rightarrow> string \<Rightarrow> Provenance \<Rightarrow> bool \<Rightarrow> string list \<Rightarrow> string
    \<Rightarrow> event_stamp \<Rightarrow> 'l RefinementJournal \<Rightarrow> 'l journal_call" where
  "record_canary K J i prov passed evidence_ids receipt stamp s =
     transition K J i (if passed then RCanaryPassed else RCanaryFailed) prov evidence_ids (Some receipt) stamp s"

definition record_promoted :: "'l journal_codec \<Rightarrow> journal_policy \<Rightarrow> string \<Rightarrow> Provenance \<Rightarrow> string list \<Rightarrow> string
    \<Rightarrow> event_stamp \<Rightarrow> 'l RefinementJournal \<Rightarrow> 'l journal_call" where
  "record_promoted K J i prov evidence_ids receipt stamp s =
     transition K J i RPromoted prov evidence_ids (Some receipt) stamp s"

definition record_rolled_back :: "'l journal_codec \<Rightarrow> journal_policy \<Rightarrow> string \<Rightarrow> Provenance \<Rightarrow> string list \<Rightarrow> string
    \<Rightarrow> event_stamp \<Rightarrow> 'l RefinementJournal \<Rightarrow> 'l journal_call" where
  "record_rolled_back K J i prov evidence_ids receipt stamp s =
     transition K J i RRolledBack prov evidence_ids (Some receipt) stamp s"

section \<open>The refinement lifecycle\<close>

fun refinement_rank :: "RefinementState \<Rightarrow> nat" where
  "refinement_rank RProposed = 7"
| "refinement_rank RCanaryAuthorized = 6"
| "refinement_rank RCanaryPassed = 5"
| "refinement_rank RApproved = 4"
| "refinement_rank RPromotionAuthorized = 3"
| "refinement_rank RPromoted = 2"
| "refinement_rank RRollbackAuthorized = 1"
| "refinement_rank _ = 0"

interpretation refinement_life: lifecycle refinement_transitions RProposed refinement_rank
proof unfold_locales
  show "x = RProposed" if "x \<in> set (refinement_transitions None)" for x
    using that by simp
  show "refinement_rank y < refinement_rank x" if "y \<in> set (refinement_transitions (Some x))" for x y
    using that by (cases x) auto
qed

section \<open>The journal invariant\<close>

text \<open>What the codec is documented to do: a dumped record parses back to itself.\<close>

definition journal_codec_ok :: "'l journal_codec \<Rightarrow> bool" where
  "journal_codec_ok K \<longleftrightarrow> (\<forall>p. validate_proposal p = Inr p \<longrightarrow> parse_proposal K (dump_proposal K p) = Some p)
     \<and> (\<forall>e. parse_refinement K (dump_refinement K e) = Some e)"

definition approver_states :: "RefinementState list" where
  "approver_states = [RCanaryAuthorized, RApproved, RRejected, RPromotionAuthorized, RRollbackAuthorized]"

text \<open>What is true of a recorded event, given the proposals on file.\<close>

definition refinement_ok :: "'l journal_codec \<Rightarrow> journal_policy \<Rightarrow> (string \<times> RefinementProposal) list \<Rightarrow> RefinementEvent \<Rightarrow> bool" where
  "refinement_ok K J ps e \<longleftrightarrow> (\<exists>p. map_of ps (rv_proposal_id e) = Some p \<and> rv_proposal_hash e = digest_proposal K p
     \<and> rv_evidence_ids e \<noteq> [] \<and> (\<forall>x \<in> set (rv_evidence_ids e). jp_evidence_exists J x)
     \<and> (rv_to_state e \<in> set external_states \<longrightarrow> (\<exists>r. rv_receipt e = Some r \<and> r \<noteq> []))
     \<and> (rv_to_state e \<in> set approver_states \<longrightarrow>
          prov_actor (rv_provenance e) \<in> set (jp_approvers J) \<and> prov_actor (rv_provenance e) \<noteq> rp_proposer p)
     \<and> (rv_to_state e = RPromotionAuthorized \<longrightarrow>
          (\<exists>kind. jp_evidence_kind J = Some kind \<and> required_evidence p \<subseteq> kind ` set (rv_evidence_ids e))))"

definition journal_ok :: "'l journal_codec \<Rightarrow> journal_policy \<Rightarrow> 'l RefinementJournal \<Rightarrow> (string \<times> RefinementProposal) list
    \<Rightarrow> RefinementEvent list \<Rightarrow> bool" where
  "journal_ok K J s ps evs \<longleftrightarrow> rfold (read_proposal K) (file_lines (rj_proposals s)) [] = Inr ps
     \<and> journal_events K s = Inr evs \<and> (\<forall>e \<in> set evs. refinement_ok K J ps e)
     \<and> (\<forall>i. walk refinement_transitions None (proposal_history i evs))"

lemma journal_okD:
  assumes "journal_ok K J s ps evs"
  shows "rfold (read_proposal K) (file_lines (rj_proposals s)) [] = Inr ps" and "journal_events K s = Inr evs"
    and "e \<in> set evs \<Longrightarrow> refinement_ok K J ps e" and "walk refinement_transitions None (proposal_history i evs)"
  using assms by (auto simp: journal_ok_def)

lemma map_of_proposed_hashes:
  assumes "map_of (proposed_hashes evs) i = Some h"
  shows "\<exists>e \<in> set evs. rv_proposal_id e = i \<and> rv_proposal_hash e = h"
proof -
  have "map_of (fold (\<lambda>e. dput (rv_proposal_id e) (rv_proposal_hash e)) es d) i = Some h
      \<Longrightarrow> map_of d i = Some h \<or> (\<exists>e \<in> set es. rv_proposal_id e = i \<and> rv_proposal_hash e = h)" for es d
    by (induction es arbitrary: d) (fastforce split: if_splits)+
  from this [OF assms [unfolded proposed_hashes_def]] show ?thesis by auto
qed

lemma read_proposal_Inr:
  "read_proposal K l ps = Inr ps' \<longleftrightarrow> (\<exists>p. parse_proposal K l = Some p \<and> map_of ps (rp_id p) = None
     \<and> ps' = dput (rp_id p) p ps)"
  by (auto simp: read_proposal_def map_of_eq_None_iff split: option.splits)

lemma read_proposals_wf:
  "rfold (read_proposal K) ls ps = Inr ps' \<Longrightarrow> wf_dict ps \<Longrightarrow> wf_dict ps'"
  by (erule rfold_invariant) (auto simp: read_proposal_Inr)

text \<open>Reading more proposals never changes one already read.\<close>

lemma read_proposals_extend:
  "rfold (read_proposal K) ls ps = Inr ps' \<Longrightarrow> map_of ps \<subseteq>\<^sub>m map_of ps'"
proof (induction ls arbitrary: ps)
  case (Cons l ls)
  then obtain p where "map_of ps (rp_id p) = None" "rfold (read_proposal K) ls (dput (rp_id p) p ps) = Inr ps'"
    by (auto simp: read_proposal_Inr)
  with Cons.IH show ?case by (fastforce simp: map_le_def dom_def split: if_splits)
qed simp

lemma journal_proposals_ok:
  assumes ok: "journal_ok K J s ps evs"
  shows "journal_proposals K s = Inr ps"
proof -
  note I = journal_okD [OF ok]
  have wf: "wf_dict ps" using read_proposals_wf [OF I(1)] by simp
  have good: "\<not> (\<exists>(i, p) \<in> set ps. case map_of (proposed_hashes evs) i of None \<Rightarrow> False | Some h \<Rightarrow> h \<noteq> digest_proposal K p)"
  proof (rule notI, elim bexE, clarsimp split: option.splits)
    fix i p h assume "(i, p) \<in> set ps" "map_of (proposed_hashes evs) i = Some h" "h \<noteq> digest_proposal K p"
    moreover from this wf have "map_of ps i = Some p" by (simp add: wf_dict_def)
    ultimately show False using map_of_proposed_hashes I(3) unfolding refinement_ok_def by fastforce
  qed
  show ?thesis
  proof (cases "rj_proposals s")
    case None
    with I(1) show ?thesis by (simp add: journal_proposals_def file_lines_def)
  next
    case (Some ls)
    with I(1) have "rfold (read_proposal K) ls [] = Inr ps" by (simp add: file_lines_def)
    then show ?thesis unfolding journal_proposals_def Some option.case I(2) rbind.simps using good by (simp only: rbind.simps check.simps if_False if_cancel)
  qed
qed

lemma journal_ok_new: "journal_ok K J new_journal [] []"
  by (simp add: journal_ok_def new_journal_def journal_events_def file_lines_def proposal_history_def)

text \<open>A proposal on file stays readable; its events keep what was checked of them.\<close>

lemma map_leD: "m i = Some v \<Longrightarrow> m \<subseteq>\<^sub>m m' \<Longrightarrow> m' i = Some v"
  by (metis domI map_le_def)

lemma map_le_dput: "map_of d k = None \<Longrightarrow> map_of d \<subseteq>\<^sub>m map_of (dput k v d)"
  by (simp add: map_le_def dom_def)

lemma refinement_ok_mono: "refinement_ok K J ps e \<Longrightarrow> map_of ps \<subseteq>\<^sub>m map_of ps' \<Longrightarrow> refinement_ok K J ps' e"
  unfolding refinement_ok_def by (elim exE conjE) (intro exI conjI, erule (1) map_leD, assumption+)

lemma journal_ok_put_proposal:
  assumes K: "journal_codec_ok K" and ok: "journal_ok K J s ps evs" and p: "validate_proposal p = Inr p" "map_of ps (rp_id p) = None"
  shows "journal_ok K J (put_proposal K p s) (dput (rp_id p) p ps) evs"
proof -
  note I = journal_okD [OF ok]
  have "rfold (read_proposal K) (file_lines (rj_proposals (put_proposal K p s))) [] = Inr (dput (rp_id p) p ps)"
    using K p I(1) by (simp add: put_proposal_def append_json_def file_lines_def [of "Some _"] rfold_append
        journal_codec_ok_def read_proposal_Inr)
  moreover have le: "map_of ps \<subseteq>\<^sub>m map_of (dput (rp_id p) p ps)" using p(2) by (rule map_le_dput)
  have "refinement_ok K J (dput (rp_id p) p ps) e" if "e \<in> set evs" for e
    by (rule refinement_ok_mono [OF I(3) [OF that] le])
  ultimately show ?thesis using I(2,4) unfolding journal_ok_def by (simp add: journal_events_def put_proposal_def)
qed

section \<open>Transitions\<close>

text \<open>A transition in a good journal: it raises and changes nothing, or it appends one sealed event.\<close>

lemma transition_cases:
  assumes ok: "journal_ok K J s ps evs" and call: "transition K J i to_state prov evidence_ids receipt stamp s = (r, s')"
  obtains (raised) x where "r = Inl x" "s' = s"
  | (appended) p e where "r = Inr e" "s' = s\<lparr>rj_events := append_json (dump_refinement K e) (rj_events s)\<rparr>"
      "map_of ps i = Some p" "rv_proposal_id e = i" "rv_proposal_hash e = digest_proposal K p" "rv_to_state e = to_state"
      "rv_evidence_ids e = sort (remdups evidence_ids)" "rv_evidence_ids e \<noteq> []"
      "\<forall>x \<in> set evidence_ids. jp_evidence_exists J x" "to_state \<in> set external_states \<longrightarrow> receipt \<notin> {None, Some []}"
      "rv_receipt e = receipt" "rv_provenance e = prov"
      "to_state \<in> set (refinement_transitions (final_state None (proposal_history i evs)))"
      "rv_sequence e = int (length evs) + 1" "rv_prior_event_hash e = chain_head rv_event_hash None evs"
      "rv_event_hash e = Some (refinement_hash (digest_refinement K) e)"
proof -
  note P = journal_proposals_ok [OF ok] and E = journal_okD(2) [OF ok]
  let ?ev = "sort (remdups evidence_ids)" and ?cur = "final_state None (proposal_history i evs)"
  show thesis
  proof (cases "map_of ps i")
    case None
    with call P have "r = Inl (CollaborationError ''unknown proposal'')" "s' = s" by (simp_all add: transition_def pure_call_def)
    then show thesis by (rule raised)
  next
    case (Some p)
    let ?n = "new_refinement K p i ?cur to_state prov ?ev receipt stamp evs"
    let ?e = "?n\<lparr>rv_event_hash := Some (refinement_hash (digest_refinement K) ?n)\<rparr>"
    have seal: "refinement_sealed (digest_refinement K) ?n = Inr ?e"
      by (simp add: refinement_sealed_def new_refinement_def Let_def)
    let ?c1 = "?ev = [] \<or> list_ex (\<lambda>x. \<not> jp_evidence_exists J x) ?ev"
      and ?c2 = "to_state \<in> set external_states \<and> receipt \<in> {None, Some []}"
      and ?c3 = "to_state \<notin> set (refinement_transitions ?cur)"
    have eq: "(r, s') = (if ?c1 then (Inl (CollaborationError ''transition requires known evidence''), s)
        else if ?c2 then (Inl (CollaborationError ''external state transitions require a receipt''), s)
        else if ?c3 then (Inl (CollaborationError ''illegal refinement transition''), s)
        else (Inr ?e, s\<lparr>rj_events := append_json (dump_refinement K ?e) (rj_events s)\<rparr>))"
      unfolding call [symmetric] transition_def Let_def pure_call_def P E sbind.simps Some option.case seal ..
    show thesis
    proof (cases "?c1 \<or> ?c2 \<or> ?c3")
      case True
      then show thesis using eq raised by (auto simp only: if_True if_False prod.inject split: if_splits)
    next
      case False
      then have "r = Inr ?e" "s' = s\<lparr>rj_events := append_json (dump_refinement K ?e) (rj_events s)\<rparr>"
        using eq by (simp_all only: de_Morgan_disj disj_not1 if_False prod.inject simp_thms)
      then show thesis using False Some
        by (intro appended [of ?e p]) (auto simp: new_refinement_def refinement_hash_def list_ex_iff)
    qed
  qed
qed

lemma append_refinement_ok:
  assumes K: "journal_codec_ok K" and ok: "journal_ok K J s ps evs" and e: "refinement_ok K J ps e"
    "rv_to_state e \<in> set (refinement_transitions (final_state None (proposal_history (rv_proposal_id e) evs)))"
    "rv_sequence e = int (length evs) + 1" "rv_prior_event_hash e = chain_head rv_event_hash None evs"
    "rv_event_hash e = Some (refinement_hash (digest_refinement K) e)"
  shows "journal_ok K J (s\<lparr>rj_events := append_json (dump_refinement K e) (rj_events s)\<rparr>) ps (evs @ [e])"
proof -
  note I = journal_okD [OF ok]
  have "journal_events K (s\<lparr>rj_events := append_json (dump_refinement K e) (rj_events s)\<rparr>) = Inr (evs @ [e])"
    using K I(2) e(3-5) by (simp add: journal_events_def append_json_def file_lines_def [of "Some _"] rfold_append
        read_refinement_def journal_codec_ok_def)
  moreover have "walk refinement_transitions None (proposal_history i (evs @ [e]))" for i
    using I(4) [of i] e(2) by (auto simp: proposal_history_def)
  ultimately show ?thesis using I(1,3) e(1) by (simp add: journal_ok_def)
qed

text \<open>A transition keeps the invariant when what its caller must have checked, was checked.\<close>

lemma transition_ok:
  assumes K: "journal_codec_ok K" and ok: "journal_ok K J s ps evs"
    and call: "transition K J i to_state prov evidence_ids receipt stamp s = (r, s')"
    and approver: "\<And>p. to_state \<in> set approver_states \<Longrightarrow> map_of ps i = Some p \<Longrightarrow>
        prov_actor prov \<in> set (jp_approvers J) \<and> prov_actor prov \<noteq> rp_proposer p"
    and governed: "\<And>p. to_state = RPromotionAuthorized \<Longrightarrow> map_of ps i = Some p \<Longrightarrow>
        \<exists>kind. jp_evidence_kind J = Some kind \<and> required_evidence p \<subseteq> kind ` set evidence_ids"
  shows "\<exists>evs'. journal_ok K J s' ps evs' \<and> prefix evs evs'"
  using ok call
proof (cases rule: transition_cases)
  case raised
  with ok show ?thesis by auto
next
  case (appended p e)
  have "receipt \<notin> {None, Some []} \<Longrightarrow> \<exists>x. receipt = Some x \<and> x \<noteq> []" by (cases receipt) auto
  with appended approver governed have "refinement_ok K J ps e"
    unfolding refinement_ok_def by (intro exI [of _ p]) simp
  from append_refinement_ok [OF K ok this] appended show ?thesis by auto
qed

section \<open>Runs\<close>

text \<open>\<open>earlier seen s\<close>: \<open>seen\<close> is what a reader without the lock may have seen on the way to \<open>s\<close>; both files
  only grow, and one file may be seen older than the other.\<close>

definition earlier :: "'l RefinementJournal \<Rightarrow> 'l RefinementJournal \<Rightarrow> bool" where
  "earlier seen s \<longleftrightarrow> prefix (file_lines (rj_proposals seen)) (file_lines (rj_proposals s))
     \<and> prefix (file_lines (rj_events seen)) (file_lines (rj_events s))"

text \<open>A \<open>propose\<close> whose process dies between its two appends leaves the proposal without its event.\<close>

inductive journal_step :: "'l journal_codec \<Rightarrow> journal_policy \<Rightarrow> 'l RefinementJournal \<Rightarrow> 'l RefinementJournal \<Rightarrow> bool"
  for K :: "'l journal_codec" and J :: journal_policy where
  proposing: "validate_proposal p = Inr p \<Longrightarrow> journal_step K J s (snd (propose_refinement K J p prov stamp s))"
| dying: "validate_proposal p = Inr p \<Longrightarrow> propose_refinement K J p prov stamp s = (Inr e, s')
    \<Longrightarrow> journal_step K J s (put_proposal K p s)"
| canary_authorizing: "earlier seen s \<Longrightarrow> journal_step K J s (snd (authorize_canary K J i prov evidence stamp seen s))"
| canary_recording: "journal_step K J s (snd (record_canary K J i prov passed evidence receipt stamp s))"
| approving: "earlier seen s \<Longrightarrow> journal_step K J s (snd (approve_refinement K J i prov evidence stamp seen s))"
| rejecting: "earlier seen s \<Longrightarrow> journal_step K J s (snd (reject_refinement K J i prov evidence stamp seen s))"
| promotion_authorizing: "earlier seen s \<Longrightarrow> earlier seen' s
    \<Longrightarrow> journal_step K J s (snd (authorize_promotion K J i prov evidence stamp seen seen' s))"
| promoting: "journal_step K J s (snd (record_promoted K J i prov evidence receipt stamp s))"
| rollback_authorizing: "earlier seen s \<Longrightarrow> journal_step K J s (snd (authorize_rollback K J i prov evidence stamp seen s))"
| rolling_back: "journal_step K J s (snd (record_rolled_back K J i prov evidence receipt stamp s))"

inductive journal_reachable :: "'l journal_codec \<Rightarrow> journal_policy \<Rightarrow> 'l RefinementJournal \<Rightarrow> bool"
  for K :: "'l journal_codec" and J :: journal_policy where
  journal_start: "journal_reachable K J new_journal"
| journal_next: "journal_reachable K J s \<Longrightarrow> journal_step K J s s' \<Longrightarrow> journal_reachable K J s'"

text \<open>A proposal read without the lock is the one on file under the lock.\<close>

lemma earlier_proposal:
  assumes seen: "journal_proposals K seen = Inr qs" and e: "earlier seen s" and ok: "journal_ok K J s ps evs"
    and p: "map_of qs i = Some p"
  shows "map_of ps i = Some p"
proof -
  have q: "rfold (read_proposal K) (file_lines (rj_proposals seen)) [] = Inr qs"
    using seen p by (auto simp: journal_proposals_def file_lines_def split: option.splits if_splits)
  from e obtain ls where "file_lines (rj_proposals s) = file_lines (rj_proposals seen) @ ls"
    by (auto simp: earlier_def prefix_def)
  with q journal_okD(1) [OF ok] have "rfold (read_proposal K) ls qs = Inr ps" by (simp add: rfold_append)
  from map_leD [OF p read_proposals_extend [OF this]] show ?thesis .
qed

lemma require_approver_ok:
  assumes "require_approver K J i actor seen = Inr u" and "earlier seen s" and "journal_ok K J s ps evs" and "map_of ps i = Some p"
  shows "actor \<in> set (jp_approvers J) \<and> actor \<noteq> rp_proposer p"
proof -
  from assms(1) obtain qs q where q: "journal_proposals K seen = Inr qs" "map_of qs i = Some q"
    "actor \<in> set (jp_approvers J)" "actor \<noteq> rp_proposer q"
    by (auto simp: require_approver_def split: option.splits)
  from earlier_proposal [OF q(1) assms(2,3) q(2)] assms(4) q show ?thesis by simp
qed

lemma governed_ok:
  assumes "require_governed_promotion_evidence K J i evidence seen = Inr u" and "earlier seen s" and "journal_ok K J s ps evs"
    and "map_of ps i = Some p"
  shows "\<exists>kind. jp_evidence_kind J = Some kind \<and> required_evidence p \<subseteq> kind ` set evidence"
proof -
  from assms(1) obtain kind qs q where q: "jp_evidence_kind J = Some kind" "journal_proposals K seen = Inr qs"
    "map_of qs i = Some q" "required_evidence q - set (map kind evidence) = {}"
    by (auto simp: require_governed_promotion_evidence_def split: option.splits)
  from earlier_proposal [OF q(2) assms(2,3) q(3)] assms(4) q(1,4) show ?thesis by auto
qed

lemma as_approver_ok:
  assumes K: "journal_codec_ok K" and ok: "journal_ok K J s ps evs" and seen: "earlier seen s" and to: "to_state \<noteq> RPromotionAuthorized"
  shows "\<exists>evs'. journal_ok K J (snd (as_approver K J to_state i prov evidence stamp seen s)) ps evs' \<and> prefix evs evs'"
proof (cases "require_approver K J i (prov_actor prov) seen")
  case (Inl x)
  with ok show ?thesis by (auto simp: as_approver_def pure_call_def)
next
  case (Inr u)
  obtain r s' where t: "transition K J i to_state prov evidence None stamp s = (r, s')" by fastforce
  from transition_ok [OF K ok t require_approver_ok [OF Inr seen ok]] to show ?thesis
    by (simp add: as_approver_def pure_call_def Inr t)
qed

lemma authorize_promotion_ok:
  assumes K: "journal_codec_ok K" and ok: "journal_ok K J s ps evs" and seen: "earlier seen s" "earlier seen' s"
  shows "\<exists>evs'. journal_ok K J (snd (authorize_promotion K J i prov evidence stamp seen seen' s)) ps evs' \<and> prefix evs evs'"
proof (cases "require_approver K J i (prov_actor prov) seen")
  case (Inl x)
  with ok show ?thesis by (auto simp: authorize_promotion_def pure_call_def)
next
  case (Inr u)
  show ?thesis
  proof (cases "require_governed_promotion_evidence K J i evidence seen'")
    case (Inl x)
    with ok Inr show ?thesis by (auto simp: authorize_promotion_def pure_call_def)
  next
    case g: (Inr v)
    obtain r s' where t: "transition K J i RPromotionAuthorized prov evidence None stamp s = (r, s')" by fastforce
    from transition_ok [OF K ok t require_approver_ok [OF Inr seen(1) ok] governed_ok [OF g seen(2) ok]] show ?thesis
      by (simp add: authorize_promotion_def pure_call_def Inr g t)
  qed
qed

lemma unapproved_transition_ok:
  assumes K: "journal_codec_ok K" and ok: "journal_ok K J s ps evs" and to: "to_state \<notin> set approver_states"
  shows "\<exists>evs'. journal_ok K J (snd (transition K J i to_state prov evidence receipt stamp s)) ps evs' \<and> prefix evs evs'"
proof -
  obtain r s' where t: "transition K J i to_state prov evidence receipt stamp s = (r, s')" by fastforce
  have "to_state \<noteq> RPromotionAuthorized" using to by (auto simp: approver_states_def)
  with transition_ok [OF K ok t] to show ?thesis by (simp add: t)
qed

text \<open>A call that files no proposal.\<close>

lemma same_proposals:
  "\<exists>evs'. journal_ok K J s' ps evs' \<and> prefix evs evs'
    \<Longrightarrow> \<exists>ps' evs'. journal_ok K J s' ps' evs' \<and> prefix evs evs' \<and> map_of ps \<subseteq>\<^sub>m map_of ps'"
  by (blast intro: map_le_refl)

lemma propose_ok:
  assumes K: "journal_codec_ok K" and ok: "journal_ok K J s ps evs" and p: "validate_proposal p = Inr p"
  shows "\<exists>ps' evs'. journal_ok K J (snd (propose_refinement K J p prov stamp s)) ps' evs' \<and> prefix evs evs' \<and> map_of ps \<subseteq>\<^sub>m map_of ps'"
proof (cases "list_ex (\<lambda>x. \<not> jp_evidence_exists J x) (rp_evidence_ids p) \<or> rp_id p \<in> set (keys ps)")
  case True
  then have "snd (propose_refinement K J p prov stamp s) = s"
    using journal_proposals_ok [OF ok] by (auto simp: propose_refinement_def pure_call_def)
  with ok show ?thesis by (intro same_proposals) auto
next
  case False
  then have new: "map_of ps (rp_id p) = None" by (simp add: map_of_eq_None_iff)
  then have le: "map_of ps \<subseteq>\<^sub>m map_of (dput (rp_id p) p ps)" by (rule map_le_dput)
  have "journal_ok K J (put_proposal K p s) (dput (rp_id p) p ps) evs" by (rule journal_ok_put_proposal [OF K ok p new])
  from unapproved_transition_ok [OF K this, of RProposed "rp_id p" prov "rp_evidence_ids p" None stamp]
  obtain evs' where "journal_ok K J (snd (transition K J (rp_id p) RProposed prov (rp_evidence_ids p) None stamp (put_proposal K p s)))
      (dput (rp_id p) p ps) evs'" "prefix evs evs'" by (auto simp: approver_states_def)
  moreover have "snd (propose_refinement K J p prov stamp s)
      = snd (transition K J (rp_id p) RProposed prov (rp_evidence_ids p) None stamp (put_proposal K p s))"
    using False journal_proposals_ok [OF ok] by (simp add: propose_refinement_def pure_call_def)
  ultimately show ?thesis using le by metis
qed

lemma dying_propose:
  assumes ok: "journal_ok K J s ps evs" and call: "propose_refinement K J p prov stamp s = (Inr e, s')"
  shows "map_of ps (rp_id p) = None"
  using call journal_proposals_ok [OF ok]
  by (auto simp: propose_refinement_def pure_call_def map_of_eq_None_iff split: if_splits)

lemma journal_step_ok:
  assumes "journal_step K J s s'" and K: "journal_codec_ok K" and ok: "journal_ok K J s ps evs"
  shows "\<exists>ps' evs'. journal_ok K J s' ps' evs' \<and> prefix evs evs' \<and> map_of ps \<subseteq>\<^sub>m map_of ps'"
  using assms(1)
proof cases
  case (proposing p prov stamp)
  then show ?thesis using propose_ok [OF K ok] by simp
next
  case (dying p prov stamp e t)
  have new: "map_of ps (rp_id p) = None" by (rule dying_propose [OF ok dying(3)])
  show ?thesis unfolding dying(1) using journal_ok_put_proposal [OF K ok dying(2) new] map_le_dput [OF new] by blast
next
  case (promotion_authorizing seen seen' i prov evidence stamp)
  then show ?thesis using same_proposals [OF authorize_promotion_ok [OF K ok]] by blast
qed (auto simp: authorize_canary_def approve_refinement_def reject_refinement_def authorize_rollback_def record_canary_def
    record_promoted_def record_rolled_back_def approver_states_def
    intro!: same_proposals as_approver_ok [OF K ok] unapproved_transition_ok [OF K ok])

lemma journal_reachable_ok:
  assumes "journal_codec_ok K"
  shows "journal_reachable K J s \<Longrightarrow> \<exists>ps evs. journal_ok K J s ps evs"
proof (induction rule: journal_reachable.induct)
  case journal_start
  then show ?case using journal_ok_new by blast
next
  case (journal_next s s')
  then show ?case using journal_step_ok [OF _ assms] by blast
qed

lemma reachable_journal:
  assumes "journal_codec_ok K" and "journal_reachable K J s" and "journal_events K s = Inr evs"
  obtains ps where "journal_ok K J s ps evs"
proof -
  from journal_reachable_ok [OF assms(1,2)] obtain ps evs' where ok: "journal_ok K J s ps evs'" by blast
  with assms(3) journal_okD(2) [OF ok] show thesis by (simp add: that)
qed

section \<open>Properties\<close>

lemma history_event: "x \<in> set (proposal_history i evs) \<longleftrightarrow> (\<exists>e \<in> set evs. rv_proposal_id e = i \<and> rv_to_state e = x)"
  by (auto simp: proposal_history_def)

text \<open>Only one state leads to each of the later states of the way to promotion.\<close>

lemma sole_source:
  "RRolledBack \<in> set (refinement_transitions (Some z)) \<longleftrightarrow> z = RRollbackAuthorized"
  "RRollbackAuthorized \<in> set (refinement_transitions (Some z)) \<longleftrightarrow> z = RPromoted"
  "RPromoted \<in> set (refinement_transitions (Some z)) \<longleftrightarrow> z = RPromotionAuthorized"
  "RPromotionAuthorized \<in> set (refinement_transitions (Some z)) \<longleftrightarrow> z = RApproved"
  "RApproved \<in> set (refinement_transitions (Some z)) \<longleftrightarrow> z = RCanaryPassed"
  "RCanaryPassed \<in> set (refinement_transitions (Some z)) \<longleftrightarrow> z = RCanaryAuthorized"
  by (cases z; simp)+

lemma promotion_path:
  assumes w: "walk refinement_transitions None xs"
  shows "RPromoted \<in> set xs \<Longrightarrow> RPromotionAuthorized \<in> set xs" "RPromotionAuthorized \<in> set xs \<Longrightarrow> RApproved \<in> set xs"
    "RApproved \<in> set xs \<Longrightarrow> RCanaryPassed \<in> set xs" "RCanaryPassed \<in> set xs \<Longrightarrow> RCanaryAuthorized \<in> set xs"
  using refinement_life.entered_from [OF w] sole_source by fastforce+

text \<open>C4. Promotion is governed: in every run of the journal, with its checks racing its writers and crashes
  included, a recorded promotion means that the proposal on file was authorized for promotion by
  an independent approver on known evidence of every required kind (security review too for an
  executable extension), after an independent approval, after a canary that passed with a receipt.\<close>

theorem promotion_is_governed:
  assumes K: "journal_codec_ok K" and run: "journal_reachable K J s" and evs: "journal_events K s = Inr evs"
    and e: "e \<in> set evs" "rv_to_state e = RPromoted"
  shows "\<exists>ps p. journal_proposals K s = Inr ps \<and> map_of ps (rv_proposal_id e) = Some p
    \<and> (\<exists>a \<in> set evs. \<exists>kind. rv_proposal_id a = rv_proposal_id e \<and> rv_to_state a = RPromotionAuthorized
         \<and> prov_actor (rv_provenance a) \<in> set (jp_approvers J) \<and> prov_actor (rv_provenance a) \<noteq> rp_proposer p
         \<and> jp_evidence_kind J = Some kind \<and> required_evidence p \<subseteq> kind ` set (rv_evidence_ids a)
         \<and> (\<forall>x \<in> set (rv_evidence_ids a). jp_evidence_exists J x))
    \<and> (\<exists>a \<in> set evs. rv_proposal_id a = rv_proposal_id e \<and> rv_to_state a = RApproved
         \<and> prov_actor (rv_provenance a) \<in> set (jp_approvers J) \<and> prov_actor (rv_provenance a) \<noteq> rp_proposer p)
    \<and> (\<exists>c \<in> set evs. rv_proposal_id c = rv_proposal_id e \<and> rv_to_state c = RCanaryPassed \<and> rv_receipt c \<notin> {None, Some []})"
proof -
  obtain ps where ok: "journal_ok K J s ps evs" by (rule reachable_journal [OF K run evs])
  let ?i = "rv_proposal_id e"
  have "RPromoted \<in> set (proposal_history ?i evs)" using e by (auto simp: history_event)
  then have "RPromotionAuthorized \<in> set (proposal_history ?i evs)" "RApproved \<in> set (proposal_history ?i evs)"
    "RCanaryPassed \<in> set (proposal_history ?i evs)" using promotion_path [OF journal_okD(4) [OF ok]] by blast+
  then obtain a b c where a: "a \<in> set evs" "rv_proposal_id a = ?i" "rv_to_state a = RPromotionAuthorized"
    and b: "b \<in> set evs" "rv_proposal_id b = ?i" "rv_to_state b = RApproved"
    and c: "c \<in> set evs" "rv_proposal_id c = ?i" "rv_to_state c = RCanaryPassed" unfolding history_event by blast
  note good = journal_okD(3) [OF ok a(1)] journal_okD(3) [OF ok b(1)] journal_okD(3) [OF ok c(1)]
  from good(1) a(2,3) obtain p kind where p: "map_of ps ?i = Some p"
    and pa: "prov_actor (rv_provenance a) \<in> set (jp_approvers J)" "prov_actor (rv_provenance a) \<noteq> rp_proposer p"
      "jp_evidence_kind J = Some kind" "required_evidence p \<subseteq> kind ` set (rv_evidence_ids a)"
      "\<forall>x \<in> set (rv_evidence_ids a). jp_evidence_exists J x"
    by (auto simp: refinement_ok_def approver_states_def)
  from good(2) b p have pb: "prov_actor (rv_provenance b) \<in> set (jp_approvers J)" "prov_actor (rv_provenance b) \<noteq> rp_proposer p"
    by (auto simp: refinement_ok_def approver_states_def)
  from good(3) c have pc: "rv_receipt c \<notin> {None, Some []}" by (auto simp: refinement_ok_def external_states_def)
  show ?thesis using journal_proposals_ok [OF ok] p a b c pa pb pc by blast
qed

text \<open>The journal reads back in every run: its events form one sealed hash chain numbered from one, every
  proposal's events walk the refinement lifecycle from \<open>proposed\<close>, at most eight of them and no
  state twice, and \<open>state\<close> is the last of them; a step only ever adds events at the end.\<close>

theorem journal_lifecycle:
  assumes K: "journal_codec_ok K" and run: "journal_reachable K J s"
  shows "\<exists>evs. journal_events K s = Inr evs \<and> refinement_state K i s = Inr (final_state None (proposal_history i evs))
    \<and> walk refinement_transitions None (proposal_history i evs) \<and> distinct (proposal_history i evs)
    \<and> length (proposal_history i evs) \<le> 8
    \<and> (\<forall>s'. journal_step K J s s' \<longrightarrow> (\<exists>evs'. journal_events K s' = Inr evs' \<and> prefix evs evs'))"
proof -
  from journal_reachable_ok [OF K run] obtain ps evs where ok: "journal_ok K J s ps evs" by blast
  note I = journal_okD [OF ok]
  have "\<exists>evs'. journal_events K s' = Inr evs' \<and> prefix evs evs'" if "journal_step K J s s'" for s'
    using journal_step_ok [OF that K ok] by (auto dest: journal_okD(2))
  then show ?thesis
    using I(2,4) refinement_life.walk_distinct [OF I(4)] refinement_life.history_length [OF I(4), of i]
    by (auto simp: refinement_state_def)
qed

text \<open>A transition of another proposal, or to a state other than \<open>proposed\<close>, does not start a history.\<close>

lemma transition_no_start:
  assumes K: "journal_codec_ok K" and ok: "journal_ok K J s ps evs" and h: "proposal_history i evs = []"
    and t: "j \<noteq> i \<or> to_state \<noteq> RProposed"
    and s': "journal_ok K J (snd (transition K J j to_state prov evidence receipt stamp s)) ps' evs'"
  shows "proposal_history i evs' = []"
proof -
  obtain r s' where call: "transition K J j to_state prov evidence receipt stamp s = (r, s')" by fastforce
  with s' have ok': "journal_ok K J s' ps' evs'" by simp
  show ?thesis using ok call
  proof (cases rule: transition_cases)
    case raised
    with ok' journal_okD(2) [OF ok] journal_okD(2) [OF ok'] h show ?thesis by simp
  next
    case (appended p e)
    have "journal_events K s' = Inr (evs @ [e])"
      using K journal_okD(2) [OF ok] appended
      by (simp add: journal_events_def append_json_def file_lines_def [of "Some _"] rfold_append read_refinement_def journal_codec_ok_def)
    then have "evs' = evs @ [e]" using journal_okD(2) [OF ok'] by simp
    moreover have "j \<noteq> i" using t appended(13) h by auto
    ultimately show ?thesis using h appended(4) by (simp add: proposal_history_def)
  qed
qed

lemma as_approver_eq:
  "snd (as_approver K J to_state i prov evidence stamp seen s) = s
   \<or> snd (as_approver K J to_state i prov evidence stamp seen s) = snd (transition K J i to_state prov evidence None stamp s)"
  by (cases "require_approver K J i (prov_actor prov) seen") (simp_all add: as_approver_def pure_call_def)

lemma authorize_promotion_eq:
  "snd (authorize_promotion K J i prov evidence stamp seen seen' s) = s
   \<or> snd (authorize_promotion K J i prov evidence stamp seen seen' s)
       = snd (transition K J i RPromotionAuthorized prov evidence None stamp s)"
  by (cases "require_approver K J i (prov_actor prov) seen"; cases "require_governed_promotion_evidence K J i evidence seen'")
    (simp_all add: authorize_promotion_def pure_call_def)

text \<open>A step leaves the events alone, or it is a transition, the one to \<open>proposed\<close> only for a new proposal.\<close>

lemma shape_transition:
  assumes "to_state \<noteq> RProposed" and "s' = snd (transition K J i to_state prov evidence receipt stamp s)"
  shows "rj_events s' = rj_events s \<or> (\<exists>j to_state prov evidence receipt stamp t. (t = s \<and> to_state \<noteq> RProposed
         \<or> (\<exists>p. validate_proposal p = Inr p \<and> map_of ps j = None \<and> j = rp_id p \<and> t = put_proposal K p s))
      \<and> s' = snd (transition K J j to_state prov evidence receipt stamp t))"
  using assms by blast

lemma journal_step_shape:
  assumes "journal_step K J s s'" and ok: "journal_ok K J s ps evs"
  shows "rj_events s' = rj_events s \<or> (\<exists>j to_state prov evidence receipt stamp t. (t = s \<and> to_state \<noteq> RProposed
         \<or> (\<exists>p. validate_proposal p = Inr p \<and> map_of ps j = None \<and> j = rp_id p \<and> t = put_proposal K p s))
      \<and> s' = snd (transition K J j to_state prov evidence receipt stamp t))"
  using assms(1)
proof cases
  case (proposing p prov stamp)
  show ?thesis
  proof (cases "list_ex (\<lambda>x. \<not> jp_evidence_exists J x) (rp_evidence_ids p) \<or> rp_id p \<in> set (keys ps)")
    case True
    then show ?thesis using proposing journal_proposals_ok [OF ok] by (auto simp: propose_refinement_def pure_call_def)
  next
    case False
    then have "s' = snd (transition K J (rp_id p) RProposed prov (rp_evidence_ids p) None stamp (put_proposal K p s))"
      "map_of ps (rp_id p) = None"
      using proposing journal_proposals_ok [OF ok] by (simp_all add: propose_refinement_def pure_call_def map_of_eq_None_iff)
    then show ?thesis using proposing(2) by blast
  qed
next
  case (dying p prov stamp e t)
  then show ?thesis by (simp add: put_proposal_def)
next
  case (canary_recording i prov passed evidence receipt stamp)
  then show ?thesis by (intro shape_transition) (auto simp: record_canary_def)
next
  case (canary_authorizing seen i prov evidence stamp)
  then show ?thesis using as_approver_eq shape_transition unfolding authorize_canary_def by (metis RefinementState.distinct(1))
next
  case (approving seen i prov evidence stamp)
  then show ?thesis using as_approver_eq shape_transition unfolding approve_refinement_def by (metis RefinementState.distinct(7))
next
  case (rejecting seen i prov evidence stamp)
  then show ?thesis using as_approver_eq shape_transition unfolding reject_refinement_def by (metis RefinementState.distinct(9))
next
  case (rollback_authorizing seen i prov evidence stamp)
  then show ?thesis using as_approver_eq shape_transition unfolding authorize_rollback_def by (metis RefinementState.distinct(15))
next
  case (promotion_authorizing seen seen' i prov evidence stamp)
  then show ?thesis using authorize_promotion_eq shape_transition by (metis RefinementState.distinct(11))
next
  case (promoting i prov evidence receipt stamp)
  then show ?thesis by (intro shape_transition) (auto simp: record_promoted_def)
next
  case (rolling_back i prov evidence receipt stamp)
  then show ?thesis by (intro shape_transition) (auto simp: record_rolled_back_def)
qed

text \<open>A proposal whose \<open>propose\<close> died between its two appends is stuck: it is on file without an event,
  and no later step of any run gives it one, since proposing it again is refused and every other
  operation needs a state it never entered.\<close>

theorem crashed_proposal_is_stuck:
  assumes K: "journal_codec_ok K" and run: "journal_reachable K J s" and ps: "journal_proposals K s = Inr ps" "i \<in> set (keys ps)"
    and evs: "journal_events K s = Inr evs" "proposal_history i evs = []" and step: "journal_step K J s s'"
  shows "\<exists>ps' evs'. journal_proposals K s' = Inr ps' \<and> i \<in> set (keys ps')
    \<and> journal_events K s' = Inr evs' \<and> proposal_history i evs' = []"
proof -
  obtain ps0 where "journal_ok K J s ps0 evs" by (rule reachable_journal [OF K run evs(1)])
  with ps(1) have ok: "journal_ok K J s ps evs" using journal_proposals_ok by fastforce
  from journal_step_ok [OF step K ok] obtain ps' evs' where ok': "journal_ok K J s' ps' evs'" and le: "map_of ps \<subseteq>\<^sub>m map_of ps'"
    by blast
  have keys: "i \<in> set (keys ps')" using ps(2) le by (force simp: map_le_def dom_map_of_conv_image_fst [symmetric])
  have "proposal_history i evs' = []" using journal_step_shape [OF step ok]
  proof (elim disjE exE conjE)
    assume "rj_events s' = rj_events s"
    then show ?thesis using journal_okD(2) [OF ok] journal_okD(2) [OF ok'] evs(2) by (simp add: journal_events_def)
  next
    fix j to_state prov evidence receipt stamp t
    assume "t = s" "to_state \<noteq> RProposed" "s' = snd (transition K J j to_state prov evidence receipt stamp t)"
    then show ?thesis using transition_no_start [OF K ok evs(2)] ok' by blast
  next
    fix j to_state prov evidence receipt stamp t p
    assume s': "s' = snd (transition K J j to_state prov evidence receipt stamp t)" and p: "validate_proposal p = Inr p"
      "map_of ps j = None" "j = rp_id p" and t: "t = put_proposal K p s"
    have "journal_ok K J t (dput (rp_id p) p ps) evs" unfolding t using journal_ok_put_proposal [OF K ok] p by simp
    moreover have "j \<noteq> i" using p(2) ps(2) by (auto simp: map_of_eq_None_iff)
    ultimately show ?thesis using transition_no_start [OF K _ evs(2)] ok' unfolding s' by blast
  qed
  then show ?thesis using journal_proposals_ok [OF ok'] journal_okD(2) [OF ok'] keys by blast
qed

section \<open>A concrete run\<close>

text \<open>A codec whose lines are the records themselves.\<close>

definition demo_journal_codec :: "(RefinementProposal + RefinementEvent) journal_codec" where
  "demo_journal_codec = \<lparr>parse_proposal = (\<lambda>l. case l of Inl p \<Rightarrow> Some p | Inr _ \<Rightarrow> None), dump_proposal = Inl,
     digest_proposal = rp_proposed_content, parse_refinement = (\<lambda>l. case l of Inl _ \<Rightarrow> None | Inr e \<Rightarrow> Some e),
     dump_refinement = Inr, digest_refinement = rv_event_id\<rparr>"

definition demo_policy :: journal_policy where
  "demo_policy = \<lparr>jp_approvers = [''boss''], jp_evidence_exists = (\<lambda>x. x \<in> set [''v'', ''c'', ''o'']),
     jp_evidence_kind = Some (\<lambda>x. if x = ''v'' then VerifiedResult else if x = ''c'' then CanaryResult else OperatorApproval)\<rparr>"

definition demo_proposal :: RefinementProposal where
  "demo_proposal = \<lparr>rp_id = ''p'', rp_scope = ScopeProject, rp_target = ''t'', rp_target_kind = TargetMemory,
     rp_proposed_content = ''new'', rp_evidence_ids = [''v''], rp_proposer = ''kid'', rp_created_at = \<lparr>dt_aware = True, dt_instant = 0\<rparr>\<rparr>"

definition demo_prov :: Provenance where
  "demo_prov = \<lparr>prov_actor = ''boss'', prov_node = ''n'', prov_session_id = ''s'', prov_action = ''a'', prov_target = ''t'',
     prov_observed_prior_state = None, prov_signature = None\<rparr>"

definition demo_event_stamp :: "string \<Rightarrow> event_stamp" where
  "demo_event_stamp u = (u, \<lparr>dt_aware = True, dt_instant = 1\<rparr>)"

definition demo_journal1 where
  "demo_journal1 = snd (propose_refinement demo_journal_codec demo_policy demo_proposal demo_prov (demo_event_stamp ''1'') new_journal)"

definition demo_journal2 where
  "demo_journal2 = snd (record_canary demo_journal_codec demo_policy ''p'' demo_prov True [''c''] ''ok'' (demo_event_stamp ''3'')
     (snd (authorize_canary demo_journal_codec demo_policy ''p'' demo_prov [''v''] (demo_event_stamp ''2'') demo_journal1 demo_journal1)))"

definition demo_journal3 where
  "demo_journal3 = snd (authorize_promotion demo_journal_codec demo_policy ''p'' demo_prov [''v'', ''c'', ''o''] (demo_event_stamp ''5'')
     demo_journal1 demo_journal2
     (snd (approve_refinement demo_journal_codec demo_policy ''p'' demo_prov [''v''] (demo_event_stamp ''4'') demo_journal1 demo_journal2)))"

definition demo_journal4 where
  "demo_journal4 = snd (record_promoted demo_journal_codec demo_policy ''p'' demo_prov [''v''] ''done'' (demo_event_stamp ''6'') demo_journal3)"

definition demo_stranded where
  "demo_stranded = put_proposal demo_journal_codec demo_proposal new_journal"

lemma demo_journal_codec_ok: "journal_codec_ok demo_journal_codec"
  by (simp add: journal_codec_ok_def demo_journal_codec_def)

lemma demo_proposal_ok: "validate_proposal demo_proposal = Inr demo_proposal"
  by code_simp

lemma earlier_step: "earlier seen s \<Longrightarrow> earlier s t \<Longrightarrow> earlier seen t"
  unfolding earlier_def by (blast intro: prefix_order.trans)

lemma demo_journal_reachable: "journal_reachable demo_journal_codec demo_policy demo_journal4"
proof -
  have 1: "journal_reachable demo_journal_codec demo_policy demo_journal1" unfolding demo_journal1_def
    by (rule journal_next [OF journal_start proposing [OF demo_proposal_ok]])
  have "earlier demo_journal1 demo_journal1" by (simp add: earlier_def)
  from journal_next [OF journal_next [OF 1 canary_authorizing [OF this]] canary_recording]
  have 2: "journal_reachable demo_journal_codec demo_policy demo_journal2" unfolding demo_journal2_def .
  let ?a = "snd (approve_refinement demo_journal_codec demo_policy ''p'' demo_prov [''v''] (demo_event_stamp ''4'') demo_journal1 demo_journal2)"
  have e: "earlier demo_journal1 demo_journal2" "earlier demo_journal1 ?a" "earlier demo_journal2 ?a" unfolding earlier_def by code_simp+
  from journal_next [OF journal_next [OF 2 approving [OF e(1)]] promotion_authorizing [OF e(2,3)]]
  have "journal_reachable demo_journal_codec demo_policy demo_journal3" unfolding demo_journal3_def .
  from journal_next [OF this promoting] show ?thesis unfolding demo_journal4_def .
qed

theorem promotion_is_governed_witness:
  "\<exists>evs e. journal_events demo_journal_codec demo_journal4 = Inr evs \<and> e \<in> set evs \<and> rv_to_state e = RPromoted
     \<and> (\<exists>a \<in> set evs. rv_to_state a = RPromotionAuthorized \<and> required_evidence demo_proposal \<subseteq> the (jp_evidence_kind demo_policy) ` set (rv_evidence_ids a))"
proof -
  have "(case journal_events demo_journal_codec demo_journal4 of Inl _ \<Rightarrow> False | Inr evs \<Rightarrow> list_ex (\<lambda>e. rv_to_state e = RPromoted \<and> rv_proposal_id e = ''p'') evs)"
    by code_simp
  then obtain evs e where evs: "journal_events demo_journal_codec demo_journal4 = Inr evs" and e: "e \<in> set evs" "rv_to_state e = RPromoted" "rv_proposal_id e = ''p''"
    by (auto simp: list_ex_iff split: sum.splits)
  have p: "journal_proposals demo_journal_codec demo_journal4 = Inr [(''p'', demo_proposal)]" by code_simp
  from promotion_is_governed [OF demo_journal_codec_ok demo_journal_reachable evs e(1,2)] p e(3)
  have "\<exists>a \<in> set evs. rv_to_state a = RPromotionAuthorized \<and> required_evidence demo_proposal \<subseteq> the (jp_evidence_kind demo_policy) ` set (rv_evidence_ids a)"
    by auto
  with evs e(1,2) show ?thesis by blast
qed

theorem journal_lifecycle_witness:
  "\<exists>evs. journal_events demo_journal_codec demo_journal4 = Inr evs
     \<and> proposal_history ''p'' evs = [RProposed, RCanaryAuthorized, RCanaryPassed, RApproved, RPromotionAuthorized, RPromoted]
     \<and> distinct (proposal_history ''p'' evs)"
proof -
  have "(case journal_events demo_journal_codec demo_journal4 of Inl _ \<Rightarrow> False
     | Inr evs \<Rightarrow> proposal_history ''p'' evs = [RProposed, RCanaryAuthorized, RCanaryPassed, RApproved, RPromotionAuthorized, RPromoted])"
    by code_simp
  with journal_lifecycle [OF demo_journal_codec_ok demo_journal_reachable, of "''p''"] show ?thesis by auto
qed

theorem crashed_proposal_is_stuck_witness:
  "journal_reachable demo_journal_codec demo_policy demo_stranded
   \<and> (\<exists>evs'. journal_events demo_journal_codec
         (snd (propose_refinement demo_journal_codec demo_policy demo_proposal demo_prov (demo_event_stamp ''9'') demo_stranded)) = Inr evs'
       \<and> proposal_history ''p'' evs' = [])"
proof -
  have "\<not> isl (fst (propose_refinement demo_journal_codec demo_policy demo_proposal demo_prov (demo_event_stamp ''1'') new_journal))"
    by code_simp
  then obtain e s' where "propose_refinement demo_journal_codec demo_policy demo_proposal demo_prov (demo_event_stamp ''1'') new_journal = (Inr e, s')"
    by (cases "propose_refinement demo_journal_codec demo_policy demo_proposal demo_prov (demo_event_stamp ''1'') new_journal";
        cases "fst (propose_refinement demo_journal_codec demo_policy demo_proposal demo_prov (demo_event_stamp ''1'') new_journal)") auto
  from journal_next [OF journal_start dying [OF demo_proposal_ok this]]
  have run: "journal_reachable demo_journal_codec demo_policy demo_stranded" unfolding demo_stranded_def .
  have p: "journal_proposals demo_journal_codec demo_stranded = Inr [(''p'', demo_proposal)]" by code_simp
  have e: "journal_events demo_journal_codec demo_stranded = Inr []" by code_simp
  have h: "proposal_history ''p'' [] = []" by (simp add: proposal_history_def)
  from crashed_proposal_is_stuck [OF demo_journal_codec_ok run p _ e h proposing [OF demo_proposal_ok, where prov = demo_prov and stamp = "demo_event_stamp ''9''"]] run
  show ?thesis by auto
qed

end
