(* ===== verification/Pareto.thy ===== *)
theory Pareto
  imports Models "HOL-Library.Multiset"
begin

text \<open>
  Repeated-trial statistics and the Pareto frontier (\<open>src/skharness/arena/metrics.py\<close>). Values are
  reals, so the code's tests for infinities and NaN never fire. The inner \<open>any\<close> of the frontier is
  evaluated in full; it reads only metrics that the admissibility test has found.
\<close>

section \<open>Objectives and summaries\<close>

datatype MetricDirection = MAXIMIZE | MINIMIZE

record MetricObjective =
  mo_name :: string
  mo_direction :: MetricDirection
  mo_minimum :: "real option"
  mo_maximum :: "real option"
  mo_tolerance :: real

definition mk_MetricObjective :: "MetricObjective \<Rightarrow> MetricObjective result" where
  "mk_MetricObjective q = check
     [(blank (mo_name q), ValueError ''metric objective name must not be empty''),
      (case (mo_minimum q, mo_maximum q) of (Some l, Some u) \<Rightarrow> l > u | _ \<Rightarrow> False, ValueError ''minimum must not exceed maximum''),
      (mo_tolerance q < 0, ValueError ''tolerance must be non-negative'')] (Inr q)"

definition accepts :: "MetricObjective \<Rightarrow> real \<Rightarrow> bool" where
  "accepts q v = (\<not> (case mo_minimum q of None \<Rightarrow> False | Some l \<Rightarrow> v < l - mo_tolerance q)
     \<and> \<not> (case mo_maximum q of None \<Rightarrow> False | Some u \<Rightarrow> v > u + mo_tolerance q))"

record MetricSummary =
  ms_count :: int
  ms_mean :: real
  ms_standard_deviation :: real
  ms_minimum :: real
  ms_maximum :: real
  ms_confidence_low :: real
  ms_confidence_high :: real

definition fmean :: "real list \<Rightarrow> real" where
  "fmean xs = sum_list xs / real (length xs)"

text \<open>\<open>statistics.stdev\<close>: the square root of the sample variance.\<close>

definition stdev :: "real list \<Rightarrow> real" where
  "stdev xs = sqrt (sum_list (map (\<lambda>x. (x - fmean xs)\<^sup>2) xs) / (real (length xs) - 1))"

definition summarize :: "real list \<Rightarrow> real \<Rightarrow> MetricSummary result" where
  "summarize observations confidence_z = check
     [(observations = [], ValueError ''at least one observation is required''),
      (confidence_z < 0, ValueError ''confidence_z must be finite and non-negative'')]
     (let mean = fmean observations;
          deviation = (if length observations > 1 then stdev observations else 0);
          margin = confidence_z * deviation / sqrt (real (length observations))
      in Inr \<lparr>ms_count = int (length observations), ms_mean = mean, ms_standard_deviation = deviation,
              ms_minimum = Min (set observations), ms_maximum = Max (set observations),
              ms_confidence_low = mean - margin, ms_confidence_high = mean + margin\<rparr>)"

section \<open>The frontier\<close>

record ParetoCandidate =
  pc_experiment_id :: string
  pc_metrics :: "(string \<times> MetricSummary) list"

record VerifiedParetoCandidate =
  vp_candidate :: ParetoCandidate
  vp_result_hash :: string

definition verified_from_result :: "(Result \<Rightarrow> string) \<Rightarrow> Result \<Rightarrow> (string \<times> MetricSummary) list \<Rightarrow> VerifiedParetoCandidate result" where
  "verified_from_result digest r metrics = check
     [(res_verification r \<noteq> VValid, ValueError ''Pareto admission requires a verified-valid result'')]
     (Inr \<lparr>vp_candidate = \<lparr>pc_experiment_id = res_experiment_id r, pc_metrics = metrics\<rparr>, vp_result_hash = digest r\<rparr>)"

definition metric_mean :: "ParetoCandidate \<Rightarrow> string \<Rightarrow> real result" where
  "metric_mean c name = (case map_of (pc_metrics c) name of None \<Rightarrow> Inl (KeyError name) | Some m \<Rightarrow> Inr (ms_mean m))"

text \<open>The loop of \<open>_dominates\<close> carries the pair \<open>(weakly_better, strictly_better)\<close>.\<close>

definition compare_objective :: "ParetoCandidate \<Rightarrow> ParetoCandidate \<Rightarrow> MetricObjective \<Rightarrow> bool \<times> bool \<Rightarrow> (bool \<times> bool) result" where
  "compare_objective left right q ws =
     rbind (metric_mean left (mo_name q)) (\<lambda>l. rbind (metric_mean right (mo_name q)) (\<lambda>r.
       Inr (if mo_direction q = MAXIMIZE
            then (fst ws \<and> l \<ge> r - mo_tolerance q, snd ws \<or> l > r + mo_tolerance q)
            else (fst ws \<and> l \<le> r + mo_tolerance q, snd ws \<or> l < r - mo_tolerance q))))"

definition dominates :: "ParetoCandidate \<Rightarrow> ParetoCandidate \<Rightarrow> MetricObjective list \<Rightarrow> bool result" where
  "dominates left right objectives =
     rbind (rfold (compare_objective left right) objectives (True, False)) (\<lambda>ws. Inr (fst ws \<and> snd ws))"

definition admissible :: "MetricObjective list \<Rightarrow> ParetoCandidate \<Rightarrow> bool" where
  "admissible objectives c = list_all (\<lambda>q. case map_of (pc_metrics c) (mo_name q) of None \<Rightarrow> False
     | Some m \<Rightarrow> accepts q (ms_mean m)) objectives"

text \<open>One candidate of the final comprehension: kept when none of the others dominates it.\<close>

definition keep_candidate :: "MetricObjective list \<Rightarrow> ParetoCandidate list \<Rightarrow> ParetoCandidate \<Rightarrow> bool result" where
  "keep_candidate objectives cs c =
     rbind (rmap (\<lambda>x. dominates x c objectives) (filter (\<lambda>x. pc_experiment_id x \<noteq> pc_experiment_id c) cs))
       (\<lambda>bs. Inr (True \<notin> set bs))"

definition pareto_frontier :: "ParetoCandidate list \<Rightarrow> MetricObjective list \<Rightarrow> ParetoCandidate list result" where
  "pareto_frontier candidates objectives =
     (let ordered = sort_key pc_experiment_id candidates; ids = map pc_experiment_id ordered;
          cs = filter (admissible objectives) ordered
      in check
        [(objectives = [], ValueError ''at least one Pareto objective is required''),
         (\<not> distinct (map mo_name objectives), ValueError ''Pareto objective names must be unique''),
         (list_ex blank ids, ValueError ''experiment IDs must not be empty''),
         (\<not> distinct ids, ValueError ''experiment IDs must be unique'')]
        (rbind (rmap (keep_candidate objectives cs) cs) (\<lambda>keep.
          Inr (map fst (filter snd (zip cs keep))))))"

definition verified_pareto_frontier :: "VerifiedParetoCandidate list \<Rightarrow> MetricObjective list \<Rightarrow> VerifiedParetoCandidate list result" where
  "verified_pareto_frontier items objectives =
     (let by_id = fold (\<lambda>i. dput (pc_experiment_id (vp_candidate i)) i) items []
      in check [(length by_id \<noteq> length items, ValueError ''verified candidate experiment IDs must be unique'')]
        (rbind (pareto_frontier (map vp_candidate items) objectives) (\<lambda>frontier.
          rmap (\<lambda>c. case map_of by_id (pc_experiment_id c) of None \<Rightarrow> Inl (KeyError (pc_experiment_id c)) | Some i \<Rightarrow> Inr i)
            frontier)))"

section \<open>Domination as a relation\<close>

abbreviation mean_of :: "ParetoCandidate \<Rightarrow> MetricObjective \<Rightarrow> real" where
  "mean_of c q \<equiv> ms_mean (the (map_of (pc_metrics c) (mo_name q)))"

text \<open>The value of an objective, turned so that larger is better.\<close>

definition goodness :: "MetricObjective \<Rightarrow> ParetoCandidate \<Rightarrow> real" where
  "goodness q c = (if mo_direction q = MAXIMIZE then mean_of c q else - mean_of c q)"

definition better :: "MetricObjective list \<Rightarrow> ParetoCandidate \<Rightarrow> ParetoCandidate \<Rightarrow> bool" where
  "better objectives l r \<longleftrightarrow> (\<forall>q \<in> set objectives. goodness q l \<ge> goodness q r - mo_tolerance q)
     \<and> (\<exists>q \<in> set objectives. goodness q l > goodness q r + mo_tolerance q)"

lemma admissible_metric: "admissible objectives c \<Longrightarrow> q \<in> set objectives \<Longrightarrow> metric_mean c (mo_name q) = Inr (mean_of c q)"
  by (auto simp: admissible_def list_all_iff metric_mean_def split: option.splits)

lemma compare_loop:
  assumes "\<forall>q \<in> set objectives. metric_mean l (mo_name q) = Inr (mean_of l q) \<and> metric_mean r (mo_name q) = Inr (mean_of r q)"
  shows "rfold (compare_objective l r) objectives ws
    = Inr (fst ws \<and> (\<forall>q \<in> set objectives. goodness q l \<ge> goodness q r - mo_tolerance q),
           snd ws \<or> (\<exists>q \<in> set objectives. goodness q l > goodness q r + mo_tolerance q))"
  using assms
proof (induction objectives arbitrary: ws)
  case (Cons q objectives)
  have "compare_objective l r q ws = Inr (fst ws \<and> goodness q l \<ge> goodness q r - mo_tolerance q,
      snd ws \<or> goodness q l > goodness q r + mo_tolerance q)"
    using Cons.prems by (auto simp: compare_objective_def goodness_def)
  with Cons show ?case by auto
qed simp

lemma dominates_iff:
  "admissible objectives l \<Longrightarrow> admissible objectives r \<Longrightarrow> dominates l r objectives = Inr (better objectives l r)"
  using admissible_metric by (subst dominates_def, subst compare_loop) (auto simp: better_def)

lemma rmap_pure: "(\<And>x. x \<in> set xs \<Longrightarrow> f x = Inr (g x)) \<Longrightarrow> rmap f xs = Inr (map g xs)"
  by (induction xs) auto

lemma keep_candidate_eq:
  assumes "\<forall>x \<in> set cs. admissible objectives x" and "admissible objectives c"
  shows "keep_candidate objectives cs c
    = Inr (\<not> (\<exists>x \<in> set cs. pc_experiment_id x \<noteq> pc_experiment_id c \<and> better objectives x c))"
proof -
  have "rmap (\<lambda>x. dominates x c objectives) (filter (\<lambda>x. pc_experiment_id x \<noteq> pc_experiment_id c) cs)
      = Inr (map (\<lambda>x. better objectives x c) (filter (\<lambda>x. pc_experiment_id x \<noteq> pc_experiment_id c) cs))"
    using assms dominates_iff by (intro rmap_pure) auto
  then show ?thesis by (auto simp: keep_candidate_def)
qed

lemma filter_zip_map: "map fst (filter snd (zip xs (map P xs))) = filter P xs"
  by (induction xs) auto

text \<open>The frontier is computed by filtering alone: past its input checks it never raises.\<close>

lemma pareto_frontier_eq:
  assumes "objectives \<noteq> []" and "distinct (map mo_name objectives)"
    and "\<forall>c \<in> set candidates. \<not> blank (pc_experiment_id c)" and "distinct (map pc_experiment_id candidates)"
  shows "pareto_frontier candidates objectives = Inr (filter (\<lambda>c. \<not> (\<exists>x \<in> set candidates. admissible objectives x
      \<and> pc_experiment_id x \<noteq> pc_experiment_id c \<and> better objectives x c))
      (filter (admissible objectives) (sort_key pc_experiment_id candidates)))"
proof -
  let ?o = "sort_key pc_experiment_id candidates"
  let ?cs = "filter (admissible objectives) ?o"
  let ?P = "\<lambda>c. \<not> (\<exists>x \<in> set candidates. admissible objectives x \<and> pc_experiment_id x \<noteq> pc_experiment_id c \<and> better objectives x c)"
  have d: "distinct (map pc_experiment_id ?o)"
    using assms(4) by (metis distinct_map distinct_sort mset_map mset_sort set_sort)
  have k: "rmap (keep_candidate objectives ?cs) ?cs = Inr (map ?P ?cs)"
    by (rule rmap_pure) (auto simp: keep_candidate_eq)
  have ne: "\<not> list_ex blank (map pc_experiment_id ?o)" using assms(3) by (auto simp: list_ex_iff)
  show ?thesis
    unfolding pareto_frontier_def Let_def k rbind.simps filter_zip_map using assms(1,2) d ne by simp
qed

section \<open>Properties\<close>

text \<open>The frontier is exactly the admissible candidates that no other admissible candidate dominates, in the order
  of their ids: past the checks of its inputs \<open>pareto_frontier\<close> never raises, and the result does not
  depend on the order the candidates come in.\<close>

theorem frontier_exact:
  assumes "objectives \<noteq> []" and "distinct (map mo_name objectives)"
    and "\<forall>c \<in> set candidates. \<not> blank (pc_experiment_id c)" and ids: "distinct (map pc_experiment_id candidates)"
  shows "\<exists>fs. pareto_frontier candidates objectives = Inr fs \<and> sorted (map pc_experiment_id fs) \<and> distinct fs
    \<and> (\<forall>c. c \<in> set fs \<longleftrightarrow> c \<in> set candidates \<and> admissible objectives c
         \<and> (\<forall>x \<in> set candidates. admissible objectives x \<and> x \<noteq> c \<longrightarrow> dominates x c objectives = Inr False))
    \<and> (\<forall>others. mset others = mset candidates \<longrightarrow> pareto_frontier others objectives = Inr fs)"
proof -
  let ?P = "\<lambda>c. \<not> (\<exists>x \<in> set candidates. admissible objectives x \<and> pc_experiment_id x \<noteq> pc_experiment_id c \<and> better objectives x c)"
  let ?fs = "filter ?P (filter (admissible objectives) (sort_key pc_experiment_id candidates))"
  note eq = pareto_frontier_eq [OF assms]
  have inj: "inj_on pc_experiment_id (set candidates)" and d: "distinct candidates" using ids by (auto simp: distinct_map)
  have "pareto_frontier others objectives = Inr ?fs" if m: "mset others = mset candidates" for others
  proof -
    have s: "set others = set candidates" using m by (metis set_mset_mset)
    have "distinct (map pc_experiment_id others)" using ids m by (metis mset_eq_imp_distinct_iff mset_map)
    moreover have "sort_key pc_experiment_id others = sort_key pc_experiment_id candidates"
      by (rule sort_key_inj_key_eq) (use m inj s in auto)
    ultimately show ?thesis using pareto_frontier_eq [of objectives others] assms(1-3) s by simp
  qed
  moreover have "c \<in> set ?fs \<longleftrightarrow> c \<in> set candidates \<and> admissible objectives c
         \<and> (\<forall>x \<in> set candidates. admissible objectives x \<and> x \<noteq> c \<longrightarrow> dominates x c objectives = Inr False)" for c
    using inj dominates_iff by (auto dest: inj_onD)
  moreover have "sorted (map pc_experiment_id ?fs)" by (intro sorted_filter sorted_sort_key)
  ultimately show ?thesis using eq d by auto
qed

lemma better_trans:
  assumes "\<forall>q \<in> set objectives. mo_tolerance q = 0" and ab: "better objectives a b" and bc: "better objectives b c"
  shows "better objectives a c"
proof -
  have weak: "goodness q a \<ge> goodness q b" "goodness q b \<ge> goodness q c" if "q \<in> set objectives" for q
    using assms that by (auto simp: better_def)
  from ab assms(1) obtain q where "q \<in> set objectives" "goodness q a > goodness q b" by (auto simp: better_def)
  with weak have "goodness q a > goodness q c" "q \<in> set objectives" by fastforce+
  with weak show ?thesis using assms(1) unfolding better_def by (metis add.right_neutral diff_zero order.trans)
qed

text \<open>Without tolerances the frontier covers everything: every admissible candidate is on it or is dominated by
  a member of it; so the frontier of a non-empty admissible set is not empty.\<close>

theorem frontier_covers:
  assumes "objectives \<noteq> []" and "distinct (map mo_name objectives)"
    and "\<forall>c \<in> set candidates. \<not> blank (pc_experiment_id c)" and ids: "distinct (map pc_experiment_id candidates)"
    and zero: "\<forall>q \<in> set objectives. mo_tolerance q = 0" and c: "c \<in> set candidates" "admissible objectives c"
  shows "\<exists>fs f. pareto_frontier candidates objectives = Inr fs \<and> f \<in> set fs \<and> (f = c \<or> dominates f c objectives = Inr True)"
proof -
  let ?A = "{x \<in> set candidates. admissible objectives x}"
  let ?R = "{(x, y). x \<in> ?A \<and> y \<in> ?A \<and> better objectives x y}"
  have inj: "inj_on pc_experiment_id (set candidates)" using ids by (simp add: distinct_map)
  have irr: "\<not> better objectives x x" for x using zero by (auto simp: better_def)
  have "trans ?R" using better_trans [OF zero] by (auto intro: transI)
  then have "acyclic ?R" using irr by (auto simp: acyclic_def trancl_id)
  moreover have "finite ?R" by (rule finite_subset [of _ "?A \<times> ?A"]) auto
  ultimately have wf: "wf ?R" by (rule finite_acyclic_wf [rotated])
  let ?Q = "{x \<in> ?A. x = c \<or> better objectives x c}"
  have "c \<in> ?Q" using c by simp
  with wf obtain f where f: "f \<in> ?Q" and min: "\<And>y. (y, f) \<in> ?R \<Longrightarrow> y \<notin> ?Q" by (rule wfE_min) blast
  have "\<not> better objectives x f" if "x \<in> ?A" for x
    using min [of x] that f better_trans [OF zero, of x f c] by blast
  then have "f \<in> set (filter (\<lambda>c. \<not> (\<exists>x \<in> set candidates. admissible objectives x
      \<and> pc_experiment_id x \<noteq> pc_experiment_id c \<and> better objectives x c))
      (filter (admissible objectives) (sort_key pc_experiment_id candidates)))" using f by auto
  moreover have "f = c \<or> dominates f c objectives = Inr True" using f c dominates_iff by auto
  ultimately show ?thesis using pareto_frontier_eq [OF assms(1-4)] by blast
qed

text \<open>A summary brackets its mean: whatever \<open>summarize\<close> returns, the mean lies between the smallest and the
  largest observation and inside the confidence interval, and the deviation is not negative.\<close>

theorem summary_brackets_mean:
  assumes call: "summarize observations z = Inr s"
  shows "ms_minimum s \<le> ms_mean s \<and> ms_mean s \<le> ms_maximum s \<and> ms_confidence_low s \<le> ms_mean s \<and> ms_mean s \<le> ms_confidence_high s
    \<and> 0 \<le> ms_standard_deviation s \<and> ms_minimum s \<in> set observations \<and> ms_maximum s \<in> set observations"
proof -
  let ?xs = observations and ?n = "real (length observations)"
  from call have ne: "?xs \<noteq> []" and z: "0 \<le> z" by (auto simp: summarize_def)
  let ?dev = "if length ?xs > 1 then stdev ?xs else 0"
  have s: "s = \<lparr>ms_count = int (length ?xs), ms_mean = fmean ?xs, ms_standard_deviation = ?dev,
      ms_minimum = Min (set ?xs), ms_maximum = Max (set ?xs), ms_confidence_low = fmean ?xs - z * ?dev / sqrt ?n,
      ms_confidence_high = fmean ?xs + z * ?dev / sqrt ?n\<rparr>"
    using call by (simp add: summarize_def Let_def)
  have lo: "Min (set ?xs) * real (length ys) \<le> sum_list ys" and hi: "sum_list ys \<le> Max (set ?xs) * real (length ys)" if "set ys \<subseteq> set ?xs" for ys
    using that by (induction ys) (auto simp: algebra_simps intro: add_mono Min_le Max_ge)
  have n: "0 < ?n" using ne by simp
  have "Min (set ?xs) \<le> fmean ?xs" "fmean ?xs \<le> Max (set ?xs)"
    using lo [of ?xs] hi [of ?xs] n by (simp_all add: fmean_def pos_le_divide_eq pos_divide_le_eq)
  moreover have dev: "0 \<le> ?dev"
    by (auto simp: stdev_def intro!: divide_nonneg_nonneg sum_list_nonneg)
  moreover have "0 \<le> z * ?dev / sqrt ?n" using z dev n by simp
  ultimately show ?thesis using ne by (simp add: s)
qed

text \<open>Three candidates that dominate each other in a circle, each one a little behind where the next is far ahead.\<close>

definition demo_summary :: "real \<Rightarrow> MetricSummary" where
  "demo_summary m = \<lparr>ms_count = 1, ms_mean = m, ms_standard_deviation = 0, ms_minimum = m, ms_maximum = m,
     ms_confidence_low = m, ms_confidence_high = m\<rparr>"

definition demo_candidate :: "string \<Rightarrow> real \<Rightarrow> real \<Rightarrow> real \<Rightarrow> ParetoCandidate" where
  "demo_candidate i x y z = \<lparr>pc_experiment_id = i,
     pc_metrics = [(''x'', demo_summary x), (''y'', demo_summary y), (''z'', demo_summary z)]\<rparr>"

definition demo_objectives :: "real \<Rightarrow> MetricObjective list" where
  "demo_objectives t = map (\<lambda>n. \<lparr>mo_name = n, mo_direction = MAXIMIZE, mo_minimum = None, mo_maximum = None, mo_tolerance = t\<rparr>)
     [''x'', ''y'', ''z'']"

definition demo_candidates :: "ParetoCandidate list" where
  "demo_candidates = [demo_candidate ''a'' 2 1 0, demo_candidate ''b'' 0 2 1, demo_candidate ''c'' 1 0 2]"

text \<open>A tolerance can empty the frontier: three admissible candidates under valid objectives with a tolerance of
  one, none of which is reported, since domination with a tolerance is not transitive.\<close>

theorem tolerance_can_empty_frontier:
  "\<not> isl (rmap mk_MetricObjective (demo_objectives 1)) \<and> list_all (admissible (demo_objectives 1)) demo_candidates
   \<and> pareto_frontier demo_candidates (demo_objectives 1) = Inr []"
  by code_simp

lemma demo_frontier_inputs:
  "demo_objectives t \<noteq> []" "distinct (map mo_name (demo_objectives t))"
  "\<forall>c \<in> set demo_candidates. \<not> blank (pc_experiment_id c)" "distinct (map pc_experiment_id demo_candidates)"
  by (simp_all add: demo_objectives_def demo_candidates_def demo_candidate_def blank_iff py_isspace_def)

theorem frontier_exact_witness:
  "\<exists>fs. pareto_frontier demo_candidates (demo_objectives 0) = Inr fs
     \<and> pareto_frontier (rev demo_candidates) (demo_objectives 0) = Inr fs"
  using frontier_exact [OF demo_frontier_inputs, of 0] by (metis mset_rev)

theorem frontier_covers_witness:
  "\<exists>fs f. pareto_frontier demo_candidates (demo_objectives 0) = Inr fs \<and> f \<in> set fs
     \<and> (f = demo_candidate ''a'' 2 1 0 \<or> dominates f (demo_candidate ''a'' 2 1 0) (demo_objectives 0) = Inr True)"
proof -
  have "admissible (demo_objectives 0) (demo_candidate ''a'' 2 1 0)" by code_simp
  then show ?thesis
    by (intro frontier_covers [OF demo_frontier_inputs]) (simp_all add: demo_objectives_def demo_candidates_def)
qed

theorem summary_brackets_mean_witness:
  "\<exists>s. summarize [1] 0 = Inr s \<and> ms_minimum s \<le> ms_mean s"
proof -
  have "\<exists>s. summarize [1] 0 = Inr s" by (simp add: summarize_def Let_def)
  then show ?thesis using summary_brackets_mean [of "[1]" 0] by blast
qed

text \<open>The verified frontier is the frontier of the candidates, each with the item it came in.\<close>

lemma fold_dput_distinct:
  "length (fold (\<lambda>i. dput (k i) i) xs d) \<le> length d + length xs"
  "length (fold (\<lambda>i. dput (k i) i) xs d) = length d + length xs \<Longrightarrow> fold (\<lambda>i. dput (k i) i) xs d = d @ map (\<lambda>i. (k i, i)) xs"
proof (induction xs arbitrary: d)
  case (Cons x xs)
  have le: "length (dput (k x) x d) \<le> Suc (length d)" and eq: "length (dput (k x) x d) = Suc (length d) \<Longrightarrow> dput (k x) x d = d @ [(k x, x)]" for d
    by (induction d) (auto split: if_splits)
  {
    case (1 d)
    show ?case using Cons.IH(1) [of "dput (k x) x d"] le [of d] by simp
  next
    case (2 d)
    then have full: "length (dput (k x) x d) = Suc (length d)" using Cons.IH(1) [of "dput (k x) x d"] le [of d] by simp
    with 2 Cons.IH(2) [of "dput (k x) x d"] eq [of d] show ?case by simp
  }
qed simp_all

lemma verified_frontier_refines:
  assumes call: "verified_pareto_frontier items objectives = Inr fs"
  shows "pareto_frontier (map vp_candidate items) objectives = Inr (map vp_candidate fs) \<and> set fs \<subseteq> set items"
proof -
  let ?k = "\<lambda>i. pc_experiment_id (vp_candidate i)"
  let ?d = "map (\<lambda>i. (?k i, i)) items"
  from call obtain cs where cs: "pareto_frontier (map vp_candidate items) objectives = Inr cs"
    and len: "length (fold (\<lambda>i. dput (?k i) i) items []) = length items"
    and fs: "rmap (\<lambda>c. case map_of (fold (\<lambda>i. dput (?k i) i) items []) (pc_experiment_id c) of
        None \<Rightarrow> Inl (KeyError (pc_experiment_id c)) | Some i \<Rightarrow> Inr i) cs = Inr fs"
    by (auto simp: verified_pareto_frontier_def Let_def)
  have d: "fold (\<lambda>i. dput (?k i) i) items [] = ?d" using fold_dput_distinct(2) [of ?k items "[]"] len by simp
  have inj: "inj_on pc_experiment_id (set (map vp_candidate items))"
    using cs by (auto simp: pareto_frontier_def Let_def distinct_map)
  have sub: "set cs \<subseteq> set (map vp_candidate items)"
    using cs by (auto simp: pareto_frontier_def Let_def dest!: set_zip_leftD)
  have "map vp_candidate gs = ds \<and> set gs \<subseteq> set items"
    if "rmap (\<lambda>c. case map_of ?d (pc_experiment_id c) of None \<Rightarrow> Inl (KeyError (pc_experiment_id c)) | Some i \<Rightarrow> Inr i) ds = Inr gs"
      "set ds \<subseteq> set (map vp_candidate items)" for ds gs
    using that
  proof (induction ds arbitrary: gs)
    case (Cons c ds)
    then obtain i hs where i: "map_of ?d (pc_experiment_id c) = Some i" and g: "gs = i # hs"
      and r: "rmap (\<lambda>c. case map_of ?d (pc_experiment_id c) of None \<Rightarrow> Inl (KeyError (pc_experiment_id c)) | Some i \<Rightarrow> Inr i) ds = Inr hs"
      by (auto split: option.splits)
    from map_of_SomeD [OF i] have "i \<in> set items" "?k i = pc_experiment_id c" by auto
    with inj_onD [OF inj, of "vp_candidate i" c] Cons.prems(2) have "vp_candidate i = c" by auto
    with Cons.IH [OF r] Cons.prems(2) g \<open>i \<in> set items\<close> show ?case by auto
  qed simp
  from this [OF fs [unfolded d] sub] cs show ?thesis by simp
qed

end
