(* ===== verification/Evaluation.thy ===== *)
theory Evaluation
  imports Prelude
begin

text \<open>
  Ablation reports, reinforcement-learning trace export and the training-promotion gate
  (\<open>src/skharness/arena/evaluation.py\<close>). A returned dictionary is a record or an association list.
\<close>

section \<open>The ablation matrix\<close>

datatype Variant = BASELINE | MEMORY | SKILLS | SUBAGENTS | FULL

fun variant_value :: "Variant \<Rightarrow> string" where
  "variant_value BASELINE = ''baseline''"
| "variant_value MEMORY = ''memory-only''"
| "variant_value SKILLS = ''skills-only''"
| "variant_value SUBAGENTS = ''subagents-only''"
| "variant_value FULL = ''full-loop''"

definition variants :: "Variant list" where
  "variants = [BASELINE, MEMORY, SKILLS, SUBAGENTS, FULL]"

record Trial =
  tr_variant :: Variant
  tr_seed :: int
  tr_repetition :: int
  tr_quality :: real
  tr_cost_usd :: real
  tr_tokens :: int
  tr_latency_ms :: real
  tr_recovered :: bool
  tr_reward_hacks :: int
  tr_verifier_disagreements :: int

text \<open>\<open>statistics.mean\<close> raises \<open>StatisticsError\<close>, a \<open>ValueError\<close>, on no data.\<close>

definition py_mean :: "real list \<Rightarrow> real result" where
  "py_mean xs = (if xs = [] then Inl (ValueError ''mean requires at least one data point'')
     else Inr (sum_list xs / real (length xs)))"

record VariantReport =
  vr_trials :: int
  vr_quality_mean :: real
  vr_cost_usd_mean :: real
  vr_tokens_mean :: real
  vr_latency_ms_mean :: real
  vr_recovery_rate :: real
  vr_reward_hacks :: int
  vr_verifier_disagreements :: int

record EvaluationReport =
  er_seeds :: "int list"
  er_repetitions :: int
  er_variants :: "(string \<times> VariantReport) list"

definition trial_key :: "Trial \<Rightarrow> Variant \<times> int \<times> int" where
  "trial_key t = (tr_variant t, tr_seed t, tr_repetition t)"

definition expected_keys :: "int list \<Rightarrow> int \<Rightarrow> (Variant \<times> int \<times> int) list" where
  "expected_keys seeds repetitions = List.product variants (List.product seeds [0..repetitions - 1])"

definition variant_report :: "Trial list \<Rightarrow> Variant \<Rightarrow> (string \<times> VariantReport) result" where
  "variant_report rows v =
     (let group = filter (\<lambda>t. tr_variant t = v) rows in
      rbind (py_mean (map tr_quality group)) (\<lambda>q.
      rbind (py_mean (map tr_cost_usd group)) (\<lambda>c.
      rbind (py_mean (map (\<lambda>t. real_of_int (tr_tokens t)) group)) (\<lambda>k.
      rbind (py_mean (map tr_latency_ms group)) (\<lambda>l.
      rbind (py_mean (map (\<lambda>t. of_bool (tr_recovered t)) group)) (\<lambda>r.
        Inr (variant_value v, \<lparr>vr_trials = int (length group), vr_quality_mean = q, vr_cost_usd_mean = c, vr_tokens_mean = k,
          vr_latency_ms_mean = l, vr_recovery_rate = r, vr_reward_hacks = sum_list (map tr_reward_hacks group),
          vr_verifier_disagreements = sum_list (map tr_verifier_disagreements group)\<rparr>)))))))"

definition evaluation_report :: "Trial list \<Rightarrow> int list \<Rightarrow> int \<Rightarrow> EvaluationReport result" where
  "evaluation_report rows seeds repetitions =
     (let observed = map trial_key rows; expected = expected_keys seeds repetitions in check
      [(seeds = [] \<or> repetitions < 1, EvaluationError ''fixed seeds and a positive repetition count are required''),
       (\<not> distinct observed, EvaluationError ''duplicate variant/seed/repetition trial''),
       (set expected - set observed \<noteq> {} \<or> set observed - set expected \<noteq> {}, EvaluationError ''incomplete evaluation matrix'')]
      (rbind (rmap (variant_report rows) variants) (\<lambda>vs.
        Inr \<lparr>er_seeds = seeds, er_repetitions = repetitions, er_variants = vs\<rparr>)))"

section \<open>Trace export\<close>

record TraceStep =
  ts_kind :: string
  ts_token_ids :: "int list"
  ts_logprobs :: "real list"
  ts_sampling :: payload
  ts_model :: string

definition export_step :: "TraceStep \<Rightarrow> (TraceStep \<times> string) result" where
  "export_step s = check
     [(ts_kind s \<notin> set [''assistant'', ''action'', ''observation'', ''tool-response''], EvaluationError ''unknown trace boundary''),
      (length (ts_token_ids s) \<noteq> length (ts_logprobs s) \<or> ts_model s = [] \<or> ts_sampling s = [],
         EvaluationError ''trace requires aligned token IDs/logprobs, model, and sampling'')]
     (Inr (s, if ts_kind s \<in> set [''assistant'', ''action''] then ''rl'' else ''world-model-sft''))"

definition export_rl_trace :: "TraceStep list \<Rightarrow> (TraceStep \<times> string) list result" where
  "export_rl_trace steps = rbind (rmap export_step steps) (\<lambda>records.
     check [(records = [], EvaluationError ''empty trace export'')] (Inr records))"

section \<open>The promotion gate\<close>

datatype Plane = PlaneTrain | PlaneEval | PlaneProd

fun plane_value :: "Plane \<Rightarrow> string" where
  "plane_value PlaneTrain = ''train''"
| "plane_value PlaneEval = ''eval''"
| "plane_value PlaneProd = ''prod''"

record PlaneBinding =
  pb_plane :: Plane
  pb_dataset_id :: string
  pb_credential_id :: string

record TrainingAuthorization =
  ta_approval :: string
  ta_planes :: "(string \<times> string \<times> string) list"

definition authorize_training_promotion :: "PlaneBinding list \<Rightarrow> bool \<Rightarrow> bool \<Rightarrow> string option \<Rightarrow> int \<Rightarrow> TrainingAuthorization result" where
  "authorize_training_promotion rows held_out canary approval reward_hacks = check
     [(set (map pb_plane rows) \<noteq> set [PlaneTrain, PlaneEval, PlaneProd], EvaluationError ''train, eval, and prod bindings are all required''),
      (length (remdups (map pb_dataset_id rows)) \<noteq> length rows, EvaluationError ''train/eval/prod datasets must be disjoint''),
      (length (remdups (map pb_credential_id rows)) \<noteq> length rows, EvaluationError ''train/eval/prod credentials must be disjoint''),
      (reward_hacks \<noteq> 0, EvaluationError ''reward-hack observations block promotion''),
      (\<not> held_out, EvaluationError ''held-out regression must pass''),
      (\<not> canary, EvaluationError ''canary must pass'')]
     (case approval of None \<Rightarrow> Inl (EvaluationError ''explicit promotion approval is required'')
      | Some a \<Rightarrow> check [(a = [], EvaluationError ''explicit promotion approval is required'')]
          (Inr \<lparr>ta_approval = a, ta_planes = fold (\<lambda>r. dput (plane_value (pb_plane r)) (pb_dataset_id r, pb_credential_id r)) rows []\<rparr>))"

section \<open>Properties\<close>

lemma set_variants: "v \<in> set variants"
  by (cases v) (simp_all add: variants_def)

lemma set_expected_keys: "set (expected_keys seeds n) = {(v, s, r). s \<in> set seeds \<and> 0 \<le> r \<and> r < n}"
  using set_variants by (auto simp: expected_keys_def)

lemma variant_report_total:
  assumes "filter (\<lambda>t. tr_variant t = v) rows \<noteq> []"
  shows "\<exists>x. variant_report rows v = Inr (variant_value v, x) \<and> vr_trials x = int (length (filter (\<lambda>t. tr_variant t = v) rows))
    \<and> 0 \<le> vr_recovery_rate x \<and> vr_recovery_rate x \<le> 1"
proof -
  let ?g = "filter (\<lambda>t. tr_variant t = v) rows"
  let ?r = "map (\<lambda>t. of_bool (tr_recovered t) :: real) ?g"
  have "0 \<le> sum_list ?r" "sum_list ?r \<le> real (length ?g)" by (induction rows) auto
  with assms have "0 \<le> sum_list ?r / real (length ?r)" "sum_list ?r / real (length ?r) \<le> 1"
    by (auto simp: divide_le_eq_1 length_greater_0_conv [symmetric] simp del: length_greater_0_conv)
  with assms show ?thesis by (simp add: variant_report_def Let_def py_mean_def)
qed

text \<open>The trials of one variant in a complete matrix: one per seed and repetition.\<close>

lemma group_size:
  assumes d: "distinct (map trial_key rows)" and s: "set (map trial_key rows) = set (expected_keys seeds n)"
  shows "length (filter (\<lambda>t. tr_variant t = v) rows) = card (set seeds) * nat n"
proof -
  let ?g = "filter (\<lambda>t. tr_variant t = v) rows"
  have "distinct (map trial_key ?g)" using d by (rule distinct_map_filter)
  then have "length ?g = card (set (map trial_key ?g))" by (metis distinct_card length_map)
  also have "set (map trial_key ?g) = {k \<in> set (map trial_key rows). fst k = v}" by (auto simp: trial_key_def)
  also have "\<dots> = {v} \<times> set seeds \<times> {0..<n}" unfolding s set_expected_keys by auto
  finally show ?thesis by simp
qed

text \<open>A report means a complete matrix: \<open>evaluation_report\<close> succeeds exactly when the trials are one for every
  variant, seed and repetition and no other; then every variant is reported from the same number of
  trials and its recovery rate is a proportion.\<close>

theorem report_iff_complete_matrix:
  "((\<exists>rep. evaluation_report rows seeds n = Inr rep) \<longleftrightarrow> seeds \<noteq> [] \<and> 1 \<le> n \<and> distinct (map trial_key rows)
      \<and> (\<forall>v s r. (v, s, r) \<in> set (map trial_key rows) \<longleftrightarrow> s \<in> set seeds \<and> 0 \<le> r \<and> r < n))
   \<and> (\<forall>rep. evaluation_report rows seeds n = Inr rep \<longrightarrow> map fst (er_variants rep) = map variant_value variants
      \<and> (\<forall>x \<in> set (vals (er_variants rep)). vr_trials x = int (card (set seeds)) * n \<and> 0 \<le> vr_recovery_rate x \<and> vr_recovery_rate x \<le> 1))"
  (is "(?some \<longleftrightarrow> ?complete) \<and> ?rest")
proof -
  have eq: "(\<forall>v s r. (v, s, r) \<in> set (map trial_key rows) \<longleftrightarrow> s \<in> set seeds \<and> 0 \<le> r \<and> r < n)
      \<longleftrightarrow> set (map trial_key rows) = set (expected_keys seeds n)"
    unfolding set_expected_keys by (auto 4 3)
  have checks: "evaluation_report rows seeds n = Inr rep \<longleftrightarrow> ?complete \<and> (\<exists>vs. rmap (variant_report rows) variants = Inr vs
      \<and> rep = \<lparr>er_seeds = seeds, er_repetitions = n, er_variants = vs\<rparr>)" for rep
    unfolding eq by (auto simp: evaluation_report_def Let_def)
  have one: "\<exists>x. variant_report rows v = Inr (variant_value v, x) \<and> vr_trials x = int (card (set seeds)) * n
      \<and> 0 \<le> vr_recovery_rate x \<and> vr_recovery_rate x \<le> 1" if c: ?complete for v
  proof -
    have size: "length (filter (\<lambda>t. tr_variant t = v) rows) = card (set seeds) * nat n"
      using c unfolding eq by (intro group_size) auto
    moreover have "0 < card (set seeds) * nat n" using c by (simp add: card_gt_0_iff)
    ultimately have "filter (\<lambda>t. tr_variant t = v) rows \<noteq> []" by auto
    from variant_report_total [OF this] size c show ?thesis by auto
  qed
  have names: "map fst vs = map variant_value us" if ?complete "rmap (variant_report rows) us = Inr vs" for us vs
    using that(2)
  proof (induction us arbitrary: vs)
    case (Cons u us)
    from one [OF that(1), of u] obtain x where "variant_report rows u = Inr (variant_value u, x)" by blast
    with Cons.prems obtain ws where "vs = (variant_value u, x) # ws" "rmap (variant_report rows) us = Inr ws" by auto
    with Cons.IH show ?case by simp
  qed simp
  have "?some \<longleftrightarrow> ?complete"
  proof
    assume c: ?complete
    from rmap_total [of variants "variant_report rows"] one [OF c] obtain vs where "rmap (variant_report rows) variants = Inr vs" by blast
    then show ?some using c checks by blast
  next
    assume ?some
    then obtain rep where "evaluation_report rows seeds n = Inr rep" ..
    then show ?complete unfolding checks by (rule conjunct1)
  qed
  moreover have ?rest
  proof (intro allI impI)
    fix rep assume "evaluation_report rows seeds n = Inr rep"
    then obtain vs where c: ?complete and vs: "rmap (variant_report rows) variants = Inr vs" "er_variants rep = vs"
      using checks by auto
    have "vr_trials x = int (card (set seeds)) * n \<and> 0 \<le> vr_recovery_rate x \<and> vr_recovery_rate x \<le> 1" if "x \<in> set (vals vs)" for x
    proof -
      from that obtain i where "(i, x) \<in> set vs" by force
      then obtain v where "variant_report rows v = Inr (i, x)" using rmap_set [OF vs(1)] by blast
      with one [OF c, of v] show ?thesis by auto
    qed
    then show "map fst (er_variants rep) = map variant_value variants
      \<and> (\<forall>x \<in> set (vals (er_variants rep)). vr_trials x = int (card (set seeds)) * n \<and> 0 \<le> vr_recovery_rate x \<and> vr_recovery_rate x \<le> 1)"
      using names [OF c vs(1)] vs(2) by blast
  qed
  ultimately show ?thesis by blast
qed

definition demo_trials :: "Trial list" where
  "demo_trials = map (\<lambda>v. \<lparr>tr_variant = v, tr_seed = 7, tr_repetition = 0, tr_quality = 1, tr_cost_usd = 0, tr_tokens = 5,
     tr_latency_ms = 2, tr_recovered = True, tr_reward_hacks = 0, tr_verifier_disagreements = 0\<rparr>) variants"

theorem report_iff_complete_matrix_witness:
  "\<exists>rep. evaluation_report demo_trials [7] 1 = Inr rep \<and> (\<forall>x \<in> set (vals (er_variants rep)). vr_trials x = 1)"
proof -
  have "\<not> isl (evaluation_report demo_trials [7] 1)" by code_simp
  then obtain rep where "evaluation_report demo_trials [7] 1 = Inr rep" by (cases "evaluation_report demo_trials [7] 1") auto
  with report_iff_complete_matrix [of demo_trials "[7]" 1] show ?thesis by auto
qed

lemma set_planes: "p \<in> set [PlaneTrain, PlaneEval, PlaneProd]"
  by (cases p) simp_all

lemma plane_value_inj: "plane_value p = plane_value q \<longleftrightarrow> p = q"
  by (cases p; cases q) simp_all

lemma remdups_full: "length (remdups xs) = length xs \<longleftrightarrow> distinct xs"
  by (metis length_remdups_eq remdups_id_iff_distinct)

text \<open>In a dictionary filled in order, a plane has the binding of its last row.\<close>

lemma last_binding:
  assumes "\<exists>r \<in> set rows. pb_plane r = p"
  shows "\<exists>r \<in> set rows. pb_plane r = p \<and> map_of (fold (\<lambda>r. dput (plane_value (pb_plane r)) (pb_dataset_id r, pb_credential_id r)) rows d)
      (plane_value p) = Some (pb_dataset_id r, pb_credential_id r)"
  using assms
proof (induction rows rule: rev_induct)
  case (snoc x rows)
  show ?case
  proof (cases "pb_plane x = p")
    case True
    then show ?thesis by auto
  next
    case False
    with snoc.prems snoc.IH show ?thesis by (auto simp: plane_value_inj)
  qed
qed simp

text \<open>Training promotion is fail-closed: it is authorised exactly when every plane is bound, no two bindings share a
  dataset or a credential, no reward hack was seen, the held-out regression and the canary passed
  and an approval was given; the authorisation names that approval and, for each plane, a binding given for it.\<close>

theorem training_promotion_gate:
  "((\<exists>a. authorize_training_promotion rows held_out canary approval hacks = Inr a) \<longleftrightarrow>
     (\<forall>p. p \<in> set (map pb_plane rows)) \<and> distinct (map pb_dataset_id rows) \<and> distinct (map pb_credential_id rows)
     \<and> hacks = 0 \<and> held_out \<and> canary \<and> approval \<notin> {None, Some []})
   \<and> (\<forall>a. authorize_training_promotion rows held_out canary approval hacks = Inr a \<longrightarrow> approval = Some (ta_approval a)
     \<and> (\<forall>p. \<exists>r \<in> set rows. pb_plane r = p \<and> map_of (ta_planes a) (plane_value p) = Some (pb_dataset_id r, pb_credential_id r)))"
proof -
  have planes: "set (map pb_plane rows) = set [PlaneTrain, PlaneEval, PlaneProd] \<longleftrightarrow> (\<forall>p. p \<in> set (map pb_plane rows))"
    using set_planes by blast
  have checks: "authorize_training_promotion rows held_out canary approval hacks = Inr a \<longleftrightarrow>
     (\<forall>p. p \<in> set (map pb_plane rows)) \<and> distinct (map pb_dataset_id rows) \<and> distinct (map pb_credential_id rows)
     \<and> hacks = 0 \<and> held_out \<and> canary \<and> (\<exists>x. approval = Some x \<and> x \<noteq> [] \<and> a = \<lparr>ta_approval = x,
         ta_planes = fold (\<lambda>r. dput (plane_value (pb_plane r)) (pb_dataset_id r, pb_credential_id r)) rows []\<rparr>)" for a
    unfolding authorize_training_promotion_def planes [symmetric]
    using remdups_full [of "map pb_dataset_id rows"] remdups_full [of "map pb_credential_id rows"]
    by (auto split: option.splits simp del: set_map list.set)
  have "\<exists>r \<in> set rows. pb_plane r = p \<and> map_of (fold (\<lambda>r. dput (plane_value (pb_plane r)) (pb_dataset_id r, pb_credential_id r)) rows [])
      (plane_value p) = Some (pb_dataset_id r, pb_credential_id r)" if "p \<in> set (map pb_plane rows)" for p
    using that by (intro last_binding) auto
  then show ?thesis unfolding checks by (cases approval) auto
qed

definition demo_bindings :: "PlaneBinding list" where
  "demo_bindings = [\<lparr>pb_plane = PlaneTrain, pb_dataset_id = ''d1'', pb_credential_id = ''c1''\<rparr>,
     \<lparr>pb_plane = PlaneEval, pb_dataset_id = ''d2'', pb_credential_id = ''c2''\<rparr>,
     \<lparr>pb_plane = PlaneProd, pb_dataset_id = ''d3'', pb_credential_id = ''c3''\<rparr>]"

theorem training_promotion_gate_witness:
  "\<exists>a. authorize_training_promotion demo_bindings True True (Some ''ok'') 0 = Inr a \<and> ta_approval a = ''ok''"
proof -
  have "p \<in> set (map pb_plane demo_bindings)" for p by (cases p) (simp_all add: demo_bindings_def)
  moreover have "distinct (map pb_dataset_id demo_bindings)" "distinct (map pb_credential_id demo_bindings)"
    by (simp_all add: demo_bindings_def)
  ultimately obtain a where "authorize_training_promotion demo_bindings True True (Some ''ok'') 0 = Inr a"
    using training_promotion_gate [of demo_bindings True True "Some ''ok''" 0] by blast
  with training_promotion_gate [of demo_bindings True True "Some ''ok''" 0] show ?thesis by auto
qed

text \<open>Only what the model itself produced becomes a training target.\<close>

lemma export_rl_trace_targets:
  assumes "export_rl_trace steps = Inr records"
  shows "map fst records = steps" and "records \<noteq> []"
    and "(s, use) \<in> set records \<Longrightarrow> (use = ''rl'' \<longleftrightarrow> ts_kind s \<in> {''assistant'', ''action''})
      \<and> length (ts_token_ids s) = length (ts_logprobs s) \<and> ts_model s \<noteq> []"
proof -
  from assms have r: "rmap export_step steps = Inr records" and ne: "records \<noteq> []" by (auto simp: export_rl_trace_def)
  show "records \<noteq> []" by (rule ne)
  have step: "export_step t = Inr x \<Longrightarrow> fst x = t" for t x by (auto simp: export_step_def)
  have "rmap export_step ts = Inr rs \<Longrightarrow> map fst rs = ts" for ts rs
    by (induction ts arbitrary: rs) (auto dest: step)
  with r show "map fst records = steps" by blast
  show "(use = ''rl'' \<longleftrightarrow> ts_kind s \<in> {''assistant'', ''action''}) \<and> length (ts_token_ids s) = length (ts_logprobs s) \<and> ts_model s \<noteq> []"
    if "(s, use) \<in> set records"
  proof -
    from that rmap_set [OF r] obtain t where "export_step t = Inr (s, use)" by blast
    then show ?thesis by (auto simp: export_step_def)
  qed
qed

end
