(* ===== verification/Paths.thy ===== *)
theory Paths
  imports Prelude
begin

text \<open>
  Repository-relative path scopes: what \<open>_validate_relative_path\<close> and \<open>_paths_overlap\<close> of
  \<open>src/skharness/arena/swarm.py\<close> use of \<open>pathlib.PurePosixPath\<close>. A path is its root (empty, one slash
  or exactly two slashes) and its components, without empty and \<open>.\<close> components.
\<close>

fun split_slash :: "string \<Rightarrow> string list" where
  "split_slash [] = [[]]"
| "split_slash (c # cs) =
     (if c = CHR ''/'' then [] # split_slash cs
      else (case split_slash cs of [] \<Rightarrow> [[c]] | p # ps \<Rightarrow> (c # p) # ps))"

definition path_root :: "string \<Rightarrow> string" where
  "path_root s = (if prefix ''//'' s \<and> \<not> prefix ''///'' s then ''//''
     else if prefix ''/'' s then ''/'' else [])"

definition path_parts :: "string \<Rightarrow> string list" where
  "path_parts s = filter (\<lambda>p. p \<noteq> [] \<and> p \<noteq> ''.'') (split_slash s)"

definition is_absolute :: "string \<Rightarrow> bool" where
  "is_absolute s = (path_root s \<noteq> [])"

definition as_posix :: "string \<Rightarrow> string" where
  "as_posix s = (if path_root s = [] \<and> path_parts s = [] then ''.''
     else path_root s @ py_join ''/'' (path_parts s))"

definition validate_relative_path :: "string \<Rightarrow> unit result" where
  "validate_relative_path value =
     check [(is_absolute value \<or> value \<noteq> as_posix value \<or> ''..'' \<in> set (path_parts value) \<or> value \<in> {[], ''.''},
        ValueError ''path scopes must be normalized repository-relative paths'')] (Inr ())"

text \<open>\<open>p in q.parents\<close>: the parents of a path are its roots with every proper prefix of its components.\<close>

definition in_parents :: "string \<Rightarrow> string \<Rightarrow> bool" where
  "in_parents p q = (path_root p = path_root q \<and> strict_prefix (path_parts p) (path_parts q))"

definition path_eq :: "string \<Rightarrow> string \<Rightarrow> bool" where
  "path_eq p q = (path_root p = path_root q \<and> path_parts p = path_parts q)"

definition paths_overlap :: "string \<Rightarrow> string \<Rightarrow> bool" where
  "paths_overlap l r = (path_eq l r \<or> in_parents l r \<or> in_parents r l)"

section \<open>Normalized scopes\<close>

text \<open>A component: not empty, no slash, neither \<open>.\<close> nor \<open>..\<close>.\<close>

definition component :: "string \<Rightarrow> bool" where
  "component p \<longleftrightarrow> p \<noteq> [] \<and> CHR ''/'' \<notin> set p \<and> p \<noteq> ''.'' \<and> p \<noteq> ''..''"

lemma split_slash_nonempty [simp]: "split_slash s \<noteq> []"
  by (induction s) (auto split: list.splits)

lemma split_slash_no_slash: "p \<in> set (split_slash s) \<Longrightarrow> CHR ''/'' \<notin> set p"
  by (induction s arbitrary: p) (auto split: list.splits if_splits)

lemma split_slash_single: "CHR ''/'' \<notin> set p \<Longrightarrow> split_slash p = [p]"
  by (induction p) auto

lemma split_slash_append:
  "CHR ''/'' \<notin> set p \<Longrightarrow> split_slash (p @ CHR ''/'' # s) = p # split_slash s"
  by (induction p) auto

lemma split_slash_join:
  "ps \<noteq> [] \<Longrightarrow> \<forall>p \<in> set ps. CHR ''/'' \<notin> set p \<Longrightarrow> split_slash (py_join ''/'' ps) = ps"
proof (induction "''/''" ps rule: py_join.induct)
  case (3 s t ss)
  then show ?case using split_slash_append [of s "py_join ''/'' (t # ss)"] by simp
qed (auto simp: split_slash_single)

lemma path_parts_join: "ps \<noteq> [] \<Longrightarrow> \<forall>p \<in> set ps. component p \<Longrightarrow> path_parts (py_join ''/'' ps) = ps"
  by (simp add: path_parts_def split_slash_join component_def)

lemma py_join_first: "py_join ''/'' (p # ps) = p @ (if ps = [] then [] else CHR ''/'' # py_join ''/'' ps)"
  by (cases ps) auto

lemma path_root_join:
  assumes "\<forall>p \<in> set ps. component p"
  shows "path_root (py_join ''/'' ps) = []"
proof (cases ps)
  case (Cons p qs)
  with assms obtain c cs where "p = c # cs" "c \<noteq> CHR ''/''" by (cases p) (auto simp: component_def)
  with Cons show ?thesis by (simp add: path_root_def py_join_first)
qed (simp add: path_root_def)

text \<open>A valid scope is exactly a non-empty list of components joined by slashes.\<close>

lemma validate_relative_path_iff:
  "validate_relative_path v = Inr () \<longleftrightarrow>
     (\<exists>ps. ps \<noteq> [] \<and> (\<forall>p \<in> set ps. component p) \<and> v = py_join ''/'' ps)"
proof
  assume ok: "validate_relative_path v = Inr ()"
  then have v: "v = as_posix v" and r: "path_root v = []" and d: "''..'' \<notin> set (path_parts v)" and n: "v \<noteq> ''.''"
    by (simp_all add: validate_relative_path_def is_absolute_def)
  from v r n have ne: "path_parts v \<noteq> []" and j: "v = py_join ''/'' (path_parts v)"
    by (auto simp: as_posix_def split: if_splits)
  have "component p" if "p \<in> set (path_parts v)" for p
    using that d by (auto simp: path_parts_def component_def dest: split_slash_no_slash)
  with ne j show "\<exists>ps. ps \<noteq> [] \<and> (\<forall>p \<in> set ps. component p) \<and> v = py_join ''/'' ps" by blast
next
  assume "\<exists>ps. ps \<noteq> [] \<and> (\<forall>p \<in> set ps. component p) \<and> v = py_join ''/'' ps"
  then obtain ps where ps: "ps \<noteq> []" "\<forall>p \<in> set ps. component p" and v: "v = py_join ''/'' ps" by blast
  have parts: "path_parts v = ps" and root: "path_root v = []"
    using path_parts_join [OF ps] path_root_join [OF ps(2)] v by simp_all
  then have "v \<noteq> []" "v \<noteq> ''.''" using ps(1) by (auto simp: path_parts_def)
  moreover have "''..'' \<notin> set ps" using ps(2) by (auto simp: component_def)
  ultimately show "validate_relative_path v = Inr ()"
    using parts root ps(1) v by (simp add: validate_relative_path_def is_absolute_def as_posix_def)
qed

lemma paths_overlap_sym: "paths_overlap l r = paths_overlap r l"
  by (auto simp: paths_overlap_def path_eq_def)

lemma paths_overlap_parts:
  "path_root l = path_root r \<Longrightarrow> paths_overlap l r \<longleftrightarrow> prefix (path_parts l) (path_parts r) \<or> prefix (path_parts r) (path_parts l)"
  by (auto simp: paths_overlap_def path_eq_def in_parents_def strict_prefix_def)

text \<open>\<open>covers scope f\<close>: the file \<open>f\<close>, a list of components, is the scope or lies below it.\<close>

definition covers :: "string \<Rightarrow> string list \<Rightarrow> bool" where
  "covers scope f = prefix (path_parts scope) f"

lemma valid_root: "validate_relative_path v = Inr () \<Longrightarrow> path_root v = []"
  by (auto simp: validate_relative_path_iff path_root_join)

text \<open>Overlap means a shared file: two valid scopes overlap exactly when some path lies in both.\<close>

theorem paths_overlap_iff_shared:
  assumes "validate_relative_path l = Inr ()" and "validate_relative_path r = Inr ()"
  shows "paths_overlap l r \<longleftrightarrow> (\<exists>f. covers l f \<and> covers r f)"
proof -
  have "paths_overlap l r \<longleftrightarrow> prefix (path_parts l) (path_parts r) \<or> prefix (path_parts r) (path_parts l)"
    by (rule paths_overlap_parts) (simp add: assms valid_root)
  also have "\<dots> \<longleftrightarrow> (\<exists>f. covers l f \<and> covers r f)"
    unfolding covers_def using prefix_same_cases by (meson prefix_order.refl)
  finally show ?thesis .
qed

theorem paths_overlap_iff_shared_witness:
  "paths_overlap ''src/a'' ''src/a/b'' \<and> \<not> paths_overlap ''src/a'' ''src/ab''
   \<and> (\<exists>f. covers ''src/a'' f \<and> covers ''src/a/b'' f) \<and> \<not> (\<exists>f. covers ''src/a'' f \<and> covers ''src/ab'' f)"
proof -
  have v: "validate_relative_path ''src/a'' = Inr ()" "validate_relative_path ''src/a/b'' = Inr ()"
    "validate_relative_path ''src/ab'' = Inr ()" by code_simp+
  have "paths_overlap ''src/a'' ''src/a/b''" "\<not> paths_overlap ''src/a'' ''src/ab''" by code_simp+
  with paths_overlap_iff_shared [OF v(1,2)] paths_overlap_iff_shared [OF v(1,3)] show ?thesis by blast
qed

end
