(* ===== verification/Swarm.thy ===== *)
theory Swarm
  imports Paths
begin

text \<open>
  The immutable contracts of a swarm (\<open>src/skharness/arena/swarm.py\<close>): identities, plans, phase
  inputs, subagent contracts and results, controller receipts and authorizations, and parent-child
  messages. Constructing a model runs its validators: \<open>mk_\<dots>\<close> returns the record or the exception of
  the first failing check. The content hashes (\<open>canonical_digest\<close>) are the fields of a parameter of
  type \<open>hashes\<close>. A default \<open>datetime.now()\<close> is the argument in its place.
\<close>

section \<open>Shared checks\<close>

text \<open>\<open>_DIGEST_RE.fullmatch\<close> and \<open>_COMMIT_RE.fullmatch\<close>.\<close>

definition digest_re :: "string \<Rightarrow> bool" where
  "digest_re d = (prefix ''sha256:'' d \<and> length d = 71 \<and> list_all hex_char (drop 7 d))"

definition commit_re :: "string \<Rightarrow> bool" where
  "commit_re c = ((length c = 40 \<or> length c = 64) \<and> list_all hex_char c)"

definition require_unique :: "string list \<Rightarrow> string \<Rightarrow> (bool \<times> exn) list" where
  "require_unique items field =
     [(list_ex blank items, ValueError (field @ '' entries must not be empty'')),
      (\<not> distinct items, ValueError (field @ '' entries must be unique''))]"

definition require_aware :: "datetime \<Rightarrow> string \<Rightarrow> bool \<times> exn" where
  "require_aware v field = (\<not> dt_aware v, ValueError (field @ '' must be timezone-aware''))"

text \<open>\<open>str.casefold\<close> below 256, where it differs from \<open>lower\<close> on the sharp s only (and on the micro
  sign, whose folding is outside the range).\<close>

definition py_casefold :: "string \<Rightarrow> string" where
  "py_casefold s = concat (map (\<lambda>c. if (of_char c :: nat) = 223 then ''ss'' else [py_lower_char c]) s)"

section \<open>Roles and evidence\<close>

datatype SwarmRole = ORCHESTRATOR | SCOUT | BUILDER | TESTER | VERIFIER

datatype SubagentDisposition = COMPLETED | BLOCKED | NEEDS_INPUT | FAILED

datatype ScoutAssessment = ACTIONABLE | NO_ACTION | SA_BLOCKED | SA_NEEDS_INPUT

record ScoutFinding =
  sf_path :: string
  sf_line :: "int option"
  sf_detail :: string
  sf_digest :: string

record SwarmIdentity =
  id_card_id :: string
  id_card_hash :: string
  id_base_commit :: string
  id_evidence_id :: string
  id_trajectory_id :: string

record ExecutionBudget =
  eb_wall_seconds :: real
  eb_token_limit :: int
  eb_tool_call_limit :: int
  eb_cost_limit :: real

record TeamBudget =
  tb_team_id :: string
  tb_wall_seconds :: real
  tb_token_limit :: int
  tb_tool_call_limit :: int
  tb_cost_limit :: real
  tb_max_concurrency :: int

record BudgetUsage =
  bu_wall_seconds :: real
  bu_tokens :: int
  bu_tool_calls :: int
  bu_cost :: real

record SwarmPhaseSpec =
  phase_id :: string
  phase_role :: SwarmRole
  contract_ids :: "string list"
  predecessor_phase_ids :: "string list"

record SwarmPlan =
  plan_id :: string
  plan_identity :: SwarmIdentity
  phases :: "SwarmPhaseSpec list"
  plan_created_at :: datetime

record PhaseInput =
  source_phase_id :: string
  source_contract_id :: string
  source_contract_hash :: string
  source_role :: SwarmRole
  source_receipt_hash :: string
  source_result_hash :: string
  pi_identity_hash :: string
  pi_evidence_refs :: "string list"
  pi_scout_findings :: "ScoutFinding list"
  pi_output_commit :: string

record SubagentContract =
  contract_id :: string
  team_id :: string
  identity :: SwarmIdentity
  plan_hash :: string
  c_phase_id :: string
  parent_agent_id :: string
  child_agent_id :: string
  role :: SwarmRole
  task :: string
  readable_paths :: "string list"
  writable_paths :: "string list"
  protected_paths :: "string list"
  tool_allowlist :: "string list"
  budget :: ExecutionBudget
  c_lease_id :: string
  worktree_id :: string
  issued_at :: datetime
  phase_inputs :: "PhaseInput list"
  inputs_bound_at :: "datetime option"

record SubagentResult =
  r_contract_id :: string
  r_contract_hash :: string
  r_identity :: SwarmIdentity
  r_plan_hash :: string
  r_phase_id :: string
  r_lease_id :: string
  r_agent_id :: string
  r_role :: SwarmRole
  r_disposition :: SubagentDisposition
  r_summary :: string
  r_reason_codes :: "string list"
  r_evidence_refs :: "string list"
  r_observed_commit :: "string option"
  r_scout_assessment :: "ScoutAssessment option"
  r_scout_findings :: "ScoutFinding list"
  r_controller_terminal_reason :: "string option"
  r_started_at :: datetime
  r_finished_at :: datetime

record PhaseReceipt =
  receipt_id :: string
  rc_plan_hash :: string
  rc_identity_hash :: string
  rc_phase_id :: string
  rc_contract_id :: string
  rc_contract_hash :: string
  rc_lease_id :: string
  rc_role :: SwarmRole
  rc_result_hash :: string
  rc_disposition :: SubagentDisposition
  rc_scout_assessment :: "ScoutAssessment option"
  rc_predecessor_receipt_hashes :: "string list"
  rc_evidence_refs :: "string list"
  rc_scout_findings :: "ScoutFinding list"
  rc_input_commit :: string
  rc_output_commit :: string
  rc_result_finished_at :: datetime
  rc_recorded_at :: datetime

record PhaseAuthorization =
  authorization_id :: string
  au_plan_hash :: string
  au_identity_hash :: string
  au_phase_id :: string
  au_contract_id :: string
  au_contract_hash :: string
  au_lease_id :: string
  au_predecessor_receipt_hashes :: "string list"
  au_input_result_hashes :: "string list"
  au_input_evidence_refs :: "string list"
  au_input_commit :: string
  authorized_by :: string
  authorized_at :: datetime

datatype A2AEventKind = ASSIGNMENT | PROGRESS | QUESTION | RESPONSE | CANCELLATION | RESULT

record A2AEvent =
  a2a_event_id :: string
  a2a_contract_id :: string
  a2a_contract_hash :: string
  a2a_identity :: SwarmIdentity
  a2a_parent_agent_id :: string
  a2a_child_agent_id :: string
  sender_agent_id :: string
  recipient_agent_id :: string
  a2a_kind :: A2AEventKind
  a2a_sequence :: int
  a2a_body :: string
  a2a_created_at :: datetime
  prior_event_id :: "string option"
  a2a_payload :: payload

text \<open>\<open>canonical_digest\<close> on each type it is used on.\<close>

record hashes =
  h_identity :: "SwarmIdentity \<Rightarrow> string"
  h_plan :: "SwarmPlan \<Rightarrow> string"
  h_contract :: "SubagentContract \<Rightarrow> string"
  h_result :: "SubagentResult \<Rightarrow> string"
  h_receipt :: "PhaseReceipt \<Rightarrow> string"
  h_authorization :: "PhaseAuthorization \<Rightarrow> string"
  h_finding :: "string \<times> int option \<times> string \<Rightarrow> string"

section \<open>Constructors\<close>

definition validate_finding :: "hashes \<Rightarrow> ScoutFinding \<Rightarrow> ScoutFinding result" where
  "validate_finding H f =
     check [(case sf_line f of None \<Rightarrow> False | Some n \<Rightarrow> n < 1, ValueError ''line must be at least 1''),
            (length (sf_detail f) < 12 \<or> 500 < length (sf_detail f), ValueError ''detail must have 12 to 500 characters'')]
     (rbind (validate_relative_path (sf_path f)) (\<lambda>_.
       let lowered = py_casefold (sf_detail f) in check
        [(sf_detail f \<noteq> py_strip (sf_detail f) \<or> char_of (10 :: nat) \<in> set (sf_detail f) \<or> char_of (13 :: nat) \<in> set (sf_detail f),
            ValueError ''scout finding detail must be one normalized line''),
         (lowered \<in> set [''placeholder'', ''unknown'', ''none'', ''n/a'', ''todo'', ''tbd'']
            \<or> list_ex (\<lambda>w. py_in w lowered) [''lorem ipsum'', ''fill this'', ''placeholder''],
            ValueError ''scout finding detail must not be placeholder prose''),
         (sf_digest f \<noteq> h_finding H (sf_path f, sf_line f, sf_detail f),
            ValueError ''scout finding digest does not match its typed content'')] (Inr f)))"

definition create_finding :: "hashes \<Rightarrow> string \<Rightarrow> int option \<Rightarrow> string \<Rightarrow> ScoutFinding result" where
  "create_finding H path line detail = validate_finding H
     \<lparr>sf_path = path, sf_line = line, sf_detail = detail, sf_digest = h_finding H (path, line, detail)\<rparr>"

definition validate_identity :: "SwarmIdentity \<Rightarrow> SwarmIdentity result" where
  "validate_identity i = check
     [(blank (id_card_id i) \<or> list_ex py_isspace (id_card_id i),
         ValueError ''card_id must be a non-empty opaque ID without whitespace''),
      (\<not> digest_re (id_card_hash i), ValueError ''card_hash must bind immutable card content with sha256''),
      (\<not> commit_re (id_base_commit i), ValueError ''base_commit must be a full lowercase Git object ID''),
      (\<not> digest_re (id_evidence_id i), ValueError ''evidence_id must be a lowercase sha256 digest''),
      (blank (id_trajectory_id i) \<or> list_ex py_isspace (id_trajectory_id i),
         ValueError ''trajectory_id must be a non-empty opaque ID without whitespace'')] (Inr i)"

definition mk_ExecutionBudget :: "ExecutionBudget \<Rightarrow> ExecutionBudget result" where
  "mk_ExecutionBudget b = check
     [(eb_wall_seconds b \<le> 0, ValueError ''wall_seconds must be greater than 0''),
      (eb_token_limit b \<le> 0, ValueError ''token_limit must be greater than 0''),
      (eb_tool_call_limit b \<le> 0, ValueError ''tool_call_limit must be greater than 0''),
      (eb_cost_limit b < 0, ValueError ''cost_limit must be greater than or equal to 0'')] (Inr b)"

definition mk_TeamBudget :: "TeamBudget \<Rightarrow> TeamBudget result" where
  "mk_TeamBudget b = check
     [(tb_wall_seconds b \<le> 0, ValueError ''wall_seconds must be greater than 0''),
      (tb_token_limit b \<le> 0, ValueError ''token_limit must be greater than 0''),
      (tb_tool_call_limit b \<le> 0, ValueError ''tool_call_limit must be greater than 0''),
      (tb_cost_limit b < 0, ValueError ''cost_limit must be greater than or equal to 0''),
      (tb_max_concurrency b \<le> 0, ValueError ''max_concurrency must be greater than 0''),
      (blank (tb_team_id b), ValueError ''team_id must not be empty'')] (Inr b)"

definition mk_BudgetUsage :: "BudgetUsage \<Rightarrow> BudgetUsage result" where
  "mk_BudgetUsage u = check
     [(bu_wall_seconds u < 0, ValueError ''wall_seconds must be greater than or equal to 0''),
      (bu_tokens u < 0, ValueError ''tokens must be greater than or equal to 0''),
      (bu_tool_calls u < 0, ValueError ''tool_calls must be greater than or equal to 0''),
      (bu_cost u < 0, ValueError ''cost must be greater than or equal to 0'')] (Inr u)"

definition usage_plus :: "BudgetUsage \<Rightarrow> BudgetUsage \<Rightarrow> BudgetUsage result" where
  "usage_plus a b = mk_BudgetUsage
     \<lparr>bu_wall_seconds = bu_wall_seconds a + bu_wall_seconds b, bu_tokens = bu_tokens a + bu_tokens b,
      bu_tool_calls = bu_tool_calls a + bu_tool_calls b, bu_cost = bu_cost a + bu_cost b\<rparr>"

definition validate_phase :: "SwarmPhaseSpec \<Rightarrow> SwarmPhaseSpec result" where
  "validate_phase p = check
     ([(blank (phase_id p), ValueError ''phase_id must not be empty''),
       (phase_role p \<in> {ORCHESTRATOR, VERIFIER}, ValueError ''swarm plans contain worker phases, not authority roles'')]
      @ require_unique (contract_ids p) ''contract_ids''
      @ require_unique (predecessor_phase_ids p) ''predecessor_phase_ids''
      @ [(contract_ids p = [], ValueError ''every planned phase requires at least one exact contract ID''),
         (phase_id p \<in> set (predecessor_phase_ids p), ValueError ''a phase cannot depend on itself''),
         (phase_role p = SCOUT \<and> predecessor_phase_ids p \<noteq> [], ValueError ''scout phases must be roots'')]) (Inr p)"

text \<open>One iteration of the loop of \<open>validate_dag\<close>, over the phases \<open>seen\<close> so far.\<close>

definition validate_dag_phase :: "SwarmPhaseSpec \<Rightarrow> (string \<times> SwarmPhaseSpec) list
    \<Rightarrow> (string \<times> SwarmPhaseSpec) list result" where
  "validate_dag_phase p seen =
     (let predecessor_roles = map (\<lambda>i. map_option phase_role (map_of seen i)) (predecessor_phase_ids p)
      in check
       [(\<not> set (predecessor_phase_ids p) \<subseteq> set (keys seen),
           ValueError ''predecessors must exist earlier in topological plan order''),
        (phase_role p = BUILDER \<and> set predecessor_roles - {Some SCOUT} \<noteq> {},
           ValueError ''builder phases may depend only on scout phases''),
        (phase_role p = TESTER \<and> set predecessor_roles \<noteq> {Some BUILDER},
           ValueError ''tester phases require builder predecessors'')]
       (Inr (dput (phase_id p) p seen)))"

definition validate_dag :: "SwarmPlan \<Rightarrow> SwarmPlan result" where
  "validate_dag pl = check
     [(blank (plan_id pl) \<or> phases pl = [], ValueError ''a swarm plan requires an ID and at least one phase''),
      require_aware (plan_created_at pl) ''created_at'',
      (\<not> distinct (map phase_id (phases pl)), ValueError ''planned phase IDs must be unique''),
      (\<not> distinct (concat (map contract_ids (phases pl))), ValueError ''a contract ID may appear in exactly one planned phase'')]
     (rbind (rfold validate_dag_phase (phases pl) []) (\<lambda>_. Inr pl))"

definition mk_SwarmPlan :: "SwarmPlan \<Rightarrow> SwarmPlan result" where
  "mk_SwarmPlan pl = rbind (validate_identity (plan_identity pl)) (\<lambda>_.
     rbind (rmap validate_phase (phases pl)) (\<lambda>_. validate_dag pl))"

definition phase :: "SwarmPlan \<Rightarrow> string \<Rightarrow> SwarmPhaseSpec result" where
  "phase pl i = (case filter (\<lambda>p. phase_id p = i) (phases pl) of
     [p] \<Rightarrow> Inr p | _ \<Rightarrow> Inl (SwarmContractError ''phase is not present exactly once in plan''))"

text \<open>The checks on findings that phase inputs and receipts share.\<close>

definition finding_checks :: "SwarmRole \<Rightarrow> ScoutFinding list \<Rightarrow> string list \<Rightarrow> (bool \<times> exn) list" where
  "finding_checks r fs refs =
     [(\<not> distinct (map sf_digest fs), ValueError ''scout findings must be unique''),
      (r \<noteq> SCOUT \<and> fs \<noteq> [], ValueError ''only scouts may carry scout findings''),
      (\<not> set (map sf_digest fs) \<subseteq> set refs, ValueError ''scout finding digests must remain in evidence'')]"

definition validate_input :: "PhaseInput \<Rightarrow> PhaseInput result" where
  "validate_input i = check
     ([(blank (source_phase_id i) \<or> blank (source_contract_id i), ValueError ''phase input source IDs must not be empty'')]
      @ map (\<lambda>(n, v). (\<not> digest_re v, ValueError (n @ '' must be an immutable sha256 digest'')))
          [(''source_contract_hash'', source_contract_hash i), (''source_receipt_hash'', source_receipt_hash i),
           (''source_result_hash'', source_result_hash i), (''identity_hash'', pi_identity_hash i)]
      @ require_unique (pi_evidence_refs i) ''evidence_refs''
      @ [(pi_evidence_refs i = [] \<or> list_ex (\<lambda>e. \<not> digest_re e) (pi_evidence_refs i),
            ValueError ''phase inputs require immutable evidence refs''),
         (\<not> commit_re (pi_output_commit i), ValueError ''phase input output_commit must be a full Git object ID'')]
      @ finding_checks (source_role i) (pi_scout_findings i) (pi_evidence_refs i)) (Inr i)"

definition from_receipt :: "hashes \<Rightarrow> PhaseReceipt \<Rightarrow> PhaseInput result" where
  "from_receipt H r = validate_input
     \<lparr>source_phase_id = rc_phase_id r, source_contract_id = rc_contract_id r,
      source_contract_hash = rc_contract_hash r, source_role = rc_role r,
      source_receipt_hash = h_receipt H r, source_result_hash = rc_result_hash r,
      pi_identity_hash = rc_identity_hash r, pi_evidence_refs = rc_evidence_refs r,
      pi_scout_findings = rc_scout_findings r, pi_output_commit = rc_output_commit r\<rparr>"

definition validate_scope :: "hashes \<Rightarrow> SubagentContract \<Rightarrow> SubagentContract result" where
  "validate_scope H c = check
     ([(list_ex blank [contract_id c, team_id c, c_phase_id c, parent_agent_id c, child_agent_id c, task c,
            c_lease_id c, worktree_id c], ValueError ''swarm contract identifiers and task must not be empty''),
       (parent_agent_id c = child_agent_id c, ValueError ''parent and child agent identities must be distinct''),
       (\<not> digest_re (plan_hash c), ValueError ''plan_hash must bind an immutable swarm plan''),
       require_aware (issued_at c) ''issued_at'',
       (role c = ORCHESTRATOR, ValueError ''an orchestrator cannot be assigned as a child role''),
       (readable_paths c = [], ValueError ''a child requires an explicit readable path scope''),
       (tool_allowlist c = [], ValueError ''a child requires an explicit tool allowlist'')]
      @ require_unique (readable_paths c) ''readable_paths'' @ require_unique (writable_paths c) ''writable_paths''
      @ require_unique (protected_paths c) ''protected_paths'' @ require_unique (tool_allowlist c) ''tool_allowlist'')
     (rbind (rmap validate_relative_path (readable_paths c @ writable_paths c @ protected_paths c)) (\<lambda>_. check
       [(role c = BUILDER \<and> writable_paths c = [], ValueError ''builder contracts require declared writable paths''),
        (role c \<in> {SCOUT, TESTER, VERIFIER} \<and> writable_paths c \<noteq> [], ValueError ''contracts of this role must be read-only''),
        (list_ex (\<lambda>w. list_ex (paths_overlap w) (protected_paths c)) (writable_paths c),
           ValueError ''writable and protected path scopes must not overlap''),
        (\<not> distinct (map source_contract_id (phase_inputs c)) \<or> \<not> distinct (map source_receipt_hash (phase_inputs c)),
           ValueError ''phase inputs must uniquely identify upstream results''),
        (phase_inputs c \<noteq> [] \<and> inputs_bound_at c = None, ValueError ''downstream phase inputs require a binding timestamp''),
        (phase_inputs c = [] \<and> inputs_bound_at c \<noteq> None, ValueError ''root contracts cannot claim an input binding timestamp''),
        (case inputs_bound_at c of None \<Rightarrow> False | Some t \<Rightarrow> \<not> dt_aware t, ValueError ''inputs_bound_at must be timezone-aware''),
        (list_ex (\<lambda>i. pi_identity_hash i \<noteq> h_identity H (identity c)) (phase_inputs c),
           ValueError ''phase inputs must share the exact swarm identity'')] (Inr c)))"

definition input_result_hashes :: "SubagentContract \<Rightarrow> string list" where
  "input_result_hashes c = map source_result_hash (phase_inputs c)"

definition input_evidence_refs :: "SubagentContract \<Rightarrow> string list" where
  "input_evidence_refs c = sort (remdups (concat (map pi_evidence_refs (phase_inputs c))))"

section \<open>Results, receipts and authorizations\<close>

fun assessment_dispositions :: "ScoutAssessment \<Rightarrow> SubagentDisposition set" where
  "assessment_dispositions ACTIONABLE = {COMPLETED}"
| "assessment_dispositions NO_ACTION = {COMPLETED}"
| "assessment_dispositions SA_BLOCKED = {BLOCKED}"
| "assessment_dispositions SA_NEEDS_INPUT = {NEEDS_INPUT}"

text \<open>The scout part of \<open>validate_result\<close>.\<close>

definition scout_checks :: "SubagentResult \<Rightarrow> (bool \<times> exn) list" where
  "scout_checks r =
     (if r_role r = SCOUT then
        (case r_scout_assessment r of
           None \<Rightarrow> [(True, ValueError ''scout results require a typed assessment'')]
         | Some a \<Rightarrow>
             (let failed_blocked = (a = SA_BLOCKED \<and> r_disposition r = FAILED);
                  budget_failure = (failed_blocked \<and> ''budget_exceeded'' \<in> set (r_reason_codes r));
                  controller_failure = (failed_blocked \<and> r_controller_terminal_reason r \<noteq> None)
              in [(r_disposition r \<notin> assessment_dispositions a \<and> \<not> budget_failure \<and> \<not> controller_failure,
                     ValueError ''scout assessment conflicts with its structured disposition''),
                  (\<not> distinct (map sf_digest (r_scout_findings r)), ValueError ''scout findings must be unique''),
                  (\<not> set (map sf_digest (r_scout_findings r)) \<subseteq> set (r_evidence_refs r),
                     ValueError ''scout finding digests must be retained as result evidence''),
                  (a \<in> {ACTIONABLE, NO_ACTION} \<and> r_scout_findings r = [],
                     ValueError ''positive scout assessments require typed path findings'')]))
      else [(r_scout_assessment r \<noteq> None \<or> r_scout_findings r \<noteq> [],
               ValueError ''only scout results may carry scout assessment evidence'')])"

definition validate_result :: "SubagentResult \<Rightarrow> SubagentResult result" where
  "validate_result r = check
     [(list_ex blank [r_contract_id r, r_phase_id r, r_lease_id r, r_agent_id r, r_summary r],
         ValueError ''result contract, agent, and summary must not be empty''),
      (\<not> digest_re (r_contract_hash r), ValueError ''contract_hash must be a lowercase sha256 digest''),
      (\<not> digest_re (r_plan_hash r), ValueError ''plan_hash must bind an immutable swarm plan''),
      (r_role r = ORCHESTRATOR, ValueError ''orchestrators do not produce subagent results'')]
     (rbind (dt_less (r_finished_at r) (r_started_at r)) (\<lambda>early. check
       ([(early, ValueError ''finished_at cannot precede started_at'')]
        @ require_unique (r_reason_codes r) ''reason_codes'' @ require_unique (r_evidence_refs r) ''evidence_refs''
        @ [(list_ex (\<lambda>e. \<not> digest_re e) (r_evidence_refs r), ValueError ''evidence_refs must contain lowercase sha256 digests''),
           (r_disposition r = COMPLETED \<and> r_evidence_refs r = [], ValueError ''completed child results require immutable evidence''),
           (r_disposition r \<noteq> COMPLETED \<and> r_reason_codes r = [], ValueError ''non-completed child results require reason codes''),
           (case r_observed_commit r of None \<Rightarrow> False | Some c \<Rightarrow> \<not> commit_re c,
              ValueError ''observed_commit must be a full lowercase Git object ID''),
           (case r_controller_terminal_reason r of None \<Rightarrow> False
              | Some t \<Rightarrow> blank t \<or> r_disposition r \<noteq> FAILED \<or> t \<notin> set (r_reason_codes r),
              ValueError ''controller terminal reason requires a matching FAILED reason code''),
           (r_role r = BUILDER \<and> r_disposition r = COMPLETED \<and> r_observed_commit r = None,
              ValueError ''completed builder results require an observed commit'')]
        @ scout_checks r) (Inr r)))"

text \<open>\<open>SubagentResult.from_contract\<close>: the attribution fields come from the contract, the others from
  the caller (\<open>given\<close>).\<close>

definition result_from_contract :: "hashes \<Rightarrow> SubagentContract \<Rightarrow> SubagentResult \<Rightarrow> SubagentResult result" where
  "result_from_contract H c given = validate_result (given
     \<lparr>r_contract_id := contract_id c, r_contract_hash := h_contract H c, r_identity := identity c,
      r_plan_hash := plan_hash c, r_phase_id := c_phase_id c, r_lease_id := c_lease_id c,
      r_agent_id := child_agent_id c, r_role := role c\<rparr>)"

definition require_result_contract_binding :: "hashes \<Rightarrow> SubagentContract \<Rightarrow> SubagentResult \<Rightarrow> unit result" where
  "require_result_contract_binding H c r = check
     [((r_contract_id r, r_contract_hash r, r_identity r, r_plan_hash r, r_phase_id r, r_lease_id r, r_agent_id r, r_role r)
         \<noteq> (contract_id c, h_contract H c, identity c, plan_hash c, c_phase_id c, c_lease_id c, child_agent_id c, role c),
       SwarmContractError ''result is not bound to the exact phase contract'')] (Inr ())"

definition validate_receipt :: "PhaseReceipt \<Rightarrow> PhaseReceipt result" where
  "validate_receipt r = check
     ([(list_ex blank [receipt_id r, rc_phase_id r, rc_contract_id r, rc_lease_id r], ValueError ''phase receipt IDs must not be empty'')]
      @ map (\<lambda>(n, v). (\<not> digest_re v, ValueError (n @ '' must be an immutable sha256 digest'')))
          [(''plan_hash'', rc_plan_hash r), (''identity_hash'', rc_identity_hash r),
           (''contract_hash'', rc_contract_hash r), (''result_hash'', rc_result_hash r)]
      @ require_unique (rc_predecessor_receipt_hashes r) ''predecessor_receipt_hashes''
      @ require_unique (rc_evidence_refs r) ''evidence_refs''
      @ [(list_ex (\<lambda>e. \<not> digest_re e) (rc_predecessor_receipt_hashes r), ValueError ''predecessor receipts must be immutable sha256 digests''),
         (rc_evidence_refs r = [] \<or> list_ex (\<lambda>e. \<not> digest_re e) (rc_evidence_refs r),
            ValueError ''phase receipts require immutable result evidence''),
         (\<not> commit_re (rc_input_commit r) \<or> \<not> commit_re (rc_output_commit r), ValueError ''phase receipt commits must be full Git object IDs'')]
      @ finding_checks (rc_role r) (rc_scout_findings r) (rc_evidence_refs r)
      @ [require_aware (rc_result_finished_at r) ''result_finished_at'', require_aware (rc_recorded_at r) ''recorded_at''])
     (rbind (dt_less (rc_recorded_at r) (rc_result_finished_at r)) (\<lambda>early.
        check [(early, ValueError ''a phase receipt cannot predate its result'')] (Inr r)))"

text \<open>The phase inputs a set of predecessor receipts amounts to, in contract order.\<close>

definition inputs_of :: "hashes \<Rightarrow> PhaseReceipt list \<Rightarrow> PhaseInput list result" where
  "inputs_of H predecessors =
     rbind (rmap (from_receipt H) predecessors) (\<lambda>is. Inr (sort_key source_contract_id is))"

definition from_result :: "hashes \<Rightarrow> SubagentContract \<Rightarrow> SubagentResult \<Rightarrow> PhaseReceipt list \<Rightarrow> datetime
    \<Rightarrow> PhaseReceipt result" where
  "from_result H c r predecessors now =
     rbind (require_result_contract_binding H c r) (\<lambda>_.
     rbind (inputs_of H predecessors) (\<lambda>expected_inputs.
       let input_commits = remdups (map rc_output_commit predecessors);
           input_commit = (case input_commits of [] \<Rightarrow> id_base_commit (identity c) | x # _ \<Rightarrow> x);
           output_commit = (case r_observed_commit r of None \<Rightarrow> input_commit | Some x \<Rightarrow> if x = [] then input_commit else x)
       in check
        [(phase_inputs c \<noteq> expected_inputs, SwarmContractError ''phase receipt predecessors do not match contract inputs''),
         (1 < length input_commits, SwarmContractError ''a phase cannot consume conflicting predecessor commits'')]
        (validate_receipt
          \<lparr>receipt_id = contract_id c @ '':'' @ h_result H r, rc_plan_hash = plan_hash c,
           rc_identity_hash = h_identity H (identity c), rc_phase_id = c_phase_id c, rc_contract_id = contract_id c,
           rc_contract_hash = h_contract H c, rc_lease_id = c_lease_id c, rc_role = role c, rc_result_hash = h_result H r,
           rc_disposition = r_disposition r, rc_scout_assessment = r_scout_assessment r,
           rc_predecessor_receipt_hashes = map (h_receipt H) predecessors, rc_evidence_refs = r_evidence_refs r,
           rc_scout_findings = r_scout_findings r, rc_input_commit = input_commit, rc_output_commit = output_commit,
           rc_result_finished_at = r_finished_at r, rc_recorded_at = now\<rparr>)))"

definition validate_authorization :: "PhaseAuthorization \<Rightarrow> PhaseAuthorization result" where
  "validate_authorization a = check
     ([(list_ex blank [authorization_id a, au_phase_id a, au_contract_id a, au_lease_id a, authorized_by a],
          ValueError ''phase authorization IDs must not be empty'')]
      @ map (\<lambda>(n, v). (\<not> digest_re v, ValueError (n @ '' must be an immutable sha256 digest'')))
          [(''plan_hash'', au_plan_hash a), (''identity_hash'', au_identity_hash a), (''contract_hash'', au_contract_hash a)]
      @ concat (map (\<lambda>(n, vs). require_unique vs n
          @ [(vs = [] \<or> list_ex (\<lambda>e. \<not> digest_re e) vs, ValueError (n @ '' require immutable sha256 digests''))])
          [(''predecessor_receipt_hashes'', au_predecessor_receipt_hashes a),
           (''input_result_hashes'', au_input_result_hashes a), (''input_evidence_refs'', au_input_evidence_refs a)])
      @ [(\<not> commit_re (au_input_commit a), ValueError ''authorization input_commit must be a full Git object ID''),
         require_aware (authorized_at a) ''authorized_at'']) (Inr a)"

definition issue :: "hashes \<Rightarrow> SubagentContract \<Rightarrow> PhaseReceipt list \<Rightarrow> string \<Rightarrow> datetime \<Rightarrow> PhaseAuthorization result" where
  "issue H c predecessors by now = check
     [(phase_inputs c = [] \<or> predecessors = [], SwarmContractError ''only non-root contracts receive phase authorization'')]
     (rbind (inputs_of H predecessors) (\<lambda>expected_inputs.
       let input_commits = remdups (map rc_output_commit predecessors) in check
        [(phase_inputs c \<noteq> expected_inputs, SwarmContractError ''authorization predecessors do not match contract inputs''),
         (length input_commits \<noteq> 1, SwarmContractError ''authorization requires one exact predecessor commit'')]
        (rbind (case inputs_bound_at c of None \<Rightarrow> Inr True | Some t \<Rightarrow> dt_less now t) (\<lambda>early. check
          [(early, SwarmContractError ''authorization cannot predate the contract input binding'')]
          (validate_authorization
            \<lparr>authorization_id = contract_id c @ '':authorize:'' @ h_contract H c, au_plan_hash = plan_hash c,
             au_identity_hash = h_identity H (identity c), au_phase_id = c_phase_id c, au_contract_id = contract_id c,
             au_contract_hash = h_contract H c, au_lease_id = c_lease_id c,
             au_predecessor_receipt_hashes = map (h_receipt H) predecessors,
             au_input_result_hashes = input_result_hashes c, au_input_evidence_refs = input_evidence_refs c,
             au_input_commit = hd input_commits, authorized_by = by, authorized_at = now\<rparr>)))))"

definition require_contract :: "hashes \<Rightarrow> PhaseAuthorization \<Rightarrow> SubagentContract \<Rightarrow> string \<Rightarrow> unit result" where
  "require_contract H a c orchestrator_id = check
     [(au_plan_hash a \<noteq> plan_hash c \<or> au_identity_hash a \<noteq> h_identity H (identity c) \<or> au_phase_id a \<noteq> c_phase_id c
       \<or> au_contract_id a \<noteq> contract_id c \<or> au_contract_hash a \<noteq> h_contract H c \<or> au_lease_id a \<noteq> c_lease_id c
       \<or> au_input_result_hashes a \<noteq> input_result_hashes c \<or> au_input_evidence_refs a \<noteq> input_evidence_refs c
       \<or> authorized_by a \<noteq> orchestrator_id,
       SwarmContractError ''phase authorization is not bound to the exact contract'')] (Inr ())"

definition require_contract_plan :: "hashes \<Rightarrow> SubagentContract \<Rightarrow> SwarmPlan \<Rightarrow> SwarmPhaseSpec result" where
  "require_contract_plan H c pl = check
     [(identity c \<noteq> plan_identity pl \<or> plan_hash c \<noteq> h_plan H pl,
         SwarmContractError ''contract identity or plan hash does not match swarm plan'')]
     (rbind (phase pl (c_phase_id c)) (\<lambda>p. check
       [(contract_id c \<notin> set (contract_ids p) \<or> role c \<noteq> phase_role p,
           SwarmContractError ''contract is not an exact member of its planned phase'')] (Inr p)))"

text \<open>The checks on one predecessor receipt.\<close>

definition receipt_checks :: "hashes \<Rightarrow> SubagentContract \<Rightarrow> SwarmPlan \<Rightarrow> SwarmPhaseSpec \<Rightarrow> PhaseReceipt \<Rightarrow> (bool \<times> exn) list" where
  "receipt_checks H c pl p r =
     [(rc_plan_hash r \<noteq> h_plan H pl, SwarmContractError ''predecessor receipt belongs to another plan''),
      (rc_identity_hash r \<noteq> h_identity H (identity c), SwarmContractError ''predecessor receipt belongs to another swarm identity''),
      (rc_phase_id r \<notin> set (predecessor_phase_ids p), SwarmContractError ''predecessor receipt comes from an unplanned phase''),
      (rc_disposition r \<noteq> COMPLETED, SwarmContractError ''downstream work requires completed predecessor receipts''),
      (rc_role r = SCOUT \<and> rc_scout_assessment r \<noteq> Some ACTIONABLE,
         SwarmContractError ''downstream work requires an actionable scout assessment'')]"

definition bind_phase_inputs :: "hashes \<Rightarrow> SubagentContract \<Rightarrow> PhaseReceipt list \<Rightarrow> SwarmPlan \<Rightarrow> datetime
    \<Rightarrow> SubagentContract result" where
  "bind_phase_inputs H c predecessors pl now =
     rbind (require_contract_plan H c pl) (\<lambda>p. check
       [(predecessor_phase_ids p = [], SwarmContractError ''root contracts must not be bound to phase inputs'')]
       (rbind (rmap (phase pl) (predecessor_phase_ids p)) (\<lambda>ps.
         let expected = remdups (concat (map contract_ids ps)) in check
         ((set (map rc_contract_id predecessors) \<noteq> set expected \<or> length predecessors \<noteq> length expected,
             SwarmContractError ''predecessor receipts do not satisfy the exact plan cardinality'')
          # concat (map (receipt_checks H c pl p) predecessors))
         (rbind (inputs_of H predecessors) (\<lambda>inputs.
           if phase_inputs c \<noteq> [] then check
             [(phase_inputs c \<noteq> inputs, SwarmContractError ''pre-bound phase inputs do not match observed results'')] (Inr c)
           else rbind (rmap (\<lambda>r. dt_less now (rc_result_finished_at r)) predecessors) (\<lambda>early. check
             [(True \<in> set early, SwarmContractError ''phase inputs cannot be bound before predecessor results exist'')]
             (validate_scope H (c\<lparr>phase_inputs := inputs, inputs_bound_at := Some now\<rparr>))))))))"

section \<open>Messages\<close>

definition validate_edge :: "A2AEvent \<Rightarrow> A2AEvent result" where
  "validate_edge e = check
     [(a2a_sequence e < 1, ValueError ''sequence must be greater than or equal to 1''),
      (list_ex blank [a2a_event_id e, a2a_contract_id e, a2a_parent_agent_id e, a2a_child_agent_id e,
         sender_agent_id e, recipient_agent_id e, a2a_body e], ValueError ''A2A event identifiers and body must not be empty''),
      (\<not> digest_re (a2a_contract_hash e), ValueError ''contract_hash must be a lowercase sha256 digest''),
      (a2a_parent_agent_id e = a2a_child_agent_id e, ValueError ''A2A parent and child must be distinct''),
      ({sender_agent_id e, recipient_agent_id e} \<noteq> {a2a_parent_agent_id e, a2a_child_agent_id e},
         ValueError ''A2A messages are restricted to the contract parent/child edge''),
      (a2a_kind e \<in> {ASSIGNMENT, RESPONSE, CANCELLATION} \<and> sender_agent_id e \<noteq> a2a_parent_agent_id e,
         ValueError ''events of this kind must be sent by the parent''),
      (a2a_kind e \<in> {PROGRESS, QUESTION, RESULT} \<and> sender_agent_id e \<noteq> a2a_child_agent_id e,
         ValueError ''events of this kind must be sent by the child'')] (Inr e)"

definition event_from_contract :: "hashes \<Rightarrow> SubagentContract \<Rightarrow> A2AEvent \<Rightarrow> A2AEvent result" where
  "event_from_contract H c given = validate_edge (given
     \<lparr>a2a_contract_id := contract_id c, a2a_contract_hash := h_contract H c, a2a_identity := identity c,
      a2a_parent_agent_id := parent_agent_id c, a2a_child_agent_id := child_agent_id c\<rparr>)"

section \<open>Plans are layered\<close>

abbreviation seen_phases :: "SwarmPhaseSpec list \<Rightarrow> (string \<times> SwarmPhaseSpec) list" where
  "seen_phases ps \<equiv> map (\<lambda>p. (phase_id p, p)) ps"

lemma map_of_seen:
  "distinct (map phase_id ps) \<Longrightarrow> map_of (seen_phases ps) i = Some p \<longleftrightarrow> p \<in> set ps \<and> phase_id p = i"
  by (subst map_of_eq_Some_iff) (auto simp: comp_def)

text \<open>What the loop has checked: each phase passed against the phases before it.\<close>

lemma validate_dag_loop:
  assumes "rfold validate_dag_phase ps [] = Inr seen" and "distinct (map phase_id ps)"
  shows "seen = seen_phases ps \<and> (\<forall>i < length ps. \<exists>s. validate_dag_phase (ps ! i) (seen_phases (take i ps)) = Inr s)"
  using assms
proof (induction ps arbitrary: seen rule: rev_induct)
  case (snoc p ps)
  from snoc.prems(1) obtain s where s: "rfold validate_dag_phase ps [] = Inr s" "validate_dag_phase p s = Inr seen"
    by (auto simp: rfold_append)
  with snoc.IH snoc.prems(2) have eq: "s = seen_phases ps"
    and pre: "\<forall>i < length ps. \<exists>s. validate_dag_phase (ps ! i) (seen_phases (take i ps)) = Inr s" by auto
  have "seen = dput (phase_id p) p (seen_phases ps)" using s(2) by (auto simp: validate_dag_phase_def eq Let_def)
  also have "\<dots> = seen_phases (ps @ [p])"
    using snoc.prems(2) by (subst dput_fresh) (auto simp: map_of_eq_None_iff image_image)
  finally show ?case using s(2) eq pre by (auto simp: nth_append less_Suc_eq)
qed simp

definition layer_ok :: "SwarmRole \<Rightarrow> SwarmRole \<Rightarrow> bool" where
  "layer_ok before r = ((before = SCOUT \<and> r = BUILDER) \<or> (before = BUILDER \<and> r = TESTER))"

lemma validate_dag_phase_layers:
  assumes "validate_dag_phase p (seen_phases ps) = Inr s" and "distinct (map phase_id ps)"
    and "validate_phase p = Inr p'" and "q \<in> set (predecessor_phase_ids p)"
  shows "\<exists>b \<in> set ps. phase_id b = q \<and> layer_ok (phase_role b) (phase_role p)"
proof -
  from assms(1,4) have "q \<in> set (map phase_id ps)" by (auto simp: validate_dag_phase_def Let_def)
  then obtain b where b: "b \<in> set ps" "phase_id b = q" by auto
  then have m: "map_of (seen_phases ps) q = Some b" using map_of_seen [OF assms(2)] by blast
  have w: "phase_role p = BUILDER \<or> phase_role p = TESTER"
    using assms(3,4) by (cases "phase_role p") (auto simp: validate_phase_def)
  have "Some (phase_role b) \<in> set (map (\<lambda>i. map_option phase_role (map_of (seen_phases ps) i)) (predecessor_phase_ids p))"
    using assms(4) m by force
  with assms(1) w have "layer_ok (phase_role b) (phase_role p)"
    by (auto simp: validate_dag_phase_def Let_def layer_ok_def)
  with b show ?thesis by blast
qed

lemma validate_phase_Inr: "validate_phase p = Inr p' \<Longrightarrow> p' = p"
  by (auto simp: validate_phase_def)

lemma mk_SwarmPlanD:
  assumes "mk_SwarmPlan pl = Inr pl'"
  shows "pl' = pl" "distinct (map phase_id (phases pl))" "distinct (concat (map contract_ids (phases pl)))"
    "p \<in> set (phases pl) \<Longrightarrow> validate_phase p = Inr p"
    "i < length (phases pl) \<Longrightarrow> \<exists>s. validate_dag_phase (phases pl ! i) (seen_phases (take i (phases pl))) = Inr s"
    "phases pl \<noteq> []"
proof -
  from assms obtain ps where v: "rmap validate_phase (phases pl) = Inr ps" and dag: "validate_dag pl = Inr pl'"
    unfolding mk_SwarmPlan_def by (simp only: rbind_Inr_iff) blast
  from dag obtain seen where l: "rfold validate_dag_phase (phases pl) [] = Inr seen"
    and d: "distinct (map phase_id (phases pl))" "distinct (concat (map contract_ids (phases pl)))" "pl' = pl" "phases pl \<noteq> []"
    unfolding validate_dag_def by (simp only: check_Inr_iff rbind_Inr_iff list.pred_inject case_prod_conv sum.inject) blast
  show "pl' = pl" "distinct (map phase_id (phases pl))" "distinct (concat (map contract_ids (phases pl)))" "phases pl \<noteq> []"
    by (fact d)+
  show "validate_phase p = Inr p" if "p \<in> set (phases pl)"
  proof -
    from rmap_in [OF v that] obtain y where "validate_phase p = Inr y" by blast
    with validate_phase_Inr [OF this] show ?thesis by simp
  qed
  show "\<exists>s. validate_dag_phase (phases pl ! i) (seen_phases (take i (phases pl))) = Inr s" if "i < length (phases pl)"
    using validate_dag_loop [OF l d(1)] that by blast
qed

lemma plan_predecessor:
  assumes "mk_SwarmPlan pl = Inr pl'" and "i < length (phases pl)" and "q \<in> set (predecessor_phase_ids (phases pl ! i))"
  shows "\<exists>j < i. phase_id (phases pl ! j) = q \<and> layer_ok (phase_role (phases pl ! j)) (phase_role (phases pl ! i))"
proof -
  note pl = mk_SwarmPlanD [OF assms(1)]
  let ?p = "phases pl ! i"
  have v: "validate_phase ?p = Inr ?p" using pl(4) assms(2) by simp
  obtain s where s: "validate_dag_phase ?p (seen_phases (take i (phases pl))) = Inr s" using pl(5) assms(2) by blast
  have "distinct (map phase_id (take i (phases pl)))" using pl(2) by (simp add: take_map [symmetric])
  from validate_dag_phase_layers [OF s this v assms(3)] obtain b
    where "b \<in> set (take i (phases pl))" "phase_id b = q" "layer_ok (phase_role b) (phase_role ?p)" by blast
  then show ?thesis by (auto simp: in_set_conv_nth)
qed

lemma plan_phase:
  assumes "mk_SwarmPlan pl = Inr pl'" and "p \<in> set (phases pl)"
  shows "phase_role p \<in> {SCOUT, BUILDER, TESTER}" "contract_ids p \<noteq> []"
  using mk_SwarmPlanD(4) [OF assms(1,2)] by (cases "phase_role p"; auto simp: validate_phase_def)+

text \<open>C32. A valid plan is a layered DAG: phases come in topological order, every phase is a scout, builder or
  tester, each predecessor of a phase is an earlier phase of the layer just below it (scout before
  builder before tester), testers have predecessors, scouts have none, and no contract is planned
  twice.\<close>

theorem plan_is_layered_dag:
  assumes "mk_SwarmPlan pl = Inr pl'" and "i < length (phases pl)"
  shows "phase_role (phases pl ! i) \<in> {SCOUT, BUILDER, TESTER}
    \<and> (\<forall>q \<in> set (predecessor_phase_ids (phases pl ! i)).
         \<exists>j < i. phase_id (phases pl ! j) = q \<and> layer_ok (phase_role (phases pl ! j)) (phase_role (phases pl ! i)))
    \<and> (phase_role (phases pl ! i) = TESTER \<longrightarrow> predecessor_phase_ids (phases pl ! i) \<noteq> [])
    \<and> (phase_role (phases pl ! i) = SCOUT \<longrightarrow> predecessor_phase_ids (phases pl ! i) = [])
    \<and> (\<forall>j < length (phases pl). j \<noteq> i \<longrightarrow> set (contract_ids (phases pl ! i)) \<inter> set (contract_ids (phases pl ! j)) = {})"
proof (intro conjI ballI allI impI)
  note pl = mk_SwarmPlanD [OF assms(1)]
  let ?p = "phases pl ! i"
  have v: "validate_phase ?p = Inr ?p" using pl(4) assms(2) by simp
  obtain s where s: "validate_dag_phase ?p (seen_phases (take i (phases pl))) = Inr s" using pl(5) assms(2) by blast
  show "phase_role ?p \<in> {SCOUT, BUILDER, TESTER}" using plan_phase(1) [OF assms(1)] assms(2) by simp
  show "predecessor_phase_ids ?p = []" if "phase_role ?p = SCOUT" using v that by (auto simp: validate_phase_def)
  show "predecessor_phase_ids ?p \<noteq> []" if "phase_role ?p = TESTER"
    using s that by (auto simp: validate_dag_phase_def Let_def)
  fix q assume q: "q \<in> set (predecessor_phase_ids ?p)"
  show "\<exists>j < i. phase_id (phases pl ! j) = q \<and> layer_ok (phase_role (phases pl ! j)) (phase_role ?p)"
    by (rule plan_predecessor [OF assms q])
next
  fix j assume j: "j < length (phases pl)" "j \<noteq> i"
  note d = mk_SwarmPlanD(3) [OF assms(1)]
  show "set (contract_ids (phases pl ! i)) \<inter> set (contract_ids (phases pl ! j)) = {}"
    using distinct_concat_nth [OF d, of i j] assms(2) j by simp
qed

section \<open>Phase inputs\<close>

text \<open>The input a receipt stands for.\<close>

definition input_of :: "hashes \<Rightarrow> PhaseReceipt \<Rightarrow> PhaseInput" where
  "input_of H r =
     \<lparr>source_phase_id = rc_phase_id r, source_contract_id = rc_contract_id r,
      source_contract_hash = rc_contract_hash r, source_role = rc_role r,
      source_receipt_hash = h_receipt H r, source_result_hash = rc_result_hash r,
      pi_identity_hash = rc_identity_hash r, pi_evidence_refs = rc_evidence_refs r,
      pi_scout_findings = rc_scout_findings r, pi_output_commit = rc_output_commit r\<rparr>"

lemma check_Inr_value: "check cs (Inr v) = Inr w \<Longrightarrow> w = v"
  by simp

lemma from_receipt_Inr: "from_receipt H r = Inr i \<Longrightarrow> i = input_of H r"
  unfolding from_receipt_def validate_input_def input_of_def by (rule check_Inr_value)

lemma rmap_value: "rmap f xs = Inr ys \<Longrightarrow> (\<And>x y. f x = Inr y \<Longrightarrow> y = g x) \<Longrightarrow> ys = map g xs"
  by (induction xs arbitrary: ys) auto

lemma inputs_of_Inr: "inputs_of H rs = Inr is \<Longrightarrow> is = sort_key source_contract_id (map (input_of H) rs)"
  unfolding inputs_of_def by (auto dest: rmap_value [OF _ from_receipt_Inr])

lemma set_inputs_of: "inputs_of H rs = Inr is \<Longrightarrow> set is = input_of H ` set rs"
  by (auto dest: inputs_of_Inr)

lemma phase_Inr:
  assumes "phase pl i = Inr p"
  shows "p \<in> set (phases pl) \<and> phase_id p = i"
proof -
  from assms have "filter (\<lambda>p. phase_id p = i) (phases pl) = [p]"
    by (auto simp: phase_def split: list.splits)
  then have "p \<in> set (filter (\<lambda>p. phase_id p = i) (phases pl))" by simp
  then show ?thesis by simp
qed

lemma validate_scope_Inr: "validate_scope H c = Inr c' \<Longrightarrow> c' = c"
  unfolding validate_scope_def by (simp only: check_Inr_iff rbind_Inr_iff) (auto simp only: sum.inject)

lemma require_contract_plan_Inr:
  assumes "require_contract_plan H c pl = Inr p"
  shows "phase pl (c_phase_id c) = Inr p" "contract_id c \<in> set (contract_ids p)" "role c = phase_role p"
    "identity c = plan_identity pl" "plan_hash c = h_plan H pl"
  using assms unfolding require_contract_plan_def
  by (simp_all only: check_Inr_iff rbind_Inr_iff list.pred_inject case_prod_conv sum.inject) blast+

text \<open>The contracts of the predecessor phases of \<open>p\<close>.\<close>

definition predecessor_contracts :: "SwarmPlan \<Rightarrow> SwarmPhaseSpec \<Rightarrow> string set" where
  "predecessor_contracts pl p = {k. \<exists>q \<in> set (phases pl). phase_id q \<in> set (predecessor_phase_ids p) \<and> k \<in> set (contract_ids q)}"

lemma predecessor_contracts_eq:
  assumes "rmap (phase pl) (predecessor_phase_ids p) = Inr ps" and "distinct (map phase_id (phases pl))"
  shows "set (concat (map contract_ids ps)) = predecessor_contracts pl p"
proof -
  have "set ps = {q \<in> set (phases pl). phase_id q \<in> set (predecessor_phase_ids p)}"
    using assms(1)
  proof (induction "predecessor_phase_ids p" arbitrary: p ps)
    case Nil
    then show ?case by simp
  next
    case (Cons i js)
    from Cons.prems Cons.hyps(2) [symmetric] obtain q qs where q: "phase pl i = Inr q" "ps = q # qs"
      and qs: "rmap (phase pl) js = Inr qs" by auto
    have "set qs = {q \<in> set (phases pl). phase_id q \<in> set js}"
      using Cons.hyps(1) [of "p\<lparr>predecessor_phase_ids := js\<rparr>" qs] qs by simp
    moreover have "{r \<in> set (phases pl). phase_id r = i} = {q}"
      using phase_Inr [OF q(1)] assms(2) by (auto simp: distinct_map inj_on_def)
    ultimately show ?case using q(2) Cons.hyps(2) [symmetric] by auto
  qed
  then show ?thesis by (auto simp: predecessor_contracts_def)
qed

lemma receipt_checks_ok:
  "list_all (\<lambda>(b, e). \<not> b) (receipt_checks H c pl p r) \<longleftrightarrow>
     rc_plan_hash r = h_plan H pl \<and> rc_identity_hash r = h_identity H (identity c)
     \<and> rc_phase_id r \<in> set (predecessor_phase_ids p) \<and> rc_disposition r = COMPLETED
     \<and> (rc_role r = SCOUT \<longrightarrow> rc_scout_assessment r = Some ACTIONABLE)"
  unfolding receipt_checks_def by simp

text \<open>The facts a successful binding rests on.\<close>

lemma bind_phase_inputs_Inr:
  assumes "bind_phase_inputs H c rs pl now = Inr c'" and "distinct (map phase_id (phases pl))"
  shows "\<exists>p. require_contract_plan H c pl = Inr p
    \<and> set (map rc_contract_id rs) = predecessor_contracts pl p \<and> distinct (map rc_contract_id rs)
    \<and> (\<forall>r \<in> set rs. list_all (\<lambda>(b, e). \<not> b) (receipt_checks H c pl p r))
    \<and> inputs_of H rs = Inr (phase_inputs c')
    \<and> c'\<lparr>phase_inputs := [], inputs_bound_at := None\<rparr> = c\<lparr>phase_inputs := [], inputs_bound_at := None\<rparr>"
proof -
  from assms(1) obtain p ps inputs where p: "require_contract_plan H c pl = Inr p"
    and ps: "rmap (phase pl) (predecessor_phase_ids p) = Inr ps"
    and card: "set (map rc_contract_id rs) = set (remdups (concat (map contract_ids ps)))"
      "length rs = length (remdups (concat (map contract_ids ps)))"
    and rc: "list_all (\<lambda>(b, e). \<not> b) (concat (map (receipt_checks H c pl p) rs))"
    and inp: "inputs_of H rs = Inr inputs"
    and rest: "(if phase_inputs c \<noteq> [] then check
             [(phase_inputs c \<noteq> inputs, SwarmContractError ''pre-bound phase inputs do not match observed results'')] (Inr c)
           else rbind (rmap (\<lambda>r. dt_less now (rc_result_finished_at r)) rs) (\<lambda>early. check
             [(True \<in> set early, SwarmContractError ''phase inputs cannot be bound before predecessor results exist'')]
             (validate_scope H (c\<lparr>phase_inputs := inputs, inputs_bound_at := Some now\<rparr>)))) = Inr c'"
    unfolding bind_phase_inputs_def Let_def
    by (simp only: check_Inr_iff rbind_Inr_iff list.pred_inject case_prod_conv de_Morgan_disj not_not) blast
  have "card (set (map rc_contract_id rs)) = length (map rc_contract_id rs)"
    unfolding card(1) using card(2) by (simp add: length_remdups_card_conv)
  then have d: "distinct (map rc_contract_id rs)" by (rule card_distinct)
  have "phase_inputs c' = inputs \<and> c'\<lparr>phase_inputs := [], inputs_bound_at := None\<rparr> = c\<lparr>phase_inputs := [], inputs_bound_at := None\<rparr>"
  proof (cases "phase_inputs c = []")
    case True
    with rest have "c' = c\<lparr>phase_inputs := inputs, inputs_bound_at := Some now\<rparr>"
      by (auto dest: validate_scope_Inr)
    then show ?thesis by simp
  next
    case False
    with rest show ?thesis by auto
  qed
  moreover have "set (map rc_contract_id rs) = predecessor_contracts pl p"
    using card(1) predecessor_contracts_eq [OF ps assms(2)] by simp
  moreover have "\<forall>r \<in> set rs. list_all (\<lambda>(b, e). \<not> b) (receipt_checks H c pl p r)"
    using rc by (induction rs) auto
  ultimately show ?thesis using p d inp by blast
qed

text \<open>Downstream work starts only from complete evidence: binding a contract to predecessor receipts succeeds
  only when the plan puts the contract in its phase and there is exactly one receipt for every
  contract of every predecessor phase, each completed, of this plan and identity, and actionable if
  it comes from a scout. The bound inputs are those receipts, and nothing else of the contract
  changes.\<close>

theorem bind_phase_inputs_exact:
  assumes plan: "mk_SwarmPlan pl = Inr pl'" and call: "bind_phase_inputs H c rs pl now = Inr c'"
  shows "\<exists>p \<in> set (phases pl). phase_id p = c_phase_id c \<and> contract_id c \<in> set (contract_ids p) \<and> role c = phase_role p
    \<and> rc_contract_id ` set rs = predecessor_contracts pl p \<and> distinct (map rc_contract_id rs)
    \<and> (\<forall>r \<in> set rs. rc_disposition r = COMPLETED \<and> rc_plan_hash r = h_plan H pl
         \<and> rc_identity_hash r = h_identity H (identity c) \<and> (rc_role r = SCOUT \<longrightarrow> rc_scout_assessment r = Some ACTIONABLE))
    \<and> phase_inputs c' = sort_key source_contract_id (map (input_of H) rs)
    \<and> c'\<lparr>phase_inputs := [], inputs_bound_at := None\<rparr> = c\<lparr>phase_inputs := [], inputs_bound_at := None\<rparr>"
proof -
  from bind_phase_inputs_Inr [OF call mk_SwarmPlanD(2) [OF plan]] obtain p
    where b: "require_contract_plan H c pl = Inr p"
      "set (map rc_contract_id rs) = predecessor_contracts pl p" "distinct (map rc_contract_id rs)"
      "\<forall>r \<in> set rs. list_all (\<lambda>(b, e). \<not> b) (receipt_checks H c pl p r)"
      "inputs_of H rs = Inr (phase_inputs c')"
      "c'\<lparr>phase_inputs := [], inputs_bound_at := None\<rparr> = c\<lparr>phase_inputs := [], inputs_bound_at := None\<rparr>" by blast
  note p = require_contract_plan_Inr [OF b(1)]
  have "p \<in> set (phases pl)" "phase_id p = c_phase_id c" using phase_Inr [OF p(1)] by auto
  moreover have "\<forall>r \<in> set rs. rc_disposition r = COMPLETED \<and> rc_plan_hash r = h_plan H pl
         \<and> rc_identity_hash r = h_identity H (identity c) \<and> (rc_role r = SCOUT \<longrightarrow> rc_scout_assessment r = Some ACTIONABLE)"
    using b(4) unfolding receipt_checks_ok by blast
  moreover have "rc_contract_id ` set rs = predecessor_contracts pl p" using b(2) by simp
  ultimately show ?thesis using p(2,3) b(3) b(6) inputs_of_Inr [OF b(5)] by blast
qed

text \<open>An authorization is for one contract: what \<open>issue\<close> produces is accepted by \<open>require_contract\<close> for that
  contract and orchestrator, and for no other contract (contracts with equal hashes being equal)
  and no other orchestrator.\<close>

theorem authorization_is_exact:
  assumes call: "issue H c rs by now = Inr a"
  shows "require_contract H a c by = Inr ()
    \<and> (\<forall>d o'. require_contract H a d o' = Inr () \<and> (h_contract H d = h_contract H c \<longrightarrow> d = c) \<longrightarrow> d = c \<and> o' = by)
    \<and> au_predecessor_receipt_hashes a = map (h_receipt H) rs \<and> rs \<noteq> []
    \<and> phase_inputs c = sort_key source_contract_id (map (input_of H) rs)"
proof -
  from call obtain inputs where ne: "rs \<noteq> []" and inp: "inputs_of H rs = Inr inputs" "phase_inputs c = inputs"
    and a: "a = \<lparr>authorization_id = contract_id c @ '':authorize:'' @ h_contract H c, au_plan_hash = plan_hash c,
             au_identity_hash = h_identity H (identity c), au_phase_id = c_phase_id c, au_contract_id = contract_id c,
             au_contract_hash = h_contract H c, au_lease_id = c_lease_id c,
             au_predecessor_receipt_hashes = map (h_receipt H) rs,
             au_input_result_hashes = input_result_hashes c, au_input_evidence_refs = input_evidence_refs c,
             au_input_commit = hd (remdups (map rc_output_commit rs)), authorized_by = by, authorized_at = now\<rparr>"
    unfolding issue_def validate_authorization_def Let_def
    by (simp only: check_Inr_iff rbind_Inr_iff list.pred_inject case_prod_conv de_Morgan_disj not_not sum.inject) blast
  show ?thesis
    using ne inputs_of_Inr [OF inp(1)] inp(2) by (auto simp: require_contract_def a)
qed

lemma validate_receipt_Inr: "validate_receipt r = Inr r' \<Longrightarrow> r' = r"
  unfolding validate_receipt_def by (simp only: check_Inr_iff rbind_Inr_iff) (auto simp only: sum.inject)

lemma ex_unit: "(\<exists>x :: unit. P x) \<longleftrightarrow> P ()"
  by (metis old.unit.exhaust)

text \<open>A receipt ties a result to its contract: \<open>from_result\<close> accepts only a result carrying exactly the
  attribution of the contract, whose inputs are the given predecessors. The receipt starts from
  the one commit all predecessors produced (the base commit for a root) and ends at the commit the
  result observed, or at its input when it observed none.\<close>

theorem receipt_binds_result:
  assumes call: "from_result H c r rs now = Inr rc"
  shows "(r_contract_hash r, r_lease_id r, r_agent_id r, r_role r, r_identity r)
        = (h_contract H c, c_lease_id c, child_agent_id c, role c, identity c)
    \<and> phase_inputs c = sort_key source_contract_id (map (input_of H) rs)
    \<and> rc_contract_hash rc = h_contract H c \<and> rc_result_hash rc = h_result H r \<and> rc_disposition rc = r_disposition r
    \<and> rc_predecessor_receipt_hashes rc = map (h_receipt H) rs
    \<and> (rs = [] \<longrightarrow> rc_input_commit rc = id_base_commit (identity c))
    \<and> (\<forall>p \<in> set rs. rc_output_commit p = rc_input_commit rc)
    \<and> rc_output_commit rc = (case r_observed_commit r of None \<Rightarrow> rc_input_commit rc
        | Some x \<Rightarrow> if x = [] then rc_input_commit rc else x)"
proof -
  let ?cs = "remdups (map rc_output_commit rs)"
  let ?in = "case ?cs of [] \<Rightarrow> id_base_commit (identity c) | x # _ \<Rightarrow> x"
  from call obtain inputs where bound: "require_result_contract_binding H c r = Inr ()"
    and inp: "inputs_of H rs = Inr inputs" "phase_inputs c = inputs" and one: "\<not> 1 < length ?cs"
    and rc: "validate_receipt \<lparr>receipt_id = contract_id c @ '':'' @ h_result H r, rc_plan_hash = plan_hash c,
           rc_identity_hash = h_identity H (identity c), rc_phase_id = c_phase_id c, rc_contract_id = contract_id c,
           rc_contract_hash = h_contract H c, rc_lease_id = c_lease_id c, rc_role = role c, rc_result_hash = h_result H r,
           rc_disposition = r_disposition r, rc_scout_assessment = r_scout_assessment r,
           rc_predecessor_receipt_hashes = map (h_receipt H) rs, rc_evidence_refs = r_evidence_refs r,
           rc_scout_findings = r_scout_findings r, rc_input_commit = ?in,
           rc_output_commit = (case r_observed_commit r of None \<Rightarrow> ?in | Some x \<Rightarrow> if x = [] then ?in else x),
           rc_result_finished_at = r_finished_at r, rc_recorded_at = now\<rparr> = Inr rc"
    unfolding from_result_def Let_def
    by (simp only: ex_unit check_Inr_iff rbind_Inr_iff list.pred_inject case_prod_conv de_Morgan_disj not_not sum.inject) blast
  note rc = validate_receipt_Inr [OF rc]
  have same: "rc_output_commit p = ?in" if "p \<in> set rs" for p
  proof -
    have mem: "rc_output_commit p \<in> set ?cs" using that by simp
    then obtain x xs where "?cs = x # xs" by (cases ?cs) auto
    moreover from this one have "xs = []" by (cases xs) auto
    ultimately show ?thesis using mem by simp
  qed
  show ?thesis
    using bound same inputs_of_Inr [OF inp(1)] inp(2)
    by (simp add: rc require_result_contract_binding_def split: option.split)
qed

section \<open>Concrete runs\<close>

definition demo_hash :: string where
  "demo_hash = ''sha256:'' @ replicate 64 (CHR ''a'')"

definition demo_hashes :: hashes where
  "demo_hashes = \<lparr>h_identity = \<lambda>_. demo_hash, h_plan = \<lambda>_. demo_hash, h_contract = \<lambda>_. demo_hash,
     h_result = \<lambda>_. demo_hash, h_receipt = \<lambda>_. demo_hash, h_authorization = \<lambda>_. demo_hash, h_finding = \<lambda>_. demo_hash\<rparr>"

definition demo_time :: "int \<Rightarrow> datetime" where
  "demo_time t = \<lparr>dt_aware = True, dt_instant = t\<rparr>"

definition demo_identity :: SwarmIdentity where
  "demo_identity = \<lparr>id_card_id = ''card'', id_card_hash = demo_hash, id_base_commit = replicate 40 (CHR ''0''),
     id_evidence_id = demo_hash, id_trajectory_id = ''t''\<rparr>"

definition demo_plan :: SwarmPlan where
  "demo_plan = \<lparr>plan_id = ''p'', plan_identity = demo_identity,
     phases = [\<lparr>phase_id = ''s'', phase_role = SCOUT, contract_ids = [''c1''], predecessor_phase_ids = []\<rparr>,
               \<lparr>phase_id = ''b'', phase_role = BUILDER, contract_ids = [''c2''], predecessor_phase_ids = [''s'']\<rparr>],
     plan_created_at = demo_time 0\<rparr>"

definition demo_budget :: ExecutionBudget where
  "demo_budget = \<lparr>eb_wall_seconds = 60, eb_token_limit = 60, eb_tool_call_limit = 60, eb_cost_limit = 60\<rparr>"

definition demo_contract :: SubagentContract where
  "demo_contract = \<lparr>contract_id = ''c2'', team_id = ''team'', identity = demo_identity, plan_hash = demo_hash,
     c_phase_id = ''b'', parent_agent_id = ''boss'', child_agent_id = ''kid'', role = BUILDER, task = ''do'',
     readable_paths = [''src''], writable_paths = [''src/a''], protected_paths = [''tests''], tool_allowlist = [''edit''],
     budget = demo_budget, c_lease_id = ''l2'', worktree_id = ''w'', issued_at = demo_time 1, phase_inputs = [],
     inputs_bound_at = None\<rparr>"

definition demo_finding :: ScoutFinding where
  "demo_finding = \<lparr>sf_path = ''src/a'', sf_line = None, sf_detail = ''a missing guard'', sf_digest = demo_hash\<rparr>"

definition demo_receipt :: PhaseReceipt where
  "demo_receipt = \<lparr>receipt_id = ''c1:r'', rc_plan_hash = demo_hash, rc_identity_hash = demo_hash, rc_phase_id = ''s'',
     rc_contract_id = ''c1'', rc_contract_hash = demo_hash, rc_lease_id = ''l1'', rc_role = SCOUT, rc_result_hash = demo_hash,
     rc_disposition = COMPLETED, rc_scout_assessment = Some ACTIONABLE, rc_predecessor_receipt_hashes = [],
     rc_evidence_refs = [demo_hash], rc_scout_findings = [demo_finding], rc_input_commit = replicate 40 (CHR ''0''),
     rc_output_commit = replicate 40 (CHR ''0''), rc_result_finished_at = demo_time 2, rc_recorded_at = demo_time 2\<rparr>"

definition demo_bound_contract :: SubagentContract where
  "demo_bound_contract = demo_contract\<lparr>phase_inputs := [input_of demo_hashes demo_receipt], inputs_bound_at := Some (demo_time 3)\<rparr>"

definition demo_result :: SubagentResult where
  "demo_result = \<lparr>r_contract_id = ''c2'', r_contract_hash = demo_hash, r_identity = demo_identity, r_plan_hash = demo_hash,
     r_phase_id = ''b'', r_lease_id = ''l2'', r_agent_id = ''kid'', r_role = BUILDER, r_disposition = COMPLETED,
     r_summary = ''done'', r_reason_codes = [], r_evidence_refs = [demo_hash],
     r_observed_commit = Some (replicate 40 (CHR ''1'')), r_scout_assessment = None, r_scout_findings = [],
     r_controller_terminal_reason = None, r_started_at = demo_time 4, r_finished_at = demo_time 5\<rparr>"

lemma demo_plan_ok: "mk_SwarmPlan demo_plan = Inr demo_plan"
  by code_simp

lemma demo_bind: "bind_phase_inputs demo_hashes demo_contract [demo_receipt] demo_plan (demo_time 3) = Inr demo_bound_contract"
  by code_simp

theorem plan_is_layered_dag_witness:
  "phase_role (phases demo_plan ! 1) = BUILDER
   \<and> (\<exists>j < 1. phase_id (phases demo_plan ! j) = ''s'' \<and> layer_ok (phase_role (phases demo_plan ! j)) (phase_role (phases demo_plan ! 1)))"
proof -
  have "1 < length (phases demo_plan)" "phase_role (phases demo_plan ! 1) = BUILDER"
    "predecessor_phase_ids (phases demo_plan ! 1) = [''s'']" by (simp_all add: demo_plan_def)
  with plan_is_layered_dag [OF demo_plan_ok, of 1] show ?thesis by simp
qed

theorem bind_phase_inputs_exact_witness:
  "\<exists>p \<in> set (phases demo_plan). phase_id p = ''b'' \<and> predecessor_contracts demo_plan p = {''c1''}"
  using bind_phase_inputs_exact [OF demo_plan_ok demo_bind]
  by (auto simp: demo_contract_def demo_receipt_def)

theorem authorization_is_exact_witness:
  "\<exists>a. issue demo_hashes demo_bound_contract [demo_receipt] ''boss'' (demo_time 4) = Inr a
     \<and> require_contract demo_hashes a demo_bound_contract ''boss'' = Inr ()"
proof -
  have "isl (issue demo_hashes demo_bound_contract [demo_receipt] ''boss'' (demo_time 4)) = False" by code_simp
  then obtain a where a: "issue demo_hashes demo_bound_contract [demo_receipt] ''boss'' (demo_time 4) = Inr a"
    by (cases "issue demo_hashes demo_bound_contract [demo_receipt] ''boss'' (demo_time 4)") auto
  from authorization_is_exact [OF this] a show ?thesis by blast
qed

theorem receipt_binds_result_witness:
  "\<exists>rc. from_result demo_hashes demo_bound_contract demo_result [demo_receipt] (demo_time 6) = Inr rc
     \<and> rc_input_commit rc = replicate 40 (CHR ''0'') \<and> rc_output_commit rc = replicate 40 (CHR ''1'')"
proof -
  let ?f = "from_result demo_hashes demo_bound_contract demo_result [demo_receipt] (demo_time 6)"
  have "isl ?f = False" by code_simp
  then obtain rc where rc: "?f = Inr rc" by (cases ?f) auto
  from receipt_binds_result [OF this] rc show ?thesis by (auto simp: demo_receipt_def demo_result_def)
qed

end
