(* ===== verification/Ledger.thy ===== *)
theory Ledger
  imports Swarm
begin

text \<open>
  The budget ledger of a swarm team (\<open>TeamBudgetLedger\<close> in \<open>src/skharness/arena/swarm.py\<close>): a child's
  whole budget and write scope are reserved before it starts and settled when it ends. The locale
  \<open>budget_ledger\<close> is the contract the swarm scheduler relies on.
\<close>

section \<open>State and operations\<close>

record TeamBudgetLedger =
  lb_budget :: TeamBudget
  lb_consumed :: BudgetUsage
  lb_active :: "(string \<times> SubagentContract) list"
  lb_settled :: "(string \<times> BudgetUsage) list"

definition no_usage :: BudgetUsage where
  "no_usage = \<lparr>bu_wall_seconds = 0, bu_tokens = 0, bu_tool_calls = 0, bu_cost = 0\<rparr>"

definition new_ledger :: "TeamBudget \<Rightarrow> TeamBudgetLedger" where
  "new_ledger b = \<lparr>lb_budget = b, lb_consumed = no_usage, lb_active = [], lb_settled = []\<rparr>"

definition reservation_usage :: "SubagentContract \<Rightarrow> BudgetUsage result" where
  "reservation_usage c = mk_BudgetUsage
     \<lparr>bu_wall_seconds = eb_wall_seconds (budget c), bu_tokens = eb_token_limit (budget c),
      bu_tool_calls = eb_tool_call_limit (budget c), bu_cost = eb_cost_limit (budget c)\<rparr>"

definition reserved :: "TeamBudgetLedger \<Rightarrow> BudgetUsage result" where
  "reserved L = rbind (mk_BudgetUsage no_usage)
     (rfold (\<lambda>c acc. rbind (reservation_usage c) (usage_plus acc)) (vals (lb_active L)))"

definition require_exclusive_write_scope :: "SubagentContract \<Rightarrow> TeamBudgetLedger \<Rightarrow> unit result" where
  "require_exclusive_write_scope candidate L =
     (if writable_paths candidate = [] then Inr ()
      else check [(list_ex (\<lambda>a. worktree_id a = worktree_id candidate
              \<and> list_ex (\<lambda>l. list_ex (paths_overlap l) (writable_paths candidate)) (writable_paths a)) (vals (lb_active L)),
            SwarmContractError ''active children cannot share an overlapping writable scope in one worktree'')] (Inr ()))"

definition require_within_contract :: "BudgetUsage \<Rightarrow> ExecutionBudget \<Rightarrow> unit result" where
  "require_within_contract u b = check
     [(eb_wall_seconds b < bu_wall_seconds u \<or> eb_token_limit b < bu_tokens u
         \<or> eb_tool_call_limit b < bu_tool_calls u \<or> eb_cost_limit b < bu_cost u,
       BudgetExceededError ''reported usage exceeds the child reservation'')] (Inr ())"

definition require_within_team :: "BudgetUsage \<Rightarrow> TeamBudgetLedger \<Rightarrow> unit result" where
  "require_within_team u L = check
     [(tb_wall_seconds (lb_budget L) < bu_wall_seconds u \<or> tb_token_limit (lb_budget L) < bu_tokens u
         \<or> tb_tool_call_limit (lb_budget L) < bu_tool_calls u \<or> tb_cost_limit (lb_budget L) < bu_cost u,
       BudgetExceededError ''aggregate child work exceeds the team budget'')] (Inr ())"

definition reserve :: "SubagentContract \<Rightarrow> TeamBudgetLedger \<Rightarrow> TeamBudgetLedger result" where
  "reserve c L = check
     [(team_id c \<noteq> tb_team_id (lb_budget L), SwarmContractError ''contract belongs to a different team budget''),
      (contract_id c \<in> set (keys (lb_active L)) \<or> contract_id c \<in> set (keys (lb_settled L)),
         SwarmContractError ''contract budget has already been reserved or settled''),
      (tb_max_concurrency (lb_budget L) \<le> int (length (lb_active L)), BudgetExceededError ''team concurrency budget exhausted'')]
     (rbind (require_exclusive_write_scope c L) (\<lambda>_.
      rbind (reservation_usage c) (\<lambda>requested.
      rbind (reserved L) (\<lambda>r. rbind (usage_plus (lb_consumed L) r) (\<lambda>x. rbind (usage_plus x requested) (\<lambda>projected.
      rbind (require_within_team projected L) (\<lambda>_.
        Inr (L\<lparr>lb_active := dput (contract_id c) c (lb_active L)\<rparr>))))))))"

definition settle :: "string \<Rightarrow> BudgetUsage \<Rightarrow> TeamBudgetLedger \<Rightarrow> TeamBudgetLedger result" where
  "settle i u L =
     (case map_of (lb_active L) i of
        None \<Rightarrow> Inl (SwarmContractError ''only an active reservation may be settled'')
      | Some c \<Rightarrow>
          rbind (require_within_contract u (budget c)) (\<lambda>_.
          rbind (usage_plus (lb_consumed L) u) (\<lambda>projected.
          rbind (require_within_team projected L) (\<lambda>_.
            Inr (L\<lparr>lb_active := ddel i (lb_active L), lb_settled := dput i u (lb_settled L), lb_consumed := projected\<rparr>)))))"

record TeamBudgetSnapshot =
  tbs_team_id :: string
  tbs_consumed :: BudgetUsage
  tbs_reserved :: BudgetUsage
  tbs_remaining :: BudgetUsage
  tbs_active_contract_ids :: "string list"

definition ledger_snapshot :: "TeamBudgetLedger \<Rightarrow> TeamBudgetSnapshot result" where
  "ledger_snapshot L =
     rbind (reserved L) (\<lambda>r. rbind (usage_plus (lb_consumed L) r) (\<lambda>allocated.
     rbind (mk_BudgetUsage
        \<lparr>bu_wall_seconds = tb_wall_seconds (lb_budget L) - bu_wall_seconds allocated,
         bu_tokens = tb_token_limit (lb_budget L) - bu_tokens allocated,
         bu_tool_calls = tb_tool_call_limit (lb_budget L) - bu_tool_calls allocated,
         bu_cost = tb_cost_limit (lb_budget L) - bu_cost allocated\<rparr>) (\<lambda>remaining.
       Inr \<lparr>tbs_team_id = tb_team_id (lb_budget L), tbs_consumed = lb_consumed L, tbs_reserved = r,
            tbs_remaining = remaining, tbs_active_contract_ids = sort (keys (lb_active L))\<rparr>)))"

section \<open>Budget dimensions\<close>

datatype budget_dim = Wall | Tokens | ToolCalls | Cost

fun spent :: "budget_dim \<Rightarrow> BudgetUsage \<Rightarrow> real" where
  "spent Wall u = bu_wall_seconds u"
| "spent Tokens u = real_of_int (bu_tokens u)"
| "spent ToolCalls u = real_of_int (bu_tool_calls u)"
| "spent Cost u = bu_cost u"

fun child_limit :: "budget_dim \<Rightarrow> ExecutionBudget \<Rightarrow> real" where
  "child_limit Wall b = eb_wall_seconds b"
| "child_limit Tokens b = real_of_int (eb_token_limit b)"
| "child_limit ToolCalls b = real_of_int (eb_tool_call_limit b)"
| "child_limit Cost b = eb_cost_limit b"

fun team_limit :: "budget_dim \<Rightarrow> TeamBudget \<Rightarrow> real" where
  "team_limit Wall b = tb_wall_seconds b"
| "team_limit Tokens b = real_of_int (tb_token_limit b)"
| "team_limit ToolCalls b = real_of_int (tb_tool_call_limit b)"
| "team_limit Cost b = tb_cost_limit b"

lemma all_dim_iff: "(\<forall>d. P d) \<longleftrightarrow> P Wall \<and> P Tokens \<and> P ToolCalls \<and> P Cost"
  by (metis budget_dim.exhaust)

definition valid_usage :: "BudgetUsage \<Rightarrow> bool" where
  "valid_usage u \<longleftrightarrow> (\<forall>d. 0 \<le> spent d u)"

definition within_child :: "BudgetUsage \<Rightarrow> ExecutionBudget \<Rightarrow> bool" where
  "within_child u b \<longleftrightarrow> (\<forall>d. spent d u \<le> child_limit d b)"

definition valid_limits :: "ExecutionBudget \<Rightarrow> bool" where
  "valid_limits b \<longleftrightarrow> (\<forall>d. 0 \<le> child_limit d b)"

lemma mk_BudgetUsage_iff [simp]: "mk_BudgetUsage u = Inr v \<longleftrightarrow> v = u \<and> valid_usage u"
  by (auto simp: mk_BudgetUsage_def valid_usage_def all_dim_iff not_less)

lemma mk_ExecutionBudget_valid: "mk_ExecutionBudget b = Inr b' \<Longrightarrow> valid_limits b"
  by (auto simp: mk_ExecutionBudget_def valid_limits_def all_dim_iff not_less)

lemma usage_plus_total:
  assumes "valid_usage a" and "valid_usage b"
  shows "\<exists>c. usage_plus a b = Inr c \<and> valid_usage c \<and> (\<forall>d. spent d c = spent d a + spent d b)"
proof -
  let ?c = "\<lparr>bu_wall_seconds = bu_wall_seconds a + bu_wall_seconds b, bu_tokens = bu_tokens a + bu_tokens b,
      bu_tool_calls = bu_tool_calls a + bu_tool_calls b, bu_cost = bu_cost a + bu_cost b\<rparr>"
  have e: "spent d ?c = spent d a + spent d b" for d by (cases d) auto
  with assms have "valid_usage ?c" by (simp add: valid_usage_def)
  with e show ?thesis by (auto simp: usage_plus_def)
qed

lemma usage_plus_spent: "usage_plus a b = Inr c \<Longrightarrow> spent d c = spent d a + spent d b"
  by (cases d) (auto simp: usage_plus_def)

lemma reservation_usage_total:
  "valid_limits (budget c) \<Longrightarrow> \<exists>u. reservation_usage c = Inr u \<and> valid_usage u \<and> (\<forall>d. spent d u = child_limit d (budget c))"
  by (auto simp: reservation_usage_def valid_limits_def valid_usage_def all_dim_iff)

lemma require_within_contract_iff [simp]: "require_within_contract u b = Inr x \<longleftrightarrow> within_child u b"
  by (auto simp: require_within_contract_def within_child_def all_dim_iff not_less)

lemma require_within_team_iff [simp]:
  "require_within_team u L = Inr x \<longleftrightarrow> (\<forall>d. spent d u \<le> team_limit d (lb_budget L))"
  by (auto simp: require_within_team_def all_dim_iff not_less)

definition reserved_sum :: "budget_dim \<Rightarrow> TeamBudgetLedger \<Rightarrow> real" where
  "reserved_sum d L = sum_list (map (\<lambda>c. child_limit d (budget c)) (vals (lb_active L)))"

lemma no_usage_spent [simp]: "spent d no_usage = 0"
  by (cases d) (simp_all add: no_usage_def)

lemma no_usage_valid [simp]: "valid_usage no_usage"
  by (simp add: valid_usage_def)

lemma rfold_reservations:
  assumes "valid_usage v" and "\<forall>c \<in> set cs. valid_limits (budget c)"
  shows "\<exists>u. rfold (\<lambda>c acc. rbind (reservation_usage c) (usage_plus acc)) cs v = Inr u \<and> valid_usage u
      \<and> (\<forall>d. spent d u = spent d v + sum_list (map (\<lambda>c. child_limit d (budget c)) cs))"
  using assms
proof (induction cs arbitrary: v)
  case (Cons c cs)
  then obtain r where r: "reservation_usage c = Inr r" "valid_usage r" "\<And>d. spent d r = child_limit d (budget c)"
    using reservation_usage_total [of c] by auto
  from usage_plus_total [OF Cons.prems(1) r(2)] obtain w
    where w: "usage_plus v r = Inr w" "valid_usage w" "\<And>d. spent d w = spent d v + spent d r" by blast
  from Cons.IH [OF w(2)] Cons.prems(2) r w show ?case by (auto simp: add.assoc)
qed simp

lemma reserved_total:
  assumes "\<forall>c \<in> set (vals (lb_active L)). valid_limits (budget c)"
  shows "\<exists>u. reserved L = Inr u \<and> valid_usage u \<and> (\<forall>d. spent d u = reserved_sum d L)"
  using rfold_reservations [OF no_usage_valid assms]
  by (simp add: reserved_def reserved_sum_def del: map_map)

section \<open>The ledger invariant\<close>

definition scopes_disjoint :: "SubagentContract \<Rightarrow> SubagentContract \<Rightarrow> bool" where
  "scopes_disjoint a b \<longleftrightarrow> worktree_id a = worktree_id b \<longrightarrow>
     (\<forall>l \<in> set (writable_paths a). \<forall>r \<in> set (writable_paths b). \<not> paths_overlap l r)"

lemma scopes_disjoint_sym: "scopes_disjoint a b \<Longrightarrow> scopes_disjoint b a"
  unfolding scopes_disjoint_def using paths_overlap_sym by metis

definition ledger_inv :: "TeamBudgetLedger \<Rightarrow> bool" where
  "ledger_inv L \<longleftrightarrow> wf_dict (lb_active L) \<and> wf_dict (lb_settled L)
     \<and> set (keys (lb_active L)) \<inter> set (keys (lb_settled L)) = {}
     \<and> (\<forall>c \<in> set (vals (lb_active L)). valid_limits (budget c))
     \<and> (\<forall>i c. map_of (lb_active L) i = Some c \<longrightarrow> contract_id c = i)
     \<and> valid_usage (lb_consumed L)
     \<and> (\<forall>d. spent d (lb_consumed L) = sum_list (map (spent d) (vals (lb_settled L))))
     \<and> (\<forall>d. spent d (lb_consumed L) + reserved_sum d L \<le> team_limit d (lb_budget L))
     \<and> int (length (lb_active L)) \<le> tb_max_concurrency (lb_budget L)
     \<and> (\<forall>i j a b. map_of (lb_active L) i = Some a \<longrightarrow> map_of (lb_active L) j = Some b \<longrightarrow> i \<noteq> j \<longrightarrow> scopes_disjoint a b)"

lemma ledger_invD:
  assumes "ledger_inv L"
  shows "wf_dict (lb_active L)" "wf_dict (lb_settled L)" "set (keys (lb_active L)) \<inter> set (keys (lb_settled L)) = {}"
    "\<forall>c \<in> set (vals (lb_active L)). valid_limits (budget c)"
    "map_of (lb_active L) i = Some c \<Longrightarrow> contract_id c = i"
    "valid_usage (lb_consumed L)"
    "spent d (lb_consumed L) = sum_list (map (spent d) (vals (lb_settled L)))"
    "spent d (lb_consumed L) + reserved_sum d L \<le> team_limit d (lb_budget L)"
    "int (length (lb_active L)) \<le> tb_max_concurrency (lb_budget L)"
    "map_of (lb_active L) i = Some a \<Longrightarrow> map_of (lb_active L) j = Some b \<Longrightarrow> i \<noteq> j \<Longrightarrow> scopes_disjoint a b"
  using assms unfolding ledger_inv_def by blast+

lemma ledger_inv_new: "mk_TeamBudget b = Inr b' \<Longrightarrow> ledger_inv (new_ledger b)"
  by (auto simp: ledger_inv_def new_ledger_def reserved_sum_def all_dim_iff mk_TeamBudget_def not_le not_less)

lemma exclusive_scope_Inr:
  assumes "require_exclusive_write_scope c L = Inr x" and "a \<in> set (vals (lb_active L))"
  shows "scopes_disjoint a c"
  using assms
  by (auto simp: require_exclusive_write_scope_def scopes_disjoint_def list_ex_iff split: if_splits)

text \<open>A successful reservation, taken apart.\<close>

lemma reserve_Inr:
  assumes inv: "ledger_inv L" and lim: "valid_limits (budget c)" and r: "reserve c L = Inr L'"
  shows "L' = L\<lparr>lb_active := lb_active L @ [(contract_id c, c)]\<rparr>" "team_id c = tb_team_id (lb_budget L)"
    "map_of (lb_active L) (contract_id c) = None" "map_of (lb_settled L) (contract_id c) = None"
    "int (length (lb_active L)) < tb_max_concurrency (lb_budget L)"
    "\<And>a. a \<in> set (vals (lb_active L)) \<Longrightarrow> scopes_disjoint a c"
    "\<And>d. spent d (lb_consumed L) + reserved_sum d L + child_limit d (budget c) \<le> team_limit d (lb_budget L)"
proof -
  obtain u where u: "reserved L = Inr u" "\<And>d. spent d u = reserved_sum d L"
    using reserved_total [OF ledger_invD(4) [OF inv]] by blast
  obtain q where q: "reservation_usage c = Inr q" "\<And>d. spent d q = child_limit d (budget c)"
    using reservation_usage_total [OF lim] by blast
  from r u q obtain x projected where g: "team_id c = tb_team_id (lb_budget L)"
      "contract_id c \<notin> set (keys (lb_active L))" "contract_id c \<notin> set (keys (lb_settled L))"
      "\<not> tb_max_concurrency (lb_budget L) \<le> int (length (lb_active L))" "require_exclusive_write_scope c L = Inr ()"
    and p: "usage_plus (lb_consumed L) u = Inr x" "usage_plus x q = Inr projected" "require_within_team projected L = Inr ()"
    and L': "L' = L\<lparr>lb_active := dput (contract_id c) c (lb_active L)\<rparr>"
    unfolding reserve_def by (simp only: check_Inr_iff rbind_Inr_iff list.pred_inject case_prod_conv de_Morgan_disj sum.inject ex_unit) blast
  show "map_of (lb_active L) (contract_id c) = None" "map_of (lb_settled L) (contract_id c) = None"
    using g by (simp_all add: map_of_eq_None_iff)
  then show "L' = L\<lparr>lb_active := lb_active L @ [(contract_id c, c)]\<rparr>" using L' by (simp add: dput_fresh)
  show "team_id c = tb_team_id (lb_budget L)" "int (length (lb_active L)) < tb_max_concurrency (lb_budget L)" using g by auto
  show "\<And>a. a \<in> set (vals (lb_active L)) \<Longrightarrow> scopes_disjoint a c" using exclusive_scope_Inr [OF g(5)] .
  show "spent d (lb_consumed L) + reserved_sum d L + child_limit d (budget c) \<le> team_limit d (lb_budget L)" for d
    using p(3) [unfolded require_within_team_iff, rule_format, of d]
      usage_plus_spent [OF p(1), of d] usage_plus_spent [OF p(2), of d] u(2) q(2) by simp
qed

lemma reserve_live:
  assumes "ledger_inv L" and "valid_limits (budget c)" and "reserve c L = Inr L'"
  shows "map_of (lb_active L') = (map_of (lb_active L))(contract_id c \<mapsto> c)"
  using reserve_Inr(3) [OF assms] by (auto simp: reserve_Inr(1) [OF assms] map_add_def split: option.split)

lemma reserve_inv:
  assumes inv: "ledger_inv L" and lim: "valid_limits (budget c)" and r: "reserve c L = Inr L'"
  shows "ledger_inv L'"
proof -
  note R = reserve_Inr [OF assms] and I = ledger_invD [OF inv]
  have sum: "reserved_sum d L' = reserved_sum d L + child_limit d (budget c)" for d
    by (simp add: R(1) reserved_sum_def)
  have m: "map_of (lb_active L') = (map_of (lb_active L))(contract_id c \<mapsto> c)" by (rule reserve_live [OF assms])
  have wf: "wf_dict (lb_active L')" using I(1) R(3) by (simp add: R(1) wf_dict_def map_of_eq_None_iff)
  have disj: "scopes_disjoint a b"
    if "map_of (lb_active L') i = Some a" "map_of (lb_active L') j = Some b" "i \<noteq> j" for i j a b
    using that I(10) R(6) map_of_in_vals scopes_disjoint_sym unfolding m by (metis fun_upd_apply option.inject)
  show ?thesis
    unfolding ledger_inv_def
  proof (intro conjI)
    show "wf_dict (lb_active L')" by (rule wf)
    show "wf_dict (lb_settled L')" using I(2) by (simp add: R(1))
    show "set (keys (lb_active L')) \<inter> set (keys (lb_settled L')) = {}"
      using I(3) R(4) by (auto simp: R(1) map_of_eq_None_iff)
    show "\<forall>c \<in> set (vals (lb_active L')). valid_limits (budget c)" using I(4) lim by (simp add: R(1))
    show "\<forall>i c. map_of (lb_active L') i = Some c \<longrightarrow> contract_id c = i" using I(5) by (simp add: m)
    show "valid_usage (lb_consumed L')" using I(6) by (simp add: R(1))
    show "\<forall>d. spent d (lb_consumed L') = sum_list (map (spent d) (vals (lb_settled L')))" using I(7) by (simp add: R(1))
    show "\<forall>d. spent d (lb_consumed L') + reserved_sum d L' \<le> team_limit d (lb_budget L')"
      using R(7) unfolding sum by (simp add: R(1) add.assoc)
    show "int (length (lb_active L')) \<le> tb_max_concurrency (lb_budget L')" using R(5) by (simp add: R(1))
    show "\<forall>i j a b. map_of (lb_active L') i = Some a \<longrightarrow> map_of (lb_active L') j = Some b \<longrightarrow> i \<noteq> j \<longrightarrow> scopes_disjoint a b"
      using disj by blast
  qed
qed

text \<open>Settling a live reservation within its own limits cannot fail: the reservation was counted.\<close>

lemma settle_total:
  assumes inv: "ledger_inv L" and c: "map_of (lb_active L) i = Some c"
    and u: "valid_usage u" "within_child u (budget c)"
  shows "\<exists>L'. settle i u L = Inr L' \<and> ledger_inv L' \<and> map_of (lb_active L') = (map_of (lb_active L))(i := None)
    \<and> set (keys (lb_settled L')) = insert i (set (keys (lb_settled L))) \<and> lb_budget L' = lb_budget L"
proof -
  note I = ledger_invD [OF inv]
  obtain p where p: "usage_plus (lb_consumed L) u = Inr p" "valid_usage p" "\<And>d. spent d p = spent d (lb_consumed L) + spent d u"
    using usage_plus_total [OF I(6) u(1)] by blast
  let ?L = "L\<lparr>lb_active := ddel i (lb_active L), lb_settled := dput i u (lb_settled L), lb_consumed := p\<rparr>"
  have split: "reserved_sum d L = child_limit d (budget c) + reserved_sum d ?L" for d
    using sum_vals_ddel [OF I(1) c, of "\<lambda>c. child_limit d (budget c)"] by (simp add: reserved_sum_def)
  have nn: "0 \<le> reserved_sum d ?L" for d
    unfolding reserved_sum_def
    by (rule sum_list_nonneg) (use I(4) in \<open>auto simp: valid_limits_def AList.delete_eq\<close>)
  have le: "spent d p + reserved_sum d ?L \<le> team_limit d (lb_budget L)" for d
    using I(8) [of d] p(3) [of d] split [of d] u(2) [unfolded within_child_def, rule_format, of d] by linarith
  have team: "spent d p \<le> team_limit d (lb_budget L)" for d using le [of d] nn [of d] by linarith
  have fresh: "map_of (lb_settled L) i = None"
  proof -
    have "i \<in> set (keys (lb_active L))" using c by (force dest: map_of_SomeD)
    then have "i \<notin> set (keys (lb_settled L))" using I(3) by blast
    then show ?thesis by (simp add: map_of_eq_None_iff)
  qed
  have "settle i u L = Inr ?L" using c u(2) p(1) team by (simp add: settle_def)
  moreover have "ledger_inv ?L"
    unfolding ledger_inv_def
  proof (intro conjI)
    show "wf_dict (lb_active ?L)" "wf_dict (lb_settled ?L)" using I(1,2) by simp_all
    show "set (keys (lb_active ?L)) \<inter> set (keys (lb_settled ?L)) = {}"
      using I(3) by (auto simp: AList.dom_update simp flip: dom_map_of_conv_image_fst)
    show "\<forall>c \<in> set (vals (lb_active ?L)). valid_limits (budget c)"
      using I(4) by (auto simp: AList.delete_eq)
    show "\<forall>i c. map_of (lb_active ?L) i = Some c \<longrightarrow> contract_id c = i" using I(5) by simp
    show "valid_usage (lb_consumed ?L)" using p(2) by simp
    show "\<forall>d. spent d (lb_consumed ?L) = sum_list (map (spent d) (vals (lb_settled ?L)))"
      using p(3) I(7) by (simp add: dput_fresh [OF fresh])
    show "\<forall>d. spent d (lb_consumed ?L) + reserved_sum d ?L \<le> team_limit d (lb_budget ?L)" using le by simp
    have "length (ddel i (lb_active L)) \<le> length (lb_active L)" by (rule AList.length_delete_le)
    then show "int (length (lb_active ?L)) \<le> tb_max_concurrency (lb_budget ?L)" using I(9) by simp
    show "\<forall>i j a b. map_of (lb_active ?L) i = Some a \<longrightarrow> map_of (lb_active ?L) j = Some b \<longrightarrow> i \<noteq> j \<longrightarrow> scopes_disjoint a b"
      using I(10) by simp
  qed
  moreover have "map_of (lb_active ?L) = (map_of (lb_active L))(i := None)" by simp
  moreover have "set (keys (lb_settled ?L)) = insert i (set (keys (lb_settled L)))"
    by (auto simp: AList.dom_update simp flip: dom_map_of_conv_image_fst)
  ultimately show ?thesis by (intro exI [of _ ?L]) simp
qed

section \<open>The contract of a budget ledger\<close>

text \<open>\<open>live\<close> are the reservations, \<open>ended\<close> the ids that were settled. A reservation may be refused; a live one
  settles within its limits without fail, and its id is never live again.\<close>

locale budget_ledger =
  fixes reserve_op :: "SubagentContract \<Rightarrow> 's \<Rightarrow> 's result"
    and settle_op :: "string \<Rightarrow> BudgetUsage \<Rightarrow> 's \<Rightarrow> 's result"
    and live :: "'s \<Rightarrow> string \<Rightarrow> SubagentContract option"
    and ended :: "'s \<Rightarrow> string set"
    and ok :: "'s \<Rightarrow> bool"
  assumes reserved_law: "ok s \<Longrightarrow> valid_limits (budget c) \<Longrightarrow> reserve_op c s = Inr s' \<Longrightarrow>
      ok s' \<and> live s' = (live s)(contract_id c \<mapsto> c) \<and> ended s' = ended s
      \<and> live s (contract_id c) = None \<and> contract_id c \<notin> ended s"
    and settled_law: "ok s \<Longrightarrow> live s i = Some c \<Longrightarrow> valid_usage u \<Longrightarrow> within_child u (budget c) \<Longrightarrow>
      \<exists>s'. settle_op i u s = Inr s' \<and> ok s' \<and> live s' = (live s)(i := None) \<and> ended s' = insert i (ended s)"
    and unknown_law: "live s i = None \<Longrightarrow> \<exists>e. settle_op i u s = Inl e"
    and live_law: "ok s \<Longrightarrow> live s i = Some c \<Longrightarrow> contract_id c = i \<and> i \<notin> ended s"
begin

text \<open>An id is reserved at most once in the life of a ledger.\<close>

lemma reserve_once: "ok s \<Longrightarrow> valid_limits (budget c) \<Longrightarrow> reserve_op c s = Inr s' \<Longrightarrow> valid_limits (budget c')
    \<Longrightarrow> contract_id c' = contract_id c \<Longrightarrow> \<exists>e. reserve_op c' s' = Inl e"
  using reserved_law by (metis fun_upd_same option.distinct(1) sum.exhaust)

text \<open>A batch of settlements of distinct live reservations never fails.\<close>

lemma settle_batch:
  assumes "ok s" and "distinct (map fst us)"
    and "\<And>i u. (i, u) \<in> set us \<Longrightarrow> \<exists>c. live s i = Some c \<and> valid_usage u \<and> within_child u (budget c)"
  shows "\<exists>s'. rfold (\<lambda>(i, u). settle_op i u) us s = Inr s' \<and> ok s'
    \<and> live s' = (\<lambda>i. if i \<in> fst ` set us then None else live s i) \<and> ended s' = ended s \<union> fst ` set us"
  using assms
proof (induction us arbitrary: s)
  case (Cons p us)
  obtain i u where p: "p = (i, u)" by (cases p)
  from Cons.prems(3) [of i u] p obtain c where "live s i = Some c" "valid_usage u" "within_child u (budget c)" by auto
  from settled_law [OF Cons.prems(1) this] obtain t
    where t: "settle_op i u s = Inr t" "ok t" "live t = (live s)(i := None)" "ended t = insert i (ended s)" by blast
  have "\<exists>c. live t j = Some c \<and> valid_usage v \<and> within_child v (budget c)" if "(j, v) \<in> set us" for j v
  proof -
    have "j \<noteq> i" using Cons.prems(2) p that by force
    with Cons.prems(3) [of j v] that t(3) show ?thesis by simp
  qed
  from Cons.IH [OF t(2) _ this] Cons.prems(2) p t show ?case by (auto simp: fun_eq_iff)
qed (auto simp: fun_eq_iff)

end

interpretation team_ledger: budget_ledger reserve settle "\<lambda>L. map_of (lb_active L)" "\<lambda>L. set (keys (lb_settled L))" ledger_inv
proof unfold_locales
  fix L L' :: TeamBudgetLedger and c i u
  show "ledger_inv L' \<and> map_of (lb_active L') = (map_of (lb_active L))(contract_id c \<mapsto> c)
      \<and> set (keys (lb_settled L')) = set (keys (lb_settled L))
      \<and> map_of (lb_active L) (contract_id c) = None \<and> contract_id c \<notin> set (keys (lb_settled L))"
    if "ledger_inv L" "valid_limits (budget c)" "reserve c L = Inr L'"
    using reserve_inv [OF that] reserve_live [OF that] reserve_Inr(1,3,4) [OF that]
    by (simp add: map_of_eq_None_iff)
  show "\<exists>s'. settle i u L = Inr s' \<and> ledger_inv s' \<and> map_of (lb_active s') = (map_of (lb_active L))(i := None)
      \<and> set (keys (lb_settled s')) = insert i (set (keys (lb_settled L)))"
    if "ledger_inv L" "map_of (lb_active L) i = Some c" "valid_usage u" "within_child u (budget c)"
    using settle_total [OF that] by blast
  show "\<exists>e. settle i u L = Inl e" if "map_of (lb_active L) i = None" using that by (simp add: settle_def)
  show "contract_id c = i \<and> i \<notin> set (keys (lb_settled L))" if "ledger_inv L" "map_of (lb_active L) i = Some c"
    using ledger_invD(3,5) [OF that(1)] that(2) by (force dest: map_of_SomeD)
qed

section \<open>Runs of a ledger\<close>

inductive ledger_run :: "TeamBudget \<Rightarrow> TeamBudgetLedger \<Rightarrow> bool" for b :: TeamBudget where
  start: "mk_TeamBudget b = Inr b \<Longrightarrow> ledger_run b (new_ledger b)"
| reserving: "ledger_run b L \<Longrightarrow> mk_ExecutionBudget (budget c) = Inr (budget c) \<Longrightarrow> reserve c L = Inr L' \<Longrightarrow> ledger_run b L'"
| settling: "ledger_run b L \<Longrightarrow> mk_BudgetUsage u = Inr u \<Longrightarrow> settle i u L = Inr L' \<Longrightarrow> ledger_run b L'"

lemma settle_Inr:
  assumes "settle i u L = Inr L'"
  shows "\<exists>c. map_of (lb_active L) i = Some c \<and> within_child u (budget c)" "lb_budget L' = lb_budget L"
  using assms by (auto simp: settle_def split: option.splits)

lemma ledger_run_inv: "ledger_run b L \<Longrightarrow> ledger_inv L \<and> lb_budget L = b"
proof (induction rule: ledger_run.induct)
  case start
  then show ?case using ledger_inv_new by (simp add: new_ledger_def)
next
  case (reserving L c L')
  then have inv: "ledger_inv L" and lim: "valid_limits (budget c)" by (auto dest: mk_ExecutionBudget_valid)
  from reserve_inv [OF inv lim reserving.hyps(3)] reserve_Inr(1) [OF inv lim reserving.hyps(3)] reserving.IH
  show ?case by simp
next
  case (settling L u i L')
  then obtain c where "map_of (lb_active L) i = Some c" "within_child u (budget c)" using settle_Inr by blast
  with settle_total [of L i c u] settling show ?case by auto
qed

text \<open>C2. The team budget is never overbooked: in every run, what settled children used plus the full
  reservations of the running ones stays within the team budget in every dimension, concurrency
  stays within its limit, and no two running children of one worktree may write a common path.\<close>

theorem ledger_never_overbooks:
  assumes "ledger_run b L"
  shows "(\<forall>d. sum_list (map (spent d) (vals (lb_settled L))) + sum_list (map (\<lambda>c. child_limit d (budget c)) (vals (lb_active L)))
            \<le> team_limit d b)
    \<and> int (length (lb_active L)) \<le> tb_max_concurrency b
    \<and> (\<forall>i j a c l r. map_of (lb_active L) i = Some a \<and> map_of (lb_active L) j = Some c \<and> i \<noteq> j
        \<and> worktree_id a = worktree_id c \<and> l \<in> set (writable_paths a) \<and> r \<in> set (writable_paths c) \<longrightarrow> \<not> paths_overlap l r)"
proof -
  have inv: "ledger_inv L" and b: "lb_budget L = b" using ledger_run_inv [OF assms] by auto
  note I = ledger_invD [OF inv]
  have "sum_list (map (spent d) (vals (lb_settled L))) + sum_list (map (\<lambda>c. child_limit d (budget c)) (vals (lb_active L)))
      \<le> team_limit d b" for d
    using I(8) [of d] unfolding I(7) [of d] reserved_sum_def b .
  moreover have "int (length (lb_active L)) \<le> tb_max_concurrency b" using I(9) b by simp
  moreover have "\<not> paths_overlap l r" if "map_of (lb_active L) i = Some a" "map_of (lb_active L) j = Some c" "i \<noteq> j"
     "worktree_id a = worktree_id c" "l \<in> set (writable_paths a)" "r \<in> set (writable_paths c)" for i j a c l r
    using I(10) [OF that(1-3)] that(4-6) by (auto simp: scopes_disjoint_def)
  ultimately show ?thesis by blast
qed

text \<open>No reservation is stranded: in every run, settling a running child with any usage within its own
  budget succeeds, ends the reservation for good, and leaves the ledger able to report; the
  snapshot's remaining budget is exactly what is neither used nor reserved.\<close>

theorem settlement_always_possible:
  assumes run: "ledger_run b L" and c: "map_of (lb_active L) i = Some c"
    and u: "mk_BudgetUsage u = Inr u" "\<forall>d. spent d u \<le> child_limit d (budget c)"
  shows "\<exists>L' s. settle i u L = Inr L' \<and> map_of (lb_active L') i = None \<and> i \<in> set (keys (lb_settled L'))
    \<and> ledger_snapshot L' = Inr s
    \<and> (\<forall>d. spent d (tbs_remaining s) = team_limit d b - spent d (tbs_consumed s) - spent d (tbs_reserved s))"
proof -
  have inv: "ledger_inv L" and b: "lb_budget L = b" using ledger_run_inv [OF run] by auto
  have vu: "valid_usage u" "within_child u (budget c)" using u by (auto simp: within_child_def)
  from settle_total [OF inv c vu] b obtain L' where s: "settle i u L = Inr L'" "ledger_inv L'"
    "map_of (lb_active L') = (map_of (lb_active L))(i := None)"
    "set (keys (lb_settled L')) = insert i (set (keys (lb_settled L)))" "lb_budget L' = b" by auto
  note I = ledger_invD [OF s(2)]
  obtain r where r: "reserved L' = Inr r" "valid_usage r" "\<And>d. spent d r = reserved_sum d L'"
    using reserved_total [OF I(4)] by blast
  obtain a where a: "usage_plus (lb_consumed L') r = Inr a" "\<And>d. spent d a = spent d (lb_consumed L') + spent d r"
    using usage_plus_total [OF I(6) r(2)] by blast
  let ?m = "\<lparr>bu_wall_seconds = tb_wall_seconds b - bu_wall_seconds a, bu_tokens = tb_token_limit b - bu_tokens a,
      bu_tool_calls = tb_tool_call_limit b - bu_tool_calls a, bu_cost = tb_cost_limit b - bu_cost a\<rparr>"
  have m: "spent d ?m = team_limit d b - spent d a" for d by (cases d) auto
  have "valid_usage ?m"
    unfolding valid_usage_def
  proof
    show "0 \<le> spent d ?m" for d using m [of d] a(2) [of d] r(3) [of d] I(8) [of d] s(5) by simp
  qed
  then have "ledger_snapshot L' = Inr \<lparr>tbs_team_id = tb_team_id b, tbs_consumed = lb_consumed L', tbs_reserved = r,
      tbs_remaining = ?m, tbs_active_contract_ids = sort (keys (lb_active L'))\<rparr>"
    using r(1) a(1) by (simp add: ledger_snapshot_def s(5))
  moreover have "spent d ?m = team_limit d b - spent d (lb_consumed L') - spent d r" for d
    using m a(2) by (simp add: algebra_simps)
  ultimately show ?thesis using s(1,3,4)
    by (intro exI [of _ L'] exI [of _ "\<lparr>tbs_team_id = tb_team_id b, tbs_consumed = lb_consumed L', tbs_reserved = r,
      tbs_remaining = ?m, tbs_active_contract_ids = sort (keys (lb_active L'))\<rparr>"]) simp
qed

definition demo_team :: TeamBudget where
  "demo_team = \<lparr>tb_team_id = ''team'', tb_wall_seconds = 100, tb_token_limit = 100, tb_tool_call_limit = 100,
     tb_cost_limit = 100, tb_max_concurrency = 2\<rparr>"

definition demo_ledger :: TeamBudgetLedger where
  "demo_ledger = (new_ledger demo_team)\<lparr>lb_active := [(''c2'', demo_contract)]\<rparr>"

lemma demo_ledger_run: "ledger_run demo_team demo_ledger"
proof -
  have "mk_TeamBudget demo_team = Inr demo_team" by code_simp
  moreover have "mk_ExecutionBudget (budget demo_contract) = Inr (budget demo_contract)" by code_simp
  moreover have "reserve demo_contract (new_ledger demo_team) = Inr demo_ledger" by code_simp
  ultimately show ?thesis by (blast intro: ledger_run.intros)
qed

theorem ledger_never_overbooks_witness:
  "spent Tokens no_usage + child_limit Tokens (budget demo_contract) = 60
   \<and> sum_list (map (spent Tokens) (vals (lb_settled demo_ledger)))
       + sum_list (map (\<lambda>c. child_limit Tokens (budget c)) (vals (lb_active demo_ledger))) \<le> team_limit Tokens demo_team"
proof
  show "spent Tokens no_usage + child_limit Tokens (budget demo_contract) = 60"
    by (simp add: demo_contract_def demo_budget_def)
qed (use ledger_never_overbooks [OF demo_ledger_run] in blast)

theorem settlement_always_possible_witness:
  "\<exists>L' s. settle ''c2'' no_usage demo_ledger = Inr L' \<and> map_of (lb_active L') ''c2'' = None \<and> ledger_snapshot L' = Inr s
     \<and> spent Tokens (tbs_remaining s) = 100 - spent Tokens (tbs_consumed s) - spent Tokens (tbs_reserved s)"
proof -
  have c: "map_of (lb_active demo_ledger) ''c2'' = Some demo_contract" by (simp add: demo_ledger_def)
  have u: "mk_BudgetUsage no_usage = Inr no_usage" by simp
  have lim: "\<forall>d. spent d no_usage \<le> child_limit d (budget demo_contract)"
    by (simp add: all_dim_iff demo_contract_def demo_budget_def)
  have t: "team_limit Tokens demo_team = 100" by (simp add: demo_team_def)
  from settlement_always_possible [OF demo_ledger_run c u lim] show ?thesis unfolding t [symmetric] by blast
qed

end
