(* ===== verification/SwarmControl.thy ===== *)
theory SwarmControl
  imports Ledger
begin

text \<open>
  The swarm scheduler (\<open>SwarmScheduler\<close> in \<open>src/skharness/arena/swarm_control.py\<close>): plan and contract
  registration, phase receipts and authorizations, admission over the budget ledger, liveness
  leases, usage deliveries, completion, cancellation, expiry and the ledger rebuild of recovery.

  Every method runs under the scheduler's lock and is one step. A method takes its clock readings
  as arguments in the order the code reads them; \<open>fin\<close> gives the reading of \<open>_finalize_elapsed\<close> for
  each lease. Some methods write before they raise, so a method returns its result beside the
  scheduler. \<open>_persist\<close> writes a JSON checkpoint and changes nothing in memory; the checkpoint is
  not part of the state, and \<open>recover\<close> starts from the decoded checkpoint.
\<close>

section \<open>State\<close>

datatype WorkerLeaseState = ACTIVE | FINISHED | OVER_BUDGET | CANCELLED | TIMED_OUT

datatype SwarmAdmissionReason = R_BUDGET | R_WRITE_CONFLICT | R_AUTHORIZATION | R_DUPLICATE | R_TEAM_CANCELLED

record WorkerLease =
  w_lease_id :: string
  w_contract :: SubagentContract
  w_idempotency_key :: string
  w_acquired_at :: real
  w_expires_at :: real
  w_deadline_at :: real
  w_state :: WorkerLeaseState
  w_usage :: BudgetUsage
  w_settled_usage :: "BudgetUsage option"
  w_overage_dimensions :: "string list"
  w_result :: "SubagentResult option"
  w_terminal_reason :: "string option"
  w_stop_required :: bool

definition worker_active :: "WorkerLease \<Rightarrow> real \<Rightarrow> bool" where
  "worker_active l now = (w_state l = ACTIVE \<and> now < min (w_expires_at l) (w_deadline_at l))"

record SwarmAdmission =
  sa_admitted :: bool
  sa_lease :: "WorkerLease option"
  sa_reason :: "SwarmAdmissionReason option"
  sa_duplicate :: bool

record UsageSettlement =
  us_lease_id :: string
  us_observed :: BudgetUsage
  us_accounted :: BudgetUsage
  us_overage_dimensions :: "string list"
  us_duplicate :: bool

record SwarmScheduler =
  sw_budget :: TeamBudget
  sw_identity :: SwarmIdentity
  sw_orchestrator_id :: string
  sw_lease_ttl_s :: real
  sw_ledger :: TeamBudgetLedger
  sw_plan :: "SwarmPlan option"
  sw_contracts :: "(string \<times> SubagentContract) list"
  sw_leases :: "(string \<times> WorkerLease) list"
  sw_by_key :: "(string \<times> string) list"
  sw_usage_deliveries :: "(string \<times> (string \<times> BudgetUsage)) list"
  sw_terminal_usage_deliveries :: "(string \<times> (string \<times> BudgetUsage)) list"
  sw_receipts :: "(string \<times> PhaseReceipt) list"
  sw_receipt_by_contract :: "(string \<times> string) list"
  sw_authorizations :: "(string \<times> PhaseAuthorization) list"
  sw_consumed_authorizations :: "(string \<times> string) list"
  sw_cancelled :: bool
  sw_cancel_reason :: "string option"

definition new_swarm :: "TeamBudget \<Rightarrow> SwarmIdentity \<Rightarrow> string \<Rightarrow> real \<Rightarrow> SwarmScheduler result" where
  "new_swarm b i orch ttl = check
     [(blank orch, SwarmContractError ''orchestrator_id must not be empty''),
      (ttl \<le> 0, SwarmContractError ''lease_ttl_s must be positive'')]
     (Inr \<lparr>sw_budget = b, sw_identity = i, sw_orchestrator_id = orch, sw_lease_ttl_s = ttl, sw_ledger = new_ledger b,
           sw_plan = None, sw_contracts = [], sw_leases = [], sw_by_key = [], sw_usage_deliveries = [],
           sw_terminal_usage_deliveries = [], sw_receipts = [], sw_receipt_by_contract = [], sw_authorizations = [],
           sw_consumed_authorizations = [], sw_cancelled = False, sw_cancel_reason = None\<rparr>)"

section \<open>Sequencing\<close>

type_synonym 'a swarm_call = "'a result \<times> SwarmScheduler"

fun sfold :: "('x \<Rightarrow> 's \<Rightarrow> unit result \<times> 's) \<Rightarrow> 'x list \<Rightarrow> 's \<Rightarrow> unit result \<times> 's" where
  "sfold f [] s = (Inr (), s)"
| "sfold f (x # xs) s = sbind (f x s) (\<lambda>_. sfold f xs)"

definition with_ledger :: "(TeamBudgetLedger \<Rightarrow> TeamBudgetLedger result) \<Rightarrow> SwarmScheduler \<Rightarrow> unit swarm_call" where
  "with_ledger f s = (case f (sw_ledger s) of Inl e \<Rightarrow> (Inl e, s) | Inr L \<Rightarrow> (Inr (), s\<lparr>sw_ledger := L\<rparr>))"

definition put_worker :: "WorkerLease \<Rightarrow> SwarmScheduler \<Rightarrow> SwarmScheduler" where
  "put_worker l s = s\<lparr>sw_leases := dput (w_lease_id l) l (sw_leases s)\<rparr>"

section \<open>Registration\<close>

definition register_plan :: "SwarmPlan \<Rightarrow> SwarmScheduler \<Rightarrow> unit swarm_call" where
  "register_plan pl s =
     (if plan_identity pl \<noteq> sw_identity s
      then (Inl (SwarmContractError ''swarm plan identity does not match scheduler identity''), s)
      else case sw_plan s of
          Some old \<Rightarrow> (if old \<noteq> pl then Inl (SwarmContractError ''scheduler already owns a different swarm plan'') else Inr (), s)
        | None \<Rightarrow>
            if sw_contracts s \<noteq> [] \<or> sw_leases s \<noteq> []
            then (Inl (SwarmContractError ''swarm plan must be registered before child work''), s)
            else (Inr (), s\<lparr>sw_plan := Some pl\<rparr>))"

definition require_team_contract :: "SubagentContract \<Rightarrow> SwarmScheduler \<Rightarrow> unit result" where
  "require_team_contract c s = check
     [(team_id c \<noteq> tb_team_id (sw_budget s) \<or> identity c \<noteq> sw_identity s \<or> parent_agent_id c \<noteq> sw_orchestrator_id s,
       SwarmContractError ''child contract is not bound to scheduler authority'')] (Inr ())"

definition register :: "hashes \<Rightarrow> SubagentContract \<Rightarrow> SwarmScheduler \<Rightarrow> unit swarm_call" where
  "register H c s =
     sbind (pure_call (require_team_contract c s) s) (\<lambda>_ s.
       case sw_plan s of
         None \<Rightarrow> (Inl (SwarmContractError ''an immutable swarm plan is required before contracts''), s)
       | Some pl \<Rightarrow>
           sbind (pure_call (require_contract_plan H c pl) s) (\<lambda>_ s.
             case map_of (sw_contracts s) (contract_id c) of
               Some prior \<Rightarrow> (if prior \<noteq> c then Inl (SwarmContractError ''contract ID collision'') else Inr (), s)
             | None \<Rightarrow>
                 if \<exists>d \<in> set (vals (sw_contracts s)). child_agent_id d = child_agent_id c
                 then (Inl (SwarmContractError ''a child identity may have only one team contract''), s)
                 else if \<exists>d \<in> set (vals (sw_contracts s)). c_lease_id d = c_lease_id c
                 then (Inl (SwarmContractError ''worker lease ID collision''), s)
                 else (Inr (), s\<lparr>sw_contracts := dput (contract_id c) c (sw_contracts s)\<rparr>)))"

section \<open>Receipts and authorizations\<close>

text \<open>The first lease of a contract, in the order of the lease table.\<close>

definition lease_of_contract :: "string \<Rightarrow> SwarmScheduler \<Rightarrow> WorkerLease option" where
  "lease_of_contract k s = find (\<lambda>l. contract_id (w_contract l) = k) (vals (sw_leases s))"

definition receipt_backed :: "hashes \<Rightarrow> PhaseReceipt \<Rightarrow> SwarmScheduler \<Rightarrow> bool" where
  "receipt_backed H r s =
     (case lease_of_contract (rc_contract_id r) s of
        None \<Rightarrow> False
      | Some l0 \<Rightarrow> (case map_of (sw_leases s) (w_lease_id l0) of
            None \<Rightarrow> False
          | Some l \<Rightarrow> w_state l = FINISHED
              \<and> (case w_result l of None \<Rightarrow> False | Some res \<Rightarrow> h_result H res = rc_result_hash r)))"

definition owned_receipts :: "hashes \<Rightarrow> string list \<Rightarrow> SwarmScheduler \<Rightarrow> PhaseReceipt list result" where
  "owned_receipts H hs s = check
     [(\<not> distinct hs, SwarmContractError ''predecessor receipt hashes must be unique'')]
     (rbind (rmap (\<lambda>h. case map_of (sw_receipts s) h of
                None \<Rightarrow> Inl (SwarmContractError ''phase input is not a scheduler-owned receipt'') | Some r \<Rightarrow> Inr r) hs) (\<lambda>rs.
        check (map (\<lambda>r. (\<not> receipt_backed H r s,
                SwarmStateError ''phase receipt is not backed by a finished scheduler lease'')) rs) (Inr rs)))"

definition record_phase_receipt :: "hashes \<Rightarrow> string \<Rightarrow> string list \<Rightarrow> datetime \<Rightarrow> SwarmScheduler
    \<Rightarrow> PhaseReceipt swarm_call" where
  "record_phase_receipt H lid hs now s =
     (let fail = (Inl (SwarmStateError ''phase receipts require an exactly finished worker result''), s)
      in case map_of (sw_leases s) lid of
           None \<Rightarrow> fail
         | Some l \<Rightarrow> (case w_result l of
               None \<Rightarrow> fail
             | Some res \<Rightarrow>
                 if w_state l \<noteq> FINISHED then fail
                 else (case map_of (sw_receipt_by_contract s) (contract_id (w_contract l)) of
                     Some h \<Rightarrow> (case map_of (sw_receipts s) h of None \<Rightarrow> (Inl (KeyError h), s) | Some r \<Rightarrow> (Inr r, s))
                   | None \<Rightarrow>
                       sbind (pure_call (owned_receipts H hs s) s) (\<lambda>predecessors s.
                       sbind (pure_call (from_result H (w_contract l) res predecessors now) s) (\<lambda>receipt s.
                         (Inr receipt, s\<lparr>sw_receipts := dput (h_receipt H receipt) receipt (sw_receipts s),
                            sw_receipt_by_contract := dput (rc_contract_id receipt) (h_receipt H receipt) (sw_receipt_by_contract s)\<rparr>))))))"

definition issue_phase_authorization :: "hashes \<Rightarrow> string \<Rightarrow> string list \<Rightarrow> datetime \<Rightarrow> SwarmScheduler
    \<Rightarrow> PhaseAuthorization swarm_call" where
  "issue_phase_authorization H k hs now s =
     (case map_of (sw_contracts s) k of
        None \<Rightarrow> (Inl (SwarmContractError ''phase authorization requires a registered contract''), s)
      | Some c \<Rightarrow>
          sbind (pure_call (owned_receipts H hs s) s) (\<lambda>predecessors s.
          sbind (pure_call (issue H c predecessors (sw_orchestrator_id s) now) s) (\<lambda>a s.
            if (case find (\<lambda>p. au_contract_id p = k) (vals (sw_authorizations s)) of None \<Rightarrow> False | Some p \<Rightarrow> p \<noteq> a)
            then (Inl (SwarmStateError ''contract already has a different phase authorization''), s)
            else (Inr a, s\<lparr>sw_authorizations := dput (h_authorization H a) a (sw_authorizations s)\<rparr>))))"

section \<open>Ending leases\<close>

definition finalize_elapsed :: "real \<Rightarrow> WorkerLease \<Rightarrow> WorkerLease" where
  "finalize_elapsed t l =
     (let elapsed = min (eb_wall_seconds (budget (w_contract l))) (max (bu_wall_seconds (w_usage l)) (t - w_acquired_at l))
      in l\<lparr>w_usage := (w_usage l)\<lparr>bu_wall_seconds := elapsed\<rparr>\<rparr>)"

text \<open>What every terminal transition does: finalize the elapsed time, mark the lease (\<open>mark\<close>), record the
  usage as settled, settle it in the ledger.\<close>

definition close_lease :: "real \<Rightarrow> (WorkerLease \<Rightarrow> WorkerLease) \<Rightarrow> WorkerLease \<Rightarrow> SwarmScheduler \<Rightarrow> unit swarm_call" where
  "close_lease t mark l s =
     (let l1 = finalize_elapsed t l; l2 = (mark l1)\<lparr>w_settled_usage := Some (w_usage l1)\<rparr>
      in with_ledger (settle (contract_id (w_contract l)) (w_usage l1)) (put_worker l2 s))"

definition expired_workers :: "real \<Rightarrow> SwarmScheduler \<Rightarrow> string list" where
  "expired_workers now s = sort (map w_lease_id
     (filter (\<lambda>l. w_state l = ACTIVE \<and> min (w_expires_at l) (w_deadline_at l) \<le> now) (vals (sw_leases s))))"

definition mark_timed_out :: "real \<Rightarrow> WorkerLease \<Rightarrow> WorkerLease" where
  "mark_timed_out now l = l\<lparr>w_state := TIMED_OUT,
     w_terminal_reason := Some (if w_deadline_at l \<le> now then ''hard_deadline_exceeded'' else ''heartbeat_expired''),
     w_stop_required := True\<rparr>"

definition mark_cancelled :: "string \<Rightarrow> WorkerLease \<Rightarrow> WorkerLease" where
  "mark_cancelled reason l = l\<lparr>w_state := CANCELLED, w_terminal_reason := Some reason, w_stop_required := True\<rparr>"

definition close_by_id :: "(string \<Rightarrow> real) \<Rightarrow> (WorkerLease \<Rightarrow> WorkerLease) \<Rightarrow> string \<Rightarrow> SwarmScheduler \<Rightarrow> unit swarm_call" where
  "close_by_id fin mark i s =
     (case map_of (sw_leases s) i of None \<Rightarrow> (Inl (KeyError i), s) | Some l \<Rightarrow> close_lease (fin i) mark l s)"

definition expire_locked :: "real \<Rightarrow> (string \<Rightarrow> real) \<Rightarrow> SwarmScheduler \<Rightarrow> string list swarm_call" where
  "expire_locked now fin s =
     (let expired = expired_workers now s
      in sbind (sfold (close_by_id fin (mark_timed_out now)) expired s) (\<lambda>_ s. (Inr expired, s)))"

definition reap_timeouts :: "real \<Rightarrow> (string \<Rightarrow> real) \<Rightarrow> SwarmScheduler \<Rightarrow> string list swarm_call" where
  "reap_timeouts now fin s = expire_locked now fin s"

definition cancel_worker :: "string \<Rightarrow> string \<Rightarrow> real \<Rightarrow> SwarmScheduler \<Rightarrow> string list swarm_call" where
  "cancel_worker lid reason t s =
     (if blank reason then (Inl (SwarmContractError ''cancellation reason must not be empty''), s)
      else case map_of (sw_leases s) lid of
          None \<Rightarrow> (Inr [], s)
        | Some l \<Rightarrow> if w_state l \<noteq> ACTIVE then (Inr [], s)
            else sbind (close_lease t (mark_cancelled reason) l s) (\<lambda>_ s. (Inr [lid], s)))"

definition cancel_team :: "string \<Rightarrow> (string \<Rightarrow> real) \<Rightarrow> SwarmScheduler \<Rightarrow> string list swarm_call" where
  "cancel_team reason fin s =
     (if blank reason then (Inl (SwarmContractError ''cancellation reason must not be empty''), s)
      else if sw_cancelled s then (Inr [], s)
      else (let s = s\<lparr>sw_cancelled := True, sw_cancel_reason := Some reason\<rparr>;
                active = sort (map w_lease_id (filter (\<lambda>l. w_state l = ACTIVE) (vals (sw_leases s))))
            in sbind (sfold (close_by_id fin (mark_cancelled reason)) active s) (\<lambda>_ s. (Inr active, s))))"

section \<open>Admission\<close>

definition swarm_refused :: "SwarmAdmissionReason \<Rightarrow> bool \<Rightarrow> SwarmAdmission" where
  "swarm_refused r dup = \<lparr>sa_admitted = False, sa_lease = None, sa_reason = Some r, sa_duplicate = dup\<rparr>"

definition require_admission_authorization :: "hashes \<Rightarrow> SubagentContract \<Rightarrow> PhaseAuthorization option \<Rightarrow> SwarmScheduler
    \<Rightarrow> string option result" where
  "require_admission_authorization H c authorization s =
     (case sw_plan s of
        None \<Rightarrow> Inl (SwarmStateError ''scheduler has no immutable swarm plan'')
      | Some pl \<Rightarrow> rbind (require_contract_plan H c pl) (\<lambda>p.
          if predecessor_phase_ids p = [] then check
            [(authorization \<noteq> None, SwarmContractError ''root phases must not consume downstream authorization''),
             (phase_inputs c \<noteq> [], SwarmContractError ''root phase contract cannot contain predecessor inputs'')] (Inr None)
          else (case authorization of
              None \<Rightarrow> Inl (SwarmContractError ''non-root phase admission requires authorization'')
            | Some a \<Rightarrow> rbind (require_contract H a c (sw_orchestrator_id s)) (\<lambda>_.
                let digest = h_authorization H a in check
                [(map_of (sw_authorizations s) digest \<noteq> Some a, SwarmStateError ''phase authorization was not issued by this scheduler''),
                 (digest \<in> set (keys (sw_consumed_authorizations s)), SwarmStateError ''phase authorization has already been consumed'')]
                (rbind (owned_receipts H (au_predecessor_receipt_hashes a) s) (\<lambda>predecessors.
                 rbind (rmap (phase pl) (predecessor_phase_ids p)) (\<lambda>ps.
                   let expected = remdups (concat (map contract_ids ps)) in check
                   [(set (map rc_contract_id predecessors) \<noteq> set expected \<or> length predecessors \<noteq> length expected,
                       SwarmStateError ''authorization omits or substitutes planned predecessors''),
                    (list_ex (\<lambda>r. rc_disposition r \<noteq> COMPLETED) predecessors,
                       SwarmStateError ''authorization predecessors are not completed'')] (Inr (Some digest)))))))))"

text \<open>The end of \<open>admit\<close>: the lease itself, once the budget is reserved at clock reading \<open>now\<close>.\<close>

definition new_worker :: "SubagentContract \<Rightarrow> string \<Rightarrow> real \<Rightarrow> real \<Rightarrow> WorkerLease" where
  "new_worker c key ttl now =
     (let deadline = now + eb_wall_seconds (budget c)
      in \<lparr>w_lease_id = c_lease_id c, w_contract = c, w_idempotency_key = key, w_acquired_at = now,
          w_expires_at = min (now + ttl) deadline, w_deadline_at = deadline, w_state = ACTIVE, w_usage = no_usage,
          w_settled_usage = None, w_overage_dimensions = [], w_result = None, w_terminal_reason = None,
          w_stop_required = False\<rparr>)"

definition grant_worker :: "SubagentContract \<Rightarrow> string \<Rightarrow> string option \<Rightarrow> real \<Rightarrow> SwarmScheduler \<Rightarrow> SwarmAdmission swarm_call" where
  "grant_worker c key auth now s =
     (let l = new_worker c key (sw_lease_ttl_s s) now;
          s1 = put_worker l s;
          s2 = s1\<lparr>sw_by_key := dput key (w_lease_id l) (sw_by_key s1)\<rparr>;
          s3 = (case auth of None \<Rightarrow> s2
                | Some h \<Rightarrow> s2\<lparr>sw_consumed_authorizations := dput h (w_lease_id l) (sw_consumed_authorizations s2)\<rparr>)
      in (Inr \<lparr>sa_admitted = True, sa_lease = Some l, sa_reason = None, sa_duplicate = False\<rparr>, s3))"

text \<open>The part of \<open>admit\<close> after the idempotency lookup.\<close>

definition admit_fresh :: "hashes \<Rightarrow> SubagentContract \<Rightarrow> string \<Rightarrow> PhaseAuthorization option \<Rightarrow> real \<Rightarrow> SwarmScheduler
    \<Rightarrow> SwarmAdmission swarm_call" where
  "admit_fresh H c key authorization now s =
     (if sw_cancelled s then (Inr (swarm_refused R_TEAM_CANCELLED False), s)
      else if \<exists>l \<in> set (vals (sw_leases s)). contract_id (w_contract l) = contract_id c
      then (Inr (swarm_refused R_DUPLICATE True), s)
      else case require_admission_authorization H c authorization s of
          Inl e \<Rightarrow> if is_contract_error e \<or> is_state_error e then (Inr (swarm_refused R_AUTHORIZATION False), s) else (Inl e, s)
        | Inr auth \<Rightarrow> (case reserve c (sw_ledger s) of
              Inl e \<Rightarrow> if is_budget_error e then (Inr (swarm_refused R_BUDGET False), s)
                  else if is_contract_error e then (Inr (swarm_refused R_WRITE_CONFLICT False), s) else (Inl e, s)
            | Inr L \<Rightarrow> grant_worker c key auth now (s\<lparr>sw_ledger := L\<rparr>)))"

definition swarm_admit :: "hashes \<Rightarrow> string \<Rightarrow> string \<Rightarrow> PhaseAuthorization option \<Rightarrow> real \<Rightarrow> (string \<Rightarrow> real) \<Rightarrow> real \<Rightarrow> real
    \<Rightarrow> SwarmScheduler \<Rightarrow> SwarmAdmission swarm_call" where
  "swarm_admit H k idempotency_key authorization t0 fin t1 now s =
     (let key = py_strip idempotency_key
      in if key = [] then (Inl (SwarmContractError ''idempotency_key must not be empty''), s)
         else sbind (expire_locked t0 fin s) (\<lambda>_ s.
           case map_of (sw_contracts s) k of
             None \<Rightarrow> (Inl (SwarmContractError ''subagent contract is not registered''), s)
           | Some c \<Rightarrow> (case map_of (sw_by_key s) key of
                 Some prior_id \<Rightarrow> (case map_of (sw_leases s) prior_id of
                     None \<Rightarrow> (Inl (KeyError prior_id), s)
                   | Some prior \<Rightarrow>
                       (let dup = (contract_id (w_contract prior) = k \<and> worker_active prior t1)
                        in (Inr \<lparr>sa_admitted = dup, sa_lease = Some prior,
                                sa_reason = (if dup then None else Some R_DUPLICATE), sa_duplicate = True\<rparr>, s)))
               | None \<Rightarrow> admit_fresh H c key authorization now s)))"

section \<open>Liveness and usage\<close>

definition swarm_heartbeat :: "string \<Rightarrow> real \<Rightarrow> SwarmScheduler \<Rightarrow> WorkerLease option \<times> SwarmScheduler" where
  "swarm_heartbeat lid now s =
     (case map_of (sw_leases s) lid of
        None \<Rightarrow> (None, s)
      | Some l \<Rightarrow> if \<not> worker_active l now then (None, s)
          else (let l' = l\<lparr>w_expires_at := min (now + sw_lease_ttl_s s) (w_deadline_at l)\<rparr> in (Some l', put_worker l' s)))"

definition require_within_child :: "BudgetUsage \<Rightarrow> SubagentContract \<Rightarrow> unit result" where
  "require_within_child u c = require_within_contract u (budget c)"

definition charge :: "string \<Rightarrow> BudgetUsage \<Rightarrow> string \<Rightarrow> real \<Rightarrow> (string \<Rightarrow> real) \<Rightarrow> real \<Rightarrow> SwarmScheduler \<Rightarrow> WorkerLease swarm_call" where
  "charge lid u delivery_id t0 fin t1 s =
     (let delivery = py_strip delivery_id
      in if delivery = [] then (Inl (SwarmContractError ''delivery_id must not be empty''), s)
         else sbind (expire_locked t0 fin s) (\<lambda>_ s.
           case map_of (sw_leases s) lid of
             None \<Rightarrow> (Inl (SwarmStateError ''usage requires an active worker lease''), s)
           | Some l \<Rightarrow>
               if \<not> worker_active l t1 then (Inl (SwarmStateError ''usage requires an active worker lease''), s)
               else (case map_of (sw_usage_deliveries s) delivery of
                   Some prior \<Rightarrow> (if prior \<noteq> (lid, u) then Inl (SwarmStateError ''usage delivery ID collision'') else Inr l, s)
                 | None \<Rightarrow>
                     sbind (pure_call (usage_plus (w_usage l) u) s) (\<lambda>updated s.
                     sbind (pure_call (require_within_child updated (w_contract l)) s) (\<lambda>_ s.
                       let l' = l\<lparr>w_usage := updated\<rparr>; s1 = put_worker l' s
                       in (Inr l', s1\<lparr>sw_usage_deliveries := dput delivery (lid, u) (sw_usage_deliveries s1)\<rparr>))))))"

definition usage_max :: "BudgetUsage \<Rightarrow> BudgetUsage \<Rightarrow> BudgetUsage" where
  "usage_max a b = \<lparr>bu_wall_seconds = max (bu_wall_seconds a) (bu_wall_seconds b), bu_tokens = max (bu_tokens a) (bu_tokens b),
     bu_tool_calls = max (bu_tool_calls a) (bu_tool_calls b), bu_cost = max (bu_cost a) (bu_cost b)\<rparr>"

definition overage_dimensions :: "BudgetUsage \<Rightarrow> SubagentContract \<Rightarrow> string list" where
  "overage_dimensions u c =
     (if eb_wall_seconds (budget c) < bu_wall_seconds u then [''wall_seconds''] else [])
     @ (if eb_token_limit (budget c) < bu_tokens u then [''tokens''] else [])
     @ (if eb_tool_call_limit (budget c) < bu_tool_calls u then [''tool_calls''] else [])
     @ (if eb_cost_limit (budget c) < bu_cost u then [''cost''] else [])"

definition cap_usage :: "BudgetUsage \<Rightarrow> SubagentContract \<Rightarrow> BudgetUsage" where
  "cap_usage u c = \<lparr>bu_wall_seconds = min (bu_wall_seconds u) (eb_wall_seconds (budget c)),
     bu_tokens = min (bu_tokens u) (eb_token_limit (budget c)),
     bu_tool_calls = min (bu_tool_calls u) (eb_tool_call_limit (budget c)), bu_cost = min (bu_cost u) (eb_cost_limit (budget c))\<rparr>"

definition usage_settlement :: "WorkerLease \<Rightarrow> bool \<Rightarrow> UsageSettlement" where
  "usage_settlement l dup = \<lparr>us_lease_id = w_lease_id l, us_observed = w_usage l,
     us_accounted = (case w_settled_usage l of None \<Rightarrow> cap_usage (w_usage l) (w_contract l) | Some u \<Rightarrow> u),
     us_overage_dimensions = w_overage_dimensions l, us_duplicate = dup\<rparr>"

text \<open>The ledger from scratch: terminal leases by id, each reserved in full and settled, then the active
  ones. An exception leaves the part built so far as the scheduler's ledger.\<close>

definition rebuild_terminal :: "WorkerLease \<Rightarrow> SwarmScheduler \<Rightarrow> unit swarm_call" where
  "rebuild_terminal l s =
     (case w_settled_usage l of
        None \<Rightarrow> (Inl (SwarmStateError ''terminal lease is missing capped settlement usage''), s)
      | Some u \<Rightarrow> sbind (with_ledger (reserve (w_contract l)) s) (\<lambda>_. with_ledger (settle (contract_id (w_contract l)) u)))"

definition rebuild_active :: "WorkerLease \<Rightarrow> SwarmScheduler \<Rightarrow> unit swarm_call" where
  "rebuild_active l s = with_ledger (reserve (w_contract l)) s"

definition rebuild_ledger :: "SwarmScheduler \<Rightarrow> unit swarm_call" where
  "rebuild_ledger s =
     (let terminal = sort_key w_lease_id (filter (\<lambda>l. w_state l \<noteq> ACTIVE) (vals (sw_leases s)));
          active = sort_key w_lease_id (filter (\<lambda>l. w_state l = ACTIVE) (vals (sw_leases s)))
      in sbind (sfold rebuild_terminal terminal (s\<lparr>sw_ledger := new_ledger (sw_budget s)\<rparr>))
           (\<lambda>_. sfold rebuild_active active))"

definition observe_terminal_usage :: "string \<Rightarrow> BudgetUsage \<Rightarrow> string \<Rightarrow> SwarmScheduler \<Rightarrow> UsageSettlement swarm_call" where
  "observe_terminal_usage lid observed delivery_id s =
     (let delivery = py_strip delivery_id
      in if delivery = [] then (Inl (SwarmContractError ''delivery_id must not be empty''), s)
         else case map_of (sw_leases s) lid of
             None \<Rightarrow> (Inl (SwarmStateError ''terminal usage references an unknown worker lease''), s)
           | Some l \<Rightarrow> (case map_of (sw_terminal_usage_deliveries s) delivery of
                 Some prior \<Rightarrow> (if prior \<noteq> (lid, observed) then Inl (SwarmStateError ''terminal usage delivery ID collision'')
                     else Inr (usage_settlement l True), s)
               | None \<Rightarrow>
                   if lid \<in> fst ` set (vals (sw_terminal_usage_deliveries s))
                   then (Inl (SwarmStateError ''worker lease already has a terminal usage observation''), s)
                   else if w_state l = FINISHED
                   then (Inl (SwarmStateError ''finished usage cannot be replaced after result acceptance''), s)
                   else (let retained = usage_max (w_usage l) observed;
                             dims = overage_dimensions retained (w_contract l);
                             accounted = cap_usage retained (w_contract l);
                             l1 = l\<lparr>w_usage := retained, w_overage_dimensions := dims\<rparr>;
                             s1 = s\<lparr>sw_terminal_usage_deliveries := dput delivery (lid, observed) (sw_terminal_usage_deliveries s)\<rparr>
                         in if w_state l = ACTIVE \<and> dims \<noteq> [] then
                              (let l2 = l1\<lparr>w_state := OVER_BUDGET,
                                     w_terminal_reason := Some (''budget_exceeded:'' @ py_join '','' dims), w_settled_usage := Some accounted\<rparr>
                               in sbind (with_ledger (settle (contract_id (w_contract l)) accounted) (put_worker l2 s1))
                                    (\<lambda>_ s. (Inr (usage_settlement l2 False), s)))
                            else if w_state l \<noteq> ACTIVE then
                              (let l2 = l1\<lparr>w_settled_usage := Some accounted\<rparr>
                               in sbind (rebuild_ledger (put_worker l2 s1)) (\<lambda>_ s. (Inr (usage_settlement l2 False), s)))
                            else (Inr (usage_settlement l1 False), put_worker l1 s1))))"

section \<open>Results\<close>

definition require_result_binding :: "hashes \<Rightarrow> SubagentContract \<Rightarrow> SubagentResult \<Rightarrow> unit result" where
  "require_result_binding H c r = check
     [(r_contract_id r \<noteq> contract_id c \<or> r_contract_hash r \<noteq> h_contract H c \<or> r_identity r \<noteq> identity c
        \<or> r_plan_hash r \<noteq> plan_hash c \<or> r_phase_id r \<noteq> c_phase_id c \<or> r_lease_id r \<noteq> c_lease_id c
        \<or> r_agent_id r \<noteq> child_agent_id c \<or> r_role r \<noteq> role c,
       SwarmStateError ''subagent result is not bound to the exact worker contract'')] (Inr ())"

definition require_controller_terminal_result :: "WorkerLease \<Rightarrow> SubagentResult \<Rightarrow> unit result" where
  "require_controller_terminal_result l r = check
     [(r_disposition r \<noteq> FAILED, SwarmStateError ''controller terminal result must be FAILED''),
      (w_overage_dimensions l \<noteq> [] \<and> \<not> list_ex (\<lambda>x. x = ''budget_exceeded'' \<or> prefix ''budget_exceeded:'' x) (r_reason_codes r),
         SwarmStateError ''terminal overage result requires a budget reason''),
      (w_state l \<in> {TIMED_OUT, CANCELLED} \<and> (r_controller_terminal_reason r \<noteq> w_terminal_reason l
           \<or> w_terminal_reason l \<notin> Some ` set (r_reason_codes r)),
         SwarmStateError ''late terminal result must bind the exact controller terminal reason'')] (Inr ())"

definition record_terminal_result :: "hashes \<Rightarrow> string \<Rightarrow> SubagentResult \<Rightarrow> SwarmScheduler \<Rightarrow> WorkerLease swarm_call" where
  "record_terminal_result H lid r s =
     (case map_of (sw_leases s) lid of
        None \<Rightarrow> (Inl (SwarmStateError ''terminal result references an unknown worker lease''), s)
      | Some l \<Rightarrow>
          if w_state l \<notin> {OVER_BUDGET, TIMED_OUT, CANCELLED}
          then (Inl (SwarmStateError ''worker lease is not a controller terminal state''), s)
          else sbind (pure_call (require_result_binding H (w_contract l) r) s) (\<lambda>_ s.
               sbind (pure_call (require_controller_terminal_result l r) s) (\<lambda>_ s.
                 case w_result l of
                   Some old \<Rightarrow> (if old = r then Inr l else Inl (SwarmStateError ''worker lease already has a different structured result''), s)
                 | None \<Rightarrow> (let l' = l\<lparr>w_result := Some r\<rparr> in (Inr l', put_worker l' s)))))"

definition record_overage_result :: "hashes \<Rightarrow> string \<Rightarrow> SubagentResult \<Rightarrow> SwarmScheduler \<Rightarrow> WorkerLease swarm_call" where
  "record_overage_result H lid r s =
     (case map_of (sw_leases s) lid of
        None \<Rightarrow> (Inl (SwarmStateError ''overage result requires classified terminal usage''), s)
      | Some l \<Rightarrow> if w_overage_dimensions l = []
          then (Inl (SwarmStateError ''overage result requires classified terminal usage''), s)
          else record_terminal_result H lid r s)"

definition mark_finished :: "SubagentResult \<Rightarrow> WorkerLease \<Rightarrow> WorkerLease" where
  "mark_finished r l = l\<lparr>w_state := FINISHED, w_result := Some r\<rparr>"

definition complete :: "hashes \<Rightarrow> string \<Rightarrow> SubagentResult \<Rightarrow> real \<Rightarrow> (string \<Rightarrow> real) \<Rightarrow> real \<Rightarrow> real \<Rightarrow> SwarmScheduler
    \<Rightarrow> WorkerLease option swarm_call" where
  "complete H lid r t0 fin t1 t2 s =
     sbind (expire_locked t0 fin s) (\<lambda>_ s.
       case map_of (sw_leases s) lid of
         None \<Rightarrow> (Inl (SwarmStateError ''unknown worker lease''), s)
       | Some l \<Rightarrow>
           if w_state l = FINISHED \<and> w_result l = Some r then (Inr (Some l), s)
           else if \<not> worker_active l t1 then (Inl (SwarmStateError ''worker lease is no longer active''), s)
           else sbind (pure_call (require_result_binding H (w_contract l) r) s) (\<lambda>_ s.
                sbind (close_lease t2 (mark_finished r) l s) (\<lambda>_ s. (Inr (map_of (sw_leases s) lid), s))))"

definition lease_record :: "string \<Rightarrow> SwarmScheduler \<Rightarrow> WorkerLease option" where
  "lease_record lid s = map_of (sw_leases s) lid"

definition stop_requests :: "SwarmScheduler \<Rightarrow> string list" where
  "stop_requests s = sort (map w_lease_id (filter w_stop_required (vals (sw_leases s))))"

definition acknowledge_stopped :: "string \<Rightarrow> SwarmScheduler \<Rightarrow> bool \<times> SwarmScheduler" where
  "acknowledge_stopped lid s =
     (case map_of (sw_leases s) lid of
        None \<Rightarrow> (False, s)
      | Some l \<Rightarrow> if \<not> w_stop_required l then (False, s) else (True, put_worker (l\<lparr>w_stop_required := False\<rparr>) s))"

record swarm_snapshot =
  ss_cancelled :: bool
  ss_cancel_reason :: "string option"
  ss_active_workers :: nat
  ss_budget :: TeamBudgetSnapshot

definition swarm_snapshot :: "SwarmScheduler \<Rightarrow> swarm_snapshot result" where
  "swarm_snapshot s = rbind (ledger_snapshot (sw_ledger s)) (\<lambda>b.
     Inr \<lparr>ss_cancelled = sw_cancelled s, ss_cancel_reason = sw_cancel_reason s,
          ss_active_workers = length (tbs_active_contract_ids b), ss_budget = b\<rparr>)"

section \<open>The scheduler invariant\<close>

text \<open>A lease's accounting: its usage is legitimate, an active lease is within its contract and unsettled,
  an ended one has been settled within its contract.\<close>

definition lease_ok :: "WorkerLease \<Rightarrow> bool" where
  "lease_ok l \<longleftrightarrow> valid_usage (w_usage l) \<and> w_expires_at l \<le> w_deadline_at l
     \<and> (if w_state l = ACTIVE then within_child (w_usage l) (budget (w_contract l))
        else (\<exists>u. w_settled_usage l = Some u \<and> valid_usage u \<and> within_child u (budget (w_contract l))))"

definition contracts_ok :: "TeamBudget \<Rightarrow> (string \<times> SubagentContract) list \<Rightarrow> bool" where
  "contracts_ok b cs \<longleftrightarrow> wf_dict cs
     \<and> (\<forall>k c. map_of cs k = Some c \<longrightarrow> contract_id c = k \<and> valid_limits (budget c) \<and> team_id c = tb_team_id b)
     \<and> (\<forall>k k' c c'. map_of cs k = Some c \<longrightarrow> map_of cs k' = Some c' \<longrightarrow> c_lease_id c = c_lease_id c' \<longrightarrow> k = k')"

definition leases_ok :: "(string \<times> SubagentContract) list \<Rightarrow> (string \<times> WorkerLease) list \<Rightarrow> bool" where
  "leases_ok cs ls \<longleftrightarrow> wf_dict ls
     \<and> (\<forall>i l. map_of ls i = Some l \<longrightarrow> w_lease_id l = i \<and> c_lease_id (w_contract l) = i
          \<and> map_of cs (contract_id (w_contract l)) = Some (w_contract l) \<and> lease_ok l)"

text \<open>The ledger mirrors the leases: its live reservations are the contracts of the active leases, its
  settled ids those of the ended ones.\<close>

definition ledger_ok :: "TeamBudget \<Rightarrow> TeamBudgetLedger \<Rightarrow> (string \<times> WorkerLease) list \<Rightarrow> bool" where
  "ledger_ok b L ls \<longleftrightarrow> ledger_inv L \<and> lb_budget L = b
     \<and> (\<forall>k c. map_of (lb_active L) k = Some c \<longleftrightarrow>
          (\<exists>i l. map_of ls i = Some l \<and> w_state l = ACTIVE \<and> w_contract l = c \<and> contract_id c = k))
     \<and> (\<forall>k. k \<in> set (keys (lb_settled L)) \<longleftrightarrow>
          (\<exists>i l. map_of ls i = Some l \<and> w_state l \<noteq> ACTIVE \<and> contract_id (w_contract l) = k))"

definition keys_ok :: "(string \<times> string) list \<Rightarrow> (string \<times> WorkerLease) list \<Rightarrow> bool" where
  "keys_ok ks ls \<longleftrightarrow> (\<forall>k i. map_of ks k = Some i \<longrightarrow> (\<exists>l. map_of ls i = Some l \<and> w_idempotency_key l = k))"

definition swarm_inv :: "SwarmScheduler \<Rightarrow> bool" where
  "swarm_inv s \<longleftrightarrow> contracts_ok (sw_budget s) (sw_contracts s) \<and> leases_ok (sw_contracts s) (sw_leases s)
     \<and> ledger_ok (sw_budget s) (sw_ledger s) (sw_leases s) \<and> keys_ok (sw_by_key s) (sw_leases s) \<and> 0 < sw_lease_ttl_s s"

lemma swarm_inv_other_fields [simp]:
  "swarm_inv (s\<lparr>sw_plan := a\<rparr>) = swarm_inv s" "swarm_inv (s\<lparr>sw_usage_deliveries := u\<rparr>) = swarm_inv s"
  "swarm_inv (s\<lparr>sw_terminal_usage_deliveries := u\<rparr>) = swarm_inv s" "swarm_inv (s\<lparr>sw_receipts := v\<rparr>) = swarm_inv s"
  "swarm_inv (s\<lparr>sw_receipt_by_contract := w\<rparr>) = swarm_inv s" "swarm_inv (s\<lparr>sw_authorizations := x\<rparr>) = swarm_inv s"
  "swarm_inv (s\<lparr>sw_consumed_authorizations := y\<rparr>) = swarm_inv s" "swarm_inv (s\<lparr>sw_cancelled := z\<rparr>) = swarm_inv s"
  "swarm_inv (s\<lparr>sw_cancel_reason := q\<rparr>) = swarm_inv s"
  unfolding swarm_inv_def by simp_all

lemma contracts_okD:
  assumes "contracts_ok b cs"
  shows "wf_dict cs" "map_of cs k = Some c \<Longrightarrow> contract_id c = k" "map_of cs k = Some c \<Longrightarrow> valid_limits (budget c)"
    "map_of cs k = Some c \<Longrightarrow> map_of cs k' = Some c' \<Longrightarrow> c_lease_id c = c_lease_id c' \<Longrightarrow> k = k'"
    "map_of cs k = Some c \<Longrightarrow> team_id c = tb_team_id b"
  using assms unfolding contracts_ok_def by blast+

lemma leases_okD:
  assumes "leases_ok cs ls"
  shows "wf_dict ls" "map_of ls i = Some l \<Longrightarrow> w_lease_id l = i" "map_of ls i = Some l \<Longrightarrow> c_lease_id (w_contract l) = i"
    "map_of ls i = Some l \<Longrightarrow> map_of cs (contract_id (w_contract l)) = Some (w_contract l)"
    "map_of ls i = Some l \<Longrightarrow> lease_ok l"
  using assms unfolding leases_ok_def by blast+

lemma ledger_okD:
  assumes "ledger_ok b L ls"
  shows "ledger_inv L" "lb_budget L = b"
    "map_of (lb_active L) k = Some c \<longleftrightarrow> (\<exists>i l. map_of ls i = Some l \<and> w_state l = ACTIVE \<and> w_contract l = c \<and> contract_id c = k)"
    "k \<in> set (keys (lb_settled L)) \<longleftrightarrow> (\<exists>i l. map_of ls i = Some l \<and> w_state l \<noteq> ACTIVE \<and> contract_id (w_contract l) = k)"
  using assms unfolding ledger_ok_def by blast+

lemma swarm_invD:
  assumes "swarm_inv s"
  shows "contracts_ok (sw_budget s) (sw_contracts s)" "leases_ok (sw_contracts s) (sw_leases s)"
    "ledger_ok (sw_budget s) (sw_ledger s) (sw_leases s)" "keys_ok (sw_by_key s) (sw_leases s)" "0 < sw_lease_ttl_s s"
  using assms by (auto simp: swarm_inv_def)

text \<open>One lease per contract.\<close>

lemma one_lease_per_contract:
  assumes "leases_ok cs ls" "map_of ls i = Some l" "map_of ls j = Some m"
    "contract_id (w_contract l) = contract_id (w_contract m)"
  shows "i = j \<and> l = m"
proof -
  have "w_contract l = w_contract m"
    using leases_okD(4) [OF assms(1)] assms(2-4) by (metis option.inject)
  then have "i = j" using leases_okD(3) [OF assms(1)] assms(2,3) by metis
  with assms(2,3) show ?thesis by simp
qed

lemma leases_ok_put:
  assumes "leases_ok cs ls" "w_lease_id l = i" "c_lease_id (w_contract l) = i"
    "map_of cs (contract_id (w_contract l)) = Some (w_contract l)" "lease_ok l"
  shows "leases_ok cs (dput i l ls)"
  using assms unfolding leases_ok_def by auto

lemma keys_ok_put:
  assumes "keys_ok ks ls" "\<And>l. map_of ls i = Some l \<Longrightarrow> w_idempotency_key l' = w_idempotency_key l"
  shows "keys_ok ks (dput i l' ls)"
  using assms unfolding keys_ok_def by fastforce

text \<open>Replacing a lease by one with the same identity and state.\<close>

lemma swarm_inv_put:
  assumes inv: "swarm_inv s" and l: "map_of (sw_leases s) i = Some l"
    and same: "w_lease_id l' = i" "w_contract l' = w_contract l" "w_state l' = w_state l"
      "w_idempotency_key l' = w_idempotency_key l" and ok: "lease_ok l'"
  shows "swarm_inv (put_worker l' s)"
proof -
  note I = swarm_invD [OF inv]
  have L: "leases_ok (sw_contracts s) (dput i l' (sw_leases s))"
    using leases_okD [OF I(2)] l same ok by (intro leases_ok_put [OF I(2)]) auto
  have ex: "(\<exists>j m. map_of (dput i l' (sw_leases s)) j = Some m \<and> P m)
      \<longleftrightarrow> (\<exists>j m. map_of (sw_leases s) j = Some m \<and> P m)" if "P l = P l'" for P
  proof -
    have "(\<exists>j m. map_of (dput i l' (sw_leases s)) j = Some m \<and> P m) \<longleftrightarrow> P l' \<or> (\<exists>j m. j \<noteq> i \<and> map_of (sw_leases s) j = Some m \<and> P m)"
      by (auto split: if_splits)
    also have "\<dots> \<longleftrightarrow> (\<exists>j m. map_of (sw_leases s) j = Some m \<and> P m)" using that l by (metis option.inject)
    finally show ?thesis .
  qed
  have "ledger_ok (sw_budget s) (sw_ledger s) (dput i l' (sw_leases s))"
    using I(3) unfolding ledger_ok_def
    by (subst ex, simp add: same, subst ex, simp add: same, blast)
  moreover have "keys_ok (sw_by_key s) (dput i l' (sw_leases s))"
    by (rule keys_ok_put [OF I(4)]) (use l same in simp)
  ultimately show ?thesis using L I(1,5) same(1) by (simp add: swarm_inv_def put_worker_def)
qed

text \<open>Ending an active lease with a usage within its contract: the ledger accepts the settlement.\<close>

lemma ledger_ok_close:
  assumes ok: "ledger_ok b L0 ls" and l: "map_of ls i = Some l" and act: "w_state l = ACTIVE"
    and same: "w_contract l' = w_contract l" "w_state l' \<noteq> ACTIVE"
    and only: "\<And>j m. map_of ls j = Some m \<Longrightarrow> contract_id (w_contract m) = contract_id (w_contract l) \<Longrightarrow> j = i"
    and u: "valid_usage u" "within_child u (budget (w_contract l))"
  shows "\<exists>L. settle (contract_id (w_contract l)) u L0 = Inr L \<and> ledger_ok b L (dput i l' ls)"
proof -
  let ?k = "contract_id (w_contract l)" and ?ls = "dput i l' ls"
  note O = ledger_okD [OF ok]
  have live: "map_of (lb_active L0) ?k = Some (w_contract l)" using O(3) l act by blast
  from settle_total [OF O(1) live u] obtain L where L: "settle ?k u L0 = Inr L"
    "ledger_inv L" "map_of (lb_active L) = (map_of (lb_active L0))(?k := None)"
    "set (keys (lb_settled L)) = insert ?k (set (keys (lb_settled L0)))" "lb_budget L = lb_budget L0"
    by blast
  have "map_of (lb_active L) k = Some c \<longleftrightarrow>
      (\<exists>j m. map_of ?ls j = Some m \<and> w_state m = ACTIVE \<and> w_contract m = c \<and> contract_id c = k)" for k c
  proof -
    have "map_of (lb_active L) k = Some c \<longleftrightarrow> k \<noteq> ?k \<and> map_of (lb_active L0) k = Some c"
      unfolding L(3) by simp
    also have "\<dots> \<longleftrightarrow> (\<exists>j m. j \<noteq> i \<and> map_of ls j = Some m \<and> w_state m = ACTIVE \<and> w_contract m = c \<and> contract_id c = k)"
      unfolding O(3) using only l by (metis option.inject)
    also have "\<dots> \<longleftrightarrow> (\<exists>j m. map_of ?ls j = Some m \<and> w_state m = ACTIVE \<and> w_contract m = c \<and> contract_id c = k)"
      unfolding map_of_dput using same(2) by (metis fun_upd_apply option.inject)
    finally show ?thesis .
  qed
  moreover have "k \<in> set (keys (lb_settled L)) \<longleftrightarrow>
      (\<exists>j m. map_of ?ls j = Some m \<and> w_state m \<noteq> ACTIVE \<and> contract_id (w_contract m) = k)" for k
  proof -
    have "k \<in> set (keys (lb_settled L)) \<longleftrightarrow> k = ?k \<or> (\<exists>j m. map_of ls j = Some m \<and> w_state m \<noteq> ACTIVE \<and> contract_id (w_contract m) = k)"
      unfolding L(4) insert_iff O(4) ..
    also have "\<dots> \<longleftrightarrow> k = ?k \<or> (\<exists>j m. j \<noteq> i \<and> map_of ls j = Some m \<and> w_state m \<noteq> ACTIVE \<and> contract_id (w_contract m) = k)"
      using l act by (metis option.inject)
    also have "\<dots> \<longleftrightarrow> (\<exists>j m. map_of ?ls j = Some m \<and> w_state m \<noteq> ACTIVE \<and> contract_id (w_contract m) = k)"
      unfolding map_of_dput using same by (auto split: if_splits)
    finally show ?thesis .
  qed
  ultimately have "ledger_ok b L ?ls" unfolding ledger_ok_def using L(2,5) O(2) by simp
  with L(1) show ?thesis by blast
qed

lemma swarm_inv_close:
  assumes inv: "swarm_inv s" and l: "map_of (sw_leases s) i = Some l" and act: "w_state l = ACTIVE"
    and same: "w_lease_id l' = i" "w_contract l' = w_contract l" "w_state l' \<noteq> ACTIVE"
      "w_idempotency_key l' = w_idempotency_key l" and ok: "lease_ok l'" and u: "w_settled_usage l' = Some u"
  shows "\<exists>L. settle (contract_id (w_contract l)) u (sw_ledger s) = Inr L
    \<and> swarm_inv ((put_worker l' s)\<lparr>sw_ledger := L\<rparr>)"
proof -
  note I = swarm_invD [OF inv]
  let ?k = "contract_id (w_contract l)" and ?ls = "dput i l' (sw_leases s)"
  have vu: "valid_usage u" "within_child u (budget (w_contract l))" using ok u same by (auto simp: lease_ok_def)
  have only: "j = i" if "map_of (sw_leases s) j = Some m" "contract_id (w_contract m) = ?k" for j m
    using one_lease_per_contract [OF I(2) that(1) l that(2)] by simp
  obtain L where L: "settle ?k u (sw_ledger s) = Inr L" "ledger_ok (sw_budget s) L ?ls"
    using ledger_ok_close [OF I(3) l act same(2,3) _ vu] only by blast
  have lo: "leases_ok (sw_contracts s) ?ls"
    using leases_okD [OF I(2)] l same ok by (intro leases_ok_put [OF I(2)]) auto
  have "keys_ok (sw_by_key s) ?ls" by (rule keys_ok_put [OF I(4)]) (use l same in simp)
  then show ?thesis using L lo I(1,5) same(1) by (simp add: swarm_inv_def put_worker_def)
qed

section \<open>Leases only move forward\<close>

text \<open>\<open>lease_le l l'\<close>: the lease later is the same assignment with the same hard deadline, and a terminal
  state stays.\<close>

definition lease_le :: "WorkerLease \<Rightarrow> WorkerLease \<Rightarrow> bool" where
  "lease_le l l' \<longleftrightarrow> w_lease_id l' = w_lease_id l \<and> w_contract l' = w_contract l \<and> w_idempotency_key l' = w_idempotency_key l
     \<and> w_acquired_at l' = w_acquired_at l \<and> w_deadline_at l' = w_deadline_at l
     \<and> (w_state l \<noteq> ACTIVE \<longrightarrow> w_state l' = w_state l)
     \<and> (\<forall>r. w_result l = Some r \<longrightarrow> w_result l' = Some r)"

text \<open>An active lease has no result yet; kept so that a result, once there, is never replaced.\<close>

definition no_early_result :: "SwarmScheduler \<Rightarrow> bool" where
  "no_early_result s \<longleftrightarrow> (\<forall>i l. map_of (sw_leases s) i = Some l \<longrightarrow> w_state l = ACTIVE \<longrightarrow> w_result l = None)"

definition evolves :: "SwarmScheduler \<Rightarrow> SwarmScheduler \<Rightarrow> bool" where
  "evolves s s' \<longleftrightarrow> (\<forall>i l. map_of (sw_leases s) i = Some l \<longrightarrow> (\<exists>l'. map_of (sw_leases s') i = Some l' \<and> lease_le l l'))
     \<and> sw_budget s' = sw_budget s \<and> (sw_cancelled s \<longrightarrow> sw_cancelled s')"

text \<open>What every operation promises from a good state \<open>s\<close>: a good state that \<open>s\<close> evolves to.\<close>

definition good :: "SwarmScheduler \<Rightarrow> SwarmScheduler \<Rightarrow> bool" where
  "good s s' \<longleftrightarrow> swarm_inv s' \<and> no_early_result s' \<and> evolves s s'"

lemma lease_le_refl [simp]: "lease_le l l"
  by (simp add: lease_le_def)

lemma lease_le_trans: "lease_le a b \<Longrightarrow> lease_le b c \<Longrightarrow> lease_le a c"
  unfolding lease_le_def by auto

lemma evolves_refl [simp]: "evolves s s"
  by (simp add: evolves_def)

lemma evolves_lease:
  "evolves s s' \<Longrightarrow> map_of (sw_leases s) i = Some l \<Longrightarrow> \<exists>l'. map_of (sw_leases s') i = Some l' \<and> lease_le l l'"
  unfolding evolves_def by blast

lemma evolves_trans:
  assumes "evolves a b" and "evolves b c"
  shows "evolves a c"
proof -
  have "\<exists>l'. map_of (sw_leases c) i = Some l' \<and> lease_le l l'" if "map_of (sw_leases a) i = Some l" for i l
  proof -
    from evolves_lease [OF assms(1) that] obtain m where "map_of (sw_leases b) i = Some m" "lease_le l m" by blast
    moreover from evolves_lease [OF assms(2) this(1)] obtain n where "map_of (sw_leases c) i = Some n" "lease_le m n" by blast
    ultimately show ?thesis using lease_le_trans by blast
  qed
  with assms show ?thesis by (simp add: evolves_def)
qed

lemma good_trans: "good a b \<Longrightarrow> good b c \<Longrightarrow> good a c"
  unfolding good_def using evolves_trans by blast

lemma good_refl: "swarm_inv s \<Longrightarrow> no_early_result s \<Longrightarrow> good s s"
  by (simp add: good_def)

lemma good_self: "good s s' \<Longrightarrow> good s' s'"
  by (simp add: good_def)

lemma good_sbind:
  assumes "good s (snd r)" and "\<And>x c. r = (Inr x, c) \<Longrightarrow> good c c \<Longrightarrow> good c (snd (f x c))"
  shows "good s (snd (sbind r f))"
proof (cases r)
  case (Pair q c)
  show ?thesis
  proof (cases q)
    case (Inl e)
    with Pair assms(1) show ?thesis by simp
  next
    case (Inr x)
    with Pair assms(1) have "good s c" by simp
    from good_trans [OF this assms(2) [OF _ good_self [OF this]]] Pair Inr show ?thesis by simp
  qed
qed

lemma good_pure:
  assumes "good s s" and "\<And>x. r = Inr x \<Longrightarrow> good s (snd (f x s))"
  shows "good s (snd (sbind (pure_call r s) f))"
  using assms by (cases r) (auto simp: pure_call_def)

lemma good_fields:
  assumes "good s s'"
  shows "good s (s'\<lparr>sw_usage_deliveries := u\<rparr>)" "good s (s'\<lparr>sw_terminal_usage_deliveries := u\<rparr>)"
    "good s (s'\<lparr>sw_receipts := v\<rparr>)" "good s (s'\<lparr>sw_receipt_by_contract := w\<rparr>)" "good s (s'\<lparr>sw_authorizations := x\<rparr>)"
    "good s (s'\<lparr>sw_consumed_authorizations := y\<rparr>)" "good s (s'\<lparr>sw_plan := p\<rparr>)"
    "good s (s'\<lparr>sw_cancelled := True, sw_cancel_reason := q\<rparr>)"
  using assms by (simp_all add: good_def no_early_result_def evolves_def)

lemma good_put:
  assumes g: "good s s" and l: "map_of (sw_leases s) i = Some l"
    and le: "lease_le l l'" and st: "w_state l' = w_state l" and ok: "lease_ok l'"
    and res: "w_state l' = ACTIVE \<Longrightarrow> w_result l' = None"
  shows "good s (put_worker l' s)"
proof -
  have inv: "swarm_inv s" using g by (simp add: good_def)
  have id: "w_lease_id l = i" using leases_okD(2) [OF swarm_invD(2) [OF inv] l] .
  have m: "map_of (sw_leases (put_worker l' s)) = (map_of (sw_leases s))(i \<mapsto> l')"
    using le id by (simp add: put_worker_def lease_le_def)
  have "swarm_inv (put_worker l' s)"
    by (rule swarm_inv_put [OF inv l]) (use le st ok id in \<open>auto simp: lease_le_def\<close>)
  moreover have "no_early_result (put_worker l' s)"
    using g res unfolding no_early_result_def good_def m by auto
  moreover have "evolves s (put_worker l' s)"
    unfolding evolves_def m using le l by (auto simp: put_worker_def)
  ultimately show ?thesis by (simp add: good_def)
qed

section \<open>Ending leases\<close>

definition closed :: "real \<Rightarrow> (WorkerLease \<Rightarrow> WorkerLease) \<Rightarrow> WorkerLease \<Rightarrow> WorkerLease" where
  "closed t mark l = (mark (finalize_elapsed t l))\<lparr>w_settled_usage := Some (w_usage (finalize_elapsed t l))\<rparr>"

text \<open>A mark of a terminal transition: it sets the state, and leaves identity and accounting alone.\<close>

definition terminal_mark :: "(WorkerLease \<Rightarrow> WorkerLease) \<Rightarrow> bool" where
  "terminal_mark mark \<longleftrightarrow> (\<forall>l. w_state (mark l) \<noteq> ACTIVE \<and> w_lease_id (mark l) = w_lease_id l \<and> w_contract (mark l) = w_contract l
     \<and> w_idempotency_key (mark l) = w_idempotency_key l \<and> w_acquired_at (mark l) = w_acquired_at l
     \<and> w_deadline_at (mark l) = w_deadline_at l \<and> w_expires_at (mark l) = w_expires_at l \<and> w_usage (mark l) = w_usage l)"

lemma terminal_marks [simp]:
  "terminal_mark (mark_timed_out now)" "terminal_mark (mark_cancelled reason)" "terminal_mark (mark_finished r)"
  by (auto simp: terminal_mark_def mark_timed_out_def mark_cancelled_def mark_finished_def)

lemma finalize_fields [simp]:
  "w_lease_id (finalize_elapsed t l) = w_lease_id l" "w_contract (finalize_elapsed t l) = w_contract l"
  "w_idempotency_key (finalize_elapsed t l) = w_idempotency_key l" "w_acquired_at (finalize_elapsed t l) = w_acquired_at l"
  "w_deadline_at (finalize_elapsed t l) = w_deadline_at l" "w_expires_at (finalize_elapsed t l) = w_expires_at l"
  "w_state (finalize_elapsed t l) = w_state l" "w_result (finalize_elapsed t l) = w_result l"
  by (simp_all add: finalize_elapsed_def Let_def)

lemma finalize_usage:
  assumes "lease_ok l" and "w_state l = ACTIVE" and "valid_limits (budget (w_contract l))"
  shows "valid_usage (w_usage (finalize_elapsed t l))" "within_child (w_usage (finalize_elapsed t l)) (budget (w_contract l))"
  using assms
  by (auto simp: lease_ok_def finalize_elapsed_def Let_def valid_usage_def within_child_def valid_limits_def all_dim_iff)

lemma close_lease_good:
  assumes g: "good s s" and l: "map_of (sw_leases s) i = Some l" and act: "w_state l = ACTIVE" and mark: "terminal_mark mark"
  shows "\<exists>s'. close_lease t mark l s = (Inr (), s') \<and> good s s'
    \<and> map_of (sw_leases s') = (map_of (sw_leases s))(i \<mapsto> closed t mark l)
    \<and> s' = s\<lparr>sw_leases := sw_leases s', sw_ledger := sw_ledger s'\<rparr>"
proof -
  have inv: "swarm_inv s" and ner: "no_early_result s" using g by (simp_all add: good_def)
  note I = swarm_invD [OF inv]
  let ?c = "closed t mark l"
  have ok: "lease_ok l" and id: "w_lease_id l = i" using leases_okD(2,5) [OF I(2) l] by auto
  have lim: "valid_limits (budget (w_contract l))" using contracts_okD(3) [OF I(1) leases_okD(4) [OF I(2) l]] .
  note fu = finalize_usage [OF ok act lim, of t]
  have c: "w_lease_id ?c = i" "w_contract ?c = w_contract l" "w_state ?c \<noteq> ACTIVE" "w_idempotency_key ?c = w_idempotency_key l"
    "w_settled_usage ?c = Some (w_usage (finalize_elapsed t l))" "w_acquired_at ?c = w_acquired_at l" "w_deadline_at ?c = w_deadline_at l"
    using mark id by (simp_all add: closed_def terminal_mark_def)
  have "lease_ok ?c"
    using fu ok c mark by (auto simp: lease_ok_def closed_def terminal_mark_def)
  from swarm_inv_close [OF inv l act c(1-4) this c(5)] obtain L
    where L: "settle (contract_id (w_contract l)) (w_usage (finalize_elapsed t l)) (sw_ledger s) = Inr L"
      "swarm_inv ((put_worker ?c s)\<lparr>sw_ledger := L\<rparr>)" by blast
  let ?s = "(put_worker ?c s)\<lparr>sw_ledger := L\<rparr>"
  have call: "close_lease t mark l s = (Inr (), ?s)"
    using L(1) by (simp add: close_lease_def closed_def with_ledger_def put_worker_def Let_def)
  have m: "map_of (sw_leases ?s) = (map_of (sw_leases s))(i \<mapsto> ?c)" using c(1) by (simp add: put_worker_def)
  have "no_early_result ?s" using ner c(3) unfolding no_early_result_def m by auto
  moreover have "lease_le l ?c"
    using c id act ner l by (auto simp: lease_le_def no_early_result_def)
  then have "evolves s ?s" unfolding evolves_def m using l by (auto simp: put_worker_def)
  ultimately show ?thesis using call L(2) m by (auto simp: good_def put_worker_def)
qed

lemma sfold_close_good:
  assumes "good s s" and "terminal_mark mark" and "distinct ids"
    and "\<And>i. i \<in> set ids \<Longrightarrow> \<exists>l. map_of (sw_leases s) i = Some l \<and> w_state l = ACTIVE"
  shows "\<exists>s'. sfold (close_by_id fin mark) ids s = (Inr (), s') \<and> good s s'
    \<and> map_of (sw_leases s') = (\<lambda>i. if i \<in> set ids then map_option (closed (fin i) mark) (map_of (sw_leases s) i)
         else map_of (sw_leases s) i)
    \<and> s' = s\<lparr>sw_leases := sw_leases s', sw_ledger := sw_ledger s'\<rparr>"
  using assms
proof (induction ids arbitrary: s)
  case Nil
  then show ?case by auto
next
  case (Cons i ids)
  from Cons.prems(4) obtain l where l: "map_of (sw_leases s) i = Some l" "w_state l = ACTIVE" by auto
  from close_lease_good [OF Cons.prems(1) l Cons.prems(2), of "fin i"] obtain s1
    where s1: "close_lease (fin i) mark l s = (Inr (), s1)" "good s s1"
      "map_of (sw_leases s1) = (map_of (sw_leases s))(i \<mapsto> closed (fin i) mark l)"
      "s1 = s\<lparr>sw_leases := sw_leases s1, sw_ledger := sw_ledger s1\<rparr>" by blast
  have "\<exists>l. map_of (sw_leases s1) j = Some l \<and> w_state l = ACTIVE" if "j \<in> set ids" for j
    using that Cons.prems(3,4) s1(3) by (metis distinct.simps(2) fun_upd_apply list.set_intros(2))
  from Cons.IH [OF good_self [OF s1(2)] Cons.prems(2) _ this] Cons.prems(3) obtain s'
    where s': "sfold (close_by_id fin mark) ids s1 = (Inr (), s')" "good s1 s'"
      "map_of (sw_leases s') = (\<lambda>j. if j \<in> set ids then map_option (closed (fin j) mark) (map_of (sw_leases s1) j)
         else map_of (sw_leases s1) j)" "s' = s1\<lparr>sw_leases := sw_leases s', sw_ledger := sw_ledger s'\<rparr>" by auto
  have "sfold (close_by_id fin mark) (i # ids) s = (Inr (), s')" using l s1(1) s'(1) by (simp add: close_by_id_def)
  moreover have "map_of (sw_leases s') = (\<lambda>j. if j \<in> set (i # ids) then map_option (closed (fin j) mark) (map_of (sw_leases s) j)
         else map_of (sw_leases s) j)"
    using s'(3) s1(3) l Cons.prems(3) by (auto simp: fun_eq_iff)
  moreover have "s' = s\<lparr>sw_leases := sw_leases s', sw_ledger := sw_ledger s'\<rparr>"
    by (subst s'(4), subst s1(4)) simp
  ultimately show ?case using good_trans [OF s1(2) s'(2)] by blast
qed

lemma active_ids:
  assumes "swarm_inv s"
  shows "distinct (sort (map w_lease_id (filter P (vals (sw_leases s)))))"
    and "i \<in> set (sort (map w_lease_id (filter P (vals (sw_leases s))))) \<longleftrightarrow> (\<exists>l. map_of (sw_leases s) i = Some l \<and> P l)"
proof -
  note L = leases_okD [OF swarm_invD(2) [OF assms]]
  have "w_lease_id (snd p) = fst p" if "p \<in> set (sw_leases s)" for p
    using L(1,2) that by (cases p) (auto simp: wf_dict_def)
  then have e: "map w_lease_id (filter P (vals (sw_leases s))) = map fst (filter (P \<circ> snd) (sw_leases s))"
    by (simp add: filter_map)
  show "distinct (sort (map w_lease_id (filter P (vals (sw_leases s)))))"
    using L(1) by (simp add: e wf_dict_def distinct_map_filter)
  show "i \<in> set (sort (map w_lease_id (filter P (vals (sw_leases s))))) \<longleftrightarrow> (\<exists>l. map_of (sw_leases s) i = Some l \<and> P l)"
    using L(1) by (force simp: e wf_dict_def dest: map_of_SomeD)
qed

lemma expire_locked_good:
  assumes g: "good s s"
  shows "\<exists>s'. expire_locked now fin s = (Inr (expired_workers now s), s') \<and> good s s'
    \<and> map_of (sw_leases s') = (\<lambda>i. if i \<in> set (expired_workers now s)
         then map_option (closed (fin i) (mark_timed_out now)) (map_of (sw_leases s) i) else map_of (sw_leases s) i)
    \<and> s' = s\<lparr>sw_leases := sw_leases s', sw_ledger := sw_ledger s'\<rparr>"
proof -
  have inv: "swarm_inv s" using g by (simp add: good_def)
  have "distinct (expired_workers now s)" unfolding expired_workers_def by (rule active_ids [OF inv])
  moreover have "\<exists>l. map_of (sw_leases s) i = Some l \<and> w_state l = ACTIVE" if "i \<in> set (expired_workers now s)" for i
    using that unfolding expired_workers_def active_ids(2) [OF inv] by blast
  ultimately obtain s' where "sfold (close_by_id fin (mark_timed_out now)) (expired_workers now s) s = (Inr (), s')" "good s s'"
    "map_of (sw_leases s') = (\<lambda>i. if i \<in> set (expired_workers now s)
         then map_option (closed (fin i) (mark_timed_out now)) (map_of (sw_leases s) i) else map_of (sw_leases s) i)"
    "s' = s\<lparr>sw_leases := sw_leases s', sw_ledger := sw_ledger s'\<rparr>"
    using sfold_close_good [OF g terminal_marks(1)] by blast
  then show ?thesis by (simp add: expire_locked_def Let_def)
qed

lemma expire_good: "good s s \<Longrightarrow> good s (snd (expire_locked now fin s))"
  by (drule expire_locked_good [where now = now and fin = fin]) auto

lemma cancel_team_good:
  assumes g: "good s s"
  shows "good s (snd (cancel_team reason fin s))"
    and "\<not> blank reason \<Longrightarrow> \<not> sw_cancelled s \<Longrightarrow>
      \<exists>s'. cancel_team reason fin s = (Inr (sort (map w_lease_id (filter (\<lambda>l. w_state l = ACTIVE) (vals (sw_leases s))))), s')
        \<and> sw_cancelled s' \<and> map_of (sw_leases s') = (\<lambda>i. map_option
            (\<lambda>l. if w_state l = ACTIVE then closed (fin i) (mark_cancelled reason) l else l) (map_of (sw_leases s) i))"
proof -
  let ?s = "s\<lparr>sw_cancelled := True, sw_cancel_reason := Some reason\<rparr>"
  let ?ids = "sort (map w_lease_id (filter (\<lambda>l. w_state l = ACTIVE) (vals (sw_leases s))))"
  have gs: "good s ?s" by (rule good_fields(8) [OF g])
  note g' = good_self [OF gs]
  have inv: "swarm_inv s" using g by (simp add: good_def)
  have "\<exists>l. map_of (sw_leases ?s) i = Some l \<and> w_state l = ACTIVE" if "i \<in> set ?ids" for i
    using that unfolding active_ids(2) [OF inv] by simp
  from sfold_close_good [OF g' terminal_marks(2) active_ids(1) [OF inv] this] obtain s'
    where s': "sfold (close_by_id fin (mark_cancelled reason)) ?ids ?s = (Inr (), s')" "good ?s s'"
      "map_of (sw_leases s') = (\<lambda>i. if i \<in> set ?ids then map_option (closed (fin i) (mark_cancelled reason)) (map_of (sw_leases ?s) i)
         else map_of (sw_leases ?s) i)" "s' = ?s\<lparr>sw_leases := sw_leases s', sw_ledger := sw_ledger s'\<rparr>" by blast
  have "sw_cancelled s'" by (subst s'(4)) simp
  moreover have "map_of (sw_leases s') = (\<lambda>i. map_option
      (\<lambda>l. if w_state l = ACTIVE then closed (fin i) (mark_cancelled reason) l else l) (map_of (sw_leases s) i))"
  proof
    fix i
    show "map_of (sw_leases s') i = map_option
        (\<lambda>l. if w_state l = ACTIVE then closed (fin i) (mark_cancelled reason) l else l) (map_of (sw_leases s) i)"
      unfolding s'(3) active_ids(2) [OF inv] by (cases "map_of (sw_leases s) i") auto
  qed
  ultimately show "\<not> blank reason \<Longrightarrow> \<not> sw_cancelled s \<Longrightarrow>
      \<exists>s'. cancel_team reason fin s = (Inr ?ids, s') \<and> sw_cancelled s' \<and> map_of (sw_leases s') = (\<lambda>i. map_option
            (\<lambda>l. if w_state l = ACTIVE then closed (fin i) (mark_cancelled reason) l else l) (map_of (sw_leases s) i))"
    using s'(1) by (simp add: cancel_team_def Let_def)
  show "good s (snd (cancel_team reason fin s))"
    using s'(1) good_trans [OF gs s'(2)] g by (simp add: cancel_team_def Let_def)
qed

lemma cancel_worker_good:
  assumes g: "good s s"
  shows "good s (snd (cancel_worker lid reason t s))"
proof (cases "map_of (sw_leases s) lid")
  case (Some l)
  show ?thesis
  proof (cases "w_state l = ACTIVE")
    case True
    from close_lease_good [OF g Some True terminal_marks(2), of t reason] g Some True show ?thesis
      by (auto simp: cancel_worker_def)
  qed (use Some g in \<open>simp add: cancel_worker_def\<close>)
qed (use g in \<open>simp add: cancel_worker_def\<close>)

lemma swarm_heartbeat_good:
  assumes g: "good s s"
  shows "good s (snd (swarm_heartbeat lid now s))"
proof (cases "map_of (sw_leases s) lid")
  case (Some l)
  have inv: "swarm_inv s" and ner: "no_early_result s" using g by (simp_all add: good_def)
  note L = leases_okD [OF swarm_invD(2) [OF inv]]
  show ?thesis
  proof (cases "worker_active l now")
    case True
    have "good s (put_worker (l\<lparr>w_expires_at := min (now + sw_lease_ttl_s s) (w_deadline_at l)\<rparr>) s)"
      using L(5) [OF Some] ner Some by (intro good_put [OF g Some]) (auto simp: lease_le_def lease_ok_def no_early_result_def)
    with Some True show ?thesis by (simp add: swarm_heartbeat_def Let_def)
  qed (use Some g in \<open>simp add: swarm_heartbeat_def\<close>)
qed (use g in \<open>simp add: swarm_heartbeat_def\<close>)

lemma acknowledge_stopped_good:
  assumes g: "good s s"
  shows "good s (snd (acknowledge_stopped lid s))"
proof (cases "map_of (sw_leases s) lid")
  case (Some l)
  have inv: "swarm_inv s" and ner: "no_early_result s" using g by (simp_all add: good_def)
  have "good s (put_worker (l\<lparr>w_stop_required := False\<rparr>) s)"
    using leases_okD(5) [OF swarm_invD(2) [OF inv] Some] ner Some
    by (intro good_put [OF g Some]) (auto simp: lease_le_def lease_ok_def no_early_result_def)
  with Some g show ?thesis by (simp add: acknowledge_stopped_def)
qed (use g in \<open>simp add: acknowledge_stopped_def\<close>)

lemma record_terminal_result_good:
  assumes g: "good s s"
  shows "good s (snd (record_terminal_result H lid r s))"
proof (cases "map_of (sw_leases s) lid")
  case (Some l)
  have inv: "swarm_inv s" using g by (simp add: good_def)
  have put: "good s (put_worker (l\<lparr>w_result := Some r\<rparr>) s)" if "w_state l \<noteq> ACTIVE" "w_result l = None"
    using leases_okD(5) [OF swarm_invD(2) [OF inv] Some] that
    by (intro good_put [OF g Some]) (auto simp: lease_le_def lease_ok_def)
  show ?thesis
  proof (cases "w_state l \<in> {OVER_BUDGET, TIMED_OUT, CANCELLED}")
    case True
    then have "w_state l \<noteq> ACTIVE" by auto
    with put g have "good s (snd (case w_result l of
         Some old \<Rightarrow> (if old = r then Inr l else Inl (SwarmStateError ''worker lease already has a different structured result''), s)
       | None \<Rightarrow> (let l' = l\<lparr>w_result := Some r\<rparr> in (Inr l', put_worker l' s))))"
      by (simp add: Let_def split: option.split)
    then show ?thesis
      unfolding record_terminal_result_def Some option.case using True by (auto intro!: good_pure g simp del: sbind.simps)
  qed (use Some g in \<open>simp add: record_terminal_result_def\<close>)
qed (use g in \<open>simp add: record_terminal_result_def\<close>)

lemma complete_good:
  assumes g: "good s s"
  shows "good s (snd (complete H lid r t0 fin t1 t2 s))"
  unfolding complete_def
proof (rule good_sbind [OF expire_good [OF g]])
  fix x c assume g: "good c c"
  show "good c (snd (case map_of (sw_leases c) lid of
         None \<Rightarrow> (Inl (SwarmStateError ''unknown worker lease''), c)
       | Some l \<Rightarrow>
           if w_state l = FINISHED \<and> w_result l = Some r then (Inr (Some l), c)
           else if \<not> worker_active l t1 then (Inl (SwarmStateError ''worker lease is no longer active''), c)
           else sbind (pure_call (require_result_binding H (w_contract l) r) c) (\<lambda>_ s.
                sbind (close_lease t2 (mark_finished r) l s) (\<lambda>_ s. (Inr (map_of (sw_leases s) lid), s)))))"
  proof (cases "map_of (sw_leases c) lid")
    case (Some l)
    show ?thesis
    proof (cases "worker_active l t1")
      case True
      then have "w_state l = ACTIVE" by (simp add: worker_active_def)
      from close_lease_good [OF g Some this terminal_marks(3), of t2 r] obtain s'
        where "close_lease t2 (mark_finished r) l c = (Inr (), s')" "good c s'" by blast
      with Some True g show ?thesis
        by (cases "require_result_binding H (w_contract l) r") (auto simp: pure_call_def)
    qed (use Some g in simp)
  qed (use g in simp)
qed

lemma charge_good:
  assumes g: "good s s" and u: "valid_usage u"
  shows "good s (snd (charge lid u delivery t0 fin t1 s))"
proof -
  have step: "good c (snd (case map_of (sw_leases c) lid of
             None \<Rightarrow> (Inl (SwarmStateError ''usage requires an active worker lease''), c)
           | Some l \<Rightarrow>
               if \<not> worker_active l t1 then (Inl (SwarmStateError ''usage requires an active worker lease''), c)
               else (case map_of (sw_usage_deliveries c) (py_strip delivery) of
                   Some prior \<Rightarrow> (if prior \<noteq> (lid, u) then Inl (SwarmStateError ''usage delivery ID collision'') else Inr l, c)
                 | None \<Rightarrow>
                     sbind (pure_call (usage_plus (w_usage l) u) c) (\<lambda>updated s.
                     sbind (pure_call (require_within_child updated (w_contract l)) s) (\<lambda>_ s.
                       let l' = l\<lparr>w_usage := updated\<rparr>; s1 = put_worker l' s
                       in (Inr l', s1\<lparr>sw_usage_deliveries := dput (py_strip delivery) (lid, u) (sw_usage_deliveries s1)\<rparr>))))))"
    if g: "good c c" for c
  proof (cases "map_of (sw_leases c) lid")
    case (Some l)
    have inv: "swarm_inv c" and ner: "no_early_result c" using g by (simp_all add: good_def)
    have ok: "lease_ok l" using leases_okD(5) [OF swarm_invD(2) [OF inv] Some] .
    have put: "good c (put_worker (l\<lparr>w_usage := v\<rparr>) c)"
      if "worker_active l t1" "usage_plus (w_usage l) u = Inr v" "require_within_child v (w_contract l) = Inr ()" for v
    proof (rule good_put [OF g Some])
      have "valid_usage v" using that(2) usage_plus_total [of "w_usage l" u] ok u by (auto simp: lease_ok_def)
      with that ok show "lease_ok (l\<lparr>w_usage := v\<rparr>)"
        by (auto simp: lease_ok_def worker_active_def require_within_child_def)
    qed (use ner Some in \<open>auto simp: lease_le_def no_early_result_def\<close>)
    have inner: "good c (snd (sbind (pure_call (usage_plus (w_usage l) u) c) (\<lambda>updated s.
                     sbind (pure_call (require_within_child updated (w_contract l)) s) (\<lambda>_ s.
                       let l' = l\<lparr>w_usage := updated\<rparr>; s1 = put_worker l' s
                       in (Inr l', s1\<lparr>sw_usage_deliveries := dput (py_strip delivery) (lid, u) (sw_usage_deliveries s1)\<rparr>)))))"
      if "worker_active l t1"
    proof (rule good_pure [OF g], rule good_pure [OF g])
      fix v x assume "usage_plus (w_usage l) u = Inr v" "require_within_child v (w_contract l) = Inr x"
      from good_fields(1) [OF put [OF that this(1)]] this(2)
      show "good c (snd (let l' = l\<lparr>w_usage := v\<rparr>; s1 = put_worker l' c
                       in (Inr l', s1\<lparr>sw_usage_deliveries := dput (py_strip delivery) (lid, u) (sw_usage_deliveries s1)\<rparr>)))"
        by (simp add: Let_def)
    qed
    show ?thesis using Some g inner by (simp split: option.split)
  qed (use g in simp)
  show ?thesis
    unfolding charge_def Let_def
    by (split if_split, intro conjI impI, simp add: g) (rule good_sbind [OF expire_good [OF g] step [unfolded Let_def]])
qed

lemma register_plan_good: "good s s \<Longrightarrow> good s (snd (register_plan pl s))"
  by (auto simp: register_plan_def good_fields split: option.split)

lemma good_contract:
  assumes g: "good s s" and c: "valid_limits (budget c)" "team_id c = tb_team_id (sw_budget s)"
    "map_of (sw_contracts s) (contract_id c) = None" "\<forall>d \<in> set (vals (sw_contracts s)). c_lease_id d \<noteq> c_lease_id c"
  shows "good s (s\<lparr>sw_contracts := dput (contract_id c) c (sw_contracts s)\<rparr>)"
proof -
  have inv: "swarm_inv s" using g by (simp add: good_def)
  note I = swarm_invD [OF inv]
  have vals: "c_lease_id d \<noteq> c_lease_id c" if "map_of (sw_contracts s) k = Some d" for k d
    using c(4) map_of_in_vals [OF that] by blast
  have "contracts_ok (sw_budget s) (dput (contract_id c) c (sw_contracts s))"
    unfolding contracts_ok_def
  proof (intro conjI allI impI)
    show "wf_dict (dput (contract_id c) c (sw_contracts s))" using contracts_okD(1) [OF I(1)] by simp
  next
    fix k d assume "map_of (dput (contract_id c) c (sw_contracts s)) k = Some d"
    then show "contract_id d = k" "valid_limits (budget d)" "team_id d = tb_team_id (sw_budget s)"
      using contracts_okD [OF I(1)] c(1,2) by (auto split: if_splits)
  next
    fix k k' d d' assume "map_of (dput (contract_id c) c (sw_contracts s)) k = Some d"
      "map_of (dput (contract_id c) c (sw_contracts s)) k' = Some d'" "c_lease_id d = c_lease_id d'"
    then show "k = k'" using contracts_okD(4) [OF I(1)] vals by (auto split: if_splits) metis
  qed
  moreover have "leases_ok (dput (contract_id c) c (sw_contracts s)) (sw_leases s)"
    using I(2) c(3) unfolding leases_ok_def map_of_dput by (metis fun_upd_apply option.distinct(1))
  ultimately have "swarm_inv (s\<lparr>sw_contracts := dput (contract_id c) c (sw_contracts s)\<rparr>)"
    using I(3-5) by (simp add: swarm_inv_def)
  with g show ?thesis by (simp add: good_def no_early_result_def evolves_def)
qed

lemma register_good:
  assumes g: "good s s" and c: "valid_limits (budget c)"
  shows "good s (snd (register H c s))"
proof -
  have new: "good s (s\<lparr>sw_contracts := dput (contract_id c) c (sw_contracts s)\<rparr>)"
    if "require_team_contract c s = Inr ()" "map_of (sw_contracts s) (contract_id c) = None"
      "\<not> (\<exists>d \<in> set (vals (sw_contracts s)). c_lease_id d = c_lease_id c)"
    by (rule good_contract [OF g c]) (use that in \<open>auto simp: require_team_contract_def\<close>)
  show ?thesis
    unfolding register_def
    by (rule good_pure [OF g]) (use g new in \<open>auto intro!: good_pure simp del: sbind.simps split: option.split\<close>)
qed

lemma record_phase_receipt_good:
  assumes g: "good s s"
  shows "good s (snd (record_phase_receipt H lid hs now s))"
  unfolding record_phase_receipt_def Let_def
  by (auto split: option.split intro!: good_pure g good_fields simp del: sbind.simps)

lemma issue_phase_authorization_good:
  assumes g: "good s s"
  shows "good s (snd (issue_phase_authorization H k hs now s))"
  unfolding issue_phase_authorization_def
  by (auto split: option.split intro!: good_pure g good_fields simp del: sbind.simps)

section \<open>Admitting a worker\<close>

lemma good_grant:
  assumes g: "good s s" and c: "map_of (sw_contracts s) (contract_id c) = Some c"
    and none: "\<not> (\<exists>l \<in> set (vals (sw_leases s)). contract_id (w_contract l) = contract_id c)"
    and r: "reserve c (sw_ledger s) = Inr L" and key: "map_of (sw_by_key s) key = None"
  shows "good s (snd (grant_worker c key auth now (s\<lparr>sw_ledger := L\<rparr>)))"
    and "map_of (sw_leases s) (c_lease_id c) = None"
proof -
  have inv: "swarm_inv s" and ner: "no_early_result s" using g by (simp_all add: good_def)
  note I = swarm_invD [OF inv] and LO = leases_okD [OF swarm_invD(2) [OF inv]]
  let ?l = "new_worker c key (sw_lease_ttl_s s) now" and ?i = "c_lease_id c"
  let ?ls = "dput ?i ?l (sw_leases s)"
  have other: "contract_id (w_contract l) \<noteq> contract_id c" if "map_of (sw_leases s) j = Some l" for j l
    using none map_of_in_vals [OF that] by blast
  show fresh: "map_of (sw_leases s) ?i = None"
  proof (rule ccontr)
    assume "map_of (sw_leases s) ?i \<noteq> None"
    then obtain l where l: "map_of (sw_leases s) ?i = Some l" by auto
    then have "contract_id (w_contract l) = contract_id c"
      using contracts_okD(4) [OF I(1) LO(4) [OF l] c] LO(3) [OF l] by simp
    with other l show False by blast
  qed
  have lim: "valid_limits (budget c)" using contracts_okD(3) [OF I(1) c] .
  note R = reserve_inv [OF ledger_okD(1) [OF I(3)] lim r] reserve_live [OF ledger_okD(1) [OF I(3)] lim r]
    reserve_Inr(1) [OF ledger_okD(1) [OF I(3)] lim r]
  have l: "w_lease_id ?l = ?i" "w_contract ?l = c" "w_state ?l = ACTIVE" "w_idempotency_key ?l = key" "w_result ?l = None"
    by (simp_all add: new_worker_def Let_def)
  have wc: "within_child no_usage (budget c)" using lim by (simp add: within_child_def valid_limits_def)
  have "lease_ok ?l" using wc by (simp add: lease_ok_def new_worker_def Let_def)
  then have lo: "leases_ok (sw_contracts s) ?ls" using l c by (intro leases_ok_put [OF I(2)]) auto
  have ex: "(\<exists>j m. map_of ?ls j = Some m \<and> P m) \<longleftrightarrow> P ?l \<or> (\<exists>j m. map_of (sw_leases s) j = Some m \<and> P m)" for P
  proof
    assume "P ?l \<or> (\<exists>j m. map_of (sw_leases s) j = Some m \<and> P m)"
    then consider "P ?l" | j m where "map_of (sw_leases s) j = Some m" "P m" by blast
    then show "\<exists>j m. map_of ?ls j = Some m \<and> P m"
    proof cases
      case 1
      then show ?thesis by (intro exI [of _ ?i] exI [of _ ?l]) simp
    next
      case 2
      then have "j \<noteq> ?i" using fresh by auto
      with 2 show ?thesis by (intro exI [of _ j] exI [of _ m]) simp
    qed
  qed (auto split: if_splits)
  have "ledger_ok (sw_budget s) L ?ls"
    unfolding ledger_ok_def
  proof (intro conjI allI)
    show "ledger_inv L" by (rule R(1))
    show "lb_budget L = sw_budget s" using R(3) ledger_okD(2) [OF I(3)] by simp
    show "map_of (lb_active L) k = Some d \<longleftrightarrow>
        (\<exists>j m. map_of ?ls j = Some m \<and> w_state m = ACTIVE \<and> w_contract m = d \<and> contract_id d = k)" for k d
      unfolding ex R(2) using l other by (auto simp: ledger_okD(3) [OF I(3)] split: if_splits)
    show "k \<in> set (keys (lb_settled L)) \<longleftrightarrow>
        (\<exists>j m. map_of ?ls j = Some m \<and> w_state m \<noteq> ACTIVE \<and> contract_id (w_contract m) = k)" for k
      unfolding ex using l R(3) ledger_okD(4) [OF I(3), of k] by simp
  qed
  moreover have "keys_ok (dput key ?i (sw_by_key s)) ?ls"
    using I(4) l fresh unfolding keys_ok_def by (auto split: if_splits) fastforce+
  ultimately have "swarm_inv ((put_worker ?l (s\<lparr>sw_ledger := L\<rparr>))\<lparr>sw_by_key := dput key ?i (sw_by_key s)\<rparr>)"
    using lo I(1,5) l(1) by (simp add: swarm_inv_def put_worker_def)
  moreover have "no_early_result (put_worker ?l s)" using ner l unfolding no_early_result_def put_worker_def by auto
  moreover have "evolves s (put_worker ?l s)" using fresh l unfolding evolves_def put_worker_def by auto
  ultimately have "good s ((put_worker ?l (s\<lparr>sw_ledger := L\<rparr>))\<lparr>sw_by_key := dput key ?i (sw_by_key s)\<rparr>)"
    by (simp add: good_def no_early_result_def evolves_def put_worker_def)
  then show "good s (snd (grant_worker c key auth now (s\<lparr>sw_ledger := L\<rparr>)))"
    using good_fields(6) l(1) by (auto simp: grant_worker_def Let_def put_worker_def split: option.split)
qed

lemma admit_fresh_good:
  assumes g: "good s s" and c: "map_of (sw_contracts s) (contract_id c) = Some c" and key: "map_of (sw_by_key s) key = None"
  shows "good s (snd (admit_fresh H c key authorization now s))"
  using g good_grant(1) [OF g c _ _ key]
  by (auto simp: admit_fresh_def split: sum.split)

lemma swarm_admit_good:
  assumes g: "good s s"
  shows "good s (snd (swarm_admit H k key authorization t0 fin t1 now s))"
proof -
  have step: "good c (snd (case map_of (sw_contracts c) k of
             None \<Rightarrow> (Inl (SwarmContractError ''subagent contract is not registered''), c)
           | Some d \<Rightarrow> (case map_of (sw_by_key c) (py_strip key) of
                 Some prior_id \<Rightarrow> (case map_of (sw_leases c) prior_id of
                     None \<Rightarrow> (Inl (KeyError prior_id), c)
                   | Some prior \<Rightarrow>
                       (let dup = (contract_id (w_contract prior) = k \<and> worker_active prior t1)
                        in (Inr \<lparr>sa_admitted = dup, sa_lease = Some prior,
                                sa_reason = (if dup then None else Some R_DUPLICATE), sa_duplicate = True\<rparr>, c)))
               | None \<Rightarrow> admit_fresh H d (py_strip key) authorization now c)))"
    if g: "good c c" for c
  proof (cases "map_of (sw_contracts c) k")
    case (Some d)
    then have "map_of (sw_contracts c) (contract_id d) = Some d"
      using contracts_okD(2) [OF swarm_invD(1)] g by (auto simp: good_def)
    from admit_fresh_good [OF g this] Some g show ?thesis by (auto simp: Let_def split: option.split)
  qed (use g in simp)
  show ?thesis
    unfolding swarm_admit_def Let_def
    by (split if_split, intro conjI impI, simp add: g) (rule good_sbind [OF expire_good [OF g] step [unfolded Let_def]])
qed

section \<open>Rebuilding the ledger\<close>

text \<open>\<open>mirrors b L A\<close>: the ledger accounts for exactly the leases \<open>A\<close>.\<close>

definition mirrors :: "TeamBudget \<Rightarrow> TeamBudgetLedger \<Rightarrow> WorkerLease set \<Rightarrow> bool" where
  "mirrors b L A \<longleftrightarrow> ledger_inv L \<and> lb_budget L = b
     \<and> (\<forall>k c. map_of (lb_active L) k = Some c \<longleftrightarrow> (\<exists>l \<in> A. w_state l = ACTIVE \<and> w_contract l = c \<and> contract_id c = k))
     \<and> (\<forall>k. k \<in> set (keys (lb_settled L)) \<longleftrightarrow> (\<exists>l \<in> A. w_state l \<noteq> ACTIVE \<and> contract_id (w_contract l) = k))"

lemma ledger_ok_mirrors: "wf_dict ls \<Longrightarrow> ledger_ok b L ls \<longleftrightarrow> mirrors b L (set (vals ls))"
  unfolding ledger_ok_def mirrors_def Bex_def in_vals_iff by blast

lemma mirrors_reserve:
  assumes m: "mirrors b L A" and lim: "valid_limits (budget (w_contract l))" and r: "reserve (w_contract l) L = Inr L'"
  shows "map_of (lb_active L) (contract_id (w_contract l)) = None" "ledger_inv L'" "lb_budget L' = b"
    "map_of (lb_active L') = (map_of (lb_active L))(contract_id (w_contract l) \<mapsto> w_contract l)"
    "lb_settled L' = lb_settled L"
proof -
  have inv: "ledger_inv L" and b: "lb_budget L = b" using m by (simp_all add: mirrors_def)
  show "map_of (lb_active L) (contract_id (w_contract l)) = None" by (rule reserve_Inr(3) [OF inv lim r])
  show "ledger_inv L'" by (rule reserve_inv [OF inv lim r])
  show "lb_budget L' = b" "lb_settled L' = lb_settled L" using reserve_Inr(1) [OF inv lim r] b by simp_all
  show "map_of (lb_active L') = (map_of (lb_active L))(contract_id (w_contract l) \<mapsto> w_contract l)"
    by (rule reserve_live [OF inv lim r])
qed

lemma mirrors_active:
  assumes m: "mirrors b L A" and lim: "valid_limits (budget (w_contract l))" and r: "reserve (w_contract l) L = Inr L'"
    and act: "w_state l = ACTIVE"
  shows "mirrors b L' (insert l A)"
proof -
  note R = mirrors_reserve [OF m lim r]
  have live: "map_of (lb_active L) k = Some c \<longleftrightarrow> (\<exists>l \<in> A. w_state l = ACTIVE \<and> w_contract l = c \<and> contract_id c = k)" for k c
    using m by (simp add: mirrors_def)
  have "map_of (lb_active L') k = Some c \<longleftrightarrow> (\<exists>m \<in> insert l A. w_state m = ACTIVE \<and> w_contract m = c \<and> contract_id c = k)" for k c
  proof (cases "k = contract_id (w_contract l)")
    case True
    have "\<not> (\<exists>m \<in> A. w_state m = ACTIVE \<and> contract_id (w_contract m) = k)"
      using R(1) live [of k] True by (metis option.distinct(1))
    with True act show ?thesis by (auto simp: R(4))
  next
    case False
    with live act show ?thesis by (auto simp: R(4))
  qed
  with m R(2,3,5) act show ?thesis by (auto simp: mirrors_def)
qed

lemma mirrors_terminal:
  assumes m: "mirrors b L A" and lim: "valid_limits (budget (w_contract l))" and r: "reserve (w_contract l) L = Inr L'"
    and st: "w_state l \<noteq> ACTIVE" and u: "valid_usage u"
    and s: "settle (contract_id (w_contract l)) u L' = Inr L''"
  shows "mirrors b L'' (insert l A)"
proof -
  note R = mirrors_reserve [OF m lim r]
  have live: "map_of (lb_active L') (contract_id (w_contract l)) = Some (w_contract l)" using R(4) by simp
  have "within_child u (budget (w_contract l))" using settle_Inr(1) [OF s] live by simp
  from settle_total [OF R(2) live u this] s have S: "ledger_inv L''" "lb_budget L'' = b"
    "map_of (lb_active L'') = (map_of (lb_active L'))(contract_id (w_contract l) := None)"
    "set (keys (lb_settled L'')) = insert (contract_id (w_contract l)) (set (keys (lb_settled L)))"
    using R(3,5) by auto
  have "map_of (lb_active L'') = map_of (lb_active L)" using S(3) R(1,4) by (auto simp: fun_eq_iff)
  with m S(1,2,4) st show ?thesis by (auto simp: mirrors_def)
qed

definition rebuildable :: "WorkerLease \<Rightarrow> bool" where
  "rebuildable l \<longleftrightarrow> valid_limits (budget (w_contract l)) \<and>
     (w_state l = ACTIVE \<or> (\<forall>u. w_settled_usage l = Some u \<longrightarrow> valid_usage u))"

lemma sfold_rebuild_terminal:
  assumes "sfold rebuild_terminal ls s = (Inr (), s')" and "mirrors b (sw_ledger s) A"
    and "\<And>l. l \<in> set ls \<Longrightarrow> w_state l \<noteq> ACTIVE \<and> rebuildable l"
  shows "mirrors b (sw_ledger s') (A \<union> set ls) \<and> s' = s\<lparr>sw_ledger := sw_ledger s'\<rparr>"
  using assms
proof (induction ls arbitrary: s A)
  case (Cons l ls)
  from Cons.prems(1) obtain s1 where s1: "rebuild_terminal l s = (Inr (), s1)" "sfold rebuild_terminal ls s1 = (Inr (), s')"
    by auto
  from s1(1) obtain u where u: "w_settled_usage l = Some u" by (auto simp: rebuild_terminal_def split: option.splits)
  with Cons.prems(3) [of l] have l: "w_state l \<noteq> ACTIVE" "valid_limits (budget (w_contract l))" "valid_usage u"
    by (auto simp: rebuildable_def)
  from s1(1) u obtain L L' where L: "reserve (w_contract l) (sw_ledger s) = Inr L"
    "settle (contract_id (w_contract l)) u L = Inr L'" "s1 = s\<lparr>sw_ledger := L'\<rparr>"
    by (auto simp: rebuild_terminal_def with_ledger_def split: sum.splits)
  have "mirrors b (sw_ledger s1) (insert l A)"
    using mirrors_terminal [OF Cons.prems(2) l(2) L(1) l(1) l(3) L(2)] L(3) by simp
  from Cons.IH [OF s1(2) this] Cons.prems(3) have
    m: "mirrors b (sw_ledger s') (insert l A \<union> set ls)" and s': "s' = s1\<lparr>sw_ledger := sw_ledger s'\<rparr>" by auto
  have "s' = s\<lparr>sw_ledger := sw_ledger s'\<rparr>" by (subst s', subst L(3)) simp
  with m show ?case by simp
qed simp

lemma sfold_rebuild_active:
  assumes "sfold rebuild_active ls s = (Inr (), s')" and "mirrors b (sw_ledger s) A"
    and "\<And>l. l \<in> set ls \<Longrightarrow> w_state l = ACTIVE \<and> rebuildable l"
  shows "mirrors b (sw_ledger s') (A \<union> set ls) \<and> s' = s\<lparr>sw_ledger := sw_ledger s'\<rparr>"
  using assms
proof (induction ls arbitrary: s A)
  case (Cons l ls)
  from Cons.prems(1) obtain s1 where s1: "rebuild_active l s = (Inr (), s1)" "sfold rebuild_active ls s1 = (Inr (), s')"
    by auto
  from s1(1) obtain L where "reserve (w_contract l) (sw_ledger s) = Inr L" "s1 = s\<lparr>sw_ledger := L\<rparr>"
    by (auto simp: rebuild_active_def with_ledger_def split: sum.splits)
  with s1(2) have L: "reserve (w_contract l) (sw_ledger s) = Inr L"
    "sfold rebuild_active ls (s\<lparr>sw_ledger := L\<rparr>) = (Inr (), s')" by simp_all
  have "mirrors b (sw_ledger (s\<lparr>sw_ledger := L\<rparr>)) (insert l A)"
    using mirrors_active [OF Cons.prems(2) _ L(1)] Cons.prems(3) [of l] by (simp add: rebuildable_def)
  from Cons.IH [OF L(2) this] Cons.prems(3) have
    m: "mirrors b (sw_ledger s') (insert l A \<union> set ls)" and s': "s' = (s\<lparr>sw_ledger := L\<rparr>)\<lparr>sw_ledger := sw_ledger s'\<rparr>" by auto
  have "s' = s\<lparr>sw_ledger := sw_ledger s'\<rparr>" by (subst s') simp
  with m show ?case by simp
qed simp

text \<open>A rebuild that does not raise gives back a ledger that mirrors the leases.\<close>

lemma rebuild_ledger_mirrors:
  assumes wf: "wf_dict (sw_leases s)" and rb: "\<And>l. l \<in> set (vals (sw_leases s)) \<Longrightarrow> rebuildable l"
    and team: "mk_TeamBudget (sw_budget s) = Inr b'" and call: "rebuild_ledger s = (Inr (), s')"
  shows "ledger_ok (sw_budget s) (sw_ledger s') (sw_leases s)" "s' = s\<lparr>sw_ledger := sw_ledger s'\<rparr>"
proof -
  let ?T = "filter (\<lambda>l. w_state l \<noteq> ACTIVE) (vals (sw_leases s))" and ?A = "filter (\<lambda>l. w_state l = ACTIVE) (vals (sw_leases s))"
  let ?s0 = "s\<lparr>sw_ledger := new_ledger (sw_budget s)\<rparr>"
  from call obtain s1 where s1: "sfold rebuild_terminal (sort_key w_lease_id ?T) ?s0 = (Inr (), s1)"
    "sfold rebuild_active (sort_key w_lease_id ?A) s1 = (Inr (), s')"
    by (auto simp: rebuild_ledger_def Let_def)
  have m0: "mirrors (sw_budget s) (sw_ledger ?s0) {}"
    using ledger_inv_new [OF team] by (simp add: mirrors_def new_ledger_def)
  have m1: "mirrors (sw_budget s) (sw_ledger s1) ({} \<union> set (sort_key w_lease_id ?T)) \<and> s1 = ?s0\<lparr>sw_ledger := sw_ledger s1\<rparr>"
    by (rule sfold_rebuild_terminal [OF s1(1) m0]) (use rb in auto)
  have m2: "mirrors (sw_budget s) (sw_ledger s') ({} \<union> set (sort_key w_lease_id ?T) \<union> set (sort_key w_lease_id ?A))
      \<and> s' = s1\<lparr>sw_ledger := sw_ledger s'\<rparr>"
    by (rule sfold_rebuild_active [OF s1(2) conjunct1 [OF m1]]) (use rb in auto)
  have "{} \<union> set (sort_key w_lease_id ?T) \<union> set (sort_key w_lease_id ?A) = set (vals (sw_leases s))" by auto
  with m2 show "ledger_ok (sw_budget s) (sw_ledger s') (sw_leases s)" using ledger_ok_mirrors [OF wf] by simp
  show "s' = s\<lparr>sw_ledger := sw_ledger s'\<rparr>" by (subst conjunct2 [OF m2], subst conjunct2 [OF m1]) simp
qed

lemma rebuild_ledger_good:
  assumes g: "good s s" and team: "mk_TeamBudget (sw_budget s) = Inr b'" and call: "rebuild_ledger s = (Inr (), s')"
  shows "good s s'"
proof -
  have inv: "swarm_inv s" using g by (simp add: good_def)
  note I = swarm_invD [OF inv] and L = leases_okD [OF swarm_invD(2) [OF inv]]
  have rb: "rebuildable l" if "l \<in> set (vals (sw_leases s))" for l
    using that L(4,5) contracts_okD(3) [OF I(1)] unfolding rebuildable_def in_vals_iff [OF L(1)] lease_ok_def
    by (metis option.inject)
  note R = rebuild_ledger_mirrors [OF L(1) rb team call]
  obtain L where s': "s' = s\<lparr>sw_ledger := L\<rparr>" using R(2) ..
  with R(1) I have "swarm_inv s'" by (simp add: swarm_inv_def)
  with g s' show ?thesis by (simp add: good_def no_early_result_def evolves_def)
qed

lemma usage_max_spent: "spent d (usage_max a b) = max (spent d a) (spent d b)"
  by (cases d) (simp_all add: usage_max_def max_def)

lemma cap_usage_spent: "spent d (cap_usage u c) = min (spent d u) (child_limit d (budget c))"
  by (cases d) (simp_all add: cap_usage_def min_def)

lemma overage_Nil_iff: "overage_dimensions u c = [] \<longleftrightarrow> within_child u (budget c)"
  by (auto simp: overage_dimensions_def within_child_def all_dim_iff not_less split: if_splits)

lemma cap_usage_ok:
  "valid_usage u \<Longrightarrow> valid_limits (budget c) \<Longrightarrow> valid_usage (cap_usage u c) \<and> within_child (cap_usage u c) (budget c)"
  by (simp add: valid_usage_def within_child_def cap_usage_spent valid_limits_def)

text \<open>\<open>observe_terminal_usage\<close> keeps the invariant unless it raises while rebuilding the ledger for a lease
  that had already ended.\<close>

lemma observe_terminal_usage_good:
  assumes g: "good s s" and team: "mk_TeamBudget (sw_budget s) = Inr b'" and u: "valid_usage observed"
    and fine: "\<And>l. map_of (sw_leases s) lid = Some l \<Longrightarrow> w_state l \<noteq> ACTIVE \<Longrightarrow>
      \<exists>x. fst (observe_terminal_usage lid observed delivery s) = Inr x"
  shows "good s (snd (observe_terminal_usage lid observed delivery s))"
proof (cases "map_of (sw_leases s) lid")
  case None
  then show ?thesis using g by (simp add: observe_terminal_usage_def Let_def)
next
  case (Some l)
  have inv: "swarm_inv s" and ner: "no_early_result s" using g by (simp_all add: good_def)
  note I = swarm_invD [OF inv]
  have id: "w_lease_id l = lid" and ok: "lease_ok l" using leases_okD(2,5) [OF I(2) Some] by auto
  have lim: "valid_limits (budget (w_contract l))" using contracts_okD(3) [OF I(1) leases_okD(4) [OF I(2) Some]] .
  let ?ret = "usage_max (w_usage l) observed"
  let ?dims = "overage_dimensions ?ret (w_contract l)" and ?acc = "cap_usage ?ret (w_contract l)"
  let ?l1 = "l\<lparr>w_usage := ?ret, w_overage_dimensions := ?dims\<rparr>"
  let ?s1 = "s\<lparr>sw_terminal_usage_deliveries := dput (py_strip delivery) (lid, observed) (sw_terminal_usage_deliveries s)\<rparr>"
  have vr: "valid_usage ?ret" using ok u by (auto simp: lease_ok_def valid_usage_def usage_max_spent le_max_iff_disj)
  note cap = cap_usage_ok [OF vr lim]
  have g1: "good s ?s1" by (rule good_fields(2) [OF g])
  have l1: "map_of (sw_leases ?s1) lid = Some l" using Some by simp
  consider "py_strip delivery = [] \<or> map_of (sw_terminal_usage_deliveries s) (py_strip delivery) \<noteq> None
      \<or> lid \<in> fst ` set (vals (sw_terminal_usage_deliveries s)) \<or> w_state l = FINISHED"
    | (over) "w_state l = ACTIVE" "?dims \<noteq> []" "py_strip delivery \<noteq> []" "map_of (sw_terminal_usage_deliveries s) (py_strip delivery) = None"
        "lid \<notin> fst ` set (vals (sw_terminal_usage_deliveries s))"
    | (late) "w_state l \<noteq> ACTIVE" "w_state l \<noteq> FINISHED" "py_strip delivery \<noteq> []" "map_of (sw_terminal_usage_deliveries s) (py_strip delivery) = None"
        "lid \<notin> fst ` set (vals (sw_terminal_usage_deliveries s))"
    | (within) "w_state l = ACTIVE" "?dims = []" "py_strip delivery \<noteq> []" "map_of (sw_terminal_usage_deliveries s) (py_strip delivery) = None"
        "lid \<notin> fst ` set (vals (sw_terminal_usage_deliveries s))"
    by blast
  then show ?thesis
  proof cases
    case 1
    with Some g show ?thesis by (auto simp: observe_terminal_usage_def Let_def split: option.splits)
  next
    case within
    have "good ?s1 (put_worker ?l1 ?s1)"
      using within(1,2) ok vr ner Some
      by (intro good_put [OF good_self [OF g1] l1]) (auto simp: lease_le_def lease_ok_def overage_Nil_iff no_early_result_def)
    from good_trans [OF g1 this] within Some show ?thesis by (simp add: observe_terminal_usage_def Let_def)
  next
    case over
    let ?l2 = "?l1\<lparr>w_state := OVER_BUDGET, w_terminal_reason := Some (''budget_exceeded:'' @ py_join '','' ?dims), w_settled_usage := Some ?acc\<rparr>"
    have "lease_ok ?l2" using ok vr cap by (auto simp: lease_ok_def)
    from swarm_inv_close [of ?s1 lid l ?l2, OF _ l1 over(1) _ _ _ _ this] id inv obtain L
      where L: "settle (contract_id (w_contract l)) ?acc (sw_ledger s) = Inr L"
        "swarm_inv ((put_worker ?l2 ?s1)\<lparr>sw_ledger := L\<rparr>)" by auto
    have "lease_le l ?l2" using over(1) ner Some by (auto simp: lease_le_def no_early_result_def)
    then have "good s ((put_worker ?l2 ?s1)\<lparr>sw_ledger := L\<rparr>)"
      using L(2) ner Some id unfolding good_def no_early_result_def evolves_def by (auto simp: put_worker_def)
    with L(1) over Some show ?thesis by (simp add: observe_terminal_usage_def Let_def with_ledger_def put_worker_def)
  next
    case late
    let ?l2 = "?l1\<lparr>w_settled_usage := Some ?acc\<rparr>"
    have p: "good ?s1 (put_worker ?l2 ?s1)"
      using late(1) ok vr cap
      by (intro good_put [OF good_self [OF g1] l1]) (auto simp: lease_le_def lease_ok_def)
    have call: "observe_terminal_usage lid observed delivery s
        = sbind (rebuild_ledger (put_worker ?l2 ?s1)) (\<lambda>_ s. (Inr (usage_settlement ?l2 False), s))"
      using late Some by (simp add: observe_terminal_usage_def Let_def)
    from fine [OF Some late(1)] call obtain s' where r: "rebuild_ledger (put_worker ?l2 ?s1) = (Inr (), s')"
      by (cases "rebuild_ledger (put_worker ?l2 ?s1)"; cases "fst (rebuild_ledger (put_worker ?l2 ?s1))") auto
    have t: "mk_TeamBudget (sw_budget (put_worker ?l2 ?s1)) = Inr b'" using team by (simp add: put_worker_def)
    from rebuild_ledger_good [OF good_self [OF p] t r] good_trans [OF g1 p] good_trans have "good s s'" by blast
    with call r show ?thesis by simp
  qed
qed

end
