(* ===== verification/SwarmRuns.thy ===== *)
theory SwarmRuns
  imports SwarmControl
begin

text \<open>
  Runs of the swarm scheduler: any sequence of its operations from a new scheduler, and what holds
  in every state of a run.
\<close>

section \<open>Runs\<close>

text \<open>Contracts and usages come from their validated constructors. A late usage observation, for a lease
  that has already ended, is a step only when it does not raise: see \<open>late_usage_breaks_ledger\<close>.\<close>

inductive swarm_step :: "hashes \<Rightarrow> SwarmScheduler \<Rightarrow> SwarmScheduler \<Rightarrow> bool" for H :: hashes where
  planning: "swarm_step H s (snd (register_plan pl s))"
| registering: "mk_ExecutionBudget (budget c) = Inr (budget c) \<Longrightarrow> swarm_step H s (snd (register H c s))"
| receipting: "swarm_step H s (snd (record_phase_receipt H lid hs t s))"
| authorizing: "swarm_step H s (snd (issue_phase_authorization H k hs t s))"
| admitting: "swarm_step H s (snd (swarm_admit H k key auth t0 fin t1 now s))"
| beating: "swarm_step H s (snd (swarm_heartbeat lid now s))"
| charging: "mk_BudgetUsage u = Inr u \<Longrightarrow> swarm_step H s (snd (charge lid u d t0 fin t1 s))"
| observing: "mk_BudgetUsage u = Inr u
    \<Longrightarrow> (\<And>l. map_of (sw_leases s) lid = Some l \<Longrightarrow> w_state l \<noteq> ACTIVE \<Longrightarrow> \<exists>x. fst (observe_terminal_usage lid u d s) = Inr x)
    \<Longrightarrow> swarm_step H s (snd (observe_terminal_usage lid u d s))"
| failing: "swarm_step H s (snd (record_terminal_result H lid r s))"
| completing: "swarm_step H s (snd (complete H lid r t0 fin t1 t2 s))"
| cancelling: "swarm_step H s (snd (cancel_worker lid reason t s))"
| closing: "swarm_step H s (snd (cancel_team reason fin s))"
| reaping: "swarm_step H s (snd (reap_timeouts now fin s))"
| acknowledging: "swarm_step H s (snd (acknowledge_stopped lid s))"

inductive swarm_reachable :: "hashes \<Rightarrow> TeamBudget \<Rightarrow> SwarmScheduler \<Rightarrow> bool" for H :: hashes and b :: TeamBudget where
  start: "mk_TeamBudget b = Inr b \<Longrightarrow> new_swarm b i orch ttl = Inr s \<Longrightarrow> swarm_reachable H b s"
| next_step: "swarm_reachable H b s \<Longrightarrow> swarm_step H s s' \<Longrightarrow> swarm_reachable H b s'"

lemma swarm_step_good:
  assumes "swarm_step H s s'" and g: "good s s" and team: "mk_TeamBudget (sw_budget s) = Inr b"
  shows "good s s'"
  using assms(1)
proof cases
  case (observing u lid d)
  then show ?thesis using observe_terminal_usage_good [OF g team] by simp
qed (auto simp: reap_timeouts_def g register_plan_good register_good record_phase_receipt_good issue_phase_authorization_good
    swarm_admit_good swarm_heartbeat_good charge_good record_terminal_result_good complete_good cancel_worker_good
    cancel_team_good(1) expire_good acknowledge_stopped_good dest: mk_ExecutionBudget_valid)

lemma new_swarm_good:
  assumes "mk_TeamBudget b = Inr b" and "new_swarm b i orch ttl = Inr s"
  shows "good s s"
proof -
  from assms(2) have s: "sw_budget s = b" "sw_ledger s = new_ledger b" "sw_contracts s = []" "sw_leases s = []" "sw_by_key s = []"
    "0 < sw_lease_ttl_s s" by (auto simp: new_swarm_def)
  have "ledger_ok b (new_ledger b) []" using ledger_inv_new [OF assms(1)] by (simp add: ledger_ok_def new_ledger_def)
  with s show ?thesis
    by (simp add: good_def swarm_inv_def contracts_ok_def leases_ok_def keys_ok_def no_early_result_def)
qed

lemma swarm_reachable_good: "swarm_reachable H b s \<Longrightarrow> good s s \<and> sw_budget s = b \<and> mk_TeamBudget b = Inr b"
proof (induction rule: swarm_reachable.induct)
  case (start i orch ttl s)
  then show ?case using new_swarm_good by (auto simp: new_swarm_def)
next
  case (next_step s s')
  then have "good s s'" using swarm_step_good by auto
  then show ?case using next_step good_self by (simp add: good_def evolves_def)
qed

section \<open>Properties\<close>


text \<open>Reaping and cancelling never fail: in every run \<open>reap_timeouts\<close> returns, ends exactly the active
  leases whose time is up and asks for their processes to be stopped; \<open>cancel_team\<close> with a reason
  returns and leaves no active lease.\<close>

theorem reap_and_cancel_total:
  assumes run: "swarm_reachable H b s"
  shows "(\<exists>ids s'. reap_timeouts now fin s = (Inr ids, s')
      \<and> (\<forall>i. i \<in> set ids \<longleftrightarrow> (\<exists>l. map_of (sw_leases s) i = Some l \<and> w_state l = ACTIVE \<and> \<not> worker_active l now))
      \<and> (\<forall>i l. map_of (sw_leases s') i = Some l \<longrightarrow>
           (if i \<in> set ids then w_state l = TIMED_OUT \<and> w_stop_required l else map_of (sw_leases s) i = Some l)))
    \<and> (\<not> blank reason \<and> \<not> sw_cancelled s \<longrightarrow> (\<exists>ids s'. cancel_team reason fin s = (Inr ids, s') \<and> sw_cancelled s'
      \<and> (\<forall>i l. map_of (sw_leases s') i = Some l \<longrightarrow> w_state l \<noteq> ACTIVE)))"
proof -
  have g: "good s s" using swarm_reachable_good [OF run] by auto
  then have inv: "swarm_inv s" by (simp add: good_def)
  obtain s' where s': "expire_locked now fin s = (Inr (expired_workers now s), s')"
    "map_of (sw_leases s') = (\<lambda>i. if i \<in> set (expired_workers now s)
         then map_option (closed (fin i) (mark_timed_out now)) (map_of (sw_leases s) i) else map_of (sw_leases s) i)"
    using expire_locked_good [OF g, of now fin] by (elim exE conjE) (rule that)
  have ids: "i \<in> set (expired_workers now s) \<longleftrightarrow> (\<exists>l. map_of (sw_leases s) i = Some l \<and> w_state l = ACTIVE \<and> \<not> worker_active l now)" for i
    unfolding expired_workers_def active_ids(2) [OF inv] worker_active_def by auto
  have "if i \<in> set (expired_workers now s) then w_state l = TIMED_OUT \<and> w_stop_required l else map_of (sw_leases s) i = Some l"
    if "map_of (sw_leases s') i = Some l" for i l
  proof (cases "i \<in> set (expired_workers now s)")
    case True
    with that obtain l0 where "l = closed (fin i) (mark_timed_out now) l0" unfolding s'(2) by auto
    with True show ?thesis by (simp add: closed_def mark_timed_out_def)
  next
    case False
    with that show ?thesis unfolding s'(2) by simp
  qed
  with s'(1) ids have A: "\<exists>ids s'. reap_timeouts now fin s = (Inr ids, s')
      \<and> (\<forall>i. i \<in> set ids \<longleftrightarrow> (\<exists>l. map_of (sw_leases s) i = Some l \<and> w_state l = ACTIVE \<and> \<not> worker_active l now))
      \<and> (\<forall>i l. map_of (sw_leases s') i = Some l \<longrightarrow>
           (if i \<in> set ids then w_state l = TIMED_OUT \<and> w_stop_required l else map_of (sw_leases s) i = Some l))"
    unfolding reap_timeouts_def by blast
  have "\<exists>ids s'. cancel_team reason fin s = (Inr ids, s') \<and> sw_cancelled s'
      \<and> (\<forall>i l. map_of (sw_leases s') i = Some l \<longrightarrow> w_state l \<noteq> ACTIVE)" if nb: "\<not> blank reason" "\<not> sw_cancelled s"
  proof -
    from cancel_team_good(2) [OF g nb, of fin] obtain ids s2 where s2: "cancel_team reason fin s = (Inr ids, s2)" "sw_cancelled s2"
      "map_of (sw_leases s2) = (\<lambda>i. map_option
            (\<lambda>l. if w_state l = ACTIVE then closed (fin i) (mark_cancelled reason) l else l) (map_of (sw_leases s) i))" by blast
    have "w_state l \<noteq> ACTIVE" if l: "map_of (sw_leases s2) i = Some l" for i l
    proof -
      from l obtain l0 where "l = (if w_state l0 = ACTIVE then closed (fin i) (mark_cancelled reason) l0 else l0)"
        unfolding s2(3) by auto
      then show ?thesis by (cases "w_state l0 = ACTIVE") (simp_all add: closed_def mark_cancelled_def)
    qed
    with s2 show ?thesis by blast
  qed
  with A show ?thesis by blast
qed

text \<open>The controller's verdicts are final: over any step of a run a lease keeps its contract, its
  acquisition time and its hard deadline; once it has ended it stays in the state it ended in, and a
  recorded result is never replaced.\<close>

theorem terminal_leases_final:
  assumes run: "swarm_reachable H b s" and step: "swarm_step H s s'" and l: "map_of (sw_leases s) i = Some l"
  shows "\<exists>l'. map_of (sw_leases s') i = Some l' \<and> w_contract l' = w_contract l \<and> w_acquired_at l' = w_acquired_at l
    \<and> w_deadline_at l' = w_deadline_at l \<and> (w_state l \<noteq> ACTIVE \<longrightarrow> w_state l' = w_state l)
    \<and> (\<forall>r. w_result l = Some r \<longrightarrow> w_result l' = Some r)"
proof -
  have "good s s'" using swarm_step_good [OF step] swarm_reachable_good [OF run] by auto
  then have "evolves s s'" by (simp add: good_def)
  from evolves_lease [OF this l] show ?thesis unfolding lease_le_def by blast
qed

section \<open>Admission\<close>

lemma receipt_backed_lease:
  assumes inv: "swarm_inv s" and r: "receipt_backed H r s"
  shows "\<exists>i l res. map_of (sw_leases s) i = Some l \<and> contract_id (w_contract l) = rc_contract_id r \<and> w_state l = FINISHED
    \<and> w_result l = Some res \<and> h_result H res = rc_result_hash r"
proof -
  note L = leases_okD [OF swarm_invD(2) [OF inv]]
  from r obtain l0 l where l0: "lease_of_contract (rc_contract_id r) s = Some l0"
    and l: "map_of (sw_leases s) (w_lease_id l0) = Some l" "w_state l = FINISHED"
      "case w_result l of None \<Rightarrow> False | Some res \<Rightarrow> h_result H res = rc_result_hash r"
    by (auto simp: receipt_backed_def split: option.splits)
  from l0 have "l0 \<in> set (vals (sw_leases s))" "contract_id (w_contract l0) = rc_contract_id r"
    unfolding lease_of_contract_def find_Some_iff by auto
  then obtain i where "map_of (sw_leases s) i = Some l0" using in_vals_iff [OF L(1)] by blast
  with L(2) l(1) have "l = l0" by auto
  with l \<open>contract_id (w_contract l0) = rc_contract_id r\<close> show ?thesis by (auto split: option.splits)
qed

lemma owned_receipts_Inr:
  assumes "owned_receipts H hs s = Inr rs" and "r \<in> set rs"
  shows "receipt_backed H r s"
  using assms by (auto simp: owned_receipts_def list_all_iff)

text \<open>What a granted authorization check establishes.\<close>

lemma require_admission_authorization_Inr:
  assumes inv: "swarm_inv s" and plan: "sw_plan s = Some pl" "mk_SwarmPlan pl = Inr pl"
    and p: "require_contract_plan H c pl = Inr p" "predecessor_phase_ids p \<noteq> []"
    and r: "require_admission_authorization H c authorization s = Inr auth"
  shows "\<exists>a. authorization = Some a \<and> auth = Some (h_authorization H a)
    \<and> map_of (sw_authorizations s) (h_authorization H a) = Some a
    \<and> h_authorization H a \<notin> set (keys (sw_consumed_authorizations s))
    \<and> (\<forall>k \<in> predecessor_contracts pl p. \<exists>(rc :: PhaseReceipt) i l. rc_contract_id rc = k \<and> rc_disposition rc = COMPLETED
         \<and> map_of (sw_leases s) i = Some l \<and> contract_id (w_contract l) = k \<and> w_state l = FINISHED)"
proof -
  obtain a where au: "authorization = Some a"
    using r plan(1) p by (cases authorization) (simp_all add: require_admission_authorization_def)
  from r obtain rs ps where a: "auth = Some (h_authorization H a)"
      "map_of (sw_authorizations s) (h_authorization H a) = Some a"
      "h_authorization H a \<notin> set (keys (sw_consumed_authorizations s))"
    and rs: "owned_receipts H (au_predecessor_receipt_hashes a) s = Inr rs"
    and ps: "rmap (phase pl) (predecessor_phase_ids p) = Inr ps"
    and e: "set (map rc_contract_id rs) = set (remdups (concat (map contract_ids ps)))"
      "\<not> list_ex (\<lambda>r. rc_disposition r \<noteq> COMPLETED) rs"
    unfolding require_admission_authorization_def plan(1) option.case p(1) rbind.simps au if_not_P [OF p(2)]
    by (simp only: ex_unit Let_def check_Inr_iff rbind_Inr_iff list.pred_inject case_prod_conv de_Morgan_disj not_not sum.inject) blast
  have eq: "rc_contract_id ` set rs = predecessor_contracts pl p"
    using e(1) predecessor_contracts_eq [OF ps mk_SwarmPlanD(2) [OF plan(2)]] by simp
  have "\<exists>(rc :: PhaseReceipt) i l. rc_contract_id rc = k \<and> rc_disposition rc = COMPLETED
         \<and> map_of (sw_leases s) i = Some l \<and> contract_id (w_contract l) = k \<and> w_state l = FINISHED"
    if "k \<in> predecessor_contracts pl p" for k
  proof -
    have "k \<in> rc_contract_id ` set rs" using that unfolding eq .
    then obtain rc where rc: "rc \<in> set rs" "rc_contract_id rc = k" by (elim imageE) simp
    have "rc_disposition rc = COMPLETED" using e(2) rc(1) by (auto simp: list_ex_iff)
    moreover from receipt_backed_lease [OF inv owned_receipts_Inr [OF rs rc(1)]] rc(2) obtain i l
      where "map_of (sw_leases s) i = Some l" "contract_id (w_contract l) = k" "w_state l = FINISHED" by auto
    ultimately show ?thesis using rc(2) by (intro exI [of _ rc] exI [of _ i] exI [of _ l]) simp
  qed
  then show ?thesis using a au by simp
qed

text \<open>An expired lease was active, so a finished lease after expiry was there before.\<close>

lemma finished_before_expiry:
  assumes g: "good s s" and e: "expire_locked t0 fin s = (Inr ids, s1)"
    and l: "map_of (sw_leases s1) i = Some l" "w_state l = FINISHED"
  shows "map_of (sw_leases s) i = Some l"
proof -
  have m: "map_of (sw_leases s1) = (\<lambda>i. if i \<in> set (expired_workers t0 s)
         then map_option (closed (fin i) (mark_timed_out t0)) (map_of (sw_leases s) i) else map_of (sw_leases s) i)"
    using expire_locked_good [OF g, of t0 fin] e by (elim exE conjE) simp
  show ?thesis
  proof (cases "i \<in> set (expired_workers t0 s)")
    case True
    with l(1) obtain l0 where "l = closed (fin i) (mark_timed_out t0) l0" unfolding m by auto
    with l(2) show ?thesis by (simp add: closed_def mark_timed_out_def)
  next
    case False
    with l(1) show ?thesis unfolding m by simp
  qed
qed

text \<open>A new admission, taken apart: the contract, its phase, the state after expiry and the lease granted.\<close>

lemma swarm_admit_new:
  assumes g: "good s s" and plan: "sw_plan s = Some pl"
    and call: "swarm_admit H k key authorization t0 fin t1 now s = (Inr a, s')"
    and new: "sa_admitted a" "\<not> sa_duplicate a"
  obtains s1 c p auth where "expire_locked t0 fin s = (Inr (expired_workers t0 s), s1)" "good s s1"
    "sw_plan s1 = sw_plan s" "sw_authorizations s1 = sw_authorizations s"
    "sw_consumed_authorizations s1 = sw_consumed_authorizations s"
    "map_of (sw_contracts s) k = Some c" "\<not> sw_cancelled s" "require_contract_plan H c pl = Inr p" "contract_id c = k"
    "\<forall>l \<in> set (vals (sw_leases s1)). contract_id (w_contract l) \<noteq> k"
    "require_admission_authorization H c authorization s1 = Inr auth"
    "map_of (sw_leases s') (c_lease_id c) = Some (new_worker c (py_strip key) (sw_lease_ttl_s s1) now)"
    "sw_consumed_authorizations s' = (case auth of None \<Rightarrow> sw_consumed_authorizations s1
        | Some h \<Rightarrow> dput h (c_lease_id c) (sw_consumed_authorizations s1))"
proof -
  obtain s1 where e: "expire_locked t0 fin s = (Inr (expired_workers t0 s), s1)" and g1: "good s s1"
    and fr: "s1 = s\<lparr>sw_leases := sw_leases s1, sw_ledger := sw_ledger s1\<rparr>"
    using expire_locked_good [OF g, of t0 fin] by (elim exE conjE) (rule that)
  have inv1: "swarm_inv s1" using g1 by (simp add: good_def)
  have same: "sw_plan s1 = sw_plan s" "sw_contracts s1 = sw_contracts s" "sw_cancelled s1 = sw_cancelled s"
    "sw_authorizations s1 = sw_authorizations s" "sw_consumed_authorizations s1 = sw_consumed_authorizations s"
    by (subst fr, simp)+
  from call e new obtain c where c: "map_of (sw_contracts s1) k = Some c"
    and fresh: "admit_fresh H c (py_strip key) authorization now s1 = (Inr a, s')"
    by (auto simp: swarm_admit_def Let_def split: if_splits option.splits)
  have k: "contract_id c = k" using contracts_okD(2) [OF swarm_invD(1) [OF inv1] c] .
  from fresh new obtain auth L where nc: "\<not> sw_cancelled s1"
    and none: "\<not> (\<exists>l \<in> set (vals (sw_leases s1)). contract_id (w_contract l) = contract_id c)"
    and auth: "require_admission_authorization H c authorization s1 = Inr auth"
    and gr: "grant_worker c (py_strip key) auth now (s1\<lparr>sw_ledger := L\<rparr>) = (Inr a, s')"
    by (auto simp: admit_fresh_def swarm_refused_def split: if_splits sum.splits)
  from auth plan same(1) obtain p where p: "require_contract_plan H c pl = Inr p"
    by (auto simp: require_admission_authorization_def split: option.splits)
  have "map_of (sw_leases s') (c_lease_id c) = Some (new_worker c (py_strip key) (sw_lease_ttl_s s1) now)"
    "sw_consumed_authorizations s' = (case auth of None \<Rightarrow> sw_consumed_authorizations s1
        | Some h \<Rightarrow> dput h (c_lease_id c) (sw_consumed_authorizations s1))"
    using gr by (auto simp: grant_worker_def Let_def new_worker_def put_worker_def split: option.splits)
  with that e g1 same c nc p k none auth show ?thesis by simp
qed


section \<open>Concrete runs\<close>

text \<open>A run with two phases: a scout works, finishes and is receipted; the builder that waits for it is bound to
  the receipt, authorized and admitted.\<close>

definition demo_scout :: SubagentContract where
  "demo_scout = demo_contract\<lparr>contract_id := ''c1'', c_phase_id := ''s'', child_agent_id := ''scout'', role := SCOUT,
     writable_paths := [], c_lease_id := ''l1''\<rparr>"

definition demo_scout_result :: SubagentResult where
  "demo_scout_result = demo_result\<lparr>r_contract_id := ''c1'', r_phase_id := ''s'', r_lease_id := ''l1'', r_agent_id := ''scout'',
     r_role := SCOUT, r_observed_commit := None, r_scout_assessment := Some ACTIONABLE, r_scout_findings := [demo_finding],
     r_started_at := demo_time 1, r_finished_at := demo_time 2\<rparr>"

definition demo_start :: SwarmScheduler where
  "demo_start = \<lparr>sw_budget = demo_team, sw_identity = demo_identity, sw_orchestrator_id = ''boss'', sw_lease_ttl_s = 30,
     sw_ledger = new_ledger demo_team, sw_plan = None, sw_contracts = [], sw_leases = [], sw_by_key = [], sw_usage_deliveries = [],
     sw_terminal_usage_deliveries = [], sw_receipts = [], sw_receipt_by_contract = [], sw_authorizations = [],
     sw_consumed_authorizations = [], sw_cancelled = False, sw_cancel_reason = None\<rparr>"

definition demo_scouting :: SwarmScheduler where
  "demo_scouting = snd (swarm_admit demo_hashes ''c1'' ''k1'' None 0 (\<lambda>_. 0) 0 0
     (snd (register demo_hashes demo_scout (snd (register_plan demo_plan demo_start)))))"

definition demo_scouted :: SwarmScheduler where
  "demo_scouted = snd (record_phase_receipt demo_hashes ''l1'' [] (demo_time 2)
     (snd (complete demo_hashes ''l1'' demo_scout_result 10 (\<lambda>_. 0) 10 10 demo_scouting)))"

definition demo_authorized :: SwarmScheduler where
  "demo_authorized = snd (issue_phase_authorization demo_hashes ''c2'' [demo_hash] (demo_time 4)
     (snd (register demo_hashes demo_bound_contract demo_scouted)))"

lemma demo_start_reachable: "swarm_reachable demo_hashes demo_team demo_start"
proof (rule swarm_reachable.start)
  show "mk_TeamBudget demo_team = Inr demo_team" by code_simp
  show "new_swarm demo_team demo_identity ''boss'' 30 = Inr demo_start" by code_simp
qed

lemma demo_budgets_ok:
  "mk_ExecutionBudget (budget demo_scout) = Inr (budget demo_scout)"
  "mk_ExecutionBudget (budget demo_bound_contract) = Inr (budget demo_bound_contract)"
  by code_simp+

lemma demo_scouting_reachable: "swarm_reachable demo_hashes demo_team demo_scouting"
  unfolding demo_scouting_def
  by (rule next_step [OF next_step [OF next_step [OF demo_start_reachable planning] registering [OF demo_budgets_ok(1)]] admitting])

lemma demo_authorized_reachable: "swarm_reachable demo_hashes demo_team demo_authorized"
  unfolding demo_authorized_def demo_scouted_def
  by (rule next_step [OF next_step [OF next_step [OF next_step [OF demo_scouting_reachable completing] receipting]
        registering [OF demo_budgets_ok(2)]] authorizing])


theorem reap_and_cancel_total_witness:
  "(\<exists>s'. reap_timeouts 31 (\<lambda>_. 31) demo_scouting = (Inr [''l1''], s'))
   \<and> (\<exists>ids s'. cancel_team ''stop'' (\<lambda>_. 31) demo_scouting = (Inr ids, s') \<and> sw_cancelled s')"
proof -
  have r: "fst (reap_timeouts 31 (\<lambda>_. 31) demo_scouting) = Inr [''l1'']" by code_simp
  have "\<not> blank ''stop'' \<and> \<not> sw_cancelled demo_scouting" by code_simp
  with reap_and_cancel_total [OF demo_scouting_reachable, of 31 "\<lambda>_. 31" "''stop''"] r show ?thesis
    by (metis prod.collapse)
qed

theorem terminal_leases_final_witness:
  "\<exists>l'. map_of (sw_leases demo_scouted) ''l1'' = Some l' \<and> w_contract l' = demo_scout \<and> w_result l' = Some demo_scout_result"
proof -
  let ?s = "snd (complete demo_hashes ''l1'' demo_scout_result 10 (\<lambda>_. 0) 10 10 demo_scouting)"
  have run: "swarm_reachable demo_hashes demo_team ?s" by (rule next_step [OF demo_scouting_reachable completing])
  have "(case map_of (sw_leases ?s) ''l1'' of None \<Rightarrow> False
     | Some l \<Rightarrow> w_contract l = demo_scout \<and> w_result l = Some demo_scout_result)" by code_simp
  then obtain l where l: "map_of (sw_leases ?s) ''l1'' = Some l" "w_contract l = demo_scout" "w_result l = Some demo_scout_result"
    by (auto split: option.splits)
  from terminal_leases_final [OF run receipting l(1), of "''l1''" "[]" "demo_time 2"] l(2,3)
  show ?thesis unfolding demo_scouted_def by auto
qed

definition demo_authorization :: PhaseAuthorization where
  "demo_authorization = \<lparr>authorization_id = ''c2:authorize:'' @ demo_hash, au_plan_hash = demo_hash, au_identity_hash = demo_hash,
     au_phase_id = ''b'', au_contract_id = ''c2'', au_contract_hash = demo_hash, au_lease_id = ''l2'',
     au_predecessor_receipt_hashes = [demo_hash], au_input_result_hashes = [demo_hash], au_input_evidence_refs = [demo_hash],
     au_input_commit = replicate 40 (CHR ''0''), authorized_by = ''boss'', authorized_at = demo_time 4\<rparr>"


text \<open>Two root scouts of one phase, one after the other: together they stay within the team budget only because the
  first was settled far below its reservation.\<close>

definition late_first :: SubagentContract where
  "late_first = demo_scout\<lparr>c_lease_id := ''l9''\<rparr>"

definition late_second :: SubagentContract where
  "late_second = demo_scout\<lparr>contract_id := ''c3'', child_agent_id := ''scout2'', c_lease_id := ''l1'',
     budget := demo_budget\<lparr>eb_token_limit := 80\<rparr>\<rparr>"

definition late_plan :: SwarmPlan where
  "late_plan = demo_plan\<lparr>phases := [\<lparr>phase_id = ''s'', phase_role = SCOUT, contract_ids = [''c1'', ''c3''], predecessor_phase_ids = []\<rparr>]\<rparr>"

definition late_usage :: BudgetUsage where
  "late_usage = no_usage\<lparr>bu_tokens := 70\<rparr>"

definition late_first_done :: SwarmScheduler where
  "late_first_done = snd (cancel_worker ''l9'' ''stop'' 10 (snd (swarm_admit demo_hashes ''c1'' ''k1'' None 0 (\<lambda>_. 0) 0 0
     (snd (register demo_hashes late_second (snd (register demo_hashes late_first (snd (register_plan late_plan demo_start)))))))))"

definition late_both_done :: SwarmScheduler where
  "late_both_done = snd (cancel_worker ''l1'' ''stop'' 30 (snd (charge ''l1'' late_usage ''d1'' 20 (\<lambda>_. 20) 20
     (snd (swarm_admit demo_hashes ''c3'' ''k3'' None 10 (\<lambda>_. 10) 10 10 late_first_done)))))"

lemma late_both_done_reachable: "swarm_reachable demo_hashes demo_team late_both_done"
proof -
  have b: "mk_ExecutionBudget (budget late_first) = Inr (budget late_first)"
    "mk_ExecutionBudget (budget late_second) = Inr (budget late_second)" "mk_BudgetUsage late_usage = Inr late_usage"
    by code_simp+
  have "swarm_reachable demo_hashes demo_team late_first_done" unfolding late_first_done_def
    by (rule next_step [OF next_step [OF next_step [OF next_step [OF next_step [OF demo_start_reachable planning]
          registering [OF b(1)]] registering [OF b(2)]] admitting] cancelling])
  then show ?thesis unfolding late_both_done_def
    by (rule next_step [OF next_step [OF next_step [OF _ admitting] charging [OF b(3)]] cancelling])
qed


end
