(* ===== verification/SwarmRecovery.thy ===== *)
theory SwarmRecovery
  imports SwarmRuns
begin

text \<open>
  Checkpoints of the swarm scheduler and recovery from them (\<open>_state\<close>, \<open>recover\<close> and
  \<open>_validate_recovered_state\<close> in \<open>src/skharness/arena/swarm_control.py\<close>). A checkpoint is the decoded
  \<open>state\<close> object of the file; reading the file, its content hash and its schema name are the codec's.
  Decoding a model runs its validator, so \<open>recover\<close> runs them here.
\<close>

section \<open>Checkpoints\<close>

record checkpoint_lease =
  cl_lease_id :: string
  cl_contract_id :: string
  cl_idempotency_key :: string
  cl_acquired_at :: real
  cl_expires_at :: real
  cl_deadline_at :: real
  cl_state :: WorkerLeaseState
  cl_usage :: BudgetUsage
  cl_settled_usage :: "BudgetUsage option"
  cl_overage_dimensions :: "string list"
  cl_result :: "SubagentResult option"
  cl_terminal_reason :: "string option"
  cl_stop_required :: bool

record swarm_checkpoint =
  ck_budget :: TeamBudget
  ck_identity :: SwarmIdentity
  ck_orchestrator_id :: string
  ck_lease_ttl_s :: real
  ck_plan :: "SwarmPlan option"
  ck_contracts :: "SubagentContract list"
  ck_leases :: "checkpoint_lease list"
  ck_by_key :: "(string \<times> string) list"
  ck_usage_deliveries :: "(string \<times> string \<times> BudgetUsage) list"
  ck_terminal_usage_deliveries :: "(string \<times> string \<times> BudgetUsage) list"
  ck_receipts :: "PhaseReceipt list"
  ck_receipt_by_contract :: "(string \<times> string) list"
  ck_authorizations :: "PhaseAuthorization list"
  ck_consumed_authorizations :: "(string \<times> string) list"
  ck_cancelled :: bool
  ck_cancel_reason :: "string option"

definition checkpoint_lease_of :: "WorkerLease \<Rightarrow> checkpoint_lease" where
  "checkpoint_lease_of l = \<lparr>cl_lease_id = w_lease_id l, cl_contract_id = contract_id (w_contract l),
     cl_idempotency_key = w_idempotency_key l, cl_acquired_at = w_acquired_at l, cl_expires_at = w_expires_at l,
     cl_deadline_at = w_deadline_at l, cl_state = w_state l, cl_usage = w_usage l, cl_settled_usage = w_settled_usage l,
     cl_overage_dimensions = w_overage_dimensions l, cl_result = w_result l, cl_terminal_reason = w_terminal_reason l,
     cl_stop_required = w_stop_required l\<rparr>"

definition checkpoint_of :: "hashes \<Rightarrow> SwarmScheduler \<Rightarrow> swarm_checkpoint" where
  "checkpoint_of H s = \<lparr>ck_budget = sw_budget s, ck_identity = sw_identity s, ck_orchestrator_id = sw_orchestrator_id s,
     ck_lease_ttl_s = sw_lease_ttl_s s, ck_plan = sw_plan s, ck_contracts = sort_key contract_id (vals (sw_contracts s)),
     ck_leases = map checkpoint_lease_of (sort_key w_lease_id (vals (sw_leases s))), ck_by_key = sort_key fst (sw_by_key s),
     ck_usage_deliveries = sort_key fst (sw_usage_deliveries s),
     ck_terminal_usage_deliveries = sort_key fst (sw_terminal_usage_deliveries s),
     ck_receipts = sort_key (h_receipt H) (vals (sw_receipts s)), ck_receipt_by_contract = sort_key fst (sw_receipt_by_contract s),
     ck_authorizations = sort_key (h_authorization H) (vals (sw_authorizations s)),
     ck_consumed_authorizations = sort_key fst (sw_consumed_authorizations s), ck_cancelled = sw_cancelled s,
     ck_cancel_reason = sw_cancel_reason s\<rparr>"

section \<open>Validation of a recovered scheduler\<close>

definition check_lease :: "hashes \<Rightarrow> SwarmPlan \<Rightarrow> SwarmScheduler \<Rightarrow> WorkerLease \<Rightarrow> unit result" where
  "check_lease H pl s l = check
     [(map_of (sw_contracts s) (contract_id (w_contract l)) \<noteq> Some (w_contract l),
         SwarmStateError ''lease references an unknown or changed contract''),
      (w_lease_id l \<noteq> c_lease_id (w_contract l), SwarmStateError ''lease identity differs from immutable contract'')]
     (rbind (require_contract_plan H (w_contract l) pl) (\<lambda>_. check
       [(w_state l = ACTIVE \<and> (w_settled_usage l \<noteq> None \<or> w_result l \<noteq> None),
           SwarmStateError ''active lease cannot contain terminal settlement''),
        (w_state l \<noteq> ACTIVE \<and> w_settled_usage l = None, SwarmStateError ''terminal lease is missing capped settlement usage''),
        (w_state l = FINISHED \<and> w_result l = None, SwarmStateError ''finished lease is missing its structured result''),
        (w_state l = OVER_BUDGET \<and> w_overage_dimensions l = [], SwarmStateError ''over-budget lease is missing overage classification''),
        (w_stop_required l \<and> w_state l \<notin> {CANCELLED, TIMED_OUT},
           SwarmStateError ''only cancelled or timed-out leases may require cleanup'')]
       (rbind (case w_result l of None \<Rightarrow> Inr ()
               | Some r \<Rightarrow> rbind (require_result_binding H (w_contract l) r) (\<lambda>_.
                   if w_state l \<noteq> FINISHED then require_controller_terminal_result l r else Inr ())) (\<lambda>_. check
         [(overage_dimensions (w_usage l) (w_contract l) \<noteq> w_overage_dimensions l,
             SwarmStateError ''recorded overage dimensions do not match observed usage''),
          (case w_settled_usage l of None \<Rightarrow> False | Some u \<Rightarrow> u \<noteq> cap_usage (w_usage l) (w_contract l),
             SwarmStateError ''capped settlement does not match observed usage'')] (Inr ())))))"

text \<open>The two loops over the usage deliveries.\<close>

definition sum_delivery :: "SwarmScheduler \<Rightarrow> string \<times> string \<times> BudgetUsage \<Rightarrow> (string \<times> BudgetUsage) list
    \<Rightarrow> (string \<times> BudgetUsage) list result" where
  "sum_delivery s d delivered =
     (case d of (delivery, lid, usage) \<Rightarrow>
        (case map_of (sw_leases s) lid of None \<Rightarrow> Inl (SwarmStateError ''usage delivery index is inconsistent'')
         | Some l \<Rightarrow> check [(delivery = [], SwarmStateError ''usage delivery index is inconsistent'')]
             (rbind (require_within_child usage (w_contract l)) (\<lambda>_.
              rbind (usage_plus (case map_of delivered lid of None \<Rightarrow> no_usage | Some u \<Rightarrow> u) usage) (\<lambda>total.
                Inr (dput lid total delivered))))))"

definition note_terminal :: "SwarmScheduler \<Rightarrow> string \<times> string \<times> BudgetUsage \<Rightarrow> (string \<times> BudgetUsage) list
    \<Rightarrow> (string \<times> BudgetUsage) list result" where
  "note_terminal s d observed =
     (case d of (delivery, lid, usage) \<Rightarrow> check
        [(delivery = [] \<or> map_of (sw_leases s) lid = None \<or> lid \<in> set (keys observed),
            SwarmStateError ''terminal usage delivery index is inconsistent'')] (Inr (dput lid usage observed)))"

definition usage_of :: "(string \<times> BudgetUsage) list \<Rightarrow> string \<Rightarrow> BudgetUsage" where
  "usage_of d lid = (case map_of d lid of None \<Rightarrow> no_usage | Some u \<Rightarrow> u)"

definition usage_mismatch :: "BudgetUsage \<Rightarrow> BudgetUsage \<Rightarrow> bool" where
  "usage_mismatch u recorded \<longleftrightarrow> bu_wall_seconds u > bu_wall_seconds recorded \<or> bu_tokens u \<noteq> bu_tokens recorded
     \<or> bu_tool_calls u \<noteq> bu_tool_calls recorded \<or> bu_cost u \<noteq> bu_cost recorded"

definition check_receipt :: "hashes \<Rightarrow> SwarmScheduler \<Rightarrow> string \<times> string \<Rightarrow> unit result" where
  "check_receipt H s p =
     (case p of (k, digest) \<Rightarrow> (case map_of (sw_receipts s) digest of
        None \<Rightarrow> Inl (SwarmStateError ''phase receipt contract index is inconsistent'')
      | Some r \<Rightarrow> check [(rc_contract_id r \<noteq> k, SwarmStateError ''phase receipt contract index is inconsistent'')]
          (rbind (owned_receipts H (rc_predecessor_receipt_hashes r) s) (\<lambda>predecessors.
            case lease_of_contract k s of None \<Rightarrow> Inl (SwarmStateError ''phase receipt lacks a scheduler-owned result'')
            | Some l \<Rightarrow> (case w_result l of None \<Rightarrow> Inl (SwarmStateError ''phase receipt lacks a scheduler-owned result'')
                | Some res \<Rightarrow> rbind (from_result H (w_contract l) res predecessors (rc_recorded_at r)) (\<lambda>expected.
                    check [(expected \<noteq> r, SwarmStateError ''phase receipt differs from scheduler-owned evidence'')] (Inr ())))))))"

definition check_authorization :: "hashes \<Rightarrow> SwarmScheduler \<Rightarrow> string \<times> PhaseAuthorization \<Rightarrow> unit result" where
  "check_authorization H s p =
     (case p of (digest, a) \<Rightarrow> check [(digest \<noteq> h_authorization H a, SwarmStateError ''phase authorization content hash mismatch'')]
        (case map_of (sw_contracts s) (au_contract_id a) of
           None \<Rightarrow> Inl (SwarmStateError ''phase authorization references an unknown contract'')
         | Some c \<Rightarrow> rbind (require_contract H a c (sw_orchestrator_id s)) (\<lambda>_.
             rbind (owned_receipts H (au_predecessor_receipt_hashes a) s) (\<lambda>_. Inr ()))))"

definition validate_recovered_state :: "hashes \<Rightarrow> SwarmScheduler \<Rightarrow> unit result" where
  "validate_recovered_state H s =
     (case sw_plan s of None \<Rightarrow> Inl (SwarmStateError ''recovered scheduler is missing its immutable plan'')
      | Some pl \<Rightarrow> check
          [(\<not> distinct (map child_agent_id (vals (sw_contracts s))), SwarmStateError ''recovered child identity is assigned more than once''),
           (\<not> distinct (map c_lease_id (vals (sw_contracts s))), SwarmStateError ''recovered worker lease ID is assigned more than once'')]
          (rbind (rmap (check_lease H pl s) (vals (sw_leases s))) (\<lambda>_. check
            [(length (sw_by_key s) \<noteq> length (sw_leases s), SwarmStateError ''idempotency index is incomplete''),
             (list_ex (\<lambda>(key, lid). case map_of (sw_leases s) lid of None \<Rightarrow> True | Some l \<Rightarrow> w_idempotency_key l \<noteq> key) (sw_by_key s),
                SwarmStateError ''idempotency index is inconsistent'')]
            (rbind (rfold (sum_delivery s) (sw_usage_deliveries s) []) (\<lambda>delivered.
             rbind (rfold (note_terminal s) (sw_terminal_usage_deliveries s) []) (\<lambda>observed. check
              [(list_ex (\<lambda>(lid, l). usage_mismatch (usage_max (usage_of delivered lid) (usage_of observed lid)) (w_usage l)) (sw_leases s),
                  SwarmStateError ''recorded usage does not match idempotent deliveries''),
               (set (vals (sw_receipt_by_contract s)) \<noteq> set (keys (sw_receipts s)), SwarmStateError ''phase receipt index is inconsistent'')]
              (rbind (rmap (check_receipt H s) (sw_receipt_by_contract s)) (\<lambda>_.
               rbind (rmap (check_authorization H s) (sw_authorizations s)) (\<lambda>_. check
                [(list_ex (\<lambda>(digest, lid). case (map_of (sw_authorizations s) digest, map_of (sw_leases s) lid) of
                      (Some a, Some l) \<Rightarrow> au_contract_id a \<noteq> contract_id (w_contract l) | _ \<Rightarrow> True) (sw_consumed_authorizations s),
                    SwarmStateError ''consumed phase authorization index is inconsistent'')] (Inr ()))))))))))"

section \<open>Recovery\<close>

definition decode_input :: "hashes \<Rightarrow> PhaseInput \<Rightarrow> PhaseInput result" where
  "decode_input H i = rbind (rmap (validate_finding H) (pi_scout_findings i)) (\<lambda>_. validate_input i)"

definition decode_contract :: "hashes \<Rightarrow> SubagentContract \<Rightarrow> SubagentContract result" where
  "decode_contract H c = rbind (validate_identity (identity c)) (\<lambda>_. rbind (mk_ExecutionBudget (budget c)) (\<lambda>_.
     rbind (rmap (decode_input H) (phase_inputs c)) (\<lambda>_. validate_scope H c)))"

definition decode_result :: "hashes \<Rightarrow> SubagentResult \<Rightarrow> SubagentResult result" where
  "decode_result H r = rbind (validate_identity (r_identity r)) (\<lambda>_.
     rbind (rmap (validate_finding H) (r_scout_findings r)) (\<lambda>_. validate_result r))"

definition restore_contract :: "hashes \<Rightarrow> SwarmPlan \<Rightarrow> SubagentContract \<Rightarrow> SwarmScheduler \<Rightarrow> SwarmScheduler result" where
  "restore_contract H pl raw s = rbind (decode_contract H raw) (\<lambda>c.
     rbind (require_team_contract c s) (\<lambda>_. rbind (require_contract_plan H c pl) (\<lambda>_.
       Inr (s\<lparr>sw_contracts := dput (contract_id c) c (sw_contracts s)\<rparr>))))"

text \<open>A checkpoint without the settlement of an ended lease takes its usage for it.\<close>

definition restored_settlement :: "checkpoint_lease \<Rightarrow> BudgetUsage option" where
  "restored_settlement raw = (case cl_settled_usage raw of Some u \<Rightarrow> Some u
     | None \<Rightarrow> if cl_state raw \<noteq> ACTIVE then Some (cl_usage raw) else None)"

definition lease_from :: "checkpoint_lease \<Rightarrow> SubagentContract \<Rightarrow> BudgetUsage \<Rightarrow> BudgetUsage option \<Rightarrow> SubagentResult option
    \<Rightarrow> WorkerLease" where
  "lease_from raw c u v r = \<lparr>w_lease_id = cl_lease_id raw, w_contract = c, w_idempotency_key = cl_idempotency_key raw,
     w_acquired_at = cl_acquired_at raw, w_expires_at = cl_expires_at raw, w_deadline_at = cl_deadline_at raw,
     w_state = cl_state raw, w_usage = u, w_settled_usage = v, w_overage_dimensions = cl_overage_dimensions raw,
     w_result = r, w_terminal_reason = cl_terminal_reason raw, w_stop_required = cl_stop_required raw\<rparr>"

definition decode_option :: "('a \<Rightarrow> 'a result) \<Rightarrow> 'a option \<Rightarrow> 'a option result" where
  "decode_option decode v = (case v of None \<Rightarrow> Inr None | Some x \<Rightarrow> rbind (decode x) (\<lambda>y. Inr (Some y)))"

definition restore_lease :: "hashes \<Rightarrow> checkpoint_lease \<Rightarrow> SwarmScheduler \<Rightarrow> SwarmScheduler result" where
  "restore_lease H raw s =
     (case map_of (sw_contracts s) (cl_contract_id raw) of None \<Rightarrow> Inl (KeyError (cl_contract_id raw))
      | Some c \<Rightarrow> rbind (mk_BudgetUsage (cl_usage raw)) (\<lambda>u. rbind (decode_option mk_BudgetUsage (restored_settlement raw)) (\<lambda>v.
          rbind (decode_option (decode_result H) (cl_result raw)) (\<lambda>r. Inr (put_worker (lease_from raw c u v r) s)))))"

definition decode_delivery :: "string \<times> string \<times> BudgetUsage \<Rightarrow> (string \<times> string \<times> BudgetUsage) result" where
  "decode_delivery d = rbind (mk_BudgetUsage (snd (snd d))) (\<lambda>_. Inr d)"

definition decode_receipt :: "hashes \<Rightarrow> PhaseReceipt \<Rightarrow> PhaseReceipt result" where
  "decode_receipt H r = rbind (rmap (validate_finding H) (rc_scout_findings r)) (\<lambda>_. validate_receipt r)"

text \<open>The decoded fields of the new scheduler, then the body of \<open>recover\<close> up to the reaping of expired leases.\<close>

definition load_checkpoint :: "hashes \<Rightarrow> swarm_checkpoint \<Rightarrow> SwarmScheduler result" where
  "load_checkpoint H ck =
     rbind (mk_TeamBudget (ck_budget ck)) (\<lambda>b. rbind (validate_identity (ck_identity ck)) (\<lambda>i.
     rbind (new_swarm b i (ck_orchestrator_id ck) (ck_lease_ttl_s ck)) (\<lambda>s.
       case ck_plan ck of None \<Rightarrow> Inl (SwarmStateError ''swarm checkpoint predates immutable plan authority'')
       | Some raw \<Rightarrow> rbind (mk_SwarmPlan raw) (\<lambda>pl. check
           [(plan_identity pl \<noteq> sw_identity s, SwarmStateError ''recovered swarm plan identity mismatch'')]
           (rbind (rfold (restore_contract H pl) (ck_contracts ck) (s\<lparr>sw_plan := Some pl\<rparr>)) (\<lambda>s.
            rbind (rfold (restore_lease H) (ck_leases ck) s) (\<lambda>s.
            rbind (rmap decode_delivery (ck_usage_deliveries ck)) (\<lambda>deliveries.
            rbind (rmap decode_delivery (ck_terminal_usage_deliveries ck)) (\<lambda>terminal.
            rbind (rmap (decode_receipt H) (ck_receipts ck)) (\<lambda>receipts.
            rbind (rmap validate_authorization (ck_authorizations ck)) (\<lambda>authorizations.
              Inr (s\<lparr>sw_by_key := ck_by_key ck, sw_usage_deliveries := deliveries,
                  sw_terminal_usage_deliveries := terminal,
                  sw_receipts := fold (\<lambda>r. dput (h_receipt H r) r) receipts [],
                  sw_receipt_by_contract := ck_receipt_by_contract ck,
                  sw_authorizations := fold (\<lambda>a. dput (h_authorization H a) a) authorizations [],
                  sw_consumed_authorizations := ck_consumed_authorizations ck, sw_cancelled := ck_cancelled ck,
                  sw_cancel_reason := ck_cancel_reason ck\<rparr>))))))))))))"

definition restore :: "hashes \<Rightarrow> swarm_checkpoint \<Rightarrow> SwarmScheduler result" where
  "restore H ck = rbind (load_checkpoint H ck) (\<lambda>s.
     case rebuild_ledger s of (Inl e, _) \<Rightarrow> Inl e
     | (Inr _, s) \<Rightarrow> rbind (validate_recovered_state H s) (\<lambda>_. Inr s))"

text \<open>Every exception of the body becomes a \<open>SwarmStateError\<close>; the reaping comes after the handler.\<close>

definition recover :: "hashes \<Rightarrow> swarm_checkpoint \<Rightarrow> real \<Rightarrow> (string \<Rightarrow> real) \<Rightarrow> SwarmScheduler result" where
  "recover H ck now fin =
     (case restore H ck of
        Inl e \<Rightarrow> Inl (if is_state_error e then e else SwarmStateError ''invalid swarm control checkpoint'')
      | Inr s \<Rightarrow> (case reap_timeouts now fin s of (Inl e, _) \<Rightarrow> Inl e | (Inr _, s) \<Rightarrow> Inr s))"

section \<open>What a recovered scheduler satisfies\<close>

text \<open>What the decoding loops establish of the contracts and leases they put into the new scheduler.\<close>

definition restored_contract :: "hashes \<Rightarrow> swarm_checkpoint \<Rightarrow> SwarmPlan \<Rightarrow> SubagentContract \<Rightarrow> bool" where
  "restored_contract H ck pl c \<longleftrightarrow> c \<in> set (ck_contracts ck) \<and> valid_limits (budget c) \<and> (\<exists>p. require_contract_plan H c pl = Inr p)"

definition restored_lease :: "WorkerLease \<Rightarrow> bool" where
  "restored_lease l \<longleftrightarrow> valid_usage (w_usage l) \<and> (w_state l = ACTIVE \<or> (\<forall>u. w_settled_usage l = Some u \<longrightarrow> valid_usage u))"

definition restoring :: "hashes \<Rightarrow> swarm_checkpoint \<Rightarrow> SwarmPlan \<Rightarrow> SwarmScheduler \<Rightarrow> bool" where
  "restoring H ck pl s \<longleftrightarrow> sw_budget s = ck_budget ck \<and> wf_dict (sw_leases s)
     \<and> (\<forall>k c. map_of (sw_contracts s) k = Some c \<longrightarrow> contract_id c = k \<and> restored_contract H ck pl c)
     \<and> (\<forall>i l. map_of (sw_leases s) i = Some l \<longrightarrow> w_lease_id l = i \<and> restored_lease l
          \<and> map_of (sw_contracts s) (contract_id (w_contract l)) = Some (w_contract l))"

lemma restoringD:
  assumes "restoring H ck pl s"
  shows "sw_budget s = ck_budget ck" "wf_dict (sw_leases s)"
    "map_of (sw_contracts s) k = Some c \<Longrightarrow> contract_id c = k \<and> restored_contract H ck pl c"
    "map_of (sw_leases s) i = Some l \<Longrightarrow> w_lease_id l = i \<and> restored_lease l
       \<and> map_of (sw_contracts s) (contract_id (w_contract l)) = Some (w_contract l) \<and> restored_contract H ck pl (w_contract l)"
  using assms unfolding restoring_def by blast+

lemma decode_contract_Inr: "decode_contract H raw = Inr c \<Longrightarrow> c = raw \<and> valid_limits (budget c)"
  unfolding decode_contract_def by (auto dest: validate_scope_Inr mk_ExecutionBudget_valid)

lemma restore_contract_restoring:
  assumes r: "restoring H ck pl s" and empty: "sw_leases s = []" and raw: "raw \<in> set (ck_contracts ck)"
    and call: "restore_contract H pl raw s = Inr s'"
  shows "restoring H ck pl s' \<and> sw_leases s' = []"
proof -
  from call have s': "s' = s\<lparr>sw_contracts := dput (contract_id raw) raw (sw_contracts s)\<rparr>"
    and "restored_contract H ck pl raw"
    using raw by (auto simp: restore_contract_def restored_contract_def dest!: decode_contract_Inr)
  with r empty show ?thesis unfolding restoring_def s' by (auto split: if_splits)
qed

lemma restoring_put:
  assumes "restoring H ck pl s" and "restored_lease l" and "map_of (sw_contracts s) (contract_id (w_contract l)) = Some (w_contract l)"
  shows "restoring H ck pl (put_worker l s)"
proof -
  note R = restoringD [OF assms(1)]
  have put: "sw_budget (put_worker l s) = sw_budget s" "sw_contracts (put_worker l s) = sw_contracts s"
    "sw_leases (put_worker l s) = dput (w_lease_id l) l (sw_leases s)" by (simp_all add: put_worker_def)
  have "w_lease_id m = i \<and> restored_lease m \<and> map_of (sw_contracts s) (contract_id (w_contract m)) = Some (w_contract m)"
    if "map_of (dput (w_lease_id l) l (sw_leases s)) i = Some m" for i m
    using that R(4) [of i m] assms(2,3) unfolding map_of_dput by (cases "i = w_lease_id l") simp_all
  then show ?thesis using R(1,3) wf_dict_dput [OF R(2)] unfolding restoring_def put by blast
qed

lemma restore_lease_restoring:
  assumes r: "restoring H ck pl s" and call: "restore_lease H raw s = Inr s'"
  shows "restoring H ck pl s'"
proof -
  from call obtain c v r' where c: "map_of (sw_contracts s) (cl_contract_id raw) = Some c"
    and u: "valid_usage (cl_usage raw)" and v: "decode_option mk_BudgetUsage (restored_settlement raw) = Inr v"
    and s': "s' = put_worker (lease_from raw c (cl_usage raw) v r') s"
    by (auto simp: restore_lease_def split: option.splits)
  have "valid_usage w" if "v = Some w" for w
    using v that by (auto simp: decode_option_def split: option.splits)
  with u have "restored_lease (lease_from raw c (cl_usage raw) v r')" by (simp add: restored_lease_def lease_from_def)
  from restoring_put [OF r this] restoringD(3) [OF r c] c show ?thesis unfolding s' by (simp add: lease_from_def)
qed

text \<open>The loops before the ledger is rebuilt.\<close>

lemma loops_restoring:
  assumes new: "new_swarm (ck_budget ck) i orch ttl = Inr s0"
    and contracts: "rfold (restore_contract H pl) (ck_contracts ck) (s0\<lparr>sw_plan := Some pl\<rparr>) = Inr s1"
    and leases: "rfold (restore_lease H) (ck_leases ck) s1 = Inr s2"
  shows "restoring H ck pl s2"
proof -
  have "restoring H ck pl (s0\<lparr>sw_plan := Some pl\<rparr>) \<and> sw_leases (s0\<lparr>sw_plan := Some pl\<rparr>) = []"
    using new by (auto simp: new_swarm_def restoring_def wf_dict_def)
  then have "restoring H ck pl s1 \<and> sw_leases s1 = []"
    by (rule rfold_invariant [OF contracts]) (use restore_contract_restoring in blast)
  then have "restoring H ck pl s1" ..
  then show ?thesis by (rule rfold_invariant [OF leases]) (rule restore_lease_restoring)
qed

lemma check_lease_Inr:
  assumes "check_lease H pl s l = Inr ()"
  shows "w_lease_id l = c_lease_id (w_contract l)"
  using assms unfolding check_lease_def
  by (simp only: ex_unit check_Inr_iff rbind_Inr_iff list.pred_inject case_prod_conv not_not)

lemma validate_recovered_state_leases:
  assumes "validate_recovered_state H s = Inr ()" and "l \<in> set (vals (sw_leases s))"
  shows "w_lease_id l = c_lease_id (w_contract l)"
proof -
  from assms(1) obtain pl us where "rmap (check_lease H pl s) (vals (sw_leases s)) = Inr us"
    unfolding validate_recovered_state_def
    by (cases "sw_plan s"; simp only: option.case check_Inr_iff rbind_Inr_iff sum.distinct) blast
  from rmap_in [OF this assms(2)] show ?thesis using check_lease_Inr by auto
qed

text \<open>What \<open>restore\<close> returns: leases, ledger and contracts agree, and leases carry their contract's lease id.\<close>

definition recovered :: "hashes \<Rightarrow> swarm_checkpoint \<Rightarrow> SwarmPlan \<Rightarrow> SwarmScheduler \<Rightarrow> bool" where
  "recovered H ck pl s \<longleftrightarrow> restoring H ck pl s \<and> ledger_ok (ck_budget ck) (sw_ledger s) (sw_leases s)
     \<and> (\<forall>i l. map_of (sw_leases s) i = Some l \<longrightarrow> c_lease_id (w_contract l) = i)"

lemma load_checkpoint_restoring:
  assumes "load_checkpoint H ck = Inr s"
  shows "\<exists>pl b. ck_plan ck = Some pl \<and> mk_TeamBudget (ck_budget ck) = Inr b \<and> restoring H ck pl s"
proof -
  obtain raw where plan: "ck_plan ck = Some raw"
    using assms by (cases "ck_plan ck") (auto simp: load_checkpoint_def)
  with assms obtain b i s0 pl s1 s2 d e f g where
    b: "mk_TeamBudget (ck_budget ck) = Inr b" and new: "new_swarm b i (ck_orchestrator_id ck) (ck_lease_ttl_s ck) = Inr s0"
    and pl: "mk_SwarmPlan raw = Inr pl"
    and loops: "rfold (restore_contract H pl) (ck_contracts ck) (s0\<lparr>sw_plan := Some pl\<rparr>) = Inr s1"
      "rfold (restore_lease H) (ck_leases ck) s1 = Inr s2"
    and s: "s = s2\<lparr>sw_by_key := ck_by_key ck, sw_usage_deliveries := d, sw_terminal_usage_deliveries := e, sw_receipts := f,
       sw_receipt_by_contract := ck_receipt_by_contract ck, sw_authorizations := g,
       sw_consumed_authorizations := ck_consumed_authorizations ck, sw_cancelled := ck_cancelled ck, sw_cancel_reason := ck_cancel_reason ck\<rparr>"
    unfolding load_checkpoint_def by (simp only: option.case check_Inr_iff rbind_Inr_iff sum.inject) blast
  have bb: "b = ck_budget ck" using b by (auto simp: mk_TeamBudget_def)
  have "restoring H ck pl s2" using loops_restoring [OF _ loops] new bb by blast
  then have "restoring H ck pl s" unfolding s restoring_def by simp
  with plan b mk_SwarmPlanD(1) [OF pl] show ?thesis by blast
qed

lemma restore_recovered:
  assumes "restore H ck = Inr s"
  shows "\<exists>pl. ck_plan ck = Some pl \<and> recovered H ck pl s"
proof -
  from assms obtain t where load: "load_checkpoint H ck = Inr t"
    and rb: "rebuild_ledger t = (Inr (), s)" and v: "validate_recovered_state H s = Inr ()"
    unfolding restore_def rbind_Inr_iff by (elim exE conjE, case_tac "rebuild_ledger x", case_tac a) auto
  from load_checkpoint_restoring [OF load] obtain pl b where plan: "ck_plan ck = Some pl"
    and b: "mk_TeamBudget (ck_budget ck) = Inr b" and rt: "restoring H ck pl t" by blast
  note R = restoringD [OF rt]
  have "rebuildable l" if "l \<in> set (vals (sw_leases t))" for l
    using that R(4) unfolding in_vals_iff [OF R(2)] rebuildable_def restored_contract_def restored_lease_def by blast
  note M = rebuild_ledger_mirrors [OF R(2) this _ rb, unfolded R(1), OF _ b]
  have led: "ledger_ok (ck_budget ck) (sw_ledger s) (sw_leases t)" by (rule M(1))
  have s: "s = t\<lparr>sw_ledger := sw_ledger s\<rparr>" by (rule M(2))
  have same: "sw_leases s = sw_leases t" "sw_contracts s = sw_contracts t" "sw_budget s = sw_budget t"
    by (subst s, simp)+
  have rs: "restoring H ck pl s" using rt unfolding restoring_def same .
  have "c_lease_id (w_contract l) = j" if "map_of (sw_leases s) j = Some l" for j l
    using validate_recovered_state_leases [OF v map_of_in_vals [OF that]] restoringD(4) [OF rs that] by simp
  with rs led same plan show ?thesis unfolding recovered_def by simp
qed

text \<open>Closing an expired lease of a recovered scheduler, when the ledger accepts the settlement.\<close>

lemma close_by_id_recovered:
  assumes rec: "recovered H ck pl s" and call: "close_by_id fin mark j s = (Inr (), s')"
    and mark: "terminal_mark mark" and act: "\<And>l. map_of (sw_leases s) j = Some l \<Longrightarrow> w_state l = ACTIVE"
  shows "recovered H ck pl s' \<and> (\<exists>m. map_of (sw_leases s') = (map_of (sw_leases s))(j \<mapsto> m) \<and> w_state m \<noteq> ACTIVE)"
proof -
  obtain l where l: "map_of (sw_leases s) j = Some l" and cl: "close_lease (fin j) mark l s = (Inr (), s')"
    using call by (auto simp: close_by_id_def split: option.splits)
  have rs: "restoring H ck pl s" and led: "ledger_ok (ck_budget ck) (sw_ledger s) (sw_leases s)"
    and ids: "\<And>i l. map_of (sw_leases s) i = Some l \<Longrightarrow> c_lease_id (w_contract l) = i"
    using rec unfolding recovered_def by blast+
  note R = restoringD(4) [OF rs]
  let ?u = "w_usage (finalize_elapsed (fin j) l)"
  let ?m = "(mark (finalize_elapsed (fin j) l))\<lparr>w_settled_usage := Some ?u\<rparr>"
  have m: "w_lease_id ?m = j" "w_contract ?m = w_contract l" "w_state ?m \<noteq> ACTIVE" "w_usage ?m = ?u"
    using mark R [OF l] by (simp_all add: terminal_mark_def)
  from cl obtain L where L: "settle (contract_id (w_contract l)) ?u (sw_ledger s) = Inr L"
    and s': "s' = (put_worker ?m s)\<lparr>sw_ledger := L\<rparr>"
    by (auto simp: close_lease_def Let_def with_ledger_def put_worker_def split: sum.splits)
  have vu: "valid_usage ?u"
    using R [OF l] by (auto simp: restored_lease_def restored_contract_def finalize_elapsed_def Let_def valid_usage_def
        valid_limits_def all_dim_iff)
  have only: "i = j" if "map_of (sw_leases s) i = Some m" "contract_id (w_contract m) = contract_id (w_contract l)" for i m
    using ids [OF that(1)] ids [OF l] R [OF that(1)] R [OF l] that(2) by (metis option.inject)
  have "map_of (lb_active (sw_ledger s)) (contract_id (w_contract l)) = Some (w_contract l)"
    using ledger_okD(3) [OF led] l act [OF l] by blast
  then have within: "within_child ?u (budget (w_contract l))" using settle_Inr(1) [OF L] by simp
  have "ledger_ok (ck_budget ck) L (dput j ?m (sw_leases s))"
    using ledger_ok_close [OF led l act [OF l] m(2,3) _ vu within, unfolded L] only by blast
  then have led': "ledger_ok (ck_budget ck) (sw_ledger s') (sw_leases s')" using m(1) s' by (simp add: put_worker_def)
  have "restored_lease ?m" using m(4) vu by (simp add: restored_lease_def)
  moreover have "map_of (sw_contracts s) (contract_id (w_contract ?m)) = Some (w_contract ?m)" using R [OF l] m(2) by simp
  ultimately have "restoring H ck pl (put_worker ?m s)" by (rule restoring_put [OF rs])
  then have "restoring H ck pl s'" unfolding s' restoring_def by simp
  moreover have ls: "map_of (sw_leases s') = (map_of (sw_leases s))(j \<mapsto> ?m)" using m(1) s' by (simp add: put_worker_def)
  moreover have "c_lease_id (w_contract k) = i" if "map_of (sw_leases s') i = Some k" for i k
    using that ids ids [OF l] m(2) unfolding ls by (cases "i = j") auto
  ultimately show ?thesis using led' m(3) unfolding recovered_def by blast
qed

lemma reap_recovered:
  assumes "recovered H ck pl s" and "sfold (close_by_id fin mark) js s = (Inr (), s')" and "terminal_mark mark" and "distinct js"
    and "\<And>j l. j \<in> set js \<Longrightarrow> map_of (sw_leases s) j = Some l \<Longrightarrow> w_state l = ACTIVE"
  shows "recovered H ck pl s' \<and> (\<forall>i l. map_of (sw_leases s') i = Some l \<longrightarrow>
      w_state l \<noteq> ACTIVE \<or> i \<notin> set js \<and> map_of (sw_leases s) i = Some l)"
  using assms
proof (induction js arbitrary: s)
  case (Cons j js)
  from Cons.prems(2) obtain t where t: "close_by_id fin mark j s = (Inr (), t)" "sfold (close_by_id fin mark) js t = (Inr (), s')"
    by auto
  from close_by_id_recovered [OF Cons.prems(1) t(1) Cons.prems(3)] Cons.prems(5) obtain m
    where r: "recovered H ck pl t" and m: "map_of (sw_leases t) = (map_of (sw_leases s))(j \<mapsto> m)" "w_state m \<noteq> ACTIVE" by auto
  have "w_state l = ACTIVE" if "i \<in> set js" "map_of (sw_leases t) i = Some l" for i l
    using that Cons.prems(4) Cons.prems(5) [of i l] m(1) by (cases "i = j") auto
  with Cons.IH [OF r t(2) Cons.prems(3)] Cons.prems(4)
  have "recovered H ck pl s'" and IH: "\<And>i l. map_of (sw_leases s') i = Some l \<Longrightarrow>
      w_state l \<noteq> ACTIVE \<or> i \<notin> set js \<and> map_of (sw_leases t) i = Some l" by auto
  moreover have "w_state l \<noteq> ACTIVE \<or> i \<notin> set (j # js) \<and> map_of (sw_leases s) i = Some l" if "map_of (sw_leases s') i = Some l" for i l
    using IH [OF that] m by (auto split: if_splits)
  ultimately show ?case by blast
qed auto

lemma recover_recovered:
  assumes "recover H ck now fin = Inr s"
  shows "\<exists>pl. ck_plan ck = Some pl \<and> recovered H ck pl s
    \<and> (\<forall>i l. map_of (sw_leases s) i = Some l \<and> w_state l = ACTIVE \<longrightarrow> now < w_expires_at l \<and> now < w_deadline_at l)"
proof -
  from assms obtain t xs where t: "restore H ck = Inr t" and reap: "reap_timeouts now fin t = (Inr xs, s)"
    by (auto simp: recover_def split: sum.split_asm prod.split_asm)
  from restore_recovered [OF t] obtain pl where pl: "ck_plan ck = Some pl" "recovered H ck pl t" by blast
  have rt: "restoring H ck pl t" using pl(2) by (simp add: recovered_def)
  let ?P = "\<lambda>l. w_state l = ACTIVE \<and> min (w_expires_at l) (w_deadline_at l) \<le> now"
  have ids: "w_lease_id (snd p) = fst p" if "p \<in> set (sw_leases t)" for p
    using restoringD(2,4) [OF rt] that by (cases p) (auto simp: wf_dict_def)
  then have e: "map w_lease_id (filter ?P (vals (sw_leases t))) = map fst (filter (?P \<circ> snd) (sw_leases t))"
    by (simp add: filter_map)
  have js: "distinct (expired_workers now t)" "i \<in> set (expired_workers now t) \<longleftrightarrow> (\<exists>l. map_of (sw_leases t) i = Some l \<and> ?P l)" for i
    unfolding expired_workers_def e using restoringD(2) [OF rt]
    by (auto simp: wf_dict_def distinct_map_filter) (force dest: map_of_SomeD)+
  from reap have "sfold (close_by_id fin (mark_timed_out now)) (expired_workers now t) t = (Inr (), s)"
    by (auto simp: reap_timeouts_def expire_locked_def Let_def)
  from reap_recovered [OF pl(2) this terminal_marks(1) js(1)] js(2) pl(1) show ?thesis by fastforce
qed

text \<open>C31. A recovered scheduler is within its budget and runs no stale child: whatever a checkpoint holds, when
  \<open>recover\<close> accepts it the ledger it rebuilds and reaps keeps used plus reserved budget within the team
  budget in every dimension and concurrency within its limit; every lease carries a contract of the
  checkpoint that its plan admits; an active lease has not expired and holds its reservation, and an ended one is settled.\<close>

theorem recovery_never_overbooks:
  assumes "recover H ck now fin = Inr s"
  shows "(\<forall>d. sum_list (map (spent d) (vals (lb_settled (sw_ledger s))))
            + sum_list (map (\<lambda>c. child_limit d (budget c)) (vals (lb_active (sw_ledger s)))) \<le> team_limit d (ck_budget ck))
    \<and> int (length (lb_active (sw_ledger s))) \<le> tb_max_concurrency (ck_budget ck)
    \<and> (\<forall>i l. map_of (sw_leases s) i = Some l \<longrightarrow>
        w_contract l \<in> set (ck_contracts ck) \<and> (\<exists>pl p. ck_plan ck = Some pl \<and> require_contract_plan H (w_contract l) pl = Inr p)
        \<and> (if w_state l = ACTIVE then now < w_expires_at l \<and> now < w_deadline_at l
              \<and> map_of (lb_active (sw_ledger s)) (contract_id (w_contract l)) = Some (w_contract l)
           else contract_id (w_contract l) \<in> set (keys (lb_settled (sw_ledger s)))))"
proof -
  from recover_recovered [OF assms] obtain pl where pl: "ck_plan ck = Some pl" and rec: "recovered H ck pl s"
    and live: "\<And>i l. map_of (sw_leases s) i = Some l \<Longrightarrow> w_state l = ACTIVE \<Longrightarrow> now < w_expires_at l \<and> now < w_deadline_at l"
    by blast
  have rs: "restoring H ck pl s" and led: "ledger_ok (ck_budget ck) (sw_ledger s) (sw_leases s)"
    using rec by (simp_all add: recovered_def)
  note O = ledger_okD [OF led] and I = ledger_invD [OF ledger_okD(1) [OF led]]
  have "sum_list (map (spent d) (vals (lb_settled (sw_ledger s)))) + sum_list (map (\<lambda>c. child_limit d (budget c)) (vals (lb_active (sw_ledger s))))
      \<le> team_limit d (ck_budget ck)" for d
    using I(8) [of d] unfolding I(7) [of d] reserved_sum_def O(2) .
  moreover have "int (length (lb_active (sw_ledger s))) \<le> tb_max_concurrency (ck_budget ck)" using I(9) unfolding O(2) .
  moreover have "w_contract l \<in> set (ck_contracts ck) \<and> (\<exists>p. require_contract_plan H (w_contract l) pl = Inr p)"
    if "map_of (sw_leases s) i = Some l" for i l
    using restoringD(4) [OF rs that] by (simp add: restored_contract_def)
  moreover have "map_of (lb_active (sw_ledger s)) (contract_id (w_contract l)) = Some (w_contract l)"
    if "map_of (sw_leases s) i = Some l" "w_state l = ACTIVE" for i l using O(3) that by blast
  moreover have "contract_id (w_contract l) \<in> set (keys (lb_settled (sw_ledger s)))"
    if "map_of (sw_leases s) i = Some l" "w_state l \<noteq> ACTIVE" for i l using O(4) that by blast
  ultimately show ?thesis using live pl by (intro conjI allI impI) auto
qed

section \<open>Concrete recoveries\<close>

definition late_report :: BudgetUsage where
  "late_report = \<lparr>bu_wall_seconds = 0, bu_tokens = 5, bu_tool_calls = 0, bu_cost = 0\<rparr>"

definition small_charge :: BudgetUsage where
  "small_charge = \<lparr>bu_wall_seconds = 0, bu_tokens = 3, bu_tool_calls = 0, bu_cost = 0\<rparr>"

definition demo_reported :: SwarmScheduler where
  "demo_reported = snd (observe_terminal_usage ''l1'' late_report ''d1'' demo_scouting)"

definition demo_charged :: SwarmScheduler where
  "demo_charged = snd (charge ''l1'' small_charge ''d2'' 1 (\<lambda>_. 1) 1 demo_reported)"

lemma demo_recovers:
  "\<not> isl (recover demo_hashes (checkpoint_of demo_hashes demo_scouting) 11 (\<lambda>_. 11))"
  "\<not> isl (recover demo_hashes (checkpoint_of demo_hashes demo_reported) 11 (\<lambda>_. 11))"
  by code_simp+

theorem recovery_never_overbooks_witness:
  "\<exists>s. recover demo_hashes (checkpoint_of demo_hashes demo_scouting) 11 (\<lambda>_. 11) = Inr s
     \<and> sum_list (map (spent Tokens) (vals (lb_settled (sw_ledger s))))
         + sum_list (map (\<lambda>c. child_limit Tokens (budget c)) (vals (lb_active (sw_ledger s)))) \<le> team_limit Tokens demo_team
     \<and> int (length (lb_active (sw_ledger s))) \<le> tb_max_concurrency demo_team"
proof -
  obtain s where s: "recover demo_hashes (checkpoint_of demo_hashes demo_scouting) 11 (\<lambda>_. 11) = Inr s"
    using demo_recovers(1) by (metis isl_def sum.exhaust)
  have b: "ck_budget (checkpoint_of demo_hashes demo_scouting) = demo_team" by code_simp
  from recovery_never_overbooks [OF s] s show ?thesis unfolding b by blast
qed

lemma demo_charged_reachable: "swarm_reachable demo_hashes demo_team demo_charged"
proof -
  have "swarm_reachable demo_hashes demo_team demo_reported"
    unfolding demo_reported_def
  proof (rule next_step [OF demo_scouting_reachable observing])
    show "mk_BudgetUsage late_report = Inr late_report" by code_simp
    have "\<not> isl (fst (observe_terminal_usage ''l1'' late_report ''d1'' demo_scouting))" by code_simp
    then show "\<exists>x. fst (observe_terminal_usage ''l1'' late_report ''d1'' demo_scouting) = Inr x" by (metis isl_def sum.exhaust)
  qed
  then show ?thesis unfolding demo_charged_def by (rule next_step [OF _ charging]) code_simp
qed

text \<open>A scheduler can write a checkpoint it will not recover: when the final usage of a running child is
  observed and a smaller charge follows, the charge is added to the observed maximum, while the
  validation recomputes the maximum of the charges and the observation. Both calls succeed, the
  checkpoint before the charge recovers, the one after it is refused.\<close>

theorem charge_after_report_unrecoverable:
  "swarm_reachable demo_hashes demo_team demo_charged
   \<and> \<not> isl (fst (observe_terminal_usage ''l1'' late_report ''d1'' demo_scouting))
   \<and> \<not> isl (fst (charge ''l1'' small_charge ''d2'' 1 (\<lambda>_. 1) 1 demo_reported))
   \<and> \<not> isl (recover demo_hashes (checkpoint_of demo_hashes demo_reported) 11 (\<lambda>_. 11))
   \<and> recover demo_hashes (checkpoint_of demo_hashes demo_charged) 11 (\<lambda>_. 11)
      = Inl (SwarmStateError ''recorded usage does not match idempotent deliveries'')"
proof (intro conjI)
  show "\<not> isl (fst (observe_terminal_usage ''l1'' late_report ''d1'' demo_scouting))" by code_simp
  show "\<not> isl (fst (charge ''l1'' small_charge ''d2'' 1 (\<lambda>_. 1) 1 demo_reported))" by code_simp
  show "recover demo_hashes (checkpoint_of demo_hashes demo_charged) 11 (\<lambda>_. 11)
      = Inl (SwarmStateError ''recorded usage does not match idempotent deliveries'')" by code_simp
qed (rule demo_charged_reachable demo_recovers(2))+

end
