(* ===== verification/CompletionGate.thy ===== *)
theory CompletionGate
  imports Swarm
begin

text \<open>
  The completion gate of a swarm (\<open>src/skharness/arena/swarm_verifier.py\<close>): worker results never complete a
  card; the gate accepts only the complete planned lineage in plan order, with a signed approval of a
  trusted verifier that is none of the workers. The set of reasons the code builds is a list here, in
  the order of the additions; the decision sorts its distinct members. The digests and the check of the
  signature are parameters.
\<close>

section \<open>Attestations\<close>

datatype VerifierVerdict = APPROVED | REJECTED | INCONCLUSIVE

fun verdict_value :: "VerifierVerdict \<Rightarrow> string" where
  "verdict_value APPROVED = ''approved''"
| "verdict_value REJECTED = ''rejected''"
| "verdict_value INCONCLUSIVE = ''inconclusive''"

datatype EvidenceSource = FROM_VERIFIER | FROM_WORKER

datatype CheckProvenance = PREEXISTING | VERIFIER_AUTHORED | INDEPENDENT_RUNTIME | WORKER_AUTHORED

record CriterionEvidence =
  ce_criterion_id :: string
  ce_passed :: bool
  ce_artifact_digest :: string
  ce_observed_by :: string
  ce_source :: EvidenceSource
  ce_test_provenance :: CheckProvenance

definition validate_evidence :: "CriterionEvidence \<Rightarrow> CriterionEvidence result" where
  "validate_evidence e = check
     [(list_ex blank [ce_criterion_id e, ce_artifact_digest e, ce_observed_by e],
         ValueError ''criterion evidence identity fields must not be blank''),
      (\<not> digest_re (ce_artifact_digest e), ValueError ''criterion artifact must be an immutable sha256 digest'')] (Inr e)"

record VerifierAttestation =
  va_identity :: SwarmIdentity
  va_plan_hash :: string
  va_phase_lineage_digest :: string
  va_final_commit :: string
  va_verifier_agent_id :: string
  va_verdict :: VerifierVerdict
  va_subject_result_hashes :: "string list"
  va_criteria :: "CriterionEvidence list"
  va_created_at :: datetime
  va_signature :: string

definition validate_attestation :: "VerifierAttestation \<Rightarrow> VerifierAttestation result" where
  "validate_attestation a = check
     [(blank (va_verifier_agent_id a) \<or> blank (va_signature a), ValueError ''verifier identity and signature are required''),
      (\<not> digest_re (va_plan_hash a), ValueError ''plan_hash must be an immutable sha256 digest''),
      (\<not> digest_re (va_phase_lineage_digest a), ValueError ''phase_lineage_digest must be an immutable sha256 digest''),
      (\<not> commit_re (va_final_commit a), ValueError ''final_commit must be a full Git object ID''),
      (\<not> distinct (va_subject_result_hashes a), ValueError ''subject result hashes must be unique''),
      (list_ex (\<lambda>h. \<not> digest_re h) (va_subject_result_hashes a), ValueError ''subject result hashes must be immutable sha256 digests''),
      (\<not> distinct (map ce_criterion_id (va_criteria a)), ValueError ''criterion evidence must be unique'')] (Inr a)"

text \<open>The canonical digests of the ordered receipt hashes and of an attestation.\<close>

record gate_digests =
  d_lineage :: "string list \<Rightarrow> string"
  d_attestation :: "VerifierAttestation \<Rightarrow> string"

definition phase_lineage_digest :: "hashes \<Rightarrow> gate_digests \<Rightarrow> PhaseReceipt list \<Rightarrow> string" where
  "phase_lineage_digest H D rcs = d_lineage D (map (h_receipt H) rcs)"

record CompletionDecision =
  cd_authorized :: bool
  cd_reasons :: "string list"
  cd_verifier_attestation_digest :: "string option"

section \<open>The gate\<close>

record SwarmCompletionGate =
  cg_plan :: SwarmPlan
  cg_required_criteria :: "string list"
  cg_trusted_verifier_ids :: "string list"
  cg_verify_signature :: "VerifierAttestation \<Rightarrow> bool result"

definition new_gate :: "SwarmPlan \<Rightarrow> string list \<Rightarrow> string list \<Rightarrow> (VerifierAttestation \<Rightarrow> bool result) \<Rightarrow> SwarmCompletionGate result" where
  "new_gate pl criteria verifiers sig = check
     [(criteria = [] \<or> list_ex blank criteria, ValueError ''non-empty acceptance criteria are required''),
      (verifiers = [] \<or> list_ex blank verifiers, ValueError ''non-empty trusted verifier identities are required'')]
     (Inr \<lparr>cg_plan = pl, cg_required_criteria = remdups criteria, cg_trusted_verifier_ids = remdups verifiers,
           cg_verify_signature = sig\<rparr>)"

definition add_if :: "bool \<Rightarrow> string \<Rightarrow> string list" where
  "add_if c reason = (if c then [reason] else [])"

definition planned :: "SwarmPlan \<Rightarrow> (string \<times> SwarmRole \<times> string) list" where
  "planned pl = concat (map (\<lambda>p. map (\<lambda>k. (phase_id p, phase_role p, k)) (contract_ids p)) (phases pl))"

definition expected_ids :: "SwarmPlan \<Rightarrow> string list" where
  "expected_ids pl = map (\<lambda>(i, r, k). k) (planned pl)"

definition check_exact_order :: "string \<Rightarrow> string list \<Rightarrow> string list \<Rightarrow> string list" where
  "check_exact_order label actual expected =
     (if actual = expected then []
      else if length actual = length expected \<and> set actual = set expected then [''planned_'' @ label @ ''_order_mismatch'']
      else [''planned_'' @ label @ ''_set_mismatch''])"

text \<open>A dictionary comprehension keyed by \<open>f\<close>.\<close>

definition dict_by :: "('a \<Rightarrow> string) \<Rightarrow> 'a list \<Rightarrow> (string \<times> 'a) list" where
  "dict_by f xs = fold (\<lambda>x. dput (f x) x) xs []"

text \<open>The body of the loop over the results.\<close>

definition result_reasons :: "hashes \<Rightarrow> SwarmPlan \<Rightarrow> SubagentResult \<Rightarrow> string list" where
  "result_reasons H pl r =
     add_if (r_identity r \<noteq> plan_identity pl) (''worker_identity_mismatch:'' @ r_contract_id r)
     @ add_if (r_plan_hash r \<noteq> h_plan H pl) (''worker_plan_mismatch:'' @ r_contract_id r)
     @ add_if (case map_of (dict_by (\<lambda>(i, ro, k). k) (planned pl)) (r_contract_id r) of None \<Rightarrow> False
               | Some (i, ro, k) \<Rightarrow> r_phase_id r \<noteq> i \<or> r_role r \<noteq> ro) (''worker_phase_mismatch:'' @ r_contract_id r)
     @ (if r_disposition r \<noteq> COMPLETED then [''worker_not_completed'', ''worker_not_completed:'' @ r_contract_id r] else [])
     @ add_if (r_evidence_refs r = []) (''worker_evidence_missing:'' @ r_contract_id r)
     @ add_if (r_role r = SCOUT \<and> r_scout_assessment r \<noteq> Some ACTIONABLE) (''scout_not_actionable:'' @ r_contract_id r)"

definition output_or_input :: "SubagentResult \<Rightarrow> PhaseReceipt \<Rightarrow> string" where
  "output_or_input r rc = (case r_observed_commit r of None \<Rightarrow> rc_input_commit rc | Some c \<Rightarrow> if c = [] then rc_input_commit rc else c)"

definition check_receipt_binding :: "hashes \<Rightarrow> SwarmPlan \<Rightarrow> SubagentResult \<Rightarrow> PhaseReceipt \<Rightarrow> string \<Rightarrow> SwarmRole \<Rightarrow> string list" where
  "check_receipt_binding H pl r rc i ro =
     add_if ((rc_plan_hash rc, rc_identity_hash rc, rc_phase_id rc, rc_contract_id rc, rc_contract_hash rc, rc_lease_id rc,
              rc_role rc, rc_result_hash rc, rc_disposition rc, rc_scout_assessment rc, rc_evidence_refs rc, rc_result_finished_at rc)
           \<noteq> (h_plan H pl, h_identity H (plan_identity pl), i, r_contract_id r, r_contract_hash r, r_lease_id r,
              ro, h_result H r, r_disposition r, r_scout_assessment r, r_evidence_refs r, r_finished_at r))
       (''controller_receipt_mismatch:'' @ r_contract_id r)
     @ add_if (rc_output_commit rc \<noteq> output_or_input r rc) (''receipt_output_commit_mismatch:'' @ r_contract_id r)"

definition check_commit_chain :: "SwarmPlan \<Rightarrow> PhaseReceipt \<Rightarrow> SwarmRole \<Rightarrow> PhaseReceipt list \<Rightarrow> string list \<Rightarrow> string list" where
  "check_commit_chain pl rc ro preds pred_ids =
     (if pred_ids \<noteq> [] then
        (case remdups (map rc_output_commit preds) of
           [c] \<Rightarrow> add_if (rc_input_commit rc \<noteq> c) (''phase_input_commit_mismatch:'' @ rc_contract_id rc)
         | _ \<Rightarrow> [''predecessor_commit_conflict:'' @ rc_contract_id rc])
      else add_if (rc_input_commit rc \<noteq> id_base_commit (plan_identity pl)) (''root_input_commit_mismatch:'' @ rc_contract_id rc))
     @ (if ro \<in> {SCOUT, TESTER} then add_if (rc_output_commit rc \<noteq> rc_input_commit rc) (''read_only_phase_commit_changed:'' @ rc_contract_id rc)
        else add_if (ro = BUILDER \<and> rc_output_commit rc = rc_input_commit rc) (''builder_stale_commit:'' @ rc_contract_id rc))"

text \<open>The contracts of the phases a phase waits for; the dictionary access raises on an unknown phase.\<close>

definition predecessor_ids :: "SwarmPlan \<Rightarrow> SwarmPhaseSpec \<Rightarrow> string list result" where
  "predecessor_ids pl p = rbind (rmap (\<lambda>i. case map_of (dict_by phase_id (phases pl)) i of
       None \<Rightarrow> Inl (KeyError i) | Some q \<Rightarrow> Inr (contract_ids q)) (predecessor_phase_ids p)) (\<lambda>ids. Inr (concat ids))"

definition lookup_all :: "(string \<times> 'a) list \<Rightarrow> string list \<Rightarrow> 'a list" where
  "lookup_all d ids = List.map_filter (map_of d) ids"

text \<open>The body of the loop over the planned contracts.\<close>

definition lineage_reasons :: "hashes \<Rightarrow> SwarmPlan \<Rightarrow> (string \<times> SubagentResult) list \<Rightarrow> (string \<times> PhaseReceipt) list
    \<Rightarrow> string \<times> SwarmRole \<times> string \<Rightarrow> string list result" where
  "lineage_reasons H pl results_by_id receipts_by_id e =
     (case e of (i, ro, k) \<Rightarrow> (case (map_of results_by_id k, map_of receipts_by_id k) of
        (Some r, Some rc) \<Rightarrow>
          (case map_of (dict_by phase_id (phases pl)) i of None \<Rightarrow> Inl (KeyError i)
           | Some p \<Rightarrow> rbind (predecessor_ids pl p) (\<lambda>ids. let preds = lookup_all receipts_by_id ids in
               Inr (check_receipt_binding H pl r rc i ro
                 @ (if length preds \<noteq> length ids then [''phase_predecessor_missing:'' @ k]
                    else add_if (rc_predecessor_receipt_hashes rc \<noteq> map (h_receipt H) preds) (''phase_lineage_mismatch:'' @ k))
                 @ check_commit_chain pl rc ro preds ids)))
      | _ \<Rightarrow> Inr []))"

definition terminal_ids :: "SwarmPlan \<Rightarrow> string list" where
  "terminal_ids pl = concat (map contract_ids (filter (\<lambda>p. phase_id p \<notin> set (concat (map predecessor_phase_ids (phases pl)))) (phases pl)))"

definition criterion_reasons :: "VerifierAttestation \<Rightarrow> string \<Rightarrow> string list" where
  "criterion_reasons a c =
     (case map_of (dict_by ce_criterion_id (va_criteria a)) c of None \<Rightarrow> [''criterion_missing:'' @ c]
      | Some e \<Rightarrow> add_if (\<not> ce_passed e) (''criterion_failed:'' @ c)
          @ add_if (ce_source e \<noteq> FROM_VERIFIER \<or> ce_observed_by e \<noteq> va_verifier_agent_id a) (''criterion_not_verifier_observed:'' @ c)
          @ add_if (ce_test_provenance e = WORKER_AUTHORED) (''criterion_worker_authored_test:'' @ c))"

definition attestation_reasons :: "hashes \<Rightarrow> gate_digests \<Rightarrow> SwarmCompletionGate \<Rightarrow> SubagentResult list \<Rightarrow> SubagentResult list
    \<Rightarrow> PhaseReceipt list \<Rightarrow> string option \<Rightarrow> VerifierAttestation \<Rightarrow> string list" where
  "attestation_reasons H D g results canonical_results canonical_receipts final_commit a =
     (let pl = cg_plan g; ids = expected_ids pl in
      add_if (va_identity a \<noteq> plan_identity pl) ''verifier_identity_mismatch''
      @ add_if (va_plan_hash a \<noteq> h_plan H pl) ''verifier_plan_mismatch''
      @ add_if (length canonical_receipts \<noteq> length ids \<or> va_phase_lineage_digest a \<noteq> phase_lineage_digest H D canonical_receipts)
          ''verifier_lineage_mismatch''
      @ add_if (final_commit = None \<or> Some (va_final_commit a) \<noteq> final_commit) ''verifier_final_commit_mismatch''
      @ add_if (length canonical_results \<noteq> length ids \<or> va_subject_result_hashes a \<noteq> map (h_result H) canonical_results)
          ''verifier_subject_mismatch''
      @ add_if (va_verifier_agent_id a \<notin> set (cg_trusted_verifier_ids g)) ''verifier_untrusted''
      @ add_if (va_verifier_agent_id a \<in> set (map r_agent_id results)) ''verifier_not_independent''
      @ add_if (cg_verify_signature g a \<noteq> Inr True) ''verifier_signature_invalid''
      @ add_if (va_verdict a \<noteq> APPROVED) (''verifier_'' @ verdict_value (va_verdict a))
      @ concat (map (criterion_reasons a) (sort (cg_required_criteria g))))"

definition decision :: "gate_digests \<Rightarrow> string list \<Rightarrow> VerifierAttestation option \<Rightarrow> CompletionDecision" where
  "decision D reasons att = \<lparr>cd_authorized = (reasons = []), cd_reasons = sort (remdups reasons),
     cd_verifier_attestation_digest = (case att of None \<Rightarrow> None | Some a \<Rightarrow> if reasons = [] then Some (d_attestation D a) else None)\<rparr>"

definition evaluate :: "hashes \<Rightarrow> gate_digests \<Rightarrow> SwarmCompletionGate \<Rightarrow> SubagentResult list \<Rightarrow> PhaseReceipt list
    \<Rightarrow> VerifierAttestation option \<Rightarrow> CompletionDecision result" where
  "evaluate H D g results receipts att =
     (let pl = cg_plan g; ids = expected_ids pl;
          results_by_id = dict_by r_contract_id results; receipts_by_id = dict_by rc_contract_id receipts;
          terminal_receipts = lookup_all receipts_by_id (terminal_ids pl);
          final_commits = remdups (map rc_output_commit terminal_receipts);
          final_commit = (case final_commits of [c] \<Rightarrow> Some c | _ \<Rightarrow> None)
      in rbind (rmap (lineage_reasons H pl results_by_id receipts_by_id) (planned pl)) (\<lambda>lineage.
         let reasons = check_exact_order ''result'' (map r_contract_id results) ids
               @ check_exact_order ''receipt'' (map rc_contract_id receipts) ids
               @ concat (map (result_reasons H pl) results) @ concat lineage
               @ add_if (length terminal_receipts \<noteq> length (terminal_ids pl)) ''terminal_receipt_missing''
               @ add_if (length final_commits \<noteq> 1) ''terminal_commit_conflict''
         in (case att of
               None \<Rightarrow> Inr (decision D (reasons @ [''verifier_attestation_missing'']) None)
             | Some a \<Rightarrow> Inr (decision D (reasons @ attestation_reasons H D g results (lookup_all results_by_id ids)
                 (lookup_all receipts_by_id ids) final_commit a) (Some a)))))"

section \<open>Dictionaries keyed by a field\<close>

lemma fold_dput_fresh:
  "distinct (map f xs) \<Longrightarrow> (\<forall>x \<in> set xs. map_of d (f x) = None) \<Longrightarrow> fold (\<lambda>x. dput (f x) x) xs d = d @ map (\<lambda>x. (f x, x)) xs"
proof (induction xs arbitrary: d)
  case (Cons x xs)
  have "fold (\<lambda>x. dput (f x) x) (x # xs) d = fold (\<lambda>x. dput (f x) x) xs (d @ [(f x, x)])"
    using Cons.prems(2) by (simp add: dput_fresh)
  also have "\<dots> = (d @ [(f x, x)]) @ map (\<lambda>x. (f x, x)) xs"
    using Cons.prems by (intro Cons.IH) (auto simp: map_add_def image_iff)
  finally show ?case by simp
qed simp

lemma dict_by_iff:
  assumes "distinct (map f xs)"
  shows "map_of (dict_by f xs) k = Some x \<longleftrightarrow> x \<in> set xs \<and> f x = k"
proof -
  have "dict_by f xs = map (\<lambda>x. (f x, x)) xs" unfolding dict_by_def using fold_dput_fresh [OF assms, of "[]"] by simp
  moreover have "map_of (map (\<lambda>x. (f x, x)) xs) k = Some x \<longleftrightarrow> x \<in> set xs \<and> f x = k"
    using assms by (subst map_of_eq_Some_iff) (auto simp: comp_def)
  ultimately show ?thesis by simp
qed

lemma dict_by_None:
  assumes "distinct (map f xs)"
  shows "map_of (dict_by f xs) k = None \<longleftrightarrow> k \<notin> f ` set xs"
  using dict_by_iff [OF assms, of k] by (metis (no_types, lifting) image_iff not_None_eq)

lemma dict_by_case:
  assumes "distinct (map f xs)"
  shows "(case map_of (dict_by f xs) k of None \<Rightarrow> False | Some x \<Rightarrow> P x) \<longleftrightarrow> (\<exists>x \<in> set xs. f x = k \<and> P x)"
  using dict_by_iff [OF assms, of k] by (cases "map_of (dict_by f xs) k") (simp_all, metis)

lemma lookup_all_iff:
  assumes d: "distinct (map f xs)" and ids: "set ids \<subseteq> f ` set xs"
  shows "ys = lookup_all (dict_by f xs) ids \<longleftrightarrow> map f ys = ids \<and> set ys \<subseteq> set xs"
  using ids
proof (induction ids arbitrary: ys)
  case Nil
  then show ?case by (auto simp: lookup_all_def map_filter_simps)
next
  case (Cons k ids)
  then obtain x where x: "x \<in> set xs" "f x = k" by auto
  then have "map_of (dict_by f xs) k = Some x" using dict_by_iff [OF d] by blast
  then have l: "lookup_all (dict_by f xs) (k # ids) = x # lookup_all (dict_by f xs) ids"
    by (simp add: lookup_all_def map_filter_simps)
  have one: "y = x" if "y \<in> set xs" "f y = k" for y using d that x by (auto simp: distinct_map dest: inj_onD)
  have IH: "zs = lookup_all (dict_by f xs) ids \<longleftrightarrow> map f zs = ids \<and> set zs \<subseteq> set xs" for zs using Cons by simp
  show ?case
  proof (cases ys)
    case (Cons y zs)
    have "ys = lookup_all (dict_by f xs) (k # ids) \<longleftrightarrow> y = x \<and> map f zs = ids \<and> set zs \<subseteq> set xs"
      unfolding l Cons list.inject IH ..
    moreover have "map f ys = k # ids \<and> set ys \<subseteq> set xs \<longleftrightarrow> (f y = k \<and> y \<in> set xs) \<and> map f zs = ids \<and> set zs \<subseteq> set xs"
      unfolding Cons by auto
    moreover have "f y = k \<and> y \<in> set xs \<longleftrightarrow> y = x" using one x by blast
    ultimately show ?thesis by (simp only:)
  qed (simp add: l)
qed

lemma lookup_all_self: "distinct (map f xs) \<Longrightarrow> lookup_all (dict_by f xs) (map f xs) = xs"
  using lookup_all_iff [of f xs "map f xs" xs] by simp

section \<open>The plan\<close>

lemma expected_ids_concat: "expected_ids pl = concat (map contract_ids (phases pl))"
  by (simp add: expected_ids_def planned_def map_concat comp_def)

lemma in_planned: "(i, ro, k) \<in> set (planned pl) \<longleftrightarrow> (\<exists>p \<in> set (phases pl). i = phase_id p \<and> ro = phase_role p \<and> k \<in> set (contract_ids p))"
  by (auto simp: planned_def)

lemma phase_of_contract:
  assumes "mk_SwarmPlan pl = Inr pl'" and "p \<in> set (phases pl)" "q \<in> set (phases pl)" and "k \<in> set (contract_ids p)" "k \<in> set (contract_ids q)"
  shows "p = q"
proof (rule ccontr)
  assume "p \<noteq> q"
  obtain i j where ij: "i < length (phases pl)" "phases pl ! i = p" "j < length (phases pl)" "phases pl ! j = q"
    using assms(2,3) by (metis in_set_conv_nth)
  with \<open>p \<noteq> q\<close> have "i \<noteq> j" by auto
  with distinct_concat_nth [OF mk_SwarmPlanD(3) [OF assms(1)], of i j] ij assms(4,5) show False by auto
qed

text \<open>The contracts of the phases that \<open>p\<close> waits for, as the plan names them.\<close>

lemma predecessor_ids_total:
  assumes plan: "mk_SwarmPlan pl = Inr pl'" and p: "p \<in> set (phases pl)"
  shows "\<exists>ids. predecessor_ids pl p = Inr ids \<and> (ids = [] \<longleftrightarrow> predecessor_phase_ids p = [])
    \<and> set ids \<subseteq> set (expected_ids pl)
    \<and> (\<forall>k \<in> set ids. \<exists>q \<in> set (phases pl). phase_id q \<in> set (predecessor_phase_ids p) \<and> k \<in> set (contract_ids q))"
proof -
  note d = mk_SwarmPlanD(2) [OF plan]
  obtain i where i: "i < length (phases pl)" "phases pl ! i = p" using p by (metis in_set_conv_nth)
  have q: "\<exists>q \<in> set (phases pl). phase_id q = a" if "a \<in> set (predecessor_phase_ids p)" for a
    using plan_predecessor [OF plan i(1)] i that by (metis nth_mem order.strict_trans)
  let ?g = "\<lambda>i. case map_of (dict_by phase_id (phases pl)) i of None \<Rightarrow> Inl (KeyError i) | Some q \<Rightarrow> Inr (contract_ids q)"
  have g: "?g a = Inr x \<longleftrightarrow> (\<exists>q \<in> set (phases pl). phase_id q = a \<and> x = contract_ids q)" for a x
    using dict_by_iff [OF d, of a]
    by (cases "map_of (dict_by phase_id (phases pl)) a") (auto, metis option.inject)
  have "\<forall>a \<in> set (predecessor_phase_ids p). \<exists>y. ?g a = Inr y" using q g by blast
  from rmap_total [OF this] obtain xs where xs: "rmap ?g (predecessor_phase_ids p) = Inr xs" by blast
  have mem: "y \<in> set xs \<longleftrightarrow> (\<exists>a \<in> set (predecessor_phase_ids p). \<exists>q \<in> set (phases pl). phase_id q = a \<and> y = contract_ids q)" for y
    unfolding rmap_set [OF xs] g ..
  have ne: "y \<noteq> []" if "y \<in> set xs" for y using that plan_phase(2) [OF plan] unfolding mem by auto
  have "xs = [] \<longleftrightarrow> predecessor_phase_ids p = []" using mem q by (metis list.set_intros(1) list.set_sel(1) empty_iff set_empty)
  then have "concat xs = [] \<longleftrightarrow> predecessor_phase_ids p = []" using ne by (auto simp: concat_eq_Nil_conv)
  moreover have "set (concat xs) \<subseteq> set (expected_ids pl)" using mem by (auto simp: expected_ids_concat)
  moreover have "\<forall>k \<in> set (concat xs). \<exists>q \<in> set (phases pl). phase_id q \<in> set (predecessor_phase_ids p) \<and> k \<in> set (contract_ids q)"
    using mem by auto
  ultimately show ?thesis using xs by (simp add: predecessor_ids_def)
qed

lemma terminal_ids_ok:
  assumes plan: "mk_SwarmPlan pl = Inr pl'"
  shows "terminal_ids pl \<noteq> []" "set (terminal_ids pl) \<subseteq> set (expected_ids pl)"
proof -
  let ?n = "length (phases pl) - 1"
  have n: "?n < length (phases pl)" using mk_SwarmPlanD(6) [OF plan] by simp
  have "phase_id (phases pl ! ?n) \<notin> set (concat (map predecessor_phase_ids (phases pl)))"
  proof
    assume "phase_id (phases pl ! ?n) \<in> set (concat (map predecessor_phase_ids (phases pl)))"
    then obtain p where p: "p \<in> set (phases pl)" "phase_id (phases pl ! ?n) \<in> set (predecessor_phase_ids p)" by auto
    then obtain i where i: "i < length (phases pl)" "phase_id (phases pl ! ?n) \<in> set (predecessor_phase_ids (phases pl ! i))"
      by (metis in_set_conv_nth)
    from plan_predecessor [OF plan i] obtain j where j: "j < i" "phase_id (phases pl ! j) = phase_id (phases pl ! ?n)" by blast
    with mk_SwarmPlanD(2) [OF plan] i(1) n have "j = ?n" by (auto simp: distinct_conv_nth)
    with j(1) i(1) show False by simp
  qed
  moreover have "phases pl ! ?n \<in> set (phases pl)" "contract_ids (phases pl ! ?n) \<noteq> []" using n plan_phase(2) [OF plan] by auto
  ultimately show "terminal_ids pl \<noteq> []" unfolding terminal_ids_def by (auto simp: concat_eq_Nil_conv)
  show "set (terminal_ids pl) \<subseteq> set (expected_ids pl)" by (auto simp: terminal_ids_def expected_ids_concat)
qed

section \<open>What the gate promises\<close>

text \<open>The contract of the gate, without its lists of reasons: work of phase \<open>p\<close> that counts, the receipt that
  binds it to its predecessors and commits, and the attestation over both.\<close>

definition work_accepted :: "hashes \<Rightarrow> SwarmPlan \<Rightarrow> SwarmPhaseSpec \<Rightarrow> SubagentResult \<Rightarrow> bool" where
  "work_accepted H pl p r \<longleftrightarrow> r_phase_id r = phase_id p \<and> r_role r = phase_role p \<and> r_identity r = plan_identity pl
     \<and> r_plan_hash r = h_plan H pl \<and> r_disposition r = COMPLETED \<and> r_evidence_refs r \<noteq> []
     \<and> (r_role r = SCOUT \<longrightarrow> r_scout_assessment r = Some ACTIONABLE)"

definition bound_receipt :: "hashes \<Rightarrow> SwarmPlan \<Rightarrow> SwarmPhaseSpec \<Rightarrow> SubagentResult \<Rightarrow> PhaseReceipt \<Rightarrow> bool" where
  "bound_receipt H pl p r rc \<longleftrightarrow> rc_plan_hash rc = h_plan H pl \<and> rc_identity_hash rc = h_identity H (plan_identity pl)
     \<and> rc_phase_id rc = phase_id p \<and> rc_role rc = phase_role p \<and> rc_contract_id rc = r_contract_id r
     \<and> rc_contract_hash rc = r_contract_hash r \<and> rc_lease_id rc = r_lease_id r \<and> rc_result_hash rc = h_result H r
     \<and> rc_disposition rc = r_disposition r \<and> rc_scout_assessment rc = r_scout_assessment r
     \<and> rc_evidence_refs rc = r_evidence_refs r \<and> rc_result_finished_at rc = r_finished_at r
     \<and> rc_output_commit rc = output_or_input r rc"

definition commits_chained :: "hashes \<Rightarrow> SwarmPlan \<Rightarrow> PhaseReceipt list \<Rightarrow> SwarmPhaseSpec \<Rightarrow> PhaseReceipt \<Rightarrow> bool" where
  "commits_chained H pl receipts p rc \<longleftrightarrow>
     (\<exists>preds. predecessor_ids pl p = Inr (map rc_contract_id preds) \<and> set preds \<subseteq> set receipts
        \<and> rc_predecessor_receipt_hashes rc = map (h_receipt H) preds
        \<and> (if preds = [] then rc_input_commit rc = id_base_commit (plan_identity pl)
           else \<forall>q \<in> set preds. rc_output_commit q = rc_input_commit rc))
     \<and> (phase_role p = BUILDER \<longleftrightarrow> rc_output_commit rc \<noteq> rc_input_commit rc)"

definition lineage_complete :: "hashes \<Rightarrow> SwarmPlan \<Rightarrow> SubagentResult list \<Rightarrow> PhaseReceipt list \<Rightarrow> bool" where
  "lineage_complete H pl results receipts \<longleftrightarrow>
     map r_contract_id results = expected_ids pl \<and> map rc_contract_id receipts = expected_ids pl
     \<and> (\<forall>p \<in> set (phases pl). \<forall>r \<in> set results. \<forall>rc \<in> set receipts.
          r_contract_id r \<in> set (contract_ids p) \<and> rc_contract_id rc = r_contract_id r \<longrightarrow>
          work_accepted H pl p r \<and> bound_receipt H pl p r rc \<and> commits_chained H pl receipts p rc)"

definition approves :: "hashes \<Rightarrow> gate_digests \<Rightarrow> SwarmCompletionGate \<Rightarrow> SubagentResult list \<Rightarrow> PhaseReceipt list
    \<Rightarrow> VerifierAttestation \<Rightarrow> bool" where
  "approves H D g results receipts a \<longleftrightarrow>
     va_identity a = plan_identity (cg_plan g) \<and> va_plan_hash a = h_plan H (cg_plan g)
     \<and> va_phase_lineage_digest a = d_lineage D (map (h_receipt H) receipts) \<and> va_subject_result_hashes a = map (h_result H) results
     \<and> (\<forall>rc \<in> set receipts. rc_contract_id rc \<in> set (terminal_ids (cg_plan g)) \<longrightarrow> rc_output_commit rc = va_final_commit a)
     \<and> va_verifier_agent_id a \<in> set (cg_trusted_verifier_ids g) \<and> va_verifier_agent_id a \<notin> r_agent_id ` set results
     \<and> cg_verify_signature g a = Inr True \<and> va_verdict a = APPROVED
     \<and> (\<forall>c \<in> set (cg_required_criteria g). \<exists>e \<in> set (va_criteria a). ce_criterion_id e = c \<and> ce_passed e \<and> ce_source e = FROM_VERIFIER
          \<and> ce_observed_by e = va_verifier_agent_id a \<and> ce_test_provenance e \<noteq> WORKER_AUTHORED)"

lemma add_if_Nil [simp]: "add_if c r = [] \<longleftrightarrow> \<not> c"
  by (simp add: add_if_def)

lemma check_exact_order_Nil [simp]: "check_exact_order l xs ys = [] \<longleftrightarrow> xs = ys"
  by (simp add: check_exact_order_def)

lemma check_receipt_binding_Nil:
  "check_receipt_binding H pl r rc (phase_id p) (phase_role p) = [] \<longleftrightarrow> bound_receipt H pl p r rc"
  by (auto simp: check_receipt_binding_def bound_receipt_def)

lemma singleton_remdups: "remdups xs = [c] \<longleftrightarrow> xs \<noteq> [] \<and> (\<forall>x \<in> set xs. x = c)"
proof
  assume "remdups xs = [c]"
  then have "set xs = {c}" by (metis set_remdups list.set(1) list.simps(15))
  then show "xs \<noteq> [] \<and> (\<forall>x \<in> set xs. x = c)" by auto
next
  assume "xs \<noteq> [] \<and> (\<forall>x \<in> set xs. x = c)"
  then have c: "set (remdups xs) = {c}" by (metis set_remdups set_empty subset_singletonD subsetI singletonI singletonD)
  then have "length (remdups xs) = 1" by (simp add: length_remdups_card_conv)
  with c show "remdups xs = [c]" by (auto simp: length_Suc_conv simp del: set_remdups)
qed

lemma check_commit_chain_Nil:
  assumes role: "phase_role p \<in> {SCOUT, BUILDER, TESTER}" and ids: "map rc_contract_id preds = ids"
  shows "check_commit_chain pl rc (phase_role p) preds ids = []
    \<longleftrightarrow> (if preds = [] then rc_input_commit rc = id_base_commit (plan_identity pl)
         else \<forall>q \<in> set preds. rc_output_commit q = rc_input_commit rc)
      \<and> (phase_role p = BUILDER \<longleftrightarrow> rc_output_commit rc \<noteq> rc_input_commit rc)"
proof -
  have "(case remdups (map rc_output_commit preds) of
           [c] \<Rightarrow> add_if (rc_input_commit rc \<noteq> c) m | _ \<Rightarrow> [n]) = [] \<longleftrightarrow> remdups (map rc_output_commit preds) = [rc_input_commit rc]" for m n
    by (auto split: list.splits)
  then have pre: "preds \<noteq> [] \<Longrightarrow> (case remdups (map rc_output_commit preds) of
           [c] \<Rightarrow> add_if (rc_input_commit rc \<noteq> c) m | _ \<Rightarrow> [n]) = [] \<longleftrightarrow> (\<forall>q \<in> set preds. rc_output_commit q = rc_input_commit rc)" for m n
    unfolding singleton_remdups by simp
  have "ids = [] \<longleftrightarrow> preds = []" using ids by auto
  then show ?thesis using role pre unfolding check_commit_chain_def by auto
qed

lemma result_reasons_Nil:
  assumes plan: "mk_SwarmPlan pl = Inr pl'" and p: "p \<in> set (phases pl)" "r_contract_id r \<in> set (contract_ids p)"
  shows "result_reasons H pl r = [] \<longleftrightarrow> work_accepted H pl p r"
proof -
  have d: "distinct (map (\<lambda>(i, ro, k). k) (planned pl))"
    using mk_SwarmPlanD(3) [OF plan] expected_ids_concat [of pl] by (simp add: expected_ids_def)
  have "map_of (dict_by (\<lambda>(i, ro, k). k) (planned pl)) (r_contract_id r) = Some (phase_id p, phase_role p, r_contract_id r)"
    unfolding dict_by_iff [OF d] using in_planned p by auto
  then show ?thesis by (auto simp: result_reasons_def work_accepted_def)
qed

text \<open>The loop over the plan never raises for a valid plan, and with the results and receipts in place it
  adds no reason exactly when the receipt of the contract is in order.\<close>

lemma lineage_reasons_total:
  assumes "mk_SwarmPlan pl = Inr pl'" and "e \<in> set (planned pl)"
  shows "\<exists>xs. lineage_reasons H pl d d' e = Inr xs"
proof -
  obtain i ro k where e: "e = (i, ro, k)" by (cases e)
  with assms(2) obtain p where p: "p \<in> set (phases pl)" "i = phase_id p" using in_planned by auto
  then have "map_of (dict_by phase_id (phases pl)) i = Some p" using dict_by_iff [OF mk_SwarmPlanD(2) [OF assms(1)]] by blast
  with predecessor_ids_total [OF assms(1) p(1)] show ?thesis
    unfolding lineage_reasons_def e by (auto simp: Let_def split: option.splits)
qed

lemma lineage_reasons_Nil:
  assumes plan: "mk_SwarmPlan pl = Inr pl'" and p: "p \<in> set (phases pl)"
    and ids: "map r_contract_id results = expected_ids pl" "map rc_contract_id receipts = expected_ids pl"
    and r: "r \<in> set results" "r_contract_id r = k" and rc: "rc \<in> set receipts" "rc_contract_id rc = k"
  shows "lineage_reasons H pl (dict_by r_contract_id results) (dict_by rc_contract_id receipts) (phase_id p, phase_role p, k) = Inr []
    \<longleftrightarrow> bound_receipt H pl p r rc \<and> commits_chained H pl receipts p rc"
proof -
  have d: "distinct (expected_ids pl)" using mk_SwarmPlanD(3) [OF plan] by (simp add: expected_ids_concat)
  note R = dict_by_iff [of r_contract_id results, unfolded ids(1), OF d] and C = dict_by_iff [of rc_contract_id receipts, unfolded ids(2), OF d]
  have look: "map_of (dict_by r_contract_id results) k = Some r" "map_of (dict_by rc_contract_id receipts) k = Some rc"
    "map_of (dict_by phase_id (phases pl)) (phase_id p) = Some p"
    using R C r rc p dict_by_iff [OF mk_SwarmPlanD(2) [OF plan]] by blast+
  obtain pids where pids: "predecessor_ids pl p = Inr pids" "set pids \<subseteq> set (expected_ids pl)"
    using predecessor_ids_total [OF plan p] by blast
  have "set pids \<subseteq> rc_contract_id ` set receipts" using pids(2) ids(2) by (metis set_map)
  note L = lookup_all_iff [of rc_contract_id receipts pids, unfolded ids(2), OF d this]
  let ?preds = "lookup_all (dict_by rc_contract_id receipts) pids"
  have preds: "map rc_contract_id ?preds = pids" "set ?preds \<subseteq> set receipts" using L [of ?preds] by auto
  then have "length ?preds = length pids" by (metis length_map)
  then have "lineage_reasons H pl (dict_by r_contract_id results) (dict_by rc_contract_id receipts) (phase_id p, phase_role p, k) = Inr []
    \<longleftrightarrow> bound_receipt H pl p r rc \<and> rc_predecessor_receipt_hashes rc = map (h_receipt H) ?preds
      \<and> check_commit_chain pl rc (phase_role p) ?preds pids = []"
    by (simp add: lineage_reasons_def look pids(1) Let_def check_receipt_binding_Nil)
  also have "\<dots> \<longleftrightarrow> bound_receipt H pl p r rc \<and> commits_chained H pl receipts p rc"
  proof -
    have "(\<exists>preds. pids = map rc_contract_id preds \<and> set preds \<subseteq> set receipts \<and> Q preds) \<longleftrightarrow> Q ?preds" for Q
      using preds L by metis
    then show ?thesis
      unfolding check_commit_chain_Nil [OF plan_phase(1) [OF plan p] preds(1)] commits_chained_def pids(1) sum.inject by simp
  qed
  finally show ?thesis .
qed

lemma criterion_reasons_Nil:
  assumes "validate_attestation a = Inr a"
  shows "criterion_reasons a c = [] \<longleftrightarrow> (\<exists>e \<in> set (va_criteria a). ce_criterion_id e = c \<and> ce_passed e \<and> ce_source e = FROM_VERIFIER
          \<and> ce_observed_by e = va_verifier_agent_id a \<and> ce_test_provenance e \<noteq> WORKER_AUTHORED)"
proof -
  have d: "distinct (map ce_criterion_id (va_criteria a))" using assms by (simp add: validate_attestation_def)
  have "criterion_reasons a c = [] \<longleftrightarrow> (case map_of (dict_by ce_criterion_id (va_criteria a)) c of None \<Rightarrow> False
      | Some e \<Rightarrow> ce_passed e \<and> ce_source e = FROM_VERIFIER \<and> ce_observed_by e = va_verifier_agent_id a \<and> ce_test_provenance e \<noteq> WORKER_AUTHORED)"
    by (auto simp: criterion_reasons_def split: option.split)
  then show ?thesis unfolding dict_by_case [OF d] .
qed

lemma attestation_reasons_Nil:
  assumes plan: "mk_SwarmPlan (cg_plan g) = Inr pl'" and a: "validate_attestation a = Inr a"
    and ids: "map r_contract_id results = expected_ids (cg_plan g)" "map rc_contract_id receipts = expected_ids (cg_plan g)"
    and terminal: "terminal = lookup_all (dict_by rc_contract_id receipts) (terminal_ids (cg_plan g))"
  shows "length (remdups (map rc_output_commit terminal)) = 1
      \<and> attestation_reasons H D g results results receipts (case remdups (map rc_output_commit terminal) of [c] \<Rightarrow> Some c | _ \<Rightarrow> None) a = []
    \<longleftrightarrow> approves H D g results receipts a"
proof -
  have d: "distinct (expected_ids (cg_plan g))" using mk_SwarmPlanD(3) [OF plan] by (simp add: expected_ids_concat)
  note T = terminal_ids_ok [OF plan]
  have "set (terminal_ids (cg_plan g)) \<subseteq> rc_contract_id ` set receipts" using T(2) ids(2) by (metis set_map)
  from lookup_all_iff [of rc_contract_id receipts, unfolded ids(2), OF d this, of terminal] terminal
  have t: "map rc_contract_id terminal = terminal_ids (cg_plan g)" "set terminal \<subseteq> set receipts" by auto
  have ne: "terminal \<noteq> []" using t(1) T(1) by auto
  have in_t: "rc \<in> set terminal \<longleftrightarrow> rc_contract_id rc \<in> set (terminal_ids (cg_plan g))" if "rc \<in> set receipts" for rc
    using that t d [folded ids(2)] by (auto simp: distinct_map simp flip: t(1) dest: inj_onD subsetD)
  let ?rd = "remdups (map rc_output_commit terminal)"
  have "length ?rd = 1 \<and> \<not> ((case ?rd of [c] \<Rightarrow> Some c | _ \<Rightarrow> None) = None \<or> Some (va_final_commit a) \<noteq> (case ?rd of [c] \<Rightarrow> Some c | _ \<Rightarrow> None))
      \<longleftrightarrow> ?rd = [va_final_commit a]"
    by (auto split: list.splits)
  also have "\<dots> \<longleftrightarrow> (\<forall>rc \<in> set receipts. rc_contract_id rc \<in> set (terminal_ids (cg_plan g)) \<longrightarrow> rc_output_commit rc = va_final_commit a)"
    unfolding singleton_remdups using ne in_t t(2) by auto
  finally have final: "length ?rd = 1 \<and> \<not> ((case ?rd of [c] \<Rightarrow> Some c | _ \<Rightarrow> None) = None \<or> Some (va_final_commit a) \<noteq> (case ?rd of [c] \<Rightarrow> Some c | _ \<Rightarrow> None))
      \<longleftrightarrow> (\<forall>rc \<in> set receipts. rc_contract_id rc \<in> set (terminal_ids (cg_plan g)) \<longrightarrow> rc_output_commit rc = va_final_commit a)" .
  have len: "length receipts = length (expected_ids (cg_plan g))" "length results = length (expected_ids (cg_plan g))"
    using ids by (metis length_map)+
  show ?thesis
    unfolding attestation_reasons_def approves_def Let_def append_is_Nil_conv add_if_Nil concat_eq_Nil_conv final [symmetric] len
    by (auto simp: criterion_reasons_Nil [OF a] phase_lineage_digest_def)
qed

lemma ball_concat_Nil: "concat xss = [] \<longleftrightarrow> (\<forall>xs \<in> set xss. xs = [])"
  by auto

text \<open>The lists of reasons of the two loops are empty exactly for a complete lineage.\<close>

lemma loops_Nil:
  assumes plan: "mk_SwarmPlan pl = Inr pl'"
    and ids: "map r_contract_id results = expected_ids pl" "map rc_contract_id receipts = expected_ids pl"
    and loop: "rmap (lineage_reasons H pl (dict_by r_contract_id results) (dict_by rc_contract_id receipts)) (planned pl) = Inr xss"
  shows "concat (map (result_reasons H pl) results) = [] \<and> concat xss = [] \<longleftrightarrow> lineage_complete H pl results receipts"
proof -
  let ?L = "lineage_reasons H pl (dict_by r_contract_id results) (dict_by rc_contract_id receipts)"
  have phase_r: "\<exists>p \<in> set (phases pl). r_contract_id r \<in> set (contract_ids p)" if "r \<in> set results" for r
  proof -
    have "r_contract_id r \<in> set (expected_ids pl)" using that ids(1) by (metis image_eqI set_map)
    then show ?thesis by (auto simp: expected_ids_concat)
  qed
  have pair: "\<exists>r \<in> set results. \<exists>rc \<in> set receipts. r_contract_id r = k \<and> rc_contract_id rc = k" if "k \<in> set (expected_ids pl)" for k
    using that ids by (metis (no_types, lifting) image_iff set_map)
  have L: "?L (phase_id p, phase_role p, k) = Inr [] \<longleftrightarrow> bound_receipt H pl p r rc \<and> commits_chained H pl receipts p rc"
    if "p \<in> set (phases pl)" "r \<in> set results" "rc \<in> set receipts" "r_contract_id r = k" "rc_contract_id rc = k" for p r rc k
    by (rule lineage_reasons_Nil [OF plan that(1) ids that(2,4,3,5)])
  have total: "\<exists>xs. ?L e = Inr xs" if "e \<in> set (planned pl)" for e by (rule lineage_reasons_total [OF plan that])
  have "concat xss = [] \<longleftrightarrow> (\<forall>e \<in> set (planned pl). ?L e = Inr [])"
    unfolding ball_concat_Nil Ball_def rmap_set [OF loop] using total by (metis sum.inject(2))
  also have "\<dots> \<longleftrightarrow> (\<forall>p \<in> set (phases pl). \<forall>k \<in> set (contract_ids p). ?L (phase_id p, phase_role p, k) = Inr [])"
    using in_planned by (metis prod_cases3)
  also have "\<dots> \<longleftrightarrow> (\<forall>p \<in> set (phases pl). \<forall>r \<in> set results. \<forall>rc \<in> set receipts.
      r_contract_id r \<in> set (contract_ids p) \<and> rc_contract_id rc = r_contract_id r \<longrightarrow> bound_receipt H pl p r rc \<and> commits_chained H pl receipts p rc)"
  proof (rule ball_cong [OF refl])
    fix p assume p: "p \<in> set (phases pl)"
    let ?ok = "\<lambda>r rc. bound_receipt H pl p r rc \<and> commits_chained H pl receipts p rc"
    have "?L (phase_id p, phase_role p, k) = Inr [] \<longleftrightarrow> (\<forall>r \<in> set results. \<forall>rc \<in> set receipts. r_contract_id r = k \<and> rc_contract_id rc = k \<longrightarrow> ?ok r rc)"
      if "k \<in> set (contract_ids p)" for k
    proof -
      have "k \<in> set (expected_ids pl)" using that p by (auto simp: expected_ids_concat)
      from pair [OF this] L [OF p] show ?thesis by blast
    qed
    then show "(\<forall>k \<in> set (contract_ids p). ?L (phase_id p, phase_role p, k) = Inr []) \<longleftrightarrow> (\<forall>r \<in> set results. \<forall>rc \<in> set receipts.
      r_contract_id r \<in> set (contract_ids p) \<and> rc_contract_id rc = r_contract_id r \<longrightarrow> ?ok r rc)"
      by auto
  qed
  finally have lin: "concat xss = [] \<longleftrightarrow> \<dots>" .
  have "concat (map (result_reasons H pl) results) = [] \<longleftrightarrow> (\<forall>r \<in> set results. result_reasons H pl r = [])" by auto
  also have "\<dots> \<longleftrightarrow> (\<forall>p \<in> set (phases pl). \<forall>r \<in> set results. r_contract_id r \<in> set (contract_ids p) \<longrightarrow> work_accepted H pl p r)"
    using result_reasons_Nil [OF plan] phase_r by metis
  finally have res: "concat (map (result_reasons H pl) results) = [] \<longleftrightarrow> \<dots>" .
  have "\<exists>rc \<in> set receipts. rc_contract_id rc = r_contract_id r" if "r \<in> set results" for r
    using that ids by (metis (no_types, lifting) image_iff set_map)
  then show ?thesis unfolding res lin lineage_complete_def ids by blast
qed

section \<open>The gate implements its contract\<close>

lemma evaluate_Inr:
  assumes "mk_SwarmPlan (cg_plan g) = Inr pl'"
  shows "\<exists>d. evaluate H D g results receipts att = Inr d"
proof -
  let ?L = "lineage_reasons H (cg_plan g) (dict_by r_contract_id results) (dict_by rc_contract_id receipts)"
  have "\<forall>e \<in> set (planned (cg_plan g)). \<exists>xs. ?L e = Inr xs" using lineage_reasons_total [OF assms] by blast
  from rmap_total [OF this] show ?thesis unfolding evaluate_def Let_def by (cases att) auto
qed

lemma evaluate_authorized:
  assumes plan: "mk_SwarmPlan (cg_plan g) = Inr pl'" and v: "\<And>a. att = Some a \<Longrightarrow> validate_attestation a = Inr a"
    and call: "evaluate H D g results receipts att = Inr d"
  shows "cd_authorized d \<longleftrightarrow> lineage_complete H (cg_plan g) results receipts \<and> (\<exists>a. att = Some a \<and> approves H D g results receipts a)"
proof (cases "map r_contract_id results = expected_ids (cg_plan g) \<and> map rc_contract_id receipts = expected_ids (cg_plan g) \<and> att \<noteq> None")
  case False
  have "\<not> cd_authorized d"
    using call False unfolding evaluate_def Let_def by (cases att) (auto simp: decision_def)
  with False show ?thesis by (auto simp: lineage_complete_def)
next
  case True
  then obtain a where ids: "map r_contract_id results = expected_ids (cg_plan g)" "map rc_contract_id receipts = expected_ids (cg_plan g)"
    and a: "att = Some a" by blast
  let ?t = "lookup_all (dict_by rc_contract_id receipts) (terminal_ids (cg_plan g))"
  have dist: "distinct (expected_ids (cg_plan g))" using mk_SwarmPlanD(3) [OF plan] by (simp add: expected_ids_concat)
  have self: "lookup_all (dict_by r_contract_id results) (expected_ids (cg_plan g)) = results"
    "lookup_all (dict_by rc_contract_id receipts) (expected_ids (cg_plan g)) = receipts"
    using lookup_all_self [of r_contract_id results] lookup_all_self [of rc_contract_id receipts] ids dist by simp_all
  have sub: "set (terminal_ids (cg_plan g)) \<subseteq> rc_contract_id ` set receipts" using terminal_ids_ok(2) [OF plan] ids(2) by (metis set_map)
  have "map rc_contract_id ?t = terminal_ids (cg_plan g)"
    using lookup_all_iff [of rc_contract_id receipts, unfolded ids(2), OF dist sub, of ?t] by simp
  then have len: "length ?t = length (terminal_ids (cg_plan g))" by (metis length_map)
  from call obtain xss where
    loop: "rmap (lineage_reasons H (cg_plan g) (dict_by r_contract_id results) (dict_by rc_contract_id receipts)) (planned (cg_plan g)) = Inr xss"
    and d: "cd_authorized d \<longleftrightarrow> concat (map (result_reasons H (cg_plan g)) results) = [] \<and> concat xss = []
      \<and> length (remdups (map rc_output_commit ?t)) = 1 \<and> attestation_reasons H D g results results receipts
           (case remdups (map rc_output_commit ?t) of [c] \<Rightarrow> Some c | _ \<Rightarrow> None) a = []"
    unfolding evaluate_def Let_def a by (auto simp: decision_def ids self len)
  show ?thesis
    unfolding d conj_assoc [symmetric] loops_Nil [OF plan ids loop]
    unfolding conj_assoc attestation_reasons_Nil [OF plan v [OF a] ids refl] using a by simp
qed

text \<open>C5. The gate implements its contract: for every valid plan and every validated attestation it returns, and it
  authorizes exactly when the results and receipts are the planned lineage in plan order, every result
  is finished work of its phase with evidence, every receipt is bound to its result, its predecessors'
  receipts and its commits, and a trusted verifier that is none of the workers approved that lineage and
  its final commit with a valid signature and evidence of its own for every required criterion.\<close>

theorem completion_gate_exact:
  assumes "mk_SwarmPlan (cg_plan g) = Inr (cg_plan g)" and "\<forall>a. att = Some a \<longrightarrow> validate_attestation a = Inr a"
  shows "\<exists>d. evaluate H D g results receipts att = Inr d
    \<and> (cd_authorized d \<longleftrightarrow> lineage_complete H (cg_plan g) results receipts \<and> (\<exists>a. att = Some a \<and> approves H D g results receipts a))"
proof -
  obtain d where d: "evaluate H D g results receipts att = Inr d" using evaluate_Inr [OF assms(1)] by blast
  with evaluate_authorized [OF assms(1) _ d] assms(2) show ?thesis by blast
qed

text \<open>A commit reached from \<open>b\<close> by what builders committed.\<close>

inductive built_from :: "PhaseReceipt list \<Rightarrow> string \<Rightarrow> string \<Rightarrow> bool" for rcs :: "PhaseReceipt list" and b :: string where
  base: "built_from rcs b b"
| build: "built_from rcs b (rc_input_commit rc) \<Longrightarrow> rc \<in> set rcs \<Longrightarrow> rc_role rc = BUILDER \<Longrightarrow> built_from rcs b (rc_output_commit rc)"

lemma lineage_built:
  assumes plan: "mk_SwarmPlan pl = Inr pl'" and complete: "lineage_complete H pl results receipts" and rc: "rc \<in> set receipts"
  shows "built_from receipts (id_base_commit (plan_identity pl)) (rc_output_commit rc)"
proof -
  let ?B = "built_from receipts (id_base_commit (plan_identity pl))"
  have ids: "map r_contract_id results = expected_ids pl" "map rc_contract_id receipts = expected_ids pl"
    using complete by (auto simp: lineage_complete_def)
  have phase_rc: "\<exists>i < length (phases pl). rc_contract_id rc \<in> set (contract_ids (phases pl ! i))" if "rc \<in> set receipts" for rc
  proof -
    have "rc_contract_id rc \<in> set (expected_ids pl)" using that ids(2) by (metis image_eqI set_map)
    then show ?thesis by (auto simp: expected_ids_concat in_set_conv_nth [of _ "phases pl"])
  qed
  have "?B (rc_output_commit rc)" if "i < length (phases pl)" "rc \<in> set receipts" "rc_contract_id rc \<in> set (contract_ids (phases pl ! i))" for i rc
    using that
  proof (induction i arbitrary: rc rule: less_induct)
    case (less i)
    let ?p = "phases pl ! i"
    have p: "?p \<in> set (phases pl)" using less.prems(1) by simp
    obtain r where r: "r \<in> set results" "r_contract_id r = rc_contract_id rc"
      using less.prems(2) ids by (metis (no_types, lifting) image_iff set_map)
    with complete p less.prems(2,3) have "bound_receipt H pl ?p r rc" and ch: "commits_chained H pl receipts ?p rc"
      unfolding lineage_complete_def by metis+
    then have role: "rc_role rc = phase_role ?p" by (simp add: bound_receipt_def)
    from ch obtain preds where preds: "predecessor_ids pl ?p = Inr (map rc_contract_id preds)" "set preds \<subseteq> set receipts"
      "if preds = [] then rc_input_commit rc = id_base_commit (plan_identity pl) else \<forall>q \<in> set preds. rc_output_commit q = rc_input_commit rc"
      and out: "phase_role ?p = BUILDER \<longleftrightarrow> rc_output_commit rc \<noteq> rc_input_commit rc"
      unfolding commits_chained_def by blast
    have "?B (rc_input_commit rc)"
    proof (cases preds)
      case Nil
      with preds(3) show ?thesis by (simp add: built_from.base)
    next
      case (Cons q qs)
      with preds(3) have q: "q \<in> set preds" "rc_output_commit q = rc_input_commit rc" by auto
      from predecessor_ids_total [OF plan p] preds(1) q(1) obtain p' where p': "p' \<in> set (phases pl)"
        "phase_id p' \<in> set (predecessor_phase_ids ?p)" "rc_contract_id q \<in> set (contract_ids p')" by auto
      from plan_predecessor [OF plan less.prems(1) p'(2)] obtain j where j: "j < i" "phase_id (phases pl ! j) = phase_id p'" by blast
      have "phases pl ! j = p'"
        using mk_SwarmPlanD(2) [OF plan] j less.prems(1) p'(1) by (auto simp: distinct_map dest!: inj_onD)
      with less.IH [OF j(1), of q] p'(3) preds(2) q j(1) less.prems(1) show ?thesis by auto
    qed
    then show ?case
      using out role less.prems(2) built_from.build [of receipts _ rc] by (cases "phase_role ?p = BUILDER") auto
  qed
  with phase_rc [OF rc] rc show ?thesis by blast
qed

text \<open>An accepted commit was built by the plan: when the gate authorizes, the commit the verifier attests is
  reached from the swarm's base commit by commits of builder receipts of the lineage alone, and so is
  the output of every receipt; scouts and testers left the commit they were given unchanged.\<close>

theorem accepted_commit_was_built:
  assumes "mk_SwarmPlan (cg_plan g) = Inr (cg_plan g)" and "att = Some a" and "validate_attestation a = Inr a"
    and "evaluate H D g results receipts att = Inr d" and "cd_authorized d"
  shows "built_from receipts (id_base_commit (plan_identity (cg_plan g))) (va_final_commit a)
    \<and> (\<forall>rc \<in> set receipts. built_from receipts (id_base_commit (plan_identity (cg_plan g))) (rc_output_commit rc)
         \<and> (rc_role rc \<noteq> BUILDER \<longrightarrow> rc_output_commit rc = rc_input_commit rc))"
proof -
  let ?pl = "cg_plan g"
  have L: "lineage_complete H ?pl results receipts" and A: "approves H D g results receipts a"
    using evaluate_authorized [OF assms(1) _ assms(4)] assms(2,3,5) by auto
  note B = lineage_built [OF assms(1) L]
  have ids: "map r_contract_id results = expected_ids ?pl" "map rc_contract_id receipts = expected_ids ?pl"
    using L by (auto simp: lineage_complete_def)
  obtain k where k: "k \<in> set (terminal_ids ?pl)" using terminal_ids_ok(1) [OF assms(1)] by (metis list.set_sel(1))
  then have "k \<in> set (expected_ids ?pl)" using terminal_ids_ok(2) [OF assms(1)] by blast
  then obtain rc where "rc \<in> set receipts" "rc_contract_id rc = k" using ids(2) by (metis (no_types, lifting) image_iff set_map)
  with k A B [of rc] have final: "built_from receipts (id_base_commit (plan_identity ?pl)) (va_final_commit a)"
    unfolding approves_def by metis
  have "rc_output_commit rc = rc_input_commit rc" if rc: "rc \<in> set receipts" "rc_role rc \<noteq> BUILDER" for rc
  proof -
    have k: "rc_contract_id rc \<in> set (expected_ids ?pl)" using rc(1) ids(2) by (metis image_eqI set_map)
    then obtain p where p: "p \<in> set (phases ?pl)" "rc_contract_id rc \<in> set (contract_ids p)" by (auto simp: expected_ids_concat)
    obtain r where r: "r \<in> set results" "r_contract_id r = rc_contract_id rc" using k ids(1) by (metis (no_types, lifting) image_iff set_map)
    with L p rc(1) have "bound_receipt H ?pl p r rc" "commits_chained H ?pl receipts p rc" unfolding lineage_complete_def by metis+
    with rc(2) show ?thesis unfolding bound_receipt_def commits_chained_def by metis
  qed
  with final B show ?thesis by blast
qed

section \<open>A concrete completion\<close>

definition gate_hashes :: hashes where
  "gate_hashes = demo_hashes\<lparr>h_result := (\<lambda>r. ''sha256:'' @ replicate 63 (CHR ''a'') @ [last (r_contract_id r)])\<rparr>"

definition gate_scout :: SubagentResult where
  "gate_scout = demo_result\<lparr>r_contract_id := ''c1'', r_phase_id := ''s'', r_lease_id := ''l1'', r_agent_id := ''scout'',
     r_role := SCOUT, r_observed_commit := None, r_scout_assessment := Some ACTIONABLE, r_scout_findings := [demo_finding]\<rparr>"

definition gate_build :: SubagentResult where
  "gate_build = demo_result\<lparr>r_observed_commit := Some (replicate 40 (CHR ''1''))\<rparr>"

definition gate_receipts :: "PhaseReceipt list" where
  "gate_receipts =
     [demo_receipt\<lparr>rc_result_hash := h_result gate_hashes gate_scout, rc_result_finished_at := r_finished_at gate_scout,
        rc_evidence_refs := r_evidence_refs gate_scout\<rparr>,
      demo_receipt\<lparr>rc_phase_id := ''b'', rc_contract_id := ''c2'', rc_lease_id := ''l2'', rc_role := BUILDER,
        rc_result_hash := h_result gate_hashes gate_build, rc_scout_assessment := None, rc_predecessor_receipt_hashes := [demo_hash],
        rc_evidence_refs := r_evidence_refs gate_build, rc_scout_findings := [], rc_output_commit := replicate 40 (CHR ''1''),
        rc_result_finished_at := r_finished_at gate_build\<rparr>]"

definition gate_attestation :: VerifierAttestation where
  "gate_attestation = \<lparr>va_identity = demo_identity, va_plan_hash = demo_hash, va_phase_lineage_digest = demo_hash,
     va_final_commit = replicate 40 (CHR ''1''), va_verifier_agent_id = ''judge'', va_verdict = APPROVED,
     va_subject_result_hashes = [h_result gate_hashes gate_scout, h_result gate_hashes gate_build],
     va_criteria = [\<lparr>ce_criterion_id = ''tests'', ce_passed = True, ce_artifact_digest = demo_hash, ce_observed_by = ''judge'',
        ce_source = FROM_VERIFIER, ce_test_provenance = PREEXISTING\<rparr>], va_created_at = demo_time 9, va_signature = ''sig''\<rparr>"

definition gate_digest :: gate_digests where
  "gate_digest = \<lparr>d_lineage = \<lambda>_. demo_hash, d_attestation = \<lambda>_. demo_hash\<rparr>"

definition demo_gate :: SwarmCompletionGate where
  "demo_gate = \<lparr>cg_plan = demo_plan, cg_required_criteria = [''tests''], cg_trusted_verifier_ids = [''judge''],
     cg_verify_signature = (\<lambda>a. Inr (va_signature a = ''sig''))\<rparr>"

lemma demo_gate_ok:
  "new_gate demo_plan [''tests''] [''judge''] (\<lambda>a. Inr (va_signature a = ''sig'')) = Inr demo_gate"
  "mk_SwarmPlan (cg_plan demo_gate) = Inr (cg_plan demo_gate)" "validate_attestation gate_attestation = Inr gate_attestation"
  by (simp add: new_gate_def demo_gate_def, code_simp) (code_simp)+

theorem completion_gate_exact_witness:
  "\<exists>d. evaluate gate_hashes gate_digest demo_gate [gate_scout, gate_build] gate_receipts (Some gate_attestation) = Inr d
     \<and> cd_authorized d \<and> lineage_complete gate_hashes demo_plan [gate_scout, gate_build] gate_receipts"
proof -
  have "(case evaluate gate_hashes gate_digest demo_gate [gate_scout, gate_build] gate_receipts (Some gate_attestation) of
      Inl _ \<Rightarrow> False | Inr d \<Rightarrow> cd_authorized d)" by code_simp
  with completion_gate_exact [OF demo_gate_ok(2), of "Some gate_attestation" gate_hashes gate_digest "[gate_scout, gate_build]" gate_receipts]
    demo_gate_ok(3) show ?thesis by (auto simp: demo_gate_def)
qed

theorem accepted_commit_was_built_witness:
  "built_from gate_receipts (replicate 40 (CHR ''0'')) (replicate 40 (CHR ''1''))"
proof -
  let ?e = "evaluate gate_hashes gate_digest demo_gate [gate_scout, gate_build] gate_receipts (Some gate_attestation)"
  have "(case ?e of Inl _ \<Rightarrow> False | Inr d \<Rightarrow> cd_authorized d)" by code_simp
  then obtain d where d: "?e = Inr d" "cd_authorized d" by (auto split: sum.splits)
  have "id_base_commit (plan_identity (cg_plan demo_gate)) = replicate 40 (CHR ''0'')" "va_final_commit gate_attestation = replicate 40 (CHR ''1'')"
    by code_simp+
  with accepted_commit_was_built [OF demo_gate_ok(2) refl demo_gate_ok(3) d] show ?thesis by simp
qed

end
