(* ===== verification/SwarmFinality.thy ===== *)
theory SwarmFinality
  imports SwarmRuns
begin

text \<open>
  What no operation of the swarm scheduler undoes, also when it raises half way: the lease table stays keyed
  by the lease ids of the registered contracts, a finished lease and its accepted result never change
  again, and only \<open>cancel_team\<close> closes the team. Unlike the budget invariant, this survives a ledger
  rebuild that fails.
\<close>

section \<open>The relation\<close>

text \<open>A stop is requested only of cancelled and timed-out workers; a finished lease holds a result bound to it.\<close>

definition lease_tidy :: "WorkerLease \<Rightarrow> bool" where
  "lease_tidy l \<longleftrightarrow> (w_state l = ACTIVE \<or> w_state l = FINISHED \<longrightarrow> \<not> w_stop_required l)
     \<and> (w_state l = FINISHED \<longrightarrow> (\<exists>r. w_result l = Some r \<and> r_lease_id r = w_lease_id l \<and> r_contract_id r = contract_id (w_contract l)))"

definition tidy :: "SwarmScheduler \<Rightarrow> bool" where
  "tidy s \<longleftrightarrow> wf_dict (sw_leases s)
     \<and> (\<forall>k c. map_of (sw_contracts s) k = Some c \<longrightarrow> contract_id c = k)
     \<and> (\<forall>k k' c c'. map_of (sw_contracts s) k = Some c \<and> map_of (sw_contracts s) k' = Some c' \<and> c_lease_id c = c_lease_id c' \<longrightarrow> k = k')
     \<and> (\<forall>i l. map_of (sw_leases s) i = Some l \<longrightarrow> w_lease_id l = i \<and> c_lease_id (w_contract l) = i
          \<and> map_of (sw_contracts s) (contract_id (w_contract l)) = Some (w_contract l) \<and> lease_tidy l)"

definition keeps :: "SwarmScheduler \<Rightarrow> SwarmScheduler \<Rightarrow> bool" where
  "keeps s s' \<longleftrightarrow> tidy s' \<and> sw_cancelled s' = sw_cancelled s
     \<and> (\<forall>i l. map_of (sw_leases s) i = Some l \<and> w_state l = FINISHED \<longrightarrow> map_of (sw_leases s') i = Some l)"

lemma tidyD:
  assumes "tidy s"
  shows "wf_dict (sw_leases s)" "map_of (sw_contracts s) k = Some c \<Longrightarrow> contract_id c = k"
    "map_of (sw_contracts s) k = Some c \<Longrightarrow> map_of (sw_contracts s) k' = Some c' \<Longrightarrow> c_lease_id c = c_lease_id c' \<Longrightarrow> k = k'"
    "map_of (sw_leases s) i = Some l \<Longrightarrow> w_lease_id l = i \<and> c_lease_id (w_contract l) = i
      \<and> map_of (sw_contracts s) (contract_id (w_contract l)) = Some (w_contract l) \<and> lease_tidy l"
  using assms unfolding tidy_def by blast+

lemma keepsD:
  assumes "keeps s s'"
  shows "tidy s'" "sw_cancelled s' = sw_cancelled s"
    "map_of (sw_leases s) i = Some l \<Longrightarrow> w_state l = FINISHED \<Longrightarrow> map_of (sw_leases s') i = Some l"
  using assms unfolding keeps_def by blast+

lemma keeps_refl: "tidy s \<Longrightarrow> keeps s s"
  by (simp add: keeps_def)

lemma keeps_fields:
  assumes "keeps s s'" and "sw_leases t = sw_leases s'" "sw_contracts t = sw_contracts s'" "sw_cancelled t = sw_cancelled s'"
  shows "keeps s t"
  using assms unfolding keeps_def tidy_def by simp

lemma keeps_other:
  "keeps s (s'\<lparr>sw_authorizations := a\<rparr>) = keeps s s'" "keeps s (s'\<lparr>sw_receipts := b, sw_receipt_by_contract := c\<rparr>) = keeps s s'"
  "keeps s (s'\<lparr>sw_terminal_usage_deliveries := d\<rparr>) = keeps s s'" "keeps s (s'\<lparr>sw_usage_deliveries := d\<rparr>) = keeps s s'"
  "keeps s (s'\<lparr>sw_ledger := L\<rparr>) = keeps s s'" "keeps s (s'\<lparr>sw_by_key := e\<rparr>) = keeps s s'"
  "keeps s (s'\<lparr>sw_consumed_authorizations := f\<rparr>) = keeps s s'" "keeps s (s'\<lparr>sw_by_key := e, sw_consumed_authorizations := f\<rparr>) = keeps s s'"
  unfolding keeps_def tidy_def by simp_all

text \<open>Replacing a lease that is not finished.\<close>

lemma keeps_put:
  assumes k: "keeps s s'" and l: "map_of (sw_leases s') i = Some l" "w_state l \<noteq> FINISHED"
    and new: "w_lease_id l' = i" "w_contract l' = w_contract l" "lease_tidy l'"
  shows "keeps s (put_worker l' s')"
proof -
  note K = keepsD [OF k] and T = tidyD [OF keepsD(1) [OF k]]
  have put: "sw_contracts (put_worker l' s') = sw_contracts s'" "sw_cancelled (put_worker l' s') = sw_cancelled s'"
    "sw_leases (put_worker l' s') = dput i l' (sw_leases s')" using new(1) by (simp_all add: put_worker_def)
  have "w_lease_id m = j \<and> c_lease_id (w_contract m) = j \<and> map_of (sw_contracts s') (contract_id (w_contract m)) = Some (w_contract m)
      \<and> lease_tidy m" if "map_of (dput i l' (sw_leases s')) j = Some m" for j m
  proof (cases "j = i")
    case True
    with that have "m = l'" by simp
    with True T(4) [OF l(1)] new show ?thesis by (simp only:)
  next
    case False
    with that show ?thesis by (intro T(4)) simp
  qed
  with wf_dict_dput [OF T(1), of i l'] T(2,3) have "tidy (put_worker l' s')" unfolding tidy_def put by (intro conjI) blast+
  moreover have "map_of (dput i l' (sw_leases s')) j = Some m" if "map_of (sw_leases s) j = Some m" "w_state m = FINISHED" for j m
    using K(3) [OF that] l that(2) by (cases "j = i") auto
  ultimately show ?thesis unfolding keeps_def put K(2) by blast
qed

lemma keeps_with_ledger: "keeps s s' \<Longrightarrow> keeps s (snd (with_ledger f s'))"
  by (auto simp: with_ledger_def split: sum.split elim: keeps_fields)

lemma keeps_pure: "keeps s s' \<Longrightarrow> keeps s (snd (pure_call r s'))"
  by (simp add: pure_call_def)

lemma keeps_sbind:
  assumes "keeps s (snd r)" and "\<And>x t. r = (Inr x, t) \<Longrightarrow> keeps s t \<Longrightarrow> keeps s (snd (f x t))"
  shows "keeps s (snd (sbind r f))"
  using sbind_keeps [of "keeps s"] assms by blast

section \<open>Closing leases\<close>

lemma close_lease_keeps:
  assumes k: "keeps s s'" and l: "map_of (sw_leases s') i = Some l" "w_state l \<noteq> FINISHED" and mark: "terminal_mark mark"
    and fin: "lease_tidy (mark (finalize_elapsed t l))"
  shows "keeps s (snd (close_lease t mark l s'))"
proof -
  have id: "w_lease_id l = i" using tidyD(4) [OF keepsD(1) [OF k] l(1)] by simp
  let ?l2 = "(mark (finalize_elapsed t l))\<lparr>w_settled_usage := Some (w_usage (finalize_elapsed t l))\<rparr>"
  have "keeps s (put_worker ?l2 s')"
    by (rule keeps_put [OF k l]) (use mark fin id in \<open>auto simp: terminal_mark_def lease_tidy_def\<close>)
  then show ?thesis unfolding close_lease_def Let_def by (rule keeps_with_ledger)
qed

lemma close_by_id_keeps:
  assumes "keeps s s'" and "\<And>l. map_of (sw_leases s') i = Some l \<Longrightarrow> w_state l \<noteq> FINISHED"
    and "terminal_mark mark" and "\<And>l. w_state (mark l) \<noteq> FINISHED"
  shows "keeps s (snd (close_by_id fin mark i s'))"
proof (cases "map_of (sw_leases s') i")
  case (Some l)
  have "keeps s (snd (close_lease (fin i) mark l s'))"
    by (rule close_lease_keeps [OF assms(1) Some assms(2) [OF Some] assms(3)])
      (use assms(3,4) in \<open>auto simp: lease_tidy_def terminal_mark_def\<close>)
  with Some show ?thesis by (simp add: close_by_id_def)
qed (use assms(1) in \<open>simp add: close_by_id_def\<close>)

lemma close_by_id_open:
  assumes "tidy s" and "terminal_mark mark" and "\<And>l. w_state (mark l) \<noteq> FINISHED"
    and "\<And>l. map_of (sw_leases s) j = Some l \<Longrightarrow> w_state l \<noteq> FINISHED"
    and "map_of (sw_leases (snd (close_by_id fin mark i s))) j = Some l"
  shows "w_state l \<noteq> FINISHED"
  using assms tidyD(4) [OF assms(1)]
  by (auto simp: close_by_id_def close_lease_def Let_def with_ledger_def put_worker_def terminal_mark_def split: option.splits sum.splits if_splits)

lemma sfold_close_keeps:
  assumes "keeps s s'" and "\<forall>i \<in> set ids. \<forall>l. map_of (sw_leases s') i = Some l \<longrightarrow> w_state l \<noteq> FINISHED"
    and mark: "terminal_mark mark" "\<And>l. w_state (mark l) \<noteq> FINISHED"
  shows "keeps s (snd (sfold (close_by_id fin mark) ids s'))"
  using assms(1,2)
proof (induction ids arbitrary: s')
  case (Cons i ids)
  let ?r = "close_by_id fin mark i s'"
  have 1: "keeps s (snd ?r)" using Cons.prems by (intro close_by_id_keeps mark) auto
  have 2: "\<forall>j \<in> set ids. \<forall>l. map_of (sw_leases (snd ?r)) j = Some l \<longrightarrow> w_state l \<noteq> FINISHED"
    using close_by_id_open [OF keepsD(1) [OF Cons.prems(1)] mark] Cons.prems(2) by (metis list.set_intros(2))
  show ?case using Cons.IH [OF 1 2] 1 by (cases ?r; cases "fst ?r") auto
qed simp

text \<open>The ids of the leases that satisfy a condition.\<close>

lemma lease_ids:
  assumes "tidy s"
  shows "i \<in> set (sort (map w_lease_id (filter P (vals (sw_leases s))))) \<longleftrightarrow> (\<exists>l. map_of (sw_leases s) i = Some l \<and> P l)"
proof -
  note T = tidyD [OF assms]
  have "i \<in> set (sort (map w_lease_id (filter P (vals (sw_leases s))))) \<longleftrightarrow> (\<exists>l \<in> set (vals (sw_leases s)). P l \<and> w_lease_id l = i)"
    by (force simp: image_iff)
  also have "\<dots> \<longleftrightarrow> (\<exists>l. map_of (sw_leases s) i = Some l \<and> P l)" 
    unfolding Bex_def in_vals_iff [OF T(1)] using T(4) by metis
  finally show ?thesis .
qed

lemma expire_locked_keeps:
  assumes "keeps s s'"
  shows "keeps s (snd (expire_locked now fin s'))"
proof -
  have "\<forall>i \<in> set (expired_workers now s'). \<forall>l. map_of (sw_leases s') i = Some l \<longrightarrow> w_state l \<noteq> FINISHED"
    unfolding expired_workers_def lease_ids [OF keepsD(1) [OF assms]] Ball_def by auto
  then have "keeps s (snd (sfold (close_by_id fin (mark_timed_out now)) (expired_workers now s') s'))"
    by (rule sfold_close_keeps [OF assms]) (simp_all add: mark_timed_out_def)
  then show ?thesis unfolding expire_locked_def Let_def by (rule keeps_sbind) simp
qed

section \<open>The operations\<close>

lemma register_plan_keeps: "keeps s s' \<Longrightarrow> keeps s (snd (register_plan pl s'))"
  by (auto simp: register_plan_def split: option.split elim: keeps_fields)

lemma keeps_contract:
  assumes k: "keeps s s'" and new: "map_of (sw_contracts s') (contract_id c) = None"
    and lid: "\<And>d. d \<in> set (vals (sw_contracts s')) \<Longrightarrow> c_lease_id d \<noteq> c_lease_id c"
  shows "keeps s (s'\<lparr>sw_contracts := dput (contract_id c) c (sw_contracts s')\<rparr>)"
proof -
  let ?t = "s'\<lparr>sw_contracts := dput (contract_id c) c (sw_contracts s')\<rparr>" and ?m = "(map_of (sw_contracts s'))(contract_id c \<mapsto> c)"
  note K = keepsD [OF k] and T = tidyD [OF keepsD(1) [OF k]]
  have f: "sw_leases ?t = sw_leases s'" "sw_cancelled ?t = sw_cancelled s'" "map_of (sw_contracts ?t) = ?m" by simp_all
  have 1: "contract_id d = j" if "?m j = Some d" for j d using that T(2) by (cases "j = contract_id c") auto
  have 2: "j = j'" if "?m j = Some d" "?m j' = Some d'" "c_lease_id d = c_lease_id d'" for j j' d d'
    using that T(3) lid map_of_in_vals by (metis fun_upd_apply option.inject)
  have 3: "w_lease_id l = i \<and> c_lease_id (w_contract l) = i \<and> ?m (contract_id (w_contract l)) = Some (w_contract l)
      \<and> lease_tidy l" if "map_of (sw_leases s') i = Some l" for i l
    using T(4) [OF that] new by (metis fun_upd_other option.distinct(1))
  have "tidy ?t" unfolding tidy_def f using T(1) 1 2 3 by (intro conjI) blast+
  with K(2,3) show ?thesis unfolding keeps_def f by blast
qed

lemma register_keeps: "keeps s s' \<Longrightarrow> keeps s (snd (register H c s'))"
  unfolding register_def
  by (rule keeps_sbind) (auto split: option.split intro!: keeps_sbind keeps_pure keeps_contract, metis snd_conv)

lemma record_phase_receipt_keeps: "keeps s s' \<Longrightarrow> keeps s (snd (record_phase_receipt H lid hs now s'))"
  unfolding record_phase_receipt_def Let_def
  by (auto split: option.split intro!: keeps_sbind keeps_pure simp: keeps_other)

lemma issue_phase_authorization_keeps: "keeps s s' \<Longrightarrow> keeps s (snd (issue_phase_authorization H k hs now s'))"
  unfolding issue_phase_authorization_def
  by (auto split: option.split intro!: keeps_sbind keeps_pure simp: keeps_other)

lemma swarm_heartbeat_keeps:
  assumes "keeps s s'"
  shows "keeps s (snd (swarm_heartbeat lid now s'))"
proof (cases "map_of (sw_leases s') lid")
  case (Some l)
  have "w_lease_id l = lid" "lease_tidy l" using tidyD(4) [OF keepsD(1) [OF assms] Some] by simp_all
  with assms Some show ?thesis
    by (auto simp: swarm_heartbeat_def Let_def worker_active_def lease_tidy_def intro!: keeps_put [OF assms Some])
qed (use assms in \<open>simp add: swarm_heartbeat_def\<close>)

lemma acknowledge_stopped_keeps:
  assumes "keeps s s'"
  shows "keeps s (snd (acknowledge_stopped lid s'))"
proof (cases "map_of (sw_leases s') lid")
  case (Some l)
  have "w_lease_id l = lid" "lease_tidy l" using tidyD(4) [OF keepsD(1) [OF assms] Some] by simp_all
  with assms Some show ?thesis
    by (auto simp: acknowledge_stopped_def lease_tidy_def intro!: keeps_put [OF assms Some])
qed (use assms in \<open>simp add: acknowledge_stopped_def\<close>)

lemma cancel_worker_keeps:
  assumes "keeps s s'"
  shows "keeps s (snd (cancel_worker lid reason t s'))"
proof (cases "\<exists>l. map_of (sw_leases s') lid = Some l \<and> w_state l = ACTIVE")
  case True
  then obtain l where l: "map_of (sw_leases s') lid = Some l" "w_state l = ACTIVE" by blast
  have "keeps s (snd (close_lease t (mark_cancelled reason) l s'))"
    by (rule close_lease_keeps [OF assms l(1)]) (use l(2) in \<open>auto simp: lease_tidy_def mark_cancelled_def\<close>)
  with l assms show ?thesis unfolding cancel_worker_def by (auto intro!: keeps_sbind)
qed (use assms in \<open>auto simp: cancel_worker_def split: option.split\<close>)

lemma reap_timeouts_keeps: "keeps s s' \<Longrightarrow> keeps s (snd (reap_timeouts now fin s'))"
  unfolding reap_timeouts_def by (rule expire_locked_keeps)

lemma record_terminal_result_keeps:
  assumes "keeps s s'"
  shows "keeps s (snd (record_terminal_result H lid r s'))"
proof (cases "map_of (sw_leases s') lid")
  case (Some l)
  have "w_lease_id l = lid" using tidyD(4) [OF keepsD(1) [OF assms] Some] by simp
  with assms Some have "keeps s (put_worker (l\<lparr>w_result := Some r\<rparr>) s')" if "w_state l \<in> {OVER_BUDGET, TIMED_OUT, CANCELLED}"
    by (intro keeps_put [OF assms Some]) (use that in \<open>auto simp: lease_tidy_def\<close>)
  with assms Some show ?thesis
    by (auto simp: record_terminal_result_def Let_def split: option.split intro!: keeps_sbind keeps_pure)
qed (use assms in \<open>simp add: record_terminal_result_def\<close>)

lemma record_overage_result_keeps: "keeps s s' \<Longrightarrow> keeps s (snd (record_overage_result H lid r s'))"
  unfolding record_overage_result_def by (auto split: option.split intro: record_terminal_result_keeps)

text \<open>Accepting a result: the finished lease holds exactly that result.\<close>

lemma require_result_binding_Inr:
  "require_result_binding H c r = Inr x \<Longrightarrow> r_contract_id r = contract_id c \<and> r_lease_id r = c_lease_id c"
  by (simp add: require_result_binding_def)

lemma complete_keeps:
  assumes "keeps s s'"
  shows "keeps s (snd (complete H lid r t0 fin t1 t2 s'))"
  unfolding complete_def
proof (rule keeps_sbind [OF expire_locked_keeps [OF assms]])
  fix x t assume "expire_locked t0 fin s' = (Inr x, t)" and t: "keeps s t"
  show "keeps s (snd (case map_of (sw_leases t) lid of None \<Rightarrow> (Inl (SwarmStateError ''unknown worker lease''), t)
       | Some l \<Rightarrow>
           if w_state l = FINISHED \<and> w_result l = Some r then (Inr (Some l), t)
           else if \<not> worker_active l t1 then (Inl (SwarmStateError ''worker lease is no longer active''), t)
           else sbind (pure_call (require_result_binding H (w_contract l) r) t) (\<lambda>_ t.
                sbind (close_lease t2 (mark_finished r) l t) (\<lambda>_ t. (Inr (map_of (sw_leases t) lid), t)))))"
  proof (cases "map_of (sw_leases t) lid")
    case (Some l)
    note T = tidyD(4) [OF keepsD(1) [OF t] Some]
    have "keeps s (snd (close_lease t2 (mark_finished r) l t))" if "worker_active l t1" "require_result_binding H (w_contract l) r = Inr y" for y
      by (rule close_lease_keeps [OF t Some])
        (use that T require_result_binding_Inr [OF that(2)] in \<open>auto simp: worker_active_def lease_tidy_def mark_finished_def finalize_elapsed_def Let_def\<close>)
    with t Some show ?thesis by (auto intro!: keeps_sbind keeps_pure)
  qed (use t in simp)
qed

lemma sfold_keeps:
  assumes "keeps s s'" and "\<And>x t. keeps s t \<Longrightarrow> keeps s (snd (f x t))"
  shows "keeps s (snd (sfold f xs s'))"
  using assms(1)
proof (induction xs arbitrary: s')
  case (Cons x xs)
  have "keeps s (snd (f x s'))" by (rule assms(2) [OF Cons.prems])
  then show ?case unfolding sfold.simps by (rule keeps_sbind) (rule Cons.IH)
qed simp

lemma rebuild_ledger_keeps: "keeps s s' \<Longrightarrow> keeps s (snd (rebuild_ledger s'))"
  unfolding rebuild_ledger_def Let_def
  by (intro keeps_sbind sfold_keeps)
    (auto simp: rebuild_terminal_def rebuild_active_def keeps_other split: option.split intro!: keeps_sbind keeps_with_ledger)

lemma observe_terminal_usage_keeps:
  assumes k: "keeps s s'"
  shows "keeps s (snd (observe_terminal_usage lid u d s'))"
proof (cases "map_of (sw_leases s') lid")
  case None
  then show ?thesis using k by (simp add: observe_terminal_usage_def Let_def)
next
  case (Some l)
  let ?s1 = "s'\<lparr>sw_terminal_usage_deliveries := dput (py_strip d) (lid, u) (sw_terminal_usage_deliveries s')\<rparr>"
  have k1: "keeps s ?s1" using k by (simp add: keeps_other)
  have l1: "map_of (sw_leases ?s1) lid = Some l" using Some by simp
  have id: "w_lease_id l = lid" "lease_tidy l" using tidyD(4) [OF keepsD(1) [OF k] Some] by simp_all
  have "keeps s (put_worker l' ?s1)" if "w_lease_id l' = lid" "w_contract l' = w_contract l" "w_state l \<noteq> FINISHED" "lease_tidy l'" for l'
    by (rule keeps_put [OF k1 l1 that(3,1,2,4)])
  then show ?thesis
    using k Some id
    by (auto simp: observe_terminal_usage_def Let_def lease_tidy_def split: option.split
        intro!: keeps_sbind keeps_with_ledger rebuild_ledger_keeps)
qed

lemma keeps_grant:
  assumes k: "keeps s s'" and c: "map_of (sw_contracts s') (contract_id c) = Some c"
    and free: "\<not> (\<exists>l \<in> set (vals (sw_leases s')). contract_id (w_contract l) = contract_id c)"
  shows "keeps s (put_worker (new_worker c key ttl now) s')"
proof -
  note K = keepsD [OF k] and T = tidyD [OF keepsD(1) [OF k]]
  let ?i = "c_lease_id c" and ?l = "new_worker c key ttl now"
  have l: "w_lease_id ?l = ?i" "w_contract ?l = c" "w_state ?l = ACTIVE" "\<not> w_stop_required ?l" by (simp_all add: new_worker_def Let_def)
  have put: "sw_contracts (put_worker ?l s') = sw_contracts s'" "sw_cancelled (put_worker ?l s') = sw_cancelled s'"
    "map_of (sw_leases (put_worker ?l s')) = (map_of (sw_leases s'))(?i \<mapsto> ?l)" "wf_dict (sw_leases (put_worker ?l s'))"
    using T(1) l(1) by (simp_all add: put_worker_def)
  have none: "map_of (sw_leases s') ?i = None"
  proof (rule ccontr)
    assume "map_of (sw_leases s') ?i \<noteq> None"
    then obtain m where m: "map_of (sw_leases s') ?i = Some m" by blast
    have "contract_id (w_contract m) = contract_id c" using T(3) [OF conjunct1 [OF conjunct2 [OF conjunct2 [OF T(4) [OF m]]]] c] T(4) [OF m] by simp
    with free map_of_in_vals [OF m] show False by blast
  qed
  have "w_lease_id m = j \<and> c_lease_id (w_contract m) = j \<and> map_of (sw_contracts s') (contract_id (w_contract m)) = Some (w_contract m) \<and> lease_tidy m"
    if "((map_of (sw_leases s'))(?i \<mapsto> ?l)) j = Some m" for j m
  proof (cases "j = ?i")
    case True
    with that l c show ?thesis by (auto simp: lease_tidy_def)
  next
    case False
    with that show ?thesis by (intro T(4)) simp
  qed
  then have "tidy (put_worker ?l s')" unfolding tidy_def put(1,3) using put(4) T(2,3) by (intro conjI) blast+
  moreover have "((map_of (sw_leases s'))(?i \<mapsto> ?l)) j = Some m" if "map_of (sw_leases s) j = Some m" "w_state m = FINISHED" for j m
    using K(3) [OF that] none by (cases "j = ?i") auto
  ultimately show ?thesis unfolding keeps_def put K(2) by blast
qed

lemma swarm_admit_keeps:
  assumes "keeps s s'"
  shows "keeps s (snd (swarm_admit H k key auth t0 fin t1 now s'))"
proof -
  have fresh: "keeps s (snd (admit_fresh H c key auth now t))" if t: "keeps s t" and c: "map_of (sw_contracts t) k = Some c" for t c key
  proof -
    have c': "map_of (sw_contracts t) (contract_id c) = Some c" using tidyD(2) [OF keepsD(1) [OF t] c] c by simp
    have "keeps s (put_worker (new_worker c key (sw_lease_ttl_s t) now) (t\<lparr>sw_ledger := L\<rparr>))"
      if "\<not> (\<exists>l \<in> set (vals (sw_leases t)). contract_id (w_contract l) = contract_id c)" for L
      by (rule keeps_grant) (use t c' that in \<open>simp_all add: keeps_other\<close>)
    then show ?thesis using t
      by (auto simp: admit_fresh_def grant_worker_def Let_def keeps_other split: sum.split option.split)
  qed
  have "keeps s (snd (case map_of (sw_contracts t) k of
             None \<Rightarrow> (Inl (SwarmContractError ''subagent contract is not registered''), t)
           | Some c \<Rightarrow> (case map_of (sw_by_key t) key' of
                 Some prior_id \<Rightarrow> (case map_of (sw_leases t) prior_id of
                     None \<Rightarrow> (Inl (KeyError prior_id), t)
                   | Some prior \<Rightarrow>
                       (let dup = (contract_id (w_contract prior) = k \<and> worker_active prior t1)
                        in (Inr \<lparr>sa_admitted = dup, sa_lease = Some prior,
                                sa_reason = (if dup then None else Some R_DUPLICATE), sa_duplicate = True\<rparr>, t)))
               | None \<Rightarrow> admit_fresh H c key' auth now t)))" if "keeps s t" for t key'
    using that fresh [OF that] by (auto simp: Let_def split: option.split)
  then show ?thesis using assms
    unfolding swarm_admit_def Let_def by (auto intro!: keeps_sbind expire_locked_keeps)
qed

lemma charge_keeps:
  assumes "keeps s s'"
  shows "keeps s (snd (charge lid u d t0 fin t1 s'))"
proof -
  have put: "keeps s (put_worker (l\<lparr>w_usage := v\<rparr>) t)" if "keeps s t" "map_of (sw_leases t) lid = Some l" "worker_active l t1" for t l v
    using tidyD(4) [OF keepsD(1) [OF that(1)] that(2)] that(3)
    by (intro keeps_put [OF that(1,2)]) (auto simp: worker_active_def lease_tidy_def)
  show ?thesis
  proof (cases "py_strip d = []")
    case False
    then show ?thesis unfolding charge_def Let_def
      by (simp, intro keeps_sbind expire_locked_keeps [OF assms])
        (auto split: option.split intro!: keeps_sbind keeps_pure put simp: keeps_other)
  qed (use assms in \<open>simp add: charge_def\<close>)
qed

text \<open>Every reachable scheduler is tidy, the closing of the team included.\<close>

lemma cancel_team_tidy:
  assumes "tidy s"
  shows "tidy (snd (cancel_team reason fin s))"
proof -
  let ?s = "s\<lparr>sw_cancelled := True, sw_cancel_reason := Some reason\<rparr>"
  have t: "tidy ?s" using assms by (simp add: tidy_def)
  have "keeps ?s (snd (sfold (close_by_id fin (mark_cancelled reason)) (sort (map w_lease_id (filter (\<lambda>l. w_state l = ACTIVE) (vals (sw_leases ?s))))) ?s))"
    by (rule sfold_close_keeps [OF keeps_refl [OF t]]) (unfold Ball_def lease_ids [OF t], auto simp: mark_cancelled_def)
  then have "keeps ?s (snd (sbind (sfold (close_by_id fin (mark_cancelled reason)) (sort (map w_lease_id (filter (\<lambda>l. w_state l = ACTIVE) (vals (sw_leases ?s))))) ?s)
      (\<lambda>_ s. (Inr ids, s))))" for ids :: "string list" by (rule keeps_sbind) simp
  from keepsD(1) [OF this] show ?thesis using assms unfolding cancel_team_def Let_def by auto
qed

lemma swarm_step_tidy: "swarm_step H s s' \<Longrightarrow> tidy s \<Longrightarrow> tidy s'"
  by (induction rule: swarm_step.induct; drule keeps_refl)
    (blast intro: keepsD(1) cancel_team_tidy register_plan_keeps register_keeps record_phase_receipt_keeps issue_phase_authorization_keeps
      swarm_admit_keeps swarm_heartbeat_keeps charge_keeps observe_terminal_usage_keeps record_terminal_result_keeps
      complete_keeps cancel_worker_keeps reap_timeouts_keeps acknowledge_stopped_keeps)+

lemma swarm_reachable_tidy: "swarm_reachable H b s \<Longrightarrow> tidy s"
proof (induction rule: swarm_reachable.induct)
  case (start i orch ttl s)
  then have "sw_leases s = []" "sw_contracts s = []" by (auto simp: new_swarm_def)
  then show ?case by (simp add: tidy_def wf_dict_def)
qed (rule swarm_step_tidy)

section \<open>Accepted results and closed teams\<close>

text \<open>The scheduler owns a result: a finished lease of its contract holds it.\<close>

definition owned :: "SwarmScheduler \<Rightarrow> SubagentResult \<Rightarrow> bool" where
  "owned s r \<longleftrightarrow> (\<exists>l. map_of (sw_leases s) (r_lease_id r) = Some l \<and> w_state l = FINISHED \<and> w_result l = Some r
     \<and> contract_id (w_contract l) = r_contract_id r)"

lemma keeps_owned: "keeps s s' \<Longrightarrow> owned s r \<Longrightarrow> owned s' r"
  unfolding owned_def using keepsD(3) by blast

lemma complete_owned:
  assumes "tidy s" and "complete H lid r t0 fin t1 t2 s = (Inr x, s')"
  shows "owned s' r"
proof -
  from assms(2) obtain y t where t: "expire_locked t0 fin s = (Inr y, t)" unfolding complete_def by auto
  have kt: "keeps s t" using expire_locked_keeps [OF keeps_refl [OF assms(1)], of t0 fin] t by simp
  obtain l where l: "map_of (sw_leases t) lid = Some l" using assms(2) t by (cases "map_of (sw_leases t) lid") (auto simp: complete_def)
  note L = tidyD(4) [OF keepsD(1) [OF kt] l]
  show ?thesis
  proof (cases "w_state l = FINISHED \<and> w_result l = Some r")
    case True
    with assms(2) t l have "s' = t" by (simp add: complete_def)
    moreover have "r_lease_id r = lid" "r_contract_id r = contract_id (w_contract l)" using True L by (auto simp: lease_tidy_def)
    ultimately show ?thesis using True l by (simp add: owned_def)
  next
    case False
    with assms(2) t l obtain z where b: "require_result_binding H (w_contract l) r = Inr z"
      and c: "close_lease t2 (mark_finished r) l t = (Inr (), s')"
      by (auto simp: complete_def split: if_splits)
    let ?l = "(mark_finished r (finalize_elapsed t2 l))\<lparr>w_settled_usage := Some (w_usage (finalize_elapsed t2 l))\<rparr>"
    have f: "w_lease_id ?l = lid" "w_contract ?l = w_contract l" "w_state ?l = FINISHED" "w_result ?l = Some r"
      using L by (simp_all add: mark_finished_def)
    from c have "map_of (sw_leases s') = (map_of (sw_leases t))(lid \<mapsto> ?l)"
      using f(1) by (auto simp: close_lease_def Let_def with_ledger_def put_worker_def split: sum.splits)
    with f require_result_binding_Inr [OF b] L show ?thesis by (auto simp: owned_def)
  qed
qed

lemma sfold_close_all:
  assumes "tidy s" and "sfold (close_by_id fin mark) ids s = (Inr (), s')"
    and mark: "terminal_mark mark" "\<And>l. w_state (mark l) \<noteq> FINISHED"
    and "\<forall>i \<in> set ids. \<forall>l. map_of (sw_leases s) i = Some l \<longrightarrow> w_state l \<noteq> FINISHED"
  shows "\<forall>i l. map_of (sw_leases s') i = Some l \<and> w_state l = ACTIVE \<longrightarrow> i \<notin> set ids \<and> map_of (sw_leases s) i = Some l"
  using assms(1,2,5)
proof (induction ids arbitrary: s)
  case (Cons i ids)
  from Cons.prems(2) obtain t where t: "close_by_id fin mark i s = (Inr (), t)" "sfold (close_by_id fin mark) ids t = (Inr (), s')" by auto
  have kt: "keeps s t" using close_by_id_keeps [OF keeps_refl [OF Cons.prems(1)] _ mark, of i fin] Cons.prems(3) t(1) by auto
  have opn: "\<forall>j \<in> set ids. \<forall>l. map_of (sw_leases t) j = Some l \<longrightarrow> w_state l \<noteq> FINISHED"
    using close_by_id_open [OF Cons.prems(1) mark, of _ fin i] t(1) Cons.prems(3) by (metis list.set_intros(2) snd_conv)
  obtain l where l: "map_of (sw_leases s) i = Some l" using t(1) by (auto simp: close_by_id_def split: option.splits)
  have id: "w_lease_id l = i" using tidyD(4) [OF Cons.prems(1) l] by simp
  have "\<exists>m. map_of (sw_leases t) = (map_of (sw_leases s))(i \<mapsto> m) \<and> w_state m \<noteq> ACTIVE"
    using t(1) l id mark(1) by (auto simp: close_by_id_def close_lease_def Let_def with_ledger_def put_worker_def terminal_mark_def split: sum.splits)
  then obtain m where "map_of (sw_leases t) = (map_of (sw_leases s))(i \<mapsto> m)" "w_state m \<noteq> ACTIVE" by blast
  with Cons.IH [OF keepsD(1) [OF kt] t(2) opn] show ?case by (auto split: if_splits)
qed auto

lemma cancel_team_closes:
  assumes t: "tidy s" and n: "\<not> sw_cancelled s" and call: "cancel_team reason fin s = (Inr xs, s')"
  shows "sw_cancelled s' \<and> (\<forall>i l. map_of (sw_leases s') i = Some l \<longrightarrow> w_state l \<noteq> ACTIVE)"
proof -
  let ?s = "s\<lparr>sw_cancelled := True, sw_cancel_reason := Some reason\<rparr>"
  let ?ids = "sort (map w_lease_id (filter (\<lambda>l. w_state l = ACTIVE) (vals (sw_leases ?s))))"
  have ts: "tidy ?s" using t by (simp add: tidy_def)
  from call n have f: "sfold (close_by_id fin (mark_cancelled reason)) ?ids ?s = (Inr (), s')"
    by (auto simp: cancel_team_def Let_def split: if_splits)
  have opn: "\<forall>i \<in> set ?ids. \<forall>l. map_of (sw_leases ?s) i = Some l \<longrightarrow> w_state l \<noteq> FINISHED"
    unfolding Ball_def lease_ids [OF ts] by auto
  have mk: "terminal_mark (mark_cancelled reason)" "\<And>l. w_state (mark_cancelled reason l) \<noteq> FINISHED" by (simp_all add: mark_cancelled_def)
  have "keeps ?s s'" using sfold_close_keeps [OF keeps_refl [OF ts] opn mk, of fin] f by simp
  moreover have "w_state l \<noteq> ACTIVE" if "map_of (sw_leases s') i = Some l" for i l
    using sfold_close_all [OF ts f mk opn] that lease_ids [OF ts, of i "\<lambda>l. w_state l = ACTIVE"] by blast
  ultimately show ?thesis using keepsD(2) by fastforce
qed

end
