(* ===== verification/Orchestrator.thy ===== *)
theory Orchestrator
  imports SwarmFinality CompletionGate
begin

text \<open>
  The trusted orchestrator of a swarm (\<open>src/skharness/arena/swarm_orchestrator.py\<close>): it runs the phases of a
  plan through the swarm scheduler, collects results and receipts, and asks the completion gate.

  The workers run in threads. What they return, and when, is the parameter \<open>run_world\<close>: for each phase a
  script of the turns of the wait loop (\<open>tick\<close>: which workers were done, in which order, and the
  clock readings of the scheduler calls of that turn) and of the late workers that return within the
  grace period. \<open>None\<close> is a script that ends while workers are still pending. The activity stream, whose
  errors are swallowed, is left out; so are errors of the journal's file.
\<close>

section \<open>Topology\<close>

datatype CardSize = SMALL | MEDIUM | LARGE

record SwarmTopology =
  st_card_size :: CardSize
  scout_count :: int
  builder_count :: int
  tester_count :: int
  st_reason :: string

definition uses_subagents :: "SwarmTopology \<Rightarrow> bool" where
  "uses_subagents t \<longleftrightarrow> scout_count t + builder_count t + tester_count t > 1"

definition select :: "CardSize \<Rightarrow> int \<Rightarrow> bool \<Rightarrow> SwarmTopology result" where
  "select sz workstreams cross_repository =
     (if workstreams < 1 then Inl (ValueError ''independent_workstreams must be positive'')
      else if sz = SMALL \<and> workstreams = 1
      then Inr \<lparr>st_card_size = sz, scout_count = 0, builder_count = 1, tester_count = 0, st_reason = ''small_single_agent_default''\<rparr>
      else if sz = MEDIUM
      then Inr \<lparr>st_card_size = sz, scout_count = 1, builder_count = 1, tester_count = 1, st_reason = ''medium_scout_build_test''\<rparr>
      else Inr \<lparr>st_card_size = sz, scout_count = (if cross_repository then min 2 workstreams else 1), builder_count = 1,
             tester_count = 1, st_reason = ''large_parallel_scout_single_builder_until_trusted_integration''\<rparr>)"

section \<open>The world of a run\<close>

record WorkerExecution =
  we_result :: SubagentResult
  we_usage :: BudgetUsage

record tick =
  tk_done :: "string list"
  tk_beat :: "string \<Rightarrow> real"
  tk_now :: real
  tk_fin :: "string \<Rightarrow> real"
  tk_complete :: "string \<Rightarrow> real \<times> (string \<Rightarrow> real) \<times> real \<times> real"
  tk_cancel :: "string \<Rightarrow> real"

record phase_script =
  ps_bound_at :: "string \<Rightarrow> datetime"
  ps_issued_at :: "string \<Rightarrow> datetime"
  ps_admit :: "string \<Rightarrow> real \<times> (string \<Rightarrow> real) \<times> real \<times> real"
  ps_assigned_at :: "string \<Rightarrow> datetime"
  ps_ticks :: "tick list"
  ps_late :: "string list"
  ps_result_at :: "string \<Rightarrow> datetime"
  ps_receipt_at :: "string \<Rightarrow> datetime"

text \<open>\<open>execute\<close>, \<open>stop\<close> and \<open>attest\<close> are the caller's; the texts of exceptions and refusals are the interpreter's.\<close>

record run_world =
  rw_execute :: "SubagentContract \<Rightarrow> WorkerExecution result"
  rw_stop :: "string \<Rightarrow> bool result"
  rw_attest :: "SubagentResult list \<Rightarrow> PhaseReceipt list \<Rightarrow> VerifierAttestation option result"
  rw_script :: "string \<Rightarrow> phase_script"
  rw_cancel_fin :: "string \<Rightarrow> real"
  rw_exn_name :: "exn \<Rightarrow> string"
  rw_exn_text :: "exn \<Rightarrow> string"
  rw_reason_text :: "SwarmAdmissionReason option \<Rightarrow> string"
  rw_event_hash :: "A2AEvent \<Rightarrow> string"

section \<open>State\<close>

record team =
  tm_sched :: SwarmScheduler
  tm_journal :: "A2AEvent list"

type_synonym 'a team_call = "'a result \<times> team"

definition sched :: "(SwarmScheduler \<Rightarrow> 'a swarm_call) \<Rightarrow> team \<Rightarrow> 'a team_call" where
  "sched f t = (case f (tm_sched t) of (r, s) \<Rightarrow> (r, t\<lparr>tm_sched := s\<rparr>))"

record SwarmRunReport =
  rp_results :: "SubagentResult list"
  rp_completion :: CompletionDecision
  rp_a2a_event_digests :: "string list"
  rp_cancelled_lease_ids :: "string list"
  rp_phase_receipts :: "PhaseReceipt list"
  rp_phase_authorization_hashes :: "string list"
  rp_failure_reasons :: "string list"

section \<open>Messages\<close>

definition assignment_event :: "hashes \<Rightarrow> SubagentContract \<Rightarrow> PhaseAuthorization option \<Rightarrow> datetime \<Rightarrow> A2AEvent result" where
  "assignment_event H c auth now = event_from_contract H c
     \<lparr>a2a_event_id = contract_id c @ '':assignment'', a2a_contract_id = [], a2a_contract_hash = [], a2a_identity = identity c,
      a2a_parent_agent_id = [], a2a_child_agent_id = [], sender_agent_id = parent_agent_id c, recipient_agent_id = child_agent_id c,
      a2a_kind = ASSIGNMENT, a2a_sequence = 1, a2a_body = task c, a2a_created_at = now, prior_event_id = None,
      a2a_payload = [(''plan_hash'', JStr (plan_hash c)), (''phase_id'', JStr (c_phase_id c)),
        (''input_result_hashes'', JArr (map JStr (input_result_hashes c))), (''input_evidence_refs'', JArr (map JStr (input_evidence_refs c))),
        (''phase_authorization_hash'', case auth of None \<Rightarrow> JNull | Some a \<Rightarrow> JStr (h_authorization H a))]\<rparr>"

fun disposition_value :: "SubagentDisposition \<Rightarrow> string" where
  "disposition_value COMPLETED = ''completed''"
| "disposition_value BLOCKED = ''blocked''"
| "disposition_value NEEDS_INPUT = ''needs_input''"
| "disposition_value FAILED = ''failed''"

definition result_event :: "hashes \<Rightarrow> SubagentContract \<Rightarrow> SubagentResult \<Rightarrow> datetime \<Rightarrow> A2AEvent result" where
  "result_event H c r now = event_from_contract H c
     \<lparr>a2a_event_id = contract_id c @ '':result'', a2a_contract_id = [], a2a_contract_hash = [], a2a_identity = identity c,
      a2a_parent_agent_id = [], a2a_child_agent_id = [], sender_agent_id = child_agent_id c, recipient_agent_id = parent_agent_id c,
      a2a_kind = RESULT, a2a_sequence = 2, a2a_body = disposition_value (r_disposition r), a2a_created_at = now,
      prior_event_id = Some (contract_id c @ '':assignment''), a2a_payload = [(''result_hash'', JStr (h_result H r))]\<rparr>"

definition record_a2a :: "run_world \<Rightarrow> A2AEvent result \<Rightarrow> team \<Rightarrow> string team_call" where
  "record_a2a W event t =
     (case event of Inl e \<Rightarrow> (Inl e, t) | Inr ev \<Rightarrow> (Inr (rw_event_hash W ev), t\<lparr>tm_journal := tm_journal t @ [ev]\<rparr>))"

section \<open>Stopping workers\<close>

definition stop_and_acknowledge :: "run_world \<Rightarrow> string \<Rightarrow> team \<Rightarrow> bool \<times> team" where
  "stop_and_acknowledge W lid t =
     (case rw_stop W lid of Inl _ \<Rightarrow> (False, t)
      | Inr q \<Rightarrow> if \<not> q then (False, t)
          else (case acknowledge_stopped lid (tm_sched t) of (b, s) \<Rightarrow> (b, t\<lparr>tm_sched := s\<rparr>)))"

fun stop_all :: "run_world \<Rightarrow> string list \<Rightarrow> team \<Rightarrow> string list \<times> team" where
  "stop_all W [] t = ([], t)"
| "stop_all W (lid # lids) t =
     (case stop_and_acknowledge W lid t of (ok, t1) \<Rightarrow> (case stop_all W lids t1 of (fs, t2) \<Rightarrow>
        ((if ok then fs else (''worker_stop_not_quiescent:'' @ lid) # fs), t2)))"

definition stop_pending :: "run_world \<Rightarrow> team \<Rightarrow> string list \<times> team" where
  "stop_pending W t = stop_all W (stop_requests (tm_sched t)) t"

section \<open>Results of the controller\<close>

definition overage_result :: "hashes \<Rightarrow> SubagentContract \<Rightarrow> SubagentResult \<Rightarrow> string list \<Rightarrow> SubagentResult result" where
  "overage_result H c wr dims = result_from_contract H c (wr
     \<lparr>r_disposition := FAILED, r_summary := ''Worker terminal usage exceeded its immutable contract budget.'',
      r_reason_codes := ''budget_exceeded'' # map (\<lambda>d. ''budget_exceeded:'' @ d) dims, r_observed_commit := None,
      r_scout_assessment := (if role c = SCOUT then Some SA_BLOCKED else None), r_scout_findings := [],
      r_controller_terminal_reason := None\<rparr>)"

definition py_dedup :: "string list \<Rightarrow> string list" where
  "py_dedup xs = rev (remdups (rev xs))"

definition late_reasons :: "string \<Rightarrow> UsageSettlement \<Rightarrow> string list" where
  "late_reasons terminal_reason st = py_dedup (terminal_reason #
     (if us_overage_dimensions st = [] then []
      else ''budget_exceeded'' # map (\<lambda>d. ''budget_exceeded:'' @ d) (us_overage_dimensions st)))"

definition terminal_reason_of :: "string \<Rightarrow> SwarmScheduler \<Rightarrow> string" where
  "terminal_reason_of lid s =
     (case lease_record lid s of None \<Rightarrow> ''timed_out''
      | Some l \<Rightarrow> (case w_terminal_reason l of None \<Rightarrow> ''timed_out'' | Some r \<Rightarrow> if r = [] then ''timed_out'' else r))"

definition late_result :: "hashes \<Rightarrow> SubagentContract \<Rightarrow> SubagentResult \<Rightarrow> string \<Rightarrow> UsageSettlement \<Rightarrow> SubagentResult result" where
  "late_result H c wr reason st = result_from_contract H c (wr
     \<lparr>r_disposition := FAILED, r_summary := ''Worker returned after the controller terminalized its lease.'',
      r_reason_codes := late_reasons reason st, r_observed_commit := None,
      r_scout_assessment := (if role c = SCOUT then Some SA_BLOCKED else None),
      r_scout_findings := (if role c = SCOUT then r_scout_findings wr else []), r_controller_terminal_reason := Some reason\<rparr>)"

text \<open>The body of the \<open>try\<close> of \<open>_observe_late_future\<close>; any exception makes the result \<open>None\<close>.\<close>

definition observe_late :: "hashes \<Rightarrow> run_world \<Rightarrow> SubagentContract \<Rightarrow> team \<Rightarrow> SubagentResult option \<times> team" where
  "observe_late H W c t =
     (let body = (case rw_execute W c of Inl e \<Rightarrow> (Inl e, t)
        | Inr x \<Rightarrow> sbind (sched (observe_terminal_usage (c_lease_id c) (we_usage x) (''terminal-usage-late:'' @ contract_id c @ '':1'')) t)
            (\<lambda>st t. let reason = terminal_reason_of (c_lease_id c) (tm_sched t) in
              sbind (pure_call (late_result H c (we_result x) reason st) t) (\<lambda>r t.
              sbind (sched (record_terminal_result H (c_lease_id c) r) t) (\<lambda>_ t. (Inr r, t)))))
      in (case body of (Inl e, t) \<Rightarrow> (None, t) | (Inr r, t) \<Rightarrow> (Some r, t)))"

section \<open>A phase\<close>

record phase_acc =
  pa_results :: "SubagentResult list"
  pa_events :: "string list"
  pa_failures :: "string list"
  pa_late :: "SubagentContract list"

text \<open>The admission loop: the digests of the assignments, and the failure that ended it.\<close>

fun admit_phase :: "hashes \<Rightarrow> run_world \<Rightarrow> phase_script \<Rightarrow> (string \<times> PhaseAuthorization) list \<Rightarrow> SubagentContract list
    \<Rightarrow> team \<Rightarrow> (string list \<times> string list) team_call" where
  "admit_phase H W ps auths [] t = (Inr ([], []), t)"
| "admit_phase H W ps auths (c # cs) t =
     (case ps_admit ps (contract_id c) of (t0, fin, t1, now) \<Rightarrow>
      case sched (swarm_admit H (contract_id c) (team_id c @ '':'' @ contract_id c) (map_of auths (contract_id c)) t0 fin t1 now) t of
        (Inl e, t) \<Rightarrow> (Inr ([], [''worker_admission_exception:'' @ contract_id c @ '':'' @ rw_exn_name W e]), t)
      | (Inr a, t) \<Rightarrow>
          if \<not> sa_admitted a \<or> sa_duplicate a
          then (Inr ([], [''worker_admission_denied:'' @ contract_id c @ '':'' @ rw_reason_text W (sa_reason a)]), t)
          else sbind (record_a2a W (assignment_event H c (map_of auths (contract_id c)) (ps_assigned_at ps (contract_id c))) t) (\<lambda>d t.
               sbind (admit_phase H W ps auths cs t) (\<lambda>(ds, fs) t. (Inr (d # ds, fs), t))))"

text \<open>A worker that returned (the \<open>try\<close> of the loop over \<open>done\<close>): its result, or the failure.\<close>

definition finish_body :: "hashes \<Rightarrow> run_world \<Rightarrow> tick \<Rightarrow> SubagentContract \<Rightarrow> team \<Rightarrow> (SubagentResult \<times> string list) team_call" where
  "finish_body H W tk c t =
     (case rw_execute W c of Inl e \<Rightarrow> (Inl e, t)
      | Inr x \<Rightarrow> sbind (sched (observe_terminal_usage (c_lease_id c) (we_usage x) (''terminal-usage:'' @ contract_id c @ '':1'')) t) (\<lambda>st t.
          if us_overage_dimensions st \<noteq> [] then
            sbind (pure_call (overage_result H c (we_result x) (us_overage_dimensions st)) t) (\<lambda>r t.
            sbind (sched (record_overage_result H (c_lease_id c) r) t) (\<lambda>_ t.
              (Inr (r, [''worker_over_budget:'' @ contract_id c @ '':'' @ py_join '','' (us_overage_dimensions st)]), t)))
          else (case tk_complete tk (contract_id c) of (t0, fin, t1, t2) \<Rightarrow>
            sbind (sched (complete H (c_lease_id c) (we_result x) t0 fin t1 t2) t) (\<lambda>_ t. (Inr (we_result x, []), t)))))"

definition finish_worker :: "hashes \<Rightarrow> run_world \<Rightarrow> phase_script \<Rightarrow> tick \<Rightarrow> SubagentContract \<Rightarrow> phase_acc \<Rightarrow> team \<Rightarrow> phase_acc team_call" where
  "finish_worker H W ps tk c acc t =
     (case finish_body H W tk c t of
        (Inl e, t) \<Rightarrow> sbind (sched (cancel_worker (c_lease_id c) (''worker_exception:'' @ rw_exn_name W e) (tk_cancel tk (contract_id c))) t)
          (\<lambda>_ t. (Inr (acc\<lparr>pa_failures := pa_failures acc @ [''worker_exception:'' @ contract_id c @ '':'' @ rw_exn_name W e]\<rparr>), t))
      | (Inr (r, fs), t) \<Rightarrow> sbind (record_a2a W (result_event H c r (ps_result_at ps (contract_id c))) t) (\<lambda>d t.
          (Inr (acc\<lparr>pa_results := pa_results acc @ [r], pa_events := pa_events acc @ [d], pa_failures := pa_failures acc @ fs\<rparr>), t)))"

fun finish_workers :: "hashes \<Rightarrow> run_world \<Rightarrow> phase_script \<Rightarrow> tick \<Rightarrow> SubagentContract list \<Rightarrow> phase_acc \<Rightarrow> team \<Rightarrow> phase_acc team_call" where
  "finish_workers H W ps tk [] acc t = (Inr acc, t)"
| "finish_workers H W ps tk (c # cs) acc t = sbind (finish_worker H W ps tk c acc t) (finish_workers H W ps tk cs)"

definition beat_all :: "tick \<Rightarrow> SubagentContract list \<Rightarrow> SwarmScheduler \<Rightarrow> SwarmScheduler" where
  "beat_all tk cs s = fold (\<lambda>c s. snd (swarm_heartbeat (c_lease_id c) (tk_beat tk (c_lease_id c)) s)) cs s"

definition lease_label :: "SubagentContract list \<Rightarrow> string \<Rightarrow> string" where
  "lease_label cs lid = (case find (\<lambda>c. c_lease_id c = lid) cs of None \<Rightarrow> lid | Some c \<Rightarrow> contract_id c)"

fun stop_expired :: "run_world \<Rightarrow> SubagentContract list \<Rightarrow> string list \<Rightarrow> team \<Rightarrow> string list \<times> team" where
  "stop_expired W cs [] t = ([], t)"
| "stop_expired W cs (lid # lids) t =
     (case stop_and_acknowledge W lid t of (ok, t1) \<Rightarrow> (case stop_expired W cs lids t1 of (fs, t2) \<Rightarrow>
        ((''worker_timed_out:'' @ lease_label cs lid) # (if ok then fs else (''worker_stop_not_quiescent:'' @ lease_label cs lid) # fs), t2)))"

text \<open>One turn of the wait loop: heartbeats of the pending workers, timeouts, then the workers that are done.\<close>

definition phase_tick :: "hashes \<Rightarrow> run_world \<Rightarrow> phase_script \<Rightarrow> SubagentContract list \<Rightarrow> tick \<Rightarrow> SubagentContract list
    \<Rightarrow> phase_acc \<Rightarrow> team \<Rightarrow> (SubagentContract list \<times> phase_acc) team_call" where
  "phase_tick H W ps cs tk pending acc t =
     (let finished = List.map_filter (\<lambda>k. find (\<lambda>c. contract_id c = k) pending) (remdups (tk_done tk));
          pending = filter (\<lambda>c. contract_id c \<notin> set (tk_done tk)) pending;
          t = t\<lparr>tm_sched := beat_all tk pending (tm_sched t)\<rparr>
      in sbind (sched (reap_timeouts (tk_now tk) (tk_fin tk)) t) (\<lambda>expired t.
         case stop_expired W cs expired t of (fs, t) \<Rightarrow>
         let late = filter (\<lambda>c. c_lease_id c \<in> set expired) pending
         in sbind (finish_workers H W ps tk finished (acc\<lparr>pa_failures := pa_failures acc @ fs, pa_late := pa_late acc @ late\<rparr>) t) (\<lambda>acc t.
              (Inr (filter (\<lambda>c. c_lease_id c \<notin> set expired) pending, acc), t))))"

fun phase_loop :: "hashes \<Rightarrow> run_world \<Rightarrow> phase_script \<Rightarrow> SubagentContract list \<Rightarrow> tick list \<Rightarrow> SubagentContract list
    \<Rightarrow> phase_acc \<Rightarrow> team \<Rightarrow> phase_acc team_call option" where
  "phase_loop H W ps cs ticks [] acc t = Some (Inr acc, t)"
| "phase_loop H W ps cs [] (p # pending) acc t = None"
| "phase_loop H W ps cs (tk # ticks) (p # pending) acc t =
     (case phase_tick H W ps cs tk (p # pending) acc t of
        (Inl e, t) \<Rightarrow> Some (Inl e, t)
      | (Inr (pending, acc), t) \<Rightarrow> phase_loop H W ps cs ticks pending acc t)"

fun drain_late :: "hashes \<Rightarrow> run_world \<Rightarrow> phase_script \<Rightarrow> SubagentContract list \<Rightarrow> phase_acc \<Rightarrow> team \<Rightarrow> phase_acc team_call" where
  "drain_late H W ps [] acc t = (Inr acc, t)"
| "drain_late H W ps (c # cs) acc t =
     (case observe_late H W c t of
        (None, t) \<Rightarrow> drain_late H W ps cs (acc\<lparr>pa_failures := pa_failures acc @ [''late_worker_result_invalid:'' @ contract_id c]\<rparr>) t
      | (Some r, t) \<Rightarrow> sbind (record_a2a W (result_event H c r (ps_result_at ps (contract_id c))) t) (\<lambda>d t.
          drain_late H W ps cs (acc\<lparr>pa_results := pa_results acc @ [r], pa_events := pa_events acc @ [d]\<rparr>) t))"

definition drain_late_futures :: "hashes \<Rightarrow> run_world \<Rightarrow> phase_script \<Rightarrow> phase_acc \<Rightarrow> team \<Rightarrow> phase_acc team_call" where
  "drain_late_futures H W ps acc t =
     (let finished = List.map_filter (\<lambda>k. find (\<lambda>c. contract_id c = k) (pa_late acc)) (remdups (ps_late ps));
          hung = filter (\<lambda>c. contract_id c \<notin> set (ps_late ps)) (pa_late acc)
      in sbind (drain_late H W ps finished acc t) (\<lambda>acc t.
           (Inr (acc\<lparr>pa_failures := pa_failures acc @ map (\<lambda>c. ''worker_shutdown_grace_exceeded:'' @ contract_id c) hung\<rparr>), t)))"

definition run_phase :: "hashes \<Rightarrow> run_world \<Rightarrow> phase_script \<Rightarrow> SubagentContract list \<Rightarrow> (string \<times> PhaseAuthorization) list \<Rightarrow> team
    \<Rightarrow> phase_acc team_call option" where
  "run_phase H W ps cs auths t =
     (case admit_phase H W ps auths cs t of
        (Inl e, t) \<Rightarrow> Some (Inl e, t)
      | (Inr (ds, fs), t) \<Rightarrow>
          (let acc = \<lparr>pa_results = [], pa_events = ds, pa_failures = fs, pa_late = []\<rparr> in
           if fs \<noteq> [] then Some (Inr acc, t)
           else if cs = [] then Some (Inl (ValueError ''max_workers must be greater than 0''), t)
           else (case phase_loop H W ps cs (ps_ticks ps) cs acc t of
               None \<Rightarrow> None
             | Some (Inl e, t) \<Rightarrow> Some (Inl e, t)
             | Some (Inr acc, t) \<Rightarrow> Some (drain_late_futures H W ps acc t))))"

section \<open>A run\<close>

record run_acc =
  ra_results :: "SubagentResult list"
  ra_receipts :: "PhaseReceipt list"
  ra_events :: "string list"
  ra_authorizations :: "string list"
  ra_failures :: "string list"

fun register_all :: "hashes \<Rightarrow> SubagentContract list \<Rightarrow> team \<Rightarrow> unit team_call" where
  "register_all H [] t = (Inr (), t)"
| "register_all H (c # cs) t = sbind (sched (register H c) t) (\<lambda>_. register_all H cs)"

fun authorize_all :: "hashes \<Rightarrow> phase_script \<Rightarrow> string list \<Rightarrow> SubagentContract list \<Rightarrow> team \<Rightarrow> (string \<times> PhaseAuthorization) list team_call" where
  "authorize_all H ps hs [] t = (Inr [], t)"
| "authorize_all H ps hs (c # cs) t =
     sbind (sched (issue_phase_authorization H (contract_id c) hs (ps_issued_at ps (contract_id c))) t) (\<lambda>a t.
     sbind (authorize_all H ps hs cs t) (\<lambda>as t. (Inr ((contract_id c, a) # as), t)))"

text \<open>The checks after a phase.\<close>

definition phase_failures :: "SwarmPhaseSpec \<Rightarrow> SubagentResult list \<Rightarrow> string list" where
  "phase_failures p rs =
     (let expected = set (contract_ids p);
          actual = map r_contract_id rs;
          completed = map r_contract_id (filter (\<lambda>r. r_disposition r = COMPLETED) rs)
      in add_if (length actual \<noteq> card expected \<or> set actual \<noteq> expected) (''phase_result_cardinality_mismatch:'' @ phase_id p)
       @ add_if (length completed \<noteq> card expected \<or> set completed \<noteq> expected) (''phase_completed_cardinality_mismatch:'' @ phase_id p)
       @ add_if (list_ex (\<lambda>r. r_disposition r \<noteq> COMPLETED) rs) (''phase_not_completed:'' @ phase_id p)
       @ add_if (list_ex (\<lambda>r. r_role r = SCOUT \<and> r_scout_assessment r \<noteq> Some ACTIONABLE) rs) (''scout_not_actionable:'' @ phase_id p))"

text \<open>The receipts of a phase: a \<open>SwarmContractError\<close> becomes a failure, every other exception propagates.\<close>

fun record_receipts :: "hashes \<Rightarrow> run_world \<Rightarrow> phase_script \<Rightarrow> string \<Rightarrow> (string \<times> SubagentContract) list \<Rightarrow> string list
    \<Rightarrow> string list \<Rightarrow> run_acc \<Rightarrow> team \<Rightarrow> run_acc team_call" where
  "record_receipts H W ps pid by_id hs [] acc t = (Inr acc, t)"
| "record_receipts H W ps pid by_id hs (k # ks) acc t =
     (case map_of by_id k of None \<Rightarrow> (Inl (KeyError k), t)
      | Some c \<Rightarrow> (case sched (record_phase_receipt H (c_lease_id c) hs (ps_receipt_at ps k)) t of
          (Inl e, t) \<Rightarrow> if is_contract_error e
             then record_receipts H W ps pid by_id hs ks
               (acc\<lparr>ra_failures := ra_failures acc @ [''phase_receipt_invalid:'' @ pid @ '':'' @ rw_exn_text W e]\<rparr>) t
             else (Inl e, t)
        | (Inr r, t) \<Rightarrow> record_receipts H W ps pid by_id hs ks (acc\<lparr>ra_receipts := ra_receipts acc @ [r]\<rparr>) t))"

definition dict_get :: "(string \<times> 'a) list \<Rightarrow> string \<Rightarrow> 'a result" where
  "dict_get d k = (case map_of d k of None \<Rightarrow> Inl (KeyError k) | Some v \<Rightarrow> Inr v)"

text \<open>The contracts of a phase: its templates bound to the receipts of the predecessors, or why not.\<close>

definition phase_contracts :: "hashes \<Rightarrow> run_world \<Rightarrow> SwarmPlan \<Rightarrow> SwarmPhaseSpec \<Rightarrow> SubagentContract list \<Rightarrow> PhaseReceipt list
    \<Rightarrow> (string + SubagentContract list) result" where
  "phase_contracts H W pl p templates preds =
     (if predecessor_phase_ids p \<noteq> [] then
        (case rmap (\<lambda>c. bind_phase_inputs H c preds pl (ps_bound_at (rw_script W (phase_id p)) (contract_id c))) templates of
           Inl e \<Rightarrow> if is_contract_error e then Inr (Inl (''phase_lineage_invalid:'' @ phase_id p @ '':'' @ rw_exn_text W e)) else Inl e
         | Inr cs \<Rightarrow> Inr (Inr cs))
      else if list_ex (\<lambda>c. phase_inputs c \<noteq> [] \<or> inputs_bound_at c \<noteq> None) templates
      then Inr (Inl (''root_phase_has_inputs:'' @ phase_id p)) else Inr (Inr templates))"

text \<open>The end of an iteration of the loop over the phases: its failures end the run, or its receipts are recorded.\<close>

definition close_phase :: "hashes \<Rightarrow> run_world \<Rightarrow> SwarmPhaseSpec \<Rightarrow> string list \<Rightarrow> SubagentContract list \<Rightarrow> (string \<times> PhaseAuthorization) list
    \<Rightarrow> phase_acc \<Rightarrow> run_acc \<Rightarrow> team \<Rightarrow> (bool \<times> run_acc) team_call" where
  "close_phase H W p hs cs auths pa acc t =
     (let acc = acc\<lparr>ra_results := ra_results acc @ pa_results pa, ra_events := ra_events acc @ pa_events pa,
            ra_authorizations := ra_authorizations acc @ map (\<lambda>(k, a). h_authorization H a) auths,
            ra_failures := ra_failures acc @ pa_failures pa @ phase_failures p (pa_results pa)\<rparr>
      in if ra_failures acc \<noteq> [] then (Inr (False, acc), t)
         else sbind (record_receipts H W (rw_script W (phase_id p)) (phase_id p) (dict_by contract_id cs) hs (contract_ids p) acc t)
                (\<lambda>acc t. (Inr (ra_failures acc = [], acc), t)))"

text \<open>One iteration of the loop over the phases; the flag says whether the loop goes on.\<close>

definition run_one_phase :: "hashes \<Rightarrow> run_world \<Rightarrow> SwarmPlan \<Rightarrow> (string \<times> SubagentContract) list \<Rightarrow> SwarmPhaseSpec \<Rightarrow> run_acc \<Rightarrow> team
    \<Rightarrow> (bool \<times> run_acc) team_call option" where
  "run_one_phase H W pl by_id p acc t =
     (let ps = rw_script W (phase_id p);
          preds = filter (\<lambda>r. rc_phase_id r \<in> set (predecessor_phase_ids p)) (ra_receipts acc);
          hs = map (h_receipt H) preds;
          stop = (\<lambda>f t. Some (Inr (False, acc\<lparr>ra_failures := ra_failures acc @ [f]\<rparr>), t))
      in case rmap (dict_get by_id) (contract_ids p) of Inl e \<Rightarrow> Some (Inl e, t)
         | Inr templates \<Rightarrow> (case phase_contracts H W pl p templates preds of
             Inl e \<Rightarrow> Some (Inl e, t)
           | Inr (Inl f) \<Rightarrow> stop f t
           | Inr (Inr cs) \<Rightarrow> (case register_all H cs t of
               (Inl e, t) \<Rightarrow> Some (Inl e, t)
             | (Inr _, t) \<Rightarrow> (case (if predecessor_phase_ids p \<noteq> [] then authorize_all H ps hs cs t else (Inr [], t)) of
                 (Inl e, t) \<Rightarrow> stop (''phase_authorization_failed:'' @ phase_id p @ '':'' @ rw_exn_name W e) t
               | (Inr auths, t) \<Rightarrow> (case run_phase H W ps cs auths t of
                   None \<Rightarrow> None
                 | Some (Inl e, t) \<Rightarrow> Some (Inl e, t)
                 | Some (Inr pa, t) \<Rightarrow> Some (close_phase H W p hs cs auths pa acc t))))))"

fun run_phases :: "hashes \<Rightarrow> run_world \<Rightarrow> SwarmPlan \<Rightarrow> (string \<times> SubagentContract) list \<Rightarrow> SwarmPhaseSpec list \<Rightarrow> run_acc \<Rightarrow> team
    \<Rightarrow> run_acc team_call option" where
  "run_phases H W pl by_id [] acc t = Some (Inr acc, t)"
| "run_phases H W pl by_id (p # ps) acc t =
     (case run_one_phase H W pl by_id p acc t of
        None \<Rightarrow> None
      | Some (Inl e, t) \<Rightarrow> Some (Inl e, t)
      | Some (Inr (False, acc), t) \<Rightarrow> Some (Inr acc, t)
      | Some (Inr (True, acc), t) \<Rightarrow> run_phases H W pl by_id ps acc t)"

definition finish_run :: "hashes \<Rightarrow> gate_digests \<Rightarrow> run_world \<Rightarrow> SwarmCompletionGate \<Rightarrow> SwarmPlan \<Rightarrow> run_acc \<Rightarrow> team \<Rightarrow> SwarmRunReport team_call" where
  "finish_run H D W g pl acc t =
     (let ordered = lookup_all (dict_by r_contract_id (ra_results acc)) (expected_ids pl)
      in sbind (pure_call (if ra_failures acc = [] then rw_attest W ordered (ra_receipts acc) else Inr None) t) (\<lambda>att t.
         sbind (pure_call (evaluate H D g ordered (ra_receipts acc) att) t) (\<lambda>d t.
           let report = (\<lambda>cancelled failures. \<lparr>rp_results = ordered, rp_completion = d, rp_a2a_event_digests = ra_events acc,
                 rp_cancelled_lease_ids = sort cancelled, rp_phase_receipts = ra_receipts acc,
                 rp_phase_authorization_hashes = ra_authorizations acc, rp_failure_reasons = sort (remdups failures)\<rparr>)
           in if ra_failures acc \<noteq> [] \<or> \<not> cd_authorized d
              then sbind (sched (cancel_team (if ra_failures acc \<noteq> [] then ''phase_execution_failed'' else ''completion_gate_denied'')
                     (rw_cancel_fin W)) t) (\<lambda>cancelled t.
                   case stop_pending W t of (fs, t) \<Rightarrow> (Inr (report (remdups cancelled) (ra_failures acc @ fs)), t))
              else (Inr (report [] (ra_failures acc)), t))))"

definition new_orchestrator :: "SwarmPlan \<Rightarrow> SwarmScheduler \<Rightarrow> real \<Rightarrow> unit result" where
  "new_orchestrator pl s grace = check
     [(grace \<le> 0, ValueError ''shutdown_grace_s must be positive''),
      (plan_identity pl \<noteq> sw_identity s, SwarmContractError ''swarm plan identity does not match scheduler'')] (Inr ())"

definition run :: "hashes \<Rightarrow> gate_digests \<Rightarrow> run_world \<Rightarrow> SwarmCompletionGate \<Rightarrow> SwarmPlan \<Rightarrow> SubagentContract list \<Rightarrow> team
    \<Rightarrow> SwarmRunReport team_call option" where
  "run H D W g pl contracts t =
     (let by_id = dict_by contract_id contracts
      in case check [(contracts = [], SwarmContractError ''a swarm run requires at least one contract''),
           (length by_id \<noteq> length contracts \<or> set (keys by_id) \<noteq> set (expected_ids pl),
              SwarmContractError ''contracts do not exactly satisfy the immutable swarm plan'')]
           (rbind (rmap (\<lambda>c. require_contract_plan H c pl) contracts) (\<lambda>_. Inr ())) of
         Inl e \<Rightarrow> Some (Inl e, t)
       | Inr _ \<Rightarrow> (case sched (register_plan pl) t of
           (Inl e, t) \<Rightarrow> Some (Inl e, t)
         | (Inr _, t) \<Rightarrow> (case run_phases H W pl by_id (phases pl)
               \<lparr>ra_results = [], ra_receipts = [], ra_events = [], ra_authorizations = [], ra_failures = []\<rparr> t of
             None \<Rightarrow> None
           | Some (Inl e, t) \<Rightarrow> Some (Inl e, t)
           | Some (Inr acc, t) \<Rightarrow> Some (finish_run H D W g pl acc t))))"

section \<open>What a run leaves of the scheduler\<close>

text \<open>Every call of the orchestrator keeps what \<open>keeps\<close> says of the scheduler, whether it returns or raises.\<close>

abbreviation tkeeps :: "SwarmScheduler \<Rightarrow> team \<Rightarrow> bool" where
  "tkeeps s t \<equiv> keeps s (tm_sched t)"

lemma sched_sched [simp]: "tm_sched (snd (sched f t)) = snd (f (tm_sched t))" "fst (sched f t) = fst (f (tm_sched t))"
  by (simp_all add: sched_def split: prod.split)

lemma record_a2a_sched [simp]: "tm_sched (snd (record_a2a W ev t)) = tm_sched t"
  by (simp add: record_a2a_def split: sum.split)

lemma tkeeps_sbind:
  assumes "tkeeps s (snd r)" and "\<And>x t. r = (Inr x, t) \<Longrightarrow> tkeeps s t \<Longrightarrow> tkeeps s (snd (f x t))"
  shows "tkeeps s (snd (sbind r f))"
  using sbind_keeps [of "tkeeps s"] assms by blast

lemma tkeeps_pure: "tkeeps s t \<Longrightarrow> tkeeps s (snd (pure_call r t))"
  by (simp add: pure_call_def)

lemma tkeeps_event: "tkeeps s t \<Longrightarrow> tkeeps s (snd (record_a2a W ev t))"
  by simp

lemma tkeeps_calls:
  assumes "tkeeps s t"
  shows "tkeeps s (snd (sched (register_plan pl) t))" "tkeeps s (snd (sched (register H c) t))"
    "tkeeps s (snd (sched (issue_phase_authorization H k hs now) t))" "tkeeps s (snd (sched (record_phase_receipt H lid hs now) t))"
    "tkeeps s (snd (sched (swarm_admit H k key auth t0 fin t1 n) t))" "tkeeps s (snd (sched (reap_timeouts n fin) t))"
    "tkeeps s (snd (sched (observe_terminal_usage lid u d) t))" "tkeeps s (snd (sched (record_overage_result H lid r) t))"
    "tkeeps s (snd (sched (record_terminal_result H lid r) t))" "tkeeps s (snd (sched (complete H lid r t0 fin t1 t2) t))"
    "tkeeps s (snd (sched (cancel_worker lid reason n) t))"
  using assms
  by (simp_all add: register_plan_keeps register_keeps issue_phase_authorization_keeps record_phase_receipt_keeps swarm_admit_keeps
      reap_timeouts_keeps observe_terminal_usage_keeps record_overage_result_keeps record_terminal_result_keeps complete_keeps cancel_worker_keeps)

lemmas team_keeps_intros = tkeeps_sbind tkeeps_pure tkeeps_event tkeeps_calls

lemma stop_and_acknowledge_keeps: "tkeeps s t \<Longrightarrow> tkeeps s (snd (stop_and_acknowledge W lid t))"
  using acknowledge_stopped_keeps [of s "tm_sched t" lid] by (auto simp: stop_and_acknowledge_def split: sum.split prod.split)

lemma stop_all_keeps: "tkeeps s t \<Longrightarrow> tkeeps s (snd (stop_all W lids t))"
proof (induction lids arbitrary: t)
  case (Cons lid lids)
  from Cons.IH [OF stop_and_acknowledge_keeps [OF Cons.prems, of W lid]] show ?case by (simp add: case_prod_beta)
qed simp

lemma stop_expired_keeps: "tkeeps s t \<Longrightarrow> tkeeps s (snd (stop_expired W cs lids t))"
proof (induction lids arbitrary: t)
  case (Cons lid lids)
  from Cons.IH [OF stop_and_acknowledge_keeps [OF Cons.prems, of W lid]] show ?case by (simp add: case_prod_beta)
qed simp

lemma beat_all_keeps: "keeps s s' \<Longrightarrow> keeps s (beat_all tk cs s')"
  unfolding beat_all_def by (induction cs arbitrary: s') (auto intro: swarm_heartbeat_keeps)

lemma observe_late_keeps:
  assumes "tkeeps s t"
  shows "tkeeps s (snd (observe_late H W c t))"
proof -
  let ?body = "case rw_execute W c of Inl e \<Rightarrow> (Inl e, t)
        | Inr x \<Rightarrow> sbind (sched (observe_terminal_usage (c_lease_id c) (we_usage x) (''terminal-usage-late:'' @ contract_id c @ '':1'')) t)
            (\<lambda>st t. let reason = terminal_reason_of (c_lease_id c) (tm_sched t) in
              sbind (pure_call (late_result H c (we_result x) reason st) t) (\<lambda>r t.
              sbind (sched (record_terminal_result H (c_lease_id c) r) t) (\<lambda>_ t. (Inr r, t))))"
  have "tkeeps s (snd ?body)"
    using assms by (cases "rw_execute W c") (auto simp: Let_def intro!: team_keeps_intros)
  moreover have "snd (observe_late H W c t) = snd ?body"
    unfolding observe_late_def Let_def by (auto split: prod.split sum.split)
  ultimately show ?thesis by simp
qed

lemma finish_body_keeps: "tkeeps s t \<Longrightarrow> tkeeps s (snd (finish_body H W tk c t))"
  unfolding finish_body_def by (auto split: sum.split prod.split intro!: team_keeps_intros)

lemma finish_worker_keeps: "tkeeps s t \<Longrightarrow> tkeeps s (snd (finish_worker H W ps tk c acc t))"
  using finish_body_keeps [of s t H W tk c]
  by (cases "finish_body H W tk c t"; cases "fst (finish_body H W tk c t)") (auto simp: finish_worker_def intro!: team_keeps_intros)

lemma finish_workers_keeps: "tkeeps s t \<Longrightarrow> tkeeps s (snd (finish_workers H W ps tk cs acc t))"
  by (induction cs arbitrary: acc t) (auto intro!: tkeeps_sbind finish_worker_keeps)

lemma phase_tick_keeps:
  assumes "tkeeps s t"
  shows "tkeeps s (snd (phase_tick H W ps cs tk pending acc t))"
proof -
  let ?t = "t\<lparr>tm_sched := beat_all tk (filter (\<lambda>c. contract_id c \<notin> set (tk_done tk)) pending) (tm_sched t)\<rparr>"
  have "tkeeps s ?t" using assms by (simp add: beat_all_keeps)
  then show ?thesis unfolding phase_tick_def Let_def case_prod_beta
    by (intro tkeeps_sbind tkeeps_calls finish_workers_keeps stop_expired_keeps) simp_all
qed

lemma admit_phase_keeps: "tkeeps s t \<Longrightarrow> tkeeps s (snd (admit_phase H W ps auths cs t))"
proof (induction cs arbitrary: t)
  case (Cons c cs)
  obtain t0 fin t1 now where a: "ps_admit ps (contract_id c) = (t0, fin, t1, now)" by (cases "ps_admit ps (contract_id c)") auto
  let ?r = "sched (swarm_admit H (contract_id c) (team_id c @ '':'' @ contract_id c) (map_of auths (contract_id c)) t0 fin t1 now) t"
  obtain x u where r: "?r = (x, u)" by (cases ?r)
  have u: "tkeeps s u" using tkeeps_calls(5) [OF Cons.prems, of H _ _ _ t0 fin t1 now] r by (metis snd_conv)
  show ?case
  proof (cases x)
    case (Inr adm)
    have "tkeeps s (snd (sbind (record_a2a W ev u) (\<lambda>d t. sbind (admit_phase H W ps auths cs t) (\<lambda>(ds, fs) t. (Inr (d # ds, fs), t)))))" for ev
      by (intro tkeeps_sbind tkeeps_event u Cons.IH) (auto split: prod.split)
    then show ?thesis using u unfolding admit_phase.simps a case_prod_conv r Inr sum.case by simp
  qed (use u a r in simp)
qed simp

lemma phase_loop_keeps:
  "tkeeps s t \<Longrightarrow> phase_loop H W ps cs ticks pending acc t = Some (r, t') \<Longrightarrow> tkeeps s t'"
proof (induction H W ps cs ticks pending acc t rule: phase_loop.induct)
  case (3 H W ps cs tk ticks p pending acc t)
  have k: "tkeeps s (snd (phase_tick H W ps cs tk (p # pending) acc t))" using 3(2) by (rule phase_tick_keeps)
  show ?case
  proof (cases "phase_tick H W ps cs tk (p # pending) acc t")
    case (Pair x u)
    with 3(1) [OF Pair [symmetric]] 3(3) k show ?thesis by (cases x) (auto split: prod.splits)
  qed
qed auto

lemma drain_late_keeps: "tkeeps s t \<Longrightarrow> tkeeps s (snd (drain_late H W ps cs acc t))"
proof (induction cs arbitrary: acc t)
  case (Cons c cs)
  have "tkeeps s (snd (observe_late H W c t))" using Cons.prems by (rule observe_late_keeps)
  then show ?case using Cons.IH
    by (cases "observe_late H W c t"; cases "fst (observe_late H W c t)") (auto intro!: tkeeps_sbind tkeeps_event)
qed simp

lemma drain_late_futures_keeps: "tkeeps s t \<Longrightarrow> tkeeps s (snd (drain_late_futures H W ps acc t))"
  unfolding drain_late_futures_def Let_def by (auto intro!: tkeeps_sbind drain_late_keeps)

lemma run_phase_keeps:
  assumes "tkeeps s t" and "run_phase H W ps cs auths t = Some (r, t')"
  shows "tkeeps s t'"
proof -
  let ?a = "admit_phase H W ps auths cs t"
  have "tkeeps s (snd ?a)" using assms(1) by (rule admit_phase_keeps)
  with assms(2) phase_loop_keeps drain_late_futures_keeps show ?thesis
    by (cases ?a; cases "fst ?a") (auto simp: run_phase_def Let_def split: if_splits option.splits sum.splits prod.splits, (metis snd_conv)+)
qed

lemma register_all_keeps: "tkeeps s t \<Longrightarrow> tkeeps s (snd (register_all H cs t))"
  by (induction cs arbitrary: t) (auto intro!: tkeeps_sbind tkeeps_calls)

lemma authorize_all_keeps: "tkeeps s t \<Longrightarrow> tkeeps s (snd (authorize_all H ps hs cs t))"
proof (induction cs arbitrary: t)
  case (Cons c cs)
  show ?case unfolding authorize_all.simps by (intro tkeeps_sbind tkeeps_calls Cons.prems) (simp_all add: Cons.IH)
qed simp

lemma record_receipts_keeps: "tkeeps s t \<Longrightarrow> tkeeps s (snd (record_receipts H W ps pid by_id hs ks acc t))"
proof (induction ks arbitrary: acc t)
  case (Cons k ks)
  show ?case
  proof (cases "map_of by_id k")
    case (Some c)
    obtain x u where r: "sched (record_phase_receipt H (c_lease_id c) hs (ps_receipt_at ps k)) t = (x, u)" by fastforce
    then have "tkeeps s u" using tkeeps_calls(4) [OF Cons.prems, of H "c_lease_id c" hs] by (metis snd_conv)
    with Some r Cons.IH show ?thesis by (cases x) auto
  qed (use Cons.prems in simp)
qed simp

lemma close_phase_keeps: "tkeeps s t \<Longrightarrow> tkeeps s (snd (close_phase H W p hs cs auths pa acc t))"
  unfolding close_phase_def Let_def by (simp split: if_split) (intro impI tkeeps_sbind record_receipts_keeps, simp_all)

text \<open>How an iteration ends: in an exception or a failure before the phase runs, in the phase, or after it.\<close>

lemma run_one_phase_cases:
  assumes "tkeeps s t" and call: "run_one_phase H W pl by_id p acc t = Some (r, t')"
  obtains (early) "tkeeps s t'" "\<forall>b acc'. r = Inr (b, acc') \<longrightarrow> \<not> b \<and> ra_failures acc' \<noteq> []"
  | (phase) cs auths u pa v hs where "tkeeps s u" "run_phase H W (rw_script W (phase_id p)) cs auths u = Some (Inr pa, v)"
      "close_phase H W p hs cs auths pa acc v = (r, t')"
proof -
  let ?ps = "rw_script W (phase_id p)" and ?preds = "filter (\<lambda>r. rc_phase_id r \<in> set (predecessor_phase_ids p)) (ra_receipts acc)"
  let ?hs = "map (h_receipt H) ?preds"
  show thesis
  proof (cases "rmap (dict_get by_id) (contract_ids p)")
    case (Inl e)
    with call assms(1) show ?thesis by (intro early) (auto simp: run_one_phase_def Let_def)
  next
    case templates: (Inr ts)
    show thesis
    proof (cases "\<exists>cs. phase_contracts H W pl p ts ?preds = Inr (Inr cs)")
      case False
      with call templates assms(1) show ?thesis by (intro early) (auto simp: run_one_phase_def Let_def split: sum.splits)
    next
      case True
      then obtain cs where cs: "phase_contracts H W pl p ts ?preds = Inr (Inr cs)" by blast
      obtain x u where u: "register_all H cs t = (x, u)" by fastforce
      then have ku: "tkeeps s u" using register_all_keeps [OF assms(1), of H cs] by simp
      let ?au = "if predecessor_phase_ids p \<noteq> [] then authorize_all H ?ps ?hs cs u else (Inr [], u)"
      obtain y v where v: "?au = (y, v)" by fastforce
      then have kv: "tkeeps s v" using ku authorize_all_keeps [OF ku, of H ?ps ?hs cs] by (metis snd_conv)
      note call = call [unfolded run_one_phase_def Let_def templates sum.case cs u case_prod_conv v]
      show thesis
      proof (cases "\<exists>z auths. x = Inr z \<and> y = Inr auths")
        case True
        then obtain z auths where xy: "x = Inr z" "y = Inr auths" by blast
        note call = call [unfolded xy sum.case]
        obtain q w where q: "run_phase H W ?ps cs auths v = Some (q, w)" using call by (cases "run_phase H W ?ps cs auths v") auto
        have "tkeeps s w" by (rule run_phase_keeps [OF kv q])
        then show ?thesis using call q early phase [OF kv, of cs auths] by (cases q) auto
      next
        case False
        then show ?thesis using call ku kv by (intro early) (cases x; cases y; auto)+
      qed
    qed
  qed
qed

lemma run_one_phase_keeps:
  assumes "tkeeps s t" and "run_one_phase H W pl by_id p acc t = Some (r, t')"
  shows "tkeeps s t'"
  using assms
proof (cases rule: run_one_phase_cases)
  case (phase cs auths u pa v hs)
  from close_phase_keeps [OF run_phase_keeps [OF phase(1,2)], of H W p hs cs auths pa acc] phase(3) show ?thesis by simp
qed

lemma run_phases_keeps: "tkeeps s t \<Longrightarrow> run_phases H W pl by_id ps acc t = Some (r, t') \<Longrightarrow> tkeeps s t'"
proof (induction ps arbitrary: acc t)
  case (Cons p ps)
  from Cons.prems(2) obtain q u where q: "run_one_phase H W pl by_id p acc t = Some (q, u)"
    by (cases "run_one_phase H W pl by_id p acc t") auto
  have "tkeeps s u" by (rule run_one_phase_keeps [OF Cons.prems(1) q])
  with Cons q show ?case by (cases q) (auto split: bool.splits)
qed simp

section \<open>What a run without failures has accepted\<close>

text \<open>While a phase has no failure, no worker is late and every result belongs to a lease the scheduler finished with it.\<close>

definition phase_ok :: "SwarmScheduler \<Rightarrow> phase_acc \<Rightarrow> bool" where
  "phase_ok s acc \<longleftrightarrow> (pa_failures acc = [] \<longrightarrow> pa_late acc = [] \<and> (\<forall>r \<in> set (pa_results acc). owned s r))"

definition run_ok :: "SwarmScheduler \<Rightarrow> run_acc \<Rightarrow> bool" where
  "run_ok s acc \<longleftrightarrow> (ra_failures acc = [] \<longrightarrow> (\<forall>r \<in> set (ra_results acc). owned s r))"

lemma phase_ok_keeps: "keeps s s' \<Longrightarrow> phase_ok s acc \<Longrightarrow> phase_ok s' acc"
  unfolding phase_ok_def using keeps_owned by blast

lemma run_ok_keeps: "keeps s s' \<Longrightarrow> run_ok s acc \<Longrightarrow> run_ok s' acc"
  unfolding run_ok_def using keeps_owned by blast

lemma finish_body_owned:
  assumes "tidy (tm_sched t)" and "finish_body H W tk c t = (Inr (r, []), t')"
  shows "owned (tm_sched t') r"
proof -
  obtain x where x: "rw_execute W c = Inr x" using assms(2) by (auto simp: finish_body_def split: sum.splits)
  let ?u = "sched (observe_terminal_usage (c_lease_id c) (we_usage x) (''terminal-usage:'' @ contract_id c @ '':1'')) t"
  obtain t0 fin t1 t2 where k: "tk_complete tk (contract_id c) = (t0, fin, t1, t2)" by (cases "tk_complete tk (contract_id c)") auto
  obtain y st u where u: "?u = (y, u)" by fastforce
  with assms(2) obtain st where y: "y = Inr st" by (cases y) (auto simp: finish_body_def x)
  have tu: "tidy (tm_sched u)" using tkeeps_calls(7) [OF keeps_refl [OF assms(1)]] u by (metis keepsD(1) snd_conv)
  note call = assms(2) [unfolded finish_body_def x sum.case u y sbind.simps k case_prod_conv]
  have "us_overage_dimensions st = []"
  proof (rule ccontr)
    assume "us_overage_dimensions st \<noteq> []"
    with call show False by (simp only: if_True simp_thms sbind_Inr_iff prod.inject sum.inject list.distinct)
  qed
  with call obtain z where "sched (complete H (c_lease_id c) (we_result x) t0 fin t1 t2) u = (Inr z, t')" "r = we_result x"
    by (simp only: if_False simp_thms sbind_Inr_iff prod.inject sum.inject) blast
  moreover then have "complete H (c_lease_id c) (we_result x) t0 fin t1 t2 (tm_sched u) = (Inr z, tm_sched t')"
    by (auto simp: sched_def split: prod.splits)
  ultimately show ?thesis using complete_owned [OF tu] by blast
qed

lemma finish_worker_ok:
  assumes t: "tidy (tm_sched t)" and "phase_ok (tm_sched t) acc" and call: "finish_worker H W ps tk c acc t = (Inr acc', t')"
  shows "phase_ok (tm_sched t') acc'"
proof -
  obtain b u where b: "finish_body H W tk c t = (b, u)" by fastforce
  have "tkeeps (tm_sched t) u" using finish_body_keeps [OF keeps_refl [OF t], of H W tk c] b by simp
  then have u: "phase_ok (tm_sched u) acc" using assms(2) by (rule phase_ok_keeps)
  show ?thesis
  proof (cases b)
    case (Inl e)
    with call b show ?thesis by (auto simp: finish_worker_def phase_ok_def)
  next
    case (Inr z)
    obtain r fs where z: "z = (r, fs)" by (cases z)
    from call b Inr z obtain d where "record_a2a W (result_event H c r (ps_result_at ps (contract_id c))) u = (Inr d, t')"
      "acc' = acc\<lparr>pa_results := pa_results acc @ [r], pa_events := pa_events acc @ [d], pa_failures := pa_failures acc @ fs\<rparr>"
      by (auto simp: finish_worker_def)
    moreover then have "tm_sched t' = tm_sched u" using record_a2a_sched by (metis snd_conv)
    moreover have "owned (tm_sched u) r" if "fs = []" using finish_body_owned [OF t] b Inr z that by blast
    ultimately show ?thesis using u by (auto simp: phase_ok_def)
  qed
qed

lemma finish_workers_ok:
  "tidy (tm_sched t) \<Longrightarrow> phase_ok (tm_sched t) acc \<Longrightarrow> finish_workers H W ps tk cs acc t = (Inr acc', t') \<Longrightarrow> phase_ok (tm_sched t') acc'"
proof (induction cs arbitrary: acc t)
  case (Cons c cs)
  from Cons.prems(3) obtain acc1 u where u: "finish_worker H W ps tk c acc t = (Inr acc1, u)" "finish_workers H W ps tk cs acc1 u = (Inr acc', t')"
    by auto
  have "tidy (tm_sched u)" using finish_worker_keeps [OF keeps_refl [OF Cons.prems(1)], of H W ps tk c acc] u(1) keepsD(1) by auto
  from Cons.IH [OF this finish_worker_ok [OF Cons.prems(1,2) u(1)] u(2)] show ?case .
qed simp

lemma stop_expired_Nil: "fst (stop_expired W cs lids t) = [] \<longleftrightarrow> lids = []"
  by (cases lids) (auto split: prod.split)

lemma phase_tick_ok:
  assumes t: "tidy (tm_sched t)" and ok: "phase_ok (tm_sched t) acc"
    and call: "phase_tick H W ps cs tk pending acc t = (Inr (pending', acc'), t')"
  shows "phase_ok (tm_sched t') acc'"
proof -
  let ?p = "filter (\<lambda>c. contract_id c \<notin> set (tk_done tk)) pending"
  let ?t = "t\<lparr>tm_sched := beat_all tk ?p (tm_sched t)\<rparr>"
  have k0: "tkeeps (tm_sched t) ?t" using beat_all_keeps [OF keeps_refl [OF t]] by simp
  obtain q u where q: "sched (reap_timeouts (tk_now tk) (tk_fin tk)) ?t = (q, u)" by fastforce
  obtain expired where e: "q = Inr expired" using call q by (cases q) (auto simp: phase_tick_def Let_def)
  obtain fs v where v: "stop_expired W cs expired u = (fs, v)" by fastforce
  have "tkeeps (tm_sched t) u" using tkeeps_calls(6) [OF k0] q by (metis snd_conv)
  then have kv: "tkeeps (tm_sched t) v" using stop_expired_keeps v by (metis snd_conv)
  let ?acc = "acc\<lparr>pa_failures := pa_failures acc @ fs, pa_late := pa_late acc @ filter (\<lambda>c. c_lease_id c \<in> set expired) ?p\<rparr>"
  have "finish_workers H W ps tk (List.map_filter (\<lambda>k. find (\<lambda>c. contract_id c = k) pending) (remdups (tk_done tk))) ?acc v = (Inr acc', t')"
    using call unfolding phase_tick_def Let_def q e sbind.simps v case_prod_conv by auto
  moreover have "phase_ok (tm_sched v) ?acc"
    using phase_ok_keeps [OF kv ok] stop_expired_Nil [of W cs expired u] v by (auto simp: phase_ok_def)
  ultimately show ?thesis using finish_workers_ok [OF keepsD(1) [OF kv]] by blast
qed

lemma phase_loop_ok:
  "tidy (tm_sched t) \<Longrightarrow> phase_ok (tm_sched t) acc \<Longrightarrow> phase_loop H W ps cs ticks pending acc t = Some (Inr acc', t') \<Longrightarrow> phase_ok (tm_sched t') acc'"
proof (induction H W ps cs ticks pending acc t rule: phase_loop.induct)
  case (3 H W ps cs tk ticks p pending acc t)
  obtain x u where x: "phase_tick H W ps cs tk (p # pending) acc t = (x, u)" by fastforce
  with 3(4) obtain pending1 acc1 where y: "x = Inr (pending1, acc1)" by (cases x) auto
  have "tidy (tm_sched u)" using phase_tick_keeps [OF keeps_refl [OF 3(2)]] x keepsD(1) by (metis snd_conv)
  with 3(1) [OF x [symmetric] y refl] phase_tick_ok [OF 3(2,3) x [unfolded y]] 3(4) x y show ?case by simp
qed auto

text \<open>With no failure there is no late worker, so nothing is drained.\<close>

lemma drain_late_failures:
  "drain_late H W ps cs acc t = (Inr acc', t') \<Longrightarrow> pa_failures acc' = [] \<Longrightarrow> pa_failures acc = [] \<and> pa_late acc' = pa_late acc"
proof (induction cs arbitrary: acc t)
  case (Cons c cs)
  obtain o' u where o: "observe_late H W c t = (o', u)" by fastforce
  show ?case
  proof (cases o')
    case None
    with Cons.prems Cons.IH [of "acc\<lparr>pa_failures := pa_failures acc @ [''late_worker_result_invalid:'' @ contract_id c]\<rparr>" u] o
    show ?thesis by simp
  next
    case (Some r)
    with Cons.prems Cons.IH o show ?thesis by fastforce
  qed
qed simp

lemma drain_late_futures_ok:
  assumes "phase_ok (tm_sched t) acc" and call: "drain_late_futures H W ps acc t = (Inr acc', t')"
  shows "phase_ok (tm_sched t') acc'"
  unfolding phase_ok_def
proof
  assume none: "pa_failures acc' = []"
  let ?hung = "filter (\<lambda>c. contract_id c \<notin> set (ps_late ps)) (pa_late acc)"
  let ?fin = "List.map_filter (\<lambda>k. find (\<lambda>c. contract_id c = k) (pa_late acc)) (remdups (ps_late ps))"
  from call obtain acc1 where d: "drain_late H W ps ?fin acc t = (Inr acc1, t')"
    "acc' = acc1\<lparr>pa_failures := pa_failures acc1 @ map (\<lambda>c. ''worker_shutdown_grace_exceeded:'' @ contract_id c) ?hung\<rparr>"
    unfolding drain_late_futures_def Let_def by auto
  from none d(2) have "pa_failures acc1 = []" by simp
  with drain_late_failures [OF d(1)] have acc: "pa_failures acc = []" by simp
  with assms(1) have late: "pa_late acc = []" by (simp add: phase_ok_def)
  then have "?fin = []" by (simp add: map_filter_def)
  with d late have "acc1 = acc" "t' = t" by simp_all
  with d(2) late acc assms(1) show "pa_late acc' = [] \<and> (\<forall>r \<in> set (pa_results acc'). owned (tm_sched t') r)" by (simp add: phase_ok_def)
qed

lemma run_phase_ok:
  assumes t: "tidy (tm_sched t)" and call: "run_phase H W ps cs auths t = Some (Inr pa, t')"
  shows "phase_ok (tm_sched t') pa"
proof -
  obtain x u where x: "admit_phase H W ps auths cs t = (x, u)" by fastforce
  with call obtain ds fs where y: "x = Inr (ds, fs)" by (cases x) (auto simp: run_phase_def)
  let ?acc = "\<lparr>pa_results = [], pa_events = ds, pa_failures = fs, pa_late = []\<rparr>"
  have ok: "phase_ok (tm_sched u) ?acc" by (simp add: phase_ok_def)
  have u: "tidy (tm_sched u)" using admit_phase_keeps [OF keeps_refl [OF t]] x keepsD(1) by (metis snd_conv)
  note call = call [unfolded run_phase_def x y case_prod_conv sum.case Let_def]
  show ?thesis
  proof (cases "fs \<noteq> []")
    case True
    with call ok show ?thesis by auto
  next
    case False
    with call obtain acc1 v where v: "phase_loop H W ps cs (ps_ticks ps) cs ?acc u = Some (Inr acc1, v)" "drain_late_futures H W ps acc1 v = (Inr pa, t')"
      by (auto split: if_splits option.splits sum.splits)
    from drain_late_futures_ok [OF phase_loop_ok [OF u ok v(1)] v(2)] show ?thesis .
  qed
qed

lemma record_receipts_results:
  "record_receipts H W ps pid by_id hs ks acc t = (Inr acc', t') \<Longrightarrow>
     ra_results acc' = ra_results acc \<and> (ra_failures acc' = [] \<longrightarrow> ra_failures acc = [])"
proof (induction ks arbitrary: acc t)
  case (Cons k ks)
  obtain c where c: "map_of by_id k = Some c" using Cons.prems by (cases "map_of by_id k") auto
  obtain x u where r: "sched (record_phase_receipt H (c_lease_id c) hs (ps_receipt_at ps k)) t = (x, u)" by fastforce
  show ?case
  proof (cases x)
    case (Inl e)
    with Cons.prems c r Cons.IH [of "acc\<lparr>ra_failures := ra_failures acc @ [''phase_receipt_invalid:'' @ pid @ '':'' @ rw_exn_text W e]\<rparr>" u]
    show ?thesis by (simp split: if_splits)
  next
    case (Inr rc)
    with Cons.prems c r Cons.IH [of "acc\<lparr>ra_receipts := ra_receipts acc @ [rc]\<rparr>" u] show ?thesis by simp
  qed
qed simp

lemma close_phase_ok:
  assumes t: "tidy (tm_sched t)" and ok: "run_ok (tm_sched t) acc" "phase_ok (tm_sched t) pa"
    and call: "close_phase H W p hs cs auths pa acc t = (Inr (b, acc'), t')"
  shows "run_ok (tm_sched t') acc'"
proof -
  have k: "keeps (tm_sched t) (tm_sched t')"
    using close_phase_keeps [OF keeps_refl [OF t], of H W p hs cs auths pa acc] call by simp
  let ?acc = "acc\<lparr>ra_results := ra_results acc @ pa_results pa, ra_events := ra_events acc @ pa_events pa,
            ra_authorizations := ra_authorizations acc @ map (\<lambda>(k, a). h_authorization H a) auths,
            ra_failures := ra_failures acc @ pa_failures pa @ phase_failures p (pa_results pa)\<rparr>"
  have "run_ok (tm_sched t) ?acc" using ok by (auto simp: run_ok_def phase_ok_def)
  from run_ok_keeps [OF k this] have "run_ok (tm_sched t') ?acc" .
  moreover have "ra_results acc' = ra_results ?acc \<and> (ra_failures acc' = [] \<longrightarrow> ra_failures ?acc = [])"
    using call record_receipts_results [of H W _ "phase_id p" _ hs "contract_ids p" ?acc t acc' t']
    unfolding close_phase_def Let_def by (auto split: if_splits)
  ultimately show ?thesis unfolding run_ok_def by metis
qed

lemma run_phases_ok:
  "tidy (tm_sched t) \<Longrightarrow> run_ok (tm_sched t) acc \<Longrightarrow> run_phases H W pl by_id ps acc t = Some (Inr acc', t') \<Longrightarrow> run_ok (tm_sched t') acc'"
proof (induction ps arbitrary: acc t)
  case (Cons p ps)
  note t = keeps_refl [OF Cons.prems(1)]
  from Cons.prems(3) obtain b acc1 u where q: "run_one_phase H W pl by_id p acc t = Some (Inr (b, acc1), u)"
    by (auto split: option.splits sum.splits prod.splits)
  have u: "tidy (tm_sched u)" using run_one_phase_keeps [OF t q] by (rule keepsD)
  have "run_ok (tm_sched u) acc1"
    using t q
  proof (cases rule: run_one_phase_cases)
    case early
    then show ?thesis by (simp add: run_ok_def)
  next
    case (phase cs auths v pa w hs)
    have kw: "keeps (tm_sched t) (tm_sched w)" by (rule run_phase_keeps [OF phase(1,2)])
    from close_phase_ok [OF keepsD(1) [OF kw] run_ok_keeps [OF kw Cons.prems(2)] run_phase_ok [OF keepsD(1) [OF phase(1)] phase(2)] phase(3)]
    show ?thesis .
  qed
  with Cons.IH [OF u] q Cons.prems(3) show ?case by (auto split: bool.splits)
qed simp

lemma vals_dput_sub: "set (vals (dput k v d)) \<subseteq> insert v (set (vals d))"
  by (induction d) (auto split: if_splits)

lemma dict_by_sub: "set (vals (fold (\<lambda>x. dput (f x) x) xs d)) \<subseteq> set (vals d) \<union> set xs"
proof (induction xs arbitrary: d)
  case (Cons x xs)
  have "set (vals (dput (f x) x d)) \<subseteq> insert x (set (vals d))" by (rule vals_dput_sub)
  with Cons.IH [of "dput (f x) x d"] show ?case by auto
qed simp

lemma lookup_all_sub: "set (lookup_all (dict_by f xs) ids) \<subseteq> set xs"
proof
  fix x assume "x \<in> set (lookup_all (dict_by f xs) ids)"
  then obtain k where "map_of (dict_by f xs) k = Some x" by (auto simp: lookup_all_def map_filter_def)
  then have "x \<in> set (vals (dict_by f xs))" by (rule map_of_in_vals)
  with dict_by_sub [of f xs "[]"] show "x \<in> set xs" by (auto simp: dict_by_def)
qed

section \<open>What the report means\<close>

lemma run_Inr:
  assumes "run H D W g pl cs t = Some (Inr rep, t')" and t: "tidy (tm_sched t)"
  obtains acc u where "tkeeps (tm_sched t) u" "run_ok (tm_sched u) acc" "finish_run H D W g pl acc u = (Inr rep, t')"
proof -
  from assms(1) obtain v acc u where v: "sched (register_plan pl) t = (Inr (), v)"
    and u: "run_phases H W pl (dict_by contract_id cs) (phases pl)
       \<lparr>ra_results = [], ra_receipts = [], ra_events = [], ra_authorizations = [], ra_failures = []\<rparr> v = Some (Inr acc, u)"
    and fin: "finish_run H D W g pl acc u = (Inr rep, t')"
    unfolding run_def Let_def by (auto split: sum.splits prod.splits option.splits)
  have kv: "tkeeps (tm_sched t) v" using tkeeps_calls(1) [OF keeps_refl [OF t]] v by (metis snd_conv)
  have "tkeeps (tm_sched t) u" by (rule run_phases_keeps [OF kv u])
  moreover have "run_ok (tm_sched u) acc" by (rule run_phases_ok [OF keepsD(1) [OF kv] _ u]) (simp add: run_ok_def)
  ultimately show thesis using fin that by blast
qed

text \<open>The two ways a run reports.\<close>

lemma finish_run_cases:
  assumes "finish_run H D W g pl acc u = (Inr rep, t')"
  obtains (accepted) att where "ra_failures acc = []" "rw_attest W (rp_results rep) (rp_phase_receipts rep) = Inr att"
      "evaluate H D g (rp_results rep) (rp_phase_receipts rep) att = Inr (rp_completion rep)" "cd_authorized (rp_completion rep)"
      "rp_results rep = lookup_all (dict_by r_contract_id (ra_results acc)) (expected_ids pl)"
      "t' = u" "rp_failure_reasons rep = []" "rp_cancelled_lease_ids rep = []"
  | (refused) att reason xs v fs where "evaluate H D g (rp_results rep) (rp_phase_receipts rep) att = Inr (rp_completion rep)"
      "ra_failures acc \<noteq> [] \<and> att = None \<or> \<not> cd_authorized (rp_completion rep)"
      "sched (cancel_team reason (rw_cancel_fin W)) u = (Inr xs, v)" "stop_pending W v = (fs, t')"
      "rp_failure_reasons rep = sort (remdups (ra_failures acc @ fs))"
proof -
  let ?ordered = "lookup_all (dict_by r_contract_id (ra_results acc)) (expected_ids pl)"
  from assms obtain att d where att: "(if ra_failures acc = [] then rw_attest W ?ordered (ra_receipts acc) else Inr None) = Inr att"
    and d: "evaluate H D g ?ordered (ra_receipts acc) att = Inr d"
    unfolding finish_run_def Let_def pure_call_def by auto
  note call = assms [unfolded finish_run_def Let_def pure_call_def att sbind.simps d]
  show thesis
  proof (cases "ra_failures acc \<noteq> [] \<or> \<not> cd_authorized d")
    case False
    with call att d show ?thesis by (intro accepted [of att]) auto
  next
    case True
    let ?why = "if ra_failures acc \<noteq> [] then ''phase_execution_failed'' else ''completion_gate_denied''"
    from call True obtain xs v where v: "sched (cancel_team ?why (rw_cancel_fin W)) u = (Inr xs, v)"
      "(case stop_pending W v of (fs, t) \<Rightarrow> (Inr \<lparr>rp_results = ?ordered, rp_completion = d, rp_a2a_event_digests = ra_events acc,
          rp_cancelled_lease_ids = sort (remdups xs), rp_phase_receipts = ra_receipts acc, rp_phase_authorization_hashes = ra_authorizations acc,
          rp_failure_reasons = sort (remdups (ra_failures acc @ fs))\<rparr>, t)) = (Inr rep :: SwarmRunReport result, t')"
      by (simp only: if_True sbind_Inr_iff) (elim exE conjE, rule that)
    obtain fs w where fs: "stop_pending W v = (fs, w)" by fastforce
    with v(2) att d True show ?thesis by (intro refused [OF _ _ v(1)]) (auto split: if_splits)
  qed
qed

text \<open>C6. What an authorized run means: from a reachable scheduler, with a valid plan and a provider that hands out validated
  attestations, an authorized report has no failure and no cancelled lease, the team is as open or closed
  as before, its results and receipts are a complete lineage which the attestation that the provider gave
  for exactly them approves, and every result in it is the one a finished lease of the scheduler holds.\<close>

theorem authorized_run_is_owned:
  assumes reach: "swarm_reachable H b (tm_sched t)" and plan: "mk_SwarmPlan (cg_plan g) = Inr (cg_plan g)"
    and valid: "\<forall>rs rcs a. rw_attest W rs rcs = Inr (Some a) \<longrightarrow> validate_attestation a = Inr a"
    and call: "run H D W g pl cs t = Some (Inr rep, t')" and auth: "cd_authorized (rp_completion rep)"
  shows "rp_failure_reasons rep = [] \<and> rp_cancelled_lease_ids rep = [] \<and> sw_cancelled (tm_sched t') = sw_cancelled (tm_sched t)
    \<and> lineage_complete H (cg_plan g) (rp_results rep) (rp_phase_receipts rep)
    \<and> (\<exists>a. rw_attest W (rp_results rep) (rp_phase_receipts rep) = Inr (Some a)
         \<and> approves H D g (rp_results rep) (rp_phase_receipts rep) a)
    \<and> (\<forall>r \<in> set (rp_results rep). owned (tm_sched t') r)"
proof -
  obtain acc u where u: "tkeeps (tm_sched t) u" "run_ok (tm_sched u) acc" "finish_run H D W g pl acc u = (Inr rep, t')"
    by (rule run_Inr [OF call swarm_reachable_tidy [OF reach]])
  from u(3) show ?thesis
  proof (cases rule: finish_run_cases)
    case (accepted att)
    have v: "validate_attestation a = Inr a" if "att = Some a" for a using valid that accepted(2) by blast
    have "\<forall>r \<in> set (rp_results rep). owned (tm_sched t') r"
    proof
      fix r assume "r \<in> set (rp_results rep)"
      then have "r \<in> set (ra_results acc)" unfolding accepted(5) by (rule subsetD [OF lookup_all_sub])
      then show "owned (tm_sched t') r" using u(2) accepted(1) unfolding run_ok_def accepted(6) by simp
    qed
    moreover have "sw_cancelled (tm_sched t') = sw_cancelled (tm_sched t)" unfolding accepted(6) by (rule keepsD(2) [OF u(1)])
    moreover have "lineage_complete H (cg_plan g) (rp_results rep) (rp_phase_receipts rep)
        \<and> (\<exists>a. att = Some a \<and> approves H D g (rp_results rep) (rp_phase_receipts rep) a)"
      using evaluate_authorized [OF plan v accepted(3)] accepted(4) by blast
    ultimately show ?thesis using accepted(2,7,8) by (elim conjE exE) (intro conjI, simp_all)
  next
    case (refused att reason xs v fs)
    from refused(2) auth have "att = None" by simp
    with evaluate_authorized [OF plan _ refused(1)] auth have False by simp
    then show ?thesis ..
  qed
qed

lemma stop_all_effect:
  assumes "tidy (tm_sched t)" and "stop_all W lids t = (fs, t')" and "map_of (sw_leases (tm_sched t')) i = Some l"
  shows "\<exists>l0. map_of (sw_leases (tm_sched t)) i = Some l0 \<and> w_state l = w_state l0
    \<and> (w_stop_required l \<longrightarrow> w_stop_required l0 \<and> (i \<in> set lids \<longrightarrow> ''worker_stop_not_quiescent:'' @ i \<in> set fs))"
  using assms
proof (induction lids arbitrary: t fs)
  case (Cons lid lids)
  obtain ok t1 where 1: "stop_and_acknowledge W lid t = (ok, t1)" by fastforce
  obtain fs1 t2 where 2: "stop_all W lids t1 = (fs1, t2)" by fastforce
  have t': "t2 = t'" "set fs = (if ok then set fs1 else insert (''worker_stop_not_quiescent:'' @ lid) (set fs1))"
    using Cons.prems(2) 1 2 by auto
  have "tidy (tm_sched t1)" using stop_and_acknowledge_keeps [OF keeps_refl [OF Cons.prems(1)], of W lid] 1 keepsD(1) by (metis snd_conv)
  from Cons.IH [OF this 2 [unfolded t'(1)] Cons.prems(3)] obtain l1 where l1: "map_of (sw_leases (tm_sched t1)) i = Some l1" "w_state l = w_state l1"
    "w_stop_required l \<longrightarrow> w_stop_required l1 \<and> (i \<in> set lids \<longrightarrow> ''worker_stop_not_quiescent:'' @ i \<in> set fs1)" by blast
  have "\<exists>l0. map_of (sw_leases (tm_sched t)) i = Some l0 \<and> w_state l1 = w_state l0
      \<and> (w_stop_required l1 \<longrightarrow> w_stop_required l0 \<and> (i = lid \<longrightarrow> \<not> ok))"
    using 1 l1(1) tidyD(4) [OF Cons.prems(1), of lid]
    by (auto simp: stop_and_acknowledge_def acknowledge_stopped_def put_worker_def split: sum.splits if_splits option.splits prod.splits)
  with l1(2,3) t'(2) show ?case by auto
qed simp

text \<open>C7. A refused run leaves nothing running: from a reachable scheduler whose team is open, when the report does not
  authorize, the team is closed, no lease is active, and every worker the scheduler has not seen stop is
  named in the failure reasons.\<close>

theorem refused_run_closes_team:
  assumes reach: "swarm_reachable H b (tm_sched t)" and opn: "\<not> sw_cancelled (tm_sched t)"
    and call: "run H D W g pl cs t = Some (Inr rep, t')" and refused: "\<not> cd_authorized (rp_completion rep)"
  shows "sw_cancelled (tm_sched t')
    \<and> (\<forall>i l. map_of (sw_leases (tm_sched t')) i = Some l \<longrightarrow> w_state l \<noteq> ACTIVE
         \<and> (w_stop_required l \<longrightarrow> ''worker_stop_not_quiescent:'' @ i \<in> set (rp_failure_reasons rep)))"
proof -
  obtain acc u where u: "tkeeps (tm_sched t) u" "finish_run H D W g pl acc u = (Inr rep, t')"
    by (rule run_Inr [OF call swarm_reachable_tidy [OF reach]])
  from u(2) refused obtain why xs v fs where v: "sched (cancel_team why (rw_cancel_fin W)) u = (Inr xs, v)"
    and fs: "stop_pending W v = (fs, t')" and rep: "rp_failure_reasons rep = sort (remdups (ra_failures acc @ fs))"
    by (cases rule: finish_run_cases) (simp, rule that)
  have ct: "cancel_team why (rw_cancel_fin W) (tm_sched u) = (Inr xs, tm_sched v)" using v by (auto simp: sched_def split: prod.splits)
  have closed: "sw_cancelled (tm_sched v) \<and> (\<forall>i l. map_of (sw_leases (tm_sched v)) i = Some l \<longrightarrow> w_state l \<noteq> ACTIVE)"
    by (rule cancel_team_closes [OF keepsD(1) [OF u(1)] _ ct]) (use keepsD(2) [OF u(1)] opn in simp)
  have tv: "tidy (tm_sched v)" using cancel_team_tidy [OF keepsD(1) [OF u(1)], of why "rw_cancel_fin W"] ct by simp
  have "sw_cancelled (tm_sched t')"
    using keepsD(2) [OF stop_all_keeps [OF keeps_refl [OF tv]]] closed fs unfolding stop_pending_def by (metis snd_conv)
  moreover have "w_state l \<noteq> ACTIVE \<and> (w_stop_required l \<longrightarrow> ''worker_stop_not_quiescent:'' @ i \<in> set (rp_failure_reasons rep))"
    if l: "map_of (sw_leases (tm_sched t')) i = Some l" for i l
  proof -
    obtain l0 where l0: "map_of (sw_leases (tm_sched v)) i = Some l0" "w_state l = w_state l0"
      "w_stop_required l \<longrightarrow> w_stop_required l0 \<and> (i \<in> set (stop_requests (tm_sched v)) \<longrightarrow> ''worker_stop_not_quiescent:'' @ i \<in> set fs)"
      using stop_all_effect [OF tv fs [unfolded stop_pending_def] l] by blast
    moreover have "w_stop_required l0 \<longrightarrow> i \<in> set (stop_requests (tm_sched v))"
      using l0(1) lease_ids [OF tv, of i w_stop_required] unfolding stop_requests_def by blast
    moreover have "set fs \<subseteq> set (rp_failure_reasons rep)" unfolding rep by simp
    moreover have "w_state l0 \<noteq> ACTIVE" using closed l0(1) by simp
    ultimately show ?thesis by (intro conjI impI) (simp, rule subsetD, assumption, simp only:)
  qed
  ultimately show ?thesis by blast
qed

section \<open>Concrete runs\<close>

text \<open>A single builder finishes in the first turn; the scout of a second world is never done, times out, and its runtime
  cannot be stopped.\<close>

definition solo_plan :: SwarmPlan where
  "solo_plan = demo_plan\<lparr>phases := [\<lparr>phase_id = ''b'', phase_role = BUILDER, contract_ids = [''c2''], predecessor_phase_ids = []\<rparr>]\<rparr>"

definition solo_gate :: SwarmCompletionGate where
  "solo_gate = demo_gate\<lparr>cg_plan := solo_plan\<rparr>"

definition demo_tick :: "string list \<Rightarrow> real \<Rightarrow> tick" where
  "demo_tick ks now = \<lparr>tk_done = ks, tk_beat = \<lambda>_. 0, tk_now = now, tk_fin = \<lambda>_. now, tk_complete = \<lambda>_. (0, \<lambda>_. 0, 0, 0),
     tk_cancel = \<lambda>_. 0\<rparr>"

definition demo_world :: "tick list \<Rightarrow> run_world" where
  "demo_world ticks = \<lparr>
     rw_execute = \<lambda>c. Inr \<lparr>we_result = gate_build, we_usage = \<lparr>bu_wall_seconds = 1, bu_tokens = 1, bu_tool_calls = 1, bu_cost = 1\<rparr>\<rparr>,
     rw_stop = \<lambda>_. Inr False,
     rw_attest = \<lambda>_ _. Inr (Some (gate_attestation\<lparr>va_subject_result_hashes := [h_result gate_hashes gate_build]\<rparr>)),
     rw_script = \<lambda>_. \<lparr>ps_bound_at = \<lambda>_. demo_time 3, ps_issued_at = \<lambda>_. demo_time 3, ps_admit = \<lambda>_. (0, \<lambda>_. 0, 0, 0),
        ps_assigned_at = \<lambda>_. demo_time 3, ps_ticks = ticks, ps_late = [], ps_result_at = \<lambda>_. demo_time 6, ps_receipt_at = \<lambda>_. demo_time 6\<rparr>,
     rw_cancel_fin = \<lambda>_. 1000, rw_exn_name = \<lambda>_. ''SwarmStateError'', rw_exn_text = \<lambda>_. ''refused'', rw_reason_text = \<lambda>_. ''denied'',
     rw_event_hash = \<lambda>_. demo_hash\<rparr>"

definition new_team :: team where
  "new_team = \<lparr>tm_sched = demo_start, tm_journal = []\<rparr>"

definition solo_run :: "SwarmRunReport team_call option" where
  "solo_run = run gate_hashes gate_digest (demo_world [demo_tick [''c2''] 0]) solo_gate solo_plan [demo_contract] new_team"

definition hung_run :: "SwarmRunReport team_call option" where
  "hung_run = run gate_hashes gate_digest (demo_world [demo_tick [] 1000]) demo_gate demo_plan [demo_scout, demo_contract] new_team"

lemma new_team_reachable: "swarm_reachable gate_hashes demo_team (tm_sched new_team)"
proof -
  have "mk_TeamBudget demo_team = Inr demo_team" by code_simp
  moreover have "new_swarm demo_team demo_identity ''boss'' 30 = Inr demo_start" by code_simp
  ultimately show ?thesis by (simp add: swarm_reachable.start new_team_def)
qed

lemma demo_runs:
  "case solo_run of Some (Inr rep, t) \<Rightarrow> cd_authorized (rp_completion rep) \<and> map r_contract_id (rp_results rep) = [''c2''] | _ \<Rightarrow> False"
  "case hung_run of Some (Inr rep, t) \<Rightarrow> \<not> cd_authorized (rp_completion rep)
     \<and> (case map_of (sw_leases (tm_sched t)) ''l1'' of Some l \<Rightarrow> w_stop_required l | None \<Rightarrow> False) | _ \<Rightarrow> False"
  by code_simp+

theorem authorized_run_is_owned_witness:
  "\<exists>rep t. solo_run = Some (Inr rep, t) \<and> map r_contract_id (rp_results rep) = [''c2'']
     \<and> rp_failure_reasons rep = [] \<and> (\<forall>r \<in> set (rp_results rep). owned (tm_sched t) r)"
proof -
  from demo_runs(1) obtain rep t where r: "solo_run = Some (Inr rep, t)" "cd_authorized (rp_completion rep)"
    "map r_contract_id (rp_results rep) = [''c2'']" by (auto split: option.splits prod.splits sum.splits)
  have plan: "mk_SwarmPlan (cg_plan solo_gate) = Inr (cg_plan solo_gate)" by code_simp
  have "validate_attestation (gate_attestation\<lparr>va_subject_result_hashes := [h_result gate_hashes gate_build]\<rparr>)
      = Inr (gate_attestation\<lparr>va_subject_result_hashes := [h_result gate_hashes gate_build]\<rparr>)" by code_simp
  then have att: "\<forall>rs rcs a. rw_attest (demo_world ticks) rs rcs = Inr (Some a) \<longrightarrow> validate_attestation a = Inr a" for ticks
    by (simp add: demo_world_def)
  from authorized_run_is_owned [OF new_team_reachable plan att r(1) [unfolded solo_run_def] r(2)]
  have "rp_failure_reasons rep = []" "\<forall>r \<in> set (rp_results rep). owned (tm_sched t) r" by blast+
  with r(1,3) show ?thesis by (intro exI conjI)
qed

theorem refused_run_closes_team_witness:
  "\<exists>rep t. hung_run = Some (Inr rep, t) \<and> sw_cancelled (tm_sched t) \<and> ''worker_stop_not_quiescent:'' @ ''l1'' \<in> set (rp_failure_reasons rep)"
proof -
  from demo_runs(2) obtain rep t l where r: "hung_run = Some (Inr rep, t)" "\<not> cd_authorized (rp_completion rep)"
    "map_of (sw_leases (tm_sched t)) ''l1'' = Some l" "w_stop_required l" by (auto split: option.splits prod.splits sum.splits)
  have "\<not> sw_cancelled (tm_sched new_team)" by (simp add: new_team_def demo_start_def)
  from refused_run_closes_team [OF new_team_reachable this r(1) [unfolded hung_run_def] r(2)] r(3,4)
  have "sw_cancelled (tm_sched t)" "''worker_stop_not_quiescent:'' @ ''l1'' \<in> set (rp_failure_reasons rep)" by blast+
  with r(1) show ?thesis by blast
qed

end
