(* ===== verification/Routing.thy ===== *)
theory Routing
  imports Prelude
begin

text \<open>
  Graded model selection (\<open>src/skharness/autocode/\<close>: \<open>grading.py\<close>, \<open>buckets.py\<close>, \<open>routing_guard.py\<close>,
  \<open>grader_pin.py\<close>, \<open>escalation.py\<close>): a model's grading reply is parsed into a grade, the grade's capability class and
  sensitivity zone address a bucket of the gateway, and the ledger reports how often a bigger class served.

  Python values that may be anything are \<^typ>\<open>json\<close>. A dict's keys are strings. \<open>json.loads\<close> is the parameter
  \<open>loads\<close> (\<open>None\<close> is its \<open>JSONDecodeError\<close>). \<open>str(x)\<close> of a value that is not a string is never one of the
  words compared with here, and is left out.
\<close>

section \<open>The vocabulary\<close>

text \<open>\<open>data/joule-grade-vocabulary.json\<close>: values, with their ranks in this order.\<close>

definition SIZE_VALUES :: "string list" where
  "SIZE_VALUES = [''S'', ''M'', ''L'', ''XL'']"

definition RISK_VALUES :: "string list" where
  "RISK_VALUES = [''low'', ''med'', ''high'', ''crit'']"

definition SENSITIVITY_VALUES :: "string list" where
  "SENSITIVITY_VALUES = [''public'', ''internal'', ''secret'']"

definition CLASS :: "string list" where
  "CLASS = [''S'', ''M'', ''L'', ''XL'']"

fun rank_in :: "string list \<Rightarrow> string \<Rightarrow> nat option" where
  "rank_in [] v = None"
| "rank_in (x # xs) v = (if v = x then Some 0 else map_option Suc (rank_in xs v))"

section \<open>Parsing a grading reply\<close>

text \<open>\<open>str.upper\<close> on ASCII; the other code points below 256 never reach a vocabulary word.\<close>

definition py_upper_char :: "char \<Rightarrow> char" where
  "py_upper_char c = (let n = (of_char c :: nat) in if 97 \<le> n \<and> n \<le> 122 then char_of (n - 32) else c)"

definition py_upper :: "string \<Rightarrow> string" where
  "py_upper s = map py_upper_char s"

text \<open>What follows the first occurrence of a string, and what precedes it.\<close>

fun split_at_first :: "string \<Rightarrow> string \<Rightarrow> (string \<times> string) option" where
  "split_at_first sep [] = (if sep = [] then Some ([], []) else None)"
| "split_at_first sep (c # cs) = (if prefix sep (c # cs) then Some ([], drop (length sep) (c # cs))
     else map_option (\<lambda>(a, b). (c # a, b)) (split_at_first sep cs))"

text \<open>\<open>_FENCE_RE.findall\<close>: the texts between a fence, with an optional tag \<open>json\<close> and white space after it, and
  the next fence.\<close>

definition fence :: string where
  "fence = replicate 3 (CHR 0x60)"

definition after_tag :: "string \<Rightarrow> string" where
  "after_tag s = dropWhile py_isspace (if py_lower (take 4 s) = ''json'' then drop 4 s else s)"

lemma split_at_first_shorter: "split_at_first sep s = Some (a, b) \<Longrightarrow> sep \<noteq> [] \<Longrightarrow> length b < length s"
proof (induction s arbitrary: a b)
  case (Cons c cs)
  show ?case
  proof (cases "prefix sep (c # cs)")
    case True
    with Cons.prems show ?thesis by (cases sep) auto
  next
    case False
    with Cons.prems obtain a' where "split_at_first sep cs = Some (a', b)" by auto
    with Cons.IH [of a' b] Cons.prems(2) show ?thesis by simp
  qed
qed simp

lemma after_tag_shorter: "length (after_tag s) \<le> length s"
  unfolding after_tag_def by (rule order_trans [OF length_dropWhile_le]) simp

function fences :: "string \<Rightarrow> string list" where
  "fences s = (case split_at_first fence s of None \<Rightarrow> []
     | Some (_, r) \<Rightarrow> (case split_at_first fence (after_tag r) of None \<Rightarrow> [] | Some (t, r') \<Rightarrow> t # fences r'))"
  by pat_completeness auto
termination
proof (relation "measure length", goal_cases)
  case (2 s p a r p' t r')
  have "fence \<noteq> []" by (simp add: fence_def)
  with 2 split_at_first_shorter [of fence s a r] split_at_first_shorter [of fence "after_tag r" t r'] after_tag_shorter [of r]
  show ?case by (cases p; cases p') simp
qed simp

declare fences.simps [simp del]

definition candidate_texts :: "string \<Rightarrow> string list" where
  "candidate_texts raw = fences raw @ [raw]"

text \<open>\<open>_OBJECT_RE.search\<close>: from the first opening brace to the last closing one.\<close>

definition braced :: "string \<Rightarrow> string option" where
  "braced s = (case rev (dropWhile (\<lambda>c. c \<noteq> CHR ''}'') (rev (dropWhile (\<lambda>c. c \<noteq> CHR ''{'') s))) of
     [] \<Rightarrow> None | t \<Rightarrow> Some t)"

definition try_parse_object :: "(string \<Rightarrow> json option) \<Rightarrow> string \<Rightarrow> json option" where
  "try_parse_object loads text =
     (let t = py_strip text in
      if t = [] then None
      else case loads t of Some v \<Rightarrow> Some v
        | None \<Rightarrow> (case braced t of None \<Rightarrow> None | Some b \<Rightarrow> loads b))"

definition has_grade_keys :: "payload \<Rightarrow> bool" where
  "has_grade_keys d \<longleftrightarrow> {''size'', ''risk'', ''sensitivity''} \<subseteq> set (map (py_lower \<circ> py_strip) (keys d))"

definition select_grade_source :: "json option \<Rightarrow> payload option" where
  "select_grade_source obj =
     (case obj of Some (JObj d) \<Rightarrow>
        (if has_grade_keys d then Some d
         else case map_of d ''grade'' of Some (JObj n) \<Rightarrow> if has_grade_keys n then Some n else None | _ \<Rightarrow> None)
      | _ \<Rightarrow> None)"

text \<open>\<open>{str(k).strip().lower(): v for k, v in source.items()}\<close>: the last of equal keys wins.\<close>

definition lowered :: "payload \<Rightarrow> payload" where
  "lowered d = fold (\<lambda>(k, v). dput (py_lower (py_strip k)) v) d []"

fun word_in :: "string list \<Rightarrow> (string \<Rightarrow> string) \<Rightarrow> json option \<Rightarrow> string option" where
  "word_in vs cased (Some (JStr s)) = (if cased (py_strip s) \<in> set vs then Some (cased (py_strip s)) else None)"
| "word_in vs cased _ = None"

record grade =
  g_size :: string
  g_risk :: string
  g_sensitivity :: string

definition grade_of :: "payload \<Rightarrow> grade option" where
  "grade_of source =
     (let d = lowered source in
      case (word_in SIZE_VALUES py_upper (map_of d ''size''), word_in RISK_VALUES py_lower (map_of d ''risk''),
            word_in SENSITIVITY_VALUES py_lower (map_of d ''sensitivity'')) of
        (Some s, Some r, Some n) \<Rightarrow> Some \<lparr>g_size = s, g_risk = r, g_sensitivity = n\<rparr>
      | _ \<Rightarrow> None)"

fun first_grade :: "(string \<Rightarrow> json option) \<Rightarrow> string list \<Rightarrow> grade option" where
  "first_grade loads [] = None"
| "first_grade loads (t # ts) =
     (case Option.bind (select_grade_source (try_parse_object loads t)) grade_of of
        Some g \<Rightarrow> Some g | None \<Rightarrow> first_grade loads ts)"

fun parse_grade :: "(string \<Rightarrow> json option) \<Rightarrow> json \<Rightarrow> grade option" where
  "parse_grade loads (JStr raw) = (if blank raw then None else first_grade loads (candidate_texts raw))"
| "parse_grade loads _ = None"

text \<open>\<open>CLASS[max(size_rank, risk_rank)]\<close>.\<close>

definition model_class_for :: "string \<Rightarrow> string \<Rightarrow> string result" where
  "model_class_for sz risk =
     (let s = py_upper (py_strip sz); r = py_lower (py_strip risk) in
      if py_upper r \<in> set SIZE_VALUES then Inl (ValueError ''risk must not reuse a size label'')
      else case rank_in SIZE_VALUES s of None \<Rightarrow> Inl (ValueError ''unknown size'')
        | Some i \<Rightarrow> (case rank_in RISK_VALUES r of None \<Rightarrow> Inl (ValueError ''unknown risk'')
          | Some j \<Rightarrow> Inr (CLASS ! max i j)))"

section \<open>Buckets\<close>

definition BUCKET_CLASSES :: "string list" where
  "BUCKET_CLASSES = [''s'', ''m'', ''l'', ''xl'']"

definition BUCKET_SENSITIVITIES :: "string list" where
  "BUCKET_SENSITIVITIES = [''public'', ''internal'', ''secret'']"

definition wire :: "string \<Rightarrow> string \<Rightarrow> string" where
  "wire c z = ''sk-'' @ c @ ''-'' @ z"

definition bucket_pairs :: "(string \<times> string) list" where
  "bucket_pairs = concat (map (\<lambda>c. map (Pair c) BUCKET_SENSITIVITIES) BUCKET_CLASSES)"

text \<open>\<open>BUCKET_RE.match\<close> with its two groups in lower case. The anchor \<open>$\<close> also matches before one final line
  feed.\<close>

definition re_end :: "string \<Rightarrow> string" where
  "re_end s = (if s \<noteq> [] \<and> last s = CHR 0x0A then butlast s else s)"

definition bucket_match :: "string \<Rightarrow> (string \<times> string) option" where
  "bucket_match s = find (\<lambda>(c, z). re_end (py_lower s) = wire c z) bucket_pairs"

fun validate_bucket :: "json \<Rightarrow> string result" where
  "validate_bucket (JStr b) = check
     [(b \<noteq> py_lower b, BucketError ''bucket id must be lowercase on the wire''),
      (bucket_match b = None, BucketError ''refusing to send: it does not match the skgateway bucket grammar'')] (Inr b)"
| "validate_bucket _ = Inl (BucketError ''bucket id must be a string'')"

fun bucket_id :: "json \<Rightarrow> json \<Rightarrow> string result" where
  "bucket_id (JStr model_class) (JStr sensitivity) =
     (let c = py_lower (py_strip model_class); z = py_lower (py_strip sensitivity) in check
        [(c \<notin> set BUCKET_CLASSES, BucketError ''unknown model_class''),
         (z \<notin> set BUCKET_SENSITIVITIES, BucketError ''unknown sensitivity'')]
        (validate_bucket (JStr (wire c z))))"
| "bucket_id _ _ = Inl (BucketError ''model_class and sensitivity must both be strings'')"

fun work_grade :: "json \<Rightarrow> json option" where
  "work_grade (JObj p) = (case map_of p ''work_grade'' of Some (JObj g) \<Rightarrow> Some (JObj g) | _ \<Rightarrow> None)"
| "work_grade _ = None"

fun bucket_for_grade :: "json \<Rightarrow> string result" where
  "bucket_for_grade (JObj g) =
     (case (map_of g ''model_class'', map_of g ''sensitivity'') of
        (Some c, Some z) \<Rightarrow> bucket_id c z
      | _ \<Rightarrow> Inl (BucketError ''work grade is missing model_class and/or sensitivity''))"
| "bucket_for_grade _ = Inl (BucketError ''work grade must be a dict'')"

definition bucket_for_payload :: "json \<Rightarrow> string option result" where
  "bucket_for_payload p = (case work_grade p of None \<Rightarrow> Inr None | Some g \<Rightarrow> rbind (bucket_for_grade g) (\<lambda>b. Inr (Some b)))"

definition ungraded_floor_bucket :: "string result" where
  "ungraded_floor_bucket = bucket_id (JStr ''s'') (JStr ''secret'')"

definition zone_of :: "string \<Rightarrow> string result" where
  "zone_of b = rbind (validate_bucket (JStr b)) (\<lambda>b.
     case bucket_match b of None \<Rightarrow> Inl (BucketError ''unparseable bucket'') | Some (c, z) \<Rightarrow> Inr z)"

text \<open>\<open>SENSITIVITY_RANK\<close> counts up in the order of the zones.\<close>

definition is_wider_than :: "string \<Rightarrow> string \<Rightarrow> bool result" where
  "is_wider_than b other = rbind (zone_of b) (\<lambda>z. rbind (zone_of other) (\<lambda>z'.
     case (rank_in BUCKET_SENSITIVITIES z, rank_in BUCKET_SENSITIVITIES z') of
       (Some i, Some j) \<Rightarrow> Inr (i < j) | _ \<Rightarrow> Inl (KeyError z)))"

section \<open>The write of the routing layer\<close>

definition ROUTING_ONLY_FIELDS :: "string list" where
  "ROUTING_ONLY_FIELDS = [''model'']"

fun assert_routing_field :: "json \<Rightarrow> string result" where
  "assert_routing_field (JStr n) = (if n \<in> set ROUTING_ONLY_FIELDS then Inr n else Inl (RoutingScopeViolation ''routing refused to set it''))"
| "assert_routing_field _ = Inl (RoutingScopeViolation ''routing refused to set it'')"

text \<open>A brief is its attributes. \<open>attr\<close> is the value of \<open>DISPATCH_MODEL_ATTR\<close> at the time of the call.\<close>

definition attach_dispatch_model :: "json \<Rightarrow> payload \<Rightarrow> string option \<Rightarrow> payload result" where
  "attach_dispatch_model attr brief model_id =
     rbind (case model_id of None \<Rightarrow> Inr '''' | Some b \<Rightarrow> validate_bucket (JStr b)) (\<lambda>_.
     rbind (assert_routing_field attr) (\<lambda>f.
       Inr (dput f (case model_id of None \<Rightarrow> JNull | Some b \<Rightarrow> JStr b) brief)))"

definition dispatch_model_of :: "payload \<Rightarrow> json" where
  "dispatch_model_of brief = (case map_of brief ''model'' of None \<Rightarrow> JNull | Some v \<Rightarrow> v)"

text \<open>The grader inherits the zone of the build and runs at a fixed class.\<close>

definition GRADER_CAPABILITY_CLASS :: string where
  "GRADER_CAPABILITY_CLASS = ''m''"

definition grader_bucket :: "json \<Rightarrow> string option result" where
  "grader_bucket build =
     (if build = JNull then Inr None
      else rbind (validate_bucket build) (\<lambda>b. case bucket_match b of None \<Rightarrow> Inl (BucketError ''unparseable bucket'')
        | Some (c, z) \<Rightarrow> rbind (bucket_id (JStr GRADER_CAPABILITY_CLASS) (JStr z)) (\<lambda>b. Inr (Some b))))"

section \<open>Which strings are buckets\<close>

definition wire_bucket :: "string \<Rightarrow> bool" where
  "wire_bucket b \<longleftrightarrow> (\<exists>c \<in> set BUCKET_CLASSES. \<exists>z \<in> set BUCKET_SENSITIVITIES. b = wire c z)"

lemma in_bucket_pairs: "(c, z) \<in> set bucket_pairs \<longleftrightarrow> c \<in> set BUCKET_CLASSES \<and> z \<in> set BUCKET_SENSITIVITIES"
  by (auto simp: bucket_pairs_def)

text \<open>The twelve ids are pairwise different, in lower case, without white space at their ends.\<close>

lemma wire_facts:
  "list_all (\<lambda>(c, z). list_all (\<lambda>(c', z'). wire c z = wire c' z' \<longrightarrow> c = c' \<and> z = z') bucket_pairs) bucket_pairs"
  "list_all (\<lambda>(c, z). py_lower (wire c z) = wire c z \<and> py_lower c = c \<and> py_lower z = z \<and> py_strip c = c \<and> py_strip z = z
     \<and> wire c z \<noteq> [] \<and> last (wire c z) \<noteq> CHR 0x0A \<and> py_strip (wire c z) = wire c z) bucket_pairs"
  by code_simp+

lemma wire_inj:
  assumes "c \<in> set BUCKET_CLASSES" "z \<in> set BUCKET_SENSITIVITIES" "c' \<in> set BUCKET_CLASSES" "z' \<in> set BUCKET_SENSITIVITIES"
  shows "wire c z = wire c' z' \<longleftrightarrow> c = c' \<and> z = z'"
  using wire_facts(1) assms unfolding list_all_iff by (fastforce simp: in_bucket_pairs)

lemma wire_lower:
  assumes "c \<in> set BUCKET_CLASSES" "z \<in> set BUCKET_SENSITIVITIES"
  shows "py_lower (wire c z) = wire c z" "py_lower c = c" "py_lower z = z" "py_strip c = c" "py_strip z = z" "wire c z \<noteq> []"
    "last (wire c z) \<noteq> CHR 0x0A" "py_strip (wire c z) = wire c z"
  using wire_facts(2) assms unfolding list_all_iff by (fastforce simp: in_bucket_pairs)+

lemma bucket_match_iff:
  "bucket_match s = Some (c, z) \<longleftrightarrow> c \<in> set BUCKET_CLASSES \<and> z \<in> set BUCKET_SENSITIVITIES \<and> re_end (py_lower s) = wire c z"
proof
  assume "bucket_match s = Some (c, z)"
  then show "c \<in> set BUCKET_CLASSES \<and> z \<in> set BUCKET_SENSITIVITIES \<and> re_end (py_lower s) = wire c z"
    unfolding bucket_match_def find_Some_iff using in_bucket_pairs by (metis (mono_tags, lifting) case_prodD nth_mem)
next
  assume r: "c \<in> set BUCKET_CLASSES \<and> z \<in> set BUCKET_SENSITIVITIES \<and> re_end (py_lower s) = wire c z"
  then have "bucket_match s \<noteq> None" unfolding bucket_match_def find_None_iff using in_bucket_pairs by auto
  then obtain c' z' where f: "bucket_match s = Some (c', z')" by auto
  then have "c' \<in> set BUCKET_CLASSES \<and> z' \<in> set BUCKET_SENSITIVITIES \<and> re_end (py_lower s) = wire c' z'"
    unfolding bucket_match_def find_Some_iff using in_bucket_pairs by (metis (mono_tags, lifting) case_prodD nth_mem)
  with r wire_inj f show "bucket_match s = Some (c, z)" by auto
qed

lemma bucket_match_wire:
  "c \<in> set BUCKET_CLASSES \<Longrightarrow> z \<in> set BUCKET_SENSITIVITIES \<Longrightarrow> bucket_match (wire c z) = Some (c, z)"
  using wire_lower by (simp add: bucket_match_iff re_end_def)

lemma validate_wire:
  "c \<in> set BUCKET_CLASSES \<Longrightarrow> z \<in> set BUCKET_SENSITIVITIES \<Longrightarrow> validate_bucket (JStr (wire c z)) = Inr (wire c z)"
  by (simp add: bucket_match_wire wire_lower)

text \<open>What the outgoing check lets through: exactly the twelve bucket ids, each also with one line feed after it. The
  gateway's grammar has only the twelve, so the others reach its default route, with no ceiling on who
  may see the card.\<close>

theorem validate_bucket_exact:
  "validate_bucket (JStr b) = Inr b' \<longleftrightarrow> b' = b \<and> (wire_bucket b \<or> (\<exists>w. wire_bucket w \<and> b = w @ [CHR 0x0A]))"
proof -
  have nl: "py_lower_char (CHR 0x0A) = CHR 0x0A" by code_simp
  have "b = py_lower b \<and> re_end (py_lower b) = wire c z \<longleftrightarrow> b = wire c z \<or> b = wire c z @ [CHR 0x0A]"
    if "c \<in> set BUCKET_CLASSES" "z \<in> set BUCKET_SENSITIVITIES" for c z
  proof -
    note w = wire_lower [OF that]
    have "b = wire c z @ [CHR 0x0A]" if "b \<noteq> []" "last b = CHR 0x0A" "butlast b = wire c z"
      using that by (metis append_butlast_last_id)
    then show ?thesis using w nl unfolding re_end_def by (auto simp: py_lower_def)
  qed
  then have "b = py_lower b \<and> bucket_match b \<noteq> None \<longleftrightarrow> wire_bucket b \<or> (\<exists>w. wire_bucket w \<and> b = w @ [CHR 0x0A])"
    unfolding wire_bucket_def by (auto simp: bucket_match_iff) blast+
  then show ?thesis by auto
qed

end
