(* ===== verification/Sensitivity.thy ===== *)
theory Sensitivity
  imports Routing
begin

text \<open>
  Who may see a card (\<open>src/skharness/autocode/sensitivity.py\<close>). The rules are regular expressions; which of their reasons
  a text sets off is the parameter \<open>rx_hits\<close>, per list of rules, and \<open>rx_number\<close> is the text of a number. The
  sentences of the reasons are kept as constructors.
\<close>

datatype rule_list = LITERAL_RULES | SECRET_RULES | AMBIGUOUS_RULES

record rule_texts =
  rx_hits :: "rule_list \<Rightarrow> string \<Rightarrow> string list"
  rx_number :: "real \<Rightarrow> string"

datatype sensitivity_reason =
    NotADict
  | HumanOverride string
  | NoReadableText
  | SecretRepo string
  | SecretTag string
  | TextContains string
  | TextNames string
  | TextAmbiguous string
  | TakesTheStricter
  | NothingMatched

definition TEXT_FIELDS :: "string list" where
  "TEXT_FIELDS = [''title'', ''description'', ''notes'', ''acceptance_criteria'', ''acceptance'', ''tags'', ''repo'']"

definition SECRET_REPOS :: "string list" where
  "SECRET_REPOS = [''capauth'', ''sksecurity'', ''skvault'', ''skingest'', ''skseal'', ''sksso'', ''sk_pgp'', ''sk-pgp'', ''skpgp'']"

definition SECRET_TAGS :: "string list" where
  "SECRET_TAGS = [''secrets'', ''secrets-lifecycle'', ''ep-secrets-lifecycle'', ''secrets-purge'', ''tier0-secrets'', ''credentials'',
     ''key-custody'', ''root-key'', ''key-transparency'', ''ep-key-transparency'', ''metadata-privacy'', ''security-sensitive'',
     ''vault-refactor'', ''vault-file'', ''hashicorp-vault'', ''capauth'', ''skvault'', ''pgp'', ''sk-pgp'', ''prekey'',
     ''authentik'', ''dataplane-auth'']"

text \<open>\<open>_flatten\<close>: the first argument counts the levels left (\<open>5 - depth\<close>); values below them are not read.\<close>

fun flatten :: "rule_texts \<Rightarrow> nat \<Rightarrow> json \<Rightarrow> string list" where
  "flatten T 0 v = []"
| "flatten T (Suc n) (JStr s) = [s]"
| "flatten T (Suc n) (JObj d) = concat (map (\<lambda>(k, v). k # flatten T n v) d)"
| "flatten T (Suc n) (JArr xs) = concat (map (flatten T n) xs)"
| "flatten T (Suc n) (JNum x) = [rx_number T x]"
| "flatten T (Suc n) _ = []"

definition field_texts :: "rule_texts \<Rightarrow> payload \<Rightarrow> string \<Rightarrow> string list" where
  "field_texts T task f = (case map_of task f of None \<Rightarrow> [] | Some v \<Rightarrow> flatten T 5 v)"

definition card_text :: "rule_texts \<Rightarrow> payload \<Rightarrow> string" where
  "card_text T task = py_join [CHR 0x0A] (concat (map (field_texts T task) TEXT_FIELDS))"

definition card_tags :: "rule_texts \<Rightarrow> payload \<Rightarrow> string list" where
  "card_tags T task = map (py_lower \<circ> py_strip) (filter (\<lambda>t. \<not> blank t) (field_texts T task ''tags''))"

definition repo_of_tag :: "string \<Rightarrow> string option" where
  "repo_of_tag tag = (if prefix ''repo:'' tag \<or> prefix ''repo-'' tag then Some (py_strip (drop 5 tag)) else None)"

definition repo_names :: "rule_texts \<Rightarrow> payload \<Rightarrow> string list" where
  "repo_names T task = filter (\<lambda>n. n \<noteq> [])
     (map (py_lower \<circ> py_strip) (field_texts T task ''repo'') @ List.map_filter repo_of_tag (card_tags T task))"

text \<open>An override that is not a word of the vocabulary raises; \<open>null\<close> is no override.\<close>

definition read_override :: "payload \<Rightarrow> string option result" where
  "read_override task =
     (case map_of task ''meta'' of Some (JObj m) \<Rightarrow>
        (case map_of m ''sensitivity_override'' of
           None \<Rightarrow> Inr None
         | Some JNull \<Rightarrow> Inr None
         | Some (JStr s) \<Rightarrow> (if py_lower (py_strip s) \<in> set SENSITIVITY_VALUES then Inr (Some (py_lower (py_strip s)))
             else Inl (ValueError ''meta.sensitivity_override is not a sensitivity value''))
         | Some _ \<Rightarrow> Inl (ValueError ''meta.sensitivity_override is not a sensitivity value''))
      | _ \<Rightarrow> Inr None)"

definition secret_reasons :: "rule_texts \<Rightarrow> payload \<Rightarrow> sensitivity_reason list" where
  "secret_reasons T task =
     (let raw = card_text T task in
      map SecretRepo (sort (remdups (filter (\<lambda>n. n \<in> set SECRET_REPOS) (repo_names T task))))
      @ map SecretTag (sort (remdups (filter (\<lambda>t. t \<in> set SECRET_TAGS) (card_tags T task))))
      @ map TextContains (rx_hits T LITERAL_RULES raw) @ map TextNames (rx_hits T SECRET_RULES (py_lower raw)))"

fun classify_sensitivity :: "rule_texts \<Rightarrow> json \<Rightarrow> (string \<times> sensitivity_reason list) result" where
  "classify_sensitivity T (JObj task) =
     rbind (read_override task) (\<lambda>ov. case ov of
       Some s \<Rightarrow> Inr (s, [HumanOverride s])
     | None \<Rightarrow>
         (if blank (py_lower (card_text T task)) then Inr (''secret'', [NoReadableText])
          else if secret_reasons T task \<noteq> [] then Inr (''secret'', secret_reasons T task)
          else (let amb = rx_hits T AMBIGUOUS_RULES (py_lower (card_text T task)) in
            if amb \<noteq> [] then Inr (''secret'', map TextAmbiguous amb @ [TakesTheStricter])
            else Inr (''internal'', [NothingMatched]))))"
| "classify_sensitivity T _ = Inr (''secret'', [NotADict])"

section \<open>What the verdict means\<close>

lemma read_override_Inr:
  assumes "read_override task = Inr (Some s)"
  shows "s \<in> set SENSITIVITY_VALUES \<and> (\<exists>m o'. map_of task ''meta'' = Some (JObj m) \<and> map_of m ''sensitivity_override'' = Some (JStr o')
    \<and> s = py_lower (py_strip o'))"
  using assms unfolding read_override_def by (auto split: option.splits json.splits if_splits)

lemma classify_word: "classify_sensitivity T v = Inr (s, rs) \<Longrightarrow> s \<in> set SENSITIVITY_VALUES \<and> rs \<noteq> []"
proof (induction T v rule: classify_sensitivity.induct)
  case (1 T task)
  have v: "''secret'' \<in> set SENSITIVITY_VALUES" "''internal'' \<in> set SENSITIVITY_VALUES" by (simp_all add: SENSITIVITY_VALUES_def)
  from 1 obtain ov where ov: "read_override task = Inr ov" by (cases "read_override task") auto
  show ?case
  proof (cases ov)
    case (Some x)
    with 1 ov read_override_Inr [of task x] show ?thesis by auto
  qed (use 1 ov v in \<open>auto simp: Let_def split: if_splits\<close>)
qed (auto simp: SENSITIVITY_VALUES_def)

text \<open>C10. A card is public only by hand: whatever its text, the verdict is a word of the vocabulary with at least one reason;
  it is public exactly when a human wrote that override on the card; and a card that carries no override
  and mentions a secret repository or tag, or anything that a rule of any list reacts to, or has no
  readable text, is secret.\<close>

theorem public_only_by_override:
  assumes "classify_sensitivity T (JObj task) = Inr (s, rs)"
  shows "s \<in> set SENSITIVITY_VALUES \<and> rs \<noteq> [] \<and> (s = ''public'' \<longleftrightarrow> read_override task = Inr (Some ''public''))
    \<and> (read_override task = Inr None \<and> (blank (py_lower (card_text T task)) \<or> secret_reasons T task \<noteq> []
         \<or> rx_hits T AMBIGUOUS_RULES (py_lower (card_text T task)) \<noteq> []) \<longrightarrow> s = ''secret'')"
proof (cases "read_override task")
  case (Inr ov)
  have v: "''secret'' \<in> set SENSITIVITY_VALUES" "''internal'' \<in> set SENSITIVITY_VALUES" by (simp_all add: SENSITIVITY_VALUES_def)
  show ?thesis
  proof (cases ov)
    case (Some x)
    with assms Inr read_override_Inr [of task x] show ?thesis by auto
  next
    case None
    with assms Inr v show ?thesis by (auto simp: Let_def split: if_splits)
  qed
qed (use assms in simp)

end
