(* ===== verification/Dispatch.thy ===== *)
theory Dispatch
  imports Sensitivity
begin

text \<open>
  From a card to a dispatched model (\<open>src/skharness/autocode/\<close>: \<open>orchestrator.py\<close>, \<open>escalation.py\<close>): the work grade of
  a card, the quality its review may not fall below, and the report on escalations. A card is a dict.
\<close>

section \<open>The work grade\<close>

definition grade_payload :: "string \<Rightarrow> string \<Rightarrow> string \<Rightarrow> string \<Rightarrow> json" where
  "grade_payload sz rk sn c = JObj [(''size'', JStr sz), (''risk'', JStr rk), (''sensitivity'', JStr sn), (''model_class'', JStr c)]"

text \<open>\<open>size\<close> and \<open>risk\<close> are those of the verdict; every exception leaves the card ungraded.\<close>

definition work_grade_for :: "rule_texts \<Rightarrow> payload \<Rightarrow> string option \<Rightarrow> string option \<Rightarrow> json option" where
  "work_grade_for T task sz rk =
     (case (sz, rk) of (Some s, Some r) \<Rightarrow>
        (if s = [] \<or> r = [] then None
         else case rbind (classify_sensitivity T (JObj task)) (\<lambda>(z, _). rbind (model_class_for s r) (\<lambda>c. Inr (grade_payload s r z c))) of
           Inl _ \<Rightarrow> None | Inr g \<Rightarrow> Some g)
      | _ \<Rightarrow> None)"

fun nonempty_str :: "json option \<Rightarrow> string option" where
  "nonempty_str (Some (JStr s)) = (if s = [] then None else Some s)"
| "nonempty_str _ = None"

definition stored_work_grade :: "payload \<Rightarrow> json option" where
  "stored_work_grade task =
     (case map_of task ''meta'' of Some (JObj m) \<Rightarrow>
        (case map_of m ''grade'' of Some (JObj g) \<Rightarrow>
           (case (nonempty_str (map_of g ''size''), nonempty_str (map_of g ''risk''), nonempty_str (map_of g ''sensitivity''),
                  nonempty_str (map_of g ''model_class'')) of
              (Some s, Some r, Some n, Some c) \<Rightarrow> Some (grade_payload s r n c)
            | _ \<Rightarrow> None)
         | _ \<Rightarrow> None)
      | _ \<Rightarrow> None)"

text \<open>The part of \<open>_to_workitem\<close> that carries the grade.\<close>

definition item_payload :: "payload \<Rightarrow> json option \<Rightarrow> payload" where
  "item_payload task wg =
     dput ''work_grade'' (case (case wg of None \<Rightarrow> stored_work_grade task | Some g \<Rightarrow> Some g) of None \<Rightarrow> JNull | Some g \<Rightarrow> g) task"

section \<open>Quality\<close>

datatype QualityMode = GATED | DIRECT | NONE

fun QUALITY_RANK :: "QualityMode \<Rightarrow> nat" where
  "QUALITY_RANK NONE = 0"
| "QUALITY_RANK DIRECT = 1"
| "QUALITY_RANK GATED = 2"

text \<open>\<open>coerce_quality\<close>: anything that is not a mode is gated.\<close>

definition coerce_quality :: "string option \<Rightarrow> QualityMode" where
  "coerce_quality v = (case map_option (py_lower \<circ> py_strip) v of
     Some q \<Rightarrow> if q = ''direct'' then DIRECT else if q = ''none'' then NONE else GATED | None \<Rightarrow> GATED)"

record quality_config =
  default_quality :: "string option"
  min_quality :: "(string \<times> string option) list"

definition tag_value :: "string \<Rightarrow> string list \<Rightarrow> string list" where
  "tag_value p tags = map (drop (length p)) (filter (prefix p) tags)"

definition repo_tag :: "string list \<Rightarrow> string option" where
  "repo_tag tags = (case tag_value ''repo:'' tags of [r] \<Rightarrow> Some r | _ \<Rightarrow> None)"

definition quality_from_tags :: "string list \<Rightarrow> QualityMode option" where
  "quality_from_tags tags = (case tag_value ''quality:'' tags of [] \<Rightarrow> None | q # _ \<Rightarrow> Some (coerce_quality (Some q)))"

definition repo_floor :: "string list \<Rightarrow> quality_config option \<Rightarrow> QualityMode option" where
  "repo_floor tags cfg =
     (case repo_tag tags of None \<Rightarrow> None | Some r \<Rightarrow> if r = [] then None else (case cfg of None \<Rightarrow> None
      | Some c \<Rightarrow> (case map_of (min_quality c) r of Some (Some q) \<Rightarrow> Some (coerce_quality (Some q)) | _ \<Rightarrow> None)))"

definition operator_quality_baseline :: "string list \<Rightarrow> quality_config option \<Rightarrow> QualityMode" where
  "operator_quality_baseline tags cfg =
     (let q = coerce_quality (case cfg of None \<Rightarrow> None | Some c \<Rightarrow> default_quality c) in
      case repo_floor tags cfg of None \<Rightarrow> q | Some f \<Rightarrow> if QUALITY_RANK f > QUALITY_RANK q then f else q)"

definition resolve_quality :: "string list \<Rightarrow> quality_config option \<Rightarrow> QualityMode" where
  "resolve_quality tags cfg =
     (let baseline = operator_quality_baseline tags cfg in
      case quality_from_tags tags of None \<Rightarrow> baseline
      | Some t \<Rightarrow> if QUALITY_RANK t \<le> QUALITY_RANK baseline then baseline else t)"

definition classify_kind :: "string list \<Rightarrow> string \<Rightarrow> quality_config option \<Rightarrow> string" where
  "classify_kind tags source cfg =
     (if list_ex (prefix ''repo:'') tags
      then (if resolve_quality tags cfg = DIRECT then ''engineering-direct'' else ''engineering'')
      else case map_of [(''itil'', ''ops''), (''email'', ''research''), (''telegram'', ''research''), (''order'', ''orders''),
          (''calendar'', ''calendar'')] source of None \<Rightarrow> ''engineering'' | Some k \<Rightarrow> k)"

text \<open>Which items an executor takes. The repositories of the configuration are those in \<open>repo_map\<close>; \<open>acceptable\<close> is the
  truth of \<open>acceptance or deliverable\<close> for the gated executor and of the stripped description for the direct one.\<close>

definition resolve_repo :: "string list \<Rightarrow> (string \<times> 'r) list \<Rightarrow> 'r option" where
  "resolve_repo tags repo_map = (case tag_value ''repo:'' tags of [r] \<Rightarrow> map_of repo_map r | _ \<Rightarrow> None)"

definition selectable :: "string list \<Rightarrow> bool \<Rightarrow> string \<Rightarrow> bool \<Rightarrow> (string \<times> 'r) list \<Rightarrow> bool" where
  "selectable tags unblocked verdict acceptable repo_map \<longleftrightarrow> unblocked \<and> verdict = ''valid''
     \<and> ''autopilot-untriaged'' \<notin> set tags \<and> resolve_repo tags repo_map \<noteq> None \<and> acceptable"

section \<open>Escalation\<close>

datatype escalation = ESCALATED | WITHIN_FLOOR | UNOBSERVED

fun escalation_value :: "escalation \<Rightarrow> string" where
  "escalation_value ESCALATED = ''escalated''"
| "escalation_value WITHIN_FLOOR = ''within_floor''"
| "escalation_value UNOBSERVED = ''unobserved''"

fun served_class :: "json \<Rightarrow> string option" where
  "served_class (JStr s) = map_option fst (bucket_match (py_strip s))"
| "served_class _ = None"

fun floor_class :: "json \<Rightarrow> string option" where
  "floor_class (JObj g) = (case map_of g ''model_class'' of
      Some (JStr s) \<Rightarrow> (if py_lower (py_strip s) \<in> set BUCKET_CLASSES then Some (py_lower (py_strip s)) else None)
    | _ \<Rightarrow> None)"
| "floor_class _ = None"

definition classify :: "json \<Rightarrow> json \<Rightarrow> escalation \<times> string option \<times> string option" where
  "classify g served =
     (let fl = floor_class g; sv = served_class served in
      (case (Option.bind fl (rank_in BUCKET_CLASSES), Option.bind sv (rank_in BUCKET_CLASSES)) of
         (Some i, Some j) \<Rightarrow> if j > i then ESCALATED else WITHIN_FLOOR
       | _ \<Rightarrow> UNOBSERVED, fl, sv))"

fun clean_reason :: "json \<Rightarrow> string option" where
  "clean_reason (JStr s) = (if py_strip s = [] then None else Some (py_strip s))"
| "clean_reason _ = None"

fun reason_from_payload :: "json \<Rightarrow> string option" where
  "reason_from_payload (JObj p) = Option.bind (map_of p ''escalation_reason'') clean_reason"
| "reason_from_payload _ = None"

definition opt_json :: "string option \<Rightarrow> json" where
  "opt_json v = (case v of None \<Rightarrow> JNull | Some s \<Rightarrow> JStr s)"

definition escalation_row :: "json \<Rightarrow> json \<Rightarrow> json \<Rightarrow> payload" where
  "escalation_row g served reason =
     (case classify g served of (st, fl, sv) \<Rightarrow>
        [(''escalation_state'', JStr (escalation_value st)), (''escalation_floor_class'', opt_json fl),
         (''escalation_served_class'', opt_json sv), (''escalation_reason'', opt_json (clean_reason reason))])"

text \<open>The report. \<open>x in ESCALATION_STATES\<close> raises for a list or a dict, and the handler around the loop ends it there.\<close>

record stratum =
  sm_rows :: nat
  sm_escalated :: nat
  sm_within :: nat
  sm_unobserved :: nat
  sm_unexplained :: nat

definition empty_stratum :: stratum where
  "empty_stratum = \<lparr>sm_rows = 0, sm_escalated = 0, sm_within = 0, sm_unobserved = 0, sm_unexplained = 0\<rparr>"

fun row_state :: "json option \<Rightarrow> escalation option" where
  "row_state (Some (JArr _)) = None"
| "row_state (Some (JObj _)) = None"
| "row_state (Some (JStr s)) = Some (if s = ''escalated'' then ESCALATED else if s = ''within_floor'' then WITHIN_FLOOR else UNOBSERVED)"
| "row_state _ = Some UNOBSERVED"

definition row_class :: "payload \<Rightarrow> string option" where
  "row_class row = (case map_of row ''escalation_floor_class'' of
     Some (JStr c) \<Rightarrow> if c \<in> set BUCKET_CLASSES then Some c else None | _ \<Rightarrow> None)"

definition count_row :: "payload \<Rightarrow> escalation \<Rightarrow> stratum \<Rightarrow> stratum" where
  "count_row row st m = m\<lparr>sm_rows := sm_rows m + 1,
     sm_escalated := sm_escalated m + of_bool (st = ESCALATED), sm_within := sm_within m + of_bool (st = WITHIN_FLOOR),
     sm_unobserved := sm_unobserved m + of_bool (st = UNOBSERVED),
     sm_unexplained := sm_unexplained m + of_bool (st = ESCALATED
       \<and> Option.bind (map_of row ''escalation_reason'') clean_reason = None)\<rparr>"

fun count_rows :: "json list \<Rightarrow> (string \<times> stratum) list \<Rightarrow> stratum \<Rightarrow> nat \<Rightarrow> (string \<times> stratum) list \<times> stratum \<times> nat" where
  "count_rows [] by_class totals ungraded = (by_class, totals, ungraded)"
| "count_rows (JObj row # rows) by_class totals ungraded =
     (case row_class row of None \<Rightarrow> count_rows rows by_class totals (ungraded + 1)
      | Some c \<Rightarrow> (case row_state (map_of row ''escalation_state'') of None \<Rightarrow> (by_class, totals, ungraded)
         | Some st \<Rightarrow> count_rows rows
             (dput c (count_row row st (case map_of by_class c of None \<Rightarrow> empty_stratum | Some m \<Rightarrow> m)) by_class)
             (count_row row st totals) ungraded))"
| "count_rows (_ # rows) by_class totals ungraded = count_rows rows by_class totals ungraded"

record finished_stratum =
  fs_counts :: stratum
  fs_observed :: nat
  fs_fraction :: real
  fs_rate :: "real option"

definition finish_stratum :: "stratum \<Rightarrow> finished_stratum" where
  "finish_stratum m =
     (let observed = sm_escalated m + sm_within m in
      \<lparr>fs_counts = m, fs_observed = observed,
       fs_fraction = (if sm_rows m > 0 then real observed / real (sm_rows m) else 0),
       fs_rate = (if observed > 0 then Some (real (sm_escalated m) / real observed) else None)\<rparr>)"

definition escalation_rates :: "json list \<Rightarrow> (string \<times> finished_stratum) list \<times> finished_stratum \<times> nat" where
  "escalation_rates rows =
     (case count_rows rows [] empty_stratum 0 of (by_class, totals, ungraded) \<Rightarrow>
        (map (\<lambda>(c, m). (c, finish_stratum m)) (sort_key fst by_class), finish_stratum totals, ungraded))"

section \<open>What is dispatched\<close>

lemma rank_in_Some: "rank_in xs v = Some i \<Longrightarrow> i < length xs \<and> xs ! i = v"
  by (induction xs arbitrary: i) (auto split: if_splits)

lemma rank_in_mem: "v \<in> set xs \<Longrightarrow> \<exists>i. rank_in xs v = Some i"
  by (induction xs) auto

lemma rank_in_less: "rank_in xs v = Some i \<Longrightarrow> i < length xs"
  using rank_in_Some by blast

lemma grade_of_Some:
  assumes "grade_of d = Some g"
  shows "g_size g \<in> set SIZE_VALUES \<and> g_risk g \<in> set RISK_VALUES \<and> g_sensitivity g \<in> set SENSITIVITY_VALUES"
proof -
  have "w \<in> set vs" if "word_in vs cased v = Some w" for vs cased v w
    using that by (cases "(vs, cased, v)" rule: word_in.cases) (auto split: if_splits)
  then show ?thesis using assms unfolding grade_of_def Let_def by (auto split: option.splits)
qed

lemma parse_grade_Some:
  assumes "parse_grade loads reply = Some g"
  shows "g_size g \<in> set SIZE_VALUES \<and> g_risk g \<in> set RISK_VALUES \<and> g_sensitivity g \<in> set SENSITIVITY_VALUES"
proof -
  have "first_grade loads ts = Some g \<Longrightarrow> ?thesis" for ts
    by (induction ts) (auto split: option.splits simp: bind_eq_Some_conv intro: grade_of_Some dest: grade_of_Some)
  with assms show ?thesis by (cases reply) (auto split: if_splits)
qed

lemma vocabulary_words:
  "s \<in> set SIZE_VALUES \<Longrightarrow> py_upper (py_strip s) = s \<and> s \<noteq> []"
  "r \<in> set RISK_VALUES \<Longrightarrow> py_lower (py_strip r) = r \<and> r \<noteq> [] \<and> py_upper r \<notin> set SIZE_VALUES"
  "z \<in> set SENSITIVITY_VALUES \<Longrightarrow> py_lower (py_strip z) = z \<and> z \<in> set BUCKET_SENSITIVITIES"
proof -
  have "list_all (\<lambda>s. py_upper (py_strip s) = s \<and> s \<noteq> []) SIZE_VALUES"
    "list_all (\<lambda>r. py_lower (py_strip r) = r \<and> r \<noteq> [] \<and> py_upper r \<notin> set SIZE_VALUES) RISK_VALUES"
    "list_all (\<lambda>z. py_lower (py_strip z) = z \<and> z \<in> set BUCKET_SENSITIVITIES) SENSITIVITY_VALUES" by code_simp+
  then show "s \<in> set SIZE_VALUES \<Longrightarrow> py_upper (py_strip s) = s \<and> s \<noteq> []"
    "r \<in> set RISK_VALUES \<Longrightarrow> py_lower (py_strip r) = r \<and> r \<noteq> [] \<and> py_upper r \<notin> set SIZE_VALUES"
    "z \<in> set SENSITIVITY_VALUES \<Longrightarrow> py_lower (py_strip z) = z \<and> z \<in> set BUCKET_SENSITIVITIES"
    by (auto simp: list_all_iff)
qed

lemma class_of_rank:
  "list_all (\<lambda>i. py_lower (py_strip (CLASS ! i)) = BUCKET_CLASSES ! i \<and> rank_in BUCKET_CLASSES (BUCKET_CLASSES ! i) = Some i) [0, 1, 2, 3]"
  by code_simp

lemma bucket_id_wire:
  assumes "py_lower (py_strip c) \<in> set BUCKET_CLASSES" "py_lower (py_strip z) \<in> set BUCKET_SENSITIVITIES"
  shows "bucket_id (JStr c) (JStr z) = Inr (wire (py_lower (py_strip c)) (py_lower (py_strip z)))"
  using assms validate_wire [OF assms] by (simp add: Let_def del: validate_bucket.simps)

text \<open>C8. A graded card runs where its grade says: when the reply parses to a grade and the rules give the card a zone, the
  card gets a work grade, and the model attached to its brief is the bucket of that zone whose class has the
  greater of the ranks of size and risk; the grader of its work is addressed in the same zone at the fixed
  class, and a run that this bucket serves is no escalation.\<close>

theorem graded_card_dispatch:
  assumes reply: "parse_grade loads reply = Some g" and zone: "classify_sensitivity T (JObj task) = Inr (z, rs)"
  shows "\<exists>c i j wg b. rank_in SIZE_VALUES (g_size g) = Some i \<and> rank_in RISK_VALUES (g_risk g) = Some j
    \<and> rank_in BUCKET_CLASSES c = Some (max i j) \<and> work_grade_for T task (Some (g_size g)) (Some (g_risk g)) = Some wg
    \<and> bucket_for_payload (JObj (item_payload task (Some wg))) = Inr (Some (wire c z))
    \<and> attach_dispatch_model (JStr ''model'') brief (Some (wire c z)) = Inr b \<and> dispatch_model_of b = JStr (wire c z)
    \<and> grader_bucket (dispatch_model_of b) = Inr (Some (wire ''m'' z))
    \<and> classify wg (JStr (wire c z)) = (WITHIN_FLOOR, Some c, Some c)"
proof -
  note G = parse_grade_Some [OF reply]
  have z: "z \<in> set SENSITIVITY_VALUES" using classify_word [OF zone] by blast
  note W = vocabulary_words(1) [of "g_size g"] vocabulary_words(2) [of "g_risk g"] vocabulary_words(3) [OF z]
  obtain i j where ij: "rank_in SIZE_VALUES (g_size g) = Some i" "rank_in RISK_VALUES (g_risk g) = Some j"
    using rank_in_mem G by metis
  then have m: "max i j \<in> set [0, 1, 2, 3]" using rank_in_less [OF ij(1)] rank_in_less [OF ij(2)]
    by (auto simp: SIZE_VALUES_def RISK_VALUES_def max_def)
  let ?c = "BUCKET_CLASSES ! max i j"
  have c: "py_lower (py_strip (CLASS ! max i j)) = ?c" "rank_in BUCKET_CLASSES ?c = Some (max i j)"
    using class_of_rank m unfolding list_all_iff by blast+
  have cb: "?c \<in> set BUCKET_CLASSES" using m by (auto simp: BUCKET_CLASSES_def)
  let ?wg = "grade_payload (g_size g) (g_risk g) z (CLASS ! max i j)"
  have mc: "model_class_for (g_size g) (g_risk g) = Inr (CLASS ! max i j)"
    using W G ij by (simp add: model_class_for_def Let_def)
  have wg: "work_grade_for T task (Some (g_size g)) (Some (g_risk g)) = Some ?wg"
    using W G zone mc by (simp add: work_grade_for_def del: classify_sensitivity.simps)
  have id: "bucket_id (JStr (CLASS ! max i j)) (JStr z) = Inr (wire ?c z)"
    using bucket_id_wire [of "CLASS ! max i j" z] c cb W(3) by (simp del: bucket_id.simps)
  have gm: "bucket_id (JStr ''m'') (JStr z) = Inr (wire ''m'' z)"
  proof -
    have "py_lower (py_strip ''m'') = ''m''" "''m'' \<in> set BUCKET_CLASSES" by code_simp+
    with bucket_id_wire [of "''m''" z] W(3) show ?thesis by (simp del: bucket_id.simps)
  qed
  have zb: "z \<in> set BUCKET_SENSITIVITIES" using W(3) by simp
  let ?b = "dput ''model'' (JStr (wire ?c z)) brief"
  have "bucket_for_payload (JObj (item_payload task (Some ?wg))) = Inr (Some (wire ?c z))"
    using id by (simp add: bucket_for_payload_def item_payload_def grade_payload_def del: bucket_id.simps)
  moreover have "attach_dispatch_model (JStr ''model'') brief (Some (wire ?c z)) = Inr ?b"
    using validate_wire [OF cb zb] by (simp add: attach_dispatch_model_def ROUTING_ONLY_FIELDS_def del: validate_bucket.simps)
  moreover have "dispatch_model_of ?b = JStr (wire ?c z)" by (simp add: dispatch_model_of_def)
  moreover have "grader_bucket (JStr (wire ?c z)) = Inr (Some (wire ''m'' z))"
    using validate_wire [OF cb zb] bucket_match_wire [OF cb zb] gm
    by (simp add: grader_bucket_def GRADER_CAPABILITY_CLASS_def del: validate_bucket.simps bucket_id.simps)
  moreover have "classify ?wg (JStr (wire ?c z)) = (WITHIN_FLOOR, Some ?c, Some ?c)"
    using c cb bucket_match_wire [OF cb zb] wire_lower(8) [OF cb zb] by (simp add: classify_def grade_payload_def Let_def)
  ultimately show ?thesis using ij c(2) wg by metis
qed

definition demo_texts :: rule_texts where
  "demo_texts = \<lparr>rx_hits = (\<lambda>g t. if g = SECRET_RULES \<and> py_in ''password'' t then [''a password''] else []), rx_number = (\<lambda>_. ''0'')\<rparr>"

definition demo_card :: payload where
  "demo_card = [(''title'', JStr ''rename a helper''), (''tags'', JArr [JStr ''repo:skos''])]"

definition demo_loads :: "string \<Rightarrow> json option" where
  "demo_loads s = Some (JObj [(''Size'', JStr ''s''), (''risk'', JStr ''High''), (''sensitivity'', JStr ''public'')])"

theorem public_only_by_override_witness:
  "\<exists>s rs. classify_sensitivity demo_texts (JObj [(''title'', JStr ''rotate the password'')]) = Inr (s, rs) \<and> s = ''secret''"
proof -
  let ?task = "[(''title'', JStr ''rotate the password'')]"
  have c: "classify_sensitivity demo_texts (JObj ?task) = Inr (''secret'', [TextNames ''a password''])" by code_simp
  have "read_override ?task = Inr None" "secret_reasons demo_texts ?task \<noteq> []" by code_simp+
  with public_only_by_override [OF c] c show ?thesis by blast
qed

theorem graded_card_dispatch_witness:
  "\<exists>wg. work_grade_for demo_texts demo_card (Some ''S'') (Some ''high'') = Some wg
     \<and> bucket_for_payload (JObj (item_payload demo_card (Some wg))) = Inr (Some (wire ''l'' ''internal''))"
proof -
  let ?g = "\<lparr>g_size = ''S'', g_risk = ''high'', g_sensitivity = ''public''\<rparr>"
  have p: "parse_grade demo_loads (JStr ''{}'') = Some ?g" by code_simp
  have c: "classify_sensitivity demo_texts (JObj demo_card) = Inr (''internal'', [NothingMatched])" by code_simp
  have r: "rank_in SIZE_VALUES ''S'' = Some 0" "rank_in RISK_VALUES ''high'' = Some 2" by code_simp+
  have l: "rank_in BUCKET_CLASSES c = Some (max 0 2) \<Longrightarrow> c = ''l''" for c
    by (auto simp: BUCKET_CLASSES_def split: if_splits)
  from graded_card_dispatch [OF p c, of "[]"] r l show ?thesis by auto
qed

section \<open>Review cannot be lowered by a card\<close>


definition demo_quality :: quality_config where
  "demo_quality = \<lparr>default_quality = Some ''direct'', min_quality = [(''skos'', Some ''none'')]\<rparr>"


section \<open>The escalation report\<close>

text \<open>What the report should count: the rows of dicts that have a class, per class and together.\<close>

fun row_of :: "json \<Rightarrow> payload option" where
  "row_of (JObj r) = Some r"
| "row_of _ = None"

definition graded_rows :: "json list \<Rightarrow> (string \<times> payload) list" where
  "graded_rows rows = List.map_filter (\<lambda>v. Option.bind (row_of v) (\<lambda>r. map_option (\<lambda>c. (c, r)) (row_class r))) rows"

definition ungraded_rows :: "json list \<Rightarrow> nat" where
  "ungraded_rows rows = length (filter (\<lambda>v. case row_of v of None \<Rightarrow> False | Some r \<Rightarrow> row_class r = None) rows)"

definition tally :: "payload list \<Rightarrow> stratum" where
  "tally rs =
     (let st = (\<lambda>r. row_state (map_of r ''escalation_state'')) in
      \<lparr>sm_rows = length rs, sm_escalated = length (filter (\<lambda>r. st r = Some ESCALATED) rs),
       sm_within = length (filter (\<lambda>r. st r = Some WITHIN_FLOOR) rs), sm_unobserved = length (filter (\<lambda>r. st r = Some UNOBSERVED) rs),
       sm_unexplained = length (filter (\<lambda>r. st r = Some ESCALATED
          \<and> Option.bind (map_of r ''escalation_reason'') clean_reason = None) rs)\<rparr>)"

definition of_class :: "string \<Rightarrow> (string \<times> payload) list \<Rightarrow> payload list" where
  "of_class c crs = map snd (filter (\<lambda>(c', r). c' = c) crs)"

lemma tally_snoc:
  "row_state (map_of r ''escalation_state'') = Some st \<Longrightarrow> tally (rs @ [r]) = count_row r st (tally rs)"
  by (cases st) (simp_all add: tally_def count_row_def Let_def)

lemma tally_Nil: "tally [] = empty_stratum"
  by (simp add: tally_def empty_stratum_def)

text \<open>After the rows \<open>done\<close>, the counters hold the tallies of those rows.\<close>

definition counted :: "(string \<times> payload) list \<Rightarrow> (string \<times> stratum) list \<Rightarrow> stratum \<Rightarrow> bool" where
  "counted seen by_class totals \<longleftrightarrow> totals = tally (map snd seen) \<and> wf_dict by_class
     \<and> (\<forall>c. map_of by_class c = (if of_class c seen = [] then None else Some (tally (of_class c seen))))"

lemma counted_step:
  assumes "counted seen by_class totals" and "row_state (map_of r ''escalation_state'') = Some st"
  shows "counted (seen @ [(c, r)])
    (dput c (count_row r st (case map_of by_class c of None \<Rightarrow> empty_stratum | Some m \<Rightarrow> m)) by_class) (count_row r st totals)"
proof -
  have m: "(case map_of by_class c of None \<Rightarrow> empty_stratum | Some m \<Rightarrow> m) = tally (of_class c seen)"
    using assms(1) by (simp add: counted_def tally_Nil)
  have o: "of_class c' (seen @ [(c, r)]) = (if c' = c then of_class c seen @ [r] else of_class c' seen)" for c'
    by (simp add: of_class_def)
  show ?thesis using assms(1) unfolding counted_def m o by (simp add: tally_snoc [OF assms(2)])
qed

lemma count_rows_tally:
  assumes "\<forall>(c, r) \<in> set (graded_rows rows). row_state (map_of r ''escalation_state'') \<noteq> None" and "counted seen by_class totals"
    and "count_rows rows by_class totals n = (by_class', totals', n')"
  shows "counted (seen @ graded_rows rows) by_class' totals' \<and> n' = n + ungraded_rows rows"
  using assms
proof (induction rows by_class totals n arbitrary: seen rule: count_rows.induct)
  case (2 row rows by_class totals ungraded)
  show ?case
  proof (cases "row_class row")
    case None
    with 2(1) [OF None, of seen] 2(3-5) show ?thesis by (simp add: graded_rows_def ungraded_rows_def map_filter_simps)
  next
    case (Some c)
    then have g: "graded_rows (JObj row # rows) = (c, row) # graded_rows rows" "ungraded_rows (JObj row # rows) = ungraded_rows rows"
      by (simp_all add: graded_rows_def ungraded_rows_def map_filter_simps)
    with 2(3) obtain st where st: "row_state (map_of row ''escalation_state'') = Some st" by auto
    have h: "\<forall>(c, r) \<in> set (graded_rows rows). row_state (map_of r ''escalation_state'') \<noteq> None" using 2(3) g by auto
    from 2(2) [OF Some st h counted_step [OF 2(4) st]] 2(5) Some st show ?thesis unfolding g by simp
  qed
qed (auto simp: graded_rows_def ungraded_rows_def map_filter_simps)

lemma map_of_sort_key: "wf_dict d \<Longrightarrow> map_of (map (\<lambda>(c, m). (c, f m)) (sort_key fst d)) k = map_option f (map_of d k)"
proof -
  assume d: "wf_dict d"
  have "distinct (keys (sort_key fst d))" using d by (simp add: wf_dict_def distinct_map)
  then have "map_of (sort_key fst d) k = map_of d k" using d unfolding wf_dict_def
    by (metis map_of_eq_Some_iff not_None_eq set_sort)
  then show ?thesis by (simp add: map_of_map)
qed

text \<open>The report is exact while it runs to its end: if no graded row has a list or a dict as its state, then every class
  with a row has the tallies of its rows, the totals are the tallies of all graded rows, ungraded rows are
  counted apart, the classes come in order, and a rate is given exactly where a row was observed.\<close>

theorem escalation_report_exact:
  assumes "\<forall>(c, r) \<in> set (graded_rows rows). row_state (map_of r ''escalation_state'') \<noteq> None"
    and "escalation_rates rows = (by_class, totals, n)"
  shows "n = ungraded_rows rows \<and> totals = finish_stratum (tally (map snd (graded_rows rows))) \<and> sorted (keys by_class)
    \<and> (\<forall>c. map_of by_class c = (if of_class c (graded_rows rows) = [] then None
         else Some (finish_stratum (tally (of_class c (graded_rows rows))))))
    \<and> (fs_rate totals = None \<longleftrightarrow> (\<forall>(c, r) \<in> set (graded_rows rows). row_state (map_of r ''escalation_state'') = Some UNOBSERVED))"
proof -
  obtain bc t n' where r: "count_rows rows [] empty_stratum 0 = (bc, t, n')" by (cases "count_rows rows [] empty_stratum 0")
  have "counted [] [] empty_stratum" by (simp add: counted_def tally_Nil of_class_def)
  from count_rows_tally [OF assms(1) this r] have c: "counted (graded_rows rows) bc t" and n: "n' = ungraded_rows rows" by simp_all
  from assms(2) r have e: "by_class = map (\<lambda>(c, m). (c, finish_stratum m)) (sort_key fst bc)" "totals = finish_stratum t" "n = n'"
    by (simp_all add: escalation_rates_def)
  have bc: "wf_dict bc" "\<And>c. map_of bc c = (if of_class c (graded_rows rows) = [] then None else Some (tally (of_class c (graded_rows rows))))"
    and t: "t = tally (map snd (graded_rows rows))" using c by (auto simp: counted_def)
  have "keys by_class = map fst (sort_key fst bc)" unfolding e by (simp add: comp_def case_prod_beta)
  then have s: "sorted (keys by_class)" by simp
  have st: "x = Some UNOBSERVED \<longleftrightarrow> x \<noteq> Some ESCALATED \<and> x \<noteq> Some WITHIN_FLOOR" if "x \<noteq> None" for x :: "escalation option"
    using that by (cases x; cases "the x") auto
  have "fs_rate totals = None \<longleftrightarrow> (\<forall>(c, r) \<in> set (graded_rows rows). row_state (map_of r ''escalation_state'') \<noteq> Some ESCALATED
      \<and> row_state (map_of r ''escalation_state'') \<noteq> Some WITHIN_FLOOR)"
    unfolding e(2) t by (auto simp: finish_stratum_def tally_def Let_def filter_empty_conv)
  also have "\<dots> \<longleftrightarrow> (\<forall>(c, r) \<in> set (graded_rows rows). row_state (map_of r ''escalation_state'') = Some UNOBSERVED)"
    using assms(1) st by fast
  finally show ?thesis using s n e t bc(2) map_of_sort_key [OF bc(1), of finish_stratum] by auto
qed

lemma count_rows_append:
  "count_rows (as @ bs) d m n = (if \<forall>(c, r) \<in> set (graded_rows as). row_state (map_of r ''escalation_state'') \<noteq> None
     then (case count_rows as d m n of (d, m, n) \<Rightarrow> count_rows bs d m n) else count_rows as d m n)"
  by (induction as d m n rule: count_rows.induct) (auto simp: graded_rows_def map_filter_simps split: option.splits)

text \<open>One malformed row silences the rest: a graded row whose state is a list or a dict ends the report, and it is the
  report of the rows before it, whatever comes after.\<close>

theorem list_state_ends_report:
  assumes "row_class bad \<noteq> None" and "row_state (map_of bad ''escalation_state'') = None"
  shows "escalation_rates (before @ JObj bad # after) = escalation_rates before"
proof -
  obtain c where "row_class bad = Some c" using assms(1) by blast
  then have "count_rows (JObj bad # after) d m n = (d, m, n)" for d m n using assms(2) by simp
  then have "count_rows (before @ JObj bad # after) [] empty_stratum 0 = count_rows before [] empty_stratum 0"
    unfolding count_rows_append by (simp split: prod.split)
  then show ?thesis by (simp only: escalation_rates_def)
qed

definition demo_row :: "string \<Rightarrow> json \<Rightarrow> json" where
  "demo_row c st = JObj [(''escalation_floor_class'', JStr c), (''escalation_state'', st)]"

theorem escalation_report_exact_witness:
  "\<exists>by_class totals n. escalation_rates [demo_row ''s'' (JStr ''escalated''), demo_row ''m'' JNull, JNull] = (by_class, totals, n)
     \<and> n = 0 \<and> fs_rate totals = Some 1"
proof -
  let ?rows = "[demo_row ''s'' (JStr ''escalated''), demo_row ''m'' JNull, JNull]"
  obtain bc t n where r: "escalation_rates ?rows = (bc, t, n)" by (cases "escalation_rates ?rows")
  have h: "\<forall>(c, r) \<in> set (graded_rows ?rows). row_state (map_of r ''escalation_state'') \<noteq> None" by code_simp
  have "ungraded_rows ?rows = 0" "fs_rate (finish_stratum (tally (map snd (graded_rows ?rows)))) = Some 1" by code_simp+
  with escalation_report_exact [OF h r] r show ?thesis by auto
qed

theorem list_state_ends_report_witness:
  "escalation_rates ([] @ JObj [(''escalation_floor_class'', JStr ''s''), (''escalation_state'', JArr [])] # [demo_row ''s'' (JStr ''escalated'')])
   = escalation_rates []"
  by (rule list_state_ends_report; code_simp)

end
