(* ===== verification/Reconcile.thy ===== *)
theory Reconcile
  imports Prelude
begin

text \<open>
  Removing orphaned Docker sandboxes (\<open>src/skharness/autocode/sandbox_lifecycle.py\<close>).

  Docker is the parameter \<open>dw_run\<close>: its reply to a command may depend on the commands before it, so the state is
  the list of commands run so far. The text of an inventory is read by \<open>dw_loads\<close> (\<open>json.loads\<close>; \<open>Inl\<close> is its error
  message) and a time stamp by \<open>dw_iso\<close> (\<open>datetime.fromisoformat\<close> of an aware time). The rounding of
  \<open>last_reconciled_at\<close> to milliseconds and the \<open>repr\<close> quotes of messages are left out.
\<close>

section \<open>Docker\<close>

datatype docker_cmd =
    PS
  | NETWORK_LS
  | INSPECT "string list"
  | NETWORK_INSPECT "string list"
  | RM string
  | NETWORK_RM string

fun cmd_head :: "docker_cmd \<Rightarrow> string" where
  "cmd_head PS = ''ps -a''"
| "cmd_head NETWORK_LS = ''network ls''"
| "cmd_head (INSPECT ids) = ''inspect '' @ (case ids of [] \<Rightarrow> [] | i # _ \<Rightarrow> i)"
| "cmd_head (NETWORK_INSPECT ids) = ''network inspect''"
| "cmd_head (RM i) = ''rm -f''"
| "cmd_head (NETWORK_RM i) = ''network rm''"

datatype docker_reply = Raised string | Exited int string string

record docker_world =
  dw_run :: "docker_cmd list \<Rightarrow> docker_cmd \<Rightarrow> docker_reply"
  dw_docker :: string
  dw_loads :: "string \<Rightarrow> string + json"
  dw_iso :: "string \<Rightarrow> real option"

type_synonym 'a docker_call = "'a \<times> docker_cmd list"

definition checked :: "docker_world \<Rightarrow> docker_cmd \<Rightarrow> docker_cmd list \<Rightarrow> (string + string) docker_call" where
  "checked W c tr =
     (let label = dw_docker W @ '' '' @ cmd_head c @ '': '' in
      (case dw_run W tr c of
         Raised e \<Rightarrow> Inl (label @ e)
       | Exited rc out err \<Rightarrow>
           if rc \<noteq> 0 then Inl (label @ py_strip (if err \<noteq> [] then err else if out \<noteq> [] then out else ''docker command failed''))
           else Inr out,
       tr @ [c]))"

section \<open>Ownership\<close>

definition MAX_INVENTORY :: nat where
  "MAX_INVENTORY = 512"

definition OWNERSHIP_AUTHORITIES :: "string list" where
  "OWNERSHIP_AUTHORITIES = [''ephemeral'', ''lease'']"

definition alnum :: "char \<Rightarrow> bool" where
  "alnum c = (let n = (of_char c :: nat) in (48 \<le> n \<and> n \<le> 57) \<or> (65 \<le> n \<and> n \<le> 90) \<or> (97 \<le> n \<and> n \<le> 122))"

definition run_id_ok :: "string \<Rightarrow> bool" where
  "run_id_ok s = (case s of [] \<Rightarrow> False | c # cs \<Rightarrow>
     alnum c \<and> length cs \<le> 127 \<and> list_all (\<lambda>c. alnum c \<or> c \<in> set ''_.:-'') cs)"

record SandboxOwnership =
  so_run_id :: string
  so_authority :: string

definition mk_SandboxOwnership :: "SandboxOwnership \<Rightarrow> SandboxOwnership result" where
  "mk_SandboxOwnership o' = check
     [(\<not> run_id_ok (so_run_id o'), ValueError ''sandbox run id must be a safe 1-128 character label token''),
      (so_authority o' \<notin> set OWNERSHIP_AUTHORITIES, ValueError ''sandbox ownership authority must be ephemeral or lease'')] (Inr o')"

definition labels :: "SandboxOwnership \<Rightarrow> string \<Rightarrow> (string \<times> string) list result" where
  "labels o' r = check [(r \<notin> {''worker'', ''proxy'', ''network''}, ValueError ''unknown sandbox resource role'')]
     (Inr [(''io.skharness.managed'', ''true''), (''io.skharness.run-id'', so_run_id o'), (''io.skharness.resource-role'', r),
        (''io.skharness.ownership-authority'', so_authority o'), (''io.skharness.lifecycle-schema'', ''1'')])"

definition docker_args :: "SandboxOwnership \<Rightarrow> string \<Rightarrow> string list result" where
  "docker_args o' r = rbind (labels o' r) (\<lambda>ls. Inr (concat (map (\<lambda>(k, v). [''--label'', k @ ''='' @ v]) (sort_key fst ls))))"

record Resource =
  rs_id :: string
  rs_run_id :: string
  rs_role :: string
  rs_authority :: string
  rs_created_at :: "real option"
  rs_running :: bool
  rs_endpoints :: "string list"

text \<open>\<open>d.get(k)\<close>, and \<open>(d.get(k) or {}).get(k')\<close>, which raises for a true value that is not a dict.\<close>

definition jget :: "payload \<Rightarrow> string \<Rightarrow> json" where
  "jget d k = (case map_of d k of None \<Rightarrow> JNull | Some v \<Rightarrow> v)"

definition jget2 :: "payload \<Rightarrow> string \<Rightarrow> string \<Rightarrow> json result" where
  "jget2 d k k' = (if \<not> truthy (jget d k) then Inr JNull
     else case jget d k of JObj e \<Rightarrow> Inr (jget e k') | _ \<Rightarrow> Inl (AttributeError ''get''))"

text \<open>\<open>x in <set of strings>\<close>, which raises for an unhashable value.\<close>

fun in_words :: "string list \<Rightarrow> json \<Rightarrow> bool result" where
  "in_words ws (JStr s) = Inr (s \<in> set ws)"
| "in_words ws (JArr _) = Inl (TypeError ''unhashable type: list'')"
| "in_words ws (JObj _) = Inl (TypeError ''unhashable type: dict'')"
| "in_words ws _ = Inr False"

text \<open>\<open>_owned_labels\<close>: run id, authority and error; \<open>expected\<close> is \<open>None\<close> for a role whose text is none of the three.\<close>

definition owned_labels :: "json \<Rightarrow> string option \<Rightarrow> (string option \<times> string option \<times> string option) result" where
  "owned_labels ls expected =
     (case ls of JObj d \<Rightarrow>
        (if jget d ''io.skharness.managed'' \<noteq> JStr ''true'' then Inr (None, None, Some ''managed resource is missing its ownership label'')
         else if jget d ''io.skharness.lifecycle-schema'' \<noteq> JStr ''1''
         then Inr (None, None, Some ''managed resource has an unknown lifecycle schema'')
         else case jget d ''io.skharness.run-id'' of JStr rid \<Rightarrow>
             (if \<not> run_id_ok rid then Inr (None, None, Some ''managed resource has an invalid run identity'')
              else rbind (in_words OWNERSHIP_AUTHORITIES (jget d ''io.skharness.ownership-authority'')) (\<lambda>ok.
                if \<not> ok then Inr (Some rid, None, Some ''managed resource has an invalid ownership authority'')
                else case jget d ''io.skharness.ownership-authority'' of JStr au \<Rightarrow>
                    (if map_option JStr expected = Some (jget d ''io.skharness.resource-role'') then Inr (Some rid, Some au, None)
                     else Inr (Some rid, Some au, Some ''managed resource role does not match''))
                  | _ \<Rightarrow> Inr (None, None, None)))
           | _ \<Rightarrow> Inr (None, None, Some ''managed resource has an invalid run identity''))
      | _ \<Rightarrow> Inr (None, None, Some ''managed resource is missing its ownership label''))"

fun timestamp :: "docker_world \<Rightarrow> json \<Rightarrow> real option" where
  "timestamp W (JStr s) = (if s = [] then None else dw_iso W s)"
| "timestamp W _ = None"

section \<open>Inventories\<close>

type_synonym inventory = "Resource list \<times> string list"

definition opt_list :: "'a option \<Rightarrow> 'a list" where
  "opt_list v = (case v of None \<Rightarrow> [] | Some x \<Rightarrow> [x])"

fun container_role :: "json \<Rightarrow> json" where
  "container_role (JObj d) = jget d ''io.skharness.resource-role''"
| "container_role _ = JNull"

fun str_option :: "json \<Rightarrow> string option" where
  "str_option (JStr s) = Some s"
| "str_option _ = None"

definition parse_container :: "docker_world \<Rightarrow> json \<Rightarrow> inventory \<Rightarrow> inventory result" where
  "parse_container W v found =
     (case found of (rs, es) \<Rightarrow> (case v of JObj d \<Rightarrow>
        rbind (jget2 d ''Config'' ''Labels'') (\<lambda>ls. let ro = container_role ls in
        rbind (owned_labels ls (str_option ro)) (\<lambda>(rid, au, err).
        case (rid, au) of (Some rid, Some au) \<Rightarrow> rbind (in_words [''worker'', ''proxy''] ro) (\<lambda>known.
            let es = es @ (if err \<noteq> None then opt_list err else if \<not> known then [''managed container has invalid role''] else []) in
            case (known, ro) of
              (True, JStr r) \<Rightarrow>
                (case jget d ''Id'' of JStr i \<Rightarrow>
                   (if i = [] then Inr (rs, es @ [''managed container has no immutable Docker id''])
                    else rbind (jget2 d ''State'' ''Running'') (\<lambda>running.
                      Inr (rs @ [\<lparr>rs_id = i, rs_run_id = rid, rs_role = r, rs_authority = au, rs_created_at = timestamp W (jget d ''Created''),
                         rs_running = truthy running, rs_endpoints = []\<rparr>], es)))
                 | _ \<Rightarrow> Inr (rs, es @ [''managed container has no immutable Docker id'']))
            | _ \<Rightarrow> Inr (rs, es))
          | _ \<Rightarrow> Inr (rs, es @ opt_list err)))
      | _ \<Rightarrow> Inr (rs, es @ [''container inventory contains a non-object''])))"

definition parse_network :: "docker_world \<Rightarrow> json \<Rightarrow> inventory \<Rightarrow> inventory result" where
  "parse_network W v found =
     (case found of (rs, es) \<Rightarrow> (case v of JObj d \<Rightarrow>
        rbind (owned_labels (jget d ''Labels'') (Some ''network'')) (\<lambda>(rid, au, err).
          let es = es @ opt_list err in
          case (rid, au) of (Some rid, Some au) \<Rightarrow>
              (case jget d ''Id'' of JStr i \<Rightarrow>
                 (if i = [] then Inr (rs, es @ [''managed network has no immutable Docker id''])
                  else (let (eps, es) = (if \<not> truthy (jget d ''Containers'') then ([], es)
                            else case jget d ''Containers'' of JObj c \<Rightarrow> (keys c, es)
                              | _ \<Rightarrow> ([''unproven''], es @ [''managed network '' @ take 12 i @ '' has malformed endpoints'']))
                        in Inr (rs @ [\<lparr>rs_id = i, rs_run_id = rid, rs_role = ''network'', rs_authority = au,
                             rs_created_at = timestamp W (jget d ''Created''), rs_running = False, rs_endpoints = eps\<rparr>], es)))
               | _ \<Rightarrow> Inr (rs, es @ [''managed network has no immutable Docker id'']))
          | _ \<Rightarrow> Inr (rs, es))
      | _ \<Rightarrow> Inr (rs, es @ [''network inventory contains a non-object''])))"

definition parse_inventory :: "string \<Rightarrow> (json \<Rightarrow> inventory \<Rightarrow> inventory result) \<Rightarrow> docker_world \<Rightarrow> string \<Rightarrow> inventory result" where
  "parse_inventory what parse W text =
     (case dw_loads W text of Inl e \<Rightarrow> Inr ([], [what @ '' inventory is not JSON: '' @ e])
      | Inr (JArr vs) \<Rightarrow> rfold parse vs ([], [])
      | Inr _ \<Rightarrow> Inr ([], [what @ '' inventory is not a list'']))"

definition parse_containers :: "docker_world \<Rightarrow> string \<Rightarrow> inventory result" where
  "parse_containers W = parse_inventory ''container'' (parse_container W) W"

definition parse_networks :: "docker_world \<Rightarrow> string \<Rightarrow> inventory result" where
  "parse_networks W = parse_inventory ''network'' (parse_network W) W"

section \<open>Reconciliation\<close>

record ReconciliationStatus =
  outcome :: string
  last_reconciled_at :: real
  scanned_runs :: nat
  scanned_resources :: nat
  orphan_runs :: nat
  orphan_resources :: nat
  removed_containers :: nat
  removed_networks :: nat
  preserved_active_runs :: nat
  preserved_young_runs :: nat
  preserved_unproven_runs :: nat
  inventory_truncated :: bool
  rec_errors :: "string list"

definition bounded_errors :: "string list \<Rightarrow> string list" where
  "bounded_errors es = map (take 180) (take 8 es)"

definition bare_status :: "string \<Rightarrow> real \<Rightarrow> ReconciliationStatus" where
  "bare_status oc now = \<lparr>outcome = oc, last_reconciled_at = now, scanned_runs = 0, scanned_resources = 0, orphan_runs = 0,
     orphan_resources = 0, removed_containers = 0, removed_networks = 0, preserved_active_runs = 0, preserved_young_runs = 0,
     preserved_unproven_runs = 0, inventory_truncated = False, rec_errors = []\<rparr>"

definition status_error :: "real \<Rightarrow> string list \<Rightarrow> ReconciliationStatus" where
  "status_error now es = (bare_status ''error'' now)\<lparr>rec_errors := bounded_errors es\<rparr>"

definition never :: ReconciliationStatus where
  "never = bare_status ''never'' 0"

definition group_of :: "string \<Rightarrow> Resource list \<Rightarrow> Resource list" where
  "group_of rid rs = filter (\<lambda>r. rs_run_id r = rid) rs"

datatype fate = Preserve_active | Preserve_young | Preserve_unproven string | Orphan

definition newest_created :: "real \<Rightarrow> Resource list \<Rightarrow> real" where
  "newest_created now rs = Max (set (map (\<lambda>r. case rs_created_at r of Some t \<Rightarrow> if t = 0 then now else t | None \<Rightarrow> now) rs))"

definition foreign_endpoints :: "Resource list \<Rightarrow> string list" where
  "foreign_endpoints rs =
     (let cs = map rs_id (filter (\<lambda>r. rs_role r \<in> {''worker'', ''proxy''}) rs) in
      filter (\<lambda>e. e \<notin> set cs) (concat (map rs_endpoints (filter (\<lambda>r. rs_role r = ''network'') rs))))"

text \<open>The body of the loop over the runs: what happens to the group of one run.\<close>

definition fate_of :: "real \<Rightarrow> real \<Rightarrow> string list \<Rightarrow> bool \<Rightarrow> string \<Rightarrow> Resource list \<Rightarrow> fate" where
  "fate_of now grace active lease_authoritative rid rs =
     (if length (remdups (map rs_authority rs)) \<noteq> 1 then Preserve_unproven ('' has conflicting ownership authorities'')
      else if rid \<in> set active then Preserve_active
      else if rs_authority (hd rs) = ''lease'' \<and> \<not> lease_authoritative then Preserve_unproven '' requires authoritative lease inventory''
      else if rs_authority (hd rs) \<noteq> ''lease'' \<and> list_ex (\<lambda>r. rs_role r = ''worker'' \<and> rs_running r) rs then Preserve_active
      else if list_ex (\<lambda>r. rs_created_at r = None) rs then Preserve_unproven '' has an unparseable creation timestamp''
      else if foreign_endpoints rs \<noteq> [] then Preserve_unproven '' network has a foreign attachment''
      else if now - newest_created now rs < grace then Preserve_young
      else Orphan)"

fun fate_error :: "string \<Rightarrow> fate \<Rightarrow> string list" where
  "fate_error rid (Preserve_unproven e) = [''run '' @ take 32 rid @ e]"
| "fate_error rid _ = []"

definition run_fates :: "real \<Rightarrow> real \<Rightarrow> string list \<Rightarrow> bool \<Rightarrow> Resource list \<Rightarrow> (string \<times> fate) list" where
  "run_fates now grace active la rs =
     map (\<lambda>rid. (rid, fate_of now grace active la rid (group_of rid rs))) (sort (remdups (map rs_run_id rs)))"

fun remove_all :: "docker_world \<Rightarrow> (string \<Rightarrow> docker_cmd) \<Rightarrow> string list \<Rightarrow> nat \<times> string list \<Rightarrow> docker_cmd list \<Rightarrow> (nat \<times> string list) docker_call" where
  "remove_all W c [] acc tr = (acc, tr)"
| "remove_all W c (i # ids) (n, es) tr = (case checked W (c i) tr of
       (Inl e, tr) \<Rightarrow> remove_all W c ids (n, es @ [e]) tr
     | (Inr _, tr) \<Rightarrow> remove_all W c ids (n + 1, es) tr)"

fun remove_groups :: "docker_world \<Rightarrow> Resource list list \<Rightarrow> nat \<times> nat \<times> string list \<Rightarrow> docker_cmd list \<Rightarrow> (nat \<times> nat \<times> string list) docker_call" where
  "remove_groups W [] acc tr = (acc, tr)"
| "remove_groups W (rs # gs) (nc, nn, es) tr =
     (let by_id = sort_key rs_id rs in
      case remove_all W RM (map rs_id (filter (\<lambda>r. rs_role r \<noteq> ''network'') by_id)) (nc, es) tr of ((nc, es), tr) \<Rightarrow>
      case remove_all W NETWORK_RM (map rs_id (filter (\<lambda>r. rs_role r = ''network'') by_id)) (nn, es) tr of ((nn, es), tr) \<Rightarrow>
        remove_groups W gs (nc, nn, es) tr)"

text \<open>\<open>[item for item in s.splitlines() if item]\<close>.\<close>

definition nonempty_lines :: "string \<Rightarrow> string list" where
  "nonempty_lines s = filter (\<lambda>l. l \<noteq> []) (splitlines s)"

text \<open>Reading one inventory: nothing is asked for an empty list of ids.\<close>

definition read_inventory :: "docker_world \<Rightarrow> (string list \<Rightarrow> docker_cmd) \<Rightarrow> (docker_world \<Rightarrow> string \<Rightarrow> inventory result) \<Rightarrow> string list
    \<Rightarrow> docker_cmd list \<Rightarrow> (string + inventory) result docker_call" where
  "read_inventory W c parse ids tr =
     (if ids = [] then (Inr (Inr ([], [])), tr)
      else case checked W (c ids) tr of (Inl e, tr) \<Rightarrow> (Inr (Inl e), tr)
        | (Inr text, tr) \<Rightarrow> (rbind (parse W text) (\<lambda>found. Inr (Inr found)), tr))"

definition finish_reconcile :: "docker_world \<Rightarrow> real \<Rightarrow> real \<Rightarrow> string list \<Rightarrow> bool \<Rightarrow> nat \<Rightarrow> Resource list \<Rightarrow> string list
    \<Rightarrow> docker_cmd list \<Rightarrow> ReconciliationStatus docker_call" where
  "finish_reconcile W now grace active la scanned rs es tr =
     (let fates = run_fates now grace active la rs;
          orphans = map (\<lambda>(rid, _). group_of rid rs) (filter (\<lambda>(_, f). f = Orphan) fates);
          es = es @ concat (map (\<lambda>(rid, f). fate_error rid f) fates)
      in case remove_groups W orphans (0, 0, es) tr of ((nc, nn, es), tr) \<Rightarrow>
        (\<lparr>outcome = (if es \<noteq> [] then ''partial'' else ''ok''), last_reconciled_at = now, scanned_runs = length fates,
          scanned_resources = scanned, orphan_runs = length orphans, orphan_resources = sum_list (map length orphans),
          removed_containers = nc, removed_networks = nn,
          preserved_active_runs = length (filter (\<lambda>(_, f). f = Preserve_active) fates),
          preserved_young_runs = length (filter (\<lambda>(_, f). f = Preserve_young) fates),
          preserved_unproven_runs = length (filter (\<lambda>(_, f). f \<noteq> Orphan \<and> f \<noteq> Preserve_active \<and> f \<noteq> Preserve_young) fates),
          inventory_truncated = False, rec_errors = bounded_errors es\<rparr>, tr))"

text \<open>The first half: the ids, the cap, the two inventories. \<open>Inl\<close> is the status of a pass that stops there.\<close>

definition take_inventory :: "docker_world \<Rightarrow> real \<Rightarrow> (ReconciliationStatus + nat \<times> inventory) result docker_call" where
  "take_inventory W now =
     (case checked W PS [] of (Inl e, tr) \<Rightarrow> (Inr (Inl (status_error now [e])), tr)
      | (Inr ps, tr) \<Rightarrow> (case checked W NETWORK_LS tr of (Inl e, tr) \<Rightarrow> (Inr (Inl (status_error now [e])), tr)
      | (Inr ls, tr) \<Rightarrow>
          (let cids = nonempty_lines ps; nids = nonempty_lines ls in
           if length cids > MAX_INVENTORY \<or> length nids > MAX_INVENTORY
           then (Inr (Inl ((bare_status ''inventory_truncated'' now)\<lparr>
                   scanned_resources := min (length cids) MAX_INVENTORY + min (length nids) MAX_INVENTORY,
                   inventory_truncated := True, rec_errors := [''managed Docker inventory exceeds the safe reconciliation cap'']\<rparr>)), tr)
           else case read_inventory W INSPECT parse_containers cids tr of
             (Inl e, tr) \<Rightarrow> (Inl e, tr)
           | (Inr (Inl e), tr) \<Rightarrow> (Inr (Inl (status_error now [e])), tr)
           | (Inr (Inr (containers, es)), tr) \<Rightarrow> (case read_inventory W NETWORK_INSPECT parse_networks nids tr of
               (Inl e, tr) \<Rightarrow> (Inl e, tr)
             | (Inr (Inl e), tr) \<Rightarrow> (Inr (Inl (status_error now [e])), tr)
             | (Inr (Inr (networks, es')), tr) \<Rightarrow> (Inr (Inr (length cids + length nids, containers @ networks, es @ es')), tr)))))"

definition reconcile_sandbox_orphans :: "docker_world \<Rightarrow> real \<Rightarrow> real \<Rightarrow> string list \<Rightarrow> bool \<Rightarrow> ReconciliationStatus result docker_call" where
  "reconcile_sandbox_orphans W now grace active la =
     (if grace < 0 then (Inl (ValueError ''orphan_grace_s must be non-negative''), [])
      else case take_inventory W now of
        (Inl e, tr) \<Rightarrow> (Inl e, tr)
      | (Inr (Inl st), tr) \<Rightarrow> (Inr st, tr)
      | (Inr (Inr (n, rs, es)), tr) \<Rightarrow> (case finish_reconcile W now grace active la n rs es tr of (st, tr) \<Rightarrow> (Inr st, tr)))"

section \<open>What is removed\<close>

lemma checked_trace: "snd (checked W c tr) = tr @ [c]"
  by (simp add: checked_def Let_def)

lemma remove_all_trace: "snd (remove_all W c ids acc tr) = tr @ map c ids"
proof (induction ids arbitrary: acc tr)
  case (Cons i ids)
  obtain n es where "acc = (n, es)" by (cases acc)
  moreover obtain x u where "checked W (c i) tr = (x, u)" by fastforce
  moreover then have "u = tr @ [c i]" using checked_trace [of W "c i" tr] by simp
  ultimately show ?case using Cons.IH by (cases x) auto
qed simp

text \<open>The commands that remove a group: its containers, then its networks, each in the order of the ids.\<close>

definition removals :: "Resource list \<Rightarrow> docker_cmd list" where
  "removals rs = map (RM \<circ> rs_id) (filter (\<lambda>r. rs_role r \<noteq> ''network'') (sort_key rs_id rs))
     @ map (NETWORK_RM \<circ> rs_id) (filter (\<lambda>r. rs_role r = ''network'') (sort_key rs_id rs))"

lemma remove_groups_trace: "snd (remove_groups W gs acc tr) = tr @ concat (map removals gs)"
proof (induction gs arbitrary: acc tr)
  case (Cons rs gs)
  obtain nc nn es where acc: "acc = (nc, nn, es)" by (cases acc)
  let ?by = "sort_key rs_id rs"
  obtain nc' es' u where 1: "remove_all W RM (map rs_id (filter (\<lambda>r. rs_role r \<noteq> ''network'') ?by)) (nc, es) tr = ((nc', es'), u)"
    by (metis surj_pair)
  obtain nn' es'' v where 2: "remove_all W NETWORK_RM (map rs_id (filter (\<lambda>r. rs_role r = ''network'') ?by)) (nn, es') u = ((nn', es''), v)"
    by (metis surj_pair)
  have "u = tr @ map RM (map rs_id (filter (\<lambda>r. rs_role r \<noteq> ''network'') ?by))"
    "v = u @ map NETWORK_RM (map rs_id (filter (\<lambda>r. rs_role r = ''network'') ?by))"
    using remove_all_trace 1 2 by (metis snd_conv)+
  then have "v = tr @ removals rs" by (simp add: removals_def)
  with Cons.IH show ?case unfolding acc by (simp only: remove_groups.simps Let_def 1 2 case_prod_conv) simp
qed simp

text \<open>A group that may be removed, without the order of the tests: one authority; not declared active; under a lease
  the caller's list of leases is authoritative, otherwise no worker is running; every creation time is
  known and none is younger than the grace period; every attachment of its networks is one of its own
  containers.\<close>

definition proven_orphan :: "real \<Rightarrow> real \<Rightarrow> string list \<Rightarrow> bool \<Rightarrow> string \<Rightarrow> Resource list \<Rightarrow> bool" where
  "proven_orphan now grace active la rid rs \<longleftrightarrow> rid \<notin> set active
     \<and> (\<exists>a. (\<forall>r \<in> set rs. rs_authority r = a) \<and> (if a = ''lease'' then la else \<forall>r \<in> set rs. rs_role r = ''worker'' \<longrightarrow> \<not> rs_running r))
     \<and> (\<forall>r \<in> set rs. \<exists>t. rs_created_at r = Some t \<and> (t \<noteq> 0 \<longrightarrow> grace \<le> now - t) \<and> (t = 0 \<longrightarrow> grace \<le> 0))
     \<and> (\<forall>n \<in> set rs. rs_role n = ''network'' \<longrightarrow> (\<forall>e \<in> set (rs_endpoints n).
          \<exists>r \<in> set rs. rs_id r = e \<and> rs_role r \<in> {''worker'', ''proxy''}))"

lemma one_value: "length (remdups xs) = 1 \<longleftrightarrow> xs \<noteq> [] \<and> (\<forall>x \<in> set xs. x = hd xs)"
proof
  assume "length (remdups xs) = 1"
  then have "card (set xs) = 1" by (simp add: length_remdups_card_conv)
  then obtain a where "set xs = {a}" by (auto simp: card_1_singleton_iff)
  then show "xs \<noteq> [] \<and> (\<forall>x \<in> set xs. x = hd xs)" by (cases xs) auto
next
  assume "xs \<noteq> [] \<and> (\<forall>x \<in> set xs. x = hd xs)"
  then have "set xs = {hd xs}" by auto
  then show "length (remdups xs) = 1" by (simp add: length_remdups_card_conv)
qed

lemma fate_of_Orphan: "rs \<noteq> [] \<Longrightarrow> fate_of now grace active la rid rs = Orphan \<longleftrightarrow> proven_orphan now grace active la rid rs"
proof -
  assume ne: "rs \<noteq> []"
  have created: "\<not> now - newest_created now rs < grace \<longleftrightarrow> (\<forall>r \<in> set rs. (case rs_created_at r of Some t \<Rightarrow> if t = 0 then now else t | None \<Rightarrow> now) \<le> now - grace)"
  proof -
    have "\<not> now - m < grace \<longleftrightarrow> m \<le> now - grace" for m by auto
    then show ?thesis using ne unfolding newest_created_def by (simp only: list.set_map) simp
  qed
  have auth: "length (remdups (map rs_authority rs)) = 1 \<longleftrightarrow> (\<forall>r \<in> set rs. rs_authority r = rs_authority (hd rs))"
    using ne unfolding one_value by (simp add: hd_map)
  have foreign: "foreign_endpoints rs = [] \<longleftrightarrow> (\<forall>n \<in> set rs. rs_role n = ''network'' \<longrightarrow> (\<forall>e \<in> set (rs_endpoints n).
      \<exists>r \<in> set rs. rs_id r = e \<and> rs_role r \<in> {''worker'', ''proxy''}))"
  proof -
    have own: "e \<in> set (map rs_id (filter (\<lambda>r. rs_role r \<in> {''worker'', ''proxy''}) rs))
        \<longleftrightarrow> (\<exists>r \<in> set rs. rs_id r = e \<and> rs_role r \<in> {''worker'', ''proxy''})" for e
      by (simp only: set_map set_filter image_iff mem_Collect_eq) blast
    show ?thesis unfolding foreign_endpoints_def Let_def filter_empty_conv not_not own
      by (simp only: set_concat set_map set_filter UN_iff ball_UN image_image mem_Collect_eq Ball_def) blast
  qed
  have "(\<exists>a. (\<forall>r \<in> set rs. rs_authority r = a) \<and> P a) \<longleftrightarrow> (\<forall>r \<in> set rs. rs_authority r = rs_authority (hd rs)) \<and> P (rs_authority (hd rs))" for P
    using ne by (metis hd_in_set)
  then have a: "(\<exists>a. (\<forall>r \<in> set rs. rs_authority r = a) \<and> (if a = ''lease'' then la else \<forall>r \<in> set rs. rs_role r = ''worker'' \<longrightarrow> \<not> rs_running r))
      \<longleftrightarrow> length (remdups (map rs_authority rs)) = 1 \<and> (if rs_authority (hd rs) = ''lease'' then la
            else \<not> list_ex (\<lambda>r. rs_role r = ''worker'' \<and> rs_running r) rs)"
    unfolding auth list_ex_iff by simp
  have c: "(\<forall>r \<in> set rs. \<exists>t. rs_created_at r = Some t \<and> (t \<noteq> 0 \<longrightarrow> grace \<le> now - t) \<and> (t = 0 \<longrightarrow> grace \<le> 0))
      \<longleftrightarrow> \<not> list_ex (\<lambda>r. rs_created_at r = None) rs \<and> \<not> now - newest_created now rs < grace"
  proof -
    have "(\<exists>t. x = Some t \<and> (t \<noteq> 0 \<longrightarrow> grace \<le> now - t) \<and> (t = 0 \<longrightarrow> grace \<le> 0))
        \<longleftrightarrow> x \<noteq> None \<and> (case x of Some t \<Rightarrow> if t = 0 then now else t | None \<Rightarrow> now) \<le> now - grace" for x
      by (cases x) auto
    then show ?thesis unfolding created list_ex_iff by blast
  qed
  show ?thesis unfolding proven_orphan_def a c foreign [symmetric] fate_of_def by simp
qed

text \<open>Taking the inventory removes nothing.\<close>

definition is_removal :: "docker_cmd \<Rightarrow> bool" where
  "is_removal c = (case c of RM _ \<Rightarrow> True | NETWORK_RM _ \<Rightarrow> True | _ \<Rightarrow> False)"

lemma read_inventory_trace:
  assumes "read_inventory W c parse ids tr = (x, tr')" and "\<And>is. \<not> is_removal (c is)" and "\<forall>d \<in> set tr. \<not> is_removal d"
  shows "\<forall>d \<in> set tr'. \<not> is_removal d"
  using assms checked_trace [of W "c ids" tr]
  by (cases "checked W (c ids) tr") (auto simp: read_inventory_def split: if_splits sum.splits)

lemma take_inventory_trace:
  assumes "take_inventory W now = (x, tr)"
  shows "\<forall>d \<in> set tr. \<not> is_removal d"
proof -
  obtain ps t1 where 1: "checked W PS [] = (ps, t1)" by fastforce
  obtain ls t2 where 2: "checked W NETWORK_LS t1 = (ls, t2)" by fastforce
  have t: "t1 = [PS]" "t2 = [PS, NETWORK_LS]" using checked_trace 1 2 by (metis append_Nil snd_conv append_Cons)+
  have n: "\<forall>d \<in> set t2. \<not> is_removal d" "\<forall>d \<in> set t1. \<not> is_removal d" by (simp_all add: t is_removal_def)
  have c: "\<not> is_removal (INSPECT is)" "\<not> is_removal (NETWORK_INSPECT is)" for "is" by (simp_all add: is_removal_def)
  obtain ci t3 where 3: "read_inventory W INSPECT parse_containers (nonempty_lines (projr ps)) t2 = (ci, t3)" by fastforce
  note n3 = read_inventory_trace [OF 3 c(1) n(1)]
  obtain ni t4 where 4: "read_inventory W NETWORK_INSPECT parse_networks (nonempty_lines (projr ls)) t3 = (ni, t4)" by fastforce
  note n4 = read_inventory_trace [OF 4 c(2) n3]
  show ?thesis using assms n n3 n4 3 4 unfolding take_inventory_def 1 2 case_prod_conv Let_def
    by (auto split: sum.splits if_splits prod.splits)
qed

lemma run_fates_Orphan:
  assumes "(rid, Orphan) \<in> set (run_fates now grace active la rs)"
  shows "proven_orphan now grace active la rid (group_of rid rs)"
proof -
  from assms have "rid \<in> rs_run_id ` set rs" "fate_of now grace active la rid (group_of rid rs) = Orphan"
    by (auto simp: run_fates_def)
  moreover then have "group_of rid rs \<noteq> []" by (auto simp: group_of_def filter_empty_conv)
  ultimately show ?thesis using fate_of_Orphan by blast
qed

lemma removals_mem:
  "c \<in> set (removals rs) \<longleftrightarrow> (\<exists>r \<in> set rs. c = (if rs_role r = ''network'' then NETWORK_RM (rs_id r) else RM (rs_id r)))"
  by (auto simp: removals_def)

text \<open>C21. Only proven orphans are removed: every container or network that a pass removes is in the inventory it took, as
  such, and the group of its run is an orphan by every condition: a single authority, not declared active, a
  lease only against an authoritative list and otherwise no worker running, all ages known and past the grace
  period, and no attachment from outside the group.\<close>

theorem only_proven_orphans_removed:
  assumes "reconcile_sandbox_orphans W now grace active la = (Inr st, tr)" and "c \<in> set tr" and "c = RM i \<or> c = NETWORK_RM i"
  shows "\<exists>n rs es tr0. take_inventory W now = (Inr (Inr (n, rs, es)), tr0) \<and> 0 \<le> grace
    \<and> (\<exists>r \<in> set rs. rs_id r = i \<and> (rs_role r = ''network'' \<longleftrightarrow> c = NETWORK_RM i)
         \<and> proven_orphan now grace active la (rs_run_id r) (group_of (rs_run_id r) rs))"
proof -
  have g: "0 \<le> grace" using assms(1) by (auto simp: reconcile_sandbox_orphans_def split: if_splits)
  note call = assms(1) [unfolded reconcile_sandbox_orphans_def]
  obtain x tr0 where x: "take_inventory W now = (x, tr0)" by fastforce
  have rem: "is_removal c" using assms(3) by (auto simp: is_removal_def)
  have "\<nexists>s. x = Inr (Inl s)" using call x g take_inventory_trace [OF x] assms(2) rem by auto
  moreover have "\<nexists>e. x = Inl e" using call x g by auto
  ultimately obtain n rs es where y: "x = Inr (Inr (n, rs, es))" by (metis obj_sumE prod_cases3)
  let ?fates = "run_fates now grace active la rs"
  let ?orphans = "map (\<lambda>(rid, _). group_of rid rs) (filter (\<lambda>(_, f). f = Orphan) ?fates)"
  let ?es = "es @ concat (map (\<lambda>(rid, f). fate_error rid f) ?fates)"
  have "tr = snd (remove_groups W ?orphans (0, 0, ?es) tr0)"
    using call x g y by (auto simp: finish_reconcile_def Let_def split: prod.splits)
  then have "c \<in> set tr0 \<or> c \<in> set (concat (map removals ?orphans))" using assms(2) unfolding remove_groups_trace by auto
  then obtain rid where o: "(rid, Orphan) \<in> set ?fates" "c \<in> set (removals (group_of rid rs))"
    using take_inventory_trace [OF x] rem by auto
  then obtain r where r: "r \<in> set rs" "rs_run_id r = rid" "c = (if rs_role r = ''network'' then NETWORK_RM (rs_id r) else RM (rs_id r))"
    unfolding removals_mem group_of_def by auto
  have "rs_id r = i \<and> (rs_role r = ''network'' \<longleftrightarrow> c = NETWORK_RM i)" using r(3) assms(3) by (auto split: if_splits)
  with run_fates_Orphan [OF o(1)] r(1,2) x y g show ?thesis by blast
qed

text \<open>A concrete Docker: the containers of \<open>vs\<close>, listed and inspected; every removal succeeds.\<close>

definition demo_resource :: "string \<Rightarrow> string \<Rightarrow> string \<Rightarrow> bool \<Rightarrow> json" where
  "demo_resource i r au running = JObj
     [(''Id'', JStr i), (''Created'', JStr ''then''), (''State'', JObj [(''Running'', JBool running)]),
      (''Config'', JObj [(''Labels'', JObj [(''io.skharness.managed'', JStr ''true''), (''io.skharness.lifecycle-schema'', JStr ''1''),
         (''io.skharness.run-id'', JStr ''run-1''), (''io.skharness.ownership-authority'', JStr au), (''io.skharness.resource-role'', JStr r)])])]"

definition demo_docker :: "json list \<Rightarrow> docker_world" where
  "demo_docker vs = \<lparr>dw_run = (\<lambda>_ c. case c of PS \<Rightarrow> Exited 0 ''a'' [] | INSPECT _ \<Rightarrow> Exited 0 ''[..]'' [] | _ \<Rightarrow> Exited 0 [] []),
     dw_docker = ''docker'', dw_loads = (\<lambda>_. Inr (JArr vs)), dw_iso = (\<lambda>_. Some 100)\<rparr>"

lemma only_proven_orphans_removed_witness:
  "let call = reconcile_sandbox_orphans (demo_docker [demo_resource ''p1'' ''proxy'' ''ephemeral'' True]) 1000 60 [] False in
   (\<exists>st. fst call = Inr st \<and> outcome st = ''ok'' \<and> removed_containers st = 1) \<and> RM ''p1'' \<in> set (snd call)
   \<and> (\<exists>n rs es tr0. take_inventory (demo_docker [demo_resource ''p1'' ''proxy'' ''ephemeral'' True]) 1000 = (Inr (Inr (n, rs, es)), tr0)
        \<and> 0 \<le> (60 :: real) \<and> (\<exists>r \<in> set rs. rs_id r = ''p1'' \<and> (rs_role r = ''network'' \<longleftrightarrow> RM ''p1'' = NETWORK_RM ''p1'')
          \<and> proven_orphan 1000 60 [] False (rs_run_id r) (group_of (rs_run_id r) rs)))"
proof -
  let ?W = "demo_docker [demo_resource ''p1'' ''proxy'' ''ephemeral'' True]"
  let ?call = "reconcile_sandbox_orphans ?W 1000 60 [] False"
  have 1: "snd ?call = [PS, NETWORK_LS, INSPECT [''a''], RM ''p1'']" by code_simp
  have 2: "case fst ?call of Inl _ \<Rightarrow> False | Inr st \<Rightarrow> outcome st = ''ok'' \<and> removed_containers st = 1" by code_simp
  then obtain st where 3: "fst ?call = Inr st" "outcome st = ''ok''" "removed_containers st = 1" by (auto split: sum.splits)
  then have "?call = (Inr st, snd ?call)" by (metis prod.collapse)
  moreover have "RM ''p1'' \<in> set (snd ?call)" unfolding 1 by simp
  ultimately show ?thesis using only_proven_orphans_removed [of ?W 1000 60 "[]" False st "snd ?call" "RM ''p1''" "''p1''"] 3
    unfolding Let_def by blast
qed

section \<open>The status adds up\<close>

lemma fates_partition:
  "length fates = length (filter (\<lambda>(_, f). f = Orphan) fates) + length (filter (\<lambda>(_, f). f = Preserve_active) fates)
     + length (filter (\<lambda>(_, f). f = Preserve_young) fates)
     + length (filter (\<lambda>(_, f). f \<noteq> Orphan \<and> f \<noteq> Preserve_active \<and> f \<noteq> Preserve_young) fates)"
  by (induction fates) auto

lemma no_errors_no_unproven:
  "concat (map (\<lambda>(rid, f). fate_error rid f) fates) = [] \<Longrightarrow>
   filter (\<lambda>(_, f). f \<noteq> Orphan \<and> f \<noteq> Preserve_active \<and> f \<noteq> Preserve_young) fates = []"
proof -
  assume none: "concat (map (\<lambda>(rid, f). fate_error rid f) fates) = []"
  have "f = Orphan \<or> f = Preserve_active \<or> f = Preserve_young" if "(rid, f) \<in> set fates" for rid f
    using none that by (cases f) auto
  then show ?thesis by (auto simp: filter_empty_conv)
qed

lemma take_inventory_stops: "take_inventory W now = (Inr (Inl st), tr) \<Longrightarrow>
   scanned_runs st = 0 \<and> orphan_runs st = 0 \<and> orphan_resources st = 0 \<and> removed_containers st = 0 \<and> removed_networks st = 0
   \<and> preserved_active_runs st = 0 \<and> preserved_young_runs st = 0 \<and> preserved_unproven_runs st = 0 \<and> outcome st \<noteq> ''ok''"
  by (auto simp: take_inventory_def Let_def status_error_def bare_status_def split: sum.splits prod.splits if_splits)

lemma remove_all_counts:
  "remove_all W c ids (n, es) tr = ((n', es'), tr') \<Longrightarrow> length es \<le> length es' \<and> n' + length es' = n + length es + length ids"
proof (induction ids arbitrary: n es tr)
  case (Cons i ids)
  then show ?case by (cases "checked W (c i) tr") (fastforce split: sum.splits)
qed simp

lemma split_length: "length (filter (\<lambda>r. \<not> P r) xs) + length (filter P xs) = length xs"
  using sum_length_filter_compl [of P xs] by simp

lemma remove_groups_counts:
  "remove_groups W gs (nc, nn, es) tr = ((nc', nn', es'), tr') \<Longrightarrow>
   length es \<le> length es' \<and> nc' + nn' + length es' = nc + nn + length es + sum_list (map length gs)"
proof (induction gs arbitrary: nc nn es tr)
  case (Cons rs gs)
  let ?cs = "map rs_id (filter (\<lambda>r. rs_role r \<noteq> ''network'') (sort_key rs_id rs))"
  let ?ns = "map rs_id (filter (\<lambda>r. rs_role r = ''network'') (sort_key rs_id rs))"
  obtain c1 e1 t1 where 1: "remove_all W RM ?cs (nc, es) tr = ((c1, e1), t1)" by (metis surj_pair)
  obtain n2 e2 t2 where 2: "remove_all W NETWORK_RM ?ns (nn, e1) t1 = ((n2, e2), t2)" by (metis surj_pair)
  have "remove_groups W gs (c1, n2, e2) t2 = ((nc', nn', es'), tr')" using Cons.prems by (simp add: 1 2)
  from Cons.IH [OF this] remove_all_counts [OF 1] remove_all_counts [OF 2]
    split_length [of "\<lambda>r. rs_role r = ''network''" "sort_key rs_id rs"] show ?case by simp
qed simp

lemma counted_cases:
  fixes x :: "('a \<times> 'b \<times> 'c) \<times> 'd"
  obtains a b c d where "x = ((a, b, c), d)"
  using that by (cases x; cases "fst x") auto

lemma reconcile_pass:
  assumes "reconcile_sandbox_orphans W now grace active la = (Inr st, tr)"
  shows "take_inventory W now = (Inr (Inl st), tr)
    \<or> (\<exists>n rs es tr0. take_inventory W now = (Inr (Inr (n, rs, es)), tr0) \<and> finish_reconcile W now grace active la n rs es tr0 = (st, tr))"
proof -
  obtain x tr0 where x: "take_inventory W now = (x, tr0)" by fastforce
  show ?thesis
  proof (cases x)
    case (Inr y)
    then show ?thesis using assms x by (cases y) (auto simp: reconcile_sandbox_orphans_def split: if_splits prod.splits)
  qed (use assms x in \<open>auto simp: reconcile_sandbox_orphans_def split: if_splits\<close>)
qed

text \<open>Every scanned run is accounted for exactly once, and the outcome is not rosier than the pass: the runs are the
  orphans and those preserved as active, young or unproven; a pass reported \<open>ok\<close> has removed every resource of
  every orphan, preserved no run as unproven and met no error.\<close>

theorem reconcile_accounts:
  assumes "reconcile_sandbox_orphans W now grace active la = (Inr st, tr)"
  shows "scanned_runs st = orphan_runs st + preserved_active_runs st + preserved_young_runs st + preserved_unproven_runs st
    \<and> removed_containers st + removed_networks st \<le> orphan_resources st
    \<and> (outcome st = ''ok'' \<longrightarrow> removed_containers st + removed_networks st = orphan_resources st
         \<and> preserved_unproven_runs st = 0 \<and> rec_errors st = [] \<and> \<not> inventory_truncated st)"
proof -
  from reconcile_pass [OF assms] show ?thesis
  proof
    assume "take_inventory W now = (Inr (Inl st), tr)"
    from take_inventory_stops [OF this] show ?thesis by simp
  next
    assume "\<exists>n rs es tr0. take_inventory W now = (Inr (Inr (n, rs, es)), tr0) \<and> finish_reconcile W now grace active la n rs es tr0 = (st, tr)"
    then obtain n rs es tr0 where fin: "finish_reconcile W now grace active la n rs es tr0 = (st, tr)" by blast
    let ?fates = "run_fates now grace active la rs"
    let ?orphans = "map (\<lambda>(rid, _). group_of rid rs) (filter (\<lambda>(_, f). f = Orphan) ?fates)"
    let ?es = "es @ concat (map (\<lambda>(rid, f). fate_error rid f) ?fates)"
    obtain nc nn es' tr' where r: "remove_groups W ?orphans (0, 0, ?es) tr0 = ((nc, nn, es'), tr')"
      by (rule counted_cases)
    note counts = remove_groups_counts [OF r]
    from fin have st: "scanned_runs st = length ?fates" "orphan_runs st = length ?orphans" "orphan_resources st = sum_list (map length ?orphans)"
        "removed_containers st = nc" "removed_networks st = nn" "\<not> inventory_truncated st" "rec_errors st = bounded_errors es'"
        "outcome st = (if es' \<noteq> [] then ''partial'' else ''ok'')"
        "preserved_active_runs st = length (filter (\<lambda>(_, f). f = Preserve_active) ?fates)"
        "preserved_young_runs st = length (filter (\<lambda>(_, f). f = Preserve_young) ?fates)"
        "preserved_unproven_runs st = length (filter (\<lambda>(_, f). f \<noteq> Orphan \<and> f \<noteq> Preserve_active \<and> f \<noteq> Preserve_young) ?fates)"
      unfolding finish_reconcile_def Let_def r by auto
    have ok: "preserved_unproven_runs st = 0" if "es' = []"
      using counts no_errors_no_unproven [of ?fates] that unfolding st by simp
    have "scanned_runs st = orphan_runs st + preserved_active_runs st + preserved_young_runs st + preserved_unproven_runs st"
      unfolding st length_map by (rule fates_partition)
    moreover have "nc + nn + length es' = length ?es + sum_list (map length ?orphans)" "length ?es \<le> length es'" using counts by simp_all
    ultimately show ?thesis using ok st(3-8) by (cases "es' = []") (simp_all add: bounded_errors_def)
  qed
qed

lemma reconcile_accounts_witness:
  "\<exists>st. fst (reconcile_sandbox_orphans (demo_docker [demo_resource ''p1'' ''proxy'' ''ephemeral'' True]) 1000 60 [] False) = Inr st
    \<and> outcome st = ''ok'' \<and> removed_containers st + removed_networks st = orphan_resources st \<and> scanned_runs st = orphan_runs st"
proof -
  let ?call = "reconcile_sandbox_orphans (demo_docker [demo_resource ''p1'' ''proxy'' ''ephemeral'' True]) 1000 60 [] False"
  have "case fst ?call of Inl _ \<Rightarrow> False | Inr st \<Rightarrow> outcome st = ''ok'' \<and> preserved_active_runs st = 0 \<and> preserved_young_runs st = 0"
    by code_simp
  then obtain st where "fst ?call = Inr st" and st: "outcome st = ''ok''" "preserved_active_runs st = 0" "preserved_young_runs st = 0"
    by (auto split: sum.splits)
  moreover then have "?call = (Inr st, snd ?call)" by (metis prod.collapse)
  note reconcile_accounts [OF this]
  ultimately show ?thesis by simp
qed

text \<open>A deviation: a worker whose ownership labels are malformed does not protect its run. Its container is left
  alone, but it is left out of the group, so the old proxy of the same run is removed although a worker of
  that run is running.\<close>

theorem malformed_worker_loses_proxy:
  "case reconcile_sandbox_orphans (demo_docker [demo_resource ''w1'' ''worker'' ''EPHEMERAL'' True, demo_resource ''p1'' ''proxy'' ''ephemeral'' True])
       1000 60 [] False of
     (Inr st, tr) \<Rightarrow> outcome st = ''partial'' \<and> rec_errors st = [''managed resource has an invalid ownership authority'']
       \<and> preserved_active_runs st = 0 \<and> RM ''p1'' \<in> set tr
   | _ \<Rightarrow> False"
  by code_simp

end
