(* ===== verification/Glob.thy ===== *)
theory Glob
  imports Prelude
begin

text \<open>
  \<open>fnmatch.fnmatch\<close> of the standard library on a POSIX system, as \<open>protected.py\<close> and \<open>ci.py\<close> use it (through
  \<open>Path.rglob\<close>): a pattern is read into tokens and matched against the whole name. A range of a bracket whose
  end comes before its start is empty, as in current versions of Python.
\<close>

datatype glob_token =
    Star
  | Any
  | Lit char
  | Bracket bool "(char \<times> char) list"

text \<open>What stands between a bracket and its closing one, and what follows; a closing bracket that comes first, also
  after \<open>!\<close>, is an ordinary character.\<close>

definition bracket :: "string \<Rightarrow> (string \<times> string) option" where
  "bracket cs =
     (let (neg, cs) = (case cs of c # r \<Rightarrow> if c = CHR ''!'' then ([c], r) else ([], cs) | [] \<Rightarrow> ([], cs));
          (first, cs) = (case cs of c # r \<Rightarrow> if c = CHR '']'' then ([c], r) else ([], cs) | [] \<Rightarrow> ([], cs))
      in case dropWhile (\<lambda>c. c \<noteq> CHR '']'') cs of [] \<Rightarrow> None
         | _ # after \<Rightarrow> Some (neg @ first @ takeWhile (\<lambda>c. c \<noteq> CHR '']'') cs, after))"

fun ranges :: "string \<Rightarrow> (char \<times> char) list" where
  "ranges [] = []"
| "ranges [c] = [(c, c)]"
| "ranges [c, d] = [(c, c), (d, d)]"
| "ranges (c # d # e # cs) = (if d = CHR ''-'' then (c, e) # ranges cs else (c, c) # ranges (d # e # cs))"

definition bracket_token :: "string \<Rightarrow> glob_token" where
  "bracket_token s = (case s of c # cs \<Rightarrow> if c = CHR ''!'' then Bracket True (ranges cs) else Bracket False (ranges s)
     | [] \<Rightarrow> Bracket False [])"

lemma bracket_shorter: "bracket cs = Some (s, after) \<Longrightarrow> length after < length cs"
proof -
  assume b: "bracket cs = Some (s, after)"
  have l: "dropWhile P xs = y # ys \<Longrightarrow> length ys < length xs" for P :: "char \<Rightarrow> bool" and xs y ys
    by (metis length_dropWhile_le length_Cons Suc_le_lessD)
  show ?thesis using b unfolding bracket_def Let_def
    by (auto split: list.splits if_splits prod.splits dest!: l simp: less_Suc_eq)
qed

function glob_tokens :: "string \<Rightarrow> glob_token list" where
  "glob_tokens [] = []"
| "glob_tokens (c # cs) =
     (if c = CHR ''*'' then Star # glob_tokens cs
      else if c = CHR ''?'' then Any # glob_tokens cs
      else if c = CHR ''['' then (case bracket cs of None \<Rightarrow> Lit c # glob_tokens cs
         | Some (s, after) \<Rightarrow> bracket_token s # glob_tokens after)
      else Lit c # glob_tokens cs)"
  by pat_completeness auto
termination by (relation "measure length") (auto dest: bracket_shorter)

fun in_ranges :: "char \<Rightarrow> (char \<times> char) list \<Rightarrow> bool" where
  "in_ranges c [] = False"
| "in_ranges c ((a, b) # rs) = ((a \<le> c \<and> c \<le> b) \<or> in_ranges c rs)"

fun glob_match :: "glob_token list \<Rightarrow> string \<Rightarrow> bool" where
  "glob_match [] s = (s = [])"
| "glob_match (Star # ts) [] = glob_match ts []"
| "glob_match (Star # ts) (c # cs) = (glob_match ts (c # cs) \<or> glob_match (Star # ts) cs)"
| "glob_match (Any # ts) [] = False"
| "glob_match (Any # ts) (c # cs) = glob_match ts cs"
| "glob_match (Lit d # ts) [] = False"
| "glob_match (Lit d # ts) (c # cs) = (c = d \<and> glob_match ts cs)"
| "glob_match (Bracket neg rs # ts) [] = False"
| "glob_match (Bracket neg rs # ts) (c # cs) = (in_ranges c rs \<noteq> neg \<and> glob_match ts cs)"

definition fnmatch :: "string \<Rightarrow> string \<Rightarrow> bool" where
  "fnmatch name pat = glob_match (glob_tokens pat) name"

section \<open>Patterns without special characters\<close>

definition literal :: "string \<Rightarrow> bool" where
  "literal s = list_all (\<lambda>c. c \<notin> set ''*?['') s"

lemma glob_tokens_literal: "literal s \<Longrightarrow> glob_tokens (s @ t) = map Lit s @ glob_tokens t"
  by (induction s) (auto simp: literal_def)

lemma glob_match_literal: "glob_match (map Lit s @ ts) x \<longleftrightarrow> (\<exists>y. x = s @ y \<and> glob_match ts y)"
proof (induction s arbitrary: x)
  case (Cons d s)
  then show ?case by (cases x) auto
qed simp

lemma glob_match_Star: "glob_match (Star # ts) x \<longleftrightarrow> (\<exists>y z. x = y @ z \<and> glob_match ts z)"
proof (induction x)
  case (Cons c x)
  show ?case by (auto simp: Cons.IH Cons_eq_append_conv)
qed simp

lemma fnmatch_literal: "literal s \<Longrightarrow> fnmatch x s \<longleftrightarrow> x = s"
  using glob_tokens_literal [of s "[]"] glob_match_literal [of s "[]" x] by (simp add: fnmatch_def)

lemma fnmatch_suffix: "literal s \<Longrightarrow> fnmatch x (CHR ''*'' # s) \<longleftrightarrow> suffix s x"
proof -
  assume l: "literal s"
  have "glob_tokens (CHR ''*'' # s) = Star # map Lit s" using glob_tokens_literal [OF l, of "[]"] by simp
  then show ?thesis using glob_match_literal [of s "[]"]
    unfolding fnmatch_def by (simp add: glob_match_Star suffix_def)
qed

lemma fnmatch_between:
  "literal s \<Longrightarrow> literal t \<Longrightarrow> fnmatch x (CHR ''*'' # s @ CHR ''*'' # t) \<longleftrightarrow> (\<exists>a b. x = a @ s @ b @ t)"
proof -
  assume l: "literal s" "literal t"
  have "glob_tokens (CHR ''*'' # s @ CHR ''*'' # t) = Star # map Lit s @ Star # map Lit t"
    using glob_tokens_literal [OF l(1), of "CHR ''*'' # t"] glob_tokens_literal [OF l(2), of "[]"] by simp
  moreover have "glob_match (map Lit t) y \<longleftrightarrow> y = t" for y using glob_match_literal [of t "[]" y] by simp
  ultimately show ?thesis unfolding fnmatch_def by (auto simp: glob_match_Star glob_match_literal)
qed

lemma fnmatch_Star_Star: "fnmatch x ''**''"
proof -
  have "glob_tokens ''**'' = [Star, Star]" by code_simp
  then show ?thesis by (auto simp: fnmatch_def glob_match_Star)
qed

end
