(* ===== verification/Coverage.thy ===== *)
theory Coverage
  imports Glob
begin

text \<open>
  External CI and the coverage of a diff (\<open>src/skharness/autocode/ci.py\<close>), the two arms of the twin gate that no model
  has a part in.

  The reply of a poll, the exit of a command, the files of the worktree and the parsed report are parameters; an
  XML report is the list of its \<open>class\<close> elements with their \<open>line\<close> elements, the attributes as texts.
\<close>

section \<open>Repositories\<close>

record RepoSpec =
  repo_name :: string
  repo_path :: string
  base_branch :: string
  integration_branch :: string
  test_cmd :: string
  repo_ci :: string
  coverage_cmd :: "string option"
  ci_poll_timeout :: real
  ci_scope :: string
  advisory_checks :: "string list"
  automerge :: bool
  agentrun_refused :: "bool option"
  auto_revert :: bool
  min_diff_coverage :: real
  sandbox_image :: "string option"
  repo_min_quality :: "string option"
  deploy_cmd :: "string option"

section \<open>The lines a diff adds\<close>

type_synonym changed = "(string \<times> nat set) list"

text \<open>\<open>re.search(r"\+(\d+)", line)\<close>, as a number.\<close>

definition digits_value :: "string \<Rightarrow> nat" where
  "digits_value s = foldl (\<lambda>a c. 10 * a + (of_char c - 48)) 0 s"

fun plus_number :: "string \<Rightarrow> nat option" where
  "plus_number [] = None"
| "plus_number (c # cs) =
     (if c = CHR ''+'' \<and> takeWhile is_digit cs \<noteq> [] then Some (digits_value (takeWhile is_digit cs)) else plus_number cs)"

definition lines_at :: "changed \<Rightarrow> string \<Rightarrow> nat set" where
  "lines_at d p = (case map_of d p of None \<Rightarrow> {} | Some ns \<Rightarrow> ns)"

text \<open>One line of the loop. State: the lines found, the current file, the number of the next line of the new file.\<close>

fun diff_step :: "string \<Rightarrow> changed \<times> string option \<times> nat \<Rightarrow> changed \<times> string option \<times> nat" where
  "diff_step line (d, cur, n) =
     (if prefix ''+++ '' line then
        (let path = py_strip (drop 4 line); path = (if prefix ''b/'' path then drop 2 path else path)
         in (if path \<in> set (keys d) then d else dput path {} d, Some path, n))
      else if prefix ''@@'' line then (d, cur, case plus_number line of None \<Rightarrow> 0 | Some k \<Rightarrow> k)
      else case cur of None \<Rightarrow> (d, cur, n)
        | Some p \<Rightarrow>
            if prefix ''+'' line \<and> \<not> prefix ''+++'' line then (dput p (insert n (lines_at d p)) d, cur, n + 1)
            else if prefix ''-'' line \<and> \<not> prefix ''---'' line then (d, cur, n)
            else (d, cur, n + 1))"

definition changed_lines :: "string \<Rightarrow> changed" where
  "changed_lines diff = fst (fold diff_step (splitlines diff) ([], None, 0))"

section \<open>The tests of a diff\<close>

definition base_name :: "string \<Rightarrow> string" where
  "base_name p = rev (takeWhile (\<lambda>c. c \<noteq> CHR ''/'') (rev p))"

definition is_test_file :: "string \<Rightarrow> bool" where
  "is_test_file p \<longleftrightarrow> prefix ''test_'' (base_name p) \<and> suffix ''.py'' (base_name p)"

text \<open>A worktree: the paths that exist, and the relative paths that \<open>rglob\<close> visits.\<close>

record worktree =
  wt_exists :: "string \<Rightarrow> bool"
  wt_tree :: "string list"

definition targets_of :: "worktree \<Rightarrow> string \<Rightarrow> string list" where
  "targets_of T path =
     (if is_test_file path then (if wt_exists T path then [path] else [])
      else if suffix ''.py'' path
      then filter (\<lambda>f. fnmatch (base_name f) (''test_'' @ take (length (base_name path) - 3) (base_name path) @ ''*.py'')) (wt_tree T)
      else [])"

definition scoped_test_targets :: "worktree \<Rightarrow> string \<Rightarrow> string list" where
  "scoped_test_targets T diff = sort (remdups (concat (map (targets_of T) (keys (changed_lines diff)))))"

text \<open>\<open>shlex.quote\<close>.\<close>

definition shell_safe :: "char \<Rightarrow> bool" where
  "shell_safe c = (let n = (of_char c :: nat) in (48 \<le> n \<and> n \<le> 57) \<or> (65 \<le> n \<and> n \<le> 90) \<or> (97 \<le> n \<and> n \<le> 122)
     \<or> c \<in> set ''_@%+=:,./-'')"

definition shell_quote :: "string \<Rightarrow> string" where
  "shell_quote s = (if s \<noteq> [] \<and> list_all shell_safe s then s
     else [CHR 0x27] @ concat (map (\<lambda>c. if c = CHR 0x27 then [CHR 0x27, CHR 0x22, CHR 0x27, CHR 0x22, CHR 0x27] else [c]) s) @ [CHR 0x27])"

definition scoped_cmd :: "string \<Rightarrow> RepoSpec \<Rightarrow> worktree option \<Rightarrow> string option \<Rightarrow> string" where
  "scoped_cmd cmd R wt diff =
     (case (wt, diff) of (Some T, Some d) \<Rightarrow>
        (if ci_scope R \<noteq> ''changed'' \<or> d = [] \<or> scoped_test_targets T d = [] then cmd
         else cmd @ '' '' @ py_join '' '' (map shell_quote (scoped_test_targets T d)))
      | _ \<Rightarrow> cmd)"

section \<open>External CI\<close>

text \<open>\<open>d.get(k)\<close> of a JSON value that should be a dict.\<close>

fun dget :: "json \<Rightarrow> string \<Rightarrow> json result" where
  "dget (JObj d) k = Inr (case map_of d k of None \<Rightarrow> JNull | Some v \<Rightarrow> v)"
| "dget _ k = Inl (AttributeError ''get'')"

text \<open>\<open>next((r for r in runs if r.get("headSha") == head_sha), None)\<close>.\<close>

fun run_for :: "string \<Rightarrow> json list \<Rightarrow> json option result" where
  "run_for sha [] = Inr None"
| "run_for sha (r # rs) = rbind (dget r ''headSha'') (\<lambda>h. if h = JStr sha then Inr (Some r) else run_for sha rs)"

text \<open>A value that is iterated: the keys of a dict and the characters of a string are strings, which have no \<open>get\<close>.\<close>

fun iterated :: "json \<Rightarrow> json list result" where
  "iterated (JArr xs) = Inr xs"
| "iterated (JObj d) = Inr (map (JStr \<circ> fst) d)"
| "iterated (JStr s) = Inr (map (\<lambda>c. JStr [c]) s)"
| "iterated _ = Inl (TypeError ''not iterable'')"

text \<open>A poll is the decoded output of \<open>gh run list\<close> (an exception when it is not JSON) and the clock read after it.
  \<open>None\<close>: the list of polls ended before the loop did.\<close>

type_synonym ci_poll = "json result \<times> real"

definition CI_FIRST_APPEARANCE_GRACE :: real where
  "CI_FIRST_APPEARANCE_GRACE = 45"

definition read_poll :: "string \<Rightarrow> json result \<Rightarrow> (bool \<times> string option) result" where
  "read_poll sha reply = rbind reply (\<lambda>runs. rbind (iterated runs) (\<lambda>rs. rbind (run_for sha rs) (\<lambda>m. rbind
     (case m of None \<Rightarrow> Inr None
      | Some r \<Rightarrow> rbind (dget r ''status'') (\<lambda>s. if s = JStr ''completed''
          then rbind (dget r ''conclusion'') (\<lambda>c. Inr (Some (if c = JStr ''success'' then ''green'' else ''red''))) else Inr None))
     (\<lambda>v. Inr (truthy runs, v)))))"

fun poll_runs :: "string \<Rightarrow> real \<Rightarrow> real \<Rightarrow> bool \<Rightarrow> ci_poll list \<Rightarrow> string result option" where
  "poll_runs sha deadline first_appear seen [] = None"
| "poll_runs sha deadline first_appear seen ((reply, now) # polls) =
     (case read_poll sha reply of
       Inl e \<Rightarrow> Some (Inl e)
     | Inr (_, Some v) \<Rightarrow> Some (Inr v)
     | Inr (b, None) \<Rightarrow>
         if \<not> (seen \<or> b) \<and> first_appear \<le> now then Some (Inr ''pending'')
         else if deadline \<le> now then Some (Inr ''red'')
         else poll_runs sha deadline first_appear (seen \<or> b) polls)"

datatype run_outcome = Timed_out | Exit int

record ci_world =
  cw_start :: real
  cw_polls :: "ci_poll list"
  cw_local :: "string \<Rightarrow> run_outcome"

definition external_ci_verdict :: "ci_world \<Rightarrow> RepoSpec \<Rightarrow> string \<Rightarrow> worktree option \<Rightarrow> string option \<Rightarrow> string result option" where
  "external_ci_verdict W R sha wt diff =
     (if repo_ci R = ''none'' then Some (Inr ''none'')
      else if repo_ci R = ''github-actions''
      then poll_runs sha (cw_start W + ci_poll_timeout R) (cw_start W + CI_FIRST_APPEARANCE_GRACE) False (cw_polls W)
      else if prefix ''local:'' (repo_ci R)
      then Some (Inr (if cw_local W (scoped_cmd (drop 6 (repo_ci R)) R wt diff) = Exit 0 then ''green'' else ''red''))
      else Some (Inr ''red''))"

section \<open>Diff coverage\<close>

datatype unlink_outcome = Unlinked | Absent | Unlink_error

type_synonym report_line = "string option \<times> string option"
type_synonym report = "(string option \<times> report_line list) list"

record cov_world =
  cv_unlink :: unlink_outcome
  cv_started :: real
  cv_run :: "string \<Rightarrow> run_outcome"
  cv_exists :: bool
  cv_mtime :: "real option"
  cv_report :: "report option"

fun xml_int :: "string option \<Rightarrow> int result" where
  "xml_int None = Inl (TypeError ''int() argument must be a string'')"
| "xml_int (Some s) = (case py_int s of None \<Rightarrow> Inl (ValueError ''invalid literal for int()'') | Some n \<Rightarrow> Inr n)"

fun count_line :: "nat set \<Rightarrow> report_line \<Rightarrow> nat \<times> nat \<Rightarrow> (nat \<times> nat) result" where
  "count_line want (number, hits) (covered, missed) = rbind (xml_int number) (\<lambda>n.
     if 0 \<le> n \<and> nat n \<in> want
     then rbind (xml_int (Some (case hits of None \<Rightarrow> ''0'' | Some h \<Rightarrow> h)))
            (\<lambda>h. Inr (if h > 0 then (covered + 1, missed) else (covered, missed + 1)))
     else Inr (covered, missed))"

fun count_class :: "changed \<Rightarrow> string option \<times> report_line list \<Rightarrow> nat \<times> nat \<Rightarrow> (nat \<times> nat) result" where
  "count_class ch (None, ls) acc = Inr acc"
| "count_class ch (Some f, ls) acc = (if lines_at ch f = {} then Inr acc else rfold (count_line (lines_at ch f)) ls acc)"

definition changed_sources :: "changed \<Rightarrow> string list" where
  "changed_sources ch = map fst (filter (\<lambda>(p, ns). ns \<noteq> {} \<and> suffix ''.py'' p \<and> \<not> is_test_file p) ch)"

text \<open>The ratio, and the reason that is recorded where there is none.\<close>

definition diff_coverage :: "cov_world \<Rightarrow> RepoSpec \<Rightarrow> worktree \<Rightarrow> string \<Rightarrow> (real option \<times> string option) result" where
  "diff_coverage W R T diff =
     (case coverage_cmd R of None \<Rightarrow> Inr (None, None)
      | Some cmd \<Rightarrow>
        if cmd = [] then Inr (None, None)
        else if cv_unlink W = Unlink_error then Inr (None, Some ''stale_report_not_removable'')
        else case cv_run W (scoped_cmd cmd R (Some T) (Some diff)) of
          Timed_out \<Rightarrow> Inr (None, Some ''command_timeout'')
        | Exit rc \<Rightarrow>
            if rc \<noteq> 0 then Inr (None, Some ''command_failed'')
            else if \<not> cv_exists W then Inr (None, Some ''no_report_emitted'')
            else case cv_mtime W of None \<Rightarrow> Inr (None, Some ''report_unreadable'')
              | Some m \<Rightarrow>
                if m < cv_started W - 1 then Inr (None, Some ''stale_report'')
                else case cv_report W of None \<Rightarrow> Inr (None, Some ''report_malformed'')
                  | Some rep \<Rightarrow> rbind (rfold (count_class (changed_lines diff)) rep (0, 0)) (\<lambda>(covered, missed).
                      if covered + missed = 0
                      then (if changed_sources (changed_lines diff) \<noteq> [] then Inr (None, Some ''changed_source_absent_from_report'')
                            else Inr (Some 1, None))
                      else Inr (Some (real covered / real (covered + missed)), None)))"

section \<open>What a diff adds\<close>

text \<open>The diffs that the parser is for: per file a preamble, the two names and hunks of context, added and removed
  lines. \<open>plain\<close> says what the parser takes for granted: no line break inside a line, no removed line
  that starts with \<open>--\<close>, no added line that starts with \<open>++\<close>, no note about a missing final line feed.\<close>

datatype diff_line = Context string | Added string | Removed string | No_newline

record hunk =
  hk_old :: string
  hk_start :: nat
  hk_rest :: string
  hk_lines :: "diff_line list"

record file_diff =
  fd_preamble :: "string list"
  fd_old :: string
  fd_path :: string
  fd_hunks :: "hunk list"

fun show_line :: "diff_line \<Rightarrow> string" where
  "show_line (Context s) = CHR '' '' # s"
| "show_line (Added s) = CHR ''+'' # s"
| "show_line (Removed s) = CHR ''-'' # s"
| "show_line No_newline = CHR 0x5C # '' No newline at end of file''"

definition show_hunk :: "hunk \<Rightarrow> string list" where
  "show_hunk h = (''@@ -'' @ hk_old h @ '' +'' @ nat_digits (hk_start h) @ hk_rest h) # map show_line (hk_lines h)"

definition show_file :: "file_diff \<Rightarrow> string list" where
  "show_file f = fd_preamble f @ [''--- '' @ fd_old f, ''+++ b/'' @ fd_path f] @ concat (map show_hunk (fd_hunks f))"

definition show_diff :: "file_diff list \<Rightarrow> string" where
  "show_diff fs = concat (map (\<lambda>l. l @ [CHR 0x0A]) (concat (map show_file fs)))"

fun added_at :: "nat \<Rightarrow> diff_line list \<Rightarrow> nat set" where
  "added_at n [] = {}"
| "added_at n (Context s # ls) = added_at (n + 1) ls"
| "added_at n (Added s # ls) = insert n (added_at (n + 1) ls)"
| "added_at n (Removed s # ls) = added_at n ls"
| "added_at n (No_newline # ls) = added_at n ls"

definition file_added :: "file_diff \<Rightarrow> nat set" where
  "file_added f = (\<Union>h \<in> set (fd_hunks f). added_at (hk_start h) (hk_lines h))"

fun plain_line :: "diff_line \<Rightarrow> bool" where
  "plain_line (Context s) = True"
| "plain_line (Added s) = (\<not> prefix ''++'' s)"
| "plain_line (Removed s) = (\<not> prefix ''--'' s)"
| "plain_line No_newline = False"

definition plain_file :: "file_diff \<Rightarrow> bool" where
  "plain_file f \<longleftrightarrow> list_all (\<lambda>l. \<not> prefix ''+'' l) (fd_preamble f) \<and> py_strip (''b/'' @ fd_path f) = ''b/'' @ fd_path f
     \<and> list_all (\<lambda>h. CHR ''+'' \<notin> set (hk_old h) \<and> (case hk_rest h of [] \<Rightarrow> True | c # _ \<Rightarrow> \<not> is_digit c)
          \<and> list_all plain_line (hk_lines h)) (fd_hunks f)
     \<and> list_all (list_all (\<lambda>c. \<not> line_break c)) (show_file f)"

lemma splitlines_line: "list_all (\<lambda>c. \<not> line_break c) l \<Longrightarrow> splitlines (l @ CHR 0x0A # r) = l # splitlines r"
proof (induction l)
  case Nil
  have "line_break (CHR 0x0A)" by code_simp
  then show ?case by (cases r) simp_all
next
  case (Cons c l)
  then obtain d ds where "l @ CHR 0x0A # r = d # ds" by (cases l) auto
  with Cons show ?case by simp
qed

lemma splitlines_concat:
  "list_all (list_all (\<lambda>c. \<not> line_break c)) ls \<Longrightarrow> splitlines (concat (map (\<lambda>l. l @ [CHR 0x0A]) ls)) = ls"
  by (induction ls) (simp_all add: splitlines_line)

lemma plus_number_skip: "CHR ''+'' \<notin> set s \<Longrightarrow> plus_number (s @ t) = plus_number t"
  by (induction s) auto

lemma take_digits: "list_all is_digit ds \<Longrightarrow> (case r of [] \<Rightarrow> True | c # _ \<Rightarrow> \<not> is_digit c) \<Longrightarrow> takeWhile is_digit (ds @ r) = ds"
  by (induction ds) (auto split: list.splits)

lemma digits_value_nat: "digits_value (nat_digits n) = n"
  unfolding digits_value_def by (rule foldl_nat_digits)

lemma plus_number_header:
  assumes "CHR ''+'' \<notin> set old" and "case r of [] \<Rightarrow> True | c # _ \<Rightarrow> \<not> is_digit c"
  shows "plus_number (''@@ -'' @ old @ '' +'' @ nat_digits n @ r) = Some n"
proof -
  have d: "takeWhile is_digit (nat_digits n @ r) = nat_digits n"
    using assms(2) nat_digits_digit by (intro take_digits) (auto simp: list_all_iff)
  have "plus_number (''@@ -'' @ old @ '' +'' @ nat_digits n @ r) = plus_number (''+'' @ nat_digits n @ r)"
    using plus_number_skip [of "''@@ -'' @ old @ '' ''" "''+'' @ nat_digits n @ r"] assms(1) by simp
  then show ?thesis using d by (simp add: digits_value_nat)
qed

text \<open>The state after the lines of one file: its lines are \<open>ns\<close>, those of the other files are as before.\<close>

definition in_file :: "string \<Rightarrow> (string \<Rightarrow> nat set option) \<Rightarrow> nat set \<Rightarrow> changed \<times> string option \<times> nat \<Rightarrow> bool" where
  "in_file p D ns s \<longleftrightarrow> (case s of (d, cur, n) \<Rightarrow> map_of d = D(p \<mapsto> ns) \<and> cur = Some p)"

lemma fold_lines:
  assumes "list_all plain_line ls" and "map_of d = D(p \<mapsto> ns)"
  shows "in_file p D (ns \<union> added_at n ls) (fold diff_step (map show_line ls) (d, Some p, n))"
  using assms
proof (induction ls arbitrary: d ns n)
  case (Cons l ls)
  show ?case
  proof (cases l)
    case (Added s)
    have "map_of (dput p (insert n (lines_at d p)) d) = D(p \<mapsto> insert n ns)"
      using Cons.prems by (simp add: lines_at_def fun_eq_iff)
    moreover have "\<not> prefix ''++ '' s" using Cons.prems(1) Added by (auto simp: prefix_def)
    ultimately show ?thesis using Cons.IH [of "dput p (insert n (lines_at d p)) d" "insert n ns" "n + 1"] Cons.prems(1) Added by simp
  qed (use Cons in auto)
qed (simp add: in_file_def)

lemma fold_hunks:
  assumes "list_all (\<lambda>h. CHR ''+'' \<notin> set (hk_old h) \<and> (case hk_rest h of [] \<Rightarrow> True | c # _ \<Rightarrow> \<not> is_digit c)
      \<and> list_all plain_line (hk_lines h)) hs" and "in_file p D ns s"
  shows "in_file p D (ns \<union> (\<Union>h \<in> set hs. added_at (hk_start h) (hk_lines h))) (fold diff_step (concat (map show_hunk hs)) s)"
  using assms
proof (induction hs arbitrary: s ns)
  case (Cons h hs)
  obtain d n where s: "s = (d, Some p, n)" "map_of d = D(p \<mapsto> ns)"
    using Cons.prems(2) by (cases s) (auto simp: in_file_def)
  have h: "list_all plain_line (hk_lines h)" "CHR ''+'' \<notin> set (hk_old h)" "case hk_rest h of [] \<Rightarrow> True | c # _ \<Rightarrow> \<not> is_digit c"
    using Cons.prems(1) by simp_all
  let ?s = "fold diff_step (map show_line (hk_lines h)) (d, Some p, hk_start h)"
  have "in_file p D (ns \<union> added_at (hk_start h) (hk_lines h)) ?s" by (rule fold_lines [OF h(1) s(2)])
  moreover have "fold diff_step (show_hunk h) s = ?s"
    using plus_number_header [OF h(2,3), of "hk_start h"] unfolding s(1) show_hunk_def by simp
  ultimately show ?case using Cons.IH [of "ns \<union> added_at (hk_start h) (hk_lines h)" ?s] Cons.prems(1)
    by (simp add: Un_assoc)
qed simp

lemma fold_preamble:
  assumes "list_all (\<lambda>l. \<not> prefix ''+'' l) ls"
  shows "\<exists>n'. fold diff_step ls (d, cur, n) = (d, cur, n')"
  using assms
proof (induction ls arbitrary: n)
  case (Cons l ls)
  have "\<not> prefix ''+++ '' l" using Cons.prems by (cases l) auto
  then have "\<exists>n1. diff_step l (d, cur, n) = (d, cur, n1)" using Cons.prems by (cases cur) auto
  then obtain n1 where "diff_step l (d, cur, n) = (d, cur, n1)" by blast
  moreover from Cons obtain n' where "fold diff_step ls (d, cur, n1) = (d, cur, n')" by auto
  ultimately show ?case by (simp only: fold.simps o_apply) blast
qed simp

lemma fold_file:
  assumes "plain_file f"
  shows "\<exists>d' cur' n'. fold diff_step (show_file f) (d, cur, n) = (d', cur', n')
    \<and> map_of d' = (map_of d)(fd_path f \<mapsto> lines_at d (fd_path f) \<union> file_added f)"
proof -
  obtain n1 where 1: "fold diff_step (fd_preamble f @ [''--- '' @ fd_old f]) (d, cur, n) = (d, cur, n1)"
    using fold_preamble [of "fd_preamble f @ [''--- '' @ fd_old f]" d cur n] assms by (auto simp: plain_file_def)
  let ?d = "if fd_path f \<in> set (keys d) then d else dput (fd_path f) {} d"
  have "py_strip (''b/'' @ fd_path f) = ''b/'' @ fd_path f" using assms by (simp add: plain_file_def)
  then have 2: "diff_step (''+++ b/'' @ fd_path f) (d, cur, n1) = (?d, Some (fd_path f), n1)"
    by (simp add: Let_def)
  have "map_of ?d = (map_of d)(fd_path f \<mapsto> lines_at d (fd_path f))"
  proof (cases "map_of d (fd_path f)")
    case None
    then have "fd_path f \<notin> set (keys d)" by (simp add: map_of_eq_None_iff)
    with None show ?thesis by (simp add: lines_at_def fun_eq_iff)
  next
    case (Some ns)
    then have "fd_path f \<in> set (keys d)" by (metis map_of_eq_None_iff option.distinct(1) set_map)
    with Some show ?thesis by (simp add: lines_at_def fun_eq_iff)
  qed
  then have 3: "in_file (fd_path f) (map_of d) (lines_at d (fd_path f)) (?d, Some (fd_path f), n1)" by (simp add: in_file_def)
  have hs: "list_all (\<lambda>h. CHR ''+'' \<notin> set (hk_old h) \<and> (case hk_rest h of [] \<Rightarrow> True | c # _ \<Rightarrow> \<not> is_digit c)
      \<and> list_all plain_line (hk_lines h)) (fd_hunks f)" using assms unfolding plain_file_def by simp
  have "fold diff_step (show_file f) (d, cur, n) = fold diff_step (concat (map show_hunk (fd_hunks f))) (?d, Some (fd_path f), n1)"
    using 1 2 unfolding show_file_def by simp
  with fold_hunks [OF hs 3] have
    "in_file (fd_path f) (map_of d) (lines_at d (fd_path f) \<union> file_added f) (fold diff_step (show_file f) (d, cur, n))"
    by (simp add: file_added_def)
  then show ?thesis unfolding in_file_def by (cases "fold diff_step (show_file f) (d, cur, n)") simp
qed

lemma fold_files:
  assumes "list_all plain_file fs"
  shows "map_of (fst (fold diff_step (concat (map show_file fs)) (d, cur, n))) p
    = (if p \<in> fd_path ` set fs then Some (lines_at d p \<union> (\<Union>f \<in> {f \<in> set fs. fd_path f = p}. file_added f)) else map_of d p)"
  using assms
proof (induction fs arbitrary: d cur n)
  case (Cons f fs)
  obtain d' cur' n' where f: "fold diff_step (show_file f) (d, cur, n) = (d', cur', n')"
    "map_of d' = (map_of d)(fd_path f \<mapsto> lines_at d (fd_path f) \<union> file_added f)"
    using fold_file [of f d cur n] Cons.prems by auto
  have "lines_at d' p = lines_at d p \<union> (if fd_path f = p then file_added f else {})" unfolding lines_at_def f(2) by auto
  moreover have "{g \<in> set (f # fs). fd_path g = p} = (if fd_path f = p then {f} else {}) \<union> {g \<in> set fs. fd_path g = p}" by auto
  moreover have "{g \<in> set fs. fd_path g = p} = {}" if "p \<notin> fd_path ` set fs" using that by auto
  then have "(\<Union>g \<in> {g \<in> set fs. fd_path g = p}. file_added g) = {}" if "p \<notin> fd_path ` set fs"
    using that by blast
  ultimately show ?case using Cons.IH [of d' cur' n'] Cons.prems f by (simp add: Un_assoc)
qed simp

text \<open>The parser of diffs is right on plain diffs: on the text of any list of files whose lines take nothing for a marker,
  it finds exactly the files of the diff, each with the numbers that its added lines have in the new file.\<close>

theorem changed_lines_exact:
  assumes "list_all plain_file fs"
  shows "map_of (changed_lines (show_diff fs)) p
    = (if p \<in> fd_path ` set fs then Some (\<Union>f \<in> {f \<in> set fs. fd_path f = p}. file_added f) else None)"
proof -
  have "list_all (list_all (\<lambda>c. \<not> line_break c)) (concat (map show_file fs))"
    using assms by (auto simp: list_all_iff plain_file_def)
  then have "splitlines (show_diff fs) = concat (map show_file fs)" unfolding show_diff_def by (rule splitlines_concat)
  with fold_files [OF assms, of "[]" None 0 p] show ?thesis by (simp add: changed_lines_def lines_at_def)
qed

definition demo_file :: "diff_line list \<Rightarrow> file_diff" where
  "demo_file ls = \<lparr>fd_preamble = [''diff --git a/m.py b/m.py''], fd_old = ''a/m.py'', fd_path = ''m.py'',
     fd_hunks = [\<lparr>hk_old = ''1,2'', hk_start = 1, hk_rest = '',3 @@'', hk_lines = ls\<rparr>]\<rparr>"

lemma changed_lines_exact_witness:
  "map_of (changed_lines (show_diff [demo_file [Context ''a'', Removed ''b'', Added ''b'', Added ''c'']])) ''m.py'' = Some {2, 3}"
proof -
  let ?f = "demo_file [Context ''a'', Removed ''b'', Added ''b'', Added ''c'']"
  have p: "list_all plain_file [?f]" by code_simp
  have "fd_path ?f = ''m.py''" "file_added ?f = {2, 3}" by (simp_all add: demo_file_def file_added_def numeral_eq_Suc)
  then have "{f \<in> set [?f]. fd_path f = ''m.py''} = {?f}" "''m.py'' \<in> fd_path ` set [?f]" by auto
  with changed_lines_exact [OF p, of "''m.py''"] \<open>file_added ?f = {2, 3}\<close> show ?thesis by simp
qed

section \<open>What the ratio measures\<close>

text \<open>The changed lines that the report has, in its order, and whether they were run.\<close>

fun line_hit :: "nat set \<Rightarrow> report_line \<Rightarrow> bool option" where
  "line_hit want (number, hits) = (case xml_int number of Inl _ \<Rightarrow> None
     | Inr n \<Rightarrow> if 0 \<le> n \<and> nat n \<in> want
         then (case xml_int (Some (case hits of None \<Rightarrow> ''0'' | Some h \<Rightarrow> h)) of Inl _ \<Rightarrow> None | Inr h \<Rightarrow> Some (h > 0)) else None)"

definition class_hits :: "changed \<Rightarrow> string option \<times> report_line list \<Rightarrow> bool list" where
  "class_hits ch c = (case fst c of None \<Rightarrow> [] | Some f \<Rightarrow> List.map_filter (line_hit (lines_at ch f)) (snd c))"

definition report_hits :: "changed \<Rightarrow> report \<Rightarrow> bool list" where
  "report_hits ch rep = concat (map (class_hits ch) rep)"

lemma count_lines:
  "rfold (count_line want) ls (c, m) = Inr (c', m') \<Longrightarrow>
   c' = c + length (filter (\<lambda>b. b) (List.map_filter (line_hit want) ls))
   \<and> m' = m + length (filter (\<lambda>b. \<not> b) (List.map_filter (line_hit want) ls))"
proof (induction ls arbitrary: c m)
  case (Cons l ls)
  obtain number hits where l: "l = (number, hits)" by (cases l)
  from Cons.prems obtain c1 m1 where 1: "count_line want l (c, m) = Inr (c1, m1)" "rfold (count_line want) ls (c1, m1) = Inr (c', m')"
    by auto
  have "c1 = c + (if line_hit want l = Some True then 1 else 0) \<and> m1 = m + (if line_hit want l = Some False then 1 else 0)"
    using 1(1) unfolding l by (auto split: if_splits)
  with Cons.IH [OF 1(2)] show ?case by (auto simp: map_filter_simps split: option.split)
qed (simp add: map_filter_simps)

lemma line_hit_empty: "line_hit {} l = None"
  by (cases l) (simp split: sum.split)

lemma count_classes:
  "rfold (count_class ch) rep (c, m) = Inr (c', m') \<Longrightarrow>
   c' = c + length (filter (\<lambda>b. b) (report_hits ch rep)) \<and> m' = m + length (filter (\<lambda>b. \<not> b) (report_hits ch rep))"
proof (induction rep arbitrary: c m)
  case (Cons x rep)
  obtain f ls where x: "x = (f, ls)" by (cases x)
  from Cons.prems obtain c1 m1 where 1: "count_class ch x (c, m) = Inr (c1, m1)" "rfold (count_class ch) rep (c1, m1) = Inr (c', m')"
    by auto
  have e: "List.map_filter (line_hit {}) ls = []" by (induction ls) (simp_all add: map_filter_simps line_hit_empty)
  have "c1 = c + length (filter (\<lambda>b. b) (class_hits ch x)) \<and> m1 = m + length (filter (\<lambda>b. \<not> b) (class_hits ch x))"
    using 1(1) e count_lines unfolding x class_hits_def by (cases f) (auto split: if_splits)
  with Cons.IH [OF 1(2)] show ?case by (simp add: report_hits_def)
qed (simp add: report_hits_def)


section \<open>What CI says\<close>

text \<open>A completed run of this commit that succeeded, the first one listed for it.\<close>

definition succeeded :: "string \<Rightarrow> json \<Rightarrow> bool" where
  "succeeded sha reply \<longleftrightarrow> (\<exists>runs r. iterated reply = Inr runs \<and> run_for sha runs = Inr (Some r)
     \<and> dget r ''status'' = Inr (JStr ''completed'') \<and> dget r ''conclusion'' = Inr (JStr ''success''))"

lemma read_poll_verdict:
  assumes "read_poll sha reply = Inr (b, Some v)"
  shows "v \<in> {''green'', ''red''} \<and> (v = ''green'' \<longrightarrow> (\<exists>j. reply = Inr j \<and> succeeded sha j))"
proof -
  from assms obtain j rs r s c where j: "reply = Inr j" "iterated j = Inr rs" "run_for sha rs = Inr (Some r)"
    "dget r ''status'' = Inr (JStr ''completed'')" "dget r ''conclusion'' = Inr c" "v = (if c = JStr ''success'' then ''green'' else ''red'')"
    unfolding read_poll_def by (auto split: option.splits if_splits)
  then show ?thesis unfolding succeeded_def by (cases "c = JStr ''success''") auto
qed

lemma poll_runs_verdict:
  "poll_runs sha deadline fa seen polls = Some (Inr v) \<Longrightarrow>
   v \<in> {''green'', ''red'', ''pending''} \<and> (v = ''green'' \<longrightarrow> (\<exists>j now. (Inr j, now) \<in> set polls \<and> succeeded sha j))"
proof (induction polls arbitrary: seen)
  case (Cons p polls)
  obtain reply now where p: "p = (reply, now)" by (cases p)
  show ?case
  proof (cases "read_poll sha reply")
    case (Inr q)
    obtain b w where q: "q = (b, w)" by (cases q)
    show ?thesis
    proof (cases w)
      case None
      with Cons.IH [of "seen \<or> b"] Cons.prems Inr q show ?thesis unfolding p by (auto split: if_splits)
    next
      case (Some u)
      with Cons.prems Inr q read_poll_verdict [of sha reply b u] show ?thesis unfolding p by auto
    qed
  qed (use Cons.prems in \<open>simp add: p\<close>)
qed simp

lemma poll_runs_ends:
  "\<exists>(reply, now) \<in> set polls. deadline \<le> now \<Longrightarrow> poll_runs sha deadline fa seen polls \<noteq> None"
proof (induction polls arbitrary: seen)
  case (Cons p polls)
  then show ?case by (cases p) (auto split: sum.splits option.splits)
qed simp

text \<open>C20. CI is green only for this work: a verdict is one of four words; it is green only when the local command exited
  with success, or when a poll showed a completed and successful run of exactly this commit; and polling ends
  by its deadline, with a verdict or an exception.\<close>

theorem ci_green_is_earned:
  "(external_ci_verdict W R sha wt diff = Some (Inr v) \<longrightarrow> v \<in> {''green'', ''red'', ''pending'', ''none''}
      \<and> (v = ''green'' \<longrightarrow> prefix ''local:'' (repo_ci R) \<and> cw_local W (scoped_cmd (drop 6 (repo_ci R)) R wt diff) = Exit 0
           \<or> repo_ci R = ''github-actions'' \<and> (\<exists>j now. (Inr j, now) \<in> set (cw_polls W) \<and> succeeded sha j)))
   \<and> ((\<exists>(reply, now) \<in> set (cw_polls W). cw_start W + ci_poll_timeout R \<le> now) \<longrightarrow> external_ci_verdict W R sha wt diff \<noteq> None)"
proof (cases "repo_ci R = ''github-actions''")
  case True
  then have c: "external_ci_verdict W R sha wt diff
      = poll_runs sha (cw_start W + ci_poll_timeout R) (cw_start W + CI_FIRST_APPEARANCE_GRACE) False (cw_polls W)"
    by (simp add: external_ci_verdict_def)
  show ?thesis unfolding c
    using poll_runs_verdict [of sha "cw_start W + ci_poll_timeout R" "cw_start W + CI_FIRST_APPEARANCE_GRACE" False "cw_polls W" v]
      poll_runs_ends [of "cw_polls W" "cw_start W + ci_poll_timeout R" sha "cw_start W + CI_FIRST_APPEARANCE_GRACE" False] True
    by blast
next
  case False
  then show ?thesis unfolding external_ci_verdict_def by (auto split: if_splits)
qed

section \<open>Diffs that are misread\<close>

definition demo_repo :: RepoSpec where
  "demo_repo = \<lparr>repo_name = ''r'', repo_path = ''/r'', base_branch = ''main'', integration_branch = ''main'', test_cmd = ''t'', repo_ci = ''local:make'',
     coverage_cmd = Some ''cov'', ci_poll_timeout = 1200, ci_scope = ''full'', advisory_checks = [], automerge = True,
     agentrun_refused = None, auto_revert = False, min_diff_coverage = 8 / 10, sandbox_image = None, repo_min_quality = None, deploy_cmd = None\<rparr>"

definition demo_coverage :: "report \<Rightarrow> cov_world" where
  "demo_coverage rep = \<lparr>cv_unlink = Absent, cv_started = 10, cv_run = (\<lambda>_. Exit 0), cv_exists = True, cv_mtime = Some 11,
     cv_report = Some rep\<rparr>"

definition no_files :: worktree where
  "no_files = \<lparr>wt_exists = (\<lambda>_. False), wt_tree = []\<rparr>"

definition demo_lines :: "string \<Rightarrow> string list \<Rightarrow> report" where
  "demo_lines f hits = [(Some f, zip (map (\<lambda>n. Some (nat_digits n)) [1..<5]) (map Some hits))]"


lemma ci_green_is_earned_witness:
  "external_ci_verdict \<lparr>cw_start = 0, cw_polls = [(Inr (JArr []), 5), (Inr (JArr [JObj [(''headSha'', JStr ''c1''), (''status'', JStr ''completed''),
       (''conclusion'', JStr ''success'')]]), 10)], cw_local = (\<lambda>_. Timed_out)\<rparr>
     (demo_repo\<lparr>repo_ci := ''github-actions''\<rparr>) ''c1'' None None = Some (Inr ''green'')
   \<and> (\<exists>j. succeeded ''c1'' j)"
proof -
  let ?R = "demo_repo\<lparr>repo_ci := ''github-actions''\<rparr>"
  let ?W = "\<lparr>cw_start = 0, cw_polls = [(Inr (JArr []), 5), (Inr (JArr [JObj [(''headSha'', JStr ''c1''), (''status'', JStr ''completed''),
       (''conclusion'', JStr ''success'')]]), 10)], cw_local = (\<lambda>_. Timed_out)\<rparr>"
  have c: "external_ci_verdict ?W ?R ''c1'' None None = Some (Inr ''green'')" by code_simp
  have "\<not> prefix ''local:'' (repo_ci ?R)" by code_simp
  with ci_green_is_earned [of ?W ?R "''c1''" None None "''green''"] c show ?thesis by blast
qed

text \<open>A deviation: lines that look like markers shift the numbers. Replacing a last line that had no line feed, or
  removing a line that starts with \<open>--\<close>, makes the parser count one line too many, so it reports lines 3 and 4
  for a change that adds lines 2 and 3, and coverage is measured on the wrong lines.\<close>

theorem marker_lines_shift:
  "list_all (\<lambda>ls. lines_at (changed_lines (show_diff [demo_file ls])) ''m.py'' = {3, 4} \<and> file_added (demo_file ls) = {2, 3})
     [[Context ''a'', Removed ''b'', No_newline, Added ''b'', Added ''c''], [Context ''a'', Removed ''-- b'', Added ''b'', Added ''c'']]"
proof -
  have "lines_at (changed_lines (show_diff [demo_file [Context ''a'', Removed ''b'', No_newline, Added ''b'', Added ''c'']])) ''m.py'' = {3, 4}"
    "lines_at (changed_lines (show_diff [demo_file [Context ''a'', Removed ''-- b'', Added ''b'', Added ''c'']])) ''m.py'' = {3, 4}"
    by code_simp+
  moreover have "file_added (demo_file [Context ''a'', Removed ''b'', No_newline, Added ''b'', Added ''c'']) = {2, 3}"
    "file_added (demo_file [Context ''a'', Removed ''-- b'', Added ''b'', Added ''c'']) = {2, 3}"
    by (simp_all add: demo_file_def file_added_def numeral_eq_Suc)
  ultimately show ?thesis by (simp only: list.pred_inject simp_thms)
qed

text \<open>A deviation: coverage can be had for free. Three added lines of which the tests run only the first have the
  ratio 1/3; with an added line \<open>++ x\<close> after the first, which the parser reads as the name of a file, the ratio
  is 1; and so it is for a source whose name \<open>git\<close> quotes, although the report shows that no line of it was run.\<close>

theorem coverage_can_be_evaded:
  "diff_coverage (demo_coverage (demo_lines ''m.py'' [''1'', ''0'', ''0''])) demo_repo no_files
     (show_diff [demo_file [Added ''import os'', Added ''f()'', Added ''g()'']]) = Inr (Some (1 / 3), None)
   \<and> diff_coverage (demo_coverage (demo_lines ''m.py'' [''1'', ''1'', ''0'', ''0''])) demo_repo no_files
     (show_diff [demo_file [Added ''import os'', Added ''++ x'', Added ''f()'', Added ''g()'']]) = Inr (Some 1, None)
   \<and> diff_coverage (demo_coverage (demo_lines ''b.py'' [''0'', ''0''])) demo_repo no_files
     (concat (map (\<lambda>l. l @ [CHR 0x0A]) [''+++ '' @ [CHR 0x22] @ ''b/'' @ [CHR 0x5C] @ ''351.py'' @ [CHR 0x22],
        ''@@ -0,0 +1,2 @@'', ''+f()'', ''+g()''])) = Inr (Some 1, None)"
  by (intro conjI; code_simp)

end
