(* ===== verification/MergeGate.thy ===== *)
theory MergeGate
  imports Coverage
begin

text \<open>
  What stands between a finished change and its merge (\<open>src/skharness/autocode/\<close>: \<open>protected.py\<close>, \<open>merge_method.py\<close>, the
  checks of \<open>engineering.py\<close>): the floor of protected files, the merge method that repository and branch
  allow, and the verdict of the checks of a pull request.

  The manifest file and the replies of \<open>gh\<close> are parameters, decoded; a failed or undecodable \<open>gh api\<close> reply is
  \<open>JNull\<close>. The signature check of the manifest (\<open>plane_trust.py\<close>) is the parameter \<open>mf_trusted\<close>.
\<close>

section \<open>Protected files\<close>

definition FLOOR :: "string list" where
  "FLOOR = [''skharness/autocode/protected.py'', ''skharness/autocode/engineering.py'', ''skcapstone/fleet/store.py'', ''skcapstone/itil.py'',
     ''objects/_protected.json'', ''objects/_freeze.json'', ''skharness/autocode/grading.py'', ''skharness/autocode/sensitivity.py'',
     ''skharness/autocode/buckets.py'', ''skharness/autocode/routing_guard.py'', ''skharness/autocode/mutation.py'',
     ''autocode/data/joule-grade-vocabulary.json'', ''tests/data/joule-economy-golden-set-*.json'',
     ''tests/data/grading-floor-allowances.json'', ''.coveragerc'', ''pyproject.toml'', ''pytest.ini'', ''setup.cfg'', ''tox.ini'', ''conftest.py'']"

definition ALWAYS_PROTECTED :: "string list" where
  "ALWAYS_PROTECTED = concat (map (\<lambda>f. [''*/'' @ f, ''*'' @ f]) FLOOR)"

definition FAIL_CLOSED :: payload where
  "FAIL_CLOSED = [(''protected'', JArr [JStr ''**'']), (''_fail_closed'', JBool True)]"

record manifest_file =
  mf_exists :: bool
  mf_read :: "json option"
  mf_trusted :: "json \<Rightarrow> bool"

definition load_manifest :: "manifest_file \<Rightarrow> payload" where
  "load_manifest M =
     (if \<not> mf_exists M then FAIL_CLOSED
      else case mf_read M of None \<Rightarrow> FAIL_CLOSED
      | Some v \<Rightarrow> if \<not> mf_trusted M v then FAIL_CLOSED
          else case v of JObj d \<Rightarrow> (case map_of d ''protected'' of Some (JArr (g # gs)) \<Rightarrow> d | _ \<Rightarrow> FAIL_CLOSED)
            | _ \<Rightarrow> FAIL_CLOSED)"

definition manifest_for :: "manifest_file \<Rightarrow> payload" where
  "manifest_for M = (if \<not> mf_exists M then [(''protected'', JArr [])] else load_manifest M)"

definition manifest_globs :: "payload \<Rightarrow> json list" where
  "manifest_globs m = (case map_of m ''protected'' of Some (JArr gs) \<Rightarrow> gs | _ \<Rightarrow> [])"

fun any_match :: "string \<Rightarrow> json list \<Rightarrow> bool result" where
  "any_match p [] = Inr False"
| "any_match p (JStr g # gs) = (if fnmatch p g then Inr True else any_match p gs)"
| "any_match p (_ # gs) = Inl (TypeError ''expected str, bytes or os.PathLike object'')"

fun is_protected :: "string list \<Rightarrow> payload \<Rightarrow> bool result" where
  "is_protected [] m = Inr False"
| "is_protected (p # ps) m = rbind (any_match p (manifest_globs m @ map JStr ALWAYS_PROTECTED)) (\<lambda>b.
     if b then Inr True else is_protected ps m)"

definition matched_protected_paths :: "manifest_file \<Rightarrow> string list \<Rightarrow> string list result" where
  "matched_protected_paths M changed =
     rbind (rmap (\<lambda>p. rbind (is_protected [p] (manifest_for M)) (\<lambda>b. Inr (p, b))) changed) (\<lambda>pbs. Inr (map fst (filter snd pbs)))"

section \<open>The merge method\<close>

definition MERGE_METHODS :: "string list" where
  "MERGE_METHODS = [''squash'', ''rebase'', ''merge'']"

definition REPO_FLAG_TO_METHOD :: "(string \<times> string) list" where
  "REPO_FLAG_TO_METHOD = [(''allow_squash_merge'', ''squash''), (''allow_rebase_merge'', ''rebase''), (''allow_merge_commit'', ''merge'')]"

record ProtectedMergePolicy =
  repository_allowed :: "string list"
  branch_allowed :: "string list"

definition resolve_protected_merge_method :: "ProtectedMergePolicy option \<Rightarrow> string option" where
  "resolve_protected_merge_method policy =
     (case policy of None \<Rightarrow> None
      | Some p \<Rightarrow>
          if \<not> set (repository_allowed p) \<subseteq> set MERGE_METHODS \<or> \<not> set (branch_allowed p) \<subseteq> set MERGE_METHODS then None
          else find (\<lambda>m. m \<in> set (repository_allowed p) \<and> m \<in> set (branch_allowed p)) MERGE_METHODS)"

fun allowed_flags :: "payload \<Rightarrow> (string \<times> string) list \<Rightarrow> string list option" where
  "allowed_flags d [] = Some []"
| "allowed_flags d ((flag, meth) # fs) =
     (case map_of d flag of Some (JBool b) \<Rightarrow> map_option (\<lambda>ms. if b then meth # ms else ms) (allowed_flags d fs) | _ \<Rightarrow> None)"

fun repository_allowed_from_repo_json :: "json \<Rightarrow> string list option" where
  "repository_allowed_from_repo_json (JObj d) = allowed_flags d REPO_FLAG_TO_METHOD"
| "repository_allowed_from_repo_json _ = None"

text \<open>What one rule declares: nothing, something malformed, or the names it allows.\<close>

datatype rule_reading = Silent | Malformed | Declares "string list"

fun method_names :: "json list \<Rightarrow> string list option" where
  "method_names [] = Some []"
| "method_names (JStr s # xs) =
     (if py_lower (py_strip s) \<in> set MERGE_METHODS then map_option (Cons (py_lower (py_strip s))) (method_names xs) else None)"
| "method_names (_ # xs) = None"

fun rule_declares :: "json \<Rightarrow> rule_reading" where
  "rule_declares (JObj r) =
     (if map_of r ''type'' \<noteq> Some (JStr ''pull_request'') then Silent
      else case map_of r ''parameters'' of Some (JObj ps) \<Rightarrow>
          (case map_of ps ''allowed_merge_methods'' of None \<Rightarrow> Silent
           | Some (JArr (x # xs)) \<Rightarrow> (case method_names (x # xs) of None \<Rightarrow> Malformed | Some ms \<Rightarrow> Declares ms)
           | Some _ \<Rightarrow> Malformed)
        | _ \<Rightarrow> Silent)"
| "rule_declares _ = Silent"

fun declared_methods :: "json list \<Rightarrow> string list list option" where
  "declared_methods [] = Some []"
| "declared_methods (r # rs) =
     (case rule_declares r of Silent \<Rightarrow> declared_methods rs | Malformed \<Rightarrow> None
      | Declares ms \<Rightarrow> map_option (Cons ms) (declared_methods rs))"

fun branch_allowed_from_rules_json :: "json \<Rightarrow> string list option" where
  "branch_allowed_from_rules_json (JArr rules) =
     (case declared_methods rules of None \<Rightarrow> None
      | Some [] \<Rightarrow> Some MERGE_METHODS
      | Some ds \<Rightarrow> Some (filter (\<lambda>m. list_all (\<lambda>ms. m \<in> set ms) ds) MERGE_METHODS))"
| "branch_allowed_from_rules_json _ = None"

definition protected_merge_policy :: "json \<Rightarrow> json \<Rightarrow> ProtectedMergePolicy option" where
  "protected_merge_policy repo_json rules =
     (case repository_allowed_from_repo_json repo_json of None \<Rightarrow> None
      | Some r \<Rightarrow> (case branch_allowed_from_rules_json rules of None \<Rightarrow> None
          | Some b \<Rightarrow> Some \<lparr>repository_allowed = r, branch_allowed = b\<rparr>))"

definition merge_argv :: "string \<Rightarrow> string \<Rightarrow> string \<Rightarrow> string list" where
  "merge_argv pr_branch meth head_sha =
     [''gh'', ''pr'', ''merge'', pr_branch, ''--'' @ meth, ''--delete-branch'', ''--match-head-commit'', head_sha]"

section \<open>The checks of a pull request\<close>

definition AUTOMERGE_CI_TIMEOUT :: real where
  "AUTOMERGE_CI_TIMEOUT = 1500"

definition AUTOMERGE_CORE :: "string list" where
  "AUTOMERGE_CORE = [''lint'', ''test'', ''qa'', ''pytest'']"

definition AUTOMERGE_SECURITY :: "string list" where
  "AUTOMERGE_SECURITY = [''gitguardian'', ''security'']"

fun hit :: "string list \<Rightarrow> json \<Rightarrow> bool result" where
  "hit names (JStr s) = Inr (list_ex (\<lambda>k. py_in k (py_lower s)) names)"
| "hit names v = (if truthy v then Inl (AttributeError ''lower'') else Inr (list_ex (\<lambda>k. py_in k []) names))"

text \<open>A check with its name and bucket, once its name is known to be one.\<close>

definition check_named :: "string list \<Rightarrow> json \<Rightarrow> (json \<times> bool \<times> bool) result" where
  "check_named advisory c = rbind (dget c ''name'') (\<lambda>n. rbind (hit AUTOMERGE_CORE n) (\<lambda>core.
     rbind (if core then hit (map py_lower advisory) n else Inr False) (\<lambda>adv. rbind (hit AUTOMERGE_SECURITY n) (\<lambda>sec.
     rbind (dget c ''bucket'') (\<lambda>b. Inr (b, core \<and> \<not> adv, sec))))))"

text \<open>One round of the loop: a verdict, or \<open>None\<close> to wait. Output that is not JSON counts as no checks.\<close>

definition read_checks :: "string list \<Rightarrow> json option \<Rightarrow> string option result" where
  "read_checks advisory reply = rbind (iterated (case reply of None \<Rightarrow> JArr [] | Some v \<Rightarrow> v)) (\<lambda>cs.
     rbind (rmap (check_named advisory) cs) (\<lambda>named.
       let core = map fst (filter (\<lambda>(_, co, _). co) named); sec = map fst (filter (\<lambda>(_, _, se). se) named) in
       Inr (if JStr ''fail'' \<in> set sec then Some ''blocked''
         else if JStr ''fail'' \<in> set core then Some ''red''
         else if core \<noteq> [] \<and> JStr ''pending'' \<notin> set (core @ sec) then Some ''green''
         else None)))"

text \<open>\<open>None\<close>: the list of polls ended before the loop did.\<close>

fun github_checks_verdict :: "string list \<Rightarrow> real \<Rightarrow> (json option \<times> real) list \<Rightarrow> string result option" where
  "github_checks_verdict advisory deadline [] = None"
| "github_checks_verdict advisory deadline ((reply, now) # polls) =
     (case read_checks advisory reply of Inl e \<Rightarrow> Some (Inl e)
      | Inr (Some v) \<Rightarrow> Some (Inr v)
      | Inr None \<Rightarrow> if deadline \<le> now then Some (Inr ''timeout'') else github_checks_verdict advisory deadline polls)"

section \<open>What is protected\<close>

text \<open>A path on the floor ends in one of the names, or in a golden set.\<close>

definition on_floor :: "string \<Rightarrow> bool" where
  "on_floor p \<longleftrightarrow> (\<exists>f \<in> set FLOOR. literal f \<and> suffix f p)
     \<or> (\<exists>a b. p = a @ ''tests/data/joule-economy-golden-set-'' @ b @ ''.json'')"

lemma FLOOR_patterns: "f \<in> set FLOOR \<Longrightarrow> literal f \<or> f = ''tests/data/joule-economy-golden-set-'' @ ''*'' @ ''.json''"
proof -
  have "list_all (\<lambda>f. literal f \<or> f = ''tests/data/joule-economy-golden-set-'' @ ''*'' @ ''.json'') FLOOR" by code_simp
  then show "f \<in> set FLOOR \<Longrightarrow> literal f \<or> f = ''tests/data/joule-economy-golden-set-'' @ ''*'' @ ''.json''"
    by (simp only: list_all_iff)
qed

lemma fnmatch_name:
  assumes "literal f"
  shows "fnmatch p (''*'' @ f) \<longleftrightarrow> suffix f p" "fnmatch p (''*/'' @ f) \<Longrightarrow> suffix f p"
  using fnmatch_suffix [of f p] fnmatch_suffix [of "CHR ''/'' # f" p] assms by (auto simp: literal_def dest: suffix_ConsD)

lemma fnmatch_golden:
  "fnmatch p (''*'' @ ''tests/data/joule-economy-golden-set-'' @ ''*'' @ ''.json'')
     \<longleftrightarrow> (\<exists>a b. p = a @ ''tests/data/joule-economy-golden-set-'' @ b @ ''.json'')"
  "fnmatch p (''*/'' @ ''tests/data/joule-economy-golden-set-'' @ ''*'' @ ''.json'')
     \<Longrightarrow> \<exists>a b. p = a @ ''tests/data/joule-economy-golden-set-'' @ b @ ''.json''"
proof -
  have l: "literal ''tests/data/joule-economy-golden-set-''" "literal ''/tests/data/joule-economy-golden-set-''" "literal ''.json''"
    by code_simp+
  show "fnmatch p (''*'' @ ''tests/data/joule-economy-golden-set-'' @ ''*'' @ ''.json'')
     \<longleftrightarrow> (\<exists>a b. p = a @ ''tests/data/joule-economy-golden-set-'' @ b @ ''.json'')"
    using fnmatch_between [OF l(1) l(3), of p] by (simp only: append_Cons append_Nil)
  assume "fnmatch p (''*/'' @ ''tests/data/joule-economy-golden-set-'' @ ''*'' @ ''.json'')"
  then have "fnmatch p (CHR ''*'' # ''/tests/data/joule-economy-golden-set-'' @ CHR ''*'' # ''.json'')"
    by (simp only: append_Cons append_Nil)
  then obtain a b where "p = a @ ''/tests/data/joule-economy-golden-set-'' @ b @ ''.json''"
    using fnmatch_between [OF l(2) l(3), of p] by blast
  then have "p = (a @ ''/'') @ ''tests/data/joule-economy-golden-set-'' @ b @ ''.json''"
    by (simp only: append_Cons append_Nil append_assoc)
  then show "\<exists>a b. p = a @ ''tests/data/joule-economy-golden-set-'' @ b @ ''.json''" by blast
qed

lemma always_protected: "(\<exists>g \<in> set ALWAYS_PROTECTED. fnmatch p g) \<longleftrightarrow> on_floor p"
proof
  assume "\<exists>g \<in> set ALWAYS_PROTECTED. fnmatch p g"
  then obtain f where f: "f \<in> set FLOOR" "fnmatch p (''*/'' @ f) \<or> fnmatch p (''*'' @ f)"
    by (auto simp: ALWAYS_PROTECTED_def)
  from FLOOR_patterns [OF f(1)] show "on_floor p"
  proof
    assume "literal f"
    with fnmatch_name f show ?thesis unfolding on_floor_def by blast
  next
    assume "f = ''tests/data/joule-economy-golden-set-'' @ ''*'' @ ''.json''"
    with f(2) fnmatch_golden [of p] show ?thesis unfolding on_floor_def by blast
  qed
next
  have g: "''*'' @ f \<in> set ALWAYS_PROTECTED" if "f \<in> set FLOOR" for f
    using that unfolding ALWAYS_PROTECTED_def by auto
  assume "on_floor p"
  then show "\<exists>g \<in> set ALWAYS_PROTECTED. fnmatch p g"
    unfolding on_floor_def
  proof
    assume "\<exists>f \<in> set FLOOR. literal f \<and> suffix f p"
    with g fnmatch_name show ?thesis by blast
  next
    assume "\<exists>a b. p = a @ ''tests/data/joule-economy-golden-set-'' @ b @ ''.json''"
    moreover have "''tests/data/joule-economy-golden-set-*.json'' \<in> set FLOOR" by code_simp
    ultimately show ?thesis using g fnmatch_golden [of p] by (metis append_Cons append_Nil)
  qed
qed

lemma any_match_Inr:
  "any_match p (gs @ map JStr fs) = Inr b \<Longrightarrow> b \<longleftrightarrow> (\<exists>g. JStr g \<in> set gs \<and> fnmatch p g) \<or> (\<exists>f \<in> set fs. fnmatch p f)"
proof (induction gs)
  case Nil
  have "any_match p (map JStr fs) = Inr (\<exists>f \<in> set fs. fnmatch p f)" by (induction fs) auto
  with Nil show ?case by simp
next
  case (Cons g gs)
  then show ?case by (cases g) (auto split: if_splits)
qed

text \<open>The globs of a manifest that is readable, trusted and has some.\<close>

definition usable_globs :: "manifest_file \<Rightarrow> json list option" where
  "usable_globs M =
     (case mf_read M of Some (JObj d) \<Rightarrow>
        (if mf_trusted M (JObj d) then (case map_of d ''protected'' of Some (JArr (g # gs)) \<Rightarrow> Some (g # gs) | _ \<Rightarrow> None) else None)
      | _ \<Rightarrow> None)"

lemma manifest_globs_for:
  "manifest_globs (manifest_for M) = (if \<not> mf_exists M then [] else case usable_globs M of None \<Rightarrow> [JStr ''**''] | Some gs \<Rightarrow> gs)"
proof -
  have c: "manifest_globs FAIL_CLOSED = [JStr ''**'']" by (simp add: FAIL_CLOSED_def manifest_globs_def)
  have m: "manifest_globs d = gs" if "map_of d ''protected'' = Some (JArr gs)" for d gs
    using that by (simp add: manifest_globs_def)
  have "manifest_globs (load_manifest M) = (case usable_globs M of None \<Rightarrow> [JStr ''**''] | Some gs \<Rightarrow> gs)" if "mf_exists M"
    using that unfolding load_manifest_def usable_globs_def by (auto simp: c m split: option.splits json.splits list.splits)
  then show ?thesis by (simp add: manifest_for_def m)
qed

text \<open>C18. The floor holds whatever the manifest: the paths that match are, in their order, exactly those that end in a name of
  the floor, and, when there is a manifest, those that a glob of it matches, or all paths when it cannot be
  read, is not trusted or protects nothing.\<close>

theorem protected_paths_exact:
  assumes "matched_protected_paths M changed = Inr ms"
  shows "ms = filter (\<lambda>p. on_floor p \<or> mf_exists M \<and> (case usable_globs M of None \<Rightarrow> True
    | Some gs \<Rightarrow> \<exists>g. JStr g \<in> set gs \<and> fnmatch p g)) changed"
proof -
  let ?Q = "\<lambda>p. on_floor p \<or> mf_exists M \<and> (case usable_globs M of None \<Rightarrow> True | Some gs \<Rightarrow> \<exists>g. JStr g \<in> set gs \<and> fnmatch p g)"
  have one: "b \<longleftrightarrow> ?Q p" if i: "is_protected [p] (manifest_for M) = Inr b" for p b
  proof -
    from i have "any_match p (manifest_globs (manifest_for M) @ map JStr ALWAYS_PROTECTED) = Inr b"
      by (auto split: if_splits)
    from any_match_Inr [OF this] show ?thesis
      unfolding always_protected manifest_globs_for by (auto simp: fnmatch_Star_Star split: option.splits)
  qed
  from assms obtain pbs where pbs: "rmap (\<lambda>p. rbind (is_protected [p] (manifest_for M)) (\<lambda>b. Inr (p, b))) changed = Inr pbs"
    and ms: "ms = map fst (filter snd pbs)" by (auto simp: matched_protected_paths_def)
  have "map fst (filter snd pbs) = filter ?Q changed" using pbs
  proof (induction changed arbitrary: pbs)
    case (Cons p ps)
    then obtain b pbs' where "is_protected [p] (manifest_for M) = Inr b" "pbs = (p, b) # pbs'"
      "rmap (\<lambda>p. rbind (is_protected [p] (manifest_for M)) (\<lambda>b. Inr (p, b))) ps = Inr pbs'" by (auto simp del: is_protected.simps)
    with one [of p b] Cons.IH [of pbs'] show ?case by auto
  qed simp
  with ms show ?thesis by simp
qed

definition demo_manifest :: manifest_file where
  "demo_manifest = \<lparr>mf_exists = True, mf_read = Some (JObj [(''protected'', JArr [JStr ''src/[a-c]*.py''])]), mf_trusted = (\<lambda>_. True)\<rparr>"

lemma protected_paths_exact_witness:
  "matched_protected_paths demo_manifest [''README.md'', ''src/b1.py'', ''src/z.py'', ''src/skharness/autocode/engineering.py'']
     = Inr [''src/b1.py'', ''src/skharness/autocode/engineering.py'']
   \<and> (on_floor ''src/b1.py'' \<or> (\<exists>g. JStr g \<in> set [JStr ''src/[a-c]*.py''] \<and> fnmatch ''src/b1.py'' g))"
proof -
  let ?ps = "[''README.md'', ''src/b1.py'', ''src/z.py'', ''src/skharness/autocode/engineering.py'']"
  have m: "matched_protected_paths demo_manifest ?ps = Inr [''src/b1.py'', ''src/skharness/autocode/engineering.py'']" by code_simp
  have u: "usable_globs demo_manifest = Some [JStr ''src/[a-c]*.py'']" by code_simp
  have "''src/b1.py'' \<in> set [''src/b1.py'', ''src/skharness/autocode/engineering.py'']" by simp
  then have "''src/b1.py'' \<in> set (filter (\<lambda>p. on_floor p \<or> mf_exists demo_manifest \<and> (case usable_globs demo_manifest of None \<Rightarrow> True
      | Some gs \<Rightarrow> \<exists>g. JStr g \<in> set gs \<and> fnmatch p g)) ?ps)"
    by (simp only: protected_paths_exact [OF m])
  then have "on_floor ''src/b1.py'' \<or> (\<exists>g. JStr g \<in> set [JStr ''src/[a-c]*.py''] \<and> fnmatch ''src/b1.py'' g)"
    unfolding u by (simp only: set_filter mem_Collect_eq option.case) blast
  with m show ?thesis by blast
qed

text \<open>A deviation: the floor leaves out files that it is meant to hold. Without a manifest, the code that computes two arms of
  the twin gate (CI and coverage), the check of the manifest's own signature, the grader's pin and the choice
  of the merge method may be changed and merged without review.\<close>

theorem floor_has_gaps:
  "matched_protected_paths \<lparr>mf_exists = False, mf_read = None, mf_trusted = (\<lambda>_. False)\<rparr>
     (map (\<lambda>f. ''src/skharness/autocode/'' @ f) [''ci.py'', ''plane_trust.py'', ''grader_pin.py'', ''merge_method.py'', ''engineering.py''])
   = Inr [''src/skharness/autocode/engineering.py'']"
  by code_simp

section \<open>Which method is chosen\<close>

definition repo_flags :: "payload \<Rightarrow> bool" where
  "repo_flags d \<longleftrightarrow> (\<forall>(flag, m) \<in> set REPO_FLAG_TO_METHOD. \<exists>b. map_of d flag = Some (JBool b))"

definition repo_allows :: "payload \<Rightarrow> string \<Rightarrow> bool" where
  "repo_allows d m \<longleftrightarrow> (\<exists>flag. (flag, m) \<in> set REPO_FLAG_TO_METHOD \<and> map_of d flag = Some (JBool True))"

definition rule_allows :: "string \<Rightarrow> json \<Rightarrow> bool" where
  "rule_allows m r = (case rule_declares r of Silent \<Rightarrow> True | Malformed \<Rightarrow> False | Declares ms \<Rightarrow> m \<in> set ms)"

lemma allowed_flags_iff:
  "distinct (map snd fs) \<Longrightarrow> allowed_flags d fs = Some ms \<longleftrightarrow> (\<forall>(flag, m) \<in> set fs. \<exists>b. map_of d flag = Some (JBool b))
     \<and> ms = filter (\<lambda>m. \<exists>flag. (flag, m) \<in> set fs \<and> map_of d flag = Some (JBool True)) (map snd fs)"
proof (induction fs arbitrary: ms)
  case (Cons f fs)
  obtain flag meth where f: "f = (flag, meth)" by (cases f)
  have "filter (\<lambda>m. \<exists>fl. (fl, m) \<in> set (f # fs) \<and> map_of d fl = Some (JBool True)) (map snd fs)
      = filter (\<lambda>m. \<exists>fl. (fl, m) \<in> set fs \<and> map_of d fl = Some (JBool True)) (map snd fs)"
    using Cons.prems unfolding f by (intro filter_cong) auto
  moreover have "(\<exists>fl. (fl, meth) \<in> set (f # fs) \<and> map_of d fl = Some (JBool True)) \<longleftrightarrow> map_of d flag = Some (JBool True)"
    using Cons.prems unfolding f by force
  ultimately show ?case using Cons unfolding f by (auto split: option.splits json.splits)
qed auto

lemma declared_methods_iff:
  "declared_methods rs = Some ds \<Longrightarrow> (\<forall>r \<in> set rs. rule_declares r \<noteq> Malformed)
     \<and> ((\<forall>r \<in> set rs. rule_allows m r) \<longleftrightarrow> (\<forall>ms \<in> set ds. m \<in> set ms))"
proof (induction rs arbitrary: ds)
  case (Cons r rs)
  then show ?case by (cases "rule_declares r") (auto simp: rule_allows_def)
qed simp

lemma declared_methods_None: "declared_methods rs = None \<longleftrightarrow> (\<exists>r \<in> set rs. rule_declares r = Malformed)"
  by (induction rs) (auto split: rule_reading.splits)

lemma find_filter: "find P (filter Q xs) = find (\<lambda>x. Q x \<and> P x) xs"
  by (induction xs) auto

lemma branch_allowed_iff:
  "branch_allowed_from_rules_json (JArr rs) = Some b \<longleftrightarrow> (\<forall>r \<in> set rs. rule_declares r \<noteq> Malformed)
     \<and> b = filter (\<lambda>m. \<forall>r \<in> set rs. rule_allows m r) MERGE_METHODS"
proof (cases "declared_methods rs")
  case None
  then show ?thesis using declared_methods_None [of rs] by auto
next
  case (Some ds)
  note d = declared_methods_iff [OF Some]
  have "filter (\<lambda>m. \<forall>r \<in> set rs. rule_allows m r) MERGE_METHODS = filter (\<lambda>m. list_all (\<lambda>ms. m \<in> set ms) ds) MERGE_METHODS"
    using d by (intro filter_cong) (auto simp: list_all_iff)
  with Some d show ?thesis by (cases ds) auto
qed

text \<open>A merge method is chosen only where both sides allow it: the result is a method exactly when the repository states
  all three of its flags, no rule of the branch is malformed, and some method is allowed by its flag and by
  every rule that restricts methods; then it is the first such in the order squash, rebase, merge.\<close>

theorem merge_method_exact:
  "resolve_protected_merge_method (protected_merge_policy repo_json rules) = Some m \<longleftrightarrow>
     (\<exists>d rs. repo_json = JObj d \<and> rules = JArr rs \<and> repo_flags d \<and> (\<forall>r \<in> set rs. rule_declares r \<noteq> Malformed)
        \<and> find (\<lambda>m. repo_allows d m \<and> (\<forall>r \<in> set rs. rule_allows m r)) MERGE_METHODS = Some m)"
proof (cases "\<exists>d rs. repo_json = JObj d \<and> rules = JArr rs")
  case True
  then obtain d rs where j: "repo_json = JObj d" "rules = JArr rs" by blast
  have "map snd REPO_FLAG_TO_METHOD = MERGE_METHODS" "distinct (map snd REPO_FLAG_TO_METHOD)" by code_simp+
  note flags = allowed_flags_iff [OF this(2), unfolded this(1)]
  have r: "repository_allowed_from_repo_json repo_json = Some a \<longleftrightarrow> repo_flags d \<and> a = filter (repo_allows d) MERGE_METHODS" for a
    unfolding j repository_allowed_from_repo_json.simps flags repo_flags_def repo_allows_def by (simp add: case_prod_beta)
  note b = branch_allowed_iff [of rs, folded j(2)]
  show ?thesis
  proof (cases "repo_flags d \<and> (\<forall>r \<in> set rs. rule_declares r \<noteq> Malformed)")
    case True
    then have "repository_allowed_from_repo_json repo_json = Some (filter (repo_allows d) MERGE_METHODS)"
      "branch_allowed_from_rules_json rules = Some (filter (\<lambda>m. \<forall>r \<in> set rs. rule_allows m r) MERGE_METHODS)"
      using r b by blast+
    then have "protected_merge_policy repo_json rules = Some \<lparr>repository_allowed = filter (repo_allows d) MERGE_METHODS,
        branch_allowed = filter (\<lambda>m. \<forall>r \<in> set rs. rule_allows m r) MERGE_METHODS\<rparr>"
      by (simp add: protected_merge_policy_def)
    moreover have "find (\<lambda>m. m \<in> set (filter (repo_allows d) MERGE_METHODS) \<and> m \<in> set (filter (\<lambda>m. \<forall>r \<in> set rs. rule_allows m r) MERGE_METHODS)) MERGE_METHODS
        = find (\<lambda>m. repo_allows d m \<and> (\<forall>r \<in> set rs. rule_allows m r)) MERGE_METHODS"
      by (intro find_cong) auto
    ultimately show ?thesis using True j by (auto simp: resolve_protected_merge_method_def)
  next
    case False
    then have "protected_merge_policy repo_json rules = None" using r b
      by (auto simp: protected_merge_policy_def split: option.split)
    with False j show ?thesis by (auto simp: resolve_protected_merge_method_def)
  qed
next
  case False
  then have "protected_merge_policy repo_json rules = None"
    by (cases repo_json; cases rules) (auto simp: protected_merge_policy_def split: option.split)
  with False show ?thesis by (auto simp: resolve_protected_merge_method_def)
qed

definition demo_flags :: json where
  "demo_flags = JObj [(''allow_squash_merge'', JBool True), (''allow_rebase_merge'', JBool True), (''allow_merge_commit'', JBool False)]"

lemma merge_method_exact_witness:
  "resolve_protected_merge_method (protected_merge_policy demo_flags (JArr [JObj [(''type'', JStr ''pull_request''),
       (''parameters'', JObj [(''allowed_merge_methods'', JArr [JStr ''Rebase''])])]])) = Some ''rebase''
   \<and> (\<exists>d. demo_flags = JObj d \<and> repo_flags d)"
proof -
  let ?rules = "JArr [JObj [(''type'', JStr ''pull_request''), (''parameters'', JObj [(''allowed_merge_methods'', JArr [JStr ''Rebase''])])]]"
  have "resolve_protected_merge_method (protected_merge_policy demo_flags ?rules) = Some ''rebase''" by code_simp
  with merge_method_exact [of demo_flags ?rules "''rebase''"] show ?thesis by blast
qed

section \<open>What the checks say\<close>

text \<open>The checks of a reply that bear on the merge: bucket, core and not advisory, security.\<close>

definition read_named :: "string list \<Rightarrow> json option \<Rightarrow> (json \<times> bool \<times> bool) list result" where
  "read_named advisory reply = rbind (iterated (case reply of None \<Rightarrow> JArr [] | Some v \<Rightarrow> v)) (rmap (check_named advisory))"

lemma check_lists:
  assumes "map fst (filter (\<lambda>(_, co, _). co) named) \<noteq> []"
    and "p \<notin> set (map fst (filter (\<lambda>(_, co, _). co) named) @ map fst (filter (\<lambda>(_, _, se). se) named))"
    and "f \<notin> set (map fst (filter (\<lambda>(_, _, se). se) named))" and "f \<notin> set (map fst (filter (\<lambda>(_, co, _). co) named))"
  shows "(\<exists>b s. (b, True, s) \<in> set named) \<and> (\<forall>(b, co, se) \<in> set named. co \<or> se \<longrightarrow> b \<noteq> f \<and> b \<noteq> p)"
proof -
  have core: "b \<in> set (map fst (filter (\<lambda>(_, co, _). co) named))" if "(b, True, se) \<in> set named" for b se
    using that by (simp add: image_iff) (metis (mono_tags, lifting) case_prod_conv fst_conv)
  have sec: "b \<in> set (map fst (filter (\<lambda>(_, _, se). se) named))" if "(b, co, True) \<in> set named" for b co
    using that by (simp add: image_iff) (metis (mono_tags, lifting) case_prod_conv fst_conv)
  have "\<exists>b s. (b, True, s) \<in> set named"
  proof (rule ccontr)
    assume "\<nexists>b s. (b, True, s) \<in> set named"
    then have "filter (\<lambda>(_, co, _). co) named = []" by (auto simp: filter_empty_conv)
    with assms(1) show False by simp
  qed
  moreover have "b \<noteq> f \<and> b \<noteq> p" if "(b, co, se) \<in> set named" "co \<or> se" for b co se
    using that core [of b se] sec [of b co] assms(2-4) by (cases co; cases se) (simp_all only: set_append Un_iff, blast+)
  ultimately show ?thesis by blast
qed

lemma read_checks_verdict:
  assumes "read_checks advisory reply = Inr (Some v)"
  shows "v \<in> {''blocked'', ''red'', ''green''} \<and> (v = ''green'' \<longrightarrow> (\<exists>named. read_named advisory reply = Inr named
    \<and> (\<exists>b s. (b, True, s) \<in> set named) \<and> (\<forall>(b, co, se) \<in> set named. co \<or> se \<longrightarrow> b \<noteq> JStr ''fail'' \<and> b \<noteq> JStr ''pending'')))"
proof -
  from assms obtain named where n: "read_named advisory reply = Inr named"
    and v: "(let core = map fst (filter (\<lambda>(_, co, _). co) named); sec = map fst (filter (\<lambda>(_, _, se). se) named) in
       if JStr ''fail'' \<in> set sec then Some ''blocked'' else if JStr ''fail'' \<in> set core then Some ''red''
       else if core \<noteq> [] \<and> JStr ''pending'' \<notin> set (core @ sec) then Some ''green'' else None) = Some v"
    unfolding read_checks_def read_named_def by (auto simp: Let_def)
  let ?core = "map fst (filter (\<lambda>(_, co, _). co) named)"
  let ?sec = "map fst (filter (\<lambda>(_, _, se). se) named)"
  have words: "''blocked'' \<noteq> ''green''" "''red'' \<noteq> ''green''" by simp_all
  show ?thesis
  proof (cases "JStr ''fail'' \<in> set ?sec \<or> JStr ''fail'' \<in> set ?core")
    case True
    then have "v = ''blocked'' \<or> v = ''red''" using v unfolding Let_def by (simp only: split: if_splits) blast+
    with words show ?thesis by blast
  next
    case False
    then have "v = ''green''" "?core \<noteq> []" "JStr ''pending'' \<notin> set (?core @ ?sec)"
      using v unfolding Let_def by (simp_all only: if_False simp_thms option.inject option.distinct split: if_splits)
    with False check_lists [of named "JStr ''pending''" "JStr ''fail''"] n show ?thesis by blast
  qed
qed

lemma checks_verdict_cases:
  "github_checks_verdict advisory deadline polls = Some (Inr v) \<Longrightarrow> v \<in> {''green'', ''red'', ''blocked'', ''timeout''}
     \<and> (v = ''green'' \<longrightarrow> (\<exists>(reply, now) \<in> set polls. read_checks advisory reply = Inr (Some ''green'')))"
proof (induction polls)
  case (Cons p polls)
  obtain reply now where p: "p = (reply, now)" by (cases p)
  show ?case
  proof (cases "read_checks advisory reply")
    case (Inr w)
    show ?thesis
    proof (cases w)
      case None
      with Cons Inr show ?thesis unfolding p by (auto split: if_splits)
    next
      case (Some u)
      with Cons.prems Inr read_checks_verdict [of advisory reply u] show ?thesis unfolding p by auto
    qed
  qed (use Cons.prems in \<open>simp add: p\<close>)
qed simp

lemma checks_verdict_ends:
  "\<exists>(reply, now) \<in> set polls. deadline \<le> now \<Longrightarrow> github_checks_verdict advisory deadline polls \<noteq> None"
proof (induction polls)
  case (Cons p polls)
  then show ?case by (cases p) (auto split: sum.splits option.splits)
qed simp

text \<open>The checks of a pull request are green only with something to show: a poll listed at least one core check that is not
  advisory, and no core or security check of it failed or was pending; and polling ends by its deadline.\<close>

theorem checks_green_needs_core:
  "(github_checks_verdict advisory deadline polls = Some (Inr ''green'') \<longrightarrow> (\<exists>reply now named. (reply, now) \<in> set polls
      \<and> read_named advisory reply = Inr named \<and> (\<exists>b s. (b, True, s) \<in> set named)
      \<and> (\<forall>(b, co, se) \<in> set named. co \<or> se \<longrightarrow> b \<noteq> JStr ''fail'' \<and> b \<noteq> JStr ''pending'')))
   \<and> ((\<exists>(reply, now) \<in> set polls. deadline \<le> now) \<longrightarrow> github_checks_verdict advisory deadline polls \<noteq> None)"
proof (intro conjI impI)
  assume "github_checks_verdict advisory deadline polls = Some (Inr ''green'')"
  from checks_verdict_cases [OF this] obtain reply now where p: "(reply, now) \<in> set polls" "read_checks advisory reply = Inr (Some ''green'')"
    by blast
  with read_checks_verdict [OF p(2)] show "\<exists>reply now named. (reply, now) \<in> set polls
      \<and> read_named advisory reply = Inr named \<and> (\<exists>b s. (b, True, s) \<in> set named)
      \<and> (\<forall>(b, co, se) \<in> set named. co \<or> se \<longrightarrow> b \<noteq> JStr ''fail'' \<and> b \<noteq> JStr ''pending'')" by blast
next
  assume "\<exists>(reply, now) \<in> set polls. deadline \<le> now"
  then show "github_checks_verdict advisory deadline polls \<noteq> None" by (rule checks_verdict_ends)
qed

definition demo_check :: "string \<Rightarrow> string \<Rightarrow> json" where
  "demo_check n b = JObj [(''name'', JStr n), (''bucket'', JStr b)]"

lemma checks_green_needs_core_witness:
  "github_checks_verdict [''lint''] 1500 [(Some (JArr [demo_check ''Lint'' ''fail'', demo_check ''pytest'' ''pending'']), 20),
     (Some (JArr [demo_check ''Lint'' ''fail'', demo_check ''pytest'' ''pass'']), 40)] = Some (Inr ''green'')
   \<and> (\<exists>reply named. read_named [''lint''] reply = Inr named \<and> (\<exists>b s. (b, True, s) \<in> set named))"
proof -
  let ?polls = "[(Some (JArr [demo_check ''Lint'' ''fail'', demo_check ''pytest'' ''pending'']), 20),
     (Some (JArr [demo_check ''Lint'' ''fail'', demo_check ''pytest'' ''pass'']), 40)]"
  have "github_checks_verdict [''lint''] 1500 ?polls = Some (Inr ''green'')" by code_simp
  with checks_green_needs_core [of "[''lint'']" 1500 ?polls] show ?thesis by blast
qed

text \<open>A deviation: a core check that was cancelled or skipped counts as passed. Only failed and pending checks stand in the
  way of a merge, so a pull request whose only test run was cancelled is green.\<close>

theorem cancelled_check_is_green:
  "github_checks_verdict [] 1500 [(Some (JArr [demo_check ''test'' ''cancel'', demo_check ''pytest'' ''skipping'']), 0)] = Some (Inr ''green'')"
  by code_simp

end
