(* ===== verification/Engineering.thy ===== *)
theory Engineering
  imports MergeGate Dispatch
begin

text \<open>
  The gated executor (\<open>src/skharness/autocode/engineering.py\<close>, with the usage of \<open>joules.py\<close> and the settlement guard of
  \<open>autopilot_cost.py\<close>): at most four rounds of work, CI, coverage and an independent grade; then the landing of a
  result by commit, settlement, pull request and, where everything allows it, a merge.

  State: the usage on the books per card, the cards of the settlement journal, and the trace of what was done.
  What harness, git, gh, CI, the coverage run and the wallet answer is a parameter and may depend on the
  trace. Board, journal and health calls are taken to succeed, the claim excepted; health records are left
  out. An exception ends a call with the state it has reached.
\<close>

section \<open>Promises\<close>

text \<open>\<open>_PROMISE\<close> at the start of a string: the signal and what follows the closing tag.\<close>

definition signal_char :: "char \<Rightarrow> bool" where
  "signal_char c \<longleftrightarrow> (let n = (of_char c :: nat) in 65 \<le> n \<and> n \<le> 90) \<or> c = CHR ''_''"

definition promise_at :: "string \<Rightarrow> (string \<times> string) option" where
  "promise_at s =
     (if prefix ''<promise>'' s
      then (let r = dropWhile py_isspace (drop 9 s); r' = dropWhile py_isspace (dropWhile signal_char r)
            in if takeWhile signal_char r \<noteq> [] \<and> prefix ''</promise>'' r' then Some (takeWhile signal_char r, drop 10 r') else None)
      else None)"

fun parse_promise :: "string \<Rightarrow> string option" where
  "parse_promise [] = None"
| "parse_promise (c # cs) = (case promise_at (c # cs) of Some (w, _) \<Rightarrow> Some w | None \<Rightarrow> parse_promise cs)"

lemma promise_at_shorter: "promise_at s = Some (w, r) \<Longrightarrow> length r < length s"
proof -
  assume "promise_at s = Some (w, r)"
  then have p: "prefix ''<promise>'' s"
    and r: "r = drop 10 (dropWhile py_isspace (dropWhile signal_char (dropWhile py_isspace (drop 9 s))))"
    unfolding promise_at_def Let_def by (auto split: if_splits)
  have "length r \<le> length (drop 9 s)" unfolding r
    by (meson length_dropWhile_le le_trans diff_le_self length_drop order.refl order_trans suffix_drop suffix_length_le)
  moreover have "9 \<le> length s" using prefix_length_le [OF p] by simp
  ultimately show ?thesis by simp
qed

function drop_promises :: "string \<Rightarrow> string" where
  "drop_promises [] = []"
| "drop_promises (c # cs) = (case promise_at (c # cs) of Some (_, r) \<Rightarrow> drop_promises r | None \<Rightarrow> c # drop_promises cs)"
  by pat_completeness auto
termination by (relation "measure length") (auto dest: promise_at_shorter)

definition strip_promise :: "string \<Rightarrow> string" where
  "strip_promise s = py_strip (drop_promises s)"

definition is_complete :: "string \<Rightarrow> bool" where
  "is_complete s \<longleftrightarrow> parse_promise s = Some ''COMPLETE''"

section \<open>Results and the twin gate\<close>

record GateResult =
  gr_score :: "int option"
  gr_passed :: bool
  gr_notes :: string
  gr_artifact :: "string option"
  gr_mode :: string
  gr_outcome :: string
  gr_tokens :: int
  gr_cost :: real
  gr_mutation :: "json option"

definition GATE_OUTCOMES :: "string list" where
  "GATE_OUTCOMES = [''pass'', ''ci_red'', ''no_op'', ''salvage'', ''direct_fail'']"

definition mk_GateResult :: "GateResult \<Rightarrow> GateResult result" where
  "mk_GateResult g = check [(gr_outcome g \<notin> set GATE_OUTCOMES \<and> gr_outcome g \<noteq> ''unrecorded'',
     ValueError ''GateResult.outcome must be one of the gate outcomes or unrecorded'')] (Inr g)"

definition twin_gate_passed :: "GateResult \<Rightarrow> string \<Rightarrow> real option \<Rightarrow> RepoSpec \<Rightarrow> bool" where
  "twin_gate_passed g ci_status cov R \<longleftrightarrow> gr_score g = Some 5 \<and> is_complete (gr_notes g) \<and> ci_status = ''green''
     \<and> (case cov of None \<Rightarrow> False | Some c \<Rightarrow> min_diff_coverage R \<le> c)"

section \<open>What a build costs\<close>

record BuildUsage =
  bu_model :: string
  input_tokens :: int
  output_tokens :: int
  bu_cost :: real
  bu_turns :: int

definition no_build_usage :: BuildUsage where
  "no_build_usage = \<lparr>bu_model = ''unknown'', input_tokens = 0, output_tokens = 0, bu_cost = 0, bu_turns = 0\<rparr>"

definition add_usage :: "BuildUsage \<Rightarrow> BuildUsage \<Rightarrow> BuildUsage" where
  "add_usage r u = u\<lparr>bu_model := (if bu_model r \<noteq> [] then bu_model r else bu_model u), input_tokens := input_tokens u + input_tokens r,
     output_tokens := output_tokens u + output_tokens r, bu_cost := bu_cost u + bu_cost r, bu_turns := bu_turns u + bu_turns r\<rparr>"

definition bu_tokens :: "BuildUsage \<Rightarrow> int" where
  "bu_tokens u = input_tokens u + output_tokens u"

text \<open>\<open>int(v or 0)\<close> and \<open>float(v or 0.0)\<close>; the text of a float is read by a parameter.\<close>

fun json_int :: "json \<Rightarrow> int result" where
  "json_int (JBool b) = Inr (if b then 1 else 0)"
| "json_int (JNum x) = Inr (if x \<ge> 0 then \<lfloor>x\<rfloor> else \<lceil>x\<rceil>)"
| "json_int (JStr s) = (if s = [] then Inr 0 else case py_int s of None \<Rightarrow> Inl (ValueError ''invalid literal for int()'') | Some n \<Rightarrow> Inr n)"
| "json_int v = (if truthy v then Inl (TypeError ''int() argument'') else Inr 0)"

fun json_float :: "(string \<Rightarrow> real option) \<Rightarrow> json \<Rightarrow> real result" where
  "json_float fl (JBool b) = Inr (if b then 1 else 0)"
| "json_float fl (JNum x) = Inr x"
| "json_float fl (JStr s) = (if s = [] then Inr 0 else case fl s of None \<Rightarrow> Inl (ValueError ''could not convert string to float'') | Some x \<Rightarrow> Inr x)"
| "json_float fl v = (if truthy v then Inl (TypeError ''float() argument'') else Inr 0)"

record harness_result =
  hr_raw :: json
  hr_tokens :: int
  hr_cost :: real

definition field :: "payload \<Rightarrow> string \<Rightarrow> json" where
  "field d k = (case map_of d k of None \<Rightarrow> JNull | Some v \<Rightarrow> v)"

definition from_claude_json :: "(string \<Rightarrow> real option) \<Rightarrow> (json \<Rightarrow> string) \<Rightarrow> payload \<Rightarrow> string \<Rightarrow> BuildUsage result" where
  "from_claude_json fl str raw default_model =
     (case if truthy (field raw ''usage'') then field raw ''usage'' else JObj [] of JObj u \<Rightarrow>
        rbind (json_int (field u ''input_tokens'')) (\<lambda>a. rbind (json_int (field u ''cache_read_input_tokens'')) (\<lambda>b.
        rbind (json_int (field u ''cache_creation_input_tokens'')) (\<lambda>c. rbind (json_int (field u ''output_tokens'')) (\<lambda>out.
        rbind (json_float fl (field raw ''total_cost_usd'')) (\<lambda>cost. rbind (json_int (field raw ''num_turns'')) (\<lambda>turns.
          Inr \<lparr>bu_model = (if truthy (field raw ''model'') then str (field raw ''model'') else default_model),
            input_tokens = a + b + c, output_tokens = out, bu_cost = cost, bu_turns = turns\<rparr>))))))
      | _ \<Rightarrow> Inl (AttributeError ''get''))"

definition from_harness_result :: "(string \<Rightarrow> real option) \<Rightarrow> (json \<Rightarrow> string) \<Rightarrow> harness_result \<Rightarrow> string \<Rightarrow> BuildUsage result" where
  "from_harness_result fl str hr adapter =
     (let flat = Inr \<lparr>bu_model = (if adapter \<noteq> [] then adapter else ''unknown''), input_tokens = 0, output_tokens = hr_tokens hr,
            bu_cost = hr_cost hr, bu_turns = 1\<rparr> in
      case hr_raw hr of JObj raw \<Rightarrow>
        if truthy (field raw ''usage'') then from_claude_json fl str raw (if adapter \<noteq> [] then adapter else ''unknown'') else flat
      | _ \<Rightarrow> flat)"

section \<open>The executor\<close>

record WorkItem =
  wi_ref :: string
  wi_tags :: "string list"
  wi_payload :: payload

record TaskBrief =
  tb_ref :: string
  tb_repo :: RepoSpec
  tb_worktree :: string
  tb_title :: json
  tb_description :: json
  tb_acceptance :: json
  tb_feedback :: "string option"
  tb_success :: "string option"
  tb_round :: nat
  tb_model :: json

record GradeBrief =
  gb_ref :: string
  gb_repo :: RepoSpec
  gb_worktree :: string
  gb_diff :: string
  gb_acceptance :: json
  gb_ci :: string
  gb_coverage :: "real option"
  gb_model :: json

datatype event =
    Claimed string
  | Worktree string
  | Ran TaskBrief
  | Accrued string BuildUsage
  | Graded GradeBrief
  | Scored string nat int string
  | Attempt string nat string string
  | Success string string
  | Attempts_cleared string
  | Unsettled string string BuildUsage
  | Settled string BuildUsage bool
  | Verdict_recorded string nat string bool
  | Committed string
  | Pr_opened string
  | Carveout bool "string list"
  | Pruned string
  | Merge "string list"
  | Merge_recorded string string
  | Completed string
  | Decision string string

type_synonym trace = "event list"

record executor =
  ex_books :: "(string \<times> BuildUsage) list"
  ex_settled :: "string list"
  ex_trace :: trace

record engine_config =
  ec_repo_map :: "(string \<times> RepoSpec) list"
  ec_automerge_repos :: "string list"

record engine_world =
  en_claim :: "trace \<Rightarrow> string option"
  en_worktree :: "trace \<Rightarrow> string result"
  en_prior :: "payload \<Rightarrow> string option"
  en_prior_success :: "payload \<Rightarrow> string option"
  en_harness_name :: string
  en_task :: "trace \<Rightarrow> TaskBrief \<Rightarrow> harness_result result"
  en_float :: "string \<Rightarrow> real option"
  en_str :: "json \<Rightarrow> string"
  en_diff :: "trace \<Rightarrow> string"
  en_head :: "trace \<Rightarrow> string"
  en_ci :: "trace \<Rightarrow> RepoSpec \<Rightarrow> string \<Rightarrow> string \<Rightarrow> string result"
  en_coverage :: "trace \<Rightarrow> RepoSpec \<Rightarrow> string \<Rightarrow> real option result"
  en_grade :: "trace \<Rightarrow> GradeBrief \<Rightarrow> GateResult result"
  en_shadow :: "trace \<Rightarrow> string \<Rightarrow> json option"
  en_distill :: "string \<Rightarrow> string"
  en_pr :: "trace \<Rightarrow> string"
  en_worktree_for :: "string \<Rightarrow> string option"
  en_isdir :: "string \<Rightarrow> bool"
  en_cleared :: "trace \<Rightarrow> nat"
  en_settle :: "trace \<Rightarrow> BuildUsage \<Rightarrow> bool"
  en_append :: "trace \<Rightarrow> bool"
  en_changed :: "trace \<Rightarrow> int \<times> string"
  en_manifest :: "trace \<Rightarrow> manifest_file"
  en_polls :: "trace \<Rightarrow> (json option \<times> real) list"
  en_started :: "trace \<Rightarrow> real"
  en_repo_json :: "trace \<Rightarrow> json"
  en_rules :: "trace \<Rightarrow> json"
  en_pr_head :: "trace \<Rightarrow> json"
  en_merge :: "trace \<Rightarrow> string list \<Rightarrow> int"
  en_merge_sha :: "trace \<Rightarrow> string"

definition log_event :: "event \<Rightarrow> executor \<Rightarrow> executor" where
  "log_event e s = s\<lparr>ex_trace := ex_trace s @ [e]\<rparr>"

definition pr_branch :: "WorkItem \<Rightarrow> string" where
  "pr_branch item = ''autopilot/'' @ wi_ref item"

definition repo_of :: "engine_config \<Rightarrow> WorkItem \<Rightarrow> RepoSpec option" where
  "repo_of cfg item = resolve_repo (wi_tags item) (ec_repo_map cfg)"

text \<open>\<open>setdefault\<close> stays when the reply cannot be read.\<close>

definition accrue_usage :: "engine_world \<Rightarrow> string \<Rightarrow> harness_result \<Rightarrow> executor \<Rightarrow> executor" where
  "accrue_usage W ref hr s =
     (let u = (case map_of (ex_books s) ref of None \<Rightarrow> no_build_usage | Some u \<Rightarrow> u); s = s\<lparr>ex_books := dput ref u (ex_books s)\<rparr> in
      case from_harness_result (en_float W) (en_str W) hr (en_harness_name W) of
        Inl _ \<Rightarrow> s
      | Inr r \<Rightarrow> log_event (Accrued ref r) (s\<lparr>ex_books := dput ref (add_usage r u) (ex_books s)\<rparr>))"

definition on_books :: "string \<Rightarrow> executor \<Rightarrow> BuildUsage" where
  "on_books ref s = (case map_of (ex_books s) ref of None \<Rightarrow> no_build_usage | Some u \<Rightarrow> u)"

definition take_usage :: "string \<Rightarrow> string \<Rightarrow> executor \<Rightarrow> BuildUsage \<times> executor" where
  "take_usage ref oc s = (on_books ref s, log_event (Unsettled ref oc (on_books ref s)) (s\<lparr>ex_books := ddel ref (ex_books s)\<rparr>))"

definition claim :: "engine_world \<Rightarrow> WorkItem \<Rightarrow> executor \<Rightarrow> unit result \<times> executor" where
  "claim W item s = (case en_claim W (ex_trace s) of Some e \<Rightarrow> (Inl (ClaimRaced e), s) | None \<Rightarrow> (Inr (), log_event (Claimed (wi_ref item)) s))"

text \<open>A bucket, validated as it is attached to a brief.\<close>

definition attached :: "string option \<Rightarrow> json result" where
  "attached model = rbind (attach_dispatch_model (JStr ''model'') [] model) (\<lambda>b. Inr (dispatch_model_of b))"

definition dget_or :: "payload \<Rightarrow> string \<Rightarrow> json \<Rightarrow> json" where
  "dget_or d k v = (case map_of d k of None \<Rightarrow> v | Some w \<Rightarrow> w)"

definition empty_feedback :: string where
  "empty_feedback = ''You produced NO changes to the repository. If the acceptance criteria are ALREADY satisfied by existing code on this branch, do not re-implement -- instead make a minimal no-op-safe adjustment ONLY if something is genuinely missing. Otherwise create/edit the required files now; an empty diff cannot pass review.''"

definition terminal_result :: "int option \<Rightarrow> bool \<Rightarrow> string \<Rightarrow> string option \<Rightarrow> string \<Rightarrow> BuildUsage \<Rightarrow> json option \<Rightarrow> GateResult" where
  "terminal_result sc passed notes art oc u mu =
     \<lparr>gr_score = sc, gr_passed = passed, gr_notes = notes, gr_artifact = art, gr_mode = ''gated'', gr_outcome = oc,
      gr_tokens = bu_tokens u, gr_cost = bu_cost u, gr_mutation = mu\<rparr>"

text \<open>What a round hands to the next.\<close>

record loop_vars =
  lp_feedback :: "string option"
  lp_last :: "GateResult option"
  lp_empty :: nat

definition MAX_ROUNDS :: nat where
  "MAX_ROUNDS = 4"

definition no_op_notes :: string where
  "no_op_notes = ''no-op: the agent produced no diff in 2 rounds. The acceptance is likely ALREADY satisfied on the base branch (stale card) or the harness cannot write. This is not a gate failure -- review the card.''"

definition empty_round :: "engine_world \<Rightarrow> WorkItem \<Rightarrow> nat \<Rightarrow> loop_vars \<Rightarrow> executor \<Rightarrow> (GateResult + loop_vars) result \<times> executor" where
  "empty_round W item rnd lp s =
     (if lp_empty lp + 1 \<ge> 2
      then (case take_usage (wi_ref item) ''no_op'' (log_event (Attempt (wi_ref item) rnd ''no_op''
                ''no diff in 2 rounds; acceptance likely already satisfied on the base branch, or the harness cannot write'') s) of
              (u, s) \<Rightarrow> (Inr (Inl (terminal_result None False no_op_notes None ''no_op'' u None)), s))
      else (Inr (Inr (lp\<lparr>lp_feedback := Some empty_feedback, lp_empty := lp_empty lp + 1\<rparr>)), s))"

definition salvages :: "GateResult \<Rightarrow> string \<Rightarrow> real option \<Rightarrow> RepoSpec \<Rightarrow> string \<Rightarrow> bool" where
  "salvages g ci_status cov R diff \<longleftrightarrow> \<not> twin_gate_passed g ci_status cov R \<and> gr_score g = None \<and> ci_status = ''green'' \<and> \<not> blank diff
     \<and> (case cov of None \<Rightarrow> True | Some c \<Rightarrow> min_diff_coverage R \<le> c)"

definition commit_and_push :: "WorkItem \<Rightarrow> executor \<Rightarrow> executor" where
  "commit_and_push item s = log_event (Committed (pr_branch item)) s"

definition open_pr :: "engine_world \<Rightarrow> executor \<Rightarrow> string \<times> executor" where
  "open_pr W s = (en_pr W (ex_trace s), log_event (Pr_opened (en_pr W (ex_trace s))) s)"

definition after_grade :: "engine_world \<Rightarrow> WorkItem \<Rightarrow> RepoSpec \<Rightarrow> nat \<Rightarrow> string \<Rightarrow> string \<Rightarrow> real option \<Rightarrow> GateResult \<Rightarrow> executor
    \<Rightarrow> (GateResult + loop_vars) result \<times> executor" where
  "after_grade W item R rnd diff ci_status cov g s =
     (let s = log_event (Scored (wi_ref item) rnd (case gr_score g of None \<Rightarrow> 0 | Some n \<Rightarrow> n) (strip_promise (gr_notes g))) s in
      if twin_gate_passed g ci_status cov R
      then (Inr (Inl (terminal_result (gr_score g) True (strip_promise (gr_notes g)) (gr_artifact g) ''pass'' (on_books (wi_ref item) s)
              (en_shadow W (ex_trace s) diff))), log_event (Verdict_recorded (wi_ref item) rnd ''pass'' True) s)
      else if salvages g ci_status cov R diff
      then (let shadow = en_shadow W (ex_trace s) diff in
            case open_pr W (commit_and_push item s) of (url, s) \<Rightarrow> case take_usage (wi_ref item) ''salvage'' s of (u, s) \<Rightarrow>
              (Inr (Inl (terminal_result None False (''grade inconclusive but CI green + coverage met; opened PR '' @ url
                 @ '' for human review (NOT auto-merged).'') (Some url) ''salvage'' u shadow)),
               log_event (Verdict_recorded (wi_ref item) rnd ''salvage'' False) s))
      else (Inr (Inr \<lparr>lp_feedback = Some (strip_promise (gr_notes g)), lp_last = Some g, lp_empty = 0\<rparr>), s))"

definition grade_round :: "engine_world \<Rightarrow> WorkItem \<Rightarrow> RepoSpec \<Rightarrow> string \<Rightarrow> string option \<Rightarrow> nat \<Rightarrow> string \<Rightarrow> executor
    \<Rightarrow> (GateResult + loop_vars) result \<times> executor" where
  "grade_round W item R wt model rnd diff s =
     sbind (pure_call (en_ci W (ex_trace s) R (en_head W (ex_trace s)) diff) s) (\<lambda>ci_status s.
     sbind (pure_call (en_coverage W (ex_trace s) R diff) s) (\<lambda>cov s.
     sbind (pure_call (attached model) s) (\<lambda>m s.
     let gb = \<lparr>gb_ref = wi_ref item, gb_repo = R, gb_worktree = wt, gb_diff = diff,
           gb_acceptance = dget_or (wi_payload item) ''acceptance'' (JArr []), gb_ci = ci_status, gb_coverage = cov, gb_model = m\<rparr>;
         s = log_event (Graded gb) s
     in sbind (pure_call (en_grade W (ex_trace s) gb) s) (\<lambda>g s. after_grade W item R rnd diff ci_status cov g s))))"

definition work_round :: "engine_world \<Rightarrow> WorkItem \<Rightarrow> RepoSpec \<Rightarrow> string \<Rightarrow> string option \<Rightarrow> nat \<Rightarrow> loop_vars \<Rightarrow> executor
    \<Rightarrow> (GateResult + loop_vars) result \<times> executor" where
  "work_round W item R wt model rnd lp s =
     sbind (pure_call (attached model) s) (\<lambda>m s.
     let p = wi_payload item;
         tb = \<lparr>tb_ref = wi_ref item, tb_repo = R, tb_worktree = wt, tb_title = dget_or p ''title'' (JStr []),
           tb_description = dget_or p ''description'' (JStr []), tb_acceptance = dget_or p ''acceptance'' (JArr []),
           tb_feedback = lp_feedback lp, tb_success = en_prior_success W p, tb_round = rnd, tb_model = m\<rparr>;
         s = log_event (Ran tb) s
     in sbind (pure_call (en_task W (ex_trace s) tb) s) (\<lambda>hr s.
        let s = accrue_usage W (wi_ref item) hr s; diff = en_diff W (ex_trace s) in
        if blank diff then empty_round W item rnd lp s else grade_round W item R wt model rnd diff s))"

definition give_up :: "engine_world \<Rightarrow> WorkItem \<Rightarrow> nat \<Rightarrow> loop_vars \<Rightarrow> executor \<Rightarrow> GateResult result \<times> executor" where
  "give_up W item rnd lp s =
     (let notes = (case lp_last lp of None \<Rightarrow> [] | Some g \<Rightarrow> strip_promise (gr_notes g));
          s = log_event (Attempt (wi_ref item) rnd ''ci_red'' (en_distill W notes)) s
      in case take_usage (wi_ref item) ''ci_red'' s of (u, s) \<Rightarrow>
        (Inr (terminal_result (Option.bind (lp_last lp) gr_score) False (''did not converge in '' @ nat_digits MAX_ROUNDS @ '' rounds: '' @ notes)
           (Option.bind (lp_last lp) gr_artifact) ''ci_red'' u None),
         if lp_last lp = None then s else log_event (Verdict_recorded (wi_ref item) rnd ''ci_red'' False) s))"

fun do_rounds :: "engine_world \<Rightarrow> WorkItem \<Rightarrow> RepoSpec \<Rightarrow> string \<Rightarrow> string option \<Rightarrow> nat list \<Rightarrow> nat \<Rightarrow> loop_vars \<Rightarrow> executor
    \<Rightarrow> GateResult result \<times> executor" where
  "do_rounds W item R wt model [] rnd lp s = give_up W item rnd lp s"
| "do_rounds W item R wt model (r # rs) rnd lp s =
     sbind (work_round W item R wt model r lp s) (\<lambda>x s. case x of Inl g \<Rightarrow> (Inr g, s)
       | Inr lp \<Rightarrow> do_rounds W item R wt model rs r lp s)"

definition run :: "engine_world \<Rightarrow> engine_config \<Rightarrow> WorkItem \<Rightarrow> executor \<Rightarrow> GateResult result \<times> executor" where
  "run W cfg item s =
     sbind (claim W item s) (\<lambda>_ s.
     case repo_of cfg item of None \<Rightarrow> (Inl (AttributeError ''path''), s)
     | Some R \<Rightarrow> sbind (pure_call (en_worktree W (ex_trace s)) s) (\<lambda>wt s.
         let s = log_event (Worktree wt) s in
         sbind (pure_call (bucket_for_payload (JObj (wi_payload item))) s) (\<lambda>model s.
           do_rounds W item R wt model [1..<MAX_ROUNDS + 1] 0
             \<lparr>lp_feedback = en_prior W (wi_payload item), lp_last = None, lp_empty = 0\<rparr> s)))"

section \<open>Landing a result\<close>

text \<open>\<open>_settle_economics\<close>: whether the wallet recorded the settlement is \<open>en_settle\<close>, whether the journal took the row is \<open>en_append\<close>.\<close>

definition settle_economics :: "engine_world \<Rightarrow> string \<Rightarrow> executor \<Rightarrow> executor" where
  "settle_economics W ref s =
     (if ref \<in> set (ex_settled s) then snd (take_usage ref ''pass'' s)
      else (let u = on_books ref s; s = s\<lparr>ex_books := ddel ref (ex_books s)\<rparr>; recorded = en_settle W (ex_trace s) u;
                s = log_event (Settled ref u recorded) s
            in if recorded \<and> en_append W (ex_trace s) then s\<lparr>ex_settled := ex_settled s @ [ref]\<rparr> else s))"

definition changed_paths :: "engine_world \<Rightarrow> trace \<Rightarrow> string list" where
  "changed_paths W tr = filter (\<lambda>l. \<not> blank l) (splitlines (snd (en_changed W tr)))"

fun pr_head_sha :: "json \<Rightarrow> string" where
  "pr_head_sha (JObj d) = (case map_of d ''headRefOid'' of Some (JStr h) \<Rightarrow> h | _ \<Rightarrow> [])"
| "pr_head_sha _ = []"

definition gh_merge :: "engine_world \<Rightarrow> WorkItem \<Rightarrow> executor \<Rightarrow> bool \<times> executor" where
  "gh_merge W item s =
     (case resolve_protected_merge_method (protected_merge_policy (en_repo_json W (ex_trace s)) (en_rules W (ex_trace s))) of
        None \<Rightarrow> (False, s)
      | Some m \<Rightarrow>
          let head = pr_head_sha (en_pr_head W (ex_trace s)); argv = merge_argv (pr_branch item) m head in
          if head = [] then (False, s) else (en_merge W (ex_trace s) argv = 0, log_event (Merge argv) s))"

text \<open>A script of polls that ends before the loop does is a process killed while it waits.\<close>

definition checks_verdict :: "engine_world \<Rightarrow> RepoSpec \<Rightarrow> trace \<Rightarrow> string result" where
  "checks_verdict W R tr = (case github_checks_verdict (advisory_checks R) (en_started W tr + AUTOMERGE_CI_TIMEOUT) (en_polls W tr) of
     None \<Rightarrow> Inl (RuntimeError ''killed while waiting'') | Some v \<Rightarrow> v)"

definition try_automerge :: "engine_world \<Rightarrow> WorkItem \<Rightarrow> RepoSpec \<Rightarrow> string \<Rightarrow> executor \<Rightarrow> unit result \<times> executor" where
  "try_automerge W item R url s =
     sbind (pure_call (checks_verdict W R (ex_trace s)) s) (\<lambda>verdict s.
     case (if verdict = ''green'' then gh_merge W item (log_event (Pruned (wi_ref item)) s) else (False, s)) of
       (True, s) \<Rightarrow> (Inr (), log_event (Completed (wi_ref item)) (log_event (Merge_recorded url (en_merge_sha W (ex_trace s))) s))
     | (False, s) \<Rightarrow> (Inr (), log_event (Decision (''merge:'' @ wi_ref item)
         (''auto-merge HELD ('' @ verdict @ '') for PR '' @ url @ '' task '' @ wi_ref item @ '' -- review then merge/close'')) s))"

definition listed :: "string list \<Rightarrow> string" where
  "listed ps = py_join '', '' (take 20 ps)"

definition land :: "engine_world \<Rightarrow> engine_config \<Rightarrow> WorkItem \<Rightarrow> RepoSpec \<Rightarrow> bool \<Rightarrow> executor \<Rightarrow> unit result \<times> executor" where
  "land W cfg item R passed s =
     (case open_pr W s of (url, s) \<Rightarrow>
      let auto = (repo_name R \<in> set (ec_automerge_repos cfg) \<and> repo_ci R \<noteq> ''none'' \<and> passed \<and> automerge R) in
      sbind (pure_call (matched_protected_paths (en_manifest W (ex_trace s)) (changed_paths W (ex_trace s))) s) (\<lambda>guardrails s.
      let s = log_event (Carveout auto guardrails) s in
      if auto \<and> guardrails \<noteq> []
      then (Inr (), log_event (Decision (''carveout:'' @ wi_ref item) (''CARVE-OUT HELD: PR '' @ url @ '' task '' @ wi_ref item
         @ '' touches protected guardrail files (freeze / twin gate / signing / escalation / carve-out). Never auto-merges regardless of grade or CI; review then merge by hand. Files: ''
         @ listed guardrails)) s)
      else if auto then try_automerge W item R url s
      else (Inr (), log_event (Decision (''merge:'' @ wi_ref item) (''Merge PR '' @ url @ '' for task '' @ wi_ref item @ ''?''
         @ (if guardrails = [] then [] else '' TOUCHES PROTECTED GUARDRAILS (self-modification carve-out): '' @ listed guardrails
              @ ''. Review these files by hand before merging.''))) s)))"

text \<open>What a pass does to the memory of the card, before anything that can fail.\<close>

definition remember_pass :: "engine_world \<Rightarrow> WorkItem \<Rightarrow> GateResult \<Rightarrow> executor \<Rightarrow> executor" where
  "remember_pass W item g s =
     (let s = (if gr_outcome g \<in> set GATE_OUTCOMES then log_event (Success (wi_ref item) (gr_outcome g)) s else s) in
      if en_cleared W (ex_trace s) > 0 then log_event (Attempts_cleared (wi_ref item)) s else s)"

definition finalize :: "engine_world \<Rightarrow> engine_config \<Rightarrow> WorkItem \<Rightarrow> GateResult \<Rightarrow> executor \<Rightarrow> unit result \<times> executor" where
  "finalize W cfg item g s =
     (if gr_mode g \<noteq> ''gated'' then (Inl (RuntimeError ''EngineeringExecutor cannot finalize a non-gated result''), s)
      else case en_worktree_for W (wi_ref item) of
        None \<Rightarrow> (Inl (RuntimeError ''finalize: worktree is missing''), s)
      | Some wt \<Rightarrow>
          if wt = [] \<or> \<not> en_isdir W wt then (Inl (RuntimeError ''finalize: worktree is missing''), s)
          else (let s = (if gr_passed g then remember_pass W item g s else s);
                    s = commit_and_push item s;
                    s = (if gr_passed g then settle_economics W (wi_ref item) s else s)
                in case repo_of cfg item of None \<Rightarrow> (Inl (AttributeError ''integration_branch''), s)
                   | Some R \<Rightarrow> land W cfg item R (gr_passed g) s))"

end
