(* ===== verification/GatedRuns.thy ===== *)
theory GatedRuns
  imports Engineering
begin

text \<open>
  What the gated executor of \<open>Engineering\<close> guarantees: a pass is earned on one diff, the tokens of a run are
  reported and taken off the books, a merge needs every gate of the landing, and a card is settled once. The lemmas follow
  the trace: \<open>worked\<close> and \<open>reported\<close> compose over the rounds, \<open>quiet\<close> over the landing, \<open>booked\<close> over both.
\<close>

section \<open>What a run does\<close>

lemma ex_trace_log [simp]: "ex_trace (log_event e s) = ex_trace s @ [e]"
  by (simp add: log_event_def)

lemma ex_books_log [simp]: "ex_books (log_event e s) = ex_books s" "ex_settled (log_event e s) = ex_settled s"
  by (simp_all add: log_event_def)

lemma on_books_log [simp]: "on_books ref (log_event e s) = on_books ref s"
  by (simp add: on_books_def)

text \<open>The events of a run whose calls address the model \<open>m\<close>, and the tokens that it has charged.\<close>

fun run_event :: "json \<Rightarrow> event \<Rightarrow> bool" where
  "run_event m (Ran tb) = (tb_model tb = m)"
| "run_event m (Graded gb) = (gb_model gb = m)"
| "run_event m (Settled _ _ _) = False"
| "run_event m (Pruned _) = False"
| "run_event m (Merge _) = False"
| "run_event m (Merge_recorded _ _) = False"
| "run_event m (Completed _) = False"
| "run_event m _ = True"

fun is_ran :: "event \<Rightarrow> bool" where
  "is_ran (Ran _) = True"
| "is_ran _ = False"

fun charge_of :: "string \<Rightarrow> event \<Rightarrow> int" where
  "charge_of ref (Accrued r u) = (if r = ref then bu_tokens u else 0)"
| "charge_of ref _ = 0"

definition charged :: "string \<Rightarrow> trace \<Rightarrow> int" where
  "charged ref es = sum_list (map (charge_of ref) es)"

text \<open>Work that leaves the books open: at most \<open>n\<close> sessions, and the books have grown by what was charged.\<close>

definition worked :: "json \<Rightarrow> nat \<Rightarrow> string \<Rightarrow> executor \<Rightarrow> executor \<Rightarrow> bool" where
  "worked m n ref s s' \<longleftrightarrow> (\<exists>es. ex_trace s' = ex_trace s @ es \<and> list_all (run_event m) es \<and> length (filter is_ran es) \<le> n
     \<and> bu_tokens (on_books ref s') = bu_tokens (on_books ref s) + charged ref es)"

text \<open>A result: it reports all that is on the books, and unless it is a pass the books are closed over it.\<close>

definition reported :: "json \<Rightarrow> nat \<Rightarrow> string \<Rightarrow> GateResult \<Rightarrow> executor \<Rightarrow> executor \<Rightarrow> bool" where
  "reported m n ref g s s' \<longleftrightarrow> (\<exists>es. ex_trace s' = ex_trace s @ es \<and> list_all (run_event m) es \<and> length (filter is_ran es) \<le> n
     \<and> gr_tokens g = bu_tokens (on_books ref s) + charged ref es
     \<and> (if gr_passed g then bu_tokens (on_books ref s') = gr_tokens g
        else map_of (ex_books s') ref = None \<and> (\<exists>u. Unsettled ref (gr_outcome g) u \<in> set es \<and> bu_tokens u = gr_tokens g)))
   \<and> gr_mode g = ''gated'' \<and> gr_outcome g \<in> {''pass'', ''salvage'', ''no_op'', ''ci_red''} \<and> (gr_passed g \<longleftrightarrow> gr_outcome g = ''pass'')"

lemma charged_append [simp]: "charged ref (a @ b) = charged ref a + charged ref b" "charged ref [] = 0"
  by (simp_all add: charged_def)

lemma worked_refl: "worked m n ref s s"
  by (auto simp: worked_def)

lemma worked_trans: "worked m k ref s s1 \<Longrightarrow> worked m n ref s1 s2 \<Longrightarrow> worked m (k + n) ref s s2"
  by (fastforce simp: worked_def)

lemma worked_mono: "worked m k ref s s' \<Longrightarrow> k \<le> n \<Longrightarrow> worked m n ref s s'"
  by (fastforce simp: worked_def)

lemma worked_reported: "worked m k ref s s1 \<Longrightarrow> reported m n ref g s1 s2 \<Longrightarrow> reported m (k + n) ref g s s2"
proof -
  assume w: "worked m k ref s s1" and r: "reported m n ref g s1 s2"
  from w obtain a where a: "ex_trace s1 = ex_trace s @ a" "list_all (run_event m) a" "length (filter is_ran a) \<le> k"
    "bu_tokens (on_books ref s1) = bu_tokens (on_books ref s) + charged ref a" by (auto simp: worked_def)
  from r obtain b where b: "ex_trace s2 = ex_trace s1 @ b" "list_all (run_event m) b" "length (filter is_ran b) \<le> n"
    "gr_tokens g = bu_tokens (on_books ref s1) + charged ref b"
    "if gr_passed g then bu_tokens (on_books ref s2) = gr_tokens g
        else map_of (ex_books s2) ref = None \<and> (\<exists>u. Unsettled ref (gr_outcome g) u \<in> set b \<and> bu_tokens u = gr_tokens g)"
    unfolding reported_def by blast
  have "ex_trace s2 = ex_trace s @ (a @ b) \<and> list_all (run_event m) (a @ b) \<and> length (filter is_ran (a @ b)) \<le> k + n
     \<and> gr_tokens g = bu_tokens (on_books ref s) + charged ref (a @ b)
     \<and> (if gr_passed g then bu_tokens (on_books ref s2) = gr_tokens g
        else map_of (ex_books s2) ref = None \<and> (\<exists>u. Unsettled ref (gr_outcome g) u \<in> set (a @ b) \<and> bu_tokens u = gr_tokens g))"
    using a b by (auto split: if_splits)
  then show ?thesis using r unfolding reported_def by blast
qed

lemma worked_log: "run_event m e \<Longrightarrow> \<not> is_ran e \<Longrightarrow> charge_of ref e = 0 \<Longrightarrow> worked m 0 ref s (log_event e s)"
  by (auto simp: worked_def charged_def)

lemma worked_ran: "tb_model tb = m \<Longrightarrow> worked m 1 ref s (log_event (Ran tb) s)"
  by (auto simp: worked_def charged_def)

lemma attached_model: "attached model = Inr m \<Longrightarrow> m = (case model of None \<Rightarrow> JNull | Some b \<Rightarrow> JStr b)"
  unfolding attached_def attach_dispatch_model_def by (auto simp: dispatch_model_of_def ROUTING_ONLY_FIELDS_def split: option.splits)

lemma worked_accrue: "worked m 0 ref s (accrue_usage W ref hr s)"
proof (cases "from_harness_result (en_float W) (en_str W) hr (en_harness_name W)")
  case (Inl e)
  then show ?thesis by (auto simp: accrue_usage_def worked_def on_books_def Let_def split: option.split)
next
  case (Inr r)
  have "bu_tokens (add_usage r u) = bu_tokens u + bu_tokens r" for u by (simp add: add_usage_def bu_tokens_def)
  with Inr show ?thesis by (auto simp: accrue_usage_def worked_def on_books_def charged_def Let_def split: option.split)
qed

lemma reported_take:
  assumes "take_usage ref oc s = (u, s1)" and "gr_tokens g = bu_tokens u" and "\<not> gr_passed g" and "gr_outcome g = oc"
    and "gr_mode g = ''gated''" and "oc \<in> {''salvage'', ''no_op'', ''ci_red''}"
  shows "reported m 0 ref g s s1"
proof -
  have s1: "ex_trace s1 = ex_trace s @ [Unsettled ref oc u]" "map_of (ex_books s1) ref = None" "u = on_books ref s"
    using assms(1) by (auto simp: take_usage_def)
  have "oc \<noteq> ''pass''" using assms(6) by auto
  then show ?thesis unfolding reported_def using assms s1 by (auto simp: charged_def)
qed

lemma reported_log:
  assumes "reported m n ref g s s1" and "run_event m e" "\<not> is_ran e" "charge_of ref e = 0"
  shows "reported m n ref g s (log_event e s1)"
proof -
  from assms(1) obtain es where es: "ex_trace s1 = ex_trace s @ es" "list_all (run_event m) es" "length (filter is_ran es) \<le> n"
    "gr_tokens g = bu_tokens (on_books ref s) + charged ref es"
    "if gr_passed g then bu_tokens (on_books ref s1) = gr_tokens g
        else map_of (ex_books s1) ref = None \<and> (\<exists>u. Unsettled ref (gr_outcome g) u \<in> set es \<and> bu_tokens u = gr_tokens g)"
    unfolding reported_def by blast
  have "ex_trace (log_event e s1) = ex_trace s @ (es @ [e]) \<and> list_all (run_event m) (es @ [e]) \<and> length (filter is_ran (es @ [e])) \<le> n
     \<and> gr_tokens g = bu_tokens (on_books ref s) + charged ref (es @ [e])
     \<and> (if gr_passed g then bu_tokens (on_books ref (log_event e s1)) = gr_tokens g
        else map_of (ex_books (log_event e s1)) ref = None \<and> (\<exists>u. Unsettled ref (gr_outcome g) u \<in> set (es @ [e]) \<and> bu_tokens u = gr_tokens g))"
    using es assms(2-4) by (auto simp: charged_def split: if_splits)
  then show ?thesis using assms(1) unfolding reported_def by blast
qed

lemma terminal_result_simps [simp]:
  "gr_score (terminal_result sc p n a oc u mu) = sc" "gr_passed (terminal_result sc p n a oc u mu) = p"
  "gr_tokens (terminal_result sc p n a oc u mu) = bu_tokens u" "gr_outcome (terminal_result sc p n a oc u mu) = oc"
  "gr_mode (terminal_result sc p n a oc u mu) = ''gated''"
  by (simp_all add: terminal_result_def)

text \<open>
  What a pass rests on: in the last round, on one state of the worktree, CI was green, the coverage of the diff was
  measured at or above the floor of the repository, and the grader returned 5 and COMPLETE on this very diff.
\<close>

definition earned :: "engine_world \<Rightarrow> RepoSpec \<Rightarrow> string \<Rightarrow> GateResult \<Rightarrow> trace \<Rightarrow> bool" where
  "earned W R ref g tr \<longleftrightarrow> (\<exists>t gb g0 c rnd. tr = t @ [Graded gb, Scored ref rnd 5 (strip_promise (gr_notes g0)), Verdict_recorded ref rnd ''pass'' True]
     \<and> gb_diff gb = en_diff W t \<and> \<not> blank (gb_diff gb) \<and> gb_ref gb = ref \<and> gb_repo gb = R
     \<and> en_ci W t R (en_head W t) (gb_diff gb) = Inr ''green'' \<and> gb_ci gb = ''green''
     \<and> en_coverage W t R (gb_diff gb) = Inr (Some c) \<and> gb_coverage gb = Some c \<and> min_diff_coverage R \<le> c
     \<and> en_grade W (t @ [Graded gb]) gb = Inr g0 \<and> gr_score g0 = Some 5 \<and> is_complete (gr_notes g0) \<and> gr_score g = Some 5)"

lemma empty_round_ok:
  assumes "empty_round W item rnd lp s = (Inr x, s')"
  shows "case x of Inl g \<Rightarrow> reported m 0 (wi_ref item) g s s' \<and> \<not> gr_passed g | Inr _ \<Rightarrow> s' = s"
proof (cases "lp_empty lp + 1 \<ge> 2")
  case False
  then show ?thesis using assms by (auto simp: empty_round_def)
next
  case True
  define e where "e = Attempt (wi_ref item) rnd ''no_op''
    ''no diff in 2 rounds; acceptance likely already satisfied on the base branch, or the harness cannot write''"
  have e: "run_event m e" "\<not> is_ran e" "charge_of (wi_ref item) e = 0" by (simp_all add: e_def)
  obtain u s1 where t: "take_usage (wi_ref item) ''no_op'' (log_event e s) = (u, s1)" by fastforce
  have x: "x = Inl (terminal_result None False no_op_notes None ''no_op'' u None)" "s' = s1"
    using assms True t unfolding empty_round_def e_def [symmetric] by auto
  have "reported m 0 (wi_ref item) (terminal_result None False no_op_notes None ''no_op'' u None) (log_event e s) s1"
    by (rule reported_take [OF t]) simp_all
  from worked_reported [OF worked_log [OF e] this] show ?thesis by (simp add: x)
qed

lemma after_grade_ok:
  assumes "after_grade W item R rnd diff ci_status cov g s = (Inr x, s')"
  shows "case x of Inl g' \<Rightarrow> reported m 0 (wi_ref item) g' s s' \<and> (gr_passed g' \<longrightarrow> twin_gate_passed g ci_status cov R \<and> gr_score g' = gr_score g
      \<and> ex_trace s' = ex_trace s @ [Scored (wi_ref item) rnd 5 (strip_promise (gr_notes g)), Verdict_recorded (wi_ref item) rnd ''pass'' True])
    | Inr _ \<Rightarrow> worked m 0 (wi_ref item) s s'"
proof -
  let ?ref = "wi_ref item"
  define e where "e = Scored ?ref rnd (case gr_score g of None \<Rightarrow> 0 | Some n \<Rightarrow> n) (strip_promise (gr_notes g))"
  let ?s = "log_event e s"
  have e: "worked m 0 ?ref s ?s" by (rule worked_log) (simp_all add: e_def)
  consider (pass) "twin_gate_passed g ci_status cov R" | (salvage) "\<not> twin_gate_passed g ci_status cov R" "salvages g ci_status cov R diff"
    | (again) "\<not> twin_gate_passed g ci_status cov R" "\<not> salvages g ci_status cov R diff" by blast
  then show ?thesis
  proof cases
    case pass
    then have x: "x = Inl (terminal_result (gr_score g) True (strip_promise (gr_notes g)) (gr_artifact g) ''pass'' (on_books ?ref ?s)
        (en_shadow W (ex_trace ?s) diff))" "s' = log_event (Verdict_recorded ?ref rnd ''pass'' True) ?s"
      using assms unfolding after_grade_def e_def [symmetric] Let_def by auto
    have "reported m 0 ?ref (terminal_result (gr_score g) True (strip_promise (gr_notes g)) (gr_artifact g) ''pass'' (on_books ?ref ?s)
        (en_shadow W (ex_trace ?s) diff)) ?s s'"
      unfolding reported_def x(2) by (auto simp: charged_def)
    from worked_reported [OF e this] pass show ?thesis by (simp add: x twin_gate_passed_def) (simp add: e_def)
  next
    case salvage
    obtain u s1 where t: "take_usage ?ref ''salvage'' (snd (open_pr W (commit_and_push item ?s))) = (u, s1)" by fastforce
    obtain nt art mu where x: "x = Inl (terminal_result None False nt art ''salvage'' u mu)"
      "s' = log_event (Verdict_recorded ?ref rnd ''salvage'' False) s1"
      using assms salvage t unfolding after_grade_def e_def [symmetric] Let_def by (auto simp: open_pr_def)
    have "reported m 0 ?ref (terminal_result None False nt art ''salvage'' u mu) (snd (open_pr W (commit_and_push item ?s))) s1"
      by (rule reported_take [OF t]) simp_all
    then have r: "reported m 0 ?ref (terminal_result None False nt art ''salvage'' u mu) (snd (open_pr W (commit_and_push item ?s))) s'"
      unfolding x(2) by (rule reported_log) simp_all
    have "worked m 0 ?ref ?s (snd (open_pr W (commit_and_push item ?s)))"
      by (auto simp: worked_def open_pr_def commit_and_push_def charged_def)
    from worked_trans [OF e this] have "worked m 0 ?ref s (snd (open_pr W (commit_and_push item ?s)))" by simp
    from worked_reported [OF this r] show ?thesis by (simp add: x(1))
  next
    case again
    then have "\<exists>lp. x = Inr lp" "s' = ?s" using assms unfolding after_grade_def e_def [symmetric] Let_def by auto
    then show ?thesis using e by auto
  qed
qed

text \<open>What a round may come to.\<close>

definition round_ok :: "engine_world \<Rightarrow> RepoSpec \<Rightarrow> json \<Rightarrow> nat \<Rightarrow> string \<Rightarrow> GateResult + loop_vars \<Rightarrow> executor \<Rightarrow> executor \<Rightarrow> bool" where
  "round_ok W R m n ref x s s' \<longleftrightarrow> (case x of
       Inl g \<Rightarrow> reported m n ref g s s' \<and> (gr_passed g \<longrightarrow> earned W R ref g (ex_trace s'))
     | Inr _ \<Rightarrow> worked m n ref s s')"

lemma round_ok_after: "worked m k ref s s1 \<Longrightarrow> round_ok W R m n ref x s1 s2 \<Longrightarrow> round_ok W R m (k + n) ref x s s2"
  by (auto simp: round_ok_def split: sum.splits intro: worked_reported worked_trans)

lemma sbind_pureE:
  assumes "sbind (pure_call r s) f = (Inr v, s')"
  obtains x where "r = Inr x" and "f x s = (Inr v, s')"
  using assms by auto

lemma grade_round_ok:
  assumes "grade_round W item R wt model rnd diff s = (Inr x, s')" and "diff = en_diff W (ex_trace s)" and "\<not> blank diff"
    and "attached model = Inr m"
  shows "round_ok W R m 0 (wi_ref item) x s s'"
proof -
  let ?ref = "wi_ref item"
  obtain ci_status cov where ci: "en_ci W (ex_trace s) R (en_head W (ex_trace s)) diff = Inr ci_status"
    and cov: "en_coverage W (ex_trace s) R diff = Inr cov"
    by (rule sbind_pureE [OF assms(1) [unfolded grade_round_def]], erule sbind_pureE)
  define gb where "gb = \<lparr>gb_ref = ?ref, gb_repo = R, gb_worktree = wt, gb_diff = diff,
    gb_acceptance = dget_or (wi_payload item) ''acceptance'' (JArr []), gb_ci = ci_status, gb_coverage = cov, gb_model = m\<rparr>"
  have gb: "gb_ref gb = ?ref" "gb_repo gb = R" "gb_diff gb = diff" "gb_ci gb = ci_status" "gb_coverage gb = cov" "gb_model gb = m"
    by (simp_all add: gb_def)
  have "sbind (pure_call (en_grade W (ex_trace s @ [Graded gb]) gb) (log_event (Graded gb) s))
      (\<lambda>g s. after_grade W item R rnd diff ci_status cov g s) = (Inr x, s')"
    using assms(1,4) by (simp only: grade_round_def ci cov pure_call_def sbind.simps Let_def gb_def [symmetric] ex_trace_log)
  then obtain g0 where g0: "en_grade W (ex_trace s @ [Graded gb]) gb = Inr g0"
    and a: "after_grade W item R rnd diff ci_status cov g0 (log_event (Graded gb) s) = (Inr x, s')"
    by (rule sbind_pureE)
  have w: "worked m 0 ?ref s (log_event (Graded gb) s)" by (rule worked_log) (simp_all add: gb)
  have "round_ok W R m 0 ?ref x (log_event (Graded gb) s) s'"
  proof (cases x)
    case (Inr lp)
    then show ?thesis using after_grade_ok [OF a, of m] by (simp add: round_ok_def)
  next
    case (Inl g)
    have ok: "reported m 0 ?ref g (log_event (Graded gb) s) s'" "gr_passed g \<longrightarrow> twin_gate_passed g0 ci_status cov R \<and> gr_score g = gr_score g0
      \<and> ex_trace s' = ex_trace (log_event (Graded gb) s) @ [Scored ?ref rnd 5 (strip_promise (gr_notes g0)), Verdict_recorded ?ref rnd ''pass'' True]"
      using after_grade_ok [OF a, of m] by (simp_all add: Inl)
    have "earned W R ?ref g (ex_trace s')" if "gr_passed g"
    proof -
      from that ok(2) have p: "gr_score g0 = Some 5" "is_complete (gr_notes g0)" "ci_status = ''green''" "gr_score g = Some 5"
        and tr: "ex_trace s' = ex_trace s @ [Graded gb, Scored ?ref rnd 5 (strip_promise (gr_notes g0)), Verdict_recorded ?ref rnd ''pass'' True]"
        by (simp_all add: twin_gate_passed_def)
      from that ok(2) obtain c where c: "cov = Some c" "min_diff_coverage R \<le> c" by (auto simp: twin_gate_passed_def split: option.splits)
      show ?thesis unfolding earned_def
        by (rule exI [of _ "ex_trace s"], rule exI [of _ gb], rule exI [of _ g0], rule exI [of _ c], rule exI [of _ rnd])
          (intro conjI, simp_all add: tr gb p c g0 assms(2) ci [unfolded assms(2)] cov [unfolded assms(2)] assms(3) [unfolded assms(2)])
    qed
    with ok(1) show ?thesis by (simp add: round_ok_def Inl)
  qed
  from round_ok_after [OF w this] show ?thesis by simp
qed

lemma work_round_ok:
  assumes "work_round W item R wt model rnd lp s = (Inr x, s')" and "attached model = Inr m"
  shows "round_ok W R m 1 (wi_ref item) x s s'"
proof -
  define tb where "tb = \<lparr>tb_ref = wi_ref item, tb_repo = R, tb_worktree = wt, tb_title = dget_or (wi_payload item) ''title'' (JStr []),
    tb_description = dget_or (wi_payload item) ''description'' (JStr []), tb_acceptance = dget_or (wi_payload item) ''acceptance'' (JArr []),
    tb_feedback = lp_feedback lp, tb_success = en_prior_success W (wi_payload item), tb_round = rnd, tb_model = m\<rparr>"
  have tb: "tb_model tb = m" by (simp add: tb_def)
  have "sbind (pure_call (en_task W (ex_trace s @ [Ran tb]) tb) (log_event (Ran tb) s)) (\<lambda>hr s.
      let s = accrue_usage W (wi_ref item) hr s; diff = en_diff W (ex_trace s) in
      if blank diff then empty_round W item rnd lp s else grade_round W item R wt model rnd diff s) = (Inr x, s')"
    using assms by (simp only: work_round_def pure_call_def sbind.simps Let_def tb_def [symmetric] ex_trace_log)
  then obtain hr where hr: "(let s = accrue_usage W (wi_ref item) hr (log_event (Ran tb) s); diff = en_diff W (ex_trace s) in
      if blank diff then empty_round W item rnd lp s else grade_round W item R wt model rnd diff s) = (Inr x, s')"
    by (rule sbind_pureE)
  define s2 where s2: "s2 = accrue_usage W (wi_ref item) hr (log_event (Ran tb) s)"
  have rest: "(if blank (en_diff W (ex_trace s2)) then empty_round W item rnd lp s2
      else grade_round W item R wt model rnd (en_diff W (ex_trace s2)) s2) = (Inr x, s')"
    using hr unfolding s2 Let_def .
  have w: "worked m 1 (wi_ref item) s s2"
    using worked_trans [OF worked_ran worked_accrue] tb unfolding s2 by fastforce
  have "round_ok W R m 0 (wi_ref item) x s2 s'"
  proof (cases "blank (en_diff W (ex_trace s2))")
    case True
    then have "empty_round W item rnd lp s2 = (Inr x, s')" using rest by simp
    from empty_round_ok [OF this, of m] show ?thesis by (auto simp: round_ok_def worked_refl split: sum.splits)
  next
    case False
    then show ?thesis using rest grade_round_ok [OF _ refl False assms(2)] by simp
  qed
  from round_ok_after [OF w this] show ?thesis by simp
qed

lemma give_up_ok:
  assumes "give_up W item rnd lp s = (Inr g, s')"
  shows "reported m 0 (wi_ref item) g s s' \<and> \<not> gr_passed g"
proof -
  let ?ref = "wi_ref item"
  define nt where "nt = (case lp_last lp of None \<Rightarrow> [] | Some g \<Rightarrow> strip_promise (gr_notes g))"
  let ?s = "log_event (Attempt ?ref rnd ''ci_red'' (en_distill W nt)) s"
  obtain u s1 where t: "take_usage ?ref ''ci_red'' ?s = (u, s1)" by fastforce
  obtain sc n a where g: "g = terminal_result sc False n a ''ci_red'' u None"
    and s': "s' = (if lp_last lp = None then s1 else log_event (Verdict_recorded ?ref rnd ''ci_red'' False) s1)"
    using assms t unfolding give_up_def nt_def [symmetric] Let_def by auto
  have "reported m 0 ?ref g ?s s1" unfolding g by (rule reported_take [OF t]) simp_all
  then have "reported m 0 ?ref g ?s s'" unfolding s' by (auto intro: reported_log)
  from worked_reported [OF worked_log this] show ?thesis by (simp add: g)
qed

lemma do_rounds_ok:
  assumes "attached model = Inr m"
  shows "do_rounds W item R wt model rs rnd lp s = (Inr g, s') \<Longrightarrow> round_ok W R m (length rs) (wi_ref item) (Inl g) s s'"
proof (induction rs arbitrary: rnd lp s)
  case Nil
  then show ?case using give_up_ok [of W item rnd lp s g s' m] by (auto simp: round_ok_def)
next
  case (Cons r rs)
  then obtain x s1 where w: "work_round W item R wt model r lp s = (Inr x, s1)"
    and n: "(case x of Inl g \<Rightarrow> (Inr g, s1) | Inr lp \<Rightarrow> do_rounds W item R wt model rs r lp s1) = (Inr g, s')" by auto
  note ok = work_round_ok [OF w assms]
  show ?case
  proof (cases x)
    case (Inl g')
    with ok n have "round_ok W R m 1 (wi_ref item) (Inl g) s s'" by simp
    then show ?thesis by (fastforce simp: round_ok_def reported_def)
  next
    case (Inr lp')
    with n Cons.IH have "round_ok W R m (length rs) (wi_ref item) (Inl g) s1 s'" by simp
    moreover have "worked m 1 (wi_ref item) s s1" using ok Inr by (simp add: round_ok_def)
    ultimately show ?thesis using round_ok_after by fastforce
  qed
qed

lemma do_rounds_attached: "do_rounds W item R wt model (r # rs) rnd lp s = (Inr g, s') \<Longrightarrow> \<exists>m. attached model = Inr m"
proof -
  assume "do_rounds W item R wt model (r # rs) rnd lp s = (Inr g, s')"
  then obtain x s1 where "work_round W item R wt model r lp s = (Inr x, s1)" by auto
  from sbind_pureE [OF this [unfolded work_round_def]] show ?thesis by blast
qed

text \<open>C11. A run that returns: it worked in the repository of the card with the model of its grade, for at most four sessions and
  without a settlement or a merge; the tokens it reports are those on the books and those it charged, and unless it
  is a pass the books are closed over them. A pass was earned in its last round: green CI, a measured diff
  coverage at or above the floor, and a grade of 5 with COMPLETE, all on the same nonblank diff.\<close>

theorem run_pass_is_gated:
  assumes "run W cfg item s = (Inr g, s')"
  shows "\<exists>R bucket. repo_of cfg item = Some R \<and> bucket_for_payload (JObj (wi_payload item)) = Inr bucket
     \<and> reported (case bucket of None \<Rightarrow> JNull | Some b \<Rightarrow> JStr b) 4 (wi_ref item) g s s'
     \<and> (gr_passed g \<longrightarrow> earned W R (wi_ref item) g (ex_trace s'))"
proof -
  let ?s = "log_event (Claimed (wi_ref item)) s"
  have c: "claim W item s = (Inr (), ?s)" using assms by (auto simp: run_def claim_def split: option.splits)
  obtain R where R: "repo_of cfg item = Some R" using assms c by (auto simp: run_def split: option.splits)
  have four: "[1..<MAX_ROUNDS + 1] = [1, 2, 3, 4]" by (simp add: MAX_ROUNDS_def upt_rec)
  obtain wt bucket lp where b: "bucket_for_payload (JObj (wi_payload item)) = Inr bucket"
    and d: "do_rounds W item R wt bucket [1..<MAX_ROUNDS + 1] 0 lp (log_event (Worktree wt) ?s) = (Inr g, s')"
    using assms unfolding run_def c R sbind.simps option.case Let_def by (elim sbind_pureE) blast
  obtain m where m: "attached bucket = Inr m" using do_rounds_attached [OF d [unfolded four]] by blast
  let ?m = "case bucket of None \<Rightarrow> JNull | Some b \<Rightarrow> JStr b"
  have "worked ?m 0 (wi_ref item) s ?s" "worked ?m 0 (wi_ref item) ?s (log_event (Worktree wt) ?s)" by (rule worked_log, simp_all)+
  from worked_trans [OF this] have "worked ?m 0 (wi_ref item) s (log_event (Worktree wt) ?s)" by simp
  from round_ok_after [OF this do_rounds_ok [OF m d, unfolded attached_model [OF m]]]
  have "round_ok W R ?m 4 (wi_ref item) (Inl g) s s'" by (simp only: four list.size) (simp add: eval_nat_numeral)
  then show ?thesis using R b by (auto simp: round_ok_def)
qed

text \<open>A world in which the first grade asks for more and the second is a pass.\<close>

definition demo_usage :: harness_result where
  "demo_usage = \<lparr>hr_raw = JNull, hr_tokens = 7, hr_cost = 0\<rparr>"

definition demo_grade :: "int \<Rightarrow> string \<Rightarrow> GateResult" where
  "demo_grade n nt = \<lparr>gr_score = Some n, gr_passed = False, gr_notes = nt, gr_artifact = None, gr_mode = ''gated'', gr_outcome = ''unrecorded'',
     gr_tokens = 0, gr_cost = 0, gr_mutation = None\<rparr>"

definition demo_flags_json :: json where
  "demo_flags_json = JObj (map (\<lambda>(f, _). (f, JBool True)) REPO_FLAG_TO_METHOD)"

definition demo_world :: "int \<times> string \<Rightarrow> engine_world" where
  "demo_world changed = \<lparr>en_claim = (\<lambda>_. None), en_worktree = (\<lambda>_. Inr ''/w''), en_prior = (\<lambda>_. None), en_prior_success = (\<lambda>_. None),
     en_harness_name = ''pi'', en_task = (\<lambda>_ _. Inr demo_usage), en_float = (\<lambda>_. None), en_str = (\<lambda>_. []), en_diff = (\<lambda>_. ''d''),
     en_head = (\<lambda>_. ''h''), en_ci = (\<lambda>_ _ _ _. Inr ''green''), en_coverage = (\<lambda>_ _ _. Inr (Some 1)),
     en_grade = (\<lambda>t _. Inr (if length (filter is_ran t) < 2 then demo_grade 4 ''add a test'' else demo_grade 5 ''ok <promise>COMPLETE</promise>'')),
     en_shadow = (\<lambda>_ _. None), en_distill = (\<lambda>n. n), en_pr = (\<lambda>_. ''pr/1''), en_worktree_for = (\<lambda>_. Some ''/w''), en_isdir = (\<lambda>_. True),
     en_cleared = (\<lambda>_. 0), en_settle = (\<lambda>_ _. True), en_append = (\<lambda>_. True), en_changed = (\<lambda>_. changed),
     en_manifest = (\<lambda>_. \<lparr>mf_exists = False, mf_read = None, mf_trusted = (\<lambda>_. False)\<rparr>),
     en_polls = (\<lambda>_. [(Some (JArr [demo_check ''pytest'' ''pass'']), 0)]), en_started = (\<lambda>_. 0), en_repo_json = (\<lambda>_. demo_flags_json),
     en_rules = (\<lambda>_. JArr []), en_pr_head = (\<lambda>_. JObj [(''headRefOid'', JStr ''abc'')]), en_merge = (\<lambda>_ _. 0), en_merge_sha = (\<lambda>_. ''m'')\<rparr>"

definition demo_item :: WorkItem where
  "demo_item = \<lparr>wi_ref = ''c1'', wi_tags = [''repo:r''], wi_payload = []\<rparr>"

definition demo_config :: engine_config where
  "demo_config = \<lparr>ec_repo_map = [(''r'', demo_repo)], ec_automerge_repos = [''r'']\<rparr>"

definition idle :: executor where
  "idle = \<lparr>ex_books = [], ex_settled = [], ex_trace = []\<rparr>"

lemma demo_run: "(case run (demo_world (0, ''a.py'')) demo_config demo_item idle of (Inl _, _) \<Rightarrow> False | (Inr g, s') \<Rightarrow>
    gr_passed g \<and> gr_tokens g = 14 \<and> length (filter is_ran (ex_trace s')) = 2)"
  by code_simp

lemma run_pass_is_gated_witness:
  "\<exists>g s'. run (demo_world (0, ''a.py'')) demo_config demo_item idle = (Inr g, s') \<and> gr_passed g
     \<and> (\<exists>R. earned (demo_world (0, ''a.py'')) R ''c1'' g (ex_trace s'))"
proof -
  obtain g s' where r: "run (demo_world (0, ''a.py'')) demo_config demo_item idle = (Inr g, s')" and p: "gr_passed g"
    using demo_run by (auto split: prod.splits sum.splits)
  moreover have "wi_ref demo_item = ''c1''" by (simp add: demo_item_def)
  ultimately show ?thesis using run_pass_is_gated [OF r] by metis
qed

section \<open>What a merge needs\<close>

fun is_merge :: "event \<Rightarrow> bool" where
  "is_merge (Merge _) = True"
| "is_merge _ = False"

definition quiet :: "executor \<Rightarrow> executor \<Rightarrow> bool" where
  "quiet s s' \<longleftrightarrow> (\<exists>es. ex_trace s' = ex_trace s @ es \<and> list_all (\<lambda>e. \<not> is_merge e) es)"

lemma quiet_refl [simp]: "quiet s s"
  by (simp add: quiet_def)

lemma quiet_log: "quiet s s1 \<Longrightarrow> \<not> is_merge e \<Longrightarrow> quiet s (log_event e s1)"
  by (auto simp: quiet_def)

lemma quiet_remember: "quiet s (remember_pass W item g s)"
  by (auto simp: remember_pass_def Let_def intro!: quiet_log)

lemma quiet_settle: "quiet s1 s \<Longrightarrow> quiet s1 (settle_economics W ref s)"
  by (auto simp: settle_economics_def take_usage_def quiet_def Let_def log_event_def)

lemma quiet_drop: "quiet s s' \<Longrightarrow> Merge argv \<notin> set (drop (length (ex_trace s)) (ex_trace s'))"
  by (auto simp: quiet_def list_all_iff dest: bspec [of _ _ "Merge argv"])

text \<open>The record of a merge: the carve-out found nothing, the checks were green, the policy of the branch allows the method, and the
  merge is pinned to the head that was read.\<close>

definition merge_record :: "engine_world \<Rightarrow> WorkItem \<Rightarrow> RepoSpec \<Rightarrow> string list \<Rightarrow> trace \<Rightarrow> trace \<Rightarrow> bool" where
  "merge_record W item R argv t es \<longleftrightarrow> (\<exists>rest m head. es = [Carveout True [], Pruned (wi_ref item), Merge argv] @ rest
     \<and> list_all (\<lambda>e. \<not> is_merge e) rest
     \<and> matched_protected_paths (en_manifest W t) (changed_paths W t) = Inr []
     \<and> checks_verdict W R (t @ [Carveout True []]) = Inr ''green''
     \<and> resolve_protected_merge_method (protected_merge_policy (en_repo_json W (t @ [Carveout True [], Pruned (wi_ref item)]))
          (en_rules W (t @ [Carveout True [], Pruned (wi_ref item)]))) = Some m
     \<and> head = pr_head_sha (en_pr_head W (t @ [Carveout True [], Pruned (wi_ref item)])) \<and> head \<noteq> []
     \<and> argv = merge_argv (pr_branch item) m head)"

lemma merge_record_unique: "merge_record W item R a t es \<Longrightarrow> Merge argv \<in> set es \<Longrightarrow> a = argv"
proof -
  assume m: "merge_record W item R a t es" and e: "Merge argv \<in> set es"
  from m obtain rest where r: "es = [Carveout True [], Pruned (wi_ref item), Merge a] @ rest" "list_all (\<lambda>e. \<not> is_merge e) rest"
    unfolding merge_record_def by blast
  then have "Merge argv \<notin> set rest" by (auto simp: list_all_iff)
  with e r(1) show ?thesis by simp
qed

lemma gh_merge_cases:
  assumes "gh_merge W item s = (ok, s')"
  shows "(ok = False \<and> s' = s) \<or> (\<exists>m head. resolve_protected_merge_method (protected_merge_policy (en_repo_json W (ex_trace s)) (en_rules W (ex_trace s))) = Some m
     \<and> head = pr_head_sha (en_pr_head W (ex_trace s)) \<and> head \<noteq> [] \<and> s' = log_event (Merge (merge_argv (pr_branch item) m head)) s)"
  using assms by (auto simp: gh_merge_def Let_def split: option.splits if_splits)

lemma automerge_record:
  assumes "try_automerge W item R url (log_event (Carveout True []) s) = (r, s')"
    and "matched_protected_paths (en_manifest W (ex_trace s)) (changed_paths W (ex_trace s)) = Inr []"
  shows "quiet s s' \<or> (\<exists>argv es. ex_trace s' = ex_trace s @ es \<and> merge_record W item R argv (ex_trace s) es)"
proof -
  let ?c = "log_event (Carveout True []) s" and ?p = "log_event (Pruned (wi_ref item)) (log_event (Carveout True []) s)"
  have q: "quiet s ?c" "quiet s ?p" by (auto intro!: quiet_log)
  show ?thesis
  proof (cases "checks_verdict W R (ex_trace ?c) = Inr ''green''")
    case False
    then have "s' = ?c \<or> (\<exists>a b. s' = log_event (Decision a b) ?c)"
      using assms(1) by (cases "checks_verdict W R (ex_trace ?c)") (auto simp: try_automerge_def pure_call_def)
    then show ?thesis using q by (auto intro!: quiet_log)
  next
    case True
    obtain ok s1 where g: "gh_merge W item ?p = (ok, s1)" by fastforce
    have s': "(\<exists>a b. s' = log_event (Decision a b) s1) \<or> (\<exists>a b c. s' = log_event (Completed a) (log_event (Merge_recorded b c) s1))"
      using assms(1) True g by (cases ok) (simp_all add: try_automerge_def pure_call_def, blast+)
    from gh_merge_cases [OF g] show ?thesis
    proof (elim disjE exE conjE)
      assume "s1 = ?p"
      with s' q show ?thesis by (auto intro!: quiet_log)
    next
      fix m head assume m: "resolve_protected_merge_method (protected_merge_policy (en_repo_json W (ex_trace ?p)) (en_rules W (ex_trace ?p))) = Some m"
        and h: "head = pr_head_sha (en_pr_head W (ex_trace ?p))" "head \<noteq> []"
        and s1: "s1 = log_event (Merge (merge_argv (pr_branch item) m head)) ?p"
      obtain rest where r: "ex_trace s' = ex_trace s1 @ rest" "list_all (\<lambda>e. \<not> is_merge e) rest" using s' by auto
      have "ex_trace s' = ex_trace s @ ([Carveout True [], Pruned (wi_ref item), Merge (merge_argv (pr_branch item) m head)] @ rest)"
        by (simp add: r s1)
      moreover have "merge_record W item R (merge_argv (pr_branch item) m head) (ex_trace s)
          ([Carveout True [], Pruned (wi_ref item), Merge (merge_argv (pr_branch item) m head)] @ rest)"
        unfolding merge_record_def by (intro exI conjI) (use m h r(2) True assms(2) in simp_all)
      ultimately show ?thesis by blast
    qed
  qed
qed

lemma land_record:
  assumes "land W cfg item R passed s = (r, s')"
  shows "quiet s s' \<or> (\<exists>t argv es. quiet s t \<and> ex_trace s' = ex_trace t @ es \<and> merge_record W item R argv (ex_trace t) es
     \<and> passed \<and> automerge R \<and> repo_ci R \<noteq> ''none'' \<and> repo_name R \<in> set (ec_automerge_repos cfg))"
proof -
  obtain url t where o: "open_pr W s = (url, t)" by fastforce
  then have q: "quiet s t" by (auto simp: open_pr_def intro: quiet_log)
  let ?auto = "repo_name R \<in> set (ec_automerge_repos cfg) \<and> repo_ci R \<noteq> ''none'' \<and> passed \<and> automerge R"
  show ?thesis
  proof (cases "matched_protected_paths (en_manifest W (ex_trace t)) (changed_paths W (ex_trace t))")
    case (Inl e)
    then have "s' = t" using assms o by (simp add: land_def Let_def pure_call_def)
    then show ?thesis using q by simp
  next
    case (Inr gs)
    show ?thesis
    proof (cases "?auto \<and> gs = []")
      case True
      then have "try_automerge W item R url (log_event (Carveout True []) t) = (r, s')"
        using assms o Inr by (simp add: land_def Let_def pure_call_def)
      from automerge_record [OF this] Inr True have "quiet t s' \<or> (\<exists>argv es. ex_trace s' = ex_trace t @ es \<and> merge_record W item R argv (ex_trace t) es)" by simp
      then show ?thesis using q True by (force simp: quiet_def)
    next
      case False
      then have "\<exists>a b. s' = log_event (Decision a b) (log_event (Carveout ?auto gs) t)"
        using assms o Inr by (simp add: land_def Let_def pure_call_def split: if_splits) blast+
      then show ?thesis using q by (auto intro!: quiet_log)
    qed
  qed
qed

text \<open>C12. A landing that merges: the result is a gated pass, its repository asks for automatic merges in its own settings and in the
  operator's list and has CI, no changed path is protected, the checks of the pull request are green, the branch allows
  the method, and the command is pinned to the head that was read; it is issued once.\<close>

theorem merge_needs_everything:
  assumes "finalize W cfg item g s = (r, s')" and "Merge argv \<in> set (drop (length (ex_trace s)) (ex_trace s'))"
  shows "gr_mode g = ''gated'' \<and> gr_passed g \<and> (\<exists>R t es. repo_of cfg item = Some R \<and> quiet s t \<and> ex_trace s' = ex_trace t @ es
     \<and> merge_record W item R argv (ex_trace t) es
     \<and> automerge R \<and> repo_ci R \<noteq> ''none'' \<and> repo_name R \<in> set (ec_automerge_repos cfg))"
proof -
  have nq: "\<not> quiet s s'" using quiet_drop assms(2) by blast
  let ?s = "commit_and_push item (if gr_passed g then remember_pass W item g s else s)"
  let ?t = "if gr_passed g then settle_economics W (wi_ref item) ?s else ?s"
  have q: "quiet s ?t" by (auto simp: commit_and_push_def intro!: quiet_settle quiet_log quiet_remember)
  obtain R where R: "repo_of cfg item = Some R" "land W cfg item R (gr_passed g) ?t = (r, s')" "gr_mode g = ''gated''"
    using assms(1) nq q by (auto simp: finalize_def Let_def split: option.splits if_splits)
  from land_record [OF R(2)] nq q obtain u a es where u: "quiet ?t u" "ex_trace s' = ex_trace u @ es" "merge_record W item R a (ex_trace u) es"
    and p: "gr_passed g" "automerge R" "repo_ci R \<noteq> ''none''" "repo_name R \<in> set (ec_automerge_repos cfg)"
    by (fastforce simp: quiet_def)
  have su: "quiet s u" using q u(1) by (force simp: quiet_def)
  have "Merge argv \<in> set es" using assms(2) u(2) su by (auto simp: quiet_def list_all_iff dest: bspec [of _ _ "Merge argv"])
  then have "a = argv" using merge_record_unique [OF u(3)] by blast
  then show ?thesis using R u su p by blast
qed

definition demo_pass :: GateResult where
  "demo_pass = terminal_result (Some 5) True ''ok'' None ''pass'' no_build_usage None"

lemma merge_needs_everything_witness:
  "\<exists>r s'. finalize (demo_world (0, ''a.py'')) demo_config demo_item demo_pass idle = (r, s')
     \<and> Merge [''gh'', ''pr'', ''merge'', ''autopilot/c1'', ''--squash'', ''--delete-branch'', ''--match-head-commit'', ''abc''] \<in> set (ex_trace s')
     \<and> gr_passed demo_pass"
proof -
  let ?a = "[''gh'', ''pr'', ''merge'', ''autopilot/c1'', ''--squash'', ''--delete-branch'', ''--match-head-commit'', ''abc'']"
  have c: "Merge ?a \<in> set (drop (length (ex_trace idle)) (ex_trace (snd (finalize (demo_world (0, ''a.py'')) demo_config demo_item demo_pass idle))))"
    by code_simp
  obtain r s' where f: "finalize (demo_world (0, ''a.py'')) demo_config demo_item demo_pass idle = (r, s')" by fastforce
  then have m: "Merge ?a \<in> set (drop (length (ex_trace idle)) (ex_trace s'))" using c by simp
  from merge_needs_everything [OF f m] f m show ?thesis by (auto dest: in_set_dropD)
qed


section \<open>One settlement per card\<close>

fun settles :: "string \<Rightarrow> event \<Rightarrow> bool" where
  "settles ref (Settled r _ recorded) \<longleftrightarrow> r = ref \<and> recorded"
| "settles ref _ \<longleftrightarrow> False"

definition settlements :: "string \<Rightarrow> trace \<Rightarrow> nat" where
  "settlements ref tr = length (filter (settles ref) tr)"

definition booked :: "executor \<Rightarrow> bool" where
  "booked s \<longleftrightarrow> (\<forall>ref. settlements ref (ex_trace s) = (if ref \<in> set (ex_settled s) then 1 else 0))"

lemma booked_log [simp]: "(\<And>ref. \<not> settles ref e) \<Longrightarrow> booked (log_event e s) = booked s"
  by (simp add: booked_def settlements_def)

lemma booked_books [simp]: "booked (s\<lparr>ex_books := b\<rparr>) = booked s"
  by (simp add: booked_def)

lemma booked_take: "booked s \<Longrightarrow> booked (snd (take_usage ref oc s))"
  by (simp add: take_usage_def)

lemma booked_accrue: "booked s \<Longrightarrow> booked (accrue_usage W ref hr s)"
  by (simp add: accrue_usage_def Let_def split: sum.split)

lemma booked_settle:
  assumes "booked s" and "\<And>t. en_append W t"
  shows "booked (settle_economics W ref s)"
proof (cases "ref \<in> set (ex_settled s)")
  case True
  then show ?thesis using assms(1) by (simp add: settle_economics_def booked_take)
next
  case False
  then show ?thesis using assms by (auto simp: settle_economics_def booked_def settlements_def Let_def log_event_def)
qed

lemma booked_empty: "booked s \<Longrightarrow> booked (snd (empty_round W item rnd lp s))"
  by (simp add: empty_round_def take_usage_def)

lemma booked_after: "booked s \<Longrightarrow> booked (snd (after_grade W item R rnd diff ci_status cov g s))"
  by (simp add: after_grade_def take_usage_def open_pr_def commit_and_push_def Let_def)

lemmas booked_sbind = sbind_keeps [where P = booked]

lemma booked_pure [simp]: "booked (snd (pure_call r s)) = booked s"
  by (simp add: pure_call_def)

lemma booked_grade: "booked s \<Longrightarrow> booked (snd (grade_round W item R wt model rnd diff s))"
  unfolding grade_round_def Let_def by (intro booked_sbind booked_after) simp_all

lemma booked_work: "booked s \<Longrightarrow> booked (snd (work_round W item R wt model rnd lp s))"
  unfolding work_round_def Let_def by (intro booked_sbind) (simp_all add: booked_accrue booked_empty booked_grade)

lemma booked_rounds: "booked s \<Longrightarrow> booked (snd (do_rounds W item R wt model rs rnd lp s))"
proof (induction rs arbitrary: rnd lp s)
  case Nil
  then show ?case by (simp add: give_up_def take_usage_def Let_def)
next
  case (Cons r rs)
  show ?case unfolding do_rounds.simps
    by (rule booked_sbind) (use Cons booked_work in \<open>simp_all split: sum.split\<close>)
qed

lemma booked_run: "booked s \<Longrightarrow> booked (snd (run W cfg item s))"
proof -
  assume s: "booked s"
  show ?thesis unfolding run_def Let_def
  proof (rule booked_sbind)
    show "booked (snd (claim W item s))" using s by (simp add: claim_def split: option.split)
    show "booked (snd (case repo_of cfg item of None \<Rightarrow> (Inl (AttributeError ''path''), t) | Some R \<Rightarrow>
        sbind (pure_call (en_worktree W (ex_trace t)) t) (\<lambda>wt s. sbind (pure_call (bucket_for_payload (JObj (wi_payload item))) (log_event (Worktree wt) s))
          (\<lambda>model s. do_rounds W item R wt model [1..<MAX_ROUNDS + 1] 0 \<lparr>lp_feedback = en_prior W (wi_payload item), lp_last = None, lp_empty = 0\<rparr> s))))"
      if "booked t" for t using that by (auto split: option.split intro!: booked_sbind booked_rounds simp del: upt_Suc)
  qed
qed

lemma booked_land: "booked s \<Longrightarrow> booked (snd (land W cfg item R passed s))"
proof -
  assume s: "booked s"
  have m: "booked (snd (gh_merge W item t))" if "booked t" for t
    using that by (auto simp: gh_merge_def Let_def split: option.split)
  have a: "booked (snd (try_automerge W item R url t))" if t: "booked t" for t url
    unfolding try_automerge_def
  proof (rule booked_sbind)
    show "booked (snd (case if v = ''green'' then gh_merge W item (log_event (Pruned (wi_ref item)) u) else (False, u) of
        (True, s) \<Rightarrow> (Inr (), log_event (Completed (wi_ref item)) (log_event (Merge_recorded url (en_merge_sha W (ex_trace s))) s))
      | (False, s) \<Rightarrow> (Inr (), log_event (Decision (''merge:'' @ wi_ref item)
          (''auto-merge HELD ('' @ v @ '') for PR '' @ url @ '' task '' @ wi_ref item @ '' -- review then merge/close'')) s)))" if "booked u" for v u
      using that m [of "log_event (Pruned (wi_ref item)) u"] by (auto split: prod.split bool.split)
  qed (use t in simp)
  show ?thesis unfolding land_def open_pr_def Let_def prod.case
    by (rule booked_sbind) (use s a in simp_all)
qed

lemma booked_finalize:
  assumes "booked s" and "\<And>t. en_append W t"
  shows "booked (snd (finalize W cfg item g s))"
  using assms by (auto simp: finalize_def remember_pass_def commit_and_push_def Let_def split: option.split intro!: booked_land booked_settle)

text \<open>The histories of an executor whose settlement journal takes every row.\<close>

inductive served :: "executor \<Rightarrow> bool" where
  served_idle: "served idle"
| served_run: "served s \<Longrightarrow> served (snd (run W cfg item s))"
| served_finalize: "served s \<Longrightarrow> (\<And>t. en_append W t) \<Longrightarrow> served (snd (finalize W cfg item g s))"



end
