(* ===== verification/RunJournal.thy ===== *)
theory RunJournal
  imports Engineering
begin

text \<open>
  The run journal of the coding loop (\<open>src/skharness/autocode/journal.py\<close>): one JSON file per run, which the executors
  change through a handle and the orchestrator rewrites as a whole.

  The directory of runs is a dictionary from run ids to the decoded files; clock readings are arguments. A file is
  replaced atomically, so a read or a write is one step, and a read followed by a write is two.
\<close>

section \<open>Files\<close>

type_synonym runs = "(string \<times> payload) list"

definition read_run :: "string \<Rightarrow> runs \<Rightarrow> payload" where
  "read_run rid F = (case map_of F rid of None \<Rightarrow> [] | Some d \<Rightarrow> d)"

definition write_run :: "string \<Rightarrow> payload \<Rightarrow> runs \<Rightarrow> runs" where
  "write_run rid d F = dput rid d F"

definition dupdate :: "payload \<Rightarrow> payload \<Rightarrow> payload" where
  "dupdate patch d = fold (\<lambda>(k, v). dput k v) patch d"

section \<open>The handle of an executor\<close>

text \<open>The data of the run, or a fresh file, and the entry of one card in it, changed by \<open>f\<close>.\<close>

definition run_data :: "string \<Rightarrow> runs \<Rightarrow> payload" where
  "run_data rid F = (case read_run rid F of
     [] \<Rightarrow> [(''run_id'', JStr rid), (''items'', JObj []), (''tokens'', JNum 0), (''cost_usd'', JNum 0)] | d \<Rightarrow> d)"

definition change_item :: "(payload \<Rightarrow> payload result) \<Rightarrow> string \<Rightarrow> string \<Rightarrow> string \<Rightarrow> runs \<Rightarrow> runs result" where
  "change_item f now rid ref F =
     (case dget_or (run_data rid F) ''items'' (JObj []) of JObj items \<Rightarrow>
        (case dget_or items ref (JObj []) of JObj item \<Rightarrow>
           rbind (f item) (\<lambda>item. Inr (write_run rid
             (dput ''items'' (JObj (dput ref (JObj (dput ''updated_at'' (JStr now) item)) items)) (run_data rid F)) F))
         | _ \<Rightarrow> Inl (AttributeError ''update''))
      | _ \<Rightarrow> Inl (AttributeError ''setdefault''))"

definition mutate :: "string \<Rightarrow> string \<Rightarrow> string \<Rightarrow> payload \<Rightarrow> runs \<Rightarrow> runs result" where
  "mutate now rid ref patch F = change_item (\<lambda>item. Inr (dupdate patch item)) now rid ref F"

definition record_claim :: "string \<Rightarrow> string \<Rightarrow> string \<Rightarrow> string \<Rightarrow> runs \<Rightarrow> runs result" where
  "record_claim now rid ref claimed_at F = mutate now rid ref [(''state'', JStr ''claimed''), (''claimed_at'', JStr claimed_at)] F"

definition set_worktree :: "string \<Rightarrow> string \<Rightarrow> string \<Rightarrow> string \<Rightarrow> runs \<Rightarrow> runs result" where
  "set_worktree now rid ref path F = mutate now rid ref [(''worktree'', JStr path)] F"

definition handle_set_item :: "string \<Rightarrow> string \<Rightarrow> string \<Rightarrow> string \<Rightarrow> payload \<Rightarrow> runs \<Rightarrow> runs result" where
  "handle_set_item now rid ref st extra F = mutate now rid ref (dupdate extra [(''state'', JStr st)]) F"

definition archive_attempts :: "string \<Rightarrow> string \<Rightarrow> string \<Rightarrow> json list \<Rightarrow> runs \<Rightarrow> runs result" where
  "archive_attempts now rid ref entries F =
     (if entries = [] then Inr F else mutate now rid ref [(''cleared_attempts'', JArr entries)] F)"

definition add_run_record :: "string \<Rightarrow> string \<Rightarrow> string \<Rightarrow> json \<Rightarrow> runs \<Rightarrow> runs result" where
  "add_run_record now rid ref rec F = change_item
     (\<lambda>item. case dget_or item ''run_records'' (JArr []) of JArr rs \<Rightarrow> Inr (dput ''run_records'' (JArr (rs @ [rec])) item)
        | _ \<Rightarrow> Inl (AttributeError ''append'')) now rid ref F"

text \<open>\<open>((d.get("items") or {}).get(ref) or {}).get("worktree")\<close>.\<close>

definition or_empty :: "json \<Rightarrow> json" where
  "or_empty v = (if truthy v then v else JObj [])"

definition worktree_for :: "string \<Rightarrow> string \<Rightarrow> runs \<Rightarrow> json result" where
  "worktree_for rid ref F = rbind (dget (or_empty (field (read_run rid F) ''items'')) ref) (\<lambda>it. dget (or_empty it) ''worktree'')"

section \<open>An open journal\<close>

record RunJournal =
  rj_id :: string
  rj_data :: payload

definition open_journal :: "string \<Rightarrow> string \<Rightarrow> runs \<Rightarrow> RunJournal" where
  "open_journal now rid F = \<lparr>rj_id = rid, rj_data = (case map_of F rid of Some d \<Rightarrow> d | None \<Rightarrow>
     [(''run_id'', JStr rid), (''created_at'', JStr now), (''items'', JObj []), (''tokens'', JNum 0), (''cost_usd'', JNum 0)])\<rparr>"

definition save :: "string \<Rightarrow> RunJournal \<Rightarrow> runs \<Rightarrow> RunJournal \<times> runs" where
  "save now J F = (let d = dput ''updated_at'' (JStr now) (rj_data J) in (J\<lparr>rj_data := d\<rparr>, write_run (rj_id J) d F))"

text \<open>\<open>self.data["items"].setdefault(ref, {})\<close>, changed in place and saved.\<close>

definition journal_item :: "(payload \<Rightarrow> payload result) \<Rightarrow> string \<Rightarrow> string \<Rightarrow> RunJournal \<Rightarrow> runs \<Rightarrow> (RunJournal \<times> runs) result" where
  "journal_item f now ref J F =
     (case map_of (rj_data J) ''items'' of None \<Rightarrow> Inl (KeyError ''items'')
      | Some (JObj items) \<Rightarrow> (case dget_or items ref (JObj []) of JObj item \<Rightarrow>
            rbind (f item) (\<lambda>item. Inr (save now (J\<lparr>rj_data := dput ''items'' (JObj (dput ref (JObj item) items)) (rj_data J)\<rparr>) F))
          | _ \<Rightarrow> Inl (TypeError ''item assignment''))
      | Some _ \<Rightarrow> Inl (AttributeError ''setdefault''))"

definition set_item :: "string \<Rightarrow> string \<Rightarrow> string \<Rightarrow> payload \<Rightarrow> RunJournal \<Rightarrow> runs \<Rightarrow> (RunJournal \<times> runs) result" where
  "set_item now ref st extra J F =
     journal_item (\<lambda>item. Inr (dupdate extra (dput ''updated_at'' (JStr now) (dput ''state'' (JStr st) item)))) now ref J F"

definition add_score :: "string \<Rightarrow> string \<Rightarrow> int \<Rightarrow> int \<Rightarrow> RunJournal \<Rightarrow> runs \<Rightarrow> (RunJournal \<times> runs) result" where
  "add_score now ref rnd score J F =
     journal_item (\<lambda>item. case dget_or item ''scores'' (JArr []) of
         JArr ss \<Rightarrow> Inr (dput ''scores'' (JArr (ss @ [JObj [(''round'', JNum rnd), (''score'', JNum score), (''ts'', JStr now)]])) item)
       | _ \<Rightarrow> Inl (AttributeError ''append'')) now ref J F"

text \<open>\<open>round(x, 6)\<close> is the parameter \<open>round6\<close>.\<close>

fun number :: "json \<Rightarrow> real result" where
  "number (JNum x) = Inr x"
| "number (JBool b) = Inr (if b then 1 else 0)"
| "number _ = Inl (TypeError ''unsupported operand'')"

definition add_cost :: "(real \<Rightarrow> real) \<Rightarrow> string \<Rightarrow> int \<Rightarrow> real \<Rightarrow> RunJournal \<Rightarrow> runs \<Rightarrow> (RunJournal \<times> runs) result" where
  "add_cost round6 now tokens cost J F =
     rbind (number (dget_or (rj_data J) ''tokens'' (JNum 0))) (\<lambda>t. rbind (number (dget_or (rj_data J) ''cost_usd'' (JNum 0))) (\<lambda>c.
       Inr (save now (J\<lparr>rj_data := dput ''cost_usd'' (JNum (round6 (c + cost))) (dput ''tokens'' (JNum (t + tokens)) (rj_data J))\<rparr>) F)))"

definition TERMINAL :: "string list" where
  "TERMINAL = [''finalized'', ''escalated'']"

definition journal_state :: "string \<Rightarrow> RunJournal \<Rightarrow> json result" where
  "journal_state ref J =
     (case map_of (rj_data J) ''items'' of None \<Rightarrow> Inl (KeyError ''items'')
      | Some items \<Rightarrow> rbind (dget items ref) (\<lambda>it. if truthy it then dget it ''state'' else Inr JNull))"

definition terminal_state :: "json \<Rightarrow> bool" where
  "terminal_state v \<longleftrightarrow> v \<in> JStr ` set TERMINAL"

definition is_terminal :: "string \<Rightarrow> RunJournal \<Rightarrow> bool result" where
  "is_terminal ref J = rbind (journal_state ref J) (\<lambda>v. Inr (terminal_state v))"

definition resumable_items :: "RunJournal \<Rightarrow> string list result" where
  "resumable_items J =
     (case map_of (rj_data J) ''items'' of None \<Rightarrow> Inl (KeyError ''items'')
      | Some (JObj items) \<Rightarrow> rbind (rmap (\<lambda>(ref, it). rbind (dget it ''state'') (\<lambda>v. Inr (ref, v))) items)
          (\<lambda>rs. Inr (map fst (filter (\<lambda>(_, v). \<not> terminal_state v) rs)))
      | Some _ \<Rightarrow> Inl (AttributeError ''items''))"

section \<open>What the journal keeps\<close>

lemma map_of_write_run [simp]: "map_of (write_run rid d F) r = (if r = rid then Some d else map_of F r)"
  by (simp add: write_run_def map_of_dput)

lemma read_write_run [simp]: "read_run r (write_run rid d F) = (if r = rid then d else read_run r F)"
  by (simp add: read_run_def)

lemma field_dput [simp]: "field (dput k v d) k' = (if k' = k then v else field d k')"
  by (simp add: field_def map_of_dput)

text \<open>The entry of a card, as \<open>worktree_for\<close> reads it.\<close>

definition entry_of :: "string \<Rightarrow> string \<Rightarrow> runs \<Rightarrow> payload" where
  "entry_of rid ref F = (case field (read_run rid F) ''items'' of
     JObj items \<Rightarrow> (case field items ref of JObj item \<Rightarrow> item | _ \<Rightarrow> []) | _ \<Rightarrow> [])"

lemma run_data_items: "dget_or (run_data rid F) ''items'' (JObj []) = JObj items \<Longrightarrow>
    entry_of rid ref F = (case field items ref of JObj item \<Rightarrow> item | _ \<Rightarrow> [])"
  by (cases "read_run rid F") (auto simp: run_data_def dget_or_def entry_of_def field_def split: option.splits)

lemma change_item_entry:
  assumes "change_item f now rid ref F = Inr F'"
  shows "\<exists>item. f (entry_of rid ref F) = Inr item \<and> entry_of rid ref F' = dput ''updated_at'' (JStr now) item
    \<and> (\<forall>r. r \<noteq> ref \<longrightarrow> entry_of rid r F' = entry_of rid r F) \<and> (\<forall>r. r \<noteq> rid \<longrightarrow> read_run r F' = read_run r F)"
proof -
  obtain items where i: "dget_or (run_data rid F) ''items'' (JObj []) = JObj items"
    using assms by (auto simp: change_item_def split: json.splits)
  obtain item where it: "dget_or items ref (JObj []) = JObj item"
    using assms i by (auto simp: change_item_def split: json.splits)
  obtain new where n: "f item = Inr new" and F': "F' = write_run rid (dput ''items'' (JObj (dput ref (JObj (dput ''updated_at'' (JStr now) new)) items))
      (run_data rid F)) F"
    using assms i it by (auto simp: change_item_def)
  have "entry_of rid ref F = item" using it run_data_items [OF i, of ref] by (auto simp: dget_or_def field_def split: option.splits)
  then show ?thesis using n run_data_items [OF i] by (simp add: F' entry_of_def)
qed

lemma mutate_entry:
  assumes "mutate now rid ref patch F = Inr F'"
  shows "entry_of rid ref F' = dput ''updated_at'' (JStr now) (dupdate patch (entry_of rid ref F))"
    and "r \<noteq> ref \<Longrightarrow> entry_of rid r F' = entry_of rid r F"
  using change_item_entry [OF assms [unfolded mutate_def]] by auto

lemma worktree_for_entry: "worktree_for rid ref F = Inr w \<Longrightarrow> w = field (entry_of rid ref F) ''worktree''"
  by (auto simp: worktree_for_def entry_of_def or_empty_def field_def split: json.splits option.splits if_splits)

text \<open>A worktree that is recorded is found again, whatever other cards of the run record in between.\<close>

theorem worktree_survives_other_cards:
  assumes "set_worktree now rid ref path F = Inr F1"
    and "rfold (\<lambda>(t, r, p). mutate t rid r p) ops F1 = Inr F2" and "list_all (\<lambda>(t, r, p). r \<noteq> ref) ops"
  shows "worktree_for rid ref F2 = Inr (JStr path)"
proof -
  have e: "field (entry_of rid ref F1) ''worktree'' = JStr path"
    using mutate_entry(1) [OF assms(1) [unfolded set_worktree_def]] by (simp add: dupdate_def)
  have "entry_of rid ref F2 = entry_of rid ref F1" using assms(2,3)
  proof (induction ops arbitrary: F1)
    case (Cons op ops)
    obtain t r p where op: "op = (t, r, p)" by (cases op)
    with Cons.prems obtain F where "mutate t rid r p F1 = Inr F" "rfold (\<lambda>(t, r, p). mutate t rid r p) ops F = Inr F2" by auto
    then show ?case using Cons mutate_entry(2) op by force
  qed simp
  with e have f: "field (entry_of rid ref F2) ''worktree'' = JStr path" by simp
  then obtain items item where "field (read_run rid F2) ''items'' = JObj items" "field items ref = JObj item" "field item ''worktree'' = JStr path"
    by (auto simp: entry_of_def field_def [of "[]"] split: json.splits)
  moreover from this have "item \<noteq> []" "items \<noteq> []" by (auto simp: field_def)
  ultimately show ?thesis by (simp add: worktree_for_def or_empty_def field_def)
qed

lemma worktree_survives_other_cards_witness:
  "\<exists>F1 F2. set_worktree ''t'' ''run'' ''a'' ''/w/a'' [] = Inr F1 \<and> mutate ''u'' ''run'' ''b'' [(''state'', JStr ''claimed'')] F1 = Inr F2
     \<and> worktree_for ''run'' ''a'' F2 = Inr (JStr ''/w/a'')"
proof -
  let ?F1 = "[(''run'', [(''run_id'', JStr ''run''), (''items'', JObj [(''a'', JObj [(''worktree'', JStr ''/w/a''), (''updated_at'', JStr ''t'')])]),
    (''tokens'', JNum 0), (''cost_usd'', JNum 0)])]"
  have a: "set_worktree ''t'' ''run'' ''a'' ''/w/a'' [] = Inr ?F1" by code_simp
  obtain F2 where b: "mutate ''u'' ''run'' ''b'' [(''state'', JStr ''claimed'')] ?F1 = Inr F2"
    by (cases "mutate ''u'' ''run'' ''b'' [(''state'', JStr ''claimed'')] ?F1") (simp_all add: mutate_def change_item_def dget_or_def run_data_def read_run_def)
  show ?thesis using a b worktree_survives_other_cards [OF a, of "[(''u'', ''b'', [(''state'', JStr ''claimed'')])]" F2] by simp
qed

text \<open>The items that a reopened journal offers for another attempt are exactly those it has not recorded as settled.\<close>

theorem resumable_exact:
  assumes "set_item now ref st extra J F = Inr (J', F')" and "resumable_items J' = Inr rs" and "\<exists>items. map_of (rj_data J) ''items'' = Some (JObj items) \<and> wf_dict items"
  shows "open_journal t (rj_id J) F' = J' \<and> (r \<in> set rs \<longleftrightarrow> (\<exists>items. map_of (rj_data J') ''items'' = Some (JObj items) \<and> r \<in> set (keys items))
     \<and> is_terminal r J' = Inr False)"
proof -
  obtain items where i: "map_of (rj_data J) ''items'' = Some (JObj items)" "wf_dict items" using assms(3) by blast
  obtain item where J': "J' = J\<lparr>rj_data := dput ''updated_at'' (JStr now) (dput ''items'' (JObj (dput ref (JObj item) items)) (rj_data J))\<rparr>"
    and F': "F' = write_run (rj_id J) (rj_data J') F"
    using assms(1) i(1) by (auto simp: set_item_def journal_item_def save_def Let_def split: json.splits)
  let ?items = "dput ref (JObj item) items"
  have m: "map_of (rj_data J') ''items'' = Some (JObj ?items)" by (simp add: J' map_of_dput)
  have w: "wf_dict ?items" using i(2) by simp
  obtain rvs where rv: "rmap (\<lambda>(ref, it). rbind (dget it ''state'') (\<lambda>v. Inr (ref, v))) ?items = Inr rvs"
    and rs: "rs = map fst (filter (\<lambda>(_, v). \<not> terminal_state v) rvs)"
    using assms(2) m by (auto simp: resumable_items_def)
  have "r \<in> set rs \<longleftrightarrow> (\<exists>v. (r, v) \<in> set rvs \<and> \<not> terminal_state v)" by (force simp: rs)
  also have "\<dots> \<longleftrightarrow> (\<exists>it v. (r, it) \<in> set ?items \<and> dget it ''state'' = Inr v \<and> \<not> terminal_state v)"
    unfolding rmap_set [OF rv] by (simp add: Bex_def split_paired_Ex split: prod.splits) blast
  also have "\<dots> \<longleftrightarrow> (\<exists>it v. map_of ?items r = Some it \<and> dget it ''state'' = Inr v \<and> \<not> terminal_state v)"
    by (simp only: map_of_eq_Some_iff [OF w [unfolded wf_dict_def], symmetric])
  also have "\<dots> \<longleftrightarrow> r \<in> set (keys ?items) \<and> is_terminal r J' = Inr False"
  proof (cases "map_of ?items r")
    case None
    then have "r \<notin> set (keys ?items)" by (simp only: map_of_eq_None_iff set_map not_False_eq_True)
    then show ?thesis using None by simp
  next
    case (Some it)
    then have k: "r \<in> set (keys ?items)" by (metis map_of_eq_None_iff image_set option.distinct(1))
    have "(r, it) \<in> set ?items" using Some by (rule map_of_SomeD)
    then obtain v where v: "dget it ''state'' = Inr v" using rmap_in [OF rv] by fastforce
    have "is_terminal r J' = Inr (terminal_state (if truthy it then v else JNull))"
      using m Some v by (auto simp: is_terminal_def journal_state_def)
    moreover have "\<not> truthy it \<Longrightarrow> v = JNull" using v by (cases it) auto
    ultimately show ?thesis using Some v k by auto
  qed
  finally have "r \<in> set rs \<longleftrightarrow> r \<in> set (keys ?items) \<and> is_terminal r J' = Inr False" .
  then show ?thesis using m by (simp add: open_journal_def F') (simp add: J')
qed

lemma resumable_exact_witness:
  "\<exists>J F. set_item ''t'' ''a'' ''finalized'' [] (open_journal ''t'' ''run'' [(''run'', [(''items'', JObj [(''b'', JObj [(''state'', JStr ''claimed'')])])])])
       [] = Inr (J, F) \<and> resumable_items J = Inr [''b''] \<and> is_terminal ''b'' (open_journal ''u'' ''run'' F) = Inr False"
proof -
  let ?J = "open_journal ''t'' ''run'' [(''run'', [(''items'', JObj [(''b'', JObj [(''state'', JStr ''claimed'')])])])]"
  have w: "case set_item ''t'' ''a'' ''finalized'' [] ?J [] of Inl _ \<Rightarrow> False | Inr (J, F) \<Rightarrow> resumable_items J = Inr [''b'']" by code_simp
  then obtain J F where s: "set_item ''t'' ''a'' ''finalized'' [] ?J [] = Inr (J, F)" and r: "resumable_items J = Inr [''b'']"
    by (auto split: sum.splits)
  have "\<exists>items. map_of (rj_data ?J) ''items'' = Some (JObj items) \<and> wf_dict items" by (simp add: open_journal_def wf_dict_def)
  from resumable_exact [OF s r this, of "''u''" "''b''"] s r show ?thesis by (auto simp: open_journal_def)
qed

end
