(* ===== verification/Fleet.thy ===== *)
theory Fleet
  imports Dispatch
begin

text \<open>
  How many builds a host runs (\<open>src/skharness/autocode/autoscale.py\<close>) and which node runs a card
  (\<open>fleet_dispatch.py\<close>).

  The capacity of the host, the views of the fleet, its freeze and the choice of its scheduler are parameters.
\<close>

section \<open>Concurrency from resources\<close>

record host =
  h_cores :: int
  h_ram_gb :: real
  h_disk_gb :: real

definition HARD_CEIL :: int where
  "HARD_CEIL = 12"

definition ceiling_for :: "bool \<Rightarrow> host \<Rightarrow> int" where
  "ceiling_for aggressive H =
     (let cpu = (if aggressive then h_cores H else max 1 (h_cores H - 1));
          ram_per = (if aggressive then 2 else 3); disk_per = (if aggressive then 2 else 3)
      in max 1 (min (min HARD_CEIL cpu) (min \<lfloor>h_ram_gb H / ram_per\<rfloor> \<lfloor>h_disk_gb H / disk_per\<rfloor>)))"

definition recommended :: "host \<Rightarrow> int" where
  "recommended H = ceiling_for False H"

definition maximum :: "host \<Rightarrow> int" where
  "maximum H = ceiling_for True H"

text \<open>The mode as the text \<open>str\<close> gives.\<close>

definition resolve :: "host \<Rightarrow> string option \<Rightarrow> int option \<Rightarrow> int" where
  "resolve H mode hard_cap =
     (let m = py_lower (py_strip (case mode of None \<Rightarrow> ''recommended'' | Some s \<Rightarrow> s));
          n = (if m = ''min'' then 1 else if m = ''max'' then maximum H else if m \<in> set [''recommended'', ''auto'', []] then recommended H
               else case py_int m of None \<Rightarrow> recommended H | Some k \<Rightarrow> max 1 (min k (maximum H)))
      in max 1 (case hard_cap of None \<Rightarrow> n | Some c \<Rightarrow> if c > 0 then min n c else n))"

section \<open>Placement\<close>

definition NODE_TAG_PREFIX :: string where
  "NODE_TAG_PREFIX = ''node:''"

definition card_selector :: "string list \<Rightarrow> (string \<times> string) list" where
  "card_selector tags = fold (\<lambda>tag sel.
     if \<not> prefix NODE_TAG_PREFIX tag then sel
     else let body = drop (length NODE_TAG_PREFIX) tag; key = takeWhile (\<lambda>c. c \<noteq> CHR ''='') body;
              value = drop 1 (dropWhile (\<lambda>c. c \<noteq> CHR ''='') body)
          in if key = [] then sel else dput key (if value = [] then ''true'' else value) sel) tags []"

record node_view =
  nv_name :: string
  nv_phase :: string
  nv_labels :: "(string \<times> string) list"

record DispatchDecision =
  dd_ref :: string
  dd_node :: "string option"
  dd_reason :: string

text \<open>The fleet of a node: the views synced to it, its own name, the freeze and its trust, the scheduler's choice.\<close>

record fleet =
  fl_views :: "node_view list"
  fl_me :: string
  fl_frozen :: bool
  fl_trusted :: bool
  fl_select :: "node_view list \<Rightarrow> string \<Rightarrow> (string \<times> string) list \<Rightarrow> string option \<times> string"

definition admitted :: "fleet \<Rightarrow> node_view list" where
  "admitted f = filter (\<lambda>v. nv_phase v \<noteq> ''Pending'') (fl_views f)"

text \<open>A placement: the decision, and whether it is written to the fleet's store.\<close>

definition place :: "fleet \<Rightarrow> string \<Rightarrow> string list \<Rightarrow> DispatchDecision \<times> bool" where
  "place f ref tags =
     (if fl_frozen f \<or> \<not> fl_trusted f then (\<lparr>dd_ref = ref, dd_node = None, dd_reason = ''fleet frozen: no new placements''\<rparr>, False)
      else case fl_select f (admitted f) ref (card_selector tags) of (node, reason) \<Rightarrow>
        (\<lparr>dd_ref = ref, dd_node = node, dd_reason = reason\<rparr>,
         node \<noteq> None \<and> list_ex (\<lambda>v. nv_name v = fl_me f \<and> map_of (nv_labels v) ''control-plane'' = Some ''true'') (admitted f)))"

definition default_placer :: "fleet option \<Rightarrow> (string \<Rightarrow> string list \<Rightarrow> DispatchDecision \<times> bool) option" where
  "default_placer fo =
     (case fo of None \<Rightarrow> None
      | Some f \<Rightarrow> if admitted f = [] \<or> fl_me f \<notin> nv_name ` set (admitted f) then None else Some (place f))"

definition self_node :: "fleet option \<Rightarrow> string" where
  "self_node fo = (case fo of None \<Rightarrow> ''local'' | Some f \<Rightarrow> fl_me f)"

definition claim_agent_name :: "fleet option \<Rightarrow> string" where
  "claim_agent_name fo = (case fo of None \<Rightarrow> ''autopilot'' | Some f \<Rightarrow> ''autopilot-'' @ fl_me f)"

text \<open>The items that run here, and those that do not with the decision. An item comes with its reference and its tags.\<close>

fun partition_local :: "(string \<Rightarrow> string list \<Rightarrow> DispatchDecision \<times> bool) option \<Rightarrow> string \<Rightarrow> ('i \<Rightarrow> string \<times> string list) \<Rightarrow> 'i list
    \<Rightarrow> 'i list \<times> ('i \<times> DispatchDecision) list" where
  "partition_local None me describe selected = (selected, [])"
| "partition_local (Some placer) me describe [] = ([], [])"
| "partition_local (Some placer) me describe (x # xs) =
     (case describe x of (ref, tags) \<Rightarrow> case partition_local (Some placer) me describe xs of (kept, skipped) \<Rightarrow>
       let d = fst (placer ref tags) in if dd_node d = Some me then (x # kept, skipped) else (kept, (x, d) # skipped))"

section \<open>Bounds and exclusive placement\<close>

lemma ceiling_bounds: "1 \<le> ceiling_for a H" "ceiling_for a H \<le> HARD_CEIL" "1 \<le> h_cores H \<Longrightarrow> ceiling_for a H \<le> h_cores H"
  by (auto simp: ceiling_for_def Let_def HARD_CEIL_def)

lemma recommended_le_maximum:
  assumes "0 \<le> h_ram_gb H" and "0 \<le> h_disk_gb H" and "1 \<le> h_cores H"
  shows "recommended H \<le> maximum H"
proof -
  have "\<lfloor>x / 3\<rfloor> \<le> \<lfloor>x / 2\<rfloor>" if "0 \<le> x" for x :: real using that by (intro floor_mono) simp
  note f = this [OF assms(1)] this [OF assms(2)]
  have "max 1 (h_cores H - 1) \<le> h_cores H" using assms(3) by simp
  with f show ?thesis unfolding recommended_def maximum_def ceiling_for_def Let_def
    by (simp only: if_True if_False) (intro max.mono min.mono order.refl)
qed

text \<open>The number of concurrent builds is at least one and never above the hard ceiling, the cores, what the host can
  hold at most, or the cap that the operator sets, whatever the mode says.\<close>

theorem resolve_bounds:
  assumes "1 \<le> h_cores H" and "0 \<le> h_ram_gb H" and "0 \<le> h_disk_gb H"
  shows "1 \<le> resolve H mode cap \<and> resolve H mode cap \<le> min HARD_CEIL (h_cores H) \<and> resolve H mode cap \<le> maximum H
     \<and> (case cap of Some c \<Rightarrow> 0 < c \<longrightarrow> resolve H mode cap \<le> c | None \<Rightarrow> True)"
proof -
  obtain n where n: "1 \<le> n" "n \<le> maximum H" and r: "resolve H mode cap = max 1 (case cap of None \<Rightarrow> n | Some c \<Rightarrow> if c > 0 then min n c else n)"
  proof -
    let ?n = "let m = py_lower (py_strip (case mode of None \<Rightarrow> ''recommended'' | Some s \<Rightarrow> s)) in
      if m = ''min'' then 1 else if m = ''max'' then maximum H else if m \<in> set [''recommended'', ''auto'', []] then recommended H
      else case py_int m of None \<Rightarrow> recommended H | Some k \<Rightarrow> max 1 (min k (maximum H))"
    have "1 \<le> recommended H" "1 \<le> maximum H" by (simp_all add: recommended_def maximum_def ceiling_bounds)
    then have "1 \<le> ?n \<and> ?n \<le> maximum H" using recommended_le_maximum [OF assms(2,3,1)]
      by (simp add: Let_def split: option.split)
    then show ?thesis using that [of ?n] by (simp only: resolve_def Let_def)
  qed
  moreover have "maximum H \<le> HARD_CEIL" "maximum H \<le> h_cores H" using assms(1) by (simp_all add: maximum_def ceiling_bounds)
  ultimately show ?thesis by (auto split: option.splits)
qed

definition demo_host :: host where
  "demo_host = \<lparr>h_cores = 8, h_ram_gb = 10, h_disk_gb = 100\<rparr>"

lemma resolve_bounds_witness:
  "resolve demo_host (Some '' Auto'') (Some 2) = 2 \<and> resolve demo_host (Some ''99'') None \<le> maximum demo_host"
proof -
  have d: "1 \<le> h_cores demo_host" "0 \<le> h_ram_gb demo_host" "0 \<le> h_disk_gb demo_host" by (simp_all add: demo_host_def)
  have "resolve demo_host (Some '' Auto'') (Some 2) = 2" by code_simp
  with resolve_bounds [OF d, of "Some ''99''" None] show ?thesis by blast
qed

lemma partition_Some:
  "partition_local (Some placer) me describe xs =
     (filter (\<lambda>x. dd_node (fst (placer (fst (describe x)) (snd (describe x)))) = Some me) xs,
      map (\<lambda>x. (x, fst (placer (fst (describe x)) (snd (describe x)))))
        (filter (\<lambda>x. dd_node (fst (placer (fst (describe x)) (snd (describe x)))) \<noteq> Some me) xs))"
  by (induction xs) (auto split: prod.split)

text \<open>Two nodes of one fleet that see the same views and use the same scheduler never both keep a card, every card that a node
  does not keep is reported with where it went, and a frozen or untrusted fleet places nothing.\<close>

theorem placement_is_exclusive:
  assumes "default_placer (Some f) = Some p" and "default_placer (Some g) = Some q" and "fl_me f \<noteq> fl_me g"
    and "fl_views f = fl_views g" and "fl_select f = fl_select g"
  shows "set (fst (partition_local (Some p) (fl_me f) describe xs)) \<inter> set (fst (partition_local (Some q) (fl_me g) describe xs)) = {}
     \<and> set xs = set (fst (partition_local (Some p) (fl_me f) describe xs)) \<union> fst ` set (snd (partition_local (Some p) (fl_me f) describe xs))
     \<and> (fl_frozen f \<or> \<not> fl_trusted f \<longrightarrow> fst (partition_local (Some p) (fl_me f) describe xs) = [])"
proof (intro conjI impI)
  have p: "p = place f" and q: "q = place g" using assms(1,2) by (auto simp: default_placer_def split: if_splits)
  have same: "dd_node (fst (place f r ts)) = Some a \<Longrightarrow> dd_node (fst (place g r ts)) = Some b \<Longrightarrow> a = b" for r ts a b
    using assms(4,5) by (auto simp: place_def admitted_def split: if_splits prod.splits)
  show "set (fst (partition_local (Some p) (fl_me f) describe xs)) \<inter> set (fst (partition_local (Some q) (fl_me g) describe xs)) = {}"
    using same assms(3) by (auto simp: partition_Some p q)
  show "set xs = set (fst (partition_local (Some p) (fl_me f) describe xs)) \<union> fst ` set (snd (partition_local (Some p) (fl_me f) describe xs))"
    by (auto simp: partition_Some image_iff)
  show "fst (partition_local (Some p) (fl_me f) describe xs) = []" if "fl_frozen f \<or> \<not> fl_trusted f"
    using that by (auto simp: partition_Some p place_def filter_empty_conv)
qed

definition demo_fleet :: "string \<Rightarrow> fleet" where
  "demo_fleet me = \<lparr>fl_views = [\<lparr>nv_name = ''n1'', nv_phase = ''Ready'', nv_labels = []\<rparr>, \<lparr>nv_name = ''n2'', nv_phase = ''Ready'', nv_labels = [(''gpu'', ''true'')]\<rparr>],
     fl_me = me, fl_frozen = False, fl_trusted = True,
     fl_select = (\<lambda>vs ref sel. (map_option nv_name (find (\<lambda>v. list_all (\<lambda>(k, x). map_of (nv_labels v) k = Some x) sel) vs), []))\<rparr>"

lemma placement_is_exclusive_witness:
  "fst (partition_local (default_placer (Some (demo_fleet ''n1''))) ''n1'' id [(''a'', [''node:gpu'']), (''b'', [])]) = [(''b'', [])]
   \<and> fst (partition_local (default_placer (Some (demo_fleet ''n2''))) ''n2'' id [(''a'', [''node:gpu'']), (''b'', [])]) = [(''a'', [''node:gpu''])]
   \<and> set [(''b'', [] :: string list)] \<inter> set [(''a'', [''node:gpu''])] = {}"
proof -
  let ?xs = "[(''a'', [''node:gpu'']), (''b'', [])]"
  have p: "default_placer (Some (demo_fleet n)) = Some (place (demo_fleet n))" if "n = ''n1'' \<or> n = ''n2''" for n
    using that by (elim disjE) (simp_all add: default_placer_def admitted_def demo_fleet_def)
  have e: "fst (partition_local (default_placer (Some (demo_fleet ''n1''))) ''n1'' id ?xs) = [(''b'', [])]"
    "fst (partition_local (default_placer (Some (demo_fleet ''n2''))) ''n2'' id ?xs) = [(''a'', [''node:gpu''])]" by code_simp+
  have p1: "default_placer (Some (demo_fleet ''n1'')) = Some (place (demo_fleet ''n1''))"
    and p2: "default_placer (Some (demo_fleet ''n2'')) = Some (place (demo_fleet ''n2''))" by (rule p; simp)+
  have f: "fl_me (demo_fleet n) = n" "fl_views (demo_fleet n) = fl_views (demo_fleet m)" "fl_select (demo_fleet n) = fl_select (demo_fleet m)" for n m
    by (simp_all add: demo_fleet_def)
  have n: "fl_me (demo_fleet ''n1'') \<noteq> fl_me (demo_fleet ''n2'')" by (simp add: f)
  have "set (fst (partition_local (Some (place (demo_fleet ''n1''))) ''n1'' id ?xs)) \<inter> set (fst (partition_local (Some (place (demo_fleet ''n2''))) ''n2'' id ?xs)) = {}"
    by (rule placement_is_exclusive [OF p1 p2 n f(2,3), THEN conjunct1, unfolded f(1)])
  then show ?thesis using e unfolding p1 p2 by simp
qed

end
