(* ===== verification/BuildSwarm.thy ===== *)
theory BuildSwarm
  imports RunJournal Fleet
begin

text \<open>
  The build phase of the orchestrator (\<open>src/skharness/autocode/orchestrator.py\<close>, \<open>phase1_triage\<close> and \<open>phase2_swarm\<close>): routing,
  the budget, the outcome rows, and the items built in sequence or by a pool of threads.

  An executor is an object over a state \<open>'e\<close>: a run gives the journal writes it makes, its result and its state, a
  landing likewise from the worktree that the journal holds. A thread advances by steps; the steps of one thread are
  the locked blocks, the journal writes and the calls of \<open>_process\<close>, and a schedule says which thread is next and
  what the kill switch reads. Session registration and health records are left out.
\<close>

section \<open>Items, decisions, budget\<close>

record routed = WorkItem +
  wi_kind :: string
  wi_source :: string
  wi_repo :: "string option"

record DecisionItem =
  di_qid :: string
  di_prompt :: string
  di_options :: "(string \<times> string) list"
  di_action_ref :: "string option"
  di_priority :: string

record Caps =
  max_concurrent :: int
  concurrency :: string
  new_tasks_per_run :: int
  max_tokens_per_run :: int
  max_usd_per_day :: real
  max_subtasks_per_card :: int
  max_decompose_children_per_run :: int
  max_decompose_depth :: int
  concreteness_floor :: real

record CapLedger =
  cl_tokens :: int
  cl_usd :: real

definition ledger_add :: "int \<Rightarrow> real \<Rightarrow> CapLedger \<Rightarrow> CapLedger" where
  "ledger_add tokens usd l = l\<lparr>cl_tokens := cl_tokens l + tokens, cl_usd := cl_usd l + usd\<rparr>"

definition exceeded :: "Caps \<Rightarrow> CapLedger \<Rightarrow> bool" where
  "exceeded caps l \<longleftrightarrow> cl_tokens l > max_tokens_per_run caps \<or> cl_usd l > max_usd_per_day caps"

text \<open>The digest is a parameter.\<close>

definition stable_qid :: "(string \<Rightarrow> string) \<Rightarrow> string \<Rightarrow> string option \<Rightarrow> string" where
  "stable_qid sha prompt ref = take 12 (sha ((case ref of None \<Rightarrow> ''None'' | Some r \<Rightarrow> r) @ ''|'' @ prompt))"

section \<open>Outcome rows\<close>

definition TERMINAL_STATES :: "string list" where
  "TERMINAL_STATES = [''finalized'', ''finalize-failed'', ''escalated'', ''claim-raced'', ''off-node'', ''kill-switch'', ''budget-hit'']"

record outcome_row =
  or_card :: string
  or_repo :: string
  or_tokens :: int
  or_cost :: real
  or_passed :: bool
  or_run_id :: string
  or_terminal :: string
  or_outcome :: string
  or_pr :: string
  or_adapter :: "string option"
  or_model_requested :: "string option"
  or_model_served :: "string option"
  or_grader_model :: "string option"
  or_score :: "int option"
  or_retries :: int
  or_quality :: json
  or_work_grade :: json
  or_escalation_reason :: "string option"
  or_mutation :: "json option"

definition stripped_model :: "string option \<Rightarrow> string option" where
  "stripped_model m = (case m of None \<Rightarrow> None | Some s \<Rightarrow> if py_strip s = [] then None else Some (py_strip s))"

definition model_requested :: "payload \<Rightarrow> string option \<Rightarrow> string option" where
  "model_requested p model = (case bucket_for_payload (JObj p) of Inr (Some (c # b)) \<Rightarrow> Some (c # b) | _ \<Rightarrow> stripped_model model)"

definition grader_model :: "payload \<Rightarrow> string option \<Rightarrow> string option" where
  "grader_model p model =
     (case rbind (bucket_for_payload (JObj p)) (\<lambda>b. grader_bucket (case b of None \<Rightarrow> JNull | Some b \<Rightarrow> JStr b)) of
        Inr (Some (c # b)) \<Rightarrow> Some (c # b) | _ \<Rightarrow> stripped_model model)"

text \<open>The harness has a name and a model.\<close>

definition outcome_row_of :: "string \<Rightarrow> string option \<Rightarrow> string option \<Rightarrow> routed \<Rightarrow> string \<Rightarrow> GateResult option \<Rightarrow> int \<Rightarrow> outcome_row" where
  "outcome_row_of rid name model item ts res retries =
     \<lparr>or_card = wi_ref item, or_repo = (case wi_repo item of None \<Rightarrow> [] | Some r \<Rightarrow> r),
      or_tokens = (case res of None \<Rightarrow> 0 | Some g \<Rightarrow> gr_tokens g), or_cost = (case res of None \<Rightarrow> 0 | Some g \<Rightarrow> gr_cost g),
      or_passed = (case res of None \<Rightarrow> False | Some g \<Rightarrow> gr_passed g), or_run_id = rid, or_terminal = ts,
      or_outcome = (case res of Some g \<Rightarrow> if gr_outcome g = [] then ''unrecorded'' else gr_outcome g | None \<Rightarrow> ''unrecorded''),
      or_pr = [], or_adapter = stripped_model name,
      or_model_requested = model_requested (wi_payload item) model, or_model_served = None, or_grader_model = grader_model (wi_payload item) model,
      or_score = Option.bind res gr_score, or_retries = retries,
      or_quality = (case res of Some g \<Rightarrow> JStr (gr_mode g) | None \<Rightarrow> field (wi_payload item) ''quality''),
      or_work_grade = field (wi_payload item) ''work_grade'',
      or_escalation_reason = reason_from_payload (JObj (wi_payload item)), or_mutation = Option.bind res gr_mutation\<rparr>"

section \<open>Executors\<close>

datatype journal_op = Patch_item string payload | Add_record string json

fun apply_op :: "string \<Rightarrow> string \<Rightarrow> journal_op \<Rightarrow> runs \<Rightarrow> runs result" where
  "apply_op rid ref (Patch_item now patch) F = mutate now rid ref patch F"
| "apply_op rid ref (Add_record now rec) F = add_run_record now rid ref rec F"

record 'e executor_obj =
  xo_selectable :: "routed \<Rightarrow> bool"
  xo_run :: "routed \<Rightarrow> 'e \<Rightarrow> journal_op list \<times> GateResult result \<times> 'e"
  xo_finalize :: "routed \<Rightarrow> GateResult \<Rightarrow> json result \<Rightarrow> 'e \<Rightarrow> journal_op list \<times> unit result \<times> 'e"
  xo_escalate :: "routed \<Rightarrow> string \<Rightarrow> DecisionItem"

section \<open>Triage\<close>

definition is_untriaged :: "routed \<Rightarrow> bool" where
  "is_untriaged item \<longleftrightarrow> ''autopilot-untriaged'' \<in> set (wi_tags item)"

text \<open>One candidate: dropped, selected with its executor, or a decision.\<close>

datatype 'e triage = Dropped | Selected "'e executor_obj" | Decide DecisionItem

definition triage_one :: "(string \<Rightarrow> string) \<Rightarrow> string list \<Rightarrow> (string \<times> 'e executor_obj) list \<Rightarrow> routed \<Rightarrow> 'e triage" where
  "triage_one sha repo_map executors item =
     (if is_untriaged item then Dropped
      else case map_of executors (wi_kind item) of
        None \<Rightarrow> Decide \<lparr>di_qid = stable_qid sha (''no-exec:'' @ wi_kind item) (Some (wi_ref item)),
          di_prompt = ''No executor registered for kind '' @ [CHR 0x27] @ wi_kind item @ [CHR 0x27] @ '' (task '' @ wi_ref item @ '').'',
          di_options = [(''skip'', ''skip'')], di_action_ref = Some (wi_ref item), di_priority = ''medium''\<rparr>
      | Some ex \<Rightarrow>
          if wi_kind item = ''engineering'' \<and> (case wi_repo item of None \<Rightarrow> True | Some r \<Rightarrow> r \<notin> set repo_map)
          then Decide \<lparr>di_qid = stable_qid sha ''which-repo'' (Some (wi_ref item)),
            di_prompt = ''Task '' @ wi_ref item @ '' has no known repo:<name>; add to repo_map or route?'',
            di_options = [(''map'', ''add-to-repo_map''), (''skip'', ''skip'')], di_action_ref = Some (wi_ref item), di_priority = ''high''\<rparr>
          else if xo_selectable ex item then Selected ex
          else Decide \<lparr>di_qid = stable_qid sha ''not-selectable'' (Some (wi_ref item)),
            di_prompt = ''Task '' @ wi_ref item @ '' ('' @ wi_kind item @ '') is not autonomously actionable; needs you.'',
            di_options = [(''take'', ''take''), (''defer'', ''defer'')], di_action_ref = Some (wi_ref item), di_priority = ''medium''\<rparr>)"

fun phase1_triage :: "(string \<Rightarrow> string) \<Rightarrow> string list \<Rightarrow> (string \<times> 'e executor_obj) list \<Rightarrow> routed list \<Rightarrow> DecisionItem list
    \<Rightarrow> (routed \<times> 'e executor_obj) list \<times> DecisionItem list" where
  "phase1_triage sha repo_map executors [] ds = ([], ds)"
| "phase1_triage sha repo_map executors (item # items) ds =
     (case triage_one sha repo_map executors item of
        Dropped \<Rightarrow> phase1_triage sha repo_map executors items ds
      | Selected ex \<Rightarrow> (case phase1_triage sha repo_map executors items ds of (sel, ds) \<Rightarrow> ((item, ex) # sel, ds))
      | Decide d \<Rightarrow> phase1_triage sha repo_map executors items (ds @ [d]))"

section \<open>The build of one item\<close>

record 'e swarm =
  sw_items :: payload
  sw_disk :: runs
  sw_ledger :: CapLedger
  sw_budget_hit :: bool
  sw_decisions :: "DecisionItem list"
  sw_rows :: "outcome_row list"
  sw_exec :: 'e

record swarm_env =
  sv_run_id :: string
  sv_caps :: Caps
  sv_workers :: int
  sv_sha :: "string \<Rightarrow> string"
  sv_adapter :: "string option"
  sv_model :: "string option"
  sv_show :: "exn \<Rightarrow> string"

datatype thread =
    Ready
  | Building "journal_op list" "GateResult result"
  | Passed GateResult int
  | Landing "journal_op list" "unit result" GateResult int
  | Closing payload GateResult int
  | Recording string "GateResult option" int
  | Over
  | Crashed exn

text \<open>\<open>_prior_rounds\<close>, and the same reading where the entry is not defaulted.\<close>

definition prior_rounds :: "string \<Rightarrow> payload \<Rightarrow> int result" where
  "prior_rounds ref items = rbind (dget (or_empty (field items ref)) ''round'') json_int"

definition last_round :: "string \<Rightarrow> payload \<Rightarrow> int result" where
  "last_round ref items = rbind (dget (dget_or items ref (JObj [])) ''round'') json_int"

definition raising :: "('a \<Rightarrow> thread) \<Rightarrow> 'a result \<Rightarrow> thread" where
  "raising k r = (case r of Inl e \<Rightarrow> Crashed e | Inr x \<Rightarrow> k x)"

definition score_json :: "int option \<Rightarrow> json" where
  "score_json sc = (case sc of None \<Rightarrow> JNull | Some n \<Rightarrow> JNum n)"

definition entry :: "string \<Rightarrow> int \<Rightarrow> int option \<Rightarrow> payload" where
  "entry st rnd sc = [(''state'', JStr st), (''round'', JNum rnd), (''score'', score_json sc)]"

text \<open>\<open>state[ref] = entry\<close> and the rewrite of the run file, under the lock.\<close>

definition put_entry :: "swarm_env \<Rightarrow> string \<Rightarrow> payload \<Rightarrow> 'e swarm \<Rightarrow> 'e swarm" where
  "put_entry V ref e S = (let items = dput ref (JObj e) (sw_items S) in
     S\<lparr>sw_items := items, sw_disk := write_run (sv_run_id V)
        [(''run_id'', JStr (sv_run_id V)), (''phase'', JStr ''swarm''), (''items'', JObj items)] (sw_disk S)\<rparr>)"

definition budget_decision :: "swarm_env \<Rightarrow> DecisionItem" where
  "budget_decision V = \<lparr>di_qid = stable_qid (sv_sha V) ''budget-hit'' (Some (sv_run_id V)),
     di_prompt = ''Autopilot hit its budget ceiling (token/dollar limits); stopped early.'',
     di_options = [(''ok'', ''acknowledge'')], di_action_ref = Some (sv_run_id V), di_priority = ''high''\<rparr>"

definition finalize_failed :: "swarm_env \<Rightarrow> string \<Rightarrow> exn \<Rightarrow> DecisionItem" where
  "finalize_failed V ref e = \<lparr>di_qid = stable_qid (sv_sha V) ''finalize-failed'' (Some ref),
     di_prompt = ''Task '' @ ref @ '' PASSED the gate but finalize failed: '' @ sv_show V e @ ''. Branch autopilot/'' @ ref
       @ '' may already be pushed; open/merge it manually or retry.'',
     di_options = [(''retry'', ''retry''), (''skip'', ''skip'')], di_action_ref = Some ref, di_priority = ''high''\<rparr>"

fun race_detail :: "exn \<Rightarrow> string option" where
  "race_detail (ClaimRaced d) = Some d"
| "race_detail _ = None"

fun tick :: "swarm_env \<Rightarrow> 'e executor_obj \<Rightarrow> routed \<Rightarrow> bool \<Rightarrow> thread \<Rightarrow> 'e swarm \<Rightarrow> thread \<times> 'e swarm" where
  "tick V ex item killed Ready S =
     (if killed then (raising (Recording ''kill-switch'' None) (prior_rounds (wi_ref item) (sw_items S)), S)
      else if exceeded (sv_caps V) (sw_ledger S)
      then (raising (Recording ''budget-hit'' None) (prior_rounds (wi_ref item) (sw_items S)),
            if sw_budget_hit S then S else S\<lparr>sw_budget_hit := True, sw_decisions := sw_decisions S @ [budget_decision V]\<rparr>)
      else case xo_run ex item (sw_exec S) of (ops, r, e) \<Rightarrow> (Building ops r, S\<lparr>sw_exec := e\<rparr>))"
| "tick V ex item killed (Building (op # ops) r) S =
     (case apply_op (sv_run_id V) (wi_ref item) op (sw_disk S) of
        Inl e \<Rightarrow> (Building [] (Inl e), S) | Inr F \<Rightarrow> (Building ops r, S\<lparr>sw_disk := F\<rparr>))"
| "tick V ex item killed (Building [] (Inl e)) S =
     (case race_detail e of None \<Rightarrow> (Crashed e, S)
      | Some d \<Rightarrow> (case prior_rounds (wi_ref item) (sw_items S) of Inl e \<Rightarrow> (Crashed e, S)
          | Inr n \<Rightarrow> (Recording ''claim-raced'' None n, put_entry V (wi_ref item) [(''state'', JStr ''claim-raced''), (''detail'', JStr d)] S)))"
| "tick V ex item killed (Building [] (Inr g)) S =
     (let S = S\<lparr>sw_ledger := ledger_add (gr_tokens g) (gr_cost g) (sw_ledger S)\<rparr> in
      case last_round (wi_ref item) (sw_items S) of Inl e \<Rightarrow> (Crashed e, S)
      | Inr n \<Rightarrow> if gr_passed g then (Passed g (n + 1), S)
          else (Closing (entry ''escalated'' (n + 1) (gr_score g)) g (n + 1),
                S\<lparr>sw_decisions := sw_decisions S @ [xo_escalate ex item (gr_notes g)]\<rparr>))"
| "tick V ex item killed (Passed g n) S =
     (case xo_finalize ex item g (worktree_for (sv_run_id V) (wi_ref item) (sw_disk S)) (sw_exec S) of (ops, r, e) \<Rightarrow>
        (Landing ops r g n, S\<lparr>sw_exec := e\<rparr>))"
| "tick V ex item killed (Landing (op # ops) r g n) S =
     (case apply_op (sv_run_id V) (wi_ref item) op (sw_disk S) of
        Inl e \<Rightarrow> (Landing [] (Inl e) g n, S) | Inr F \<Rightarrow> (Landing ops r g n, S\<lparr>sw_disk := F\<rparr>))"
| "tick V ex item killed (Landing [] r g n) S =
     (case r of Inr _ \<Rightarrow> (Closing (entry ''finalized'' n (gr_score g)) g n, S)
      | Inl e \<Rightarrow> (Closing (entry ''finalize-failed'' n (gr_score g)) g n,
                 S\<lparr>sw_decisions := sw_decisions S @ [finalize_failed V (wi_ref item) e]\<rparr>))"
| "tick V ex item killed (Closing en g n) S =
     (Recording (case map_of en ''state'' of Some (JStr st) \<Rightarrow> st | _ \<Rightarrow> []) (Some g) (n - 1), put_entry V (wi_ref item) en S)"
| "tick V ex item killed (Recording ts res n) S =
     (Over, S\<lparr>sw_rows := sw_rows S @ [outcome_row_of (sv_run_id V) (sv_adapter V) (sv_model V) item ts res n]\<rparr>)"
| "tick V ex item killed Over S = (Over, S)"
| "tick V ex item killed (Crashed e) S = (Crashed e, S)"

section \<open>Items in sequence\<close>

fun settled :: "thread \<Rightarrow> bool" where
  "settled Over = True"
| "settled (Crashed _) = True"
| "settled _ = False"

fun stage :: "thread \<Rightarrow> nat" where
  "stage Ready = 7"
| "stage (Building _ _) = 6"
| "stage (Passed _ _) = 5"
| "stage (Landing _ _ _ _) = 4"
| "stage (Closing _ _ _) = 3"
| "stage (Recording _ _ _) = 2"
| "stage Over = 0"
| "stage (Crashed _) = 0"

fun writes_left :: "thread \<Rightarrow> nat" where
  "writes_left (Building ops _) = length ops"
| "writes_left (Landing ops _ _ _) = length ops"
| "writes_left _ = 0"

lemma stage_raising: "(\<And>x. stage (k x) \<le> n) \<Longrightarrow> stage (raising k r) \<le> n"
  by (cases r) (simp_all add: raising_def)

lemma tick_progress:
  assumes "tick V ex item killed t S = (t', S')" and "\<not> settled t"
  shows "(stage t', stage t) \<in> less_than \<or> stage t' = stage t \<and> writes_left t' < writes_left t"
  using assms
proof (induction V ex item killed t S rule: tick.induct)
  case (1 V ex item killed S)
  have "stage (raising (Recording ts None) r) \<le> 2" for ts r by (rule stage_raising) simp
  then have "stage (raising (Recording ts None) r) < 7" for ts r by (rule le_less_trans) simp
  then show ?case using 1 by (auto split: if_splits prod.splits)
qed (auto simp: Let_def split: sum.splits prod.splits if_splits option.splits)

function drive :: "swarm_env \<Rightarrow> 'e executor_obj \<Rightarrow> routed \<Rightarrow> bool \<Rightarrow> thread \<Rightarrow> 'e swarm \<Rightarrow> thread \<times> 'e swarm" where
  "drive V ex item killed t S =
     (if settled t then (t, S) else case tick V ex item killed t S of (t, S) \<Rightarrow> drive V ex item killed t S)"
  by pat_completeness auto
termination
proof (relation "inv_image (less_than <*lex*> less_than) (\<lambda>(V, ex, item, killed, t, S). (stage t, writes_left t))")
  show "wf (inv_image (less_than <*lex*> less_than) (\<lambda>(V, ex, item, killed, t, S). (stage t, writes_left t)))" by auto
next
  fix V and ex :: "'e executor_obj" and item killed t S t' and S' :: "'e swarm"
  assume "\<not> settled t" and "(t', S') = tick V ex item killed t S"
  from tick_progress [OF this(2) [symmetric] this(1)]
  show "((V, ex, item, killed, t', S'), V, ex, item, killed, t, S)
    \<in> inv_image (less_than <*lex*> less_than) (\<lambda>(V, ex, item, killed, t, S). (stage t, writes_left t))" by auto
qed

declare drive.simps [simp del]

fun build_in_turn :: "swarm_env \<Rightarrow> (routed \<times> 'e executor_obj) list \<Rightarrow> (nat \<Rightarrow> bool) \<Rightarrow> 'e swarm \<Rightarrow> unit result \<times> 'e swarm" where
  "build_in_turn V [] killed S = (Inr (), S)"
| "build_in_turn V ((item, ex) # sel) killed S =
     (case drive V ex item (killed 0) Ready S of
        (Crashed e, S) \<Rightarrow> (Inl e, S)
      | (_, S) \<Rightarrow> build_in_turn V sel (\<lambda>n. killed (n + 1)) S)"

section \<open>Items in a pool\<close>

text \<open>The pool starts items in order, at most \<open>workers\<close> at a time. A schedule entry is a thread and a reading of the kill switch.\<close>

fun busy :: "thread \<Rightarrow> bool" where
  "busy Ready = False"
| "busy t = (\<not> settled t)"

definition may_start :: "int \<Rightarrow> thread list \<Rightarrow> nat \<Rightarrow> bool" where
  "may_start workers ths i \<longleftrightarrow> int (length (filter busy ths)) < workers \<and> list_all (\<lambda>t. t \<noteq> Ready) (take i ths)"

definition advance :: "swarm_env \<Rightarrow> (routed \<times> 'e executor_obj) list \<Rightarrow> nat \<times> bool \<Rightarrow> thread list \<times> 'e swarm \<Rightarrow> thread list \<times> 'e swarm" where
  "advance V sel = (\<lambda>(i, killed) (ths, S).
     if i < length ths \<and> i < length sel \<and> (ths ! i = Ready \<longrightarrow> may_start (sv_workers V) ths i)
     then (case tick V (snd (sel ! i)) (fst (sel ! i)) killed (ths ! i) S of (t, S) \<Rightarrow> (ths[i := t], S))
     else (ths, S))"

definition pool :: "swarm_env \<Rightarrow> (routed \<times> 'e executor_obj) list \<Rightarrow> (nat \<times> bool) list \<Rightarrow> 'e swarm \<Rightarrow> thread list \<times> 'e swarm" where
  "pool V sel sched S = fold (advance V sel) sched (replicate (length sel) Ready, S)"

text \<open>\<open>f.result()\<close> over the futures: the first exception in submission order. \<open>None\<close>: the schedule ended too early.\<close>

definition pool_result :: "thread list \<Rightarrow> unit result option" where
  "pool_result ths = (if list_all settled ths
     then Some (case filter (\<lambda>t. t \<noteq> Over) ths of Crashed e # _ \<Rightarrow> Inl e | _ \<Rightarrow> Inr ()) else None)"

definition pool_size :: "host \<Rightarrow> Caps \<Rightarrow> int option \<Rightarrow> int" where
  "pool_size H caps workers = (let hard_cap = (if max_concurrent caps = 0 then 3 else max_concurrent caps) in
     case workers of None \<Rightarrow> resolve H (Some (concurrency caps)) (Some hard_cap) | Some w \<Rightarrow> max 1 (min w hard_cap))"

definition phase2_swarm :: "swarm_env \<Rightarrow> (routed \<times> 'e executor_obj) list \<Rightarrow> (nat \<Rightarrow> bool) \<Rightarrow> (nat \<times> bool) list \<Rightarrow> 'e swarm
    \<Rightarrow> (unit result \<times> 'e swarm) option" where
  "phase2_swarm V sel killed sched S =
     (if sv_workers V \<le> 1 then Some (build_in_turn V sel killed S)
      else case pool V sel sched S of (ths, S) \<Rightarrow> map_option (\<lambda>r. (r, S)) (pool_result ths))"

section \<open>The gated executor\<close>

text \<open>\<open>EngineeringExecutor\<close> behind the protocol: its journal writes are read off the trace. The run record, the archived attempts
  and the clock are parameters; a landing reads its worktree from the journal.\<close>

record engine_journal =
  ej_now :: string
  ej_record :: "nat \<Rightarrow> string \<Rightarrow> bool \<Rightarrow> json"
  ej_archived :: "json list"

fun journal_of :: "engine_journal \<Rightarrow> event \<Rightarrow> journal_op list" where
  "journal_of J (Claimed ref) = [Patch_item (ej_now J) [(''state'', JStr ''claimed''), (''claimed_at'', JStr (ej_now J))]]"
| "journal_of J (Worktree wt) = [Patch_item (ej_now J) [(''worktree'', JStr wt)]]"
| "journal_of J (Verdict_recorded ref rnd oc passed) = [Add_record (ej_now J) (ej_record J rnd oc passed)]"
| "journal_of J (Attempts_cleared ref) = [Patch_item (ej_now J) [(''cleared_attempts'', JArr (ej_archived J))]]"
| "journal_of J _ = []"

definition new_writes :: "engine_journal \<Rightarrow> executor \<Rightarrow> executor \<Rightarrow> journal_op list" where
  "new_writes J e e' = concat (map (journal_of J) (drop (length (ex_trace e)) (ex_trace e')))"

definition escalate :: "(string \<Rightarrow> string) \<Rightarrow> routed \<Rightarrow> string \<Rightarrow> DecisionItem" where
  "escalate sha item reason = \<lparr>di_qid = take 12 (sha (''engineering:'' @ wi_ref item @ '':'' @ reason)),
     di_prompt = ''Engineering task '' @ wi_ref item @ '' did not converge: '' @ reason,
     di_options = [(''take'', ''take''), (''defer'', ''defer'')], di_action_ref = Some (wi_ref item), di_priority = ''high''\<rparr>"

definition engineering_obj :: "engine_world \<Rightarrow> engine_config \<Rightarrow> engine_journal \<Rightarrow> (string \<Rightarrow> string) \<Rightarrow> executor executor_obj" where
  "engineering_obj W cfg J sha = \<lparr>
     xo_selectable = (\<lambda>item. selectable (wi_tags item) (truthy (field (wi_payload item) ''unblocked''))
        (case field (wi_payload item) ''verdict'' of JStr v \<Rightarrow> v | _ \<Rightarrow> [])
        (truthy (field (wi_payload item) ''acceptance'') \<or> truthy (field (wi_payload item) ''deliverable'')) (ec_repo_map cfg)),
     xo_run = (\<lambda>item e. case run W cfg (WorkItem.truncate item) e of (r, e') \<Rightarrow> (new_writes J e e', r, e')),
     xo_finalize = (\<lambda>item g wt e. case wt of Inl x \<Rightarrow> ([], Inl x, e)
        | Inr v \<Rightarrow> (case finalize (W\<lparr>en_worktree_for := (\<lambda>_. case v of JStr p \<Rightarrow> Some p | _ \<Rightarrow> None)\<rparr>) cfg (WorkItem.truncate item) g e of
            (r, e') \<Rightarrow> (new_writes J e e', r, e'))),
     xo_escalate = escalate sha\<rparr>"

end
