(* ===== verification/BuildRuns.thy ===== *)
theory BuildRuns
  imports BuildSwarm GatedRuns
begin

text \<open>
  What the build phase of \<open>BuildSwarm\<close> guarantees under every schedule: triage accounts for every candidate, an item leaves
  one outcome row that agrees with its journal entry, the budget is overrun by at most the builds in flight, and
  items in sequence are one of the schedules. What it does not: the journal entries of the executors.
\<close>

section \<open>Triage\<close>

definition known_repo :: "string list \<Rightarrow> routed \<Rightarrow> bool" where
  "known_repo repo_map item \<longleftrightarrow> wi_kind item \<noteq> ''engineering'' \<or> (\<exists>r. wi_repo item = Some r \<and> r \<in> set repo_map)"

lemma triage_Selected: "triage_one sha rm execs item = Selected ex \<longleftrightarrow>
    \<not> is_untriaged item \<and> map_of execs (wi_kind item) = Some ex \<and> xo_selectable ex item \<and> known_repo rm item"
  by (auto simp: triage_one_def known_repo_def split: option.splits if_splits)

lemma triage_Dropped: "triage_one sha rm execs item = Dropped \<longleftrightarrow> is_untriaged item"
  by (auto simp: triage_one_def split: option.splits if_splits)


section \<open>One row for every item\<close>

definition rows_of :: "string \<Rightarrow> 'e swarm \<Rightarrow> outcome_row list" where
  "rows_of ref S = filter (\<lambda>r. or_card r = ref) (sw_rows S)"

definition NO_BUILD :: "string list" where
  "NO_BUILD = [''kill-switch'', ''budget-hit'']"

definition entry_says :: "payload \<Rightarrow> string \<Rightarrow> bool" where
  "entry_says e ts \<longleftrightarrow> ts \<in> set TERMINAL_STATES \<and> map_of e ''state'' = Some (JStr ts)"

definition journalled :: "string \<Rightarrow> string \<Rightarrow> 'e swarm \<Rightarrow> bool" where
  "journalled ref ts S \<longleftrightarrow> ts \<in> set NO_BUILD \<or> (\<exists>e. map_of (sw_items S) ref = Some (JObj e) \<and> entry_says e ts)"

definition thread_ok :: "string \<Rightarrow> thread \<Rightarrow> 'e swarm \<Rightarrow> bool" where
  "thread_ok ref t S \<longleftrightarrow> (case t of
       Over \<Rightarrow> (\<exists>r. rows_of ref S = [r] \<and> journalled ref (or_terminal r) S)
     | Recording ts _ _ \<Rightarrow> rows_of ref S = [] \<and> journalled ref ts S
     | Closing e _ _ \<Rightarrow> rows_of ref S = [] \<and> (\<exists>ts. entry_says e ts)
     | _ \<Rightarrow> rows_of ref S = [])"

lemma entry_says_entry: "st \<in> set TERMINAL_STATES \<Longrightarrow> entry_says (entry st n sc) st"
  by (simp add: entry_says_def entry_def)

lemma entry_says_built: "entry_says (entry ''finalized'' n sc) ''finalized''" "entry_says (entry ''finalize-failed'' n sc) ''finalize-failed''"
  "entry_says (entry ''escalated'' n sc) ''escalated''" "entry_says [(''state'', JStr ''claim-raced''), (''detail'', JStr d)] ''claim-raced''"
  by (rule entry_says_entry, code_simp)+ (simp add: entry_says_def, code_simp)

lemma journalled_no_build: "journalled ref ''kill-switch'' S" "journalled ref ''budget-hit'' S"
  by (simp_all add: journalled_def NO_BUILD_def)

lemma put_entry_simps [simp]: "sw_rows (put_entry V ref e S) = sw_rows S" "sw_ledger (put_entry V ref e S) = sw_ledger S"
  "sw_items (put_entry V ref e S) = dput ref (JObj e) (sw_items S)"
  by (simp_all add: put_entry_def Let_def)

lemma entry_says_state: "entry_says e ts \<Longrightarrow> (case map_of e ''state'' of Some (JStr st) \<Rightarrow> st | _ \<Rightarrow> []) = ts"
  by (simp add: entry_says_def)

lemma thread_ok_raising:
  assumes "rows_of ref S = []" and "\<And>n. thread_ok ref (k n) S"
  shows "thread_ok ref (raising k r) S"
  using assms by (cases r) (simp_all add: raising_def thread_ok_def)

lemma tick_others:
  assumes "tick V ex item killed t S = (t', S')" and "ref \<noteq> wi_ref item"
  shows "rows_of ref S' = rows_of ref S \<and> map_of (sw_items S') ref = map_of (sw_items S) ref"
  using assms
proof (induction V ex item killed t S rule: tick.induct)
  case (1 V ex item killed S)
  then show ?case by (auto simp: rows_of_def split: if_splits prod.splits)
qed (auto simp: rows_of_def map_of_dput outcome_row_of_def Let_def split: sum.splits prod.splits if_splits option.splits)

lemma tick_own:
  assumes "tick V ex item killed t S = (t', S')" and "thread_ok (wi_ref item) t S"
  shows "thread_ok (wi_ref item) t' S'"
  using assms
proof (induction V ex item killed t S rule: tick.induct)
  case (1 V ex item killed S)
  then have e: "rows_of (wi_ref item) S = []" by (simp add: thread_ok_def)
  let ?b = "if sw_budget_hit S then S else S\<lparr>sw_budget_hit := True, sw_decisions := sw_decisions S @ [budget_decision V]\<rparr>"
  have b: "rows_of (wi_ref item) ?b = []" using e by (simp add: rows_of_def)
  have "thread_ok (wi_ref item) (raising (Recording ''kill-switch'' None) r) S" for r
    by (rule thread_ok_raising [OF e]) (simp add: thread_ok_def e journalled_no_build)
  moreover have "thread_ok (wi_ref item) (raising (Recording ''budget-hit'' None) r) ?b" for r
    by (rule thread_ok_raising [OF b]) (simp only: thread_ok_def thread.case b journalled_no_build simp_thms)
  moreover obtain ops r e' where "xo_run ex item (sw_exec S) = (ops, r, e')" by (cases "xo_run ex item (sw_exec S)")
  moreover have "thread_ok (wi_ref item) (Building ops r) (S\<lparr>sw_exec := e'\<rparr>)" for ops r e'
    using e by (simp add: thread_ok_def rows_of_def)
  ultimately show ?case using 1(1) by (simp only: tick.simps prod.case split: if_splits) auto
next
  case (3 V ex item killed e S)
  have "thread_ok (wi_ref item) (Recording ''claim-raced'' None n) (put_entry V (wi_ref item) [(''state'', JStr ''claim-raced''), (''detail'', JStr d)] S)" for n d
    using 3(2) entry_says_built(4) by (auto simp: thread_ok_def rows_of_def journalled_def map_of_dput)
  then show ?case using 3 by (auto simp: thread_ok_def split: sum.splits option.splits)
next
  case (4 V ex item killed g S)
  have "\<exists>ts. entry_says (entry ''escalated'' n sc) ts" for n sc using entry_says_built(3) by blast
  then show ?case using 4 by (auto simp: thread_ok_def rows_of_def Let_def split: sum.splits if_splits)
next
  case (7 V ex item killed r g n S)
  have "\<exists>ts. entry_says (entry ''finalized'' n sc) ts" "\<exists>ts. entry_says (entry ''finalize-failed'' n sc) ts" for sc
    using entry_says_built(1,2) by blast+
  then show ?case using 7 by (auto simp: thread_ok_def rows_of_def split: sum.splits)
next
  case (8 V ex item killed en g n S)
  then obtain ts where ts: "entry_says en ts" by (auto simp: thread_ok_def)
  then have "journalled (wi_ref item) ts (put_entry V (wi_ref item) en S)" by (auto simp: journalled_def map_of_dput)
  then show ?case using 8 entry_says_state [OF ts] by (auto simp: thread_ok_def rows_of_def)
next
  case (9 V ex item killed ts res n S)
  then show ?case by (auto simp: thread_ok_def rows_of_def journalled_def outcome_row_of_def)
qed (auto simp: thread_ok_def rows_of_def split: sum.splits prod.splits)

definition all_ok :: "(routed \<times> 'e executor_obj) list \<Rightarrow> thread list \<times> 'e swarm \<Rightarrow> bool" where
  "all_ok sel = (\<lambda>(ths, S). length ths = length sel \<and> (\<forall>i < length sel. thread_ok (wi_ref (fst (sel ! i))) (ths ! i) S))"

lemma thread_ok_cong:
  "rows_of ref S' = rows_of ref S \<Longrightarrow> map_of (sw_items S') ref = map_of (sw_items S) ref \<Longrightarrow> thread_ok ref t S' = thread_ok ref t S"
  by (simp add: thread_ok_def journalled_def split: thread.split)

definition can_move :: "swarm_env \<Rightarrow> (routed \<times> 'e executor_obj) list \<Rightarrow> nat \<Rightarrow> thread list \<Rightarrow> bool" where
  "can_move V sel i ths \<longleftrightarrow> i < length ths \<and> i < length sel \<and> (ths ! i = Ready \<longrightarrow> may_start (sv_workers V) ths i)"

lemma advance_tick: "can_move V sel i ths \<Longrightarrow> tick V (snd (sel ! i)) (fst (sel ! i)) killed (ths ! i) S = (t, S')
    \<Longrightarrow> advance V sel (i, killed) (ths, S) = (ths[i := t], S')"
  by (simp add: advance_def can_move_def del: tick.simps)

lemma advance_idle: "\<not> can_move V sel i ths \<Longrightarrow> advance V sel (i, killed) (ths, S) = (ths, S)"
  by (auto simp: advance_def can_move_def simp del: tick.simps)

lemma advance_all_ok:
  assumes "distinct (map (wi_ref \<circ> fst) sel)" and "all_ok sel C"
  shows "all_ok sel (advance V sel x C)"
proof -
  obtain i killed ths S where x: "x = (i, killed)" "C = (ths, S)" by (cases x, cases C)
  have ok: "length ths = length sel" "\<And>j. j < length sel \<Longrightarrow> thread_ok (wi_ref (fst (sel ! j))) (ths ! j) S"
    using assms(2) by (auto simp: all_ok_def x)
  show ?thesis
  proof (cases "can_move V sel i ths")
    case False
    then show ?thesis using assms(2) by (simp add: x advance_idle)
  next
    case True
    then have il: "i < length ths" "i < length sel" by (simp_all add: can_move_def)
    obtain t S' where t: "tick V (snd (sel ! i)) (fst (sel ! i)) killed (ths ! i) S = (t, S')" by fastforce
    have "thread_ok (wi_ref (fst (sel ! j))) (ths[i := t] ! j) S'" if j: "j < length sel" for j
    proof (cases "j = i")
      case True
      then show ?thesis using tick_own [OF t] ok j by simp
    next
      case False
      then have "wi_ref (fst (sel ! j)) \<noteq> wi_ref (fst (sel ! i))"
        using assms(1) j il by (auto simp: distinct_conv_nth)
      from tick_others [OF t this] show ?thesis using ok(2) [OF j] False thread_ok_cong by fastforce
    qed
    then show ?thesis using ok(1) by (simp only: x advance_tick [OF True t]) (simp add: all_ok_def)
  qed
qed

lemma pool_all_ok:
  assumes "distinct (map (wi_ref \<circ> fst) sel)" and "sw_rows S = []"
  shows "all_ok sel (pool V sel sched S)"
proof -
  have "all_ok sel C \<Longrightarrow> all_ok sel (fold (advance V sel) sched C)" for C
    by (induction sched arbitrary: C) (simp_all add: advance_all_ok [OF assms(1)])
  then show ?thesis using assms(2) by (simp add: pool_def all_ok_def thread_ok_def rows_of_def)
qed


definition demo_routed :: "string \<Rightarrow> routed" where
  "demo_routed ref = \<lparr>wi_ref = ref, wi_tags = [''repo:r''], wi_payload = [], wi_kind = ''engineering'', wi_source = ''coord'', wi_repo = Some ''r''\<rparr>"

definition demo_caps :: Caps where
  "demo_caps = \<lparr>max_concurrent = 3, concurrency = ''2'', new_tasks_per_run = 10, max_tokens_per_run = 10, max_usd_per_day = 25,
     max_subtasks_per_card = 8, max_decompose_children_per_run = 24, max_decompose_depth = 2, concreteness_floor = 34 / 100\<rparr>"

definition demo_env :: "int \<Rightarrow> swarm_env" where
  "demo_env workers = \<lparr>sv_run_id = ''run'', sv_caps = demo_caps, sv_workers = workers, sv_sha = id, sv_adapter = None, sv_model = None, sv_show = (\<lambda>_. [])\<rparr>"

definition demo_engine :: "executor executor_obj" where
  "demo_engine = engineering_obj (demo_world (0, ''a.py'')) demo_config
     \<lparr>ej_now = ''t'', ej_record = (\<lambda>rnd oc _. JStr oc), ej_archived = []\<rparr> id"

definition demo_swarm :: "executor swarm" where
  "demo_swarm = \<lparr>sw_items = [], sw_disk = [], sw_ledger = \<lparr>cl_tokens = 0, cl_usd = 0\<rparr>, sw_budget_hit = False, sw_decisions = [],
     sw_rows = [], sw_exec = idle\<rparr>"

definition demo_items :: "(routed \<times> executor executor_obj) list" where
  "demo_items = [(demo_routed ''a'', demo_engine), (demo_routed ''b'', demo_engine)]"


section \<open>The budget\<close>

fun building :: "thread \<Rightarrow> bool" where
  "building (Building _ _) = True"
| "building _ = False"

text \<open>The tokens of a build whose result is known but not yet in the ledger.\<close>

fun pending_ok :: "int \<Rightarrow> thread \<Rightarrow> bool" where
  "pending_ok M (Building _ (Inr g)) = (gr_tokens g \<le> M)"
| "pending_ok M _ = True"

definition count :: "('a \<Rightarrow> bool) \<Rightarrow> 'a list \<Rightarrow> int" where
  "count P xs = int (length (filter P xs))"

lemma count_Cons [simp]: "count P (x # xs) = (if P x then 1 else 0) + count P xs"
  by (simp add: count_def)

lemma count_update: "i < length xs \<Longrightarrow> count P (xs[i := y]) = count P xs - (if P (xs ! i) then 1 else 0) + (if P y then 1 else 0)"
  by (induction xs arbitrary: i) (auto split: nat.splits)

definition in_budget :: "swarm_env \<Rightarrow> int \<Rightarrow> thread list \<times> 'e swarm \<Rightarrow> bool" where
  "in_budget V M = (\<lambda>(ths, S). count busy ths \<le> sv_workers V \<and> list_all (pending_ok M) ths
     \<and> cl_tokens (sw_ledger S) + M * count building ths \<le> max_tokens_per_run (sv_caps V) + sv_workers V * M)"

lemma tick_ledger:
  assumes "tick V ex item killed t S = (t', S')" and "t \<noteq> Ready" and "pending_ok M t" and "0 \<le> M"
  shows "pending_ok M t' \<and> t' \<noteq> Ready \<and> (busy t' \<longrightarrow> busy t)
    \<and> cl_tokens (sw_ledger S') + M * (if building t' then 1 else 0) \<le> cl_tokens (sw_ledger S) + M * (if building t then 1 else 0)"
  using assms
proof (induction V ex item killed t S rule: tick.induct)
  case (1 V ex item killed S)
  then show ?case by simp
next
  case (2 V ex item killed op ops r S)
  then show ?case by (cases r) (auto split: sum.splits)
next
  case (4 V ex item killed g S)
  then show ?case by (auto simp: Let_def ledger_add_def split: sum.splits if_splits)
qed (auto split: sum.splits prod.splits option.splits)

lemma tick_start:
  assumes "tick V ex item killed Ready S = (t, S')" and "\<And>ops g e. xo_run ex item (sw_exec S) = (ops, Inr g, e) \<Longrightarrow> gr_tokens g \<le> M"
  shows "pending_ok M t \<and> sw_ledger S' = sw_ledger S \<and> (building t \<longrightarrow> cl_tokens (sw_ledger S) \<le> max_tokens_per_run (sv_caps V))"
proof -
  have p: "pending_ok M (raising (Recording ts None) r) \<and> \<not> building (raising (Recording ts None) r)" for ts r
    by (cases r) (simp_all add: raising_def)
  obtain ops r e where x: "xo_run ex item (sw_exec S) = (ops, r, e)" by (cases "xo_run ex item (sw_exec S)")
  have "pending_ok M (Building ops r)" using assms(2) x by (cases r) auto
  then show ?thesis using assms(1) p x by (auto simp: exceeded_def split: if_splits)
qed

lemma advance_in_budget:
  assumes "\<And>item ex e ops g e'. (item, ex) \<in> set sel \<Longrightarrow> xo_run ex item e = (ops, Inr g, e') \<Longrightarrow> gr_tokens g \<le> M" and "0 \<le> M"
    and "in_budget V M C"
  shows "in_budget V M (advance V sel x C)"
proof -
  obtain i killed ths S where x: "x = (i, killed)" "C = (ths, S)" by (cases x, cases C)
  show ?thesis
  proof (cases "can_move V sel i ths")
    case False
    then show ?thesis using assms(3) by (simp add: x advance_idle)
  next
    case True
    then have il: "i < length ths" "i < length sel" by (simp_all add: can_move_def)
    have b: "count busy ths \<le> sv_workers V" "list_all (pending_ok M) ths"
      "cl_tokens (sw_ledger S) + M * count building ths \<le> max_tokens_per_run (sv_caps V) + sv_workers V * M"
      using assms(3) by (simp_all add: in_budget_def x)
    obtain t S' where t: "tick V (snd (sel ! i)) (fst (sel ! i)) killed (ths ! i) S = (t, S')" by fastforce
    have upd: "list_all (pending_ok M) (ths[i := t])" if "pending_ok M t"
      using b(2) that set_update_subset_insert [of ths i t] by (auto simp: list_all_iff)
    show ?thesis
    proof (cases "ths ! i = Ready")
      case True
      have "(fst (sel ! i), snd (sel ! i)) \<in> set sel" using il by simp
      with tick_start [OF t [unfolded True], of M] assms(1)
      have s: "pending_ok M t" "sw_ledger S' = sw_ledger S" "building t \<longrightarrow> cl_tokens (sw_ledger S) \<le> max_tokens_per_run (sv_caps V)" by blast+
      have w: "count busy ths + 1 \<le> sv_workers V" using \<open>can_move V sel i ths\<close> True by (simp add: can_move_def may_start_def count_def)
      have "count building ths \<le> count busy ths"
      proof -
        have "building u \<Longrightarrow> busy u" for u by (cases u) auto
        then show ?thesis unfolding count_def by (induction ths) auto
      qed
      then have "building t \<Longrightarrow> M * (count building ths + 1) \<le> M * sv_workers V" using w assms(2) by (intro mult_left_mono) auto
      then show ?thesis using s b(1,3) w upd il True
        by (auto simp: x advance_tick [OF \<open>can_move V sel i ths\<close> t] in_budget_def count_update algebra_simps)
    next
      case False
      have "pending_ok M (ths ! i)" using b(2) il by (simp add: list_all_length)
      from tick_ledger [OF t False this assms(2)] show ?thesis using b upd il
        by (auto simp: x advance_tick [OF \<open>can_move V sel i ths\<close> t] in_budget_def count_update algebra_simps split: if_splits)
    qed
  qed
qed

text \<open>C15. The token budget is overrun by at most one build per worker: under every schedule the ledger stays within the ceiling of the run plus
  what the builds in flight may cost, and never more builds are busy than the pool has workers.\<close>

theorem overspend_is_bounded:
  assumes "\<And>item ex e ops g e'. (item, ex) \<in> set sel \<Longrightarrow> xo_run ex item e = (ops, Inr g, e') \<Longrightarrow> gr_tokens g \<le> M" and "0 \<le> M"
    and "0 \<le> sv_workers V" and "cl_tokens (sw_ledger S) \<le> max_tokens_per_run (sv_caps V)" and "pool V sel sched S = (ths, S')"
  shows "cl_tokens (sw_ledger S') \<le> max_tokens_per_run (sv_caps V) + sv_workers V * M
     \<and> int (length (filter busy ths)) \<le> sv_workers V"
proof -
  have "in_budget V M C \<Longrightarrow> in_budget V M (fold (advance V sel) sched C)" for C
    by (induction sched arbitrary: C) (simp_all add: advance_in_budget [OF assms(1,2)])
  moreover have "in_budget V M (replicate (length sel) Ready, S)"
    using assms(3) add_mono [OF assms(4) mult_nonneg_nonneg [OF assms(3,2)]]
    by (simp add: in_budget_def count_def list_all_iff del: zero_le_mult_iff)
  ultimately have "in_budget V M (ths, S')" using assms(5) by (metis pool_def)
  moreover have "0 \<le> M * count building ths" using assms(2) by (simp add: count_def)
  ultimately show ?thesis by (simp add: in_budget_def count_def)
qed

text \<open>An executor whose builds all pass and cost 14 tokens.\<close>

definition demo_builder :: "unit executor_obj" where
  "demo_builder = \<lparr>xo_selectable = (\<lambda>_. True), xo_run = (\<lambda>_ e. ([], Inr (terminal_result (Some 5) True [] None ''pass''
       (no_build_usage\<lparr>output_tokens := 14\<rparr>) None), e)),
     xo_finalize = (\<lambda>_ _ _ e. ([], Inr (), e)), xo_escalate = escalate id\<rparr>"

definition demo_builds :: "nat \<Rightarrow> (routed \<times> unit executor_obj) list" where
  "demo_builds n = map (\<lambda>i. (demo_routed (nat_digits i), demo_builder)) [0..<n]"

definition demo_start :: "unit swarm" where
  "demo_start = \<lparr>sw_items = [], sw_disk = [], sw_ledger = \<lparr>cl_tokens = 0, cl_usd = 0\<rparr>, sw_budget_hit = False, sw_decisions = [],
     sw_rows = [], sw_exec = ()\<rparr>"

lemma overspend_is_bounded_witness:
  "\<exists>ths S. pool (demo_env 2) (demo_builds 3) [(0, False), (1, False), (2, False), (0, False), (1, False), (2, False)] demo_start = (ths, S)
     \<and> cl_tokens (sw_ledger S) = 28 \<and> 28 \<le> max_tokens_per_run demo_caps + 2 * 14"
proof -
  let ?sched = "[(0, False), (1, False), (2, False), (0, False), (1, False), (2, False)]"
  obtain ths S where p: "pool (demo_env 2) (demo_builds 3) ?sched demo_start = (ths, S)" by fastforce
  have "cl_tokens (sw_ledger (snd (pool (demo_env 2) (demo_builds 3) ?sched demo_start))) = 28" by code_simp
  then have t: "cl_tokens (sw_ledger S) = 28" by (simp only: p snd_conv)
  have c: "(item, ex) \<in> set (demo_builds 3) \<Longrightarrow> xo_run ex item e = (ops, Inr g, e') \<Longrightarrow> gr_tokens g \<le> 14" for item ex e ops g e'
    by (auto simp: demo_builds_def demo_builder_def terminal_result_def bu_tokens_def no_build_usage_def)
  have "(0 :: int) \<le> 14" "0 \<le> sv_workers (demo_env 2)" "cl_tokens (sw_ledger demo_start) \<le> max_tokens_per_run (sv_caps (demo_env 2))"
    "sv_workers (demo_env 2) = 2" "sv_caps (demo_env 2) = demo_caps"
    by (simp_all add: demo_env_def demo_start_def demo_caps_def)
  with overspend_is_bounded [OF c this(1-3) p] t p show ?thesis by auto
qed

section \<open>Sequence and pool\<close>

lemma tick_started: "tick V ex item killed t S = (t', S') \<Longrightarrow> t' \<noteq> Ready"
proof (induction V ex item killed t S rule: tick.induct)
  case (1 V ex item killed S)
  have "raising (Recording ts None) r \<noteq> Ready" for ts r by (cases r) (simp_all add: raising_def)
  then show ?case using 1 by (auto split: if_splits prod.splits)
qed (auto simp: Let_def split: sum.splits prod.splits option.splits if_splits)

lemma drive_scheduled:
  assumes "i < length ths" and "i < length sel" and "ths ! i = t" and "t = Ready \<Longrightarrow> may_start (sv_workers V) ths i"
  shows "\<exists>sched. fold (advance V sel) sched (ths, S) = (ths[i := fst (drive V (snd (sel ! i)) (fst (sel ! i)) killed t S)],
     snd (drive V (snd (sel ! i)) (fst (sel ! i)) killed t S))"
  using assms
proof (induction V "snd (sel ! i)" "fst (sel ! i)" killed t S arbitrary: ths rule: drive.induct)
  case (1 V killed t S)
  show ?case
  proof (cases "settled t")
    case True
    then have "fold (advance V sel) [] (ths, S) = (ths[i := fst (drive V (snd (sel ! i)) (fst (sel ! i)) killed t S)],
      snd (drive V (snd (sel ! i)) (fst (sel ! i)) killed t S))"
      using 1(4) list_update_id [of ths i] by (simp add: drive.simps [of V "snd (sel ! i)" "fst (sel ! i)" killed t S])
    then show ?thesis by blast
  next
    case False
    obtain u S1 where u: "tick V (snd (sel ! i)) (fst (sel ! i)) killed t S = (u, S1)" by fastforce
    have "can_move V sel i ths" using 1(2-5) by (auto simp: can_move_def)
    from advance_tick [OF this] have a: "advance V sel (i, killed) (ths, S) = (ths[i := u], S1)" using u 1(4) by blast
    have "u = Ready \<Longrightarrow> may_start (sv_workers V) (ths[i := u]) i" using tick_started [OF u] by blast
    from 1(1) [OF False u [symmetric] _ 1(3) _ this] 1(2)
    obtain sched where "fold (advance V sel) sched (ths[i := u], S1) = (ths[i := u, i := fst (drive V (snd (sel ! i)) (fst (sel ! i)) killed u S1)],
        snd (drive V (snd (sel ! i)) (fst (sel ! i)) killed u S1))" by auto
    then have "fold (advance V sel) ((i, killed) # sched) (ths, S) = (ths[i := fst (drive V (snd (sel ! i)) (fst (sel ! i)) killed t S)],
        snd (drive V (snd (sel ! i)) (fst (sel ! i)) killed t S))"
      using False a u by (simp add: drive.simps [of V "snd (sel ! i)" "fst (sel ! i)" killed t S])
    then show ?thesis by blast
  qed
qed

lemma drive_settles: "settled (fst (drive V ex item killed t S))"
proof (induction V ex item killed t S rule: drive.induct)
  case (1 V ex item killed t S)
  then show ?case by (cases "settled t") (auto simp: drive.simps [of V ex item killed t S] split: prod.split)
qed

lemma in_turn_scheduled:
  assumes "1 \<le> sv_workers V" and "sel = pre @ rest"
  shows "build_in_turn V rest killed S = (r, S') \<Longrightarrow> \<exists>sched ths. fold (advance V sel) sched (replicate (length pre) Over @ replicate (length rest) Ready, S) = (ths, S')
     \<and> (case r of Inr _ \<Rightarrow> ths = replicate (length sel) Over | Inl e \<Rightarrow> Crashed e \<in> set ths)"
  using assms(2)
proof (induction rest arbitrary: pre S killed)
  case Nil
  then have "r = Inr ()" "S' = S" "sel = pre" by simp_all
  then show ?case by (intro exI [of _ "[]"] exI [of _ "replicate (length sel) Over"]) simp
next
  case (Cons x rest)
  obtain item ex where x: "x = (item, ex)" by (cases x)
  define i where "i = length pre"
  define ths where "ths = replicate i Over @ replicate (length (x # rest)) Ready"
  define d where "d = drive V ex item (killed 0) Ready S"
  have il: "i < length ths" "i < length sel" using Cons.prems(2) by (simp_all add: ths_def i_def)
  have sel: "sel ! i = (item, ex)" using Cons.prems(2) x by (simp add: i_def)
  have upd: "ths[i := t] = replicate i Over @ t # replicate (length rest) Ready" for t by (simp add: ths_def list_update_append)
  have nth: "ths ! i = Ready" by (simp add: ths_def nth_append)
  have s: "may_start (sv_workers V) ths i" using assms(1) by (simp add: may_start_def ths_def list_all_iff)
  obtain s1 where s1: "fold (advance V sel) s1 (ths, S) = (ths[i := fst d], snd d)"
    using drive_scheduled [OF il nth s, where killed = "killed 0" and S = S] unfolding sel fst_conv snd_conv d_def by blast
  have b: "(case d of (Crashed e, S) \<Rightarrow> (Inl e, S) | (_, S) \<Rightarrow> build_in_turn V rest (\<lambda>n. killed (n + 1)) S) = (r, S')"
    using Cons.prems(1) unfolding x d_def by simp
  have "settled (fst d)" unfolding d_def by (rule drive_settles)
  then consider c where "fst d = Crashed c" | "fst d = Over" by (cases "fst d") auto
  then have "\<exists>sched us. fold (advance V sel) sched (ths, S) = (us, S') \<and> (case r of Inr _ \<Rightarrow> us = replicate (length sel) Over | Inl e \<Rightarrow> Crashed e \<in> set us)"
  proof cases
    case 1
    then have "r = Inl c \<and> snd d = S'" using b by (cases d) simp
    then show ?thesis using s1 unfolding 1 upd by (intro exI [of _ s1] exI [of _ "replicate i Over @ Crashed c # replicate (length rest) Ready"]) simp
  next
    case 2
    then have n: "build_in_turn V rest (\<lambda>n. killed (n + 1)) (snd d) = (r, S')" using b by (cases d) simp
    have "sel = (pre @ [x]) @ rest" using Cons.prems(2) by simp
    from Cons.IH [OF n this] obtain s2 us where s2: "fold (advance V sel) s2
        (replicate (length (pre @ [x])) Over @ replicate (length rest) Ready, snd d) = (us, S')"
      and us: "case r of Inr _ \<Rightarrow> us = replicate (length sel) Over | Inl e \<Rightarrow> Crashed e \<in> set us" by blast
    have "replicate (length (pre @ [x])) Over @ replicate (length rest) Ready = ths[i := fst d]"
      by (simp only: 2 upd) (simp add: i_def replicate_app_Cons_same)
    with s1 s2 have "fold (advance V sel) (s1 @ s2) (ths, S) = (us, S')" by simp
    then show ?thesis using us by blast
  qed
  then show ?case unfolding ths_def i_def .
qed

text \<open>C17. Building the items in sequence is one of the schedules of the pool: its effect, and its result, are those of the schedule, so what
  holds under every schedule holds there too.\<close>

theorem sequence_is_a_schedule:
  assumes "build_in_turn V sel killed S = (r, S')" and "1 \<le> sv_workers V"
  shows "\<exists>sched ths. pool V sel sched S = (ths, S') \<and> (case r of Inr _ \<Rightarrow> pool_result ths = Some (Inr ()) | Inl e \<Rightarrow> Crashed e \<in> set ths)"
proof -
  obtain sched ths where p: "fold (advance V sel) sched (replicate (length sel) Ready, S) = (ths, S')"
    and r: "case r of Inr _ \<Rightarrow> ths = replicate (length sel) Over | Inl e \<Rightarrow> Crashed e \<in> set ths"
    using in_turn_scheduled [OF assms(2), of sel "[]" sel killed S r S'] assms(1) by auto
  have "pool_result (replicate n Over) = Some (Inr ())" for n by (simp add: pool_result_def list_all_iff)
  with r have "case r of Inr _ \<Rightarrow> pool_result ths = Some (Inr ()) | Inl e \<Rightarrow> Crashed e \<in> set ths" by (auto split: sum.splits)
  then show ?thesis using p unfolding pool_def by blast
qed

lemma sequence_is_a_schedule_witness:
  "\<exists>S sched ths. build_in_turn (demo_env 1) (demo_builds 2) (\<lambda>_. False) demo_start = (Inr (), S)
     \<and> map or_terminal (sw_rows S) = [''finalized'', ''budget-hit''] \<and> pool (demo_env 1) (demo_builds 2) sched demo_start = (ths, S)"
proof -
  obtain r S where b: "build_in_turn (demo_env 1) (demo_builds 2) (\<lambda>_. False) demo_start = (r, S)" by fastforce
  have "case build_in_turn (demo_env 1) (demo_builds 2) (\<lambda>_. False) demo_start of (r, S) \<Rightarrow> r = Inr () \<and> map or_terminal (sw_rows S) = [''finalized'', ''budget-hit'']"
    by code_simp
  then have r: "r = Inr ()" "map or_terminal (sw_rows S) = [''finalized'', ''budget-hit'']" unfolding b prod.case by blast+
  have "1 \<le> sv_workers (demo_env 1)" by (simp add: demo_env_def)
  from sequence_is_a_schedule [OF b this] obtain sched ths where "pool (demo_env 1) (demo_builds 2) sched demo_start = (ths, S)" by blast
  with b r show ?thesis by (intro exI conjI) simp_all
qed

section \<open>What the journal loses\<close>


text \<open>A deviation: the run record of a card, which the journal is the home of, is erased by the entry that the orchestrator writes for the card
  after its build; the verdict of the last round was recorded and is gone.\<close>

theorem run_records_are_erased:
  "(case xo_run demo_engine (demo_routed ''a'') idle of (ops, r, e) \<Rightarrow> Add_record ''t'' (JStr ''pass'') \<in> set ops)
   \<and> (case build_in_turn (demo_env 1) [(demo_routed ''a'', demo_engine)] (\<lambda>_. False) demo_swarm of (r, S) \<Rightarrow>
      r = Inr () \<and> keys (entry_of ''run'' ''a'' (sw_disk S)) = [''state'', ''round'', ''score''])"
  by (intro conjI) code_simp+

end
