(* ===== verification/Activity.thy ===== *)
theory Activity
  imports Store
begin

text \<open>
  The activity journal of the session plane (\<open>src/skharness/activity.py\<close>): an append-only file of sealed observations per
  node, a file with the head cursor, replay from a cursor, and the merged view over all nodes.

  A file is its bytes, so torn writes, the search for the last line feed and the trim are the code's. The JSON codec, the
  digest of a row, the two regular expressions for secrets and the ellipsis (a code point above 255) are parameters;
  an operation runs under the lock of its node. The exception \<open>ActivityCorruptionError\<close> is a \<open>RuntimeError\<close>.
\<close>

section \<open>Events\<close>

definition NL :: char where "NL = CHR 0x0A"

definition CR :: char where "CR = CHR 0x0D"

definition MAX_SUMMARY_CHARS :: nat where "MAX_SUMMARY_CHARS = 4096"

definition MAX_REPLAY_LIMIT :: int where "MAX_REPLAY_LIMIT = 500"

definition safe_id :: "string \<Rightarrow> bool" where
  "safe_id s \<longleftrightarrow> s \<noteq> [] \<and> length s \<le> 200 \<and> list_all (\<lambda>c. safe_char c \<or> c \<in> set '':@+'') s"

definition is_commit :: "string \<Rightarrow> bool" where
  "is_commit s \<longleftrightarrow> length s = 40 \<and> list_all hex_char s"

datatype ActivityKind = STATUS | PHASE | ASSISTANT_TEXT | TOOL_CALL | TOOL_RESULT | FILE_CHANGE | TEST | BUDGET | DISPOSITION | ERROR

fun kind_value :: "ActivityKind \<Rightarrow> string" where
  "kind_value STATUS = ''status''"
| "kind_value PHASE = ''phase''"
| "kind_value ASSISTANT_TEXT = ''assistant_text''"
| "kind_value TOOL_CALL = ''tool_call''"
| "kind_value TOOL_RESULT = ''tool_result''"
| "kind_value FILE_CHANGE = ''file_change''"
| "kind_value TEST = ''test''"
| "kind_value BUDGET = ''budget''"
| "kind_value DISPOSITION = ''disposition''"
| "kind_value ERROR = ''error''"

definition KINDS :: "ActivityKind list" where
  "KINDS = [STATUS, PHASE, ASSISTANT_TEXT, TOOL_CALL, TOOL_RESULT, FILE_CHANGE, TEST, BUDGET, DISPOSITION, ERROR]"

record ActivityContext =
  ac_session_id :: string
  ac_run_id :: string
  ac_agent_id :: string
  ac_job_id :: string
  ac_role :: string
  ac_phase :: string
  ac_source :: string
  ac_card_id :: string
  ac_card_hash :: string
  ac_trajectory_id :: string
  ac_team_id :: string
  ac_parent_agent_id :: string
  ac_contract_id :: string
  ac_contract_hash :: string
  ac_plan_hash :: string
  ac_lease_id :: string
  ac_attempt_id :: string
  ac_base_commit :: string
  ac_evidence_id :: string

definition blank_context :: "string \<Rightarrow> string \<Rightarrow> ActivityContext" where
  "blank_context sid source = \<lparr>ac_session_id = sid, ac_run_id = [], ac_agent_id = [], ac_job_id = [], ac_role = [], ac_phase = [],
     ac_source = source, ac_card_id = [], ac_card_hash = [], ac_trajectory_id = [], ac_team_id = [], ac_parent_agent_id = [],
     ac_contract_id = [], ac_contract_hash = [], ac_plan_hash = [], ac_lease_id = [], ac_attempt_id = [], ac_base_commit = [],
     ac_evidence_id = []\<rparr>"

definition ID_FIELDS :: "(ActivityContext \<Rightarrow> string) list" where
  "ID_FIELDS = [ac_session_id, ac_run_id, ac_agent_id, ac_job_id, ac_role, ac_phase, ac_source, ac_card_id, ac_trajectory_id,
     ac_team_id, ac_parent_agent_id, ac_contract_id, ac_lease_id, ac_attempt_id]"

definition DIGEST_FIELDS :: "(ActivityContext \<Rightarrow> string) list" where
  "DIGEST_FIELDS = [ac_card_hash, ac_contract_hash, ac_plan_hash, ac_evidence_id]"

definition mk_ActivityContext :: "ActivityContext \<Rightarrow> ActivityContext result" where
  "mk_ActivityContext c = check
     [(list_ex (\<lambda>f. f c \<noteq> [] \<and> \<not> safe_id (f c)) ID_FIELDS, ValueError ''activity field must be a bounded opaque id''),
      (ac_session_id c = [], ValueError ''activity session_id is required''),
      (ac_source c = [], ValueError ''activity source is required''),
      (list_ex (\<lambda>f. f c \<noteq> [] \<and> \<not> is_digest (f c)) DIGEST_FIELDS, ValueError ''activity field must be a sha256 digest''),
      (ac_base_commit c \<noteq> [] \<and> \<not> is_commit (ac_base_commit c), ValueError ''activity base_commit must be a full lowercase commit'')]
     (Inr c)"

record ActivityEvent = ActivityContext +
  ae_schema_version :: int
  ae_cursor :: int
  ae_event_id :: string
  ae_published_at :: real
  ae_kind :: ActivityKind
  ae_summary :: string
  ae_data :: payload
  ae_artifact_refs :: "string list"
  ae_authority :: string

text \<open>\<open>__post_init__\<close>.\<close>

definition mk_ActivityEvent :: "ActivityEvent \<Rightarrow> ActivityEvent result" where
  "mk_ActivityEvent e = check
     [(ae_schema_version e \<noteq> 1, ValueError ''unsupported activity schema_version''),
      (ae_cursor e < 1, ValueError ''activity cursor must be positive''),
      (\<not> is_digest (ae_event_id e), ValueError ''activity event_id must be a sha256 digest''),
      (ae_published_at e \<le> 0, ValueError ''activity published_at must be a positive timestamp'')]
     (rbind (mk_ActivityContext (ActivityContext.truncate e)) (\<lambda>_. check
       [(ae_authority e \<noteq> ''observation'', ValueError ''activity events never carry control authority''),
        (length (ae_summary e) > MAX_SUMMARY_CHARS, ValueError ''activity summary is not bounded''),
        (CHR 0x00 \<in> set (ae_summary e), ValueError ''activity summary contains NUL''),
        (list_ex (\<lambda>r. \<not> is_digest r) (ae_artifact_refs e), ValueError ''activity artifact refs must be sha256 digests'')]
       (Inr e)))"

text \<open>The outside: the digest of a row, its encoding, its decoding (\<open>None\<close> where JSON or the fields are wrong), the
  redaction of a text, the keys that name secrets, the ellipsis.\<close>

record activity_env =
  ax_sha :: "ActivityEvent \<Rightarrow> string"
  ax_dumps :: "ActivityEvent \<Rightarrow> string"
  ax_loads :: "string \<Rightarrow> ActivityEvent option"
  ax_redact :: "string \<Rightarrow> string"
  ax_secret_key :: "string \<Rightarrow> bool"
  ax_ellipsis :: char

text \<open>The digest is taken without the id.\<close>

definition row_digest :: "activity_env \<Rightarrow> ActivityEvent \<Rightarrow> string" where
  "row_digest X e = ax_sha X (e\<lparr>ae_event_id := []\<rparr>)"

definition from_dict :: "activity_env \<Rightarrow> ActivityEvent \<Rightarrow> ActivityEvent result" where
  "from_dict X e = rbind (mk_ActivityEvent e) (\<lambda>e. check
     [(ae_event_id e \<noteq> row_digest X e, ValueError ''activity event_id does not match event content'')] (Inr e))"

section \<open>Bounding what a producer says\<close>

definition bounded_text :: "activity_env \<Rightarrow> nat \<Rightarrow> string \<Rightarrow> string" where
  "bounded_text X limit s = (let text = filter (\<lambda>c. c \<noteq> CHR 0x00) s in
     if length text \<le> limit then text else take (limit - 1) text @ [ax_ellipsis X])"

definition sanitize_activity_text :: "activity_env \<Rightarrow> nat \<Rightarrow> string \<Rightarrow> string" where
  "sanitize_activity_text X limit s = ax_redact X (bounded_text X limit s)"

text \<open>The number counts the levels left (\<open>5 - depth\<close>).\<close>

fun sanitize_activity_data :: "activity_env \<Rightarrow> nat \<Rightarrow> json \<Rightarrow> json" where
  "sanitize_activity_data X 0 v = JStr ''[depth-limited]''"
| "sanitize_activity_data X (Suc n) (JStr s) = JStr (sanitize_activity_text X 2048 s)"
| "sanitize_activity_data X (Suc n) (JObj d) = JObj (fold (\<lambda>(k, v) out.
     let key = bounded_text X 100 k in
     dput key (if ax_secret_key X key then JStr ''[redacted]'' else sanitize_activity_data X n v) out) (take 64 d) [])"
| "sanitize_activity_data X (Suc n) (JArr xs) = JArr (map (sanitize_activity_data X n) (take 64 xs))"
| "sanitize_activity_data X (Suc n) v = v"

definition default_activity_node :: "string \<Rightarrow> string" where
  "default_activity_node hostname =
     (let raw = (if py_strip hostname = [] then ''unknown-node'' else py_strip hostname);
          node = take 200 (map (\<lambda>c. if safe_char c \<or> c \<in> set '':@+'' then c else CHR ''-'') raw)
      in if safe_id node then node else ''unknown-node'')"

section \<open>The files of a node\<close>

record partition =
  pt_events :: "string option"
  pt_head :: "json option"

record ActivityJournal =
  aj_node :: string
  aj_max_bytes :: nat
  aj_max_event_bytes :: nat

definition mk_ActivityJournal :: "string \<Rightarrow> nat \<Rightarrow> nat \<Rightarrow> ActivityJournal result" where
  "mk_ActivityJournal node max_bytes max_event_bytes = check
     [(max_bytes < max_event_bytes * 2, ValueError ''activity max_bytes must retain at least two events''),
      (max_event_bytes < 1024, ValueError ''activity max_event_bytes is too small''),
      (\<not> safe_id node, ValueError ''activity node must be a single safe path segment'')]
     (Inr \<lparr>aj_node = node, aj_max_bytes = max_bytes, aj_max_event_bytes = max_event_bytes\<rparr>)"

text \<open>\<open>bytes.rfind\<close>.\<close>

definition rfind :: "char \<Rightarrow> string \<Rightarrow> int" where
  "rfind c s = (if c \<in> set s then int (length s) - 1 - int (length (takeWhile (\<lambda>x. x \<noteq> c) (rev s))) else -1)"

text \<open>\<open>bytes.splitlines(keepends=True)\<close> and \<open>bytes.splitlines()\<close>.\<close>

fun lines_keep :: "string \<Rightarrow> string list" where
  "lines_keep [] = []"
| "lines_keep (c # cs) =
     (if c = NL then [c] # lines_keep cs
      else if c = CR then (case cs of [] \<Rightarrow> [[c]] | d # ds \<Rightarrow> if d = NL then [c, d] # lines_keep ds else [c] # lines_keep (d # ds))
      else case lines_keep cs of [] \<Rightarrow> [[c]] | l # ls \<Rightarrow> (c # l) # ls)"

definition byte_lines :: "string \<Rightarrow> string list" where
  "byte_lines s = map (takeWhile (\<lambda>c. c \<noteq> NL \<and> c \<noteq> CR)) (lines_keep s)"

text \<open>The search backwards in blocks, from the offset \<open>end\<close>.\<close>

function find_last_newline :: "string \<Rightarrow> nat \<Rightarrow> int" where
  "find_last_newline s stop =
     (if stop = 0 then -1
      else let start = stop - 65536; found = rfind NL (take (stop - start) (drop start s)) in
        if found \<ge> 0 then int start + found else find_last_newline s start)"
  by pat_completeness auto
termination by (relation "measure snd") auto

declare find_last_newline.simps [simp del]

definition committed :: "string \<Rightarrow> string" where
  "committed raw = take (nat (rfind NL raw + 1)) raw"

definition decode_row :: "activity_env \<Rightarrow> string \<Rightarrow> ActivityEvent result" where
  "decode_row X line = (case ax_loads X line of None \<Rightarrow> Inl (ValueError ''row'') | Some e \<Rightarrow> from_dict X e)"

fun increasing :: "ActivityEvent list \<Rightarrow> bool" where
  "increasing (a # b # es) = (ae_cursor a < ae_cursor b \<and> increasing (b # es))"
| "increasing _ = True"

definition read_committed :: "activity_env \<Rightarrow> partition \<Rightarrow> ActivityEvent list result" where
  "read_committed X P = (case pt_events P of None \<Rightarrow> Inr []
     | Some raw \<Rightarrow> (case rmap (decode_row X) (filter (\<lambda>l. l \<noteq> []) (byte_lines (committed raw))) of
         Inl _ \<Rightarrow> Inl (RuntimeError ''committed activity row is corrupt'')
       | Inr rows \<Rightarrow> check [(\<not> increasing rows, RuntimeError ''activity cursors are not strictly increasing'')] (Inr rows)))"

definition strip_newlines :: "string \<Rightarrow> string" where
  "strip_newlines s = rev (dropWhile (\<lambda>c. c = NL) (rev s))"

text \<open>\<open>_last_committed_unlocked(recover_tail=True)\<close>: it cuts a torn tail off the file.\<close>

definition last_committed :: "activity_env \<Rightarrow> ActivityJournal \<Rightarrow> partition \<Rightarrow> ActivityEvent option result \<times> partition" where
  "last_committed X J P = (case pt_events P of None \<Rightarrow> (Inr None, P)
     | Some raw \<Rightarrow> if raw = [] then (Inr None, P)
       else let size = (if last raw = NL then length raw else nat (find_last_newline raw (length raw) + 1));
                complete = take size raw; P = P\<lparr>pt_events := Some complete\<rparr>
         in if size = 0 then (Inr None, P)
            else let read_size = min size (aj_max_event_bytes J + 1);
                     tail = strip_newlines (drop (size - read_size) complete);
                     line = rev (takeWhile (\<lambda>c. c \<noteq> NL) (rev tail))
              in case decode_row X line of Inl _ \<Rightarrow> (Inl (RuntimeError ''last committed activity row is corrupt''), P)
                 | Inr e \<Rightarrow> (Inr (Some e), P))"

text \<open>\<open>int(v)\<close>, where it is a number.\<close>

fun int_of :: "json \<Rightarrow> int option" where
  "int_of (JNum x) = Some (if x < 0 then \<lceil>x\<rceil> else \<lfloor>x\<rfloor>)"
| "int_of (JBool b) = Some (if b then 1 else 0)"
| "int_of (JStr s) = py_int s"
| "int_of _ = None"

definition read_head :: "partition \<Rightarrow> int" where
  "read_head P = (case pt_head P of Some (JObj d) \<Rightarrow> (case Option.bind (map_of d ''head_cursor'') int_of of
       Some n \<Rightarrow> if n \<ge> 0 then n else 0 | None \<Rightarrow> 0) | _ \<Rightarrow> 0)"

definition write_head :: "int \<Rightarrow> partition \<Rightarrow> partition" where
  "write_head n P = P\<lparr>pt_head := Some (JObj [(''head_cursor'', JNum n)])\<rparr>"

fun drop_oldest :: "nat \<Rightarrow> string list \<Rightarrow> string list" where
  "drop_oldest limit (l # m # ls) = (if length (concat (l # m # ls)) > limit then drop_oldest limit (m # ls) else l # m # ls)"
| "drop_oldest limit ls = ls"

definition trim :: "ActivityJournal \<Rightarrow> partition \<Rightarrow> partition" where
  "trim J P = (case pt_events P of None \<Rightarrow> P
     | Some raw \<Rightarrow> if length raw \<le> aj_max_bytes J then P
         else P\<lparr>pt_events := Some (concat (drop_oldest (aj_max_bytes J) (lines_keep raw)))\<rparr>)"

section \<open>Publication\<close>

definition encoded :: "activity_env \<Rightarrow> ActivityEvent \<Rightarrow> string" where
  "encoded X e = ax_dumps X e @ [NL]"

text \<open>The event that is about to be appended, with the torn tail cut off.\<close>

definition prepare :: "activity_env \<Rightarrow> ActivityJournal \<Rightarrow> ActivityContext \<Rightarrow> ActivityKind \<Rightarrow> string \<Rightarrow> payload \<Rightarrow> string list \<Rightarrow> real
    \<Rightarrow> partition \<Rightarrow> ActivityEvent result \<times> partition" where
  "prepare X J c kind summary data refs now P =
     (case last_committed X J P of
        (Inl e, P) \<Rightarrow> (Inl e, P)
      | (Inr prior, P) \<Rightarrow>
          let cursor = max (read_head P) (case prior of None \<Rightarrow> 0 | Some e \<Rightarrow> ae_cursor e) + 1;
              row = ActivityContext.extend c \<lparr>ae_schema_version = 1, ae_cursor = cursor, ae_event_id = [], ae_published_at = now, ae_kind = kind,
                ae_summary = sanitize_activity_text X MAX_SUMMARY_CHARS summary,
                ae_data = (case sanitize_activity_data X 5 (JObj data) of JObj d \<Rightarrow> d | _ \<Rightarrow> []),
                ae_artifact_refs = refs, ae_authority = ''observation''\<rparr>
          in (rbind (from_dict X (row\<lparr>ae_event_id := row_digest X row\<rparr>)) (\<lambda>e. check
               [(length (encoded X e) > aj_max_event_bytes J, ValueError ''activity event exceeds max_event_bytes'')] (Inr e)), P))"

definition append_row :: "activity_env \<Rightarrow> ActivityEvent \<Rightarrow> partition \<Rightarrow> partition" where
  "append_row X e P = P\<lparr>pt_events := Some ((case pt_events P of None \<Rightarrow> [] | Some raw \<Rightarrow> raw) @ encoded X e)\<rparr>"

definition publish :: "activity_env \<Rightarrow> ActivityJournal \<Rightarrow> ActivityContext \<Rightarrow> ActivityKind \<Rightarrow> string \<Rightarrow> payload \<Rightarrow> string list \<Rightarrow> real
    \<Rightarrow> partition \<Rightarrow> ActivityEvent result \<times> partition" where
  "publish X J c kind summary data refs now P =
     sbind (prepare X J c kind summary data refs now P) (\<lambda>e P. (Inr e, trim J (write_head (ae_cursor e) (append_row X e P))))"

section \<open>Replay\<close>

definition FILTERS :: "(ActivityContext \<Rightarrow> string) list" where
  "FILTERS = [ac_session_id, ac_run_id, ac_agent_id, ac_job_id, ac_card_id, ac_contract_id, ac_lease_id, ac_role]"

text \<open>A query gives the wanted values; an empty one is no filter.\<close>

definition wanted :: "ActivityContext \<Rightarrow> string \<Rightarrow> ActivityEvent \<Rightarrow> bool" where
  "wanted q kind e \<longleftrightarrow> list_all (\<lambda>f. f q \<noteq> [] \<longrightarrow> f (ActivityContext.truncate e) = f q) FILTERS
     \<and> (kind \<noteq> [] \<longrightarrow> kind_value (ae_kind e) = kind)"

definition read_after :: "activity_env \<Rightarrow> int \<Rightarrow> int \<Rightarrow> ActivityContext \<Rightarrow> string \<Rightarrow> partition \<Rightarrow> ActivityEvent list result" where
  "read_after X after_cursor limit q kind P = check
     [(after_cursor < 0, ValueError ''after_cursor must not be negative''),
      (list_ex (\<lambda>f. f q \<noteq> [] \<and> \<not> safe_id (f q)) FILTERS, ValueError ''invalid activity filter''),
      (kind \<noteq> [] \<and> kind \<notin> kind_value ` set KINDS, ValueError ''not a valid ActivityKind'')]
     (rbind (read_committed X P) (\<lambda>rows.
       Inr (take (nat (max 1 (min limit MAX_REPLAY_LIMIT))) (filter (\<lambda>e. ae_cursor e > after_cursor \<and> wanted q kind e) rows))))"

definition window :: "activity_env \<Rightarrow> partition \<Rightarrow> (int \<times> int \<times> int) result" where
  "window X P = rbind (read_committed X P) (\<lambda>rows.
     let head = max (read_head P) (if rows = [] then 0 else ae_cursor (last rows)) in
     Inr (if rows = [] then head + 1 else ae_cursor (hd rows), head, int (length rows)))"

section \<open>All nodes\<close>

type_synonym activity_fleet = "(string \<times> partition) list"

definition iter_nodes :: "activity_fleet \<Rightarrow> string list" where
  "iter_nodes F = sort (map fst (filter (\<lambda>(n, P). safe_id n \<and> pt_events P \<noteq> None) F))"

definition cursor_of :: "string \<Rightarrow> (string \<times> int) list \<Rightarrow> int" where
  "cursor_of node cursors = (case map_of cursors node of None \<Rightarrow> 0 | Some c \<Rightarrow> c)"

definition partition_of :: "string \<Rightarrow> activity_fleet \<Rightarrow> partition" where
  "partition_of node F = (case map_of F node of None \<Rightarrow> \<lparr>pt_events = None, pt_head = None\<rparr> | Some P \<Rightarrow> P)"

text \<open>The order \<open>(published_at, node, cursor)\<close>.\<close>

definition row_before :: "string \<times> ActivityEvent \<Rightarrow> string \<times> ActivityEvent \<Rightarrow> bool" where
  "row_before a b \<longleftrightarrow> (case a of (m, d) \<Rightarrow> case b of (n, e) \<Rightarrow>
     ae_published_at d < ae_published_at e \<or> ae_published_at d = ae_published_at e \<and> (m < n \<or> m = n \<and> ae_cursor d \<le> ae_cursor e))"

fun insert_row :: "string \<times> ActivityEvent \<Rightarrow> (string \<times> ActivityEvent) list \<Rightarrow> (string \<times> ActivityEvent) list" where
  "insert_row r [] = [r]"
| "insert_row r (s # rows) = (if row_before r s then r # s # rows else s # insert_row r rows)"

definition read_fleet :: "activity_env \<Rightarrow> (string \<times> int) list \<Rightarrow> int \<Rightarrow> activity_fleet
    \<Rightarrow> ((string \<times> ActivityEvent) list \<times> (string \<times> int) list) result" where
  "read_fleet X after limit F =
     rbind (rmap (\<lambda>node. rbind (read_after X (cursor_of node after) MAX_REPLAY_LIMIT (blank_context [] []) [] (partition_of node F))
         (\<lambda>es. Inr (map (Pair node) es))) (iter_nodes F)) (\<lambda>rowss.
       let merged = take (nat (max 1 (min limit MAX_REPLAY_LIMIT))) (foldr insert_row (concat rowss) []) in
       Inr (merged, fold (\<lambda>(node, e) cs. dput node (max (cursor_of node cs) (ae_cursor e)) cs) merged after))"

end
