(* ===== verification/ActivityRuns.thy ===== *)
theory ActivityRuns
  imports Activity
begin

text \<open>
  What the activity journal of \<open>Activity\<close> guarantees over every run of publications, refusals and crashes, and where
  the merged view and the bound of a summary fail.
\<close>

section \<open>Lines\<close>

lemma rfind_none: "c \<notin> set s \<Longrightarrow> rfind c s = -1"
  by (simp add: rfind_def)

lemma rfind_split: "c \<notin> set t \<Longrightarrow> rfind c (s @ c # t) = int (length s)"
proof -
  assume "c \<notin> set t"
  then have "takeWhile (\<lambda>x. x \<noteq> c) (rev t @ c # rev s) = rev t"
    by (subst takeWhile_append2) auto
  then show ?thesis by (simp add: rfind_def)
qed

lemma rfind_cases:
  obtains "c \<notin> set s" "rfind c s = -1" | a b where "s = a @ c # b" "c \<notin> set b" "rfind c s = int (length a)"
proof (cases "c \<in> set s")
  case True
  then obtain a b where "s = a @ c # b" "c \<notin> set b" using split_list_last by metis
  with that(2) rfind_split show ?thesis by metis
qed (use that(1) rfind_none in metis)

lemma rfind_append: "rfind c (s @ t) = (if c \<in> set t then int (length s) + rfind c t else rfind c s)"
proof (cases rule: rfind_cases [of c t])
  case 1
  then show ?thesis by (cases rule: rfind_cases [of c s]) (simp_all add: rfind_none rfind_split [of c "b @ t" for b, simplified])
next
  case (2 a b)
  then show ?thesis using rfind_split [of c b "s @ a"] by simp
qed

lemma find_last_newline_scan: "find_last_newline s stop = rfind NL (take stop s)"
proof (induction s stop rule: find_last_newline.induct)
  case (1 s stop)
  show ?case
  proof (cases "stop = 0")
    case True
    then show ?thesis by (simp add: find_last_newline.simps [of s 0] rfind_def)
  next
    case False
    define start where "start = stop - 65536"
    define chunk where "chunk = take (stop - start) (drop start s)"
    have "take stop s = take start s @ chunk" unfolding chunk_def by (metis start_def diff_le_self le_add_diff_inverse take_add)
    then have r: "rfind NL (take stop s) = (if NL \<in> set chunk then int (length (take start s)) + rfind NL chunk else rfind NL (take start s))"
      by (simp add: rfind_append)
    have "rfind NL chunk \<ge> 0 \<longleftrightarrow> NL \<in> set chunk" by (cases rule: rfind_cases [of NL chunk]) auto
    moreover have "NL \<in> set chunk \<Longrightarrow> length (take start s) = start" by (cases "start \<le> length s") (auto simp: chunk_def)
    ultimately show ?thesis using r 1 False
      by (simp add: find_last_newline.simps [of s stop] Let_def start_def [symmetric] chunk_def [symmetric])
  qed
qed

text \<open>C39. The search for the end of the last complete row reads the file backwards in blocks, and finds what a search through
  the whole file finds, whatever the length of the file.\<close>

theorem find_last_newline_exact: "find_last_newline s stop = rfind NL (take stop s)"
  by (rule find_last_newline_scan)

definition clean_line :: "string \<Rightarrow> bool" where
  "clean_line l \<longleftrightarrow> l \<noteq> [] \<and> list_all (\<lambda>c. c \<noteq> NL \<and> c \<noteq> CR) l"

lemma NL_CR [simp]: "NL \<noteq> CR" "CR \<noteq> NL"
  by (simp_all add: NL_def CR_def)

lemma lines_keep_line: "list_all (\<lambda>c. c \<noteq> NL \<and> c \<noteq> CR) l \<Longrightarrow> lines_keep (l @ NL # r) = (l @ [NL]) # lines_keep r"
  by (induction l) auto

lemma lines_keep_rows: "list_all clean_line ls \<Longrightarrow> lines_keep (concat (map (\<lambda>l. l @ [NL]) ls)) = map (\<lambda>l. l @ [NL]) ls"
  by (induction ls) (auto simp: clean_line_def lines_keep_line)

lemma byte_lines_rows:
  assumes "list_all clean_line ls"
  shows "byte_lines (concat (map (\<lambda>l. l @ [NL]) ls)) = ls"
proof -
  have "list_all (\<lambda>c. c \<noteq> NL \<and> c \<noteq> CR) l \<Longrightarrow> takeWhile (\<lambda>c. c \<noteq> NL \<and> c \<noteq> CR) (l @ [NL]) = l" for l
    by (subst takeWhile_append2) (auto simp: list_all_iff)
  then have "map (takeWhile (\<lambda>c. c \<noteq> NL \<and> c \<noteq> CR)) (map (\<lambda>l. l @ [NL]) ls) = ls"
    using assms by (induction ls) (auto simp: clean_line_def)
  then show ?thesis by (simp only: byte_lines_def lines_keep_rows [OF assms])
qed

lemma committed_split: "NL \<notin> set t \<Longrightarrow> committed (s @ NL # t) = s @ [NL]"
  by (simp add: committed_def rfind_split nat_add_distrib)

lemma committed_rows: "NL \<notin> set tail \<Longrightarrow> committed (concat (map (\<lambda>l. l @ [NL]) ls) @ tail) = concat (map (\<lambda>l. l @ [NL]) ls)"
proof (cases ls rule: rev_cases)
  case (snoc ks k)
  moreover assume "NL \<notin> set tail"
  ultimately show ?thesis using committed_split [of tail "concat (map (\<lambda>l. l @ [NL]) ks) @ k"] by simp
qed (simp add: committed_def rfind_none)

section \<open>What a partition holds\<close>

text \<open>What the JSON codec does for an event: a row of its own, without line breaks, that decodes to the event.\<close>

definition faithful :: "activity_env \<Rightarrow> ActivityEvent \<Rightarrow> bool" where
  "faithful X e \<longleftrightarrow> ax_loads X (ax_dumps X e) = Some e \<and> clean_line (ax_dumps X e)"

definition row_ok :: "activity_env \<Rightarrow> ActivityJournal \<Rightarrow> ActivityEvent \<Rightarrow> bool" where
  "row_ok X J e \<longleftrightarrow> faithful X e \<and> from_dict X e = Inr e \<and> length (encoded X e) \<le> aj_max_event_bytes J"

definition raw_rows :: "activity_env \<Rightarrow> ActivityEvent list \<Rightarrow> string" where
  "raw_rows X es = concat (map (encoded X) es)"

definition bytes_of :: "partition \<Rightarrow> string" where
  "bytes_of P = (case pt_events P of None \<Rightarrow> [] | Some raw \<Rightarrow> raw)"

definition holds :: "activity_env \<Rightarrow> ActivityJournal \<Rightarrow> ActivityEvent list \<Rightarrow> partition \<Rightarrow> bool" where
  "holds X J es P \<longleftrightarrow> (\<exists>tail. bytes_of P = raw_rows X es @ tail \<and> NL \<notin> set tail) \<and> list_all (row_ok X J) es \<and> increasing es"

lemma raw_rows_lines: "raw_rows X es = concat (map (\<lambda>l. l @ [NL]) (map (ax_dumps X) es))"
  unfolding raw_rows_def encoded_def [abs_def] map_map comp_def ..

lemma raw_rows_append [simp]: "raw_rows X (es @ fs) = raw_rows X es @ raw_rows X fs"
  by (simp add: raw_rows_def)

lemma raw_rows_single [simp]: "raw_rows X [e] = ax_dumps X e @ [NL]"
  by (simp add: raw_rows_def encoded_def)

lemma row_ok_clean: "list_all (row_ok X J) es \<Longrightarrow> list_all clean_line (map (ax_dumps X) es)"
  by (induction es) (auto simp: row_ok_def faithful_def)

lemma decode_rows: "list_all (row_ok X J) es \<Longrightarrow> rmap (decode_row X) (map (ax_dumps X) es) = Inr es"
  by (induction es) (auto simp: row_ok_def faithful_def decode_row_def)

lemma read_committed_bytes:
  "read_committed X P = (case rmap (decode_row X) (filter (\<lambda>l. l \<noteq> []) (byte_lines (committed (bytes_of P)))) of
         Inl _ \<Rightarrow> Inl (RuntimeError ''committed activity row is corrupt'')
       | Inr rows \<Rightarrow> check [(\<not> increasing rows, RuntimeError ''activity cursors are not strictly increasing'')] (Inr rows))"
  by (simp add: read_committed_def bytes_of_def committed_def rfind_def byte_lines_def split: option.split)

lemma read_holds:
  assumes "holds X J es P"
  shows "read_committed X P = Inr es"
proof -
  obtain tail where t: "bytes_of P = raw_rows X es @ tail" "NL \<notin> set tail" and ok: "list_all (row_ok X J) es" "increasing es"
    using assms by (auto simp: holds_def)
  have c: "list_all clean_line (map (ax_dumps X) es)" using ok(1) by (rule row_ok_clean)
  have "byte_lines (committed (bytes_of P)) = map (ax_dumps X) es"
    unfolding t(1) raw_rows_lines committed_rows [OF t(2)] by (rule byte_lines_rows [OF c])
  moreover have "filter (\<lambda>l. l \<noteq> []) (map (ax_dumps X) es) = map (ax_dumps X) es"
    using c by (intro filter_True) (auto simp: list_all_iff clean_line_def)
  ultimately show ?thesis using ok(2) by (simp add: read_committed_bytes decode_rows [OF ok(1)])
qed

text \<open>The tail of the file that is read holds the last row, however long the file is.\<close>

lemma last_line:
  assumes "clean_line d" and "k \<le> length A" and "A = [] \<or> k < length A \<and> last A = NL"
  shows "rev (takeWhile (\<lambda>c. c \<noteq> NL) (rev (strip_newlines (drop k (A @ d @ [NL]))))) = d"
proof -
  have d: "d \<noteq> []" "NL \<notin> set d" "\<forall>x \<in> set d. x \<noteq> NL" using assms(1) by (auto simp: clean_line_def list_all_iff)
  then have "rev d \<noteq> []" "NL \<notin> set (rev d)" by simp_all
  then obtain c cs where r: "rev d = c # cs" "c \<noteq> NL" by (cases "rev d") auto
  have "dropWhile (\<lambda>c. c = NL) (NL # c # cs @ u) = c # cs @ u" for u using r(2) by simp
  then have "strip_newlines (drop k A @ d @ [NL]) = rev (rev d @ rev (drop k A))" by (simp only: strip_newlines_def rev_append rev.simps append_Nil append_Cons r(1))
  then have "strip_newlines (drop k (A @ d @ [NL])) = drop k A @ d" using assms(2) by simp
  moreover have "takeWhile (\<lambda>c. c \<noteq> NL) (rev d @ rev (drop k A)) = rev d"
  proof (cases "drop k A" rule: rev_cases)
    case Nil
    then show ?thesis using d by (simp add: takeWhile_eq_all_conv)
  next
    case (snoc B b)
    then have "b = NL" using assms(3) by (metis drop_Nil last_drop last_snoc snoc_eq_iff_butlast)
    then show ?thesis using d snoc by (simp add: takeWhile_append takeWhile_eq_all_conv)
  qed
  ultimately show ?thesis by simp
qed

text \<open>The last row is found and a torn tail is cut off.\<close>

definition clean :: "activity_env \<Rightarrow> ActivityJournal \<Rightarrow> ActivityEvent list \<Rightarrow> partition \<Rightarrow> bool" where
  "clean X J es P \<longleftrightarrow> bytes_of P = raw_rows X es \<and> list_all (row_ok X J) es \<and> increasing es"

definition last_row :: "ActivityEvent list \<Rightarrow> ActivityEvent option" where
  "last_row es = (if es = [] then None else Some (last es))"

lemma clean_holds: "clean X J es P \<Longrightarrow> holds X J es P"
  by (auto simp: clean_def holds_def intro: exI [of _ "[]"])

lemma cut_size:
  assumes "NL \<notin> set tail" and "raw = raw_rows X es @ tail" and "raw \<noteq> []"
  shows "(if last raw = NL then length raw else nat (find_last_newline raw (length raw) + 1)) = length (raw_rows X es)"
proof (cases "es" rule: rev_cases)
  case Nil
  then have "raw = tail" using assms(2) by (simp add: raw_rows_def)
  moreover from this have "last raw \<in> set tail" using assms(3) last_in_set by metis
  then have "last raw \<noteq> NL" using assms(1) by metis
  ultimately show ?thesis using assms(1) Nil by (simp add: find_last_newline_scan rfind_none raw_rows_def)
next
  case (snoc fs f)
  have "rfind NL raw = int (length (raw_rows X fs @ ax_dumps X f))"
    using rfind_split [OF assms(1), of "raw_rows X fs @ ax_dumps X f"] by (simp add: assms(2) snoc)
  then have f: "nat (find_last_newline raw (length raw) + 1) = length (raw_rows X es)"
    by (simp add: find_last_newline_scan snoc nat_add_distrib)
  show ?thesis
  proof (cases "tail = []")
    case False
    then have "last raw \<noteq> NL" using assms(1,2) last_in_set by fastforce
    then show ?thesis using f by simp
  qed (use assms(2) snoc in simp)
qed

lemma last_holds:
  assumes "holds X J es P"
  shows "fst (last_committed X J P) = Inr (last_row es) \<and> clean X J es (snd (last_committed X J P))
    \<and> pt_head (snd (last_committed X J P)) = pt_head P"
proof -
  obtain tail where t: "bytes_of P = raw_rows X es @ tail" "NL \<notin> set tail" and ok: "list_all (row_ok X J) es" "increasing es"
    using assms by (auto simp: holds_def)
  show ?thesis
  proof (cases "bytes_of P = []")
    case True
    then have "es = []" using t(1) by (cases es) (auto simp: raw_rows_def encoded_def)
    then show ?thesis using True by (auto simp: last_committed_def last_row_def clean_def raw_rows_def bytes_of_def split: option.splits)
  next
    case False
    then obtain raw where raw: "pt_events P = Some raw" "raw \<noteq> []" by (auto simp: bytes_of_def split: option.splits)
    then have r: "raw = raw_rows X es @ tail" using t(1) by (simp add: bytes_of_def)
    note size = cut_size [OF t(2) r raw(2)]
    show ?thesis
    proof (cases es rule: rev_cases)
      case Nil
      then show ?thesis using raw size by (simp add: last_committed_def Let_def last_row_def clean_def bytes_of_def raw_rows_def)
    next
      case (snoc fs f)
      let ?d = "ax_dumps X f" and ?A = "raw_rows X fs"
      let ?size = "length (raw_rows X es)"
      have c: "clean_line ?d" "length ?d + 1 \<le> aj_max_event_bytes J" "decode_row X ?d = Inr f"
        using ok(1) by (simp_all add: snoc row_ok_def faithful_def encoded_def decode_row_def)
      have s: "?size = length ?A + length ?d + 1" by (simp add: snoc)
      have k: "?size - min ?size (aj_max_event_bytes J + 1) \<le> length ?A" using c(2) s by linarith
      have "last ?A = NL" if "fs \<noteq> []" using that by (cases fs rule: rev_cases) auto
      moreover have "?size - min ?size (aj_max_event_bytes J + 1) < length ?A" if "?A \<noteq> []" using c(2) s that by (cases ?A) auto
      ultimately have a: "?A = [] \<or> ?size - min ?size (aj_max_event_bytes J + 1) < length ?A \<and> last ?A = NL"
        by (cases fs) (auto simp: raw_rows_def)
      have "take ?size raw = ?A @ ?d @ [NL]" by (simp add: r snoc)
      then show ?thesis using raw size last_line [OF c(1) k a] c(3) ok snoc
        by (simp add: last_committed_def Let_def last_row_def clean_def bytes_of_def)
    qed
  qed
qed

lemma from_dict_Inr: "from_dict X x = Inr e \<Longrightarrow> e = x \<and> ae_authority e = ''observation'' \<and> ae_event_id e = row_digest X e \<and> 1 \<le> ae_cursor e"
  by (auto simp: from_dict_def mk_ActivityEvent_def)

lemma read_head_nonneg: "0 \<le> read_head P"
  by (auto simp: read_head_def split: option.splits json.splits)

lemma increasing_snoc: "increasing (es @ [e]) \<longleftrightarrow> increasing es \<and> (es \<noteq> [] \<longrightarrow> ae_cursor (last es) < ae_cursor e)"
  by (induction es rule: increasing.induct) auto

lemma prepare_holds:
  assumes "holds X J es P" and "prepare X J c kind summary data refs now P = (r, P1)"
  shows "clean X J es P1 \<and> pt_head P1 = pt_head P \<and> (\<forall>e. r = Inr e \<longrightarrow> from_dict X e = Inr e
    \<and> length (encoded X e) \<le> aj_max_event_bytes J \<and> ae_cursor e > read_head P \<and> increasing (es @ [e]))"
proof -
  obtain P2 where l: "last_committed X J P = (Inr (last_row es), P2)" and c: "clean X J es P2" "pt_head P2 = pt_head P"
    using last_holds [OF assms(1)] by (cases "last_committed X J P") simp
  have h: "read_head P2 = read_head P" using c(2) by (simp add: read_head_def)
  obtain row where P1: "P1 = P2" and r: "r = rbind (from_dict X row) (\<lambda>e. check
               [(length (encoded X e) > aj_max_event_bytes J, ValueError ''activity event exceeds max_event_bytes'')] (Inr e))"
    and cur: "ae_cursor row = max (read_head P) (case last_row es of None \<Rightarrow> 0 | Some e \<Rightarrow> ae_cursor e) + 1"
    using assms(2) unfolding prepare_def l prod.case sum.case Let_def h by (auto simp: ActivityContext.extend_def)
  have "from_dict X e = Inr e \<and> length (encoded X e) \<le> aj_max_event_bytes J \<and> ae_cursor e > read_head P \<and> increasing (es @ [e])"
    if "r = Inr e" for e
  proof -
    have e: "from_dict X row = Inr e" "length (encoded X e) \<le> aj_max_event_bytes J" using that by (auto simp: r)
    from from_dict_Inr [OF e(1)] have "e = row" by simp
    then show ?thesis using e cur c(1) by (auto simp: increasing_snoc clean_def last_row_def)
  qed
  then show ?thesis using c P1 by blast
qed

lemma append_clean:
  assumes "clean X J es P" and "from_dict X e = Inr e" and "length (encoded X e) \<le> aj_max_event_bytes J" and "faithful X e"
    and "increasing (es @ [e])"
  shows "clean X J (es @ [e]) (append_row X e P)"
  using assms by (auto simp: clean_def append_row_def bytes_of_def row_ok_def encoded_def split: option.splits)

lemma head_clean [simp]: "clean X J es (write_head n P) = clean X J es P"
  by (simp add: clean_def write_head_def bytes_of_def)

lemma increasing_suffix: "increasing (es @ fs) \<Longrightarrow> increasing fs"
  by (induction es) (auto elim: increasing.elims)

lemma drop_oldest_rows:
  "\<exists>fs. drop_oldest limit (map f es) = map f fs \<and> suffix fs es \<and> (es \<noteq> [] \<longrightarrow> fs \<noteq> [])
     \<and> (length fs \<le> 1 \<or> length (concat (map f fs)) \<le> limit)"
proof (induction es)
  case (Cons e es)
  show ?case
  proof (cases "es = [] \<or> length (concat (map f (e # es))) \<le> limit")
    case True
    then have "drop_oldest limit (map f (e # es)) = map f (e # es)" by (cases es) auto
    then show ?thesis using True by (intro exI [of _ "e # es"]) auto
  next
    case False
    then have "drop_oldest limit (map f (e # es)) = drop_oldest limit (map f es)" by (cases es) auto
    with Cons.IH False show ?thesis by (metis suffix_Cons)
  qed
qed simp

lemma trim_clean:
  assumes "clean X J es P" and "es \<noteq> []" and "aj_max_event_bytes J \<le> aj_max_bytes J"
  shows "\<exists>fs. suffix fs es \<and> fs \<noteq> [] \<and> clean X J fs (trim J P) \<and> length (bytes_of (trim J P)) \<le> aj_max_bytes J"
proof -
  have P: "pt_events P = Some (raw_rows X es)" using assms(1,2)
    by (cases es) (auto simp: clean_def bytes_of_def raw_rows_def encoded_def split: option.splits)
  show ?thesis
  proof (cases "length (raw_rows X es) \<le> aj_max_bytes J")
    case True
    then show ?thesis using assms P by (intro exI [of _ es]) (simp add: trim_def bytes_of_def)
  next
    case False
    have ok: "list_all (row_ok X J) es" "increasing es" using assms(1) by (simp_all add: clean_def)
    have "lines_keep (raw_rows X es) = map (encoded X) es"
      unfolding raw_rows_lines lines_keep_rows [OF row_ok_clean [OF ok(1)]] by (simp add: encoded_def)
    moreover obtain fs where fs: "drop_oldest (aj_max_bytes J) (map (encoded X) es) = map (encoded X) fs" "suffix fs es" "fs \<noteq> []"
      "length fs \<le> 1 \<or> length (concat (map (encoded X) fs)) \<le> aj_max_bytes J"
      using drop_oldest_rows [of "aj_max_bytes J" "encoded X" es] assms(2) by blast
    ultimately have t: "bytes_of (trim J P) = raw_rows X fs" using P False by (simp add: trim_def bytes_of_def raw_rows_def)
    have "list_all (row_ok X J) fs" "increasing fs" using fs(2) ok increasing_suffix by (auto simp: suffix_def)
    moreover have "length (raw_rows X fs) \<le> aj_max_bytes J"
      using fs(3,4) calculation(1) assms(3) by (cases fs) (auto simp: raw_rows_def row_ok_def)
    ultimately show ?thesis using fs t by (auto simp: clean_def)
  qed
qed

section \<open>Runs\<close>

text \<open>A run of a node: publications, refused publications, and crashes in the middle of a write, before the head is written,
  and before the trim. The list is what was appended.\<close>

inductive activity_run :: "activity_env \<Rightarrow> ActivityJournal \<Rightarrow> ActivityEvent list \<Rightarrow> partition \<Rightarrow> bool" for X J where
  fresh: "activity_run X J [] \<lparr>pt_events = None, pt_head = None\<rparr>"
| published: "activity_run X J hist P \<Longrightarrow> publish X J c kind summary data refs now P = (Inr e, P') \<Longrightarrow> faithful X e
    \<Longrightarrow> activity_run X J (hist @ [e]) P'"
| refused: "activity_run X J hist P \<Longrightarrow> publish X J c kind summary data refs now P = (Inl x, P') \<Longrightarrow> activity_run X J hist P'"
| torn: "activity_run X J hist P \<Longrightarrow> prepare X J c kind summary data refs now P = (Inr e, P1) \<Longrightarrow> faithful X e \<Longrightarrow> n < length (encoded X e)
    \<Longrightarrow> activity_run X J hist (P1\<lparr>pt_events := Some (bytes_of P1 @ take n (encoded X e))\<rparr>)"
| headless: "activity_run X J hist P \<Longrightarrow> prepare X J c kind summary data refs now P = (Inr e, P1) \<Longrightarrow> faithful X e
    \<Longrightarrow> activity_run X J (hist @ [e]) (append_row X e P1)"
| untrimmed: "activity_run X J hist P \<Longrightarrow> prepare X J c kind summary data refs now P = (Inr e, P1) \<Longrightarrow> faithful X e
    \<Longrightarrow> activity_run X J (hist @ [e]) (write_head (ae_cursor e) (append_row X e P1))"

definition kept :: "activity_env \<Rightarrow> ActivityJournal \<Rightarrow> ActivityEvent list \<Rightarrow> ActivityEvent list \<Rightarrow> bool" where
  "kept X J es hist \<longleftrightarrow> suffix es hist \<and> (hist \<noteq> [] \<longrightarrow> es \<noteq> []) \<and> increasing hist \<and> list_all (\<lambda>e. from_dict X e = Inr e) hist"

lemma kept_last: "kept X J es hist \<Longrightarrow> hist \<noteq> [] \<Longrightarrow> last es = last hist \<and> es \<noteq> []"
  by (auto simp: kept_def suffix_def)

lemma kept_snoc:
  assumes "kept X J es hist" and "from_dict X e = Inr e" and "increasing (es @ [e])"
  shows "kept X J (es @ [e]) (hist @ [e])"
  using assms kept_last [OF assms(1)] by (cases "hist = []") (auto simp: kept_def increasing_snoc)

lemma kept_suffix: "kept X J es hist \<Longrightarrow> suffix fs es \<Longrightarrow> fs \<noteq> [] \<Longrightarrow> kept X J fs hist"
  by (auto simp: kept_def intro: suffix_order.trans)

lemma publish_kept:
  assumes "holds X J es P" and "publish X J c kind summary data refs now P = (Inr e, P')" and "faithful X e"
    and "aj_max_event_bytes J \<le> aj_max_bytes J"
  shows "\<exists>fs. suffix fs (es @ [e]) \<and> fs \<noteq> [] \<and> clean X J fs P' \<and> length (bytes_of P') \<le> aj_max_bytes J \<and> from_dict X e = Inr e
    \<and> increasing (es @ [e])"
proof -
  obtain P1 where p: "prepare X J c kind summary data refs now P = (Inr e, P1)"
    and P': "P' = trim J (write_head (ae_cursor e) (append_row X e P1))" using assms(2) by (auto simp: publish_def)
  from prepare_holds [OF assms(1) p] have c: "clean X J es P1" "from_dict X e = Inr e" "length (encoded X e) \<le> aj_max_event_bytes J" "increasing (es @ [e])"
    by auto
  have "clean X J (es @ [e]) (write_head (ae_cursor e) (append_row X e P1))" using append_clean [OF c(1-3) assms(3) c(4)] by simp
  from trim_clean [OF this _ assms(4)] c show ?thesis by (auto simp: P')
qed

lemma activity_run_kept:
  assumes "activity_run X J hist P" and "aj_max_event_bytes J \<le> aj_max_bytes J"
  shows "\<exists>es. holds X J es P \<and> kept X J es hist"
  using assms(1)
proof induction
  case fresh
  then show ?case by (intro exI [of _ "[]"]) (simp add: holds_def kept_def bytes_of_def raw_rows_def)
next
  case (published hist P c kind summary data refs now e P')
  then obtain es where es: "holds X J es P" "kept X J es hist" by blast
  from publish_kept [OF es(1) published(2,3) assms(2)] show ?case using kept_snoc [OF es(2)] kept_suffix clean_holds by meson
next
  case (refused hist P c kind summary data refs now x P')
  then obtain es where es: "holds X J es P" "kept X J es hist" by blast
  from refused(2) have "prepare X J c kind summary data refs now P = (Inl x, P')"
    unfolding publish_def by (cases "prepare X J c kind summary data refs now P"; cases "fst (prepare X J c kind summary data refs now P)") auto
  from prepare_holds [OF es(1) this] show ?case using es(2) clean_holds by blast
next
  case (torn hist P c kind summary data refs now e P1 n)
  then obtain es where es: "holds X J es P" "kept X J es hist" by blast
  from prepare_holds [OF es(1) torn(2)] have c: "clean X J es P1" by blast
  have "n \<le> length (ax_dumps X e)" using torn(4) by (simp add: encoded_def)
  then have "take n (encoded X e) = take n (ax_dumps X e)" by (simp add: encoded_def)
  moreover have "NL \<notin> set (take n (ax_dumps X e))" using torn(3) set_take_subset by (fastforce simp: faithful_def clean_line_def list_all_iff)
  ultimately have "holds X J es (P1\<lparr>pt_events := Some (bytes_of P1 @ take n (encoded X e))\<rparr>)" using c by (auto simp: holds_def clean_def bytes_of_def)
  then show ?case using es(2) by blast
next
  case (headless hist P c kind summary data refs now e P1)
  then obtain es where es: "holds X J es P" "kept X J es hist" by blast
  from prepare_holds [OF es(1) headless(2)] have "clean X J (es @ [e]) (append_row X e P1)" "kept X J (es @ [e]) (hist @ [e])"
    using append_clean [OF _ _ _ headless(3)] kept_snoc [OF es(2)] by blast+
  then show ?case using clean_holds by blast
next
  case (untrimmed hist P c kind summary data refs now e P1)
  then obtain es where es: "holds X J es P" "kept X J es hist" by blast
  from prepare_holds [OF es(1) untrimmed(2)] have "clean X J (es @ [e]) (append_row X e P1)" "kept X J (es @ [e]) (hist @ [e])"
    using append_clean [OF _ _ _ untrimmed(3)] kept_snoc [OF es(2)] by blast+
  then show ?case using clean_holds head_clean by blast
qed

section \<open>Properties\<close>

lemma journal_sizes: "mk_ActivityJournal node mb me = Inr J \<Longrightarrow> aj_max_event_bytes J \<le> aj_max_bytes J"
  by (auto simp: mk_ActivityJournal_def)

text \<open>C25. Whatever publications, refusals, torn writes and crashes a node goes through, its journal is never found corrupt: the rows that are
  read are the last ones that were appended, at least one of them, with strictly increasing cursors over the whole
  life of the journal; every one is sealed by its digest and has no authority but that of an observation.\<close>

theorem activity_never_corrupts:
  assumes "activity_run X J hist P" and "mk_ActivityJournal node mb me = Inr J"
  shows "\<exists>es. read_committed X P = Inr es \<and> suffix es hist \<and> (hist \<noteq> [] \<longrightarrow> es \<noteq> []) \<and> increasing hist
    \<and> list_all (\<lambda>e. ae_authority e = ''observation'' \<and> ae_event_id e = row_digest X e) hist"
proof -
  obtain es where es: "holds X J es P" "kept X J es hist" using activity_run_kept [OF assms(1) journal_sizes [OF assms(2)]] by blast
  have "list_all (\<lambda>e. ae_authority e = ''observation'' \<and> ae_event_id e = row_digest X e) hist"
    using es(2) from_dict_Inr by (fastforce simp: kept_def list_all_iff)
  then show ?thesis using read_holds [OF es(1)] es(2) by (auto simp: kept_def)
qed

lemma increasing_sorted: "increasing es \<longleftrightarrow> sorted_wrt (\<lambda>a b. ae_cursor a < ae_cursor b) es"
  by (induction es rule: increasing.induct) (fastforce simp: sorted_wrt2 transp_def simp del: sorted_wrt.simps(2), simp_all)

lemma sorted_page:
  assumes "increasing rows" and "take n rows \<noteq> []"
  shows "filter (\<lambda>e. ae_cursor e > ae_cursor (last (take n rows))) rows = drop n rows"
proof -
  have s: "sorted_wrt (\<lambda>a b. ae_cursor a < ae_cursor b) (take n rows @ drop n rows)" using assms(1) by (simp add: increasing_sorted)
  obtain p a where p: "take n rows = p @ [a]" using assms(2) by (cases "take n rows" rule: rev_cases) auto
  have "filter (\<lambda>e. ae_cursor e > ae_cursor a) (take n rows) = []" using s unfolding p by (auto simp: sorted_wrt_append filter_empty_conv)
  moreover have "filter (\<lambda>e. ae_cursor e > ae_cursor a) (drop n rows) = drop n rows" using s unfolding p by (auto simp: sorted_wrt_append filter_id_conv)
  ultimately have "filter (\<lambda>e. ae_cursor e > ae_cursor a) (take n rows @ drop n rows) = drop n rows" by (simp only: filter_append append_Nil)
  then have "filter (\<lambda>e. ae_cursor e > ae_cursor a) rows = drop n rows" by (simp only: append_take_drop_id)
  then show ?thesis by (simp add: p)
qed

lemma increasing_filter: "increasing es \<Longrightarrow> increasing (filter Q es)"
  by (simp add: increasing_sorted sorted_wrt_filter)

text \<open>Replay has no gaps and no repetitions: a page holds the first wanted rows after the cursor, and what is wanted after the cursor
  is the page followed by what is wanted after the last row of the page; an empty page means that nothing is left.\<close>

theorem replay_is_gapless:
  assumes "read_after X after_cursor limit q kind P = Inr page" and "read_committed X P = Inr es" and "increasing es"
  defines "left \<equiv> \<lambda>c. filter (\<lambda>e. ae_cursor e > c \<and> wanted q kind e) es"
  shows "(page = [] \<longrightarrow> left after_cursor = []) \<and> (page \<noteq> [] \<longrightarrow> left after_cursor = page @ left (ae_cursor (last page)))"
proof -
  define n where "n = nat (max 1 (min limit MAX_REPLAY_LIMIT))"
  have page: "page = take n (left after_cursor)" and n: "1 \<le> n" using assms(1,2) by (auto simp: read_after_def n_def left_def)
  have "left (ae_cursor (last page)) = drop n (left after_cursor)" if "page \<noteq> []"
  proof -
    have "last page \<in> set (left after_cursor)" using that page by (metis in_set_takeD last_in_set)
    then have "after_cursor < ae_cursor (last page)" by (simp add: left_def)
    then have "left (ae_cursor (last page)) = filter (\<lambda>e. ae_cursor e > ae_cursor (last page)) (left after_cursor)"
      unfolding left_def filter_filter by (intro filter_cong) auto
    also have "\<dots> = drop n (left after_cursor)"
      using sorted_page [of "left after_cursor" n] that page increasing_filter [OF assms(3)] by (simp add: left_def)
    finally show ?thesis .
  qed
  then show ?thesis using page n by (cases "left after_cursor") auto
qed

text \<open>C26. What is published is replayed: after a publication, a reader who has seen everything before gets exactly the new event,
  and the journal is within its size.\<close>

theorem publish_then_replay:
  assumes "activity_run X J hist P" and "mk_ActivityJournal node mb me = Inr J"
    and "publish X J c kind summary data refs now P = (Inr e, P')" and "faithful X e"
  shows "read_after X (if hist = [] then 0 else ae_cursor (last hist)) limit (blank_context [] []) [] P' = Inr [e]
    \<and> length (bytes_of P') \<le> mb"
proof -
  have size: "aj_max_event_bytes J \<le> aj_max_bytes J" "aj_max_bytes J = mb" using assms(2) by (auto simp: mk_ActivityJournal_def)
  obtain es where es: "holds X J es P" "kept X J es hist" using activity_run_kept [OF assms(1) size(1)] by blast
  obtain fs where fs: "suffix fs (es @ [e])" "fs \<noteq> []" "clean X J fs P'" "length (bytes_of P') \<le> mb" "from_dict X e = Inr e" "increasing (es @ [e])"
    using publish_kept [OF es(1) assms(3,4) size(1)] size(2) by blast
  define seen where "seen = (if hist = [] then 0 else ae_cursor (last hist))"
  have hist: "increasing (hist @ [e])" "list_all (\<lambda>e. from_dict X e = Inr e) (hist @ [e])"
    using kept_snoc [OF es(2) fs(5,6)] by (simp_all add: kept_def)
  obtain gs where gs: "fs = gs @ [e]" "suffix gs hist" using fs(1,2) es(2)
    by (auto simp: kept_def suffix_snoc dest: suffix_order.trans)
  have e: "seen < ae_cursor e" using hist from_dict_Inr [of X e e] by (auto simp: seen_def increasing_snoc)
  have pos: "0 \<le> seen"
  proof (cases hist rule: rev_cases)
    case (snoc h l)
    then have "from_dict X l = Inr l" using hist(2) by simp
    from from_dict_Inr [OF this] snoc show ?thesis by (simp add: seen_def)
  qed (simp add: seen_def)
  have "ae_cursor g \<le> seen" if g: "g \<in> set hist" for g
  proof -
    obtain h l where h: "hist = h @ [l]" using g by (cases hist rule: rev_cases) auto
    then show ?thesis using g hist(1) by (auto simp: seen_def increasing_sorted sorted_wrt_append)
  qed
  then have "filter (\<lambda>e. ae_cursor e > seen) gs = []" using gs(2) by (fastforce simp: filter_empty_conv suffix_def)
  moreover have w: "wanted (blank_context [] []) [] g" for g by (simp add: wanted_def FILTERS_def blank_context_def)
  ultimately have f: "filter (\<lambda>g. ae_cursor g > seen \<and> wanted (blank_context [] []) [] g) fs = [e]" using e by (simp add: gs(1) w)
  have "list_ex (\<lambda>f. f (blank_context [] []) \<noteq> [] \<and> \<not> safe_id (f (blank_context [] []))) FILTERS = False"
    by (simp add: FILTERS_def blank_context_def)
  then have "read_after X seen limit (blank_context [] []) [] P' = Inr [e]"
    using read_holds [OF clean_holds [OF fs(3)]] f pos by (simp add: read_after_def)
  then show ?thesis using fs(4) by (simp add: seen_def)
qed

section \<open>A node at work\<close>

text \<open>The rows \<open>rows\<close>, which their cursors identify, and a redaction of one secret.\<close>

definition demo_row :: "int \<Rightarrow> real \<Rightarrow> ActivityEvent" where
  "demo_row cursor now = ActivityContext.extend (blank_context ''s'' ''arena'') \<lparr>ae_schema_version = 1, ae_cursor = cursor,
     ae_event_id = ''sha256:'' @ replicate 64 CHR ''0'', ae_published_at = now, ae_kind = STATUS, ae_summary = ''up'', ae_data = [],
     ae_artifact_refs = [], ae_authority = ''observation''\<rparr>"

definition demo_activity :: "ActivityEvent list \<Rightarrow> activity_env" where
  "demo_activity rows = \<lparr>ax_sha = (\<lambda>_. ''sha256:'' @ replicate 64 CHR ''0''), ax_dumps = (\<lambda>e. nat_digits (nat (ae_cursor e))),
     ax_loads = map_of (map (\<lambda>e. (nat_digits (nat (ae_cursor e)), e)) rows),
     ax_redact = (\<lambda>s. if suffix ''token:x'' s then take (length s - 7) s @ ''[redacted]'' else s),
     ax_secret_key = (\<lambda>k. k = ''token''), ax_ellipsis = CHR ''.''\<rparr>"

definition demo_journal :: ActivityJournal where
  "demo_journal = \<lparr>aj_node = ''n'', aj_max_bytes = 4096, aj_max_event_bytes = 1024\<rparr>"

definition empty_partition :: partition where
  "empty_partition = \<lparr>pt_events = None, pt_head = None\<rparr>"

definition demo_publish :: "real \<Rightarrow> partition \<Rightarrow> ActivityEvent result \<times> partition" where
  "demo_publish now = publish (demo_activity [demo_row 1 20, demo_row 2 10]) demo_journal (blank_context ''s'' ''arena'') STATUS ''up'' [] [] now"

definition demo_partition :: partition where
  "demo_partition = snd (demo_publish 10 (snd (demo_publish 20 empty_partition)))"

lemma demo_mk: "mk_ActivityJournal ''n'' 4096 1024 = Inr demo_journal"
  by code_simp

lemma demo_published:
  "demo_publish 20 empty_partition = (Inr (demo_row 1 20), snd (demo_publish 20 empty_partition))"
  "demo_publish 10 (snd (demo_publish 20 empty_partition)) = (Inr (demo_row 2 10), demo_partition)"
proof -
  have "fst (demo_publish 20 empty_partition) = Inr (demo_row 1 20)" by code_simp
  moreover have "fst (demo_publish 10 (snd (demo_publish 20 empty_partition))) = Inr (demo_row 2 10)" by code_simp
  ultimately show "demo_publish 20 empty_partition = (Inr (demo_row 1 20), snd (demo_publish 20 empty_partition))"
    "demo_publish 10 (snd (demo_publish 20 empty_partition)) = (Inr (demo_row 2 10), demo_partition)"
    by (simp_all add: prod_eq_iff demo_partition_def)
qed

lemma demo_faithful: "faithful (demo_activity [demo_row 1 20, demo_row 2 10]) (demo_row 1 20)"
  "faithful (demo_activity [demo_row 1 20, demo_row 2 10]) (demo_row 2 10)"
  by code_simp+

lemma demo_run1: "activity_run (demo_activity [demo_row 1 20, demo_row 2 10]) demo_journal [demo_row 1 20] (snd (demo_publish 20 empty_partition))"
  using activity_run.published [OF activity_run.fresh demo_published(1) [unfolded demo_publish_def empty_partition_def] demo_faithful(1)]
  by (simp add: demo_publish_def empty_partition_def)

lemma demo_run2: "activity_run (demo_activity [demo_row 1 20, demo_row 2 10]) demo_journal [demo_row 1 20, demo_row 2 10] demo_partition"
  using activity_run.published [OF demo_run1 demo_published(2) [unfolded demo_publish_def [of 10]] demo_faithful(2)] by simp

lemma activity_never_corrupts_witness:
  "\<exists>es. read_committed (demo_activity [demo_row 1 20, demo_row 2 10]) demo_partition = Inr es
     \<and> suffix es [demo_row 1 20, demo_row 2 10] \<and> es \<noteq> []"
  using activity_never_corrupts [OF demo_run2 demo_mk] by blast

lemma publish_then_replay_witness:
  "read_after (demo_activity [demo_row 1 20, demo_row 2 10]) 1 50 (blank_context [] []) [] demo_partition = Inr [demo_row 2 10]
     \<and> length (bytes_of demo_partition) \<le> 4096"
proof -
  have "ae_cursor (demo_row 1 20) = 1" by code_simp
  then show ?thesis
    using publish_then_replay [OF demo_run1 demo_mk demo_published(2) [unfolded demo_publish_def [of 10]] demo_faithful(2)] by simp
qed

lemma replay_is_gapless_witness:
  "\<exists>page. read_after (demo_activity [demo_row 1 20, demo_row 2 10]) 0 1 (blank_context [] []) [] demo_partition = Inr page \<and> page = [demo_row 1 20]
     \<and> filter (\<lambda>e. ae_cursor e > 0) [demo_row 1 20, demo_row 2 10] = page @ filter (\<lambda>e. ae_cursor e > ae_cursor (last page)) [demo_row 1 20, demo_row 2 10]"
proof -
  have r: "read_after (demo_activity [demo_row 1 20, demo_row 2 10]) 0 1 (blank_context [] []) [] demo_partition = Inr [demo_row 1 20]"
    "read_committed (demo_activity [demo_row 1 20, demo_row 2 10]) demo_partition = Inr [demo_row 1 20, demo_row 2 10]"
    "increasing [demo_row 1 20, demo_row 2 10]" by code_simp+
  have w: "wanted (blank_context [] []) [] g" for g by (simp add: wanted_def FILTERS_def blank_context_def)
  from replay_is_gapless [OF r] r(1) show ?thesis by (simp only: w list.simps simp_thms) simp
qed

section \<open>Where it fails\<close>


lemma long_summary:
  assumes "ae_schema_version e = 1" and "1 \<le> ae_cursor e" and "is_digest (ae_event_id e)" and "0 < ae_published_at e"
    and "mk_ActivityContext (ActivityContext.truncate e) = Inr c" and "ae_authority e = ''observation''" and "MAX_SUMMARY_CHARS < length (ae_summary e)"
  shows "from_dict X e = Inl (ValueError ''activity summary is not bounded'')"
  using assms by (simp add: from_dict_def mk_ActivityEvent_def)

lemma redacted_summary:
  assumes "n = 4089"
  shows "sanitize_activity_text (demo_activity []) MAX_SUMMARY_CHARS (replicate n CHR ''a'' @ ''token:x'') = replicate n CHR ''a'' @ ''[redacted]''"
proof -
  have "bounded_text (demo_activity []) MAX_SUMMARY_CHARS (replicate n CHR ''a'' @ ''token:x'') = replicate n CHR ''a'' @ ''token:x''"
    using assms by (simp add: bounded_text_def MAX_SUMMARY_CHARS_def filter_replicate)
  then show ?thesis by (simp add: sanitize_activity_text_def demo_activity_def suffix_def)
qed

text \<open>A deviation: a summary is bounded before its secrets are replaced by a longer text, so the journal refuses an event whose summary is
  within the bound.\<close>

theorem redaction_overflows_summary:
  "length (replicate 4089 CHR ''a'' @ ''token:x'') \<le> MAX_SUMMARY_CHARS
   \<and> fst (publish (demo_activity []) demo_journal (blank_context ''s'' ''arena'') STATUS (replicate 4089 CHR ''a'' @ ''token:x'') [] [] 1 empty_partition)
     = Inl (ValueError ''activity summary is not bounded'')"
proof -
  define n :: nat where "n = 4089"
  have l: "last_committed (demo_activity []) demo_journal empty_partition = (Inr None, empty_partition)"
    by (simp add: last_committed_def empty_partition_def)
  have d: "is_digest (row_digest (demo_activity []) e)" for e unfolding row_digest_def demo_activity_def activity_env.simps by code_simp
  have c: "mk_ActivityContext (blank_context ''s'' ''arena'') = Inr (blank_context ''s'' ''arena'')" by code_simp
  have h: "read_head empty_partition = 0" by (simp add: read_head_def empty_partition_def)
  have m: "MAX_SUMMARY_CHARS < n + 10" by (simp add: n_def MAX_SUMMARY_CHARS_def)
  have "fst (prepare (demo_activity []) demo_journal (blank_context ''s'' ''arena'') STATUS (replicate n CHR ''a'' @ ''token:x'') [] [] 1 empty_partition)
    = Inl (ValueError ''activity summary is not bounded'')"
    unfolding prepare_def l prod.case sum.case Let_def redacted_summary [OF n_def]
    by (subst long_summary [where c = "blank_context ''s'' ''arena''"])
      (use c m in \<open>simp_all add: d h ActivityContext.truncate_def ActivityContext.extend_def blank_context_def\<close>)
  then have "fst (publish (demo_activity []) demo_journal (blank_context ''s'' ''arena'') STATUS (replicate n CHR ''a'' @ ''token:x'') [] [] 1 empty_partition)
    = Inl (ValueError ''activity summary is not bounded'')"
    unfolding publish_def by (cases "prepare (demo_activity []) demo_journal (blank_context ''s'' ''arena'') STATUS (replicate n CHR ''a'' @ ''token:x'') [] [] 1 empty_partition") simp
  moreover have "length (replicate n CHR ''a'' @ ''token:x'') \<le> MAX_SUMMARY_CHARS" by (simp add: n_def MAX_SUMMARY_CHARS_def)
  ultimately show ?thesis unfolding n_def by blast
qed

end
