(* ===== verification/Pool.thy ===== *)
theory Pool
  imports Activity Fleet Engineering
begin

text \<open>
  The pool of session panes (\<open>src/skharness/pool.py\<close>) and the policy that scales it
  (\<open>src/skharness/autoscale_policy.py\<close>).

  The harness that starts and archives panes is a parameter over its own state; it and the clocks read that state. A verb
  runs to its end before the next one: what other tasks do while the policy awaits its evidence recorder is part of the
  recorder's effect. Texts of \<open>repr\<close> and \<open>str\<close> are parameters.
\<close>

section \<open>Panes\<close>

record SessionDescriptor =
  sd_repo :: string
  sd_branch :: string
  sd_model :: string
  sd_quality :: string
  sd_mode :: string

record HarnessSession =
  hs_sid :: string
  hs_status :: string

record PoolMember =
  pm_sid :: string
  pm_lane :: string
  pm_repo :: string
  pm_branch :: string
  pm_session :: HarnessSession
  pm_spawned_at :: real
  pm_drained :: bool
  pm_drain_result :: payload

record 'h pool_env =
  pe_spawn :: "SessionDescriptor \<Rightarrow> string \<Rightarrow> 'h \<Rightarrow> HarnessSession result \<times> 'h"
  pe_archive :: "string \<Rightarrow> 'h \<Rightarrow> payload result \<times> 'h"
  pe_clock :: "'h \<Rightarrow> real"
  pe_stamp :: "'h \<Rightarrow> real"
  pe_host :: "'h \<Rightarrow> host"
  pe_activity :: "(activity_env \<times> ActivityJournal) option"
  pe_repr :: "string \<Rightarrow> string"
  pe_str :: "json \<Rightarrow> string"

record 'h pool_state =
  ps_harness :: 'h
  ps_pool :: "(string \<times> PoolMember) list"
  ps_journal :: partition

fun emit_catches :: "exn \<Rightarrow> bool" where
  "emit_catches (ValueError _) = True"
| "emit_catches (TypeError _) = True"
| "emit_catches (PermissionError _) = True"
| "emit_catches (FileNotFoundError _) = True"
| "emit_catches _ = False"

definition emit :: "'h pool_env \<Rightarrow> string \<Rightarrow> ActivityKind \<Rightarrow> string \<Rightarrow> payload \<Rightarrow> 'h pool_state \<Rightarrow> unit result \<times> 'h pool_state" where
  "emit E sid kind summary data S =
     (case pe_activity E of None \<Rightarrow> (Inr (), S)
      | Some (X, J) \<Rightarrow> (case mk_ActivityContext (blank_context sid ''lane1-pool'') of Inl _ \<Rightarrow> (Inr (), S)
        | Inr c \<Rightarrow> (case publish X J c kind summary data [] (pe_stamp E (ps_harness S)) (ps_journal S) of
            (Inl e, P) \<Rightarrow> (if emit_catches e then Inr () else Inl e, S\<lparr>ps_journal := P\<rparr>)
          | (Inr _, P) \<Rightarrow> (Inr (), S\<lparr>ps_journal := P\<rparr>))))"

definition active_members :: "string \<Rightarrow> 'h pool_state \<Rightarrow> PoolMember list" where
  "active_members lane S = filter (\<lambda>m. pm_lane m = lane \<and> \<not> pm_drained m) (vals (ps_pool S))"

definition members :: "string option \<Rightarrow> 'h pool_state \<Rightarrow> PoolMember list" where
  "members lane S = filter (\<lambda>m. lane = None \<or> lane = Some (pm_lane m)) (vals (ps_pool S))"

definition spawn :: "'h pool_env \<Rightarrow> string \<Rightarrow> SessionDescriptor \<Rightarrow> string \<Rightarrow> 'h pool_state \<Rightarrow> PoolMember result \<times> 'h pool_state" where
  "spawn E lane desc prompt S =
     (case pe_spawn E desc prompt (ps_harness S) of
        (Inl e, h) \<Rightarrow> (Inl e, S\<lparr>ps_harness := h\<rparr>)
      | (Inr session, h) \<Rightarrow>
          let member = \<lparr>pm_sid = hs_sid session, pm_lane = lane, pm_repo = sd_repo desc, pm_branch = sd_branch desc, pm_session = session,
                pm_spawned_at = pe_clock E h, pm_drained = False, pm_drain_result = []\<rparr>
          in sbind (emit E (hs_sid session) STATUS
                 (''lane1 pool spawned '' @ pe_repr E (hs_sid session) @ '' in lane '' @ pe_repr E lane)
                 [(''lane'', JStr lane), (''repo'', JStr (sd_repo desc)), (''branch'', JStr (sd_branch desc)),
                  (''quality'', JStr (sd_quality desc)), (''mode'', JStr (sd_mode desc))]
                 (S\<lparr>ps_harness := h, ps_pool := dput (hs_sid session) member (ps_pool S)\<rparr>))
               (\<lambda>_ S. (Inr member, S)))"

definition gone :: "payload \<Rightarrow> bool" where
  "gone r \<longleftrightarrow> truthy (field r ''archived'') \<or> (case map_of r ''reason'' of Some (JStr s) \<Rightarrow> py_in ''no live session'' s | _ \<Rightarrow> False)"

definition drain :: "'h pool_env \<Rightarrow> string \<Rightarrow> 'h pool_state \<Rightarrow> payload result \<times> 'h pool_state" where
  "drain E sid S =
     (case map_of (ps_pool S) sid of
        None \<Rightarrow> (Inr [(''sid'', JStr sid), (''archived'', JBool False),
          (''reason'', JStr ''not a pool-tracked session (drain is scoped to panes this controller spawned)'')], S)
      | Some m \<Rightarrow> (case pe_archive E sid (ps_harness S) of
          (Inl e, h) \<Rightarrow> (Inl e, S\<lparr>ps_harness := h\<rparr>)
        | (Inr r, h) \<Rightarrow>
            sbind (emit E sid (if truthy (field r ''archived'') then STATUS else DISPOSITION)
                (''lane1 pool drained '' @ pe_repr E sid @ '': archived='' @ pe_str E (field r ''archived'')) r
                (S\<lparr>ps_harness := h, ps_pool := dput sid (m\<lparr>pm_drain_result := r, pm_drained := pm_drained m \<or> gone r\<rparr>) (ps_pool S)\<rparr>))
              (\<lambda>_ S. (Inr r, S))))"

text \<open>\<open>await f(x)\<close> for every \<open>x\<close>, with the results.\<close>

fun each :: "('x \<Rightarrow> 's \<Rightarrow> 'a result \<times> 's) \<Rightarrow> 'x list \<Rightarrow> 's \<Rightarrow> 'a list result \<times> 's" where
  "each f [] S = (Inr [], S)"
| "each f (x # xs) S = sbind (f x S) (\<lambda>a S. sbind (each f xs S) (\<lambda>as S. (Inr (a # as), S)))"

definition scale :: "'h pool_env \<Rightarrow> string \<Rightarrow> SessionDescriptor \<Rightarrow> string \<Rightarrow> int \<Rightarrow> 'h pool_state \<Rightarrow> PoolMember list result \<times> 'h pool_state" where
  "scale E lane desc prompt target S =
     (if target < 0 then (Inl (ValueError ''scale target must be >= 0''), S)
      else let active = active_members lane S; n = nat target in
        if length active > n
        then sbind (each (drain E) (map pm_sid (take (length active - n) (sort_key pm_spawned_at active))) S)
               (\<lambda>_ S. (Inr (active_members lane S), S))
        else sbind (each (\<lambda>_. spawn E lane desc prompt) (replicate (n - length active) ()) S)
               (\<lambda>_ S. (Inr (active_members lane S), S)))"

definition destroy :: "'h pool_env \<Rightarrow> string option \<Rightarrow> 'h pool_state \<Rightarrow> payload list result \<times> 'h pool_state" where
  "destroy E lane S = each (drain E) (map pm_sid (filter (\<lambda>m. \<not> pm_drained m \<and> (lane = None \<or> lane = Some (pm_lane m))) (vals (ps_pool S)))) S"

section \<open>The board\<close>

fun hashable :: "json \<Rightarrow> bool" where
  "hashable (JArr _) = False"
| "hashable (JObj _) = False"
| "hashable _ = True"

text \<open>What \<open>frozenset.intersection\<close> iterates over.\<close>

fun iterable :: "json \<Rightarrow> json list result" where
  "iterable (JArr xs) = (if list_all hashable xs then Inr xs else Inl (TypeError ''unhashable type''))"
| "iterable (JStr s) = Inr (map (\<lambda>c. JStr [c]) s)"
| "iterable (JObj d) = Inr (map (JStr \<circ> fst) d)"
| "iterable _ = Inl (TypeError ''object is not iterable'')"

definition card_labels :: "payload \<Rightarrow> json" where
  "card_labels c = (if field c ''labels'' \<noteq> JNull then field c ''labels''
     else if truthy (field c ''tags'') then field c ''tags'' else JArr [])"

definition eligible :: "string list \<Rightarrow> string list \<Rightarrow> payload \<Rightarrow> bool result" where
  "eligible statuses labels c = check [(statuses \<noteq> [] \<and> \<not> hashable (field c ''status''), TypeError ''unhashable type'')]
     (if statuses \<noteq> [] \<and> field c ''status'' \<notin> JStr ` set statuses then Inr False
      else if labels = [] then Inr True
      else rbind (iterable (card_labels c)) (\<lambda>ls. Inr (list_ex (\<lambda>l. JStr l \<in> set ls) labels)))"

fun cards_of :: "json \<Rightarrow> payload list" where
  "cards_of (JArr items) = List.map_filter (\<lambda>i. case i of JObj c \<Rightarrow> Some c | _ \<Rightarrow> None) items"
| "cards_of _ = []"

fun lane_cards :: "json \<Rightarrow> payload list" where
  "lane_cards (JObj cols) = concat (map cards_of (vals cols))"
| "lane_cards _ = []"

text \<open>The runner with the decoding of its output: absent, failed, or a value.\<close>

definition poll_board :: "json result option \<Rightarrow> string list \<Rightarrow> string list \<Rightarrow> payload list result" where
  "poll_board board statuses labels = (case board of None \<Rightarrow> Inr []
     | Some (Inl e) \<Rightarrow> if emit_catches e then Inr [] else Inl e
     | Some (Inr (JObj lanes)) \<Rightarrow> rbind (rmap (\<lambda>c. rbind (eligible statuses labels c) (\<lambda>b. Inr (c, b))) (concat (map lane_cards (vals lanes))))
         (\<lambda>cs. Inr (map fst (filter snd cs)))
     | Some (Inr _) \<Rightarrow> Inr [])"

section \<open>The scaling policy\<close>

definition POLICY_SCHEMA :: string where "POLICY_SCHEMA = ''skharness.autoscale-policy.v1''"

record RollingTarget =
  rt_target :: int
  rt_safe_low :: int
  rt_safe_high :: int
  rt_mode :: string
  rt_hard_ceiling :: int
  rt_schema :: string

definition mk_RollingTarget :: "RollingTarget \<Rightarrow> RollingTarget result" where
  "mk_RollingTarget t = check
     [(rt_schema t \<noteq> POLICY_SCHEMA, ValueError (''unsupported autoscale policy schema: '' @ rt_schema t)),
      (\<not> (0 \<le> rt_safe_low t \<and> rt_safe_low t \<le> rt_target t \<and> rt_target t \<le> rt_safe_high t), ValueError ''safe band must contain the rolling target''),
      (\<not> (1 \<le> rt_hard_ceiling t \<and> rt_hard_ceiling t \<le> HARD_CEIL), ValueError ''hard_ceiling must be within autoscale's ceiling of 12'')]
     (Inr t)"

record ScaleObservation =
  so_lane :: string
  so_current :: int
  so_live_headroom :: int
  so_effective_target :: int
  so_effective_low :: int
  so_effective_high :: int
  so_schema :: string
  so_authority :: string

record ScaleProposal =
  sp_proposal_id :: string
  sp_lane :: string
  sp_parent_card :: string
  sp_target :: int
  sp_direction :: string
  sp_reason :: string
  sp_observation :: ScaleObservation
  sp_schema :: string
  sp_state :: string
  sp_authority :: string

record TeardownPreflight =
  tp_exact_lane :: string
  tp_exact_current :: int
  tp_exact_target :: int
  tp_host_healthy :: bool
  tp_panes_healthy :: bool
  tp_evidence_recorded :: bool
  tp_parent_card_linked :: string
  tp_evidence_ref :: string

definition validate :: "TeardownPreflight \<Rightarrow> ScaleProposal \<Rightarrow> unit result" where
  "validate t p = check
     [(tp_exact_lane t \<noteq> sp_lane p \<or> tp_exact_current t \<noteq> so_current (sp_observation p) \<or> tp_exact_target t \<noteq> sp_target p,
       RuntimeError ''teardown preflight does not name the exact observed target''),
      (\<not> tp_host_healthy t \<or> \<not> tp_panes_healthy t, RuntimeError ''teardown preflight health checks did not pass''),
      (\<not> tp_evidence_recorded t \<or> blank (tp_evidence_ref t), RuntimeError ''teardown preflight evidence was not recorded''),
      (tp_parent_card_linked t \<noteq> sp_parent_card p, RuntimeError ''teardown preflight is not linked to the parent c'')]
     (Inr ())"

text \<open>The policy of one lane, with its digest of an identity.\<close>

record AutoscalePolicy =
  ap_rolling :: RollingTarget
  ap_parent_card :: string
  ap_digest :: "payload \<Rightarrow> string"

definition mk_AutoscalePolicy :: "AutoscalePolicy \<Rightarrow> AutoscalePolicy result" where
  "mk_AutoscalePolicy pol = check [(blank (ap_parent_card pol), ValueError ''parent_card is required'')] (Inr pol)"

definition observe :: "AutoscalePolicy \<Rightarrow> 'h pool_env \<Rightarrow> string \<Rightarrow> 'h pool_state \<Rightarrow> ScaleObservation" where
  "observe pol E lane S =
     (let R = ap_rolling pol; current = int (length (filter (\<lambda>m. \<not> pm_drained m) (members (Some lane) S)));
          headroom = resolve (pe_host E (ps_harness S)) (Some (rt_mode R)) (Some (rt_hard_ceiling R)); target = min (rt_target R) headroom
      in \<lparr>so_lane = lane, so_current = current, so_live_headroom = headroom, so_effective_target = target,
          so_effective_low = min (rt_safe_low R) target, so_effective_high = min (rt_safe_high R) headroom, so_schema = POLICY_SCHEMA,
          so_authority = ''observation''\<rparr>)"

definition observation_json :: "ScaleObservation \<Rightarrow> payload" where
  "observation_json ob = [(''lane'', JStr (so_lane ob)), (''current'', JNum (so_current ob)), (''live_headroom'', JNum (so_live_headroom ob)),
     (''effective_target'', JNum (so_effective_target ob)), (''effective_low'', JNum (so_effective_low ob)),
     (''effective_high'', JNum (so_effective_high ob)), (''schema'', JStr (so_schema ob)), (''authority'', JStr (so_authority ob))]"

definition in_band :: "ScaleObservation \<Rightarrow> bool" where
  "in_band ob \<longleftrightarrow> so_effective_low ob \<le> so_current ob \<and> so_current ob \<le> so_effective_high ob"

definition evaluate_lane :: "AutoscalePolicy \<Rightarrow> 'h pool_env \<Rightarrow> string \<Rightarrow> 'h pool_state \<Rightarrow> ScaleObservation \<times> ScaleProposal option" where
  "evaluate_lane pol E lane S =
     (let ob = observe pol E lane S; direction = (if so_current ob < so_effective_low ob then ''up'' else ''down'') in
      if in_band ob then (ob, None)
      else (ob, Some \<lparr>sp_proposal_id = ''sha256:'' @ ap_digest pol [(''schema'', JStr POLICY_SCHEMA), (''lane'', JStr lane),
              (''parent_card'', JStr (ap_parent_card pol)), (''target'', JNum (so_effective_target ob)), (''direction'', JStr direction),
              (''observation'', JObj (observation_json ob))],
            sp_lane = lane, sp_parent_card = ap_parent_card pol, sp_target = so_effective_target ob, sp_direction = direction,
            sp_reason = ''current='' @ py_str (so_current ob) @ '' outside safe band ['' @ py_str (so_effective_low ob) @ '',''
              @ py_str (so_effective_high ob) @ '']; propose target='' @ py_str (so_effective_target ob) @ '' from live headroom=''
              @ py_str (so_live_headroom ob),
            sp_observation = ob, sp_schema = POLICY_SCHEMA, sp_state = ''parked'', sp_authority = ''proposal''\<rparr>))"

type_synonym 'h recorder = "ScaleProposal \<Rightarrow> TeardownPreflight \<Rightarrow> 'h pool_state \<Rightarrow> unit result \<times> 'h pool_state"

text \<open>The preflight of a scale-down, before the primitive is driven.\<close>

definition prepare_teardown :: "ScaleProposal \<Rightarrow> TeardownPreflight option \<Rightarrow> 'h recorder option \<Rightarrow> 'h pool_state \<Rightarrow> unit result \<times> 'h pool_state" where
  "prepare_teardown p teardown recorder S =
     (if sp_direction p \<noteq> ''down'' then (Inr (), S)
      else case teardown of None \<Rightarrow> (Inl (RuntimeError ''scale-down requires teardown preflight''), S)
        | Some t \<Rightarrow> (case validate t p of Inl e \<Rightarrow> (Inl e, S)
          | Inr _ \<Rightarrow> (case recorder of None \<Rightarrow> (Inl (RuntimeError ''scale-down requires an evidence recorder''), S) | Some rec \<Rightarrow> rec p t S)))"

text \<open>The checks after it.\<close>

definition confirm_teardown :: "ScaleProposal \<Rightarrow> string list \<Rightarrow> PoolMember list \<Rightarrow> 'h pool_state \<Rightarrow> PoolMember list result" where
  "confirm_teardown p before active S =
     (if sp_direction p \<noteq> ''down'' then Inr active
      else let after = map pm_sid active;
               drained = filter (\<lambda>m. pm_sid m \<in> set before - set after) (members (Some (sp_lane p)) S)
        in check [(int (length (remdups after)) \<noteq> sp_target p, RuntimeError ''pool primitive did not reach the exact teardown target''),
             (list_ex (\<lambda>m. \<not> truthy (field (pm_drain_result m) ''archived'') \<or> \<not> truthy (field (pm_drain_result m) ''transcript_path'')) drained,
              RuntimeError ''pool primitive did not report transcript-first archive'')] (Inr active))"

definition execute :: "AutoscalePolicy \<Rightarrow> 'h pool_env \<Rightarrow> (ScaleProposal \<Rightarrow> bool) \<Rightarrow> SessionDescriptor \<Rightarrow> string \<Rightarrow> TeardownPreflight option
    \<Rightarrow> 'h recorder option \<Rightarrow> ScaleProposal \<Rightarrow> 'h pool_state \<Rightarrow> PoolMember list result \<times> 'h pool_state" where
  "execute pol E authorize desc prompt teardown recorder p S =
     sbind (pure_call (check
       [(sp_schema p \<noteq> POLICY_SCHEMA \<or> sp_state p \<noteq> ''parked'', RuntimeError ''only a parked current-schema proposal can execute''),
        (sp_parent_card p \<noteq> ap_parent_card pol, RuntimeError ''proposal parent c does not match this policy''),
        (\<not> authorize p, PermissionError ''autoscale proposal is not authorized''),
        (observe pol E (sp_lane p) S \<noteq> sp_observation p, RuntimeError ''autoscale observation changed; park and propose again'')] (Inr ())) S)
     (\<lambda>_ S. let before = map pm_sid (filter (\<lambda>m. \<not> pm_drained m) (members (Some (sp_lane p)) S)) in
       sbind (prepare_teardown p teardown recorder S) (\<lambda>_ S.
       sbind (scale E (sp_lane p) desc prompt (sp_target p) S) (\<lambda>active S. (confirm_teardown p before active S, S))))"

section \<open>The optional fleet\<close>

record FleetNode =
  fn_name :: string
  fn_phase :: string
  fn_heartbeat_age_s :: "real option"
  fn_cores :: real
  fn_ram_gb :: real

record FleetObservation =
  fo_package_available :: bool
  fo_functional :: bool
  fo_self_node :: string
  fo_nodes :: "FleetNode list"
  fo_blocker :: string
  fo_max_age :: real

record PlacementProposal =
  pp_ref :: string
  pp_node :: "string option"
  pp_reason :: string
  pp_fleet :: FleetObservation

text \<open>The fleet package: absent or unreadable (the name of the exception), or this node's name and the views. The texts of
  the blockers are parameters.\<close>

datatype live_views = No_package string | No_views string | Views string "FleetNode list"

definition fresh :: "real \<Rightarrow> FleetNode \<Rightarrow> bool" where
  "fresh max_age n \<longleftrightarrow> fn_phase n = ''Ready'' \<and> (case fn_heartbeat_age_s n of None \<Rightarrow> False | Some a \<Rightarrow> a \<le> max_age)"

definition observe_live_fleet :: "(string \<Rightarrow> string list \<Rightarrow> string) \<Rightarrow> (real \<Rightarrow> string) \<Rightarrow> real \<Rightarrow> live_views \<Rightarrow> FleetObservation" where
  "observe_live_fleet roster_text age_text max_age v = (case v of
       No_package e \<Rightarrow> \<lparr>fo_package_available = False, fo_functional = False, fo_self_node = ''local'', fo_nodes = [],
         fo_blocker = ''skcapstone.fleet unavailable: '' @ e, fo_max_age = 120\<rparr>
     | No_views e \<Rightarrow> \<lparr>fo_package_available = True, fo_functional = False, fo_self_node = ''unknown'', fo_nodes = [],
         fo_blocker = ''fleet views unavailable: '' @ e, fo_max_age = 120\<rparr>
     | Views me nodes \<Rightarrow>
         let roster = sort (remdups (map fn_name nodes));
             blockers = (if me \<in> set roster then [] else [roster_text me roster])
               @ (if list_ex (fresh max_age) nodes then [] else [''zero Ready nodes with heartbeat <= '' @ age_text max_age @ ''s''])
         in \<lparr>fo_package_available = True, fo_functional = (blockers = []), fo_self_node = me, fo_nodes = nodes,
             fo_blocker = py_join ''; '' blockers, fo_max_age = max_age\<rparr>)"

text \<open>The scheduler sees the fresh views of the nodes that were observed live; it may fail with an exception's name.\<close>

definition propose_horizontal :: "(FleetNode list \<Rightarrow> string \<Rightarrow> (string \<times> string) list \<Rightarrow> string + string option \<times> string) \<Rightarrow> FleetNode list
    \<Rightarrow> string \<Rightarrow> string list \<Rightarrow> FleetObservation \<Rightarrow> PlacementProposal" where
  "propose_horizontal select fresh_views ref tags F =
     (if \<not> fo_functional F
      then \<lparr>pp_ref = ref, pp_node = None, pp_reason = ''horizontal placement blocked: '' @ fo_blocker F, pp_fleet = F\<rparr>
      else let live = map fn_name (filter (fresh (fo_max_age F)) (fo_nodes F)) in
        case select (filter (\<lambda>v. fn_name v \<in> set live) fresh_views) ref (card_selector tags) of
          Inl e \<Rightarrow> \<lparr>pp_ref = ref, pp_node = None, pp_reason = ''horizontal placement blocked: scheduler failed: '' @ e, pp_fleet = F\<rparr>
        | Inr (node, reason) \<Rightarrow> \<lparr>pp_ref = ref, pp_node = node, pp_reason = reason, pp_fleet = F\<rparr>)"

end
