(* ===== verification/PoolRuns.thy ===== *)
theory PoolRuns
  imports Pool ActivityRuns
begin

text \<open>
  What the session pool and its scaling policy of \<open>Pool\<close> guarantee: a lane reaches the target that was asked last and no other
  lane is touched, nothing is scaled without authority, and a policy that has acted is content. Where they fail: the
  preflight of a teardown can be out of date, and an observation can fail the verb it observes.
\<close>

section \<open>The pool\<close>

definition pool_ok :: "'h pool_state \<Rightarrow> bool" where
  "pool_ok S \<longleftrightarrow> wf_dict (ps_pool S) \<and> list_all (\<lambda>(k, m). pm_sid m = k) (ps_pool S)"

text \<open>What is relied on of a harness: it does not reuse a session id.\<close>

definition issues_fresh :: "'h pool_env \<Rightarrow> ('h \<Rightarrow> string set) \<Rightarrow> bool" where
  "issues_fresh E issued \<longleftrightarrow>
     (\<forall>d p h s h'. pe_spawn E d p h = (Inr s, h') \<longrightarrow> hs_sid s \<notin> issued h \<and> hs_sid s \<in> issued h')
     \<and> (\<forall>d p h r h'. pe_spawn E d p h = (r, h') \<longrightarrow> issued h \<subseteq> issued h')
     \<and> (\<forall>sid h r h'. pe_archive E sid h = (r, h') \<longrightarrow> issued h \<subseteq> issued h')"

definition pool_inv :: "('h \<Rightarrow> string set) \<Rightarrow> 'h pool_state \<Rightarrow> bool" where
  "pool_inv issued S \<longleftrightarrow> pool_ok S \<and> set (keys (ps_pool S)) \<subseteq> issued (ps_harness S)"

definition elsewhere :: "string \<Rightarrow> 'h pool_state \<Rightarrow> PoolMember list" where
  "elsewhere lane S = filter (\<lambda>m. pm_lane m \<noteq> lane) (vals (ps_pool S))"

lemma emit_pool: "emit E sid k s d S = (r, S') \<Longrightarrow> ps_pool S' = ps_pool S \<and> ps_harness S' = ps_harness S"
  by (auto simp: emit_def split: option.splits sum.splits prod.splits if_splits)

lemma emit_then:
  assumes "sbind (emit E sid k s d T) (\<lambda>_ S. (Inr a, S)) = (r, S')"
  shows "ps_pool S' = ps_pool T \<and> ps_harness S' = ps_harness T \<and> (\<forall>v. r = Inr v \<longrightarrow> v = a)"
proof -
  obtain q T' where q: "emit E sid k s d T = (q, T')" by fastforce
  then show ?thesis using assms emit_pool [OF q] by (cases q) auto
qed

lemma spawn_pool:
  assumes "spawn E lane d p S = (r, S')"
  shows "(\<exists>e h. pe_spawn E d p (ps_harness S) = (Inl e, h) \<and> r = Inl e \<and> ps_pool S' = ps_pool S \<and> ps_harness S' = h)
    \<or> (\<exists>s h m. pe_spawn E d p (ps_harness S) = (Inr s, h) \<and> ps_harness S' = h \<and> ps_pool S' = dput (hs_sid s) m (ps_pool S)
        \<and> pm_sid m = hs_sid s \<and> pm_lane m = lane \<and> \<not> pm_drained m)"
proof -
  obtain x h where x: "pe_spawn E d p (ps_harness S) = (x, h)" by fastforce
  show ?thesis
  proof (cases x)
    case (Inr s)
    note b = assms [unfolded spawn_def Let_def x Inr prod.case sum.case]
    show ?thesis using emit_then [OF b] x Inr by (intro disjI2 exI conjI) (simp_all, auto)
  qed (use assms x in \<open>auto simp: spawn_def\<close>)
qed

lemma drain_pool:
  assumes "drain E sid S = (r, S')"
  shows "(ps_pool S' = ps_pool S \<and> (map_of (ps_pool S) sid = None \<longrightarrow> ps_harness S' = ps_harness S)
       \<and> (\<forall>m. map_of (ps_pool S) sid = Some m \<longrightarrow> (\<exists>e. pe_archive E sid (ps_harness S) = (Inl e, ps_harness S') \<and> r = Inl e)))
    \<or> (\<exists>m a h. map_of (ps_pool S) sid = Some m \<and> pe_archive E sid (ps_harness S) = (Inr a, h) \<and> ps_harness S' = h
       \<and> ps_pool S' = dput sid (m\<lparr>pm_drain_result := a, pm_drained := pm_drained m \<or> gone a\<rparr>) (ps_pool S) \<and> (\<forall>v. r = Inr v \<longrightarrow> v = a))"
proof (cases "map_of (ps_pool S) sid")
  case (Some m)
  obtain x h where x: "pe_archive E sid (ps_harness S) = (x, h)" by fastforce
  show ?thesis
  proof (cases x)
    case (Inr a)
    note b = assms [unfolded drain_def Some x Inr option.case prod.case sum.case]
    show ?thesis using emit_then [OF b] x Inr Some by (intro disjI2 exI conjI) (simp_all, auto)
  qed (use assms x Some in \<open>auto simp: drain_def\<close>)
qed (use assms in \<open>auto simp: drain_def\<close>)

section \<open>One verb\<close>

lemma filter_dput: "wf_dict d \<Longrightarrow> map_of d k = Some m \<Longrightarrow> \<not> Q m \<Longrightarrow> \<not> Q v \<Longrightarrow> filter Q (vals (dput k v d)) = filter Q (vals d)"
  by (induction d) (auto simp: wf_dict_def split: if_splits)

lemma count_dput: "wf_dict d \<Longrightarrow> map_of d k = Some m \<Longrightarrow>
    length (filter Q (vals (dput k v d))) + (if Q m then 1 else 0) = length (filter Q (vals d)) + (if Q v then 1 else 0)"
  by (induction d) (auto simp: wf_dict_def split: if_splits)

lemma set_dput_new: "map_of d k = None \<Longrightarrow> set (dput k v d) = insert (k, v) (set d)"
  by (simp add: dput_fresh)

lemma list_all_dput: "wf_dict d \<Longrightarrow> list_all (\<lambda>(k, m). pm_sid m = k) d \<Longrightarrow> pm_sid v = k \<Longrightarrow> list_all (\<lambda>(k, m). pm_sid m = k) (dput k v d)"
  by (induction d) (auto simp: wf_dict_def)

lemma member_sid: "pool_ok S \<Longrightarrow> map_of (ps_pool S) sid = Some m \<Longrightarrow> pm_sid m = sid"
  by (auto simp: pool_ok_def list_all_iff dest!: map_of_SomeD)

lemma spawn_step:
  assumes "issues_fresh E issued" and "pool_inv issued S" and "spawn E lane d p S = (r, S')"
  shows "pool_inv issued S' \<and> elsewhere lane S' = elsewhere lane S
    \<and> (\<forall>m. r = Inr m \<longrightarrow> length (active_members lane S') = length (active_members lane S) + 1)"
proof (cases "\<exists>e h. pe_spawn E d p (ps_harness S) = (Inl e, h)")
  case True
  then obtain e h where h: "pe_spawn E d p (ps_harness S) = (Inl e, h)" by blast
  with spawn_pool [OF assms(3)] have s: "r = Inl e" "ps_pool S' = ps_pool S" "ps_harness S' = h" by auto
  moreover have "issued (ps_harness S) \<subseteq> issued h" using assms(1) h by (auto simp: issues_fresh_def)
  ultimately show ?thesis using assms(2) by (auto simp: pool_inv_def pool_ok_def elsewhere_def)
next
  case False
  then obtain s h m where s: "pe_spawn E d p (ps_harness S) = (Inr s, h)" "ps_harness S' = h" "ps_pool S' = dput (hs_sid s) m (ps_pool S)"
    "pm_sid m = hs_sid s" "pm_lane m = lane" "\<not> pm_drained m" using spawn_pool [OF assms(3)] by auto
  have f: "hs_sid s \<notin> issued (ps_harness S)" "hs_sid s \<in> issued h" "issued (ps_harness S) \<subseteq> issued h"
    using assms(1) s(1) unfolding issues_fresh_def by blast+
  then have n: "map_of (ps_pool S) (hs_sid s) = None" using assms(2) by (auto simp: pool_inv_def map_of_eq_None_iff)
  have "ps_pool S' = ps_pool S @ [(hs_sid s, m)]" using s(3) n by (simp add: dput_fresh)
  moreover have "wf_dict (ps_pool S')" using assms(2) s(3) by (simp add: pool_inv_def pool_ok_def)
  ultimately show ?thesis using assms(2) s f by (auto simp: pool_inv_def pool_ok_def elsewhere_def active_members_def)
qed

lemma drain_step:
  assumes "issues_fresh E issued" and "pool_inv issued S" and "drain E sid S = (r, S')" and "map_of (ps_pool S) sid = Some m" and "pm_lane m = lane"
  shows "pool_inv issued S' \<and> elsewhere lane S' = elsewhere lane S \<and> keys (ps_pool S') = keys (ps_pool S)
    \<and> (\<forall>k a. map_of (ps_pool S) k = Some a \<longrightarrow> (\<exists>b. map_of (ps_pool S') k = Some b \<and> pm_lane b = pm_lane a))
    \<and> length (active_members lane S) \<le> length (active_members lane S') + 1"
proof -
  have wf: "wf_dict (ps_pool S)" using assms(2) by (simp add: pool_inv_def pool_ok_def)
  show ?thesis
  proof (cases "\<exists>e h. pe_archive E sid (ps_harness S) = (Inl e, h)")
    case True
    with drain_pool [OF assms(3)] assms(4) obtain e where "pe_archive E sid (ps_harness S) = (Inl e, ps_harness S')" "ps_pool S' = ps_pool S" by auto
    moreover from this(1) have "issued (ps_harness S) \<subseteq> issued (ps_harness S')" using assms(1) by (auto simp: issues_fresh_def)
    ultimately show ?thesis using assms(2) by (auto simp: pool_inv_def pool_ok_def elsewhere_def active_members_def)
  next
    case False
    then obtain a where a: "pe_archive E sid (ps_harness S) = (Inr a, ps_harness S')"
      "ps_pool S' = dput sid (m\<lparr>pm_drain_result := a, pm_drained := pm_drained m \<or> gone a\<rparr>) (ps_pool S)"
      using drain_pool [OF assms(3)] assms(4) by (cases "pe_archive E sid (ps_harness S)") auto
    let ?m = "m\<lparr>pm_drain_result := a, pm_drained := pm_drained m \<or> gone a\<rparr>"
    have i: "issued (ps_harness S) \<subseteq> issued (ps_harness S')" using assms(1) a(1) by (auto simp: issues_fresh_def)
    have "sid \<in> set (keys (ps_pool S))" using map_of_SomeD [OF assms(4)] by force
    then have k: "keys (ps_pool S') = keys (ps_pool S)" by (simp add: a(2) AList.update_keys)
    have "pm_sid ?m = sid" using assms(2) member_sid [OF _ assms(4)] by (simp add: pool_inv_def)
    from list_all_dput [OF wf _ this] have "list_all (\<lambda>(k, m). pm_sid m = k) (ps_pool S')" using assms(2) by (simp add: a(2) pool_inv_def pool_ok_def)
    then have "pool_inv issued S'" using assms(2) a(2) i k by (auto simp: pool_inv_def pool_ok_def)
    moreover have "elsewhere lane S' = elsewhere lane S" unfolding elsewhere_def a(2) by (rule filter_dput [OF wf assms(4)]) (simp_all add: assms(5))
    moreover have "length (active_members lane S) \<le> length (active_members lane S') + 1"
      using count_dput [OF wf assms(4), of "\<lambda>m. pm_lane m = lane \<and> \<not> pm_drained m" ?m] by (simp add: active_members_def a(2) split: if_splits)
    ultimately show ?thesis using k a(2) assms(4) by auto
  qed
qed

section \<open>Scaling a lane\<close>

lemma spawn_all:
  assumes "issues_fresh E issued" and "pool_inv issued S" and "each (\<lambda>_. spawn E lane d p) us S = (r, S')"
  shows "pool_inv issued S' \<and> elsewhere lane S' = elsewhere lane S
    \<and> (\<forall>ms. r = Inr ms \<longrightarrow> length (active_members lane S') = length (active_members lane S) + length us)"
  using assms(2,3)
proof (induction us arbitrary: S r S')
  case (Cons u us)
  obtain q T where q: "spawn E lane d p S = (q, T)" by fastforce
  note T = spawn_step [OF assms(1) Cons.prems(1) q]
  obtain q' T' where q': "each (\<lambda>_. spawn E lane d p) us T = (q', T')" by fastforce
  show ?case
  proof (cases q)
    case (Inl e)
    then have "r = Inl e" "S' = T" using Cons.prems(2) q by simp_all
    then show ?thesis using T by simp
  next
    case (Inr a)
    have "pool_inv issued T" using T by blast
    from Cons.IH [OF this q'] show ?thesis using Cons.prems(2) q q' Inr T by (cases q') auto
  qed
qed simp

lemma drain_all:
  assumes "issues_fresh E issued" and "pool_inv issued S" and "each (drain E) sids S = (r, S')"
    and "list_all (\<lambda>sid. \<exists>m. map_of (ps_pool S) sid = Some m \<and> pm_lane m = lane) sids"
  shows "pool_inv issued S' \<and> elsewhere lane S' = elsewhere lane S
    \<and> length (active_members lane S) \<le> length (active_members lane S') + length sids"
  using assms(2,3,4)
proof (induction sids arbitrary: S r S')
  case (Cons sid sids)
  obtain q T where q: "drain E sid S = (q, T)" by fastforce
  obtain m where m: "map_of (ps_pool S) sid = Some m" "pm_lane m = lane" using Cons.prems(3) by auto
  note T = drain_step [OF assms(1) Cons.prems(1) q m]
  obtain q' T' where q': "each (drain E) sids T = (q', T')" by fastforce
  show ?case
  proof (cases q)
    case (Inl e)
    then have "r = Inl e" "S' = T" using Cons.prems(2) q by simp_all
    then show ?thesis using T by simp
  next
    case (Inr a)
    have "list_all (\<lambda>sid. \<exists>m. map_of (ps_pool T) sid = Some m \<and> pm_lane m = lane) sids"
      using Cons.prems(3) T by (fastforce simp: list_all_iff)
    from Cons.IH [OF _ q' this] show ?thesis using Cons.prems(2) q q' Inr T by (cases q') auto
  qed
qed simp

lemma active_in_pool:
  assumes "pool_ok S" and "m \<in> set (active_members lane S)"
  shows "map_of (ps_pool S) (pm_sid m) = Some m \<and> pm_lane m = lane"
proof -
  obtain k where k: "(k, m) \<in> set (ps_pool S)" "pm_lane m = lane" using assms(2) by (auto simp: active_members_def)
  then have "pm_sid m = k" using assms(1) by (auto simp: pool_ok_def list_all_iff)
  then show ?thesis using k assms(1) by (simp add: pool_ok_def wf_dict_def)
qed

lemma scale_step:
  assumes "issues_fresh E issued" and "pool_inv issued S" and "scale E lane d p target S = (r, S')"
  shows "pool_inv issued S' \<and> elsewhere lane S' = elsewhere lane S
    \<and> (\<forall>ms. r = Inr ms \<longrightarrow> ms = active_members lane S' \<and> 0 \<le> target \<and> target \<le> int (length ms)
        \<and> (int (length (active_members lane S)) \<le> target \<longrightarrow> int (length ms) = target))"
proof (cases "target < 0")
  case False
  let ?active = "active_members lane S" and ?n = "nat target"
  show ?thesis
  proof (cases "length ?active > ?n")
    case True
    let ?sids = "map pm_sid (take (length ?active - ?n) (sort_key pm_spawned_at ?active))"
    obtain q T where q: "each (drain E) ?sids S = (q, T)" by fastforce
    have "set (take (length ?active - ?n) (sort_key pm_spawned_at ?active)) \<subseteq> set ?active"
      by (rule order_trans [OF set_take_subset]) simp
    then have "map_of (ps_pool S) (pm_sid m) = Some m \<and> pm_lane m = lane"
      if "m \<in> set (take (length ?active - ?n) (sort_key pm_spawned_at ?active))" for m
      using active_in_pool that assms(2) unfolding pool_inv_def by blast
    then have l: "list_all (\<lambda>sid. \<exists>m. map_of (ps_pool S) sid = Some m \<and> pm_lane m = lane) ?sids" by (auto simp: list_all_iff)
    from drain_all [OF assms(1,2) q l] show ?thesis using assms(3) q True False by (cases q) (auto simp: scale_def Let_def)
  next
    case below: False
    obtain q T where q: "each (\<lambda>_. spawn E lane d p) (replicate (?n - length ?active) ()) S = (q, T)" by fastforce
    from spawn_all [OF assms(1,2) q] show ?thesis using assms(3) q below False by (cases q) (auto simp: scale_def Let_def)
  qed
qed (use assms in \<open>auto simp: scale_def\<close>)

lemma active_distinct: "pool_ok S \<Longrightarrow> distinct (map pm_sid (active_members lane S))"
proof -
  assume ok: "pool_ok S"
  have "list_all (\<lambda>(k, m). pm_sid m = k) d \<Longrightarrow> map pm_sid (vals d) = keys d" for d by (induction d) auto
  then have "map pm_sid (vals (ps_pool S)) = keys (ps_pool S)" using ok unfolding pool_ok_def by blast
  moreover have "distinct (keys (ps_pool S))" using ok by (simp add: pool_ok_def wf_dict_def)
  ultimately have "distinct (map pm_sid (vals (ps_pool S)))" by (simp only:)
  then show ?thesis unfolding active_members_def by (rule distinct_map_filter)
qed

text \<open>Scaling a lane touches no pane of another lane, whether it returns or raises; it never goes below the target, and where panes had to
  be started it ends exactly there.\<close>

theorem scale_stays_in_lane:
  assumes "issues_fresh E issued" and "pool_inv issued S" and "scale E lane d p target S = (r, S')"
  shows "pool_inv issued S' \<and> elsewhere lane S' = elsewhere lane S
    \<and> (\<forall>ms. r = Inr ms \<longrightarrow> ms = active_members lane S' \<and> 0 \<le> target \<and> target \<le> int (length ms)
        \<and> (int (length (active_members lane S)) \<le> target \<longrightarrow> int (length ms) = target))"
  by (rule scale_step [OF assms])

section \<open>Lanes\<close>

text \<open>A list of requests is carried out one after the other.\<close>

fun chain :: "('x \<Rightarrow> 's \<Rightarrow> 's \<Rightarrow> bool) \<Rightarrow> 'x list \<Rightarrow> 's \<Rightarrow> 's \<Rightarrow> bool" where
  "chain f [] S S' \<longleftrightarrow> S' = S"
| "chain f (x # xs) S S' \<longleftrightarrow> (\<exists>T. f x S T \<and> chain f xs T S')"

text \<open>What an operator relies on: a lane that was scaled has the size that was asked, the others keep theirs.\<close>

locale lane_scaler =
  fixes ok :: "'s \<Rightarrow> bool"
    and size_of :: "string \<Rightarrow> 's \<Rightarrow> int"
    and scaled :: "string \<times> int \<Rightarrow> 's \<Rightarrow> 's \<Rightarrow> bool"
  assumes exact: "ok S \<Longrightarrow> scaled (lane, t) S S' \<Longrightarrow> size_of lane S' = t"
    and apart: "ok S \<Longrightarrow> scaled (lane, t) S S' \<Longrightarrow> other \<noteq> lane \<Longrightarrow> size_of other S' = size_of other S"
    and keeps: "ok S \<Longrightarrow> scaled (lane, t) S S' \<Longrightarrow> ok S'"
begin

lemma chain_sizes: "chain scaled reqs S S' \<Longrightarrow> ok S \<Longrightarrow>
    size_of lane S' = (case map_of (rev reqs) lane of None \<Rightarrow> size_of lane S | Some t \<Rightarrow> t)"
proof (induction reqs arbitrary: S)
  case (Cons r reqs)
  obtain l t where r: "r = (l, t)" by (cases r)
  with Cons.prems obtain T where T: "scaled (l, t) S T" "chain scaled reqs T S'" by auto
  have "size_of lane S' = (case map_of (rev reqs) lane of None \<Rightarrow> size_of lane T | Some t \<Rightarrow> t)"
    using Cons.IH [OF T(2)] keeps [OF Cons.prems(2) T(1)] by simp
  moreover have "size_of lane T = (if lane = l then t else size_of lane S)" using exact [OF Cons.prems(2) T(1)] apart [OF Cons.prems(2) T(1)] by simp
  ultimately show ?case by (cases "map_of (rev reqs) lane") (simp_all add: r map_add_def)
qed simp

end

text \<open>A call that returns with the lane at its target.\<close>

definition lane_size :: "string \<Rightarrow> 'h pool_state \<Rightarrow> int" where
  "lane_size lane S = int (length (active_members lane S))"

lemma lane_size_elsewhere:
  fixes S S' :: "'h pool_state"
  assumes "other \<noteq> lane" and "elsewhere lane S' = elsewhere lane S"
  shows "lane_size other S' = lane_size other S"
proof -
  have "active_members other T = filter (\<lambda>m. pm_lane m = other \<and> \<not> pm_drained m) (elsewhere lane T)" for T :: "'h pool_state"
    unfolding active_members_def elsewhere_def filter_filter by (rule filter_cong) (use assms(1) in auto)
  then show ?thesis using assms(2) by (simp add: lane_size_def)
qed

text \<open>The pool with its harness; a request is made with any descriptor and prompt.\<close>

definition lane_ok :: "'h pool_env \<times> ('h \<Rightarrow> string set) \<times> 'h pool_state \<Rightarrow> bool" where
  "lane_ok = (\<lambda>(E, issued, S). issues_fresh E issued \<and> pool_inv issued S)"

definition lane_scaled :: "string \<times> int \<Rightarrow> 'h pool_env \<times> ('h \<Rightarrow> string set) \<times> 'h pool_state \<Rightarrow> 'h pool_env \<times> ('h \<Rightarrow> string set) \<times> 'h pool_state \<Rightarrow> bool" where
  "lane_scaled = (\<lambda>(lane, t) (E, i, S) (E', i', S'). E' = E \<and> i' = i \<and> (\<exists>d p ms. scale E lane d p t S = (Inr ms, S') \<and> int (length ms) = t))"

interpretation lanes: lane_scaler lane_ok "\<lambda>lane (E, i, S). lane_size lane S" lane_scaled
proof
  fix C C' :: "'h pool_env \<times> ('h \<Rightarrow> string set) \<times> 'h pool_state" and lane other t
  assume "lane_ok C" and "lane_scaled (lane, t) C C'"
  then obtain E i S S' d p ms where C: "C = (E, i, S)" "C' = (E, i, S')" and ok: "issues_fresh E i" "pool_inv i S"
    and s: "scale E lane d p t S = (Inr ms, S')" "int (length ms) = t" by (auto simp: lane_ok_def lane_scaled_def)
  note r = scale_step [OF ok s(1)]
  show "(case C' of (E, i, S) \<Rightarrow> lane_size lane S) = t" using r s(2) by (simp add: C lane_size_def)
  show "lane_ok C'" using r ok(1) by (simp add: C lane_ok_def)
  show "other \<noteq> lane \<Longrightarrow> (case C' of (E, i, S) \<Rightarrow> lane_size other S) = (case C of (E, i, S) \<Rightarrow> lane_size other S)"
    using r lane_size_elsewhere [of other lane S' S] by (simp add: C)
qed

text \<open>C24. After any sequence of scalings that reached their targets, in any lanes, every lane has the size that was asked of it last, and a lane that
  nobody scaled has the size it had.\<close>

theorem lanes_hold_their_targets:
  assumes "issues_fresh E issued" and "pool_inv issued S" and "chain lane_scaled reqs (E, issued, S) (E, issued, S')"
  shows "lane_size lane S' = (case map_of (rev reqs) lane of None \<Rightarrow> lane_size lane S | Some t \<Rightarrow> t)"
  using lanes.chain_sizes [OF assms(3), of lane] assms(1,2) by (simp add: lane_ok_def split: option.splits)

section \<open>The policy\<close>

lemma execute_cases:
  assumes "execute pol E authorize desc prompt teardown recorder p S = (r, S')"
  obtains e where "r = Inl e" "S' = S"
    "sp_schema p = POLICY_SCHEMA \<and> sp_state p = ''parked'' \<and> sp_parent_card p = ap_parent_card pol \<and> authorize p
       \<and> observe pol E (sp_lane p) S = sp_observation p \<longrightarrow> prepare_teardown p teardown recorder S = (Inl e, S)"
  | e T where "prepare_teardown p teardown recorder S = (Inl e, T)" "r = Inl e" "S' = T"
      "sp_schema p = POLICY_SCHEMA" "sp_state p = ''parked''" "sp_parent_card p = ap_parent_card pol" "authorize p"
      "observe pol E (sp_lane p) S = sp_observation p"
  | T q where "prepare_teardown p teardown recorder S = (Inr (), T)" "scale E (sp_lane p) desc prompt (sp_target p) T = (q, S')"
      "r = rbind q (\<lambda>active. confirm_teardown p (map pm_sid (filter (\<lambda>m. \<not> pm_drained m) (members (Some (sp_lane p)) S))) active S')"
      "sp_schema p = POLICY_SCHEMA" "sp_state p = ''parked''" "sp_parent_card p = ap_parent_card pol" "authorize p"
      "observe pol E (sp_lane p) S = sp_observation p"
proof -
  let ?go = "sp_schema p = POLICY_SCHEMA \<and> sp_state p = ''parked'' \<and> sp_parent_card p = ap_parent_card pol \<and> authorize p
       \<and> observe pol E (sp_lane p) S = sp_observation p"
  obtain a T where t: "prepare_teardown p teardown recorder S = (a, T)" by fastforce
  obtain q U where q: "scale E (sp_lane p) desc prompt (sp_target p) T = (q, U)" by fastforce
  show ?thesis
  proof (cases ?go)
    case False
    then have "\<exists>e. execute pol E authorize desc prompt teardown recorder p S = (Inl e, S)" by (auto simp: execute_def pure_call_def)
    with assms False that(1) show ?thesis by (auto simp del: execute_def)
  next
    case True
    then have x: "execute pol E authorize desc prompt teardown recorder p S = sbind (a, T) (\<lambda>_ S''. sbind (scale E (sp_lane p) desc prompt (sp_target p) S'')
        (\<lambda>active S'. (confirm_teardown p (map pm_sid (filter (\<lambda>m. \<not> pm_drained m) (members (Some (sp_lane p)) S))) active S', S')))"
      by (simp add: execute_def pure_call_def Let_def t)
    show ?thesis
    proof (cases a)
      case (Inl e)
      then show ?thesis using x assms t True that(2) by auto
    next
      case (Inr u)
      then show ?thesis using x assms t q True that(3) [of T q] by (cases q) auto
    qed
  qed
qed

lemma validate_Inr: "validate t p = Inr () \<Longrightarrow> tp_exact_lane t = sp_lane p
        \<and> tp_exact_current t = so_current (sp_observation p) \<and> tp_exact_target t = sp_target p \<and> tp_host_healthy t \<and> tp_panes_healthy t
        \<and> tp_evidence_recorded t \<and> \<not> blank (tp_evidence_ref t) \<and> tp_parent_card_linked t = sp_parent_card p"
  by (simp add: validate_def)

lemma teardown_prepared:
  assumes "prepare_teardown p teardown recorder S = (a, T)" and "T \<noteq> S \<or> a = Inr ()" and "sp_direction p = ''down''"
  shows "recorder \<noteq> None \<and> (\<exists>t. teardown = Some t \<and> validate t p = Inr ())"
proof (cases teardown)
  case (Some t)
  then show ?thesis using assms by (cases "validate t p"; cases recorder) (simp_all add: prepare_teardown_def)
qed (use assms in \<open>simp add: prepare_teardown_def\<close>)

lemma execute_Inr:
  assumes "execute pol E authorize desc prompt teardown recorder p S = (Inr ms, S')"
  shows "\<exists>T act. prepare_teardown p teardown recorder S = (Inr (), T) \<and> scale E (sp_lane p) desc prompt (sp_target p) T = (Inr act, S')
    \<and> confirm_teardown p (map pm_sid (filter (\<lambda>m. \<not> pm_drained m) (members (Some (sp_lane p)) S))) act S' = Inr ms"
proof (cases rule: execute_cases [OF assms])
  case (3 T q)
  then show ?thesis by (cases q) auto
qed auto

text \<open>C22. No pane is started or stopped by the policy without authority: if executing a proposal returned or changed anything, then the proposal was parked
  under the current schema and this policy's parent card, its authorization was granted, and the lane was observed to be
  as the proposal says; a scale-down also had a preflight that names the lane, its size and its target, healthy, with
  recorded evidence and the parent card, and a recorder.\<close>

theorem execute_is_authorized:
  assumes "execute pol E authorize desc prompt teardown recorder p S = (r, S')" and "S' \<noteq> S \<or> (\<exists>ms. r = Inr ms)"
  shows "authorize p \<and> sp_schema p = POLICY_SCHEMA \<and> sp_state p = ''parked'' \<and> sp_parent_card p = ap_parent_card pol
    \<and> observe pol E (sp_lane p) S = sp_observation p
    \<and> (sp_direction p = ''down'' \<longrightarrow> recorder \<noteq> None \<and> (\<exists>t. teardown = Some t \<and> tp_exact_lane t = sp_lane p
        \<and> tp_exact_current t = so_current (sp_observation p) \<and> tp_exact_target t = sp_target p \<and> tp_host_healthy t \<and> tp_panes_healthy t
        \<and> tp_evidence_recorded t \<and> \<not> blank (tp_evidence_ref t) \<and> tp_parent_card_linked t = sp_parent_card p))"
proof -
  note down = teardown_prepared [of p teardown recorder S] and fields = validate_Inr [of _ p]
  show ?thesis
  proof (cases rule: execute_cases [OF assms(1)])
    case (2 e T)
    then have "T \<noteq> S" using assms(2) by simp
    then show ?thesis using down [OF 2(1)] fields 2(4-8) by blast
  next
    case (3 T q)
    then show ?thesis using down [OF 3(1)] fields by blast
  qed (use assms(2) in simp)
qed

lemma evaluate_parked:
  assumes "evaluate_lane pol E lane S = (ob, Some p)"
  shows "ob = observe pol E lane S \<and> sp_lane p = lane \<and> sp_target p = so_effective_target ob
    \<and> (sp_direction p = ''down'' \<or> so_current ob < so_effective_low ob \<and> sp_direction p = ''up'')"
  using assms by (auto simp: evaluate_lane_def Let_def split: if_splits)

lemma observed_current: "so_current (observe pol E lane S) = lane_size lane S"
  by (auto simp: observe_def Let_def lane_size_def active_members_def members_def intro!: arg_cong [where f = length] filter_cong)

lemma observed_band: "so_effective_low (observe pol E lane S) \<le> so_effective_target (observe pol E lane S)"
  "rt_target (ap_rolling pol) \<le> rt_safe_high (ap_rolling pol) \<Longrightarrow> so_effective_target (observe pol E lane S) \<le> so_effective_high (observe pol E lane S)"
  by (simp_all only: observe_def Let_def ScaleObservation.select_convs min.cobounded2 min.mono order_refl)

text \<open>C23. A policy that has acted is content: after a proposal of its own was executed on an unchanged host, the lane is within the safe band and
  the policy proposes nothing.\<close>

theorem policy_settles:
  assumes "mk_RollingTarget (ap_rolling pol) = Inr R" and "issues_fresh E issued" and "pool_inv issued S"
    and "evaluate_lane pol E lane S = (ob, Some p)"
    and "execute pol E authorize desc prompt teardown recorder p S = (Inr ms, S')"
    and "pe_host E (ps_harness S') = pe_host E (ps_harness S)"
    and "\<And>rec t T a T'. recorder = Some rec \<Longrightarrow> rec p t T = (a, T') \<Longrightarrow> pool_inv issued T \<Longrightarrow> pool_inv issued T'"
  shows "lane_size lane S' = sp_target p \<and> snd (evaluate_lane pol E lane S') = None"
proof -
  note p = evaluate_parked [OF assms(4)]
  have R: "0 \<le> rt_safe_low (ap_rolling pol)" "rt_safe_low (ap_rolling pol) \<le> rt_target (ap_rolling pol)"
    "rt_target (ap_rolling pol) \<le> rt_safe_high (ap_rolling pol)" using assms(1) by (auto simp: mk_RollingTarget_def)
  obtain T act where T: "prepare_teardown p teardown recorder S = (Inr (), T)" "scale E lane desc prompt (sp_target p) T = (Inr act, S')"
    "confirm_teardown p (map pm_sid (filter (\<lambda>m. \<not> pm_drained m) (members (Some lane) S))) act S' = Inr ms"
    using execute_Inr [OF assms(5)] p by blast
  have inv: "pool_inv issued T" using T(1) assms(3,7) by (auto simp: prepare_teardown_def split: if_splits option.splits sum.splits)
  note s = scale_step [OF assms(2) inv T(2)]
  have size: "lane_size lane S' = sp_target p"
  proof (cases "sp_direction p = ''down''")
    case True
    have "distinct (map pm_sid (active_members lane S'))" using s active_distinct unfolding pool_inv_def by blast
    then show ?thesis using T(3) True s by (auto simp: confirm_teardown_def Let_def lane_size_def distinct_remdups_id)
  next
    case False
    then have TS: "T = S" using T(1) by (simp add: prepare_teardown_def)
    have "so_current ob < so_effective_low ob" "so_effective_low ob \<le> sp_target p" using False p observed_band(1) by metis+
    moreover have "int (length (active_members lane T)) = so_current ob" using p observed_current TS unfolding lane_size_def by metis
    ultimately have "int (length (active_members lane T)) \<le> sp_target p" by linarith
    moreover have "act = active_members lane S' \<and> (int (length (active_members lane T)) \<le> sp_target p \<longrightarrow> int (length act) = sp_target p)"
      using s by blast
    ultimately show ?thesis unfolding lane_size_def by blast
  qed
  have same: "so_effective_target (observe pol E lane S') = so_effective_target (observe pol E lane S)" by (simp add: observe_def Let_def assms(6))
  have "so_effective_target (observe pol E lane S') = sp_target p" "so_effective_low (observe pol E lane S') \<le> sp_target p"
    "sp_target p \<le> so_effective_high (observe pol E lane S')"
    using observed_band [of pol E lane S'] R(3) same p by metis+
  then have "in_band (observe pol E lane S')" using size by (simp add: in_band_def observed_current)
  then show ?thesis using size by (simp add: evaluate_lane_def Let_def)
qed

section \<open>A pool at work\<close>

text \<open>The harness counts its sessions; every archive succeeds.\<close>

definition demo_pool_env :: "(activity_env \<times> ActivityJournal) option \<Rightarrow> nat pool_env" where
  "demo_pool_env act = \<lparr>pe_spawn = (\<lambda>_ _ n. (Inr \<lparr>hs_sid = nat_digits n, hs_status = ''running''\<rparr>, n + 1)),
     pe_archive = (\<lambda>sid n. (Inr [(''archived'', JBool True), (''transcript_path'', JStr sid)], n)), pe_clock = (\<lambda>n. 1), pe_stamp = (\<lambda>n. 1),
     pe_host = (\<lambda>_. \<lparr>h_cores = 8, h_ram_gb = 64, h_disk_gb = 64\<rparr>), pe_activity = act, pe_repr = id, pe_str = (\<lambda>_. [])\<rparr>"

definition demo_issued :: "nat \<Rightarrow> string set" where
  "demo_issued n = nat_digits ` {k. k < n}"

lemma demo_fresh: "issues_fresh (demo_pool_env act) demo_issued"
proof -
  have "inj nat_digits" by (metis injI option.inject parse_nat_digits)
  then show ?thesis by (auto simp: issues_fresh_def demo_pool_env_def demo_issued_def inj_eq)
qed

definition demo_desc :: SessionDescriptor where
  "demo_desc = \<lparr>sd_repo = ''r'', sd_branch = ''b'', sd_model = [], sd_quality = ''sandbox'', sd_mode = ''direct''\<rparr>"

definition no_panes :: "nat pool_state" where
  "no_panes = \<lparr>ps_harness = 0, ps_pool = [], ps_journal = empty_partition\<rparr>"

definition demo_scaled :: "(string \<times> int) list \<Rightarrow> nat pool_state" where
  "demo_scaled reqs = fold (\<lambda>(lane, t) S. snd (scale (demo_pool_env None) lane demo_desc [] t S)) reqs no_panes"

lemma no_panes_inv: "pool_inv demo_issued no_panes"
  by (simp add: pool_inv_def pool_ok_def no_panes_def)

lemma scale_stays_in_lane_witness:
  "\<exists>ms S'. scale (demo_pool_env None) ''x'' demo_desc [] 3 no_panes = (Inr ms, S') \<and> length ms = 3 \<and> pool_inv demo_issued S'"
proof -
  obtain r S' where s: "scale (demo_pool_env None) ''x'' demo_desc [] 3 no_panes = (r, S')" by fastforce
  have "case fst (scale (demo_pool_env None) ''x'' demo_desc [] 3 no_panes) of Inr ms \<Rightarrow> length ms = 3 | Inl _ \<Rightarrow> False" by code_simp
  then obtain ms where "r = Inr ms" "length ms = 3" by (cases r) (simp_all add: s)
  then show ?thesis using s scale_stays_in_lane [OF demo_fresh no_panes_inv s] by blast
qed

lemma lanes_hold_their_targets_witness:
  "lane_size ''x'' (demo_scaled [(''x'', 2), (''y'', 1), (''x'', 1)]) = 1 \<and> lane_size ''y'' (demo_scaled [(''x'', 2), (''y'', 1), (''x'', 1)]) = 1"
proof -
  have s: "lane_scaled (lane, t) (demo_pool_env None, demo_issued, S) (demo_pool_env None, demo_issued, snd (scale (demo_pool_env None) lane demo_desc [] t S))"
    if "case fst (scale (demo_pool_env None) lane demo_desc [] t S) of Inr ms \<Rightarrow> int (length ms) = t | Inl _ \<Rightarrow> False" for lane t S
    using that by (cases "scale (demo_pool_env None) lane demo_desc [] t S"; cases "fst (scale (demo_pool_env None) lane demo_desc [] t S)")
      (auto simp: lane_scaled_def)
  have d: "demo_scaled (reqs @ [(lane, t)]) = snd (scale (demo_pool_env None) lane demo_desc [] t (demo_scaled reqs))" for reqs lane t
    by (simp add: demo_scaled_def)
  have "lane_scaled (''x'', 2) (demo_pool_env None, demo_issued, demo_scaled []) (demo_pool_env None, demo_issued, demo_scaled ([] @ [(''x'', 2)]))"
    unfolding d by (rule s) code_simp
  moreover have "lane_scaled (''y'', 1) (demo_pool_env None, demo_issued, demo_scaled [(''x'', 2)]) (demo_pool_env None, demo_issued, demo_scaled ([(''x'', 2)] @ [(''y'', 1)]))"
    unfolding d by (rule s) code_simp
  moreover have "lane_scaled (''x'', 1) (demo_pool_env None, demo_issued, demo_scaled [(''x'', 2), (''y'', 1)])
       (demo_pool_env None, demo_issued, demo_scaled ([(''x'', 2), (''y'', 1)] @ [(''x'', 1)]))"
    unfolding d by (rule s) code_simp
  moreover have "demo_scaled [] = no_panes" by (simp add: demo_scaled_def)
  ultimately have "chain lane_scaled [(''x'', 2), (''y'', 1), (''x'', 1)] (demo_pool_env None, demo_issued, no_panes)
      (demo_pool_env None, demo_issued, demo_scaled [(''x'', 2), (''y'', 1), (''x'', 1)])" unfolding chain.simps append.simps by metis
  note c = this
  show ?thesis using lanes_hold_their_targets [OF demo_fresh no_panes_inv c, of "''x''"] lanes_hold_their_targets [OF demo_fresh no_panes_inv c, of "''y''"]
    by simp
qed

definition demo_policy :: AutoscalePolicy where
  "demo_policy = \<lparr>ap_rolling = \<lparr>rt_target = 2, rt_safe_low = 1, rt_safe_high = 3, rt_mode = ''recommended'', rt_hard_ceiling = 12,
     rt_schema = POLICY_SCHEMA\<rparr>, ap_parent_card = ''c'', ap_digest = (\<lambda>_. ''0'')\<rparr>"

definition demo_proposal :: "nat pool_state \<Rightarrow> ScaleProposal" where
  "demo_proposal S = the (snd (evaluate_lane demo_policy (demo_pool_env None) ''x'' S))"

lemma demo_up:
  "\<exists>ms S'. evaluate_lane demo_policy (demo_pool_env None) ''x'' no_panes = (observe demo_policy (demo_pool_env None) ''x'' no_panes, Some (demo_proposal no_panes))
     \<and> execute demo_policy (demo_pool_env None) (\<lambda>_. True) demo_desc [] None None (demo_proposal no_panes) no_panes = (Inr ms, S') \<and> lane_size ''x'' S' = 2"
proof -
  obtain r S' where x: "execute demo_policy (demo_pool_env None) (\<lambda>_. True) demo_desc [] None None (demo_proposal no_panes) no_panes = (r, S')" by fastforce
  have e: "evaluate_lane demo_policy (demo_pool_env None) ''x'' no_panes = (observe demo_policy (demo_pool_env None) ''x'' no_panes, Some (demo_proposal no_panes))"
    by code_simp
  have "case execute demo_policy (demo_pool_env None) (\<lambda>_. True) demo_desc [] None None (demo_proposal no_panes) no_panes of
      (Inr ms, S') \<Rightarrow> lane_size ''x'' S' = 2 | _ \<Rightarrow> False" by code_simp
  then show ?thesis using e by (cases r) (simp_all add: x)
qed

lemma execute_is_authorized_witness:
  "\<exists>ms S'. execute demo_policy (demo_pool_env None) (\<lambda>_. True) demo_desc [] None None (demo_proposal no_panes) no_panes = (Inr ms, S')
     \<and> sp_parent_card (demo_proposal no_panes) = ap_parent_card demo_policy"
  using demo_up execute_is_authorized by metis

lemma policy_settles_witness:
  "\<exists>ms S'. execute demo_policy (demo_pool_env None) (\<lambda>_. True) demo_desc [] None None (demo_proposal no_panes) no_panes = (Inr ms, S')
     \<and> snd (evaluate_lane demo_policy (demo_pool_env None) ''x'' S') = None"
proof -
  obtain ms S' where e: "evaluate_lane demo_policy (demo_pool_env None) ''x'' no_panes
      = (observe demo_policy (demo_pool_env None) ''x'' no_panes, Some (demo_proposal no_panes))"
    and x: "execute demo_policy (demo_pool_env None) (\<lambda>_. True) demo_desc [] None None (demo_proposal no_panes) no_panes = (Inr ms, S')"
    using demo_up by blast
  have R: "mk_RollingTarget (ap_rolling demo_policy) = Inr (ap_rolling demo_policy)" by code_simp
  have h: "pe_host (demo_pool_env None) (ps_harness S') = pe_host (demo_pool_env None) (ps_harness no_panes)" by (simp add: demo_pool_env_def)
  have "None = Some rec \<Longrightarrow> pool_inv demo_issued T'" for rec :: "nat recorder" and T' by simp
  from policy_settles [OF R demo_fresh no_panes_inv e x h this] x show ?thesis by blast
qed

section \<open>Horizontal placement\<close>

text \<open>A card is only placed on a node that was observed ready with a heartbeat within the age, and only when this node is in the roster.\<close>

theorem horizontal_only_live:
  assumes "propose_horizontal select fresh_views ref tags (observe_live_fleet roster age max_age v) = pp" and "pp_node pp = Some n"
    and "\<And>vs r sel node reason. select vs r sel = Inr (Some node, reason) \<Longrightarrow> node \<in> fn_name ` set vs"
  shows "\<exists>me nodes. v = Views me nodes \<and> me \<in> fn_name ` set nodes \<and> (\<exists>f \<in> set nodes. fn_name f = n \<and> fresh max_age f)"
proof -
  let ?F = "observe_live_fleet roster age max_age v"
  have f: "fo_functional ?F" using assms(1,2) by (auto simp: propose_horizontal_def split: if_splits)
  then obtain me nodes where v: "v = Views me nodes" by (cases v) (simp_all add: observe_live_fleet_def)
  with f have F: "me \<in> fn_name ` set nodes" "fo_nodes ?F = nodes" "fo_max_age ?F = max_age"
    by (auto simp: observe_live_fleet_def Let_def split: if_splits)
  let ?views = "filter (\<lambda>v. fn_name v \<in> set (map fn_name (filter (fresh max_age) nodes))) fresh_views"
  obtain reason where "select ?views ref (card_selector tags) = Inr (Some n, reason)"
    using assms(1,2) f F(2,3) by (cases "select ?views ref (card_selector tags)") (auto simp: propose_horizontal_def Let_def)
  from assms(3) [OF this] show ?thesis using v F(1) by auto
qed

lemma horizontal_only_live_witness:
  "pp_node (propose_horizontal (\<lambda>vs _ _. Inr (map_option fn_name (List.find (\<lambda>_. True) vs), [])) [\<lparr>fn_name = ''a'', fn_phase = ''Ready'', fn_heartbeat_age_s = Some 3, fn_cores = 8, fn_ram_gb = 8\<rparr>]
       ''c'' [] (observe_live_fleet (\<lambda>_ _. []) (\<lambda>_. []) 120 (Views ''a'' [\<lparr>fn_name = ''a'', fn_phase = ''Ready'', fn_heartbeat_age_s = Some 3, fn_cores = 8, fn_ram_gb = 8\<rparr>])))
     = Some ''a''
   \<and> (\<exists>f \<in> {\<lparr>fn_name = ''a'', fn_phase = ''Ready'', fn_heartbeat_age_s = Some 3, fn_cores = 8, fn_ram_gb = 8\<rparr>}. fn_name f = ''a'' \<and> fresh 120 f)"
proof -
  let ?n = "\<lparr>fn_name = ''a'', fn_phase = ''Ready'', fn_heartbeat_age_s = Some 3, fn_cores = 8, fn_ram_gb = 8\<rparr>"
  let ?s = "\<lambda>vs (_ :: string) (_ :: (string \<times> string) list). Inr (map_option fn_name (List.find (\<lambda>_. True) vs), []) :: string + string option \<times> string"
  have p: "pp_node (propose_horizontal ?s [?n] ''c'' [] (observe_live_fleet (\<lambda>_ _. []) (\<lambda>_. []) 120 (Views ''a'' [?n]))) = Some ''a''" by code_simp
  have "?s vs r sel = Inr (Some node, reason) \<Longrightarrow> node \<in> fn_name ` set vs" for vs r sel node reason
    by (auto simp: find_Some_iff)
  from horizontal_only_live [OF refl p this] p show ?thesis by auto
qed

section \<open>Where it fails\<close>

text \<open>A deviation: an observation can fail the verb that it observes. The publication of an event raises when the last row of the journal is corrupt,
  and this error is not one of those that the pool swallows: the pane was started and is tracked, but the caller gets
  an exception.\<close>

theorem observation_fails_spawn:
  "(case spawn (demo_pool_env (Some (demo_activity [], demo_journal))) ''x'' demo_desc []
       (no_panes\<lparr>ps_journal := \<lparr>pt_events = Some [CHR ''x'', NL], pt_head = None\<rparr>\<rparr>) of
     (r, S) \<Rightarrow> r = Inl (RuntimeError ''last committed activity row is corrupt'') \<and> keys (ps_pool S) = [''0''] \<and> ps_harness S = 1)"
  by code_simp

definition pane :: "nat \<Rightarrow> string \<times> PoolMember" where
  "pane n = (nat_digits n, \<lparr>pm_sid = nat_digits n, pm_lane = ''x'', pm_repo = ''r'', pm_branch = ''b'',
     pm_session = \<lparr>hs_sid = nat_digits n, hs_status = ''running''\<rparr>, pm_spawned_at = 1, pm_drained = False, pm_drain_result = []\<rparr>)"

definition four_panes :: "nat pool_state" where
  "four_panes = \<lparr>ps_harness = 4, ps_pool = map pane [0, 1, 2, 3], ps_journal = empty_partition\<rparr>"

definition demo_preflight :: TeardownPreflight where
  "demo_preflight = \<lparr>tp_exact_lane = ''x'', tp_exact_current = 4, tp_exact_target = 2, tp_host_healthy = True, tp_panes_healthy = True,
     tp_evidence_recorded = True, tp_parent_card_linked = ''c'', tp_evidence_ref = ''e''\<rparr>"

text \<open>While it is awaited, the lane gets a fifth pane.\<close>

definition slow_recorder :: "nat recorder" where
  "slow_recorder = (\<lambda>_ _ T. (Inr (), snd (scale (demo_pool_env None) ''x'' demo_desc [] 5 T)))"


text \<open>A deviation: the board query raises on a card whose labels are not a list, where it promises an empty answer for an unexpected shape.\<close>

theorem board_query_raises:
  "poll_board (Some (Inr (JObj [(''lane'', JObj [(''doing'', JArr [JObj [(''status'', JStr ''doing''), (''labels'', JNum 1)]])])]))) [''doing''] [''a'']
     = Inl (TypeError ''object is not iterable'')"
  by code_simp

end
