(* ===== verification/Spec2Isabelle.thy ===== *)
theory Spec2Isabelle
  imports Scheduler Store EventLog Observability Controller Lineage Access Catalog Refinement Pareto Evaluation
    Paths Swarm Ledger SwarmControl SwarmRuns SwarmRecovery CompletionGate SwarmFinality Orchestrator
    Routing Sensitivity Dispatch Reconcile Glob Coverage MergeGate Engineering GatedRuns
    RunJournal Fleet BuildSwarm BuildRuns Activity ActivityRuns Pool PoolRuns
begin

text \<open>
  A verification library of \<open>skharness\<close>: the Evolution Arena (\<open>src/skharness/arena/\<close>), the control plane that
  admits experiments onto leased resources, keeps an append-only record of what happened, lets agents
  collaborate on the results, and runs teams of subagents under a shared budget; the session plane with its pool and
  activity journal; and the autonomous coding loop (\<open>src/skharness/autocode/\<close>): what model may see a card, how its work is reviewed, when it is merged,
  and which sandboxes are cleaned up.

  \<^bold>\<open>The parts and how they interact.\<close> A controller (\<open>controller.py\<close>) admits attempts through a lease
  scheduler (\<open>scheduler.py\<close>) and records every lifecycle change in a store of hash-chained event logs
  (\<open>store.py\<close>) whose records are the frozen models of \<open>models.py\<close>; it counts outcomes in a metrics
  registry (\<open>status.py\<close>). Views over the stored records are the lineage graph (\<open>lineage.py\<close>), the
  collaboration catalog with its negative knowledge (\<open>collaboration.py\<close>) and the Pareto frontier
  (\<open>metrics.py\<close>). Ownership of attempts (\<open>access.py\<close>) follows the scheduler's leases and guards
  messages and branches. The refinement journal (\<open>collaboration.py\<close>) governs what may be promoted into
  durable memory, and \<open>evaluation.py\<close> gates training. A swarm plan (\<open>swarm.py\<close>) is a layered graph of phases
  whose contracts are admitted by the swarm scheduler (\<open>swarm_control.py\<close>) against a team budget ledger;
  the orchestrator (\<open>swarm_orchestrator.py\<close>) drives the phases, and only the completion gate
  (\<open>swarm_verifier.py\<close>) may declare the team's work done.
  In the coding loop a model's reply is parsed into a grade (\<open>grading.py\<close>), the rules give the card a zone
  (\<open>sensitivity.py\<close>), both address a bucket of the model gateway (\<open>buckets.py\<close>) that is attached to the brief
  (\<open>routing_guard.py\<close>) and from which the grader's own bucket follows (\<open>grader_pin.py\<close>); the quality of the
  review and the executor are resolved from configuration and tags (\<open>orchestrator.py\<close>); the ledger reports
  how often a bigger class served (\<open>escalation.py\<close>); before a sandbox is admitted, orphans of earlier runs are
  removed (\<open>sandbox_lifecycle.py\<close>). The gated executor (\<open>engineering.py\<close>) runs a card for up to four rounds; a
  round passes on external CI and the coverage of the diff (\<open>ci.py\<close>) together with a grade; landing settles
  the card once, and merges only past the protected floor (\<open>protected.py\<close>), the checks of the pull request
  and the merge policy of the branch (\<open>merge_method.py\<close>).
  The orchestrator's build phase (\<open>orchestrator.py\<close>) triages the candidates to executors, keeps the cards that the
  fleet places on this node (\<open>fleet_dispatch.py\<close>), and builds them in as many threads as the host carries
  (\<open>autoscale.py\<close>), under a budget; the executors and the phase itself share the journal of the run (\<open>journal.py\<close>).
  In the session plane (\<open>src/skharness/\<close>) a pool of panes (\<open>pool.py\<close>) is scaled by a policy (\<open>autoscale_policy.py\<close>) that takes
  its headroom from the same resources, and reports what it does to the activity journal (\<open>activity.py\<close>).

  \<^bold>\<open>The theories.\<close>
  \<^item> \<open>Prelude\<close>: Python values, exceptions as values (\<open>exn\<close>, \<open>result\<close>), sequencing (\<open>check\<close>, \<open>rbind\<close>, \<open>rfold\<close>,
    \<open>rmap\<close>, \<open>sbind\<close>), strings, dictionaries as association lists.
  \<^item> \<open>Lifecycle\<close>: the locale \<open>lifecycle\<close> (a transition table that only moves forward), interpreted for the
    experiment lifecycle and the refinement lifecycle, and hash chains.
  \<^item> \<open>Scheduler\<close>: \<open>LeaseScheduler\<close>. State: leases and the key index; clock readings and lease ids are
    arguments. Capacity is never exceeded, one active lease per key, the exact outcome of \<open>admit\<close>.
  \<^item> \<open>Models\<close>, \<open>Store\<close>, \<open>EventLog\<close>: records with their validators; segments, artifacts and records; the locale
    \<open>experiment_log\<close> says what the controller relies on and is interpreted for the store. An appended
    event is read back, the head of a log commits its history, what a torn write can do.
  \<^item> \<open>Observability\<close>, \<open>Controller\<close>: the metrics registry and \<open>ArenaController\<close>. Every attempt in the log follows
    the lifecycle, an attempt is admitted once, cancelling frees its lease.
  \<^item> \<open>Lineage\<close>, \<open>Catalog\<close>: the lineage stays acyclic, ancestors and descendants are dual and both walks end;
    evidence is bound to its experiments, reproductions and mutations are authorised and traceable.
  \<^item> \<open>Access\<close>: the locale \<open>lease_authority\<close> is what ownership relies on and is interpreted for the scheduler.
  \<^item> \<open>Refinement\<close>: the journal, with its unlocked checks racing its writers and crashes between two writes.
    Promotion is governed.
  \<^item> \<open>Pareto\<close>, \<open>Evaluation\<close>: the frontier is exact, covers the admissible set and does not depend on the input
    order; reports need a complete matrix; the training gate is exact.
  \<^item> \<open>Paths\<close>, \<open>Swarm\<close>: write scopes overlap exactly when they share a path; contracts, results, receipts and
    authorizations with every check of their validators; plans are layered, bindings are exact.
  \<^item> \<open>Ledger\<close>: \<open>TeamBudgetLedger\<close> behind the locale \<open>budget_ledger\<close>. Never overbooked, always settleable.
  \<^item> \<open>SwarmControl\<close>, \<open>SwarmRuns\<close>: \<open>SwarmScheduler\<close> and its runs. The invariant \<open>swarm_inv\<close> ties contracts,
    leases, keys and ledger; every operation keeps it.
  \<^item> \<open>SwarmRecovery\<close>: checkpoints and \<open>recover\<close> with its validation. Whatever the checkpoint, an accepted one
    gives a scheduler within its budget whose active leases are live and reserved.
  \<^item> \<open>CompletionGate\<close>: \<open>SwarmCompletionGate\<close> and the attestation models. \<open>lineage_complete\<close> and \<open>approves\<close> are its
    contract; \<open>evaluate\<close> implements it exactly, and an accepted commit was built by the plan's builders.
  \<^item> \<open>SwarmFinality\<close>, \<open>Orchestrator\<close>: \<open>TrustedSwarmOrchestrator\<close> over the scheduler and the gate. \<open>keeps\<close> is what no
    scheduler call undoes; an authorized run reports only results that finished leases hold, and a refused
    one closes the team and names every worker that was not seen to stop. The worker threads are a script
    of the turns of the wait loop; a script that ends too early is \<open>None\<close>.
  \<^item> \<open>Routing\<close>, \<open>Sensitivity\<close>, \<open>Dispatch\<close>: grades, buckets, zones, quality and the escalation report. A graded card runs
    in the class and the zone of its grade, public only by an override, ungated only by the operator; the
    report equals the tallies of its rows. Regular expressions of the sensitivity rules are a parameter.
  \<^item> \<open>Reconcile\<close>: orphan reconciliation over a Docker that answers commands. \<open>proven_orphan\<close> is its contract: only
    such groups are removed, and the status accounts for every run.
  \<^item> \<open>Glob\<close>, \<open>Coverage\<close>: file name patterns, the added lines of a diff, its coverage, the CI verdict. The parser is
    exact on the diffs that it is for; a ratio was measured by a run of this diff; green is earned.
  \<^item> \<open>MergeGate\<close>: the protected floor, the merge method and the checks of a pull request, each with its exact
    contract.
  \<^item> \<open>Engineering\<close>, \<open>GatedRuns\<close>: the gated executor. State: usage on the books, settled cards, the trace of what was
    done; what the outside answers is a function of the trace. A pass is earned on one diff, a merge needs every
    gate, a card is settled once.
  \<^item> \<open>RunJournal\<close>, \<open>Fleet\<close>: the file of a run, changed by the executors through a handle; the worker count of a host and the
    node of a card. What an executor records is found again; two nodes that agree on the fleet never run the same card.
  \<^item> \<open>BuildSwarm\<close>, \<open>BuildRuns\<close>: triage and the build phase of the orchestrator. State: the entries, the journal file, the
    ledger, decisions, outcome rows and the executors' own state. A thread of the pool is a program counter (\<open>thread\<close>),
    \<open>tick\<close> is its next atomic step, a schedule picks the threads; the sequential path runs each thread to its end
    (\<open>drive\<close>, by a lexicographic measure). Every candidate is accounted for, an item leaves one row, the budget is
    overrun by at most the builds in flight, the sequence is one of the schedules.
  \<^item> \<open>Activity\<close>, \<open>ActivityRuns\<close>: the observation journal of a node as the bytes of its files, and the merged view. A run mixes
    publications with torn writes and crashes between the writes; the journal is never found corrupt, what is
    published is replayed, pages have no gaps, the backward search for a line feed is exact.
  \<^item> \<open>Pool\<close>, \<open>PoolRuns\<close>: the session pool and its scaling policy. State: the tracked panes, the harness, the journal. The locale
    \<open>lane_scaler\<close> is what an operator relies on and is interpreted for the pool: every lane has the size asked last.
    The policy acts only with authority, and is content after it has acted.

  \<^bold>\<open>Reading the model.\<close> A method is a function of the state that returns a result beside the new state when
  it can write before it raises, and a result otherwise. Methods run under the lock of their object,
  so a run is a sequence of method calls (the \<open>_step\<close> and \<open>_reachable\<close> relations). Hashes, JSON codecs,
  random ids and clocks are parameters; where a theorem needs a law of one (a dumped record parses back, a
  digest is injective on the records at hand) it is a hypothesis, and the concrete runs give a codec
  that has it. No definition uses fuel: loops are structural recursion or have a termination proof,
  except the queue of \<open>descendants\<close>, a partial function that is shown to return.

  \<^bold>\<open>Deviations found.\<close> Theorems state what the code does where it does not do what it means to, or what
  its documentation says: a torn record can corrupt a log, a clock stepping back reopens a finished attempt, late
  usage can break the ledger rebuild, a charge after a usage report makes a checkpoint unrecoverable, a crash strands
  a proposal, a tolerance can empty a frontier, a bucket id may end in a line feed, a malformed row silences a
  report, a worker with malformed labels does not protect its run, a diff that cannot be read opens the
  carve-out, the coverage of a diff can be evaded, cancelled checks count as passed, the protected floor has
  gaps, the build phase erases what executors wrote to the journal, so that a card may fail to land, the merged
  activity view skips events when a clock is set back, a redaction can make a summary too long, an observation can fail
  the verb it observes, the preflight of a teardown can be out of date, and the board query can raise.

  \<^bold>\<open>Not modelled.\<close> Floats are reals (no rounding, infinities or NaN). The bytes and the
  file of a swarm checkpoint; the process supervisors, model gateways, sandboxes, HTTP services and
  command lines that only move data between these components and the outside (\<open>runner.py\<close>,
  \<open>swarm_pi.py\<close>, \<open>verifier.py\<close>, \<open>daemon.py\<close>, \<open>harnesses/\<close>, \<open>sandbox/\<close>, \<open>scripts/\<close>); of
  \<open>autocode/\<close>, its sandboxes, adapters and ledgers, the assessment, decomposition and tick of its orchestrator, and the
  policies not named above; of the executor, git worktrees, attempt memory, the mutation probe and revert; of the
  build phase, session registration and health records.
\<close>

end
